(* ===== verification/Hwc_Prelude.thy ===== *)
theory Hwc_Prelude
  imports Main "HOL-Library.Word"
begin

text \<open>
  Shared vocabulary of the development: the machine types of the C++ sources, the pieces of the
  C++ standard library the sources call (string search, \<open>std::from_chars\<close>, decimal printing,
  the character classes of the C locale), the big-endian byte layout used by every wire format
  of the repository, and the generic lemmas on lists and words that the components share.

  A \<open>(pointer, size)\<close> pair, a \<open>std::span\<close>, a \<open>std::vector\<close> and a \<open>std::array\<close> of bytes are
  the list of the bytes they denote; a \<open>std::string\<close> or \<open>std::string_view\<close> is a HOL string,
  whose characters are bytes; \<open>std::size_t\<close> values that count elements in memory are \<open>nat\<close>.
\<close>

unbundle bit_operations_syntax

type_synonym byte = "8 word"
type_synonym u16 = "16 word"
type_synonym u32 = "32 word"
type_synonym u64 = "64 word"

named_theorems wire_layout "lengths and element facts of encoded byte sequences"
named_theorems parse_simps "evaluation of the parsers on rendered input"

section \<open>Characters and bytes\<close>

definition char_of_byte :: "byte \<Rightarrow> char" where
  "char_of_byte b = char_of (unat b)"

definition byte_of_char :: "char \<Rightarrow> byte" where
  "byte_of_char c = word_of_nat (of_char c)"

lemma byte_of_char_of_byte [simp]: "byte_of_char (char_of_byte b) = b"
proof -
  have "unat b < 256" using unsigned_less [of b] by simp
  then show ?thesis by (simp add: byte_of_char_def char_of_byte_def)
qed

lemma char_of_byte_of_char [simp]: "char_of_byte (byte_of_char c) = c"
proof -
  have "(of_char c :: nat) < 256" by (rule nat_of_char_less_256)
  then have "unat (word_of_nat (of_char c) :: byte) = of_char c"
    by (simp add: unat_of_nat)
  then show ?thesis by (simp add: byte_of_char_def char_of_byte_def)
qed

text \<open>\<open>reinterpret_cast\<close> between byte buffers and character buffers.\<close>

definition chars_of :: "byte list \<Rightarrow> string" where
  "chars_of bs = map char_of_byte bs"

definition bytes_of :: "string \<Rightarrow> byte list" where
  "bytes_of s = map byte_of_char s"

lemma chars_of_bytes_of [simp]: "chars_of (bytes_of s) = s"
  by (simp add: chars_of_def bytes_of_def comp_def)

lemma bytes_of_chars_of [simp]: "bytes_of (chars_of bs) = bs"
  by (simp add: chars_of_def bytes_of_def comp_def)

lemma length_chars_of [simp]: "length (chars_of bs) = length bs"
  by (simp add: chars_of_def)

lemma length_bytes_of [simp]: "length (bytes_of s) = length s"
  by (simp add: bytes_of_def)

lemma bytes_of_inject [simp]: "bytes_of s = bytes_of t \<longleftrightarrow> s = t"
  by (metis chars_of_bytes_of)

lemma bytes_of_append [simp]: "bytes_of (s @ t) = bytes_of s @ bytes_of t"
  by (simp add: bytes_of_def)

text \<open>The character classes of \<open>cctype\<close> in the C locale.\<close>

definition ord :: "char \<Rightarrow> nat" where
  "ord c = of_char c"

definition isdigit :: "char \<Rightarrow> bool" where
  "isdigit c \<longleftrightarrow> 48 \<le> ord c \<and> ord c \<le> 57"

definition isupper :: "char \<Rightarrow> bool" where
  "isupper c \<longleftrightarrow> 65 \<le> ord c \<and> ord c \<le> 90"

definition islower :: "char \<Rightarrow> bool" where
  "islower c \<longleftrightarrow> 97 \<le> ord c \<and> ord c \<le> 122"

definition isalnum :: "char \<Rightarrow> bool" where
  "isalnum c \<longleftrightarrow> isdigit c \<or> isupper c \<or> islower c"

definition isspace :: "char \<Rightarrow> bool" where
  "isspace c \<longleftrightarrow> ord c = 32 \<or> (9 \<le> ord c \<and> ord c \<le> 13)"

definition tolower :: "char \<Rightarrow> char" where
  "tolower c = (if isupper c then char_of (ord c + 32) else c)"

definition lower_hex_digit :: "char \<Rightarrow> bool" where
  "lower_hex_digit c \<longleftrightarrow> isdigit c \<or> (97 \<le> ord c \<and> ord c \<le> 102)"

lemma ord_less_256: "ord c < 256"
  by (simp add: ord_def)

lemma ord_char_of: "n < 256 \<Longrightarrow> ord (char_of n) = n"
  by (simp add: ord_def)

lemma ord_inject: "ord c = ord d \<longleftrightarrow> c = d"
  by (simp add: ord_def)

lemma tolower_idem [simp]: "tolower (tolower c) = tolower c"
  by (auto simp: tolower_def isupper_def ord_char_of)

abbreviation dquote :: char where "dquote \<equiv> CHR 0x22"
abbreviation backslash :: char where "backslash \<equiv> CHR 0x5C"
abbreviation newline :: char where "newline \<equiv> CHR 0x0A"
abbreviation carriage_return :: char where "carriage_return \<equiv> CHR 0x0D"
abbreviation tabulator :: char where "tabulator \<equiv> CHR 0x09"
abbreviation crlf :: string where "crlf \<equiv> [CHR 0x0D, CHR 0x0A]"

definition json_space :: "char \<Rightarrow> bool" where
  "json_space c \<longleftrightarrow> c = CHR '' '' \<or> c = tabulator \<or> c = carriage_return \<or> c = newline"

section \<open>Searching in strings\<close>

text \<open>
  \<open>std::string_view::find\<close>: the least position at or after \<open>pos\<close> where the pattern starts;
  \<open>npos\<close> is None.
\<close>

fun find_sub :: "'a list \<Rightarrow> 'a list \<Rightarrow> nat option" where
  "find_sub pat [] = (if pat = [] then Some 0 else None)"
| "find_sub pat (x # xs) =
     (if take (length pat) (x # xs) = pat then Some 0 else map_option Suc (find_sub pat xs))"

definition find_from :: "'a list \<Rightarrow> 'a list \<Rightarrow> nat \<Rightarrow> nat option" where
  "find_from s pat pos =
     (if pos \<le> length s then map_option ((+) pos) (find_sub pat (drop pos s)) else None)"

text \<open>\<open>string_view::substr(pos, count)\<close>.\<close>

definition substr :: "'a list \<Rightarrow> nat \<Rightarrow> nat \<Rightarrow> 'a list" where
  "substr s pos count = take count (drop pos s)"

definition starts_with :: "'a list \<Rightarrow> 'a list \<Rightarrow> bool" where
  "starts_with s pat \<longleftrightarrow> take (length pat) s = pat"

lemma starts_with_append [simp]: "starts_with (pat @ s) pat"
  by (simp add: starts_with_def)

lemma find_sub_SomeD:
  "find_sub pat s = Some i \<Longrightarrow> i \<le> length s \<and> take (length pat) (drop i s) = pat"
  by (induction s arbitrary: i) (auto split: if_splits)

lemma find_sub_bound: "find_sub pat s = Some i \<Longrightarrow> i + length pat \<le> length s"
  using find_sub_SomeD [of pat s i] by (metis length_drop length_take
      min.cobounded1 le_diff_conv2 add.commute)

lemma find_sub_prefix: "find_sub pat (pat @ s) = Some 0"
proof (cases "pat @ s")
  case Nil
  then show ?thesis by simp
next
  case (Cons x xs)
  have "take (length pat) (pat @ s) = pat" by simp
  with Cons show ?thesis by simp
qed

text \<open>A single character is found at the first place it occurs.\<close>

lemma find_sub_char_skip: "c \<notin> set p \<Longrightarrow> find_sub [c] (p @ s) = map_option ((+) (length p)) (find_sub [c] s)"
  by (cases "find_sub [c] s") (induction p; auto)+

lemma find_sub_char_None: "find_sub [c] s = None \<longleftrightarrow> c \<notin> set s"
  by (induction s) auto

lemma find_from_SomeD:
  "find_from s pat pos = Some i \<Longrightarrow>
     pos \<le> i \<and> i + length pat \<le> length s \<and> take (length pat) (drop i s) = pat"
proof -
  assume "find_from s pat pos = Some i"
  then obtain j where le: "pos \<le> length s" and j: "find_sub pat (drop pos s) = Some j" and i: "i = pos + j"
    by (auto simp: find_from_def split: if_splits)
  from find_sub_bound [OF j] find_sub_SomeD [OF j] le i show ?thesis
    by (simp add: add.commute)
qed

text \<open>Fields joined by a separator no field contains can be told apart.\<close>

lemma split_at_separator:
  assumes "sep \<notin> set x" and "sep \<notin> set y"
  shows "x @ sep # s = y @ sep # t \<longleftrightarrow> x = y \<and> s = t"
  using assms
proof (induction x arbitrary: y)
  case Nil
  then show ?case by (cases y) auto
next
  case (Cons a x)
  then show ?case by (cases y) auto
qed

lemma drop_ConsD:
  "drop n xs = y # ys \<Longrightarrow> n < length xs \<and> xs ! n = y \<and> drop (Suc n) xs = ys"
  by (metis drop_Suc drop_eq_Nil hd_drop_conv_nth list.distinct(1) list.sel(1,3) not_le tl_drop)

lemma find_sub_char_Some:
  "find_sub [c] s = Some i \<longleftrightarrow> (\<exists>p q. s = p @ c # q \<and> c \<notin> set p \<and> i = length p)"
proof
  show "find_sub [c] s = Some i \<Longrightarrow> \<exists>p q. s = p @ c # q \<and> c \<notin> set p \<and> i = length p"
  proof (induction s arbitrary: i)
    case (Cons x s)
    show ?case
    proof (cases "x = c")
      case True
      with Cons.prems show ?thesis by (intro exI [of _ "[]"] exI [of _ s]) auto
    next
      case False
      then obtain j where "find_sub [c] s = Some j" "i = Suc j" using Cons.prems by auto
      with Cons.IH [of j] False obtain p q where "s = p @ c # q" "c \<notin> set p" "i = Suc (length p)" by auto
      with False show ?thesis by (intro exI [of _ "x # p"] exI [of _ q]) auto
    qed
  qed simp
  show "\<exists>p q. s = p @ c # q \<and> c \<notin> set p \<and> i = length p \<Longrightarrow> find_sub [c] s = Some i"
    by (auto simp: find_sub_char_skip)
qed

lemma case_option_Some:
  "(case x of None \<Rightarrow> None | Some b \<Rightarrow> f b) = Some r \<longleftrightarrow> (\<exists>b. x = Some b \<and> f b = Some r)"
  by (cases x) auto

text \<open>A loop whose body keeps a length keeps it.\<close>

lemma length_foldl_keep:
  assumes "\<And>ws i. length (f ws i) = length ws"
  shows "length (foldl f ws is) = length ws"
  by (induction "is" arbitrary: ws) (simp_all add: assms)

text \<open>A loop that fills an array from index \<open>k\<close> on, each element from the ones before it.\<close>

lemma foldl_fill:
  assumes len: "length first = N" "k \<le> N" and start: "\<And>j. j < k \<Longrightarrow> first ! j = F j"
    and step: "\<And>ws i. \<lbrakk>k \<le> i; i < N; length ws = N; \<And>j. j < i \<Longrightarrow> ws ! j = F j\<rbrakk> \<Longrightarrow> body ws i = ws[i := F i]"
    and t: "t < N"
  shows "foldl body first [k..<N] ! t = F t"
proof -
  have inv: "length (foldl body first [k..<k + n]) = N \<and> (\<forall>j < k + n. foldl body first [k..<k + n] ! j = F j)"
    if "k + n \<le> N" for n
    using that
  proof (induction n)
    case 0
    then show ?case by (simp add: len start)
  next
    case (Suc n)
    define ws where "ws = foldl body first [k..<k + n]"
    have "length ws = N" "\<And>j. j < k + n \<Longrightarrow> ws ! j = F j" using Suc by (auto simp: ws_def)
    moreover have "body ws (k + n) = ws[k + n := F (k + n)]"
      using Suc.prems calculation by (intro step) auto
    moreover have "foldl body first [k..<k + Suc n] = body ws (k + n)"
      by (simp add: ws_def)
    ultimately show ?case using Suc.prems by (auto simp: nth_list_update less_Suc_eq)
  qed
  show ?thesis using inv [of "N - k"] len(2) t by simp
qed

section \<open>Numbers as text\<close>

text \<open>\<open>std::to_string\<close> and \<open>operator<<\<close> on an unsigned value.\<close>

definition digit_char :: "nat \<Rightarrow> char" where
  "digit_char d = char_of (48 + d)"

fun dec :: "nat \<Rightarrow> string" where
  "dec n = (if n < 10 then [digit_char n] else dec (n div 10) @ [digit_char (n mod 10)])"

declare dec.simps [simp del]

text \<open>
  \<open>std::from_chars\<close> on an unsigned value: the longest run of digits of the base, a value beyond
  the type's maximum being \<open>result_out_of_range\<close>. None is any error; Some gives the value and
  the number of characters consumed (\<open>ptr\<close>).
\<close>

definition digit_value :: "char \<Rightarrow> nat option" where
  "digit_value c =
     (if isdigit c then Some (ord c - 48)
      else if islower c then Some (ord c - 87)
      else if isupper c then Some (ord c - 55)
      else None)"

definition is_base_digit :: "nat \<Rightarrow> char \<Rightarrow> bool" where
  "is_base_digit base c \<longleftrightarrow> (case digit_value c of None \<Rightarrow> False | Some d \<Rightarrow> d < base)"

definition digits_value :: "nat \<Rightarrow> string \<Rightarrow> nat" where
  "digits_value base ds = foldl (\<lambda>v c. v * base + the (digit_value c)) 0 ds"

definition from_chars_unsigned :: "nat \<Rightarrow> nat \<Rightarrow> string \<Rightarrow> (nat \<times> nat) option" where
  "from_chars_unsigned base vmax s =
     (let ds = takeWhile (is_base_digit base) s; v = digits_value base ds
      in if ds = [] \<or> vmax < v then None else Some (v, length ds))"

text \<open>The signed overload accepts one leading minus sign.\<close>

definition from_chars_int64 :: "string \<Rightarrow> (int \<times> nat) option" where
  "from_chars_int64 s =
     (case s of
        [] \<Rightarrow> None
      | c # rest \<Rightarrow>
          (if c = CHR ''-'' then
             (case from_chars_unsigned 10 (2 ^ 63) rest of
                None \<Rightarrow> None | Some (v, n) \<Rightarrow> Some (- int v, Suc n))
           else
             (case from_chars_unsigned 10 (2 ^ 63 - 1) s of
                None \<Rightarrow> None | Some (v, n) \<Rightarrow> Some (int v, n))))"

lemma digit_char_props:
  assumes "d < 10"
  shows "ord (digit_char d) = 48 + d" and "isdigit (digit_char d)"
    and "digit_value (digit_char d) = Some d" and "is_base_digit 10 (digit_char d)"
  using assms by (auto simp: digit_char_def ord_char_of isdigit_def digit_value_def is_base_digit_def)

lemma dec_not_Nil [simp]: "dec n \<noteq> []"
  by (subst dec.simps) simp

lemma dec_digits: "c \<in> set (dec n) \<Longrightarrow> isdigit c"
proof (induction n rule: dec.induct)
  case (1 n)
  show ?case
    using "1.prems" "1.IH"
    by (subst (asm) dec.simps) (auto simp: digit_char_props split: if_splits)
qed

lemma dec_base_digits: "c \<in> set (dec n) \<Longrightarrow> is_base_digit 10 c"
proof (induction n rule: dec.induct)
  case (1 n)
  show ?case
    using "1.prems" "1.IH"
    by (subst (asm) dec.simps) (auto simp: digit_char_props split: if_splits)
qed

lemma digits_value_snoc: "digits_value b (ds @ [c]) = digits_value b ds * b + the (digit_value c)"
  by (simp add: digits_value_def)

lemma digits_value_dec [simp]: "digits_value 10 (dec n) = n"
proof (induction n rule: dec.induct)
  case (1 n)
  show ?case
  proof (cases "n < 10")
    case True
    then show ?thesis by (subst dec.simps) (simp add: digits_value_def digit_char_props)
  next
    case False
    then have "digits_value 10 (dec (n div 10)) = n div 10" using "1.IH" by simp
    with False show ?thesis
      by (subst dec.simps) (simp add: digits_value_snoc digit_char_props)
  qed
qed

lemma dec_inject [simp]: "dec m = dec n \<longleftrightarrow> m = n"
  by (metis digits_value_dec)

lemma length_dec_le: "n < 10 ^ k \<Longrightarrow> 0 < k \<Longrightarrow> length (dec n) \<le> k"
proof (induction k arbitrary: n)
  case (Suc k)
  show ?case
  proof (cases "n < 10")
    case True
    then show ?thesis by (subst dec.simps) simp
  next
    case False
    then have "k \<noteq> 0" using Suc.prems(1) by (cases k) simp_all
    moreover have "n div 10 < 10 ^ k" using Suc.prems(1) by (simp add: less_mult_imp_div_less mult.commute)
    ultimately have "length (dec (n div 10)) \<le> k" using Suc.IH by simp
    with False show ?thesis by (subst dec.simps) simp
  qed
qed simp

lemma dec_no_leading_zero: "1 < length (dec n) \<Longrightarrow> hd (dec n) \<noteq> CHR ''0''"
proof (induction n rule: dec.induct)
  case (1 n)
  show ?case
  proof (cases "n < 10")
    case True
    then have "length (dec n) = 1" by (subst dec.simps) simp
    with "1.prems" show ?thesis by simp
  next
    case False
    then have eq: "hd (dec n) = hd (dec (n div 10))" by (subst dec.simps) simp
    show ?thesis
    proof (cases "n div 10 < 10")
      case True
      then have "hd (dec (n div 10)) = digit_char (n div 10)" by (subst dec.simps) simp
      moreover have "ord (CHR ''0'') = 48" by (simp add: ord_def)
      moreover have "ord (digit_char (n div 10)) = 48 + n div 10" using digit_char_props(1) [OF True] .
      ultimately show ?thesis using False eq by auto
    next
      case big: False
      then have "1 < length (dec (n div 10))" by (subst dec.simps) (simp add: Suc_lessI)
      with "1.IH" [OF False] eq show ?thesis by simp
    qed
  qed
qed

lemma from_chars_unsigned_whole:
  assumes "from_chars_unsigned 10 vmax p = Some (v, length p)"
  shows "list_all isdigit p" and "v = digits_value 10 p" and "p \<noteq> []"
proof -
  have tw: "length (takeWhile (is_base_digit 10) p) = length p" and v: "v = digits_value 10 (takeWhile (is_base_digit 10) p)"
    and ne: "takeWhile (is_base_digit 10) p \<noteq> []"
    using assms by (auto simp: from_chars_unsigned_def Let_def split: if_splits)
  have p: "takeWhile (is_base_digit 10) p = p" by (metis takeWhile_eq_take take_all order_refl tw)
  show "v = digits_value 10 p" "p \<noteq> []" using v ne unfolding p by simp_all
  have "isdigit c" if "is_base_digit 10 c" for c
    using that by (auto simp: is_base_digit_def digit_value_def isdigit_def islower_def isupper_def split: if_splits)
  then show "list_all isdigit p" using p by (auto simp: list_all_iff takeWhile_eq_all_conv)
qed

text \<open>A digit string without a leading zero is the decimal form of its value.\<close>

lemma digit_char_isdigit: "isdigit c \<Longrightarrow> digit_char (the (digit_value c)) = c \<and> the (digit_value c) < 10"
  by (auto simp: digit_value_def digit_char_def isdigit_def ord_def)

lemma dec_digits_value:
  "list_all isdigit p \<Longrightarrow> p \<noteq> [] \<Longrightarrow> 1 < length p \<longrightarrow> hd p \<noteq> CHR ''0'' \<Longrightarrow> dec (digits_value 10 p) = p"
proof (induction p rule: rev_induct)
  case (snoc c p)
  then have c: "digit_char (the (digit_value c)) = c" "the (digit_value c) < 10"
    using digit_char_isdigit [of c] by simp_all
  show ?case
  proof (cases "p = []")
    case True
    with c show ?thesis by (subst dec.simps) (simp add: digits_value_def)
  next
    case False
    then have hd: "hd p \<noteq> CHR ''0''" using snoc.prems by (cases p) auto
    then have ih: "dec (digits_value 10 p) = p" using snoc False by simp
    have "digits_value 10 p \<noteq> 0"
    proof
      assume "digits_value 10 p = 0"
      then have "p = dec 0" using ih by simp
      then have "hd p = CHR ''0''" by (subst (asm) dec.simps) (simp add: digit_char_def char_of_def bit_0)
      with hd show False by simp
    qed
    with c ih show ?thesis by (subst dec.simps) (simp add: digits_value_snoc)
  qed
qed simp

lemma from_chars_unsigned_dec:
  assumes "n \<le> vmax" and "rest = [] \<or> \<not> is_base_digit 10 (hd rest)"
  shows "from_chars_unsigned 10 vmax (dec n @ rest) = Some (n, length (dec n))"
proof -
  have "takeWhile (is_base_digit 10) (dec n @ rest) = dec n"
    using assms(2) by (cases rest) (auto simp: takeWhile_append dest: dec_base_digits)
  then show ?thesis using assms(1) by (simp add: from_chars_unsigned_def)
qed

section \<open>Big-endian integers\<close>

definition be_get16 :: "byte list \<Rightarrow> nat \<Rightarrow> u16" where
  "be_get16 bs i = push_bit 8 (ucast (bs ! i)) OR ucast (bs ! Suc i)"

definition be_get32 :: "byte list \<Rightarrow> nat \<Rightarrow> u32" where
  "be_get32 bs i =
     push_bit 24 (ucast (bs ! i)) OR push_bit 16 (ucast (bs ! (i + 1)))
     OR push_bit 8 (ucast (bs ! (i + 2))) OR ucast (bs ! (i + 3))"

definition be_get64 :: "byte list \<Rightarrow> nat \<Rightarrow> u64" where
  "be_get64 bs i = foldl (\<lambda>v k. push_bit 8 v OR ucast (bs ! (i + k))) 0 [0..<8]"

definition be_put16 :: "u16 \<Rightarrow> byte list" where
  "be_put16 v = [ucast (drop_bit 8 v), ucast v]"

definition be_put32 :: "u32 \<Rightarrow> byte list" where
  "be_put32 v = [ucast (drop_bit 24 v), ucast (drop_bit 16 v), ucast (drop_bit 8 v), ucast v]"

definition be_put64 :: "u64 \<Rightarrow> byte list" where
  "be_put64 v = map (\<lambda>k. ucast (drop_bit (56 - 8 * k) v)) [0..<8]"

lemma length_be_put [simp, wire_layout]:
  "length (be_put16 v) = 2" "length (be_put32 w) = 4" "length (be_put64 x) = 8"
  by (simp_all add: be_put16_def be_put32_def be_put64_def)

text \<open>Joining the bytes of a value gives the value back.\<close>

lemma join_step:
  "push_bit 8 (drop_bit (k + 8) v) OR ucast (ucast (drop_bit k v) :: byte) = drop_bit k (v :: 'a::len word)"
proof (rule bit_word_eqI)
  fix n assume n: "n < LENGTH('a)"
  show "bit (push_bit 8 (drop_bit (k + 8) v) OR ucast (ucast (drop_bit k v) :: byte)) n
        = bit (drop_bit k v) n"
  proof (cases "n < 8")
    case True
    with n show ?thesis by (simp add: bit_simps)
  next
    case False
    then have "k + 8 + (n - 8) = k + n" by simp
    with n False show ?thesis by (simp add: bit_simps)
  qed
qed

lemma drop_bit_full_word: "drop_bit LENGTH('a) (v :: 'a::len word) = 0"
  by (rule bit_word_eqI) (simp add: bit_simps)

lemma be_join16: "push_bit 8 (ucast (ucast (drop_bit 8 v) :: byte)) OR ucast (ucast v :: byte) = (v :: u16)"
  using join_step [of 8 v] join_step [of 0 v] drop_bit_full_word [of v] by simp

lemma be_join32:
  "push_bit 24 (ucast (ucast (drop_bit 24 v) :: byte)) OR push_bit 16 (ucast (ucast (drop_bit 16 v) :: byte))
   OR push_bit 8 (ucast (ucast (drop_bit 8 v) :: byte)) OR ucast (ucast v :: byte) = (v :: u32)"
proof -
  have "v = push_bit 8 (push_bit 8 (push_bit 8 (ucast (ucast (drop_bit 24 v) :: byte))
       OR ucast (ucast (drop_bit 16 v) :: byte)) OR ucast (ucast (drop_bit 8 v) :: byte))
       OR ucast (ucast v :: byte)"
    using join_step [of 24 v] join_step [of 16 v] join_step [of 8 v] join_step [of 0 v]
      drop_bit_full_word [of v] by simp
  then show ?thesis by (simp add: push_bit_or or.assoc)
qed

lemma be_get16_put16:
  assumes "bs ! i = be_put16 v ! 0" and "bs ! Suc i = be_put16 v ! 1"
  shows "be_get16 bs i = v"
  using assms by (simp add: be_get16_def be_put16_def be_join16)

lemma be_get32_put32:
  assumes "\<And>k. k < 4 \<Longrightarrow> bs ! (i + k) = be_put32 v ! k"
  shows "be_get32 bs i = v"
  using assms [of 0] assms [of 1] assms [of 2] assms [of 3]
  by (simp add: be_get32_def be_put32_def be_join32)

lemma be_get64_put64:
  assumes "\<And>k. k < 8 \<Longrightarrow> bs ! (i + k) = be_put64 v ! k"
  shows "be_get64 bs i = v"
proof -
  have nths: "be_put64 v ! k = ucast (drop_bit (56 - 8 * k) v)" if "k < 8" for k
    using that by (simp add: be_put64_def)
  have step: "m \<le> 8 \<Longrightarrow>
      foldl (\<lambda>v k. push_bit 8 v OR ucast (bs ! (i + k))) 0 [0..<m] = drop_bit (64 - 8 * m) v" for m
  proof (induction m)
    case 0
    show ?case using drop_bit_full_word [of v] by simp
  next
    case (Suc m)
    then have le: "m < 8" and eq: "64 - 8 * m = (56 - 8 * m) + 8" "64 - 8 * Suc m = 56 - 8 * m"
      by simp_all
    have "foldl (\<lambda>v k. push_bit 8 v OR ucast (bs ! (i + k))) 0 [0..<Suc m]
        = push_bit 8 (drop_bit (64 - 8 * m) v) OR ucast (bs ! (i + m))"
      using Suc by simp
    also have "\<dots> = drop_bit (56 - 8 * m) v"
      unfolding eq(1) assms [OF le] nths [OF le] by (rule join_step)
    finally show ?case unfolding eq(2) .
  qed
  show ?thesis using step [of 8] by (simp add: be_get64_def)
qed

text \<open>The layout form the header proofs use: the value is stored at offset \<open>i\<close>.\<close>

lemma nth_layout:
  assumes "take n (drop i bs) = v" and "length v = n" and "k < n"
  shows "bs ! (i + k) = v ! k"
proof -
  have "v ! k = take n (drop i bs) ! k" using assms(1) by simp
  also have "\<dots> = drop i bs ! k" using assms(3) by simp
  also have "\<dots> = bs ! (i + k)"
  proof (rule nth_drop)
    have "length (drop i bs) \<ge> n" using assms(1,2) by (metis length_take min.cobounded1)
    then show "i \<le> length bs" using assms(3) by simp
  qed
  finally show ?thesis by simp
qed

lemma be_get16_layout [wire_layout]: "take 2 (drop i bs) = be_put16 v \<Longrightarrow> be_get16 bs i = v"
  by (rule be_get16_put16) (use nth_layout [of 2 i bs "be_put16 v" 0] nth_layout [of 2 i bs "be_put16 v" 1] in simp_all)

lemma be_get32_layout [wire_layout]: "take 4 (drop i bs) = be_put32 v \<Longrightarrow> be_get32 bs i = v"
  by (rule be_get32_put32, rule nth_layout) simp_all

lemma be_get64_layout [wire_layout]: "take 8 (drop i bs) = be_put64 v \<Longrightarrow> be_get64 bs i = v"
  by (rule be_get64_put64, rule nth_layout) simp_all

lemma be_get_append [wire_layout]:
  "i + 2 \<le> length bs \<Longrightarrow> be_get16 (bs @ x) i = be_get16 bs i"
  "i + 4 \<le> length bs \<Longrightarrow> be_get32 (bs @ x) i = be_get32 bs i"
  "i + 8 \<le> length bs \<Longrightarrow> be_get64 (bs @ x) i = be_get64 bs i"
  by (simp_all add: be_get16_def be_get32_def be_get64_def nth_append cong: foldl_cong)
     (rule foldl_cong, auto)

text \<open>And the other direction: the bytes of a joined value are the bytes it was joined from.\<close>

lemma byte_bit_len: "bit (b :: byte) n \<Longrightarrow> n < 8"
  using bit_imp_le_length [of b n] by simp

lemma be_put16_get16: "be_put16 (be_get16 bs i) = [bs ! i, bs ! Suc i]"
proof -
  have "ucast (drop_bit 8 (push_bit 8 (ucast a) OR ucast b :: u16)) = a"
    and "ucast (push_bit 8 (ucast a) OR ucast b :: u16) = b" for a b :: byte
    by (rule bit_word_eqI; auto simp: bit_simps dest: byte_bit_len)+
  then show ?thesis by (simp add: be_put16_def be_get16_def)
qed

lemma join32_bytes:
  fixes a b c d :: byte
  defines "v \<equiv> push_bit 24 (ucast a) OR push_bit 16 (ucast b) OR push_bit 8 (ucast c) OR ucast d :: u32"
  shows "ucast (drop_bit 24 v) = a" "ucast (drop_bit 16 v) = b" "ucast (drop_bit 8 v) = c" "ucast v = d"
  unfolding v_def by (rule bit_word_eqI; auto simp: bit_simps dest: byte_bit_len)+

lemma be_put32_get32: "be_put32 (be_get32 bs i) = [bs ! i, bs ! (i + 1), bs ! (i + 2), bs ! (i + 3)]"
  by (simp only: be_put32_def be_get32_def join32_bytes)

lemma join_low_byte: "ucast (push_bit 8 v OR ucast (b :: byte) :: u64) = b"
  by (rule bit_word_eqI; auto simp: bit_simps dest: byte_bit_len)

lemma join_high_byte:
  assumes "k < 7"
  shows "(ucast (drop_bit (8 * k + 8) (push_bit 8 v OR ucast (b :: byte) :: u64)) :: byte) = ucast (drop_bit (8 * k) v)"
proof (rule bit_word_eqI)
  fix n assume "n < LENGTH(8)"
  with assms have n: "n < 8" "8 * k + 8 + n < 64" "8 * k + n < 64" by simp_all
  have "\<not> bit b (8 * k + 8 + n)" using byte_bit_len by fastforce
  with n show "bit (ucast (drop_bit (8 * k + 8) (push_bit 8 v OR ucast b :: u64)) :: byte) n
      = bit (ucast (drop_bit (8 * k) v) :: byte) n"
    by (simp add: bit_simps)
qed

lemma be_put64_get64: "be_put64 (be_get64 bs i) = map (\<lambda>k. bs ! (i + k)) [0..<8]"
proof -
  define acc where "acc m = foldl (\<lambda>v k. push_bit 8 v OR ucast (bs ! (i + k))) (0 :: u64) [0..<m]" for m
  have step: "m \<le> 8 \<Longrightarrow> k < m \<Longrightarrow> (ucast (drop_bit (8 * (m - 1 - k)) (acc m)) :: byte) = bs ! (i + k)" for m k
  proof (induction m)
    case (Suc m)
    have acc: "acc (Suc m) = push_bit 8 (acc m) OR ucast (bs ! (i + m))" by (simp add: acc_def)
    show ?case
    proof (cases "k = m")
      case True
      then show ?thesis unfolding acc using join_low_byte by simp
    next
      case False
      with Suc.prems have lt: "m - 1 - k < 7" "8 * (Suc m - 1 - k) = 8 * (m - 1 - k) + 8" "k < m" by simp_all
      then show ?thesis using Suc unfolding acc lt(2) join_high_byte [OF lt(1)] by simp
    qed
  qed simp
  have "ucast (drop_bit (56 - 8 * k) (be_get64 bs i)) = bs ! (i + k)" if "k < 8" for k
  proof -
    have e: "56 - 8 * k = 8 * (8 - 1 - k)" by simp
    show ?thesis unfolding e using step [of 8 k] that by (simp add: acc_def be_get64_def)
  qed
  then show ?thesis by (simp add: be_put64_def)
qed

lemma take_32_split:
  assumes "32 \<le> length bs"
  shows "take 32 bs = [bs ! 0, bs ! 1, bs ! 2, bs ! 3, bs ! 4, bs ! 5, bs ! 6, bs ! 7]
     @ [bs ! 8, bs ! 9, bs ! 10, bs ! 11, bs ! 12, bs ! 13, bs ! 14, bs ! 15]
     @ [bs ! 16, bs ! 17, bs ! 18, bs ! 19, bs ! 20, bs ! 21, bs ! 22, bs ! 23]
     @ map (\<lambda>k. bs ! (24 + k)) [0..<8]"
  using assms by (intro nth_equalityI) (auto simp: less_Suc_eq numeral_eq_Suc nth_append)

end
