(* ===== verification/Sha2_Hmac.thy ===== *)
theory Sha2_Hmac
  imports Hwc_Prelude
begin

text \<open>
  The hash functions of \<open>receiver/entry/src/main/cpp/native_protocol.cpp\<close>:
  the hand-written SHA-256 and HMAC-SHA-256 that prove possession of the pairing token and of
  the long-term credential. The definitions follow the loops of the source; the second half of
  the theory states FIPS 180-4 and RFC 2104 as reference definitions and proves that the
  source's loops compute them.
\<close>

section \<open>The source's loops\<close>

definition kSha256Constants :: "u32 list" where
  "kSha256Constants =
     [0x428a2f98, 0x71374491, 0xb5c0fbcf, 0xe9b5dba5, 0x3956c25b, 0x59f111f1, 0x923f82a4, 0xab1c5ed5]
     @ [0xd807aa98, 0x12835b01, 0x243185be, 0x550c7dc3, 0x72be5d74, 0x80deb1fe, 0x9bdc06a7, 0xc19bf174]
     @ [0xe49b69c1, 0xefbe4786, 0x0fc19dc6, 0x240ca1cc, 0x2de92c6f, 0x4a7484aa, 0x5cb0a9dc, 0x76f988da]
     @ [0x983e5152, 0xa831c66d, 0xb00327c8, 0xbf597fc7, 0xc6e00bf3, 0xd5a79147, 0x06ca6351, 0x14292967]
     @ [0x27b70a85, 0x2e1b2138, 0x4d2c6dfc, 0x53380d13, 0x650a7354, 0x766a0abb, 0x81c2c92e, 0x92722c85]
     @ [0xa2bfe8a1, 0xa81a664b, 0xc24b8b70, 0xc76c51a3, 0xd192e819, 0xd6990624, 0xf40e3585, 0x106aa070]
     @ [0x19a4c116, 0x1e376c08, 0x2748774c, 0x34b0bcb5, 0x391c0cb3, 0x4ed8aa4a, 0x5b9cca4f, 0x682e6ff3]
     @ [0x748f82ee, 0x78a5636f, 0x84c87814, 0x8cc70208, 0x90befffa, 0xa4506ceb, 0xbef9a3f7, 0xc67178f2]"

definition RotateRight :: "u32 \<Rightarrow> nat \<Rightarrow> u32" where
  "RotateRight v count = drop_bit count v OR push_bit (32 - count) v"

text \<open>The number of zero bytes that bring a message of length \<open>n\<close> to 56 modulo 64.\<close>

definition zeros_to_56 :: "nat \<Rightarrow> nat" where
  "zeros_to_56 n = (if n mod 64 \<le> 56 then 56 - n mod 64 else 120 - n mod 64)"

lemma zeros_to_56_step: "n mod 64 \<noteq> 56 \<Longrightarrow> zeros_to_56 n = Suc (zeros_to_56 (Suc n))"
  using mod_less_divisor [of 64 n] unfolding zeros_to_56_def mod_Suc
  by (auto simp del: mod_less_divisor)

lemma zeros_to_56_done: "n mod 64 = 56 \<Longrightarrow> zeros_to_56 n = 0"
  by (simp add: zeros_to_56_def)

lemma zeros_to_56_mod: "(n + zeros_to_56 n) mod 64 = 56"
proof -
  have "n mod 64 < 64" by simp
  then have "(n mod 64 + zeros_to_56 n) mod 64 = 56" by (auto simp: zeros_to_56_def)
  then show ?thesis by (simp add: mod_add_left_eq)
qed

lemma zeros_to_56_least:
  assumes "(n + k) mod 64 = 56"
  shows "zeros_to_56 n \<le> k"
proof -
  define r where "r = n mod 64"
  have r: "r < 64" by (simp add: r_def)
  have "(r + k) mod 64 = 56" using assms by (simp add: r_def mod_add_left_eq)
  then have eq: "r + k = 64 * ((r + k) div 64) + 56" by (metis div_mult_mod_eq mult.commute)
  show ?thesis
  proof (cases "(r + k) div 64 = 0")
    case True
    with eq show ?thesis by (auto simp: zeros_to_56_def simp flip: r_def)
  next
    case False
    then have "64 * ((r + k) div 64) \<ge> 64" by simp
    with eq have "r + k \<ge> 120" by linarith
    then show ?thesis by (auto simp: zeros_to_56_def simp flip: r_def)
  qed
qed

text \<open>\<open>while (message.size() % 64U != 56U) message.push_back(0)\<close>\<close>

function pad_zeros :: "byte list \<Rightarrow> byte list" where
  "pad_zeros message =
     (if length message mod 64 \<noteq> 56 then pad_zeros (message @ [0]) else message)"
  by pat_completeness auto
termination
  by (relation "measure (\<lambda>m. zeros_to_56 (length m))") (auto simp: zeros_to_56_step)

declare pad_zeros.simps [simp del]

text \<open>The padded message: the byte \<open>0x80\<close>, zeros, and the bit length in eight bytes.\<close>

definition Sha256_message :: "byte list \<Rightarrow> byte list" where
  "Sha256_message data =
     (let bitLength = word_of_nat (length data) * 8 :: u64
      in pad_zeros (data @ [0x80])
         @ map (\<lambda>k. ucast (drop_bit (56 - 8 * k) bitLength AND 0xff)) [0..<8])"

definition Sha256_words :: "byte list \<Rightarrow> nat \<Rightarrow> u32 list" where
  "Sha256_words message offset =
     foldl (\<lambda>words index.
        let s0 = RotateRight (words ! (index - 15)) 7 XOR RotateRight (words ! (index - 15)) 18
                 XOR drop_bit 3 (words ! (index - 15));
            s1 = RotateRight (words ! (index - 2)) 17 XOR RotateRight (words ! (index - 2)) 19
                 XOR drop_bit 10 (words ! (index - 2))
        in words[index := words ! (index - 16) + s0 + words ! (index - 7) + s1])
      (map (\<lambda>index. be_get32 message (offset + index * 4)) [0..<16] @ replicate 48 0)
      [16..<64]"

type_synonym sha256_regs = "u32 \<times> u32 \<times> u32 \<times> u32 \<times> u32 \<times> u32 \<times> u32 \<times> u32"

fun Sha256_round :: "u32 list \<Rightarrow> sha256_regs \<Rightarrow> nat \<Rightarrow> sha256_regs" where
  "Sha256_round words (a, b, c, d, e, f, g, h) index =
     (let sigma1 = RotateRight e 6 XOR RotateRight e 11 XOR RotateRight e 25;
          chosen = (e AND f) XOR ((NOT e) AND g);
          temporary1 = h + sigma1 + chosen + kSha256Constants ! index + words ! index;
          sigma0 = RotateRight a 2 XOR RotateRight a 13 XOR RotateRight a 22;
          majority = (a AND b) XOR (a AND c) XOR (b AND c);
          temporary2 = sigma0 + majority
      in (temporary1 + temporary2, a, b, c, d + temporary1, e, f, g))"

definition Sha256_initial :: sha256_regs where
  "Sha256_initial = (0x6a09e667, 0xbb67ae85, 0x3c6ef372, 0xa54ff53a,
                     0x510e527f, 0x9b05688c, 0x1f83d9ab, 0x5be0cd19)"

fun regs_add :: "sha256_regs \<Rightarrow> sha256_regs \<Rightarrow> sha256_regs" where
  "regs_add (a, b, c, d, e, f, g, h) (a', b', c', d', e', f', g', h') =
     (a + a', b + b', c + c', d + d', e + e', f + f', g + g', h + h')"

fun regs_list :: "sha256_regs \<Rightarrow> u32 list" where
  "regs_list (a, b, c, d, e, f, g, h) = [a, b, c, d, e, f, g, h]"

function Sha256_blocks :: "byte list \<Rightarrow> nat \<Rightarrow> sha256_regs \<Rightarrow> sha256_regs" where
  "Sha256_blocks message offset hash =
     (if offset < length message then
        Sha256_blocks message (offset + 64)
          (regs_add hash (foldl (Sha256_round (Sha256_words message offset)) hash [0..<64]))
      else hash)"
  by pat_completeness auto
termination
  by (relation "measure (\<lambda>(m, offset, hash). length m - offset)") auto

declare Sha256_blocks.simps [simp del]

definition Sha256 :: "byte list \<Rightarrow> byte list" where
  "Sha256 data =
     concat (map (\<lambda>v. map (\<lambda>b. ucast (drop_bit (24 - b * 8) v AND 0xff)) [0..<4])
       (regs_list (Sha256_blocks (Sha256_message data) 0 Sha256_initial)))"

definition HmacSha256 :: "byte list \<Rightarrow> byte list \<Rightarrow> byte list" where
  "HmacSha256 key message =
     (let keyBlock = (if length key > 64 then Sha256 key @ replicate 32 0
                      else key @ replicate (64 - length key) 0);
          inner = map (\<lambda>b. b XOR 0x36) keyBlock @ message;
          outer = map (\<lambda>b. b XOR 0x5c) keyBlock
      in Sha256 (outer @ Sha256 inner))"

section \<open>Reference definitions: FIPS 180-4 and RFC 2104\<close>

text \<open>
  FIPS 180-4, section 5.1.1: after a one bit follow the least number \<open>k\<close> of zero bits with
  \<open>l + 1 + k\<close> congruent to 448 modulo 512, and the 64-bit length. On whole bytes that is the
  byte \<open>0x80\<close> and \<open>fips_zeros\<close> zero bytes.
\<close>

definition fips_zeros :: "nat \<Rightarrow> nat" where
  "fips_zeros len = (LEAST k. (8 * len + 1 + (7 + 8 * k)) mod 512 = 448)"

definition fips_pad :: "byte list \<Rightarrow> byte list" where
  "fips_pad data = data @ [0x80] @ replicate (fips_zeros (length data)) 0
                   @ be_put64 (word_of_nat (8 * length data))"

text \<open>Section 5.2.1: the padded message is parsed into blocks of sixteen 32-bit words.\<close>

function fips_parse :: "byte list \<Rightarrow> byte list list" where
  "fips_parse m = (if m = [] then [] else take 64 m # fips_parse (drop 64 m))"
  by pat_completeness auto
termination by (relation "measure length") auto

declare fips_parse.simps [simp del]

text \<open>Sections 4.1.2 and 6.2: the functions and the message schedule, as a recursion on \<open>t\<close>.\<close>

definition fips_sigma0 :: "u32 \<Rightarrow> u32" where
  "fips_sigma0 x = word_rotr 7 x XOR word_rotr 18 x XOR drop_bit 3 x"

definition fips_sigma1 :: "u32 \<Rightarrow> u32" where
  "fips_sigma1 x = word_rotr 17 x XOR word_rotr 19 x XOR drop_bit 10 x"

fun fips_W :: "byte list \<Rightarrow> nat \<Rightarrow> u32" where
  "fips_W block t =
     (if t < 16 then be_get32 block (4 * t)
      else fips_sigma1 (fips_W block (t - 2)) + fips_W block (t - 7)
           + fips_sigma0 (fips_W block (t - 15)) + fips_W block (t - 16))"

declare fips_W.simps [simp del]

text \<open>
  Sections 4.2.2 and 5.3.3: the constants are the first 32 bits of the fractional parts of the
  cube roots of the first 64 primes, the initial hash value those of the square roots of the
  first eight. \<open>root_floor k n\<close> is the integer \<open>k\<close>-th root, and \<open>word_of_nat\<close> keeps the low
  32 bits of the root scaled by \<open>2 ^ 32\<close>, which are those of the fractional part.
\<close>

definition fips_primes :: "nat list" where
  "fips_primes = [2, 3, 5, 7, 11, 13, 17, 19, 23, 29, 31, 37, 41, 43, 47, 53, 59, 61, 67, 71, 73, 79,
    83, 89, 97, 101, 103, 107, 109, 113, 127, 131, 137, 139, 149, 151, 157, 163, 167, 173, 179, 181, 191,
    193, 197, 199, 211, 223, 227, 229, 233, 239, 241, 251, 257, 263, 269, 271, 277, 281, 283, 293, 307, 311]"

definition root_floor :: "nat \<Rightarrow> nat \<Rightarrow> nat" where
  "root_floor k n = (GREATEST c. c ^ k \<le> n)"

definition fips_K :: "nat \<Rightarrow> u32" where
  "fips_K t = word_of_nat (root_floor 3 (fips_primes ! t * 2 ^ 96))"

definition fips_H0 :: "nat \<Rightarrow> u32" where
  "fips_H0 i = word_of_nat (root_floor 2 (fips_primes ! i * 2 ^ 64))"

fun fips_step :: "byte list \<Rightarrow> nat \<Rightarrow> sha256_regs \<Rightarrow> sha256_regs" where
  "fips_step block t (a, b, c, d, e, f, g, h) =
     (let T1 = h + (word_rotr 6 e XOR word_rotr 11 e XOR word_rotr 25 e)
               + ((e AND f) XOR (NOT e AND g)) + fips_K t + fips_W block t;
          T2 = (word_rotr 2 a XOR word_rotr 13 a XOR word_rotr 22 a)
               + ((a AND b) XOR (a AND c) XOR (b AND c))
      in (T1 + T2, a, b, c, d + T1, e, f, g))"

definition fips_compress :: "sha256_regs \<Rightarrow> byte list \<Rightarrow> sha256_regs" where
  "fips_compress H block = regs_add H (fold (fips_step block) [0..<64] H)"

definition fips_initial :: sha256_regs where
  "fips_initial = (fips_H0 0, fips_H0 1, fips_H0 2, fips_H0 3, fips_H0 4, fips_H0 5, fips_H0 6, fips_H0 7)"

definition fips_sha256 :: "byte list \<Rightarrow> byte list" where
  "fips_sha256 data =
     concat (map be_put32 (regs_list (foldl fips_compress fips_initial (fips_parse (fips_pad data)))))"

text \<open>RFC 2104: \<open>H((K XOR opad) || H((K XOR ipad) || text))\<close> for a hash with 64-byte blocks.\<close>

definition rfc2104_hmac :: "(byte list \<Rightarrow> byte list) \<Rightarrow> byte list \<Rightarrow> byte list \<Rightarrow> byte list" where
  "rfc2104_hmac H key text_data =
     (let K = (if length key > 64 then H key else key);
          K0 = K @ replicate (64 - length K) 0;
          pad = (\<lambda>p. map2 (XOR) K0 (replicate 64 p))
      in H (pad 0x5c @ H (pad 0x36 @ text_data)))"

section \<open>The loops compute the standard\<close>

lemma RotateRight_rotr:
  assumes "0 < n" and "n < 32"
  shows "RotateRight v n = word_rotr n v"
proof (rule bit_word_eqI)
  fix i assume i: "i < LENGTH(32)"
  show "bit (RotateRight v n) i = bit (word_rotr n v) i"
  proof (cases "i + n < 32")
    case True
    then have "\<not> 32 - n \<le> i" using assms by arith
    with True show ?thesis using assms i
      by (simp add: RotateRight_def bit_simps bit_word_rotr_iff add.commute)
  next
    case False
    then have "bit v (n + i) \<longleftrightarrow> False" using bit_imp_le_length [of v "n + i"] by auto
    moreover have "i - (32 - n) = i + n - 32" and "32 - n \<le> i" using assms False by simp_all
    moreover have "(i + n) mod 32 = i + n - 32" using False assms i by (simp add: mod_if)
    ultimately show ?thesis using False assms i
      by (simp add: RotateRight_def bit_simps bit_word_rotr_iff add.commute)
  qed
qed

lemma pad_zeros_replicate: "pad_zeros m = m @ replicate (zeros_to_56 (length m)) 0"
proof (induction m rule: pad_zeros.induct)
  case (1 m)
  show ?case
  proof (cases "length m mod 64 = 56")
    case True
    then show ?thesis by (subst pad_zeros.simps) (simp add: zeros_to_56_done)
  next
    case False
    have "pad_zeros m = (m @ [0]) @ replicate (zeros_to_56 (Suc (length m))) 0"
      using "1.IH" [OF False] False by (subst pad_zeros.simps) simp
    then show ?thesis by (simp add: zeros_to_56_step [OF False])
  qed
qed

lemma length_pad_zeros_mod: "length (pad_zeros m) mod 64 = 56"
  by (simp add: pad_zeros_replicate zeros_to_56_mod)

lemma bits_mod_512: "(8 * len + 1 + (7 + 8 * k)) mod 512 = (448 :: nat) \<longleftrightarrow> (Suc len + k) mod 64 = 56"
proof -
  have "(8 * len + 1 + (7 + 8 * k)) mod 512 = (8 * (Suc len + k)) mod (8 * 64)" by simp
  also have "\<dots> = 8 * ((Suc len + k) mod 64)" by (rule mult_mod_right [symmetric])
  finally show ?thesis by simp
qed

lemma fips_zeros_eq: "fips_zeros len = zeros_to_56 (Suc len)"
  unfolding fips_zeros_def bits_mod_512
  by (rule Least_equality) (rule zeros_to_56_mod, rule zeros_to_56_least)

lemma ucast_byte_mask [simp]: "(ucast (x AND 0xff :: 'a::len word) :: byte) = ucast x"
proof (rule bit_word_eqI)
  fix n assume "n < LENGTH(8)"
  moreover have "bit (0xff :: 'a word) n \<longleftrightarrow> n < LENGTH('a) \<and> n < 8"
    using bit_mask_iff [of 8 n, where 'a = "'a word"] by (simp add: mask_eq_exp_minus_1 possible_bit_def)
  ultimately show "bit (ucast (x AND 0xff) :: byte) n = bit (ucast x :: byte) n"
    using bit_imp_le_length [of x n] by (auto simp: bit_simps)
qed

lemma Sha256_message_fips: "Sha256_message data = fips_pad data"
  by (simp add: Sha256_message_def fips_pad_def pad_zeros_replicate fips_zeros_eq be_put64_def
      Let_def mult.commute)

lemma length_Sha256_message_mod: "length (Sha256_message data) mod 64 = 0"
proof -
  have "length (Sha256_message data) = length (pad_zeros (data @ [0x80])) + 8"
    by (simp add: Sha256_message_def Let_def)
  moreover have "(length (pad_zeros (data @ [0x80])) mod 64 + 8) mod 64 = 0"
    unfolding length_pad_zeros_mod by simp
  ultimately show ?thesis by (simp only: mod_add_left_eq)
qed

lemma length_Sha256_words [simp]: "length (Sha256_words message offset) = 64"
  unfolding Sha256_words_def Let_def by (subst length_foldl_keep) simp_all

lemma be_get32_block:
  assumes "offset + i + 4 \<le> length m" and "i + 4 \<le> 64"
  shows "be_get32 (take 64 (drop offset m)) i = be_get32 m (offset + i)"
  using assms by (simp add: be_get32_def add.assoc)

text \<open>The schedule loop fills the words from index 16 on, each with the standard's value.\<close>

lemma Sha256_words_fips:
  assumes len: "offset + 64 \<le> length m" and t: "t < 64"
  shows "Sha256_words m offset ! t = fips_W (take 64 (drop offset m)) t"
  unfolding Sha256_words_def
proof (rule foldl_fill [OF _ _ _ _ t])
  fix j :: nat assume "j < 16"
  then show "(map (\<lambda>index. be_get32 m (offset + index * 4)) [0..<16] @ replicate 48 0) ! j
      = fips_W (take 64 (drop offset m)) j"
    using len be_get32_block [of offset "4 * j" m]
    by (simp del: upt_rec_numeral add: nth_append fips_W.simps [of _ j] mult.commute)
next
  fix ws :: "u32 list" and i
  assume i: "16 \<le> i" and w: "\<And>j. j < i \<Longrightarrow> ws ! j = fips_W (take 64 (drop offset m)) j"
  from i have "fips_W b i = fips_sigma1 (fips_W b (i - 2)) + fips_W b (i - 7)
      + fips_sigma0 (fips_W b (i - 15)) + fips_W b (i - 16)" for b
    by (subst fips_W.simps) simp
  with i show "(let s0 = RotateRight (ws ! (i - 15)) 7 XOR RotateRight (ws ! (i - 15)) 18
                 XOR drop_bit 3 (ws ! (i - 15));
            s1 = RotateRight (ws ! (i - 2)) 17 XOR RotateRight (ws ! (i - 2)) 19
                 XOR drop_bit 10 (ws ! (i - 2))
        in ws[i := ws ! (i - 16) + s0 + ws ! (i - 7) + s1])
      = ws[i := fips_W (take 64 (drop offset m)) i]"
    by (simp add: w fips_sigma0_def fips_sigma1_def RotateRight_rotr ac_simps)
qed simp_all

text \<open>The two tables of the source are the standard's.\<close>

lemma root_floor_eqI:
  assumes "c ^ k \<le> n" and "n < Suc c ^ k"
  shows "root_floor k n = c"
  unfolding root_floor_def
proof (rule Greatest_equality)
  fix d assume "d ^ k \<le> n"
  with assms(2) have "d ^ k < Suc c ^ k" by linarith
  then have "d < Suc c" by (rule power_less_imp_less_base) simp
  then show "d \<le> c" by simp
qed (rule assms(1))

definition root_bracket :: "nat \<Rightarrow> nat \<Rightarrow> nat \<Rightarrow> u32 \<Rightarrow> bool" where
  "root_bracket k p q w \<longleftrightarrow>
     (let c = q * 2 ^ 32 + unat w; n = p * 2 ^ (32 * k) in c ^ k \<le> n \<and> n < Suc c ^ k)"

lemma root_bracketD:
  assumes "root_bracket k p q w"
  shows "word_of_nat (root_floor k (p * 2 ^ (32 * k))) = w"
proof -
  have "root_floor k (p * 2 ^ (32 * k)) = q * 2 ^ 32 + unat w"
    using assms by (intro root_floor_eqI) (simp_all add: root_bracket_def Let_def)
  moreover have "(word_of_nat (q * 2 ^ 32 + unat w) :: u32) = w"
  proof -
    have zero: "(4294967296 :: u32) = 0" using word_exp_length_eq_0 [where 'a = 32] by simp
    have "(word_of_nat (q * 2 ^ 32 + unat w) :: u32) = word_of_nat q * 4294967296 + w" by simp
    then show ?thesis unfolding zero by simp
  qed
  ultimately show ?thesis by simp
qed

definition cube_root_parts :: "nat list" where
  "cube_root_parts = map (\<lambda>p. if p < 8 then 1 else if p < 27 then 2 else if p < 64 then 3
     else if p < 125 then 4 else if p < 216 then 5 else 6) fips_primes"

lemma kSha256Constants_bracket:
  "list_all (\<lambda>(p, q, w). root_bracket 3 p q w) (zip fips_primes (zip cube_root_parts kSha256Constants))"
  by (simp add: fips_primes_def cube_root_parts_def kSha256Constants_def root_bracket_def)

lemma kSha256Constants_fips:
  assumes "t < 64"
  shows "kSha256Constants ! t = fips_K t"
proof -
  have len: "length fips_primes = 64" "length cube_root_parts = 64" "length kSha256Constants = 64"
    by (simp_all add: fips_primes_def cube_root_parts_def kSha256Constants_def)
  have "root_bracket 3 (fips_primes ! t) (cube_root_parts ! t) (kSha256Constants ! t)"
    using kSha256Constants_bracket assms by (simp add: list_all_length len)
  from root_bracketD [OF this] show ?thesis by (simp add: fips_K_def)
qed

lemma Sha256_initial_fips: "Sha256_initial = fips_initial"
proof -
  have "root_bracket 2 2 1 0x6a09e667" "root_bracket 2 3 1 0xbb67ae85" "root_bracket 2 5 2 0x3c6ef372"
    "root_bracket 2 7 2 0xa54ff53a" "root_bracket 2 11 3 0x510e527f" "root_bracket 2 13 3 0x9b05688c"
    "root_bracket 2 17 4 0x1f83d9ab" "root_bracket 2 19 4 0x5be0cd19"
    by (simp_all add: root_bracket_def)
  note brackets = this [THEN root_bracketD]
  show ?thesis using brackets
    by (simp add: Sha256_initial_def fips_initial_def fips_H0_def fips_primes_def)
qed

lemma Sha256_round_fips:
  assumes "offset + 64 \<le> length m" and "t < 64"
  shows "Sha256_round (Sha256_words m offset) regs t = fips_step (take 64 (drop offset m)) t regs"
  using Sha256_words_fips [OF assms]
  by (cases regs rule: regs_list.cases) (simp add: Let_def RotateRight_rotr kSha256Constants_fips [OF assms(2)])

lemma Sha256_rounds_fips:
  assumes "offset + 64 \<le> length m"
  shows "foldl (Sha256_round (Sha256_words m offset)) regs [0..<64]
       = fold (fips_step (take 64 (drop offset m))) [0..<64] regs"
  unfolding foldl_conv_fold
  by (rule fold_cong) (auto simp: Sha256_round_fips [OF assms] fun_eq_iff)

text \<open>A loop over the blocks of a padded message is a fold over the parsed blocks.\<close>

lemma block_loop_fold:
  assumes unfold: "\<And>offset H. loop offset H = (if offset < length m then loop (offset + 64) (body offset H) else H)"
    and body: "\<And>offset H. offset + 64 \<le> length m \<Longrightarrow> body offset H = compress H (take 64 (drop offset m))"
    and len: "length (m :: byte list) mod 64 = 0"
  shows "offset mod 64 = 0 \<Longrightarrow> loop offset H = foldl compress H (fips_parse (drop offset m))"
proof (induction "length m - offset" arbitrary: offset H rule: less_induct)
  case less
  show ?case
  proof (cases "offset < length m")
    case True
    obtain p q where "length m = 64 * p" and "offset = 64 * q"
      using len less.prems by (auto simp: mod_0_imp_dvd elim!: dvdE)
    with True have le: "offset + 64 \<le> length m" by auto
    have "fips_parse (drop offset m) = take 64 (drop offset m) # fips_parse (drop (offset + 64) m)"
      using True by (subst fips_parse.simps) (simp add: add.commute)
    moreover have "loop (offset + 64) (body offset H) = foldl compress (body offset H) (fips_parse (drop (offset + 64) m))"
      using True less.prems by (intro less.hyps) simp_all
    ultimately show ?thesis using True by (subst unfold) (simp add: body [OF le])
  next
    case False
    then show ?thesis by (subst unfold) (simp add: fips_parse.simps)
  qed
qed

lemma Sha256_blocks_fips:
  assumes "length m mod 64 = 0"
  shows "Sha256_blocks m 0 H = foldl fips_compress H (fips_parse m)"
proof -
  have "Sha256_blocks m 0 H = foldl fips_compress H (fips_parse (drop 0 m))"
    by (rule block_loop_fold [OF Sha256_blocks.simps _ assms])
       (simp_all del: upt_rec_numeral add: fips_compress_def Sha256_rounds_fips)
  then show ?thesis by simp
qed

lemma be_put32_bytes: "map (\<lambda>b. ucast (drop_bit (24 - b * 8) v AND 0xff)) [0..<4] = be_put32 v"
  by (simp add: be_put32_def upt_rec)

lemma Sha256_eq_fips: "Sha256 data = fips_sha256 data"
  unfolding Sha256_def fips_sha256_def Sha256_message_fips [symmetric] be_put32_bytes
    Sha256_initial_fips
  using Sha256_blocks_fips [OF length_Sha256_message_mod] by simp

lemma length_Sha256 [simp]: "length (Sha256 data) = 32"
  unfolding Sha256_def be_put32_bytes
  by (cases "Sha256_blocks (Sha256_message data) 0 Sha256_initial" rule: regs_list.cases) simp

lemma HmacSha256_is_rfc2104: "HmacSha256 key message = rfc2104_hmac Sha256 key message"
proof -
  have pad: "map2 (XOR) K (replicate 64 p) = map (\<lambda>b. b XOR p) K" if "length K = 64" for K :: "byte list" and p
    using that by (auto intro!: nth_equalityI)
  show ?thesis
    by (simp add: HmacSha256_def rfc2104_hmac_def Let_def pad)
qed

section \<open>Property\<close>

text \<open>
  C33. \<open>Sha256\<close> computes SHA-256 as FIPS 180-4 defines it, on messages of any length, and
  \<open>HmacSha256\<close> the HMAC of RFC 2104 over it.
\<close>

theorem Sha256_and_Hmac_conform:
  "Sha256 data = fips_sha256 data \<and> HmacSha256 key message = rfc2104_hmac fips_sha256 key message"
  using Sha256_eq_fips [of data] HmacSha256_is_rfc2104 [of key message]
  by (simp add: Sha256_eq_fips [abs_def])

end
