(* ===== verification/Hex_Codec.thy ===== *)
theory Hex_Codec
  imports Hwc_Prelude
begin

text \<open>
  The textual form of secrets, identifiers and proofs in
  \<open>receiver/entry/src/main/cpp/native_protocol.cpp\<close> : \<open>LowerHex\<close>,
  \<open>DecodeLowerHex\<close> and the shape of a sender id. The lemmas show that the two are inverse to
  each other and that the decoder accepts the canonical lower-case spelling only, so two
  spellings never denote the same key.
\<close>

definition hex_alphabet :: string where
  "hex_alphabet = ''0123456789abcdef''"

definition LowerHex :: "byte list \<Rightarrow> string" where
  "LowerHex data =
     concat (map (\<lambda>v. [hex_alphabet ! unat (drop_bit 4 v), hex_alphabet ! unat (v AND 0x0f)]) data)"

text \<open>One iteration of the loop of \<open>DecodeLowerHex\<close>.\<close>

definition DecodeHexPair :: "string \<Rightarrow> nat \<Rightarrow> byte option" where
  "DecodeHexPair str index =
     (case from_chars_unsigned 16 (2 ^ 32 - 1) (substr str (index * 2) 2) of
        None \<Rightarrow> None
      | Some (decoded, used) \<Rightarrow>
          (if used \<noteq> 2 \<or> decoded > 0xff \<or> isupper (str ! (index * 2)) \<or> isupper (str ! (index * 2 + 1))
           then None else Some (word_of_nat decoded)))"

definition DecodeLowerHex :: "string \<Rightarrow> nat \<Rightarrow> byte list option" where
  "DecodeLowerHex str byteCount =
     (if length str \<noteq> byteCount * 2 then None
      else those (map (DecodeHexPair str) [0..<byteCount]))"

definition SenderIdValid :: "string \<Rightarrow> bool" where
  "SenderIdValid str \<longleftrightarrow>
     16 \<le> length str \<and> length str \<le> 64 \<and>
     list_all (\<lambda>c. isdigit c \<or> (97 \<le> ord c \<and> ord c \<le> 102) \<or> c = CHR ''-'') str"

section \<open>Digits\<close>

definition hex_digit :: "nat \<Rightarrow> char" where
  "hex_digit n = hex_alphabet ! n"

lemma hex_alphabet_codes:
  "list_all (\<lambda>n. ord (hex_alphabet ! n) = (if n < 10 then 48 + n else 87 + n)) [0..<16]"
  by (simp add: hex_alphabet_def ord_def upt_rec)

lemma hex_digit_code: "n < 16 \<Longrightarrow> hex_digit n = char_of (if n < 10 then 48 + n else 87 + n)"
proof -
  assume "n < 16"
  then have "ord (hex_digit n) = (if n < 10 then 48 + n else 87 + n)"
    using hex_alphabet_codes by (simp del: upt_rec_numeral add: list_all_iff hex_digit_def)
  moreover have "hex_digit n = char_of (ord (hex_digit n))" by (simp add: ord_def)
  ultimately show ?thesis by simp
qed

lemma hex_digit_props:
  assumes "n < 16"
  shows "digit_value (hex_digit n) = Some n" and "lower_hex_digit (hex_digit n)"
    and "\<not> isupper (hex_digit n)"
  using assms
  by (auto simp: hex_digit_code digit_value_def lower_hex_digit_def isdigit_def islower_def isupper_def ord_char_of)

lemma lower_hex_digit_value:
  assumes "lower_hex_digit c"
  obtains n where "n < 16" and "c = hex_digit n"
proof -
  have "c = char_of (ord c)" by (simp add: ord_def)
  then have "\<exists>n. n < 16 \<and> c = hex_digit n"
  proof (cases "isdigit c")
    case True
    then have "ord c - 48 < 16" "ord c = 48 + (ord c - 48)" "ord c - 48 < 10" by (auto simp: isdigit_def)
    with \<open>c = char_of (ord c)\<close> show ?thesis by (metis hex_digit_code)
  next
    case False
    with assms have "ord c - 87 < 16" "ord c = 87 + (ord c - 87)" "\<not> ord c - 87 < 10"
      by (auto simp: lower_hex_digit_def isdigit_def)
    with \<open>c = char_of (ord c)\<close> show ?thesis by (metis hex_digit_code)
  qed
  then show thesis using that by blast
qed

lemma digit_value_lower_hex:
  assumes "digit_value c = Some n" and "n < 16" and "\<not> isupper c"
  shows "c = hex_digit n"
proof -
  have "c = char_of (ord c)" by (simp add: ord_def)
  moreover have "ord c = (if n < 10 then 48 + n else 87 + n)"
    using assms by (auto simp: digit_value_def isdigit_def islower_def isupper_def split: if_splits)
  ultimately show ?thesis using assms(2) by (metis hex_digit_code)
qed

section \<open>One pair of digits\<close>

lemma byte_split: "unat (drop_bit 4 v) < 16" "unat (v AND 0x0f) < 16"
    "unat (drop_bit 4 v) * 16 + unat (v AND 0x0f) = unat (v :: byte)"
proof -
  have "unat v < 256" using unsigned_less [of v] by simp
  moreover have d: "unat (drop_bit 4 v) = unat v div 16" by (simp only: unat_drop_bit_eq) (simp add: drop_bit_eq_div)
  moreover have m: "unat (v AND 0x0f) = unat v mod 16"
  proof -
    have "v AND 0x0f = take_bit 4 v" by (simp add: take_bit_eq_mask mask_numeral)
    then show ?thesis by (simp only: unsigned_take_bit_eq) (simp add: take_bit_eq_mod)
  qed
  ultimately show "unat (drop_bit 4 v) < 16" "unat (v AND 0x0f) < 16"
    "unat (drop_bit 4 v) * 16 + unat (v AND 0x0f) = unat v" by simp_all
qed

lemma base16_unique:
  assumes "p * 16 + q = m * 16 + n" and "q < 16" and "n < (16 :: nat)"
  shows "p = m" and "q = n"
proof -
  have "p = (p * 16 + q) div 16" using assms(2) by simp
  also have "\<dots> = m" unfolding assms(1) using assms(3) by simp
  finally show "p = m" .
  with assms(1) show "q = n" by simp
qed

lemma from_chars_pair:
  assumes "m < 16" and "n < 16"
  shows "from_chars_unsigned 16 (2 ^ 32 - 1) [hex_digit m, hex_digit n] = Some (m * 16 + n, 2)"
proof -
  have "takeWhile (is_base_digit 16) [hex_digit m, hex_digit n] = [hex_digit m, hex_digit n]"
    using assms by (simp add: is_base_digit_def hex_digit_props(1))
  moreover have "digits_value 16 [hex_digit m, hex_digit n] = m * 16 + n"
    using assms by (simp add: digits_value_def hex_digit_props(1))
  moreover have "m * 16 + n \<le> 255" using assms by linarith
  then have "\<not> 2 ^ 32 - 1 < m * 16 + n" by simp
  ultimately show ?thesis unfolding from_chars_unsigned_def Let_def by simp
qed

lemma from_chars_pairD:
  assumes "from_chars_unsigned 16 (2 ^ 32 - 1) [c, d] = Some (v, 2)" and "\<not> isupper c" and "\<not> isupper d"
  obtains m n where "m < 16" "n < 16" "c = hex_digit m" "d = hex_digit n" "v = m * 16 + n"
proof -
  from assms(1) have "takeWhile (is_base_digit 16) [c, d] = [c, d]"
    by (auto simp: from_chars_unsigned_def Let_def split: if_splits)
  then have "is_base_digit 16 c" "is_base_digit 16 d" by (auto split: if_splits)
  then obtain m n where mn: "digit_value c = Some m" "m < 16" "digit_value d = Some n" "n < 16"
    by (auto simp: is_base_digit_def split: option.splits)
  moreover have "c = hex_digit m" "d = hex_digit n"
    using mn assms(2,3) by (auto intro: digit_value_lower_hex)
  moreover from this mn assms(1) have "v = m * 16 + n" using from_chars_pair [of m n] by simp
  ultimately show thesis using that by blast
qed

section \<open>Whole strings\<close>

lemma length_LowerHex [simp, wire_layout]: "length (LowerHex bs) = 2 * length bs"
  by (induction bs) (auto simp: LowerHex_def)

lemma LowerHex_Cons:
  "LowerHex (b # bs) = hex_digit (unat (drop_bit 4 b)) # hex_digit (unat (b AND 0x0f)) # LowerHex bs"
  by (simp add: LowerHex_def hex_digit_def)

lemma LowerHex_digits: "c \<in> set (LowerHex bs) \<Longrightarrow> lower_hex_digit c"
  by (induction bs) (auto simp: LowerHex_Cons hex_digit_props byte_split, auto simp: LowerHex_def)

lemma those_map_Suc:
  "those (map f [0..<Suc n]) = (case f 0 of None \<Rightarrow> None | Some x \<Rightarrow> map_option ((#) x) (those (map (\<lambda>i. f (Suc i)) [0..<n])))"
  by (simp add: map_upt_Suc del: upt_Suc split: option.split)

lemma DecodeHexPair_Suc: "DecodeHexPair (c # d # str) (Suc i) = DecodeHexPair str i"
  by (simp add: DecodeHexPair_def substr_def split: option.split)

lemma DecodeHexPair_0: "DecodeHexPair (c # d # str) 0 = DecodeHexPair [c, d] 0"
  by (simp add: DecodeHexPair_def substr_def split: option.split)

lemma DecodeLowerHex_Cons2:
  "DecodeLowerHex (c # d # str) (Suc n) =
     (case DecodeHexPair [c, d] 0 of None \<Rightarrow> None | Some b \<Rightarrow> map_option ((#) b) (DecodeLowerHex str n))"
  unfolding DecodeLowerHex_def those_map_Suc
  by (simp add: DecodeHexPair_Suc DecodeHexPair_0 [of c d str] split: option.split)

lemma DecodeHexPair_digits:
  assumes "m < 16" and "n < 16"
  shows "DecodeHexPair [hex_digit m, hex_digit n] 0 = Some (word_of_nat (m * 16 + n))"
  using assms from_chars_pair [OF assms]
  by (simp add: DecodeHexPair_def substr_def hex_digit_props)

lemma DecodeHexPair_byte:
  "DecodeHexPair [hex_digit (unat (drop_bit 4 b)), hex_digit (unat (b AND 0x0f))] 0 = Some b"
  unfolding DecodeHexPair_digits [OF byte_split(1,2)] byte_split(3) by simp

lemma DecodeHexPair_SomeD:
  assumes "DecodeHexPair [c, d] 0 = Some b"
  shows "c = hex_digit (unat (drop_bit 4 b)) \<and> d = hex_digit (unat (b AND 0x0f))"
proof -
  obtain v where v: "from_chars_unsigned 16 (2 ^ 32 - 1) [c, d] = Some (v, 2)" "v \<le> 255"
      and up: "\<not> isupper c" "\<not> isupper d" and b: "b = word_of_nat v"
    using assms by (auto simp: DecodeHexPair_def substr_def split: option.splits if_splits)
  obtain m n where mn: "m < 16" "n < 16" "c = hex_digit m" "d = hex_digit n" "v = m * 16 + n"
    using from_chars_pairD [OF v(1) up] by blast
  have "unat b = v" using v(2) b by (simp add: unat_of_nat)
  then have "unat (drop_bit 4 b) * 16 + unat (b AND 0x0f) = m * 16 + n" using mn byte_split(3) [of b] by simp
  then have "unat (drop_bit 4 b) = m" "unat (b AND 0x0f) = n"
    using base16_unique byte_split(2) mn(2) by blast+
  with mn show ?thesis by simp
qed

lemma DecodeLowerHex_LowerHex [parse_simps]: "DecodeLowerHex (LowerHex bs) (length bs) = Some bs"
proof (induction bs)
  case Nil
  show ?case by (simp add: DecodeLowerHex_def LowerHex_def)
next
  case (Cons b bs)
  then show ?case by (simp add: LowerHex_Cons DecodeLowerHex_Cons2 DecodeHexPair_byte)
qed

lemma DecodeLowerHex_SomeD:
  "DecodeLowerHex str n = Some bs \<Longrightarrow> length bs = n \<and> str = LowerHex bs"
proof (induction n arbitrary: str bs)
  case 0
  then show ?case by (auto simp: DecodeLowerHex_def LowerHex_def split: if_splits)
next
  case (Suc n)
  then have "length str = Suc (Suc (n * 2))" by (auto simp: DecodeLowerHex_def split: if_splits)
  then obtain c d rest where str: "str = c # d # rest" by (auto simp: length_Suc_conv)
  with Suc.prems obtain b cs where b: "DecodeHexPair [c, d] 0 = Some b"
      and cs: "DecodeLowerHex rest n = Some cs" and bs: "bs = b # cs"
    by (auto simp: DecodeLowerHex_Cons2 split: option.splits)
  from Suc.IH [OF cs] DecodeHexPair_SomeD [OF b] str bs show ?case
    by (simp add: LowerHex_Cons)
qed

text \<open>The decoder accepts exactly the lower-case hexadecimal strings of the asked length.\<close>

lemma DecodeLowerHex_defined:
  "DecodeLowerHex str n \<noteq> None \<longleftrightarrow> length str = 2 * n \<and> list_all lower_hex_digit str"
proof
  assume "DecodeLowerHex str n \<noteq> None"
  then obtain bs where "DecodeLowerHex str n = Some bs" by blast
  from DecodeLowerHex_SomeD [OF this] show "length str = 2 * n \<and> list_all lower_hex_digit str"
    by (auto simp: list_all_iff dest: LowerHex_digits)
next
  assume "length str = 2 * n \<and> list_all lower_hex_digit str"
  then show "DecodeLowerHex str n \<noteq> None"
  proof (induction n arbitrary: str)
    case 0
    then show ?case by (simp add: DecodeLowerHex_def)
  next
    case (Suc n)
    then obtain c d rest where str: "str = c # d # rest" by (auto simp: length_Suc_conv)
    with Suc.prems obtain m k where "m < 16" "k < 16" "c = hex_digit m" "d = hex_digit k"
      by (auto elim!: lower_hex_digit_value)
    moreover have "DecodeLowerHex rest n \<noteq> None" using Suc str by auto
    ultimately show ?case by (auto simp: str DecodeLowerHex_Cons2 DecodeHexPair_digits)
  qed
qed

lemma LowerHex_inject [simp]: "LowerHex a = LowerHex b \<longleftrightarrow> a = b"
proof
  assume eq: "LowerHex a = LowerHex b"
  have "length (LowerHex a) = length (LowerHex b)" by (simp only: eq)
  then have len: "length a = length b" by (simp only: length_LowerHex)
  have "Some a = DecodeLowerHex (LowerHex a) (length a)" by (rule DecodeLowerHex_LowerHex [symmetric])
  also have "\<dots> = Some b" unfolding eq len by (rule DecodeLowerHex_LowerHex)
  finally show "a = b" by simp
qed simp

section \<open>Property\<close>

text \<open>
  \<open>DecodeLowerHex\<close> accepts exactly the lower-case hexadecimal spelling \<open>LowerHex\<close> produces,
  of exactly the requested number of bytes: every key, nonce and identifier has one spelling.
\<close>

theorem DecodeLowerHex_canonical:
  "DecodeLowerHex str n = Some bs \<longleftrightarrow> length bs = n \<and> str = LowerHex bs"
  using DecodeLowerHex_SomeD [of str n bs] DecodeLowerHex_LowerHex [of bs] by auto

end
