(* ===== verification/Json_Fields.thy ===== *)
theory Json_Fields
  imports Hwc_Prelude
begin

text \<open>
  The JSON field readers of \<open>receiver/entry/src/main/cpp/native_protocol.cpp\<close> (\<open>ValueStart\<close>,
  \<open>JsonString\<close>, \<open>JsonInteger\<close>, \<open>EscapeJson\<close>). They are no JSON parser: they search the quoted
  key in the text and read the value behind the next colon. The theory states what a flat JSON
  object is as text (\<open>render_object\<close>, the compact form \<open>JSON.stringify\<close> prints) and proves that
  on such text the readers are the lookup in the field list, and that escaping is inverted by
  the string reader for every value.
\<close>

section \<open>The readers\<close>

definition quoted :: "string \<Rightarrow> string" where
  "quoted key = dquote # key @ [dquote]"

definition skip_json_space :: "string \<Rightarrow> nat \<Rightarrow> nat" where
  "skip_json_space json start = start + length (takeWhile json_space (drop start json))"

definition ValueStart :: "string \<Rightarrow> string \<Rightarrow> nat option" where
  "ValueStart json key =
     (case find_from json (quoted key) 0 of
        None \<Rightarrow> None
      | Some keyPosition \<Rightarrow>
          (case find_from json [CHR '':''] (keyPosition + length (quoted key)) of
             None \<Rightarrow> None
           | Some colon \<Rightarrow> Some (skip_json_space json (colon + 1))))"

text \<open>The loop of \<open>JsonString\<close>, from the character after the opening quote.\<close>

fun json_unescape :: "char \<Rightarrow> char option" where
  "json_unescape c =
     (if c = dquote then Some dquote
      else if c = backslash then Some backslash
      else if c = CHR ''n'' then Some newline
      else if c = CHR ''r'' then Some carriage_return
      else if c = CHR ''t'' then Some tabulator
      else None)"

fun json_string_loop :: "string \<Rightarrow> string \<Rightarrow> string option" where
  "json_string_loop str [] = None"
| "json_string_loop str (c # cs) =
     (if c = dquote then Some str
      else if c = backslash then
        (case cs of
           [] \<Rightarrow> None
         | e # rest \<Rightarrow>
             (case json_unescape e of
                None \<Rightarrow> None
              | Some x \<Rightarrow> json_string_loop (str @ [x]) rest))
      else json_string_loop (str @ [c]) cs)"

definition JsonString :: "string \<Rightarrow> string \<Rightarrow> string option" where
  "JsonString json key =
     (case ValueStart json key of
        None \<Rightarrow> None
      | Some start \<Rightarrow>
          (if start \<ge> length json \<or> json ! start \<noteq> dquote then None
           else json_string_loop [] (drop (start + 1) json)))"

definition JsonInteger :: "string \<Rightarrow> string \<Rightarrow> int option" where
  "JsonInteger json key =
     (case ValueStart json key of
        None \<Rightarrow> None
      | Some start \<Rightarrow>
          (case from_chars_int64 (drop start json) of
             None \<Rightarrow> None
           | Some (v, used) \<Rightarrow>
               (let cursor = skip_json_space json (start + used)
                in if cursor \<ge> length json
                      \<or> (json ! cursor \<noteq> CHR '','' \<and> json ! cursor \<noteq> CHR ''}'' \<and> json ! cursor \<noteq> CHR '']'')
                   then None else Some v)))"

fun escape_char :: "char \<Rightarrow> string" where
  "escape_char c =
     (if c = dquote then [backslash, dquote]
      else if c = backslash then [backslash, backslash]
      else if c = newline then [backslash, CHR ''n'']
      else if c = carriage_return then [backslash, CHR ''r'']
      else if c = tabulator then [backslash, CHR ''t'']
      else [c])"

definition EscapeJson :: "string \<Rightarrow> string" where
  "EscapeJson str = concat (map escape_char str)"

section \<open>Escaping is inverted by the string reader\<close>

lemma json_string_loop_escape:
  "json_string_loop acc (EscapeJson str @ dquote # rest) = Some (acc @ str)"
proof (induction str arbitrary: acc)
  case Nil
  show ?case by (simp add: EscapeJson_def)
next
  case (Cons c cs)
  have "EscapeJson (c # cs) = escape_char c @ EscapeJson cs" by (simp add: EscapeJson_def)
  then show ?case using Cons.IH [of "acc @ [c]"] by (auto split: if_splits)
qed

definition plain :: "string \<Rightarrow> bool" where
  "plain s \<longleftrightarrow> list_all (\<lambda>c. c \<noteq> dquote \<and> c \<noteq> backslash \<and> 32 \<le> ord c) s"

lemma EscapeJson_plain: "plain s \<Longrightarrow> EscapeJson s = s"
  by (induction s) (auto simp: plain_def EscapeJson_def ord_def)

lemma plain_no_dquote: "plain s \<Longrightarrow> dquote \<notin> set s"
  by (auto simp: plain_def list_all_iff)

section \<open>Flat objects as text\<close>

datatype json_value = JStr string | JInt int

definition int_dec :: "int \<Rightarrow> string" where
  "int_dec i = (if i < 0 then CHR ''-'' # dec (nat (- i)) else dec (nat i))"

fun render_value :: "json_value \<Rightarrow> string" where
  "render_value (JStr s) = quoted (EscapeJson s)"
| "render_value (JInt i) = int_dec i"

fun render_fields :: "(string \<times> json_value) list \<Rightarrow> string" where
  "render_fields [] = ''}''"
| "render_fields [(k, v)] = quoted k @ CHR '':'' # render_value v @ ''}''"
| "render_fields ((k, v) # f # fs) = quoted k @ CHR '':'' # render_value v @ CHR '','' # render_fields (f # fs)"

definition render_object :: "(string \<times> json_value) list \<Rightarrow> string" where
  "render_object fs = CHR ''{'' # render_fields fs"

text \<open>
  What the search by text needs of a key and of an object: the key is a nonempty alphanumeric
  word, the object's strings are plain, and no string value before the key spells the key (the
  search would take that value for the key).
\<close>

definition key_word :: "string \<Rightarrow> bool" where
  "key_word k \<longleftrightarrow> k \<noteq> [] \<and> list_all isalnum k"

fun searchable_value :: "string \<Rightarrow> json_value \<Rightarrow> bool" where
  "searchable_value k (JStr s) \<longleftrightarrow> plain s \<and> s \<noteq> k"
| "searchable_value k (JInt i) \<longleftrightarrow> True"

definition searchable :: "string \<Rightarrow> (string \<times> json_value) list \<Rightarrow> bool" where
  "searchable k fs \<longleftrightarrow> key_word k \<and> list_all (\<lambda>(k', v). key_word k' \<and> searchable_value k v) fs"

section \<open>Where a quoted key is found\<close>

lemma length_quoted [simp]: "length (quoted k) = length k + 2"
  by (simp add: quoted_def)

lemma key_word_no_dquote: "key_word k \<Longrightarrow> dquote \<notin> set k"
  by (auto simp: key_word_def list_all_iff isalnum_def isdigit_def isupper_def islower_def ord_def)

lemma key_word_no_sep: "key_word k \<Longrightarrow> CHR '':'' \<notin> set k \<and> CHR '','' \<notin> set k"
  by (auto simp: key_word_def list_all_iff isalnum_def isdigit_def isupper_def islower_def ord_def)

lemma find_quoted_other:
  assumes "dquote \<noteq> c"
  shows "find_sub (quoted k) (c # s) = map_option Suc (find_sub (quoted k) s)"
proof -
  have "take (length (quoted k)) (c # s) \<noteq> quoted k" using assms by (simp add: quoted_def)
  then show ?thesis by (simp only: find_sub.simps(2) if_False)
qed

lemma find_quoted_skip_prefix:
  assumes "dquote \<notin> set u"
  shows "find_sub (quoted k) (u @ s) = map_option ((+) (length u)) (find_sub (quoted k) s)"
  using assms
  by (cases "find_sub (quoted k) s"; induction u) (simp_all add: find_quoted_other del: find_sub.simps(2))

lemma take_quoted_segment:
  assumes "dquote \<notin> set k" and "dquote \<notin> set w"
    and "take (length (quoted k)) (dquote # w @ dquote # s) = quoted k"
  shows "w = k"
proof -
  have t: "take (Suc (length k)) (w @ dquote # s) = k @ [dquote]"
    using assms(3) by (simp add: quoted_def)
  have "w @ dquote # s = (k @ [dquote]) @ drop (Suc (length k)) (w @ dquote # s)"
    by (metis append_take_drop_id t)
  then have "takeWhile (\<lambda>c. c \<noteq> dquote) (w @ dquote # s)
      = takeWhile (\<lambda>c. c \<noteq> dquote) ((k @ [dquote]) @ drop (Suc (length k)) (w @ dquote # s))"
    by simp
  also have "\<dots> = k" using assms(1) by (subst append_assoc, subst takeWhile_append2) auto
  also have "takeWhile (\<lambda>c. c \<noteq> dquote) (w @ dquote # s) = w"
    using assms(2) by (subst takeWhile_append2) auto
  finally show ?thesis .
qed

lemma find_quoted_skip_segment:
  assumes "dquote \<notin> set k" and "dquote \<notin> set w" and "w \<noteq> k"
  shows "find_sub (quoted k) (dquote # w @ dquote # s)
       = map_option ((+) (Suc (length w))) (find_sub (quoted k) (dquote # s))"
proof -
  have "take (length (quoted k)) (dquote # w @ dquote # s) \<noteq> quoted k"
    using take_quoted_segment assms by blast
  then have "find_sub (quoted k) (dquote # w @ dquote # s)
      = map_option Suc (find_sub (quoted k) (w @ dquote # s))"
    by (simp only: find_sub.simps(2) if_False)
  then show ?thesis
    by (cases "find_sub (quoted k) (dquote # s)") (simp_all add: find_quoted_skip_prefix [OF assms(2)])
qed

lemma find_quoted_hit: "find_sub (quoted k) (quoted k @ s) = Some 0"
  by (rule find_sub_prefix)

lemma find_quoted_last:
  assumes "dquote \<notin> set u"
  shows "find_sub (quoted k) (dquote # u) = None"
proof -
  have "take (length (quoted k)) (dquote # u) \<noteq> quoted k"
  proof
    assume "take (length (quoted k)) (dquote # u) = quoted k"
    then have "take (Suc (length k)) u = k @ [dquote]" by (simp add: quoted_def)
    then have "dquote \<in> set (take (Suc (length k)) u)" by simp
    with assms show False by (auto dest: in_set_takeD)
  qed
  moreover have "find_sub (quoted k) u = None"
    using find_quoted_skip_prefix [OF assms, of k "[]"] by (simp add: quoted_def)
  ultimately show ?thesis by (simp only: find_sub.simps(2) if_False) simp
qed

lemma dec_no_dquote: "dquote \<notin> set (int_dec i)"
  by (auto simp: int_dec_def isdigit_def ord_def dest!: dec_digits split: if_splits)

lemmas find_quoted_rules = find_quoted_skip_segment find_quoted_last option.map_comp comp_def

text \<open>A field with another key is skipped as a whole, up to the next opening quote.\<close>

lemma find_field_skip:
  assumes k: "key_word k" and k': "key_word k'" "k' \<noteq> k" and v: "searchable_value k v"
  shows "find_sub (quoted k) (quoted k' @ CHR '':'' # render_value v @ CHR '','' # dquote # s)
       = map_option ((+) (length k' + length (render_value v) + 4)) (find_sub (quoted k) (dquote # s))"
proof -
  note no = key_word_no_dquote [OF k] key_word_no_dquote [OF k'(1)]
  have sep: "u \<noteq> k" if "CHR '':'' \<in> set u \<or> CHR '','' \<in> set u" for u
    using that key_word_no_sep [OF k] by auto
  have key: "find_sub (quoted k) (quoted k' @ u) = map_option ((+) (Suc (length k'))) (find_sub (quoted k) (dquote # u))" for u
    using find_quoted_skip_segment [OF no(1) no(2) k'(2), of u] by (simp only: quoted_def append_Cons append.simps append_assoc)
  show ?thesis
  proof (cases v)
    case (JStr w)
    with v have w: "plain w" "w \<noteq> k" by simp_all
    have "find_sub (quoted k) (dquote # CHR '':'' # quoted w @ CHR '','' # dquote # s)
        = map_option ((+) (Suc (Suc 0))) (find_sub (quoted k) (quoted w @ CHR '','' # dquote # s))"
      using find_quoted_skip_segment [OF no(1), of "'':''" "w @ dquote # CHR '','' # dquote # s"] sep [of "'':''"]
      by (simp add: quoted_def del: find_sub.simps(2))
    moreover have "find_sub (quoted k) (quoted w @ CHR '','' # dquote # s)
        = map_option ((+) (Suc (length w))) (find_sub (quoted k) (dquote # CHR '','' # dquote # s))"
      using find_quoted_skip_segment [OF no(1) plain_no_dquote [OF w(1)] w(2), of "CHR '','' # dquote # s"]
      by (simp add: quoted_def del: find_sub.simps(2))
    moreover have "find_sub (quoted k) (dquote # CHR '','' # dquote # s)
        = map_option ((+) (Suc (Suc 0))) (find_sub (quoted k) (dquote # s))"
      using find_quoted_skip_segment [OF no(1), of "'',''" s] sep [of "'',''"]
      by (simp del: find_sub.simps(2))
    ultimately show ?thesis
      by (cases "find_sub (quoted k) (dquote # s)")
         (simp_all add: JStr key EscapeJson_plain [OF w(1)] del: find_sub.simps(2))
  next
    case (JInt i)
    have "find_sub (quoted k) (dquote # (CHR '':'' # int_dec i @ '','') @ dquote # s)
        = map_option ((+) (Suc (length (CHR '':'' # int_dec i @ '','')))) (find_sub (quoted k) (dquote # s))"
      by (rule find_quoted_skip_segment [OF no(1)]) (simp_all add: dec_no_dquote sep)
    then show ?thesis
      by (cases "find_sub (quoted k) (dquote # s)") (simp_all add: JInt key del: find_sub.simps(2))
  qed
qed

lemma render_fields_dquote: "fs \<noteq> [] \<Longrightarrow> \<exists>s. render_fields fs = dquote # s"
  by (cases fs rule: render_fields.cases) (auto simp: quoted_def)

lemma find_last_field_absent:
  assumes k: "key_word k" and k': "key_word k'" "k' \<noteq> k" and v: "searchable_value k v"
  shows "find_sub (quoted k) (quoted k' @ CHR '':'' # render_value v @ ''}'') = None"
proof -
  note no = key_word_no_dquote [OF k] key_word_no_dquote [OF k'(1)]
  have key: "find_sub (quoted k) (quoted k' @ u) = map_option ((+) (Suc (length k'))) (find_sub (quoted k) (dquote # u))" for u
    using find_quoted_skip_segment [OF no(1) no(2) k'(2), of u] by (simp only: quoted_def append_Cons append.simps append_assoc)
  show ?thesis
  proof (cases v)
    case (JStr w)
    with v have w: "plain w" "w \<noteq> k" by simp_all
    have "k \<noteq> '':''" using key_word_no_sep [OF k] by auto
    then have "find_sub (quoted k) (dquote # CHR '':'' # quoted w @ ''}'')
        = map_option ((+) (Suc (Suc 0))) (find_sub (quoted k) (quoted w @ ''}''))"
      using find_quoted_skip_segment [OF no(1), of "'':''" "w @ dquote # ''}''"]
      by (simp add: quoted_def del: find_sub.simps(2))
    moreover have "find_sub (quoted k) (quoted w @ ''}'')
        = map_option ((+) (Suc (length w))) (find_sub (quoted k) (dquote # ''}''))"
      using find_quoted_skip_segment [OF no(1) plain_no_dquote [OF w(1)] w(2), of "''}''"]
      by (simp add: quoted_def del: find_sub.simps(2))
    moreover have "find_sub (quoted k) (dquote # ''}'') = None" by (rule find_quoted_last) simp
    ultimately show ?thesis by (simp add: JStr key EscapeJson_plain [OF w(1)] del: find_sub.simps(2))
  next
    case (JInt i)
    have "find_sub (quoted k) (dquote # CHR '':'' # int_dec i @ ''}'') = None"
      by (rule find_quoted_last) (simp add: dec_no_dquote)
    then show ?thesis by (simp add: JInt key del: find_sub.simps(2))
  qed
qed

lemma find_field_present:
  assumes "searchable k fs" and "map_of fs k = Some v"
  shows "\<exists>pre post. render_fields fs = pre @ quoted k @ CHR '':'' # render_value v @ post
     \<and> find_sub (quoted k) (render_fields fs) = Some (length pre)
     \<and> post \<noteq> [] \<and> (hd post = CHR '','' \<or> hd post = CHR ''}'')"
  using assms
proof (induction fs rule: render_fields.induct)
  case 1
  then show ?case by simp
next
  case (2 k' v')
  then have eq: "k' = k" "v' = v" by (simp_all split: if_splits)
  show ?case
    by (rule exI [of _ "[]"], rule exI [of _ "''}''"])
       (simp only: eq render_fields.simps append_Nil find_quoted_hit, simp)
next
  case (3 k' v' f fs)
  show ?case
  proof (cases "k' = k")
    case True
    with 3 have eq: "k' = k" "v' = v" by simp_all
    show ?thesis
      by (rule exI [of _ "[]"], rule exI [of _ "CHR '','' # render_fields (f # fs)"])
         (simp only: eq render_fields.simps append_Nil find_quoted_hit, simp)
  next
    case False
    with 3 have s: "searchable k (f # fs)" "map_of (f # fs) k = Some v"
      and f: "key_word k" "key_word k'" "searchable_value k v'"
      by (simp_all add: searchable_def)
    from "3.IH" [OF s] obtain pre post
      where ih: "render_fields (f # fs) = pre @ quoted k @ CHR '':'' # render_value v @ post"
        "find_sub (quoted k) (render_fields (f # fs)) = Some (length pre)"
        "post \<noteq> []" "hd post = CHR '','' \<or> hd post = CHR ''}''" by blast
    obtain s' where s': "render_fields (f # fs) = dquote # s'" using render_fields_dquote [of "f # fs"] by auto
    let ?pre = "quoted k' @ CHR '':'' # render_value v' @ CHR '','' # pre"
    have "render_fields ((k', v') # f # fs) = ?pre @ quoted k @ CHR '':'' # render_value v @ post"
      by (simp add: ih(1))
    moreover have "find_sub (quoted k) (render_fields ((k', v') # f # fs)) = Some (length ?pre)"
      using find_field_skip [OF f(1,2) False f(3), of s'] ih(2)
      by (simp add: s' quoted_def del: find_sub.simps(2))
    ultimately show ?thesis using ih(3,4) by blast
  qed
qed

lemma find_field_absent:
  assumes "searchable k fs" and "map_of fs k = None"
  shows "find_sub (quoted k) (render_fields fs) = None"
  using assms
proof (induction fs rule: render_fields.induct)
  case 1
  have "find_sub (quoted k) (''}'' @ []) = None"
    by (subst find_quoted_skip_prefix) (simp_all add: quoted_def)
  then show ?case by simp
next
  case (2 k' v')
  then have "k' \<noteq> k" by (auto split: if_splits)
  with 2 show ?case
    by (simp only: render_fields.simps) (rule find_last_field_absent, auto simp: searchable_def)
next
  case (3 k' v' f fs)
  then have ne: "k' \<noteq> k" by (auto split: if_splits)
  with 3 have s: "searchable k (f # fs)" "map_of (f # fs) k = None"
    and f: "key_word k" "key_word k'" "searchable_value k v'"
    by (simp_all add: searchable_def)
  obtain s' where s': "render_fields (f # fs) = dquote # s'" using render_fields_dquote [of "f # fs"] by auto
  show ?case
    using find_field_skip [OF f(1,2) ne f(3), of s'] "3.IH" [OF s]
    by (simp add: s' del: find_sub.simps(2))
qed

section \<open>The readers are the lookup in the field list\<close>

lemma ValueStart_found:
  assumes s: "s = pre @ quoted k @ CHR '':'' # c # t" and "find_sub (quoted k) s = Some (length pre)"
    and c: "\<not> json_space c"
  shows "ValueStart (CHR ''{'' # s) k = Some (length pre + length k + 4)"
    and "drop (length pre + length k + 4) (CHR ''{'' # s) = c # t"
proof -
  have key: "find_from (CHR ''{'' # s) (quoted k) 0 = Some (Suc (length pre))"
    using assms(2) by (simp add: find_from_def find_quoted_other del: find_sub.simps(2))
  have "drop (length (CHR ''{'' # pre @ quoted k)) ((CHR ''{'' # pre @ quoted k) @ CHR '':'' # c # t)
      = CHR '':'' # c # t"
    by (simp only: append_eq_conv_conj [symmetric] drop_append) simp
  moreover have "length (CHR ''{'' # pre @ quoted k) = length pre + length k + 3"
    and "(CHR ''{'' # pre @ quoted k) @ CHR '':'' # c # t = CHR ''{'' # s"
    by (simp_all add: s)
  ultimately have at: "drop (length pre + length k + 3) (CHR ''{'' # s) = CHR '':'' # c # t"
    by (simp only:)
  have "length pre + length k + 3 \<le> length (CHR ''{'' # s)" by (simp add: s)
  with at have colon: "find_from (CHR ''{'' # s) '':'' (Suc (length pre) + length (quoted k)) = Some (length pre + length k + 3)"
    by (simp add: find_from_def eval_nat_numeral)
  show at': "drop (length pre + length k + 4) (CHR ''{'' # s) = c # t"
  proof -
    have "drop (length pre + length k + 4) (CHR ''{'' # s)
        = drop 1 (drop (length pre + length k + 3) (CHR ''{'' # s))"
      by (simp only: drop_drop) (simp add: add.commute)
    then show ?thesis unfolding at by simp
  qed
  show "ValueStart (CHR ''{'' # s) k = Some (length pre + length k + 4)"
    using key colon at' c by (simp add: ValueStart_def skip_json_space_def add.commute eval_nat_numeral)
qed

lemma ValueStart_absent:
  assumes "searchable k fs" and "map_of fs k = None"
  shows "ValueStart (render_object fs) k = None"
  using find_field_absent [OF assms]
  by (simp add: ValueStart_def render_object_def find_from_def find_quoted_other del: find_sub.simps(2))

lemma int_dec_first:
  obtains c t where "int_dec i = c # t" "\<not> json_space c" "c \<noteq> dquote"
proof -
  have digit: "\<not> json_space c \<and> c \<noteq> dquote" if "isdigit c" for c
    using that by (auto simp: isdigit_def json_space_def ord_def)
  show thesis
  proof (cases "i < 0")
    case True
    then show ?thesis using that [of "CHR ''-''" "dec (nat (- i))"] by (simp add: int_dec_def json_space_def)
  next
    case False
    obtain c t where ct: "dec (nat i) = c # t" by (metis dec_not_Nil neq_Nil_conv)
    then have "isdigit c" using dec_digits [of c "nat i"] by simp
    with digit ct False that show ?thesis by (simp add: int_dec_def)
  qed
qed

lemma render_value_first:
  obtains c t where "render_value v = c # t" "\<not> json_space c" "c = dquote \<longleftrightarrow> (\<exists>w. v = JStr w)"
proof (cases v)
  case (JStr w)
  show thesis by (rule that [of dquote]) (auto simp: JStr quoted_def json_space_def)
next
  case (JInt i)
  obtain c t where "int_dec i = c # t" "\<not> json_space c" "c \<noteq> dquote" by (rule int_dec_first)
  then show thesis using that by (simp add: JInt)
qed

text \<open>Everything the two readers need to know about a present field.\<close>

lemma present_field:
  assumes "searchable k fs" and "map_of fs k = Some v"
  obtains start post where "ValueStart (render_object fs) k = Some start"
    and "start < length (render_object fs)"
    and "drop start (render_object fs) = render_value v @ post"
    and "post \<noteq> []" and "hd post = CHR '','' \<or> hd post = CHR ''}''"
proof -
  obtain pre post where f: "render_fields fs = pre @ quoted k @ CHR '':'' # render_value v @ post"
      "find_sub (quoted k) (render_fields fs) = Some (length pre)"
      and post: "post \<noteq> []" "hd post = CHR '','' \<or> hd post = CHR ''}''"
    using find_field_present [OF assms] by blast
  obtain c t where v: "render_value v = c # t" "\<not> json_space c" by (rule render_value_first)
  then have s: "render_fields fs = pre @ quoted k @ CHR '':'' # c # (t @ post)" using f(1) by simp
  note vs = ValueStart_found [OF s f(2) v(2)]
  have "length pre + length k + 4 < length (render_object fs)" using f(1) v(1) by (simp add: render_object_def)
  with vs v(1) post that [of "length pre + length k + 4" post] show thesis
    by (simp add: render_object_def)
qed

lemma JsonString_render_object:
  assumes "searchable k fs"
  shows "JsonString (render_object fs) k
       = (case map_of fs k of Some (JStr w) \<Rightarrow> Some w | _ \<Rightarrow> None)"
proof (cases "map_of fs k")
  case None
  then show ?thesis using ValueStart_absent [OF assms] by (simp add: JsonString_def)
next
  case (Some v)
  obtain start post where st: "ValueStart (render_object fs) k = Some start"
      "start < length (render_object fs)" "drop start (render_object fs) = render_value v @ post"
    by (rule present_field [OF assms Some])
  have nth: "render_object fs ! start = hd (render_value v @ post)"
    using st(2,3) by (metis hd_drop_conv_nth)
  show ?thesis
  proof (cases v)
    case (JStr w)
    have "drop (start + 1) (render_object fs) = tl (render_value v @ post)"
      using st(3) by (metis drop_Suc tl_drop Suc_eq_plus1)
    then show ?thesis using st nth json_string_loop_escape [of "[]" w post]
      by (simp add: JsonString_def JStr Some quoted_def)
  next
    case (JInt i)
    obtain c t where "int_dec i = c # t" "c \<noteq> dquote" by (rule int_dec_first)
    then show ?thesis using st(1,2) nth by (simp add: JsonString_def JInt Some)
  qed
qed

lemma from_chars_int64_dec:
  assumes "- (2 ^ 63) \<le> i" and "i < 2 ^ 63" and "rest \<noteq> []" and "\<not> is_base_digit 10 (hd rest)"
  shows "from_chars_int64 (int_dec i @ rest) = Some (i, length (int_dec i))"
proof (cases "i < 0")
  case True
  then have "nat (- i) \<le> 2 ^ 63" using assms(1) by simp
  from from_chars_unsigned_dec [OF this] assms(4) True show ?thesis
    by (simp add: from_chars_int64_def int_dec_def)
next
  case False
  then have "nat i \<le> 2 ^ 63 - 1" using assms(2) by simp
  from from_chars_unsigned_dec [OF this] assms(4)
  have fc: "from_chars_unsigned 10 (2 ^ 63 - 1) (dec (nat i) @ rest) = Some (nat i, length (dec (nat i)))"
    by blast
  obtain c t where ct: "dec (nat i) = c # t" by (metis dec_not_Nil neq_Nil_conv)
  then have "c \<noteq> CHR ''-''" using dec_digits [of c "nat i"] by (auto simp: isdigit_def ord_def)
  with fc ct False show ?thesis by (simp add: from_chars_int64_def int_dec_def)
qed

lemma from_chars_int64_dquote: "from_chars_int64 (dquote # s) = None"
  by (simp add: from_chars_int64_def from_chars_unsigned_def is_base_digit_def digit_value_def
      isdigit_def islower_def isupper_def ord_def)

definition in_int64 :: "json_value \<Rightarrow> bool" where
  "in_int64 v \<longleftrightarrow> (case v of JStr _ \<Rightarrow> True | JInt i \<Rightarrow> - (2 ^ 63) \<le> i \<and> i < 2 ^ 63)"

lemma JsonInteger_render_object:
  assumes "searchable k fs" and range: "list_all (\<lambda>(_, v). in_int64 v) fs"
  shows "JsonInteger (render_object fs) k
       = (case map_of fs k of Some (JInt i) \<Rightarrow> Some i | _ \<Rightarrow> None)"
proof (cases "map_of fs k")
  case None
  then show ?thesis using ValueStart_absent [OF assms(1)] by (simp add: JsonInteger_def)
next
  case (Some v)
  obtain start post where st: "ValueStart (render_object fs) k = Some start"
      "start < length (render_object fs)" "drop start (render_object fs) = render_value v @ post"
      and post: "post \<noteq> []" "hd post = CHR '','' \<or> hd post = CHR ''}''"
    by (rule present_field [OF assms(1) Some])
  show ?thesis
  proof (cases v)
    case (JStr w)
    then show ?thesis using st(1,3) by (simp add: JsonInteger_def Some quoted_def from_chars_int64_dquote)
  next
    case (JInt i)
    have i: "- (2 ^ 63) \<le> i" "i < 2 ^ 63"
      using range map_of_SomeD [OF Some] by (auto simp: list_all_iff in_int64_def JInt)
    have "\<not> is_base_digit 10 (hd post)" and sp: "\<not> json_space (hd post)"
      using post(2) by (auto simp: is_base_digit_def digit_value_def isdigit_def islower_def isupper_def ord_def json_space_def)
    from from_chars_int64_dec [OF i post(1) this(1)] st(3)
    have fc: "from_chars_int64 (drop start (render_object fs)) = Some (i, length (int_dec i))"
      by (simp add: JInt)
    have dr: "drop (start + length (int_dec i)) (render_object fs) = post"
      using st(3) by (metis JInt add.commute append_eq_conv_conj drop_drop render_value.simps(2))
    then have lt: "start + length (int_dec i) < length (render_object fs)"
      using post(1) by (metis drop_eq_Nil not_le)
    have "skip_json_space (render_object fs) (start + length (int_dec i)) = start + length (int_dec i)"
      using sp post(1) by (cases post) (simp_all add: skip_json_space_def dr)
    moreover have "render_object fs ! (start + length (int_dec i)) = hd post"
      using lt dr by (metis hd_drop_conv_nth)
    ultimately show ?thesis using st(1) fc lt post(2)
      by (auto simp: JsonInteger_def Some JInt)
  qed
qed

section \<open>Properties\<close>

text \<open>
  On a JSON object of fields whose keys are words and whose string values are free of quotes,
  backslashes and control characters and do not spell the key looked up, \<open>JsonString\<close> and
  \<open>JsonInteger\<close> return the field's value, and nothing when the field is missing or of the other
  type.
\<close>

theorem Json_readers_lookup:
  assumes "searchable k fs" and "list_all (\<lambda>(_, v). in_int64 v) fs"
  shows "JsonString (render_object fs) k = (case map_of fs k of Some (JStr w) \<Rightarrow> Some w | _ \<Rightarrow> None)
    \<and> JsonInteger (render_object fs) k = (case map_of fs k of Some (JInt i) \<Rightarrow> Some i | _ \<Rightarrow> None)"
  using JsonString_render_object [OF assms(1)] JsonInteger_render_object [OF assms] by blast

lemma Json_readers_lookup_witness:
  "JsonInteger (render_object [(''type'', JStr ''hello''), (''width'', JInt 1280)]) ''width'' = Some 1280"
proof -
  let ?fs = "[(''type'', JStr ''hello''), (''width'', JInt 1280)]"
  have "searchable ''width'' ?fs"
    by (simp add: searchable_def key_word_def plain_def isalnum_def isdigit_def isupper_def islower_def ord_def)
  moreover have "list_all (\<lambda>(_, v). in_int64 v) ?fs" by (simp add: in_int64_def)
  ultimately show ?thesis using Json_readers_lookup [of "''width''" ?fs] by simp
qed

text \<open>
  The side condition on string values is needed: the search is textual, so a string value that
  spells a key is taken for it, and the reader returns the value of the field that follows.
\<close>

lemma JsonString_confused_by_value:
  "JsonString (render_object [(''a'', JStr ''type''), (''b'', JStr ''x'')]) ''type'' = Some ''x''"
  by (simp add: JsonString_def ValueStart_def render_object_def quoted_def find_from_def EscapeJson_def
      skip_json_space_def json_space_def)

end
