(* ===== verification/Native_Protocol.thy ===== *)
theory Native_Protocol
  imports Sha2_Hmac Hex_Codec Json_Fields
begin

text \<open>
  The HWC6 receiver protocol of \<open>receiver/entry/src/main/cpp/native_protocol.h\<close> and
  \<open>native_protocol.cpp\<close>: the binary video header, the media contract and the source epoch
  policy, the canonical messages of the pairing and authentication proofs and their HMACs, the
  short code derived from a pairing token, the constant-time comparison and the decision on a
  pairing authorization. \<open>createDirectVideoMessage\<close> is the sender's counterpart of the header
  decoder, from \<open>extension/direct-protocol.js\<close>.

  An empty string result stands for a rejected input, as in the source.
\<close>

section \<open>Constants and data\<close>

definition kVideoMagic :: u32 where "kVideoMagic = 0x48574336"
definition kVersion :: byte where "kVersion = 6"
definition kHeaderSize :: nat where "kHeaderSize = 32"
definition kMaxFrameBytes :: nat where "kMaxFrameBytes = 8 * 1024 * 1024"
definition kKeyframe :: u16 where "kKeyframe = 1"

datatype PairingAuthorizationResult = PairAccepted | PairExpired | PairReplayed | PairMismatch

datatype SourceContractDecision = SourceAccepted | EpochStale | EpochContractMismatch

record VideoHeader =
  sourceEpoch :: u32
  sequence :: u32
  flags :: u16
  payloadLength :: u32
  timestampUs :: u64

record MediaContract =
  width :: u32
  height :: u32
  maxFps :: u32

text \<open>The default member initialisers of the struct: the contract of no media.\<close>

definition noContract :: MediaContract where
  "noContract = \<lparr>width = 0, height = 0, maxFps = 0\<rparr>"

section \<open>Video header\<close>

definition DecodeVideoHeader :: "byte list \<Rightarrow> VideoHeader option" where
  "DecodeVideoHeader data =
     (if length data < kHeaderSize \<or> be_get32 data 0 \<noteq> kVideoMagic \<or> data ! 4 \<noteq> kVersion then None
      else
        (let header = \<lparr>sourceEpoch = be_get32 data 8, sequence = be_get32 data 12,
                       flags = ucast (data ! 5), payloadLength = be_get32 data 16,
                       timestampUs = be_get64 data 24\<rparr>
         in if be_get16 data 6 \<noteq> word_of_nat kHeaderSize \<or> be_get32 data 20 \<noteq> 0
               \<or> payloadLength header = 0 \<or> unat (payloadLength header) > kMaxFrameBytes
               \<or> flags header AND NOT kKeyframe \<noteq> 0
               \<or> length data \<noteq> kHeaderSize + unat (payloadLength header)
            then None else Some header))"

text \<open>
  The sender's message: the header fields in network order, then the encoded chunk. None is a
  thrown error. The arguments are the integers the JavaScript checks leave over, so negative
  and fractional values are outside their type.
\<close>

definition createDirectVideoMessage ::
    "bool \<Rightarrow> nat \<Rightarrow> nat \<Rightarrow> nat \<Rightarrow> byte list \<Rightarrow> byte list option" where
  "createDirectVideoMessage key epoch sequenc timestamp chunk =
     (if length chunk > kMaxFrameBytes then None
      else if epoch > 0xffffffff \<or> sequenc > 0xffffffff then None
      else if timestamp > 2 ^ 53 - 1 then None
      else Some (be_put32 kVideoMagic @ [kVersion, if key then 1 else 0] @ be_put16 32
        @ be_put32 (word_of_nat epoch) @ be_put32 (word_of_nat sequenc)
        @ be_put32 (word_of_nat (length chunk)) @ be_put32 0 @ be_put64 (word_of_nat timestamp)
        @ chunk))"

section \<open>Media contract and source epoch\<close>

definition IsAcceptedSourceEpoch :: "u32 \<Rightarrow> u32 \<Rightarrow> bool" where
  "IsAcceptedSourceEpoch candidate latest \<longleftrightarrow> latest \<le> candidate"

definition EvaluateSourceContract ::
    "u32 \<Rightarrow> MediaContract \<Rightarrow> u32 \<Rightarrow> MediaContract \<Rightarrow> SourceContractDecision" where
  "EvaluateSourceContract candidateEpoch candidateContract latestEpoch activeContract =
     (if candidateEpoch < latestEpoch then EpochStale
      else if candidateEpoch = latestEpoch \<and> candidateContract \<noteq> activeContract
      then EpochContractMismatch
      else SourceAccepted)"

definition IsValidMediaContract :: "MediaContract \<Rightarrow> bool" where
  "IsValidMediaContract contract =
     (if width contract = 0 \<or> height contract = 0
         \<or> width contract mod 2 \<noteq> 0 \<or> height contract mod 2 \<noteq> 0
         \<or> maxFps contract = 0 \<or> maxFps contract > 60
      then False
      else
        (let w = ucast (width contract) :: u64;
             h = ucast (height contract) :: u64;
             longEdge = max w h;
             shortEdge = min w h
         in longEdge \<le> 1920 \<and> shortEdge \<le> 1080 \<and> w * h \<le> 1920 * 1080))"

section \<open>Proofs\<close>

definition PairingShortCode :: "string \<Rightarrow> string" where
  "PairingShortCode token =
     (if length token \<noteq> 64 \<or> \<not> list_all lower_hex_digit token then ''''
      else
        (case from_chars_unsigned 16 (2 ^ 64 - 1) (substr token 0 12) of
           None \<Rightarrow> ''''
         | Some (prefix, _) \<Rightarrow>
             (let text_value = dec (prefix mod 1000000)
              in replicate (6 - length text_value) (CHR ''0'') @ text_value)))"

definition PairProofMessage :: "string \<Rightarrow> string \<Rightarrow> string \<Rightarrow> string \<Rightarrow> string \<Rightarrow> string" where
  "PairProofMessage proofMode sessionId senderId nonce deviceId =
     (if proofMode \<noteq> ''qr'' \<or> DecodeLowerHex sessionId 16 = None \<or> \<not> SenderIdValid senderId
         \<or> DecodeLowerHex nonce 32 = None \<or> DecodeLowerHex deviceId 16 = None
      then ''''
      else ''HWC6-PAIR-PROOF'' @ [newline] @ proofMode @ [newline] @ sessionId @ [newline]
           @ senderId @ [newline] @ nonce @ [newline] @ deviceId)"

definition AuthProofMessage :: "string \<Rightarrow> string \<Rightarrow> u32 \<Rightarrow> string \<Rightarrow> MediaContract \<Rightarrow> string" where
  "AuthProofMessage senderId deviceId epoch nonce contract =
     (if \<not> SenderIdValid senderId \<or> DecodeLowerHex deviceId 16 = None
         \<or> epoch = 0 \<or> DecodeLowerHex nonce 32 = None \<or> \<not> IsValidMediaContract contract
      then ''''
      else ''HWC6-AUTH-PROOF'' @ [newline] @ senderId @ [newline] @ deviceId @ [newline]
           @ dec (unat epoch) @ [newline] @ nonce @ [newline] @ ''video/avc'' @ [newline]
           @ ''annexb'' @ [newline] @ dec (unat (width contract)) @ [newline]
           @ dec (unat (height contract)) @ [newline] @ dec (unat (maxFps contract)))"

definition ComputePairProof ::
    "string \<Rightarrow> string \<Rightarrow> string \<Rightarrow> string \<Rightarrow> string \<Rightarrow> string \<Rightarrow> string" where
  "ComputePairProof secret proofMode sessionId senderId nonce deviceId =
     (let message = PairProofMessage proofMode sessionId senderId nonce deviceId
      in if message = '''' then ''''
         else (case DecodeLowerHex secret 32 of
                 None \<Rightarrow> ''''
               | Some key \<Rightarrow> LowerHex (HmacSha256 key (bytes_of message))))"

definition ComputeAuthProof ::
    "string \<Rightarrow> string \<Rightarrow> string \<Rightarrow> u32 \<Rightarrow> string \<Rightarrow> MediaContract \<Rightarrow> string" where
  "ComputeAuthProof credential senderId deviceId epoch nonce contract =
     (let message = AuthProofMessage senderId deviceId epoch nonce contract
      in case DecodeLowerHex credential 32 of
           None \<Rightarrow> ''''
         | Some key \<Rightarrow> if message = '''' then ''''
                        else LowerHex (HmacSha256 key (bytes_of message)))"

section \<open>Comparison and authorization\<close>

definition byte_at :: "string \<Rightarrow> nat \<Rightarrow> byte" where
  "byte_at s index = (if index < length s then byte_of_char (s ! index) else 0)"

definition ConstantTimeEqualSized :: "string \<Rightarrow> string \<Rightarrow> nat \<Rightarrow> bool" where
  "ConstantTimeEqualSized first second expectedSize =
     (let difference = (word_of_nat (length first) XOR word_of_nat (length second))
                       OR (word_of_nat (length first) XOR word_of_nat expectedSize)
                       OR (word_of_nat (length second) XOR word_of_nat expectedSize) :: u64
      in foldl (\<lambda>d index. d OR ucast (byte_at first index XOR byte_at second index))
           difference [0..<expectedSize] = 0)"

definition ConstantTimeEqual :: "string \<Rightarrow> string \<Rightarrow> bool" where
  "ConstantTimeEqual first second = ConstantTimeEqualSized first second 64"

definition EvaluatePairingAuthorization ::
    "string \<Rightarrow> string \<Rightarrow> string \<Rightarrow> string \<Rightarrow> string \<Rightarrow> string \<Rightarrow> int \<Rightarrow> int \<Rightarrow> PairingAuthorizationResult"
where
  "EvaluatePairingAuthorization sessionId token pendingSessionId pendingToken pendingShortCode
     consumedSessionId expiresAtMs nowMs =
     (if sessionId \<noteq> '''' \<and> sessionId = consumedSessionId then PairReplayed
      else if nowMs \<ge> expiresAtMs then PairExpired
      else
        (let qrMatch = pendingSessionId \<noteq> '''' \<and> sessionId = pendingSessionId
                       \<and> ConstantTimeEqual token pendingToken;
             shortMatch = pendingShortCode \<noteq> ''''
                          \<and> ConstantTimeEqualSized (PairingShortCode token) pendingShortCode 6
         in if qrMatch \<or> shortMatch then PairAccepted else PairMismatch))"

section \<open>The header decoder accepts one layout\<close>

text \<open>The wire layout as a document would state it.\<close>

definition render_video_header :: "VideoHeader \<Rightarrow> byte list" where
  "render_video_header h =
     be_put32 kVideoMagic @ [kVersion, ucast (flags h)] @ be_put16 32
     @ be_put32 (sourceEpoch h) @ be_put32 (sequence h) @ be_put32 (payloadLength h)
     @ be_put32 0 @ be_put64 (timestampUs h)"

definition video_header_fits :: "VideoHeader \<Rightarrow> nat \<Rightarrow> bool" where
  "video_header_fits h n \<longleftrightarrow>
     flags h \<in> {0, 1} \<and> 0 < n \<and> n \<le> kMaxFrameBytes \<and> unat (payloadLength h) = n"

lemma length_render_video_header [simp, wire_layout]: "length (render_video_header h) = 32"
  by (simp add: render_video_header_def)

lemma render_video_header_layout:
  fixes h payload
  defines "m \<equiv> render_video_header h @ payload"
  shows "be_get32 m 0 = kVideoMagic" "m ! 4 = kVersion" "m ! 5 = ucast (flags h)" "be_get16 m 6 = 32"
    "be_get32 m 8 = sourceEpoch h" "be_get32 m 12 = sequence h" "be_get32 m 16 = payloadLength h"
    "be_get32 m 20 = 0" "be_get64 m 24 = timestampUs h"
  unfolding m_def render_video_header_def
  by (auto simp: nth_append intro!: be_get16_layout be_get32_layout be_get64_layout)

lemma single_flag: "(f :: u16) AND NOT 1 = 0 \<longleftrightarrow> f = 0 \<or> f = 1"
proof
  assume z: "f AND NOT 1 = 0"
  have "f = (f AND NOT 1) OR (f AND 1)" by (simp flip: and.assoc bit.conj_disj_distrib)
  then have "f = f AND 1" unfolding z by simp
  moreover have "f AND 1 = 0 \<or> f AND 1 = 1" by (simp add: and_one_eq mod_2_eq_odd)
  ultimately show "f = 0 \<or> f = 1" by metis
qed auto

lemma ucast_flag: "(ucast (ucast b :: u16) :: byte) = b"
  by (rule bit_word_eqI) (auto simp: bit_simps)

lemma flag_ucast: "f = 0 \<or> f = 1 \<Longrightarrow> (ucast (ucast (f :: u16) :: byte) :: u16) = f"
  by auto

lemma render_header_bytes:
  assumes "32 \<le> length data" and "be_get32 data 0 = kVideoMagic" and "data ! 4 = kVersion"
    and "be_get16 data 6 = 32" and "be_get32 data 20 = 0"
    and "h = \<lparr>sourceEpoch = be_get32 data 8, sequence = be_get32 data 12, flags = ucast (data ! 5),
              payloadLength = be_get32 data 16, timestampUs = be_get64 data 24\<rparr>"
  shows "data = render_video_header h @ drop 32 data"
proof -
  have "render_video_header h = take 32 data"
    unfolding render_video_header_def take_32_split [OF assms(1)] assms(2) [symmetric] assms(3) [symmetric]
      assms(4) [symmetric] assms(5) [symmetric]
    by (simp add: assms(6) be_put32_get32 be_put16_get16 be_put64_get64 ucast_flag numeral_2_eq_2)
  then show ?thesis by (metis append_take_drop_id)
qed

lemma DecodeVideoHeader_iff:
  "DecodeVideoHeader data = Some h \<longleftrightarrow>
     (\<exists>payload. data = render_video_header h @ payload \<and> video_header_fits h (length payload))"
proof
  assume d: "DecodeVideoHeader data = Some h"
  have len: "32 \<le> length data" and hd: "be_get32 data 0 = kVideoMagic" "data ! 4 = kVersion"
      "be_get16 data 6 = 32" "be_get32 data 20 = 0"
      "h = \<lparr>sourceEpoch = be_get32 data 8, sequence = be_get32 data 12, flags = ucast (data ! 5),
              payloadLength = be_get32 data 16, timestampUs = be_get64 data 24\<rparr>"
      and p: "payloadLength h \<noteq> 0" "unat (payloadLength h) \<le> kMaxFrameBytes" "flags h AND NOT kKeyframe = 0"
      "length data = kHeaderSize + unat (payloadLength h)"
    using d by (auto simp: DecodeVideoHeader_def Let_def kHeaderSize_def split: if_splits)
  have "video_header_fits h (length (drop 32 data))"
    using p by (auto simp: video_header_fits_def kKeyframe_def single_flag [simplified] kHeaderSize_def unat_gt_0)
  with render_header_bytes [OF len hd]
  show "\<exists>payload. data = render_video_header h @ payload \<and> video_header_fits h (length payload)" by blast
next
  assume "\<exists>payload. data = render_video_header h @ payload \<and> video_header_fits h (length payload)"
  then obtain payload where d: "data = render_video_header h @ payload"
    and f: "flags h = 0 \<or> flags h = 1" "0 < length payload" "length payload \<le> kMaxFrameBytes"
      "unat (payloadLength h) = length payload"
    by (auto simp: video_header_fits_def)
  note l = render_video_header_layout [of h payload, folded d]
  have "payloadLength h \<noteq> 0" using f(2,4) by auto
  then show "DecodeVideoHeader data = Some h"
    using f flag_ucast [OF f(1)] by (simp add: DecodeVideoHeader_def l kHeaderSize_def kKeyframe_def single_flag [simplified])
       (simp add: d)
qed

lemma direct_message_is_rendered:
  assumes "createDirectVideoMessage key epoch sequenc timestamp chunk = Some m"
  shows "m = render_video_header \<lparr>sourceEpoch = word_of_nat epoch, sequence = word_of_nat sequenc,
      flags = (if key then 1 else 0), payloadLength = word_of_nat (length chunk),
      timestampUs = word_of_nat timestamp\<rparr> @ chunk"
    and "epoch < 2 ^ 32" and "sequenc < 2 ^ 32" and "timestamp < 2 ^ 64" and "length chunk \<le> kMaxFrameBytes"
  using assms by (auto simp: createDirectVideoMessage_def render_video_header_def split: if_splits)

lemma direct_message_roundtrip:
  assumes "createDirectVideoMessage key epoch sequenc timestamp chunk = Some m" and "chunk \<noteq> []"
  shows "\<exists>h. DecodeVideoHeader m = Some h \<and> drop kHeaderSize m = chunk
     \<and> unat (sourceEpoch h) = epoch \<and> unat (sequence h) = sequenc \<and> unat (timestampUs h) = timestamp
     \<and> unat (payloadLength h) = length chunk \<and> (flags h AND kKeyframe \<noteq> 0 \<longleftrightarrow> key)"
proof -
  note r = direct_message_is_rendered [OF assms(1)]
  let ?h = "\<lparr>sourceEpoch = word_of_nat epoch, sequence = word_of_nat sequenc,
      flags = (if key then 1 else 0), payloadLength = word_of_nat (length chunk),
      timestampUs = word_of_nat timestamp\<rparr>"
  have n: "unat (word_of_nat k :: u32) = k" if "k < 2 ^ 32" for k
    using that by (simp add: unat_of_nat)
  have t: "unat (word_of_nat timestamp :: u64) = timestamp" using r(4) by (simp add: unat_of_nat)
  have c: "unat (word_of_nat (length chunk) :: u32) = length chunk"
    using r(5) by (intro n) (simp add: kMaxFrameBytes_def)
  have "video_header_fits ?h (length chunk)"
    using assms(2) r(5) c by (simp add: video_header_fits_def)
  then have "DecodeVideoHeader m = Some ?h" using r(1) by (simp only: DecodeVideoHeader_iff) blast
  moreover have "drop kHeaderSize m = chunk" by (simp add: r(1) kHeaderSize_def)
  ultimately show ?thesis
    using c t n [OF r(2)] n [OF r(3)] by (auto simp: kKeyframe_def intro!: exI [of _ ?h])
qed

section \<open>The bounds of a media contract\<close>

lemma IsValidMediaContract_iff:
  "IsValidMediaContract c \<longleftrightarrow>
     (let w = unat (width c); h = unat (height c); fps = unat (maxFps c) in
      0 < w \<and> 0 < h \<and> even w \<and> even h \<and> 1 \<le> fps \<and> fps \<le> 60
      \<and> max w h \<le> 1920 \<and> min w h \<le> 1080)"
proof -
  define w where "w = unat (width c)"
  define h where "h = unat (height c)"
  have b: "w < 2 ^ 32" "h < 2 ^ 32" using unsigned_less [of "width c"] unsigned_less [of "height c"]
    by (simp_all add: w_def h_def)
  have u: "unat (ucast (width c) :: u64) = w" "unat (ucast (height c) :: u64) = h"
    by (simp_all add: w_def h_def unsigned_ucast_eq take_bit_nat_eq_self unsigned_less [THEN less_le_trans])
  have "w * h < 2 ^ 64" 
  proof -
    have "w * h < 2 ^ 32 * 2 ^ 32" using b by (intro mult_strict_mono) simp_all
    then show ?thesis by simp
  qed
  then have prod: "unat (ucast (width c) * ucast (height c) :: u64) = w * h"
    by (simp add: unat_mult_lem [THEN iffD1] u)
  have area: "w * h \<le> 1920 * 1080" if "max w h \<le> 1920" "min w h \<le> 1080"
  proof -
    have "w * h = max w h * min w h" by (simp add: max_def min_def)
    then show ?thesis using that mult_le_mono by metis
  qed
  have ev: "x mod 2 = 0 \<longleftrightarrow> even (unat x)" for x :: u32
    by (simp add: unat_eq_0 [symmetric] unat_mod_distrib even_iff_mod_2_eq_zero)
  have cmp: "max (ucast (width c)) (ucast (height c)) \<le> (1920 :: u64) \<longleftrightarrow> max w h \<le> 1920"
    "min (ucast (width c)) (ucast (height c)) \<le> (1080 :: u64) \<longleftrightarrow> min w h \<le> 1080"
    "(ucast (width c) * ucast (height c) :: u64) \<le> 2073600 \<longleftrightarrow> w * h \<le> 2073600"
    by (auto simp: max_def min_def word_le_nat_alt u prod)
  have nz: "width c = 0 \<longleftrightarrow> w = 0" "height c = 0 \<longleftrightarrow> h = 0"
    by (simp_all add: w_def h_def unat_eq_0)
  have fps: "maxFps c = 0 \<longleftrightarrow> \<not> 1 \<le> unat (maxFps c)" "60 < maxFps c \<longleftrightarrow> \<not> unat (maxFps c) \<le> 60"
    by (simp_all add: word_less_nat_alt unat_eq_0 [symmetric] not_le)
  show ?thesis
    using area by (auto simp del: max.bounded_iff simp: IsValidMediaContract_def Let_def cmp nz fps ev w_def [symmetric] h_def [symmetric])
qed

lemma EvaluateSourceContract_accepted:
  "EvaluateSourceContract e c latest active = SourceAccepted \<longleftrightarrow>
     unat latest < unat e \<or> (e = latest \<and> c = active)"
  by (auto simp: EvaluateSourceContract_def word_less_nat_alt word_unat_eq_iff)

section \<open>Proof messages determine their fields\<close>

lemma DecodeLowerHex_no_newline:
  assumes "DecodeLowerHex s n = Some y"
  shows "newline \<notin> set s"
  using assms DecodeLowerHex_defined [of s n] by (auto simp: list_all_iff lower_hex_digit_def isdigit_def ord_def)

lemma SenderIdValid_no_newline: "SenderIdValid s \<Longrightarrow> newline \<notin> set s"
  by (auto simp: SenderIdValid_def list_all_iff isdigit_def ord_def)

lemma dec_no_newline: "newline \<notin> set (dec n)"
  using dec_digits [of newline n] by (auto simp: isdigit_def ord_def)

lemmas field_separation = split_at_separator SenderIdValid_no_newline dec_no_newline

lemma PairProofMessage_inject:
  assumes "PairProofMessage mo se s n d = PairProofMessage mo' se' s' n' d'"
    and "PairProofMessage mo se s n d \<noteq> ''''"
  shows "mo = mo' \<and> se = se' \<and> s = s' \<and> n = n' \<and> d = d'"
  using assms by (auto simp: PairProofMessage_def field_separation split: if_splits dest!: DecodeLowerHex_no_newline)

lemma AuthProofMessage_inject:
  assumes "AuthProofMessage s d e n c = AuthProofMessage s' d' e' n' c'"
    and "AuthProofMessage s d e n c \<noteq> ''''"
  shows "s = s' \<and> d = d' \<and> e = e' \<and> n = n' \<and> c = c'"
  using assms by (auto simp: AuthProofMessage_def field_separation word_unat_eq_iff MediaContract.equality
      split: if_splits dest!: DecodeLowerHex_no_newline)

lemma proof_messages_disjoint:
  "PairProofMessage mo se s n d = AuthProofMessage s' d' e' n' c' \<longrightarrow> PairProofMessage mo se s n d = ''''"
  by (auto simp: AuthProofMessage_def PairProofMessage_def)

section \<open>Proof values\<close>

text \<open>The two proofs, as the protocol document describes them.\<close>

definition mac_spec :: "string \<Rightarrow> string \<Rightarrow> string" where
  "mac_spec key_hex message =
     (case DecodeLowerHex key_hex 32 of
        None \<Rightarrow> ''''
      | Some key \<Rightarrow> if message = '''' then '''' else LowerHex (rfc2104_hmac fips_sha256 key (bytes_of message)))"

lemma length_hmac [simp]: "length (HmacSha256 key m) = 32"
  by (simp add: HmacSha256_def Let_def)

lemma proofs_are_hmac:
  "ComputePairProof secret mo se s n d = mac_spec secret (PairProofMessage mo se s n d)"
  "ComputeAuthProof credential s d e n c = mac_spec credential (AuthProofMessage s d e n c)"
  by (simp_all add: ComputePairProof_def ComputeAuthProof_def mac_spec_def HmacSha256_is_rfc2104 Sha256_eq_fips [abs_def] Let_def
      split: option.split)

lemma proof_shape:
  "length (ComputePairProof secret mo se s n d) \<in> {0, 64}"
  "length (ComputeAuthProof credential s d e n c) \<in> {0, 64}"
  by (auto simp: ComputePairProof_def ComputeAuthProof_def Let_def length_LowerHex split: option.split)

section \<open>Constant-time comparison\<close>

lemma or_fold_zero:
  "foldl (\<lambda>d i. d OR f i) (d :: u64) is = 0 \<longleftrightarrow> d = 0 \<and> (\<forall>i\<in>set is. f i = 0)"
  by (induction "is" arbitrary: d) (auto simp: or_eq_0_iff)

lemma xor_zero_iff: "a XOR b = 0 \<longleftrightarrow> a = (b :: 'a::len word)"
proof
  assume "a XOR b = 0"
  then have "(a XOR b) XOR b = b" by simp
  then show "a = b" by (simp only: xor.assoc xor_self_eq xor.right_neutral)
qed simp

lemma ucast_zero_iff: "(ucast (a :: byte) :: u64) = 0 \<longleftrightarrow> a = 0"
proof
  assume "(ucast a :: u64) = 0"
  then have "(ucast (ucast a :: u64) :: byte) = 0" by simp
  moreover have "(ucast (ucast a :: u64) :: byte) = a" by (rule bit_word_eqI) (auto simp: bit_simps)
  ultimately show "a = 0" by simp
qed simp

lemma size_word_inject:
  assumes "m < 2 ^ 64" and "n < 2 ^ 64"
  shows "(word_of_nat m :: u64) = word_of_nat n \<longleftrightarrow> m = n"
  using assms by (simp add: word_of_nat_eq_iff take_bit_nat_eq_self)

lemma ConstantTimeEqualSized_iff:
  assumes "length first < 2 ^ 64" and "length second < 2 ^ 64" and "expectedSize < 2 ^ 64"
  shows "ConstantTimeEqualSized first second expectedSize \<longleftrightarrow> first = second \<and> length first = expectedSize"
proof -
  have "ConstantTimeEqualSized first second expectedSize \<longleftrightarrow>
      length first = length second \<and> length first = expectedSize \<and> length second = expectedSize
      \<and> (\<forall>i<expectedSize. byte_at first i = byte_at second i)"
    by (simp add: ConstantTimeEqualSized_def Let_def or_fold_zero or_eq_0_iff size_word_inject [OF assms(1,2)]
        size_word_inject [OF assms(1,3)] size_word_inject [OF assms(2,3)] ucast_zero_iff xor_zero_iff atLeast0LessThan Ball_def)
  also have "\<dots> \<longleftrightarrow> first = second \<and> length first = expectedSize"
  proof -
    have "byte_of_char a = byte_of_char b \<longleftrightarrow> a = b" for a b by (metis char_of_byte_of_char)
    then show ?thesis by (auto simp: byte_at_def list_eq_iff_nth_eq)
  qed
  finally show ?thesis .
qed

section \<open>Pairing authorization\<close>

lemma digits_value_append:
  "digits_value b (xs @ ys) = digits_value b xs * b ^ length ys + digits_value b ys"
proof (induction ys rule: rev_induct)
  case (snoc y ys)
  then show ?case
    unfolding append_assoc [symmetric] digits_value_snoc by (simp add: algebra_simps)
qed (simp add: digits_value_def)

lemma digits_value_zeros: "digits_value 10 (replicate k (CHR ''0'')) = 0"
proof (induction k)
  case (Suc k)
  have "digit_value (CHR ''0'') = Some 0" by (simp add: digit_value_def isdigit_def ord_def)
  with Suc show ?case
    unfolding replicate_Suc replicate_append_same [symmetric] by (simp add: digits_value_snoc)
qed (simp add: digits_value_def)

lemma lower_hex_is_base_digit: "lower_hex_digit c \<Longrightarrow> is_base_digit 16 c"
  by (auto simp: lower_hex_digit_def is_base_digit_def digit_value_def isdigit_def islower_def isupper_def)

lemma digits_value_bound:
  assumes "list_all (is_base_digit b) ds" and "0 < b"
  shows "digits_value b ds < b ^ length ds"
  using assms
proof (induction ds rule: rev_induct)
  case (snoc c ds)
  obtain d where d: "digit_value c = Some d" "d < b" using snoc.prems by (auto simp: is_base_digit_def split: option.splits)
  have "digits_value b ds < b ^ length ds" using snoc by simp
  then have "(digits_value b ds + 1) * b \<le> b ^ length ds * b" by (intro mult_le_mono1) simp
  with d show ?case by (simp add: digits_value_snoc mult.commute)
qed (simp add: digits_value_def)

text \<open>The six decimal digits of the first twelve hexadecimal digits of the token, modulo a million.\<close>

lemma PairingShortCode_spec:
  "if length token = 64 \<and> list_all lower_hex_digit token
   then length (PairingShortCode token) = 6 \<and> list_all isdigit (PairingShortCode token)
      \<and> digits_value 10 (PairingShortCode token) = digits_value 16 (take 12 token) mod 1000000
   else PairingShortCode token = ''''"
proof (cases "length token = 64 \<and> list_all lower_hex_digit token")
  case True
  let ?p = "take 12 token"
  have all: "list_all (is_base_digit 16) ?p"
    using True lower_hex_is_base_digit by (auto simp: list_all_iff dest: in_set_takeD)
  have len: "length ?p = 12" using True by simp
  then have ne: "?p \<noteq> []" by auto
  have "digits_value 16 ?p < 16 ^ 12" using digits_value_bound [OF all] len by simp
  then have "digits_value 16 ?p \<le> 2 ^ 64 - 1" by simp
  with all ne have fc: "from_chars_unsigned 16 (2 ^ 64 - 1) ?p = Some (digits_value 16 ?p, 12)"
    using len by (simp add: from_chars_unsigned_def takeWhile_eq_all_conv [THEN iffD2] list_all_iff)
  define v where "v = digits_value 16 ?p mod 1000000"
  have "length (dec v) \<le> 6" by (rule length_dec_le) (simp_all add: v_def)
  moreover have "list_all isdigit (dec v)" using dec_digits by (auto simp: list_all_iff)
  moreover have "PairingShortCode token = replicate (6 - length (dec v)) (CHR ''0'') @ dec v"
    using True fc by (simp add: PairingShortCode_def substr_def Let_def v_def del: One_nat_def)
  moreover have "isdigit (CHR ''0'')" by (simp add: isdigit_def ord_def)
  ultimately show ?thesis using True
    by (simp add: digits_value_append digits_value_zeros v_def list_all_iff set_replicate_conv_if)
next
  case False
  then show ?thesis by (auto simp: PairingShortCode_def)
qed

lemma PairingShortCode_length: "length (PairingShortCode token) \<le> 6"
  using PairingShortCode_spec [of token] by (auto split: if_splits)

lemma EvaluatePairingAuthorization_cases:
  assumes "length token < 2 ^ 64" and "length pendingToken < 2 ^ 64" and "length pendingShort < 2 ^ 64"
  shows "EvaluatePairingAuthorization sid token pendingSid pendingToken pendingShort consumed expires now =
    (if sid \<noteq> '''' \<and> sid = consumed then PairReplayed
     else if expires \<le> now then PairExpired
     else if (pendingSid \<noteq> '''' \<and> sid = pendingSid \<and> token = pendingToken \<and> length token = 64)
        \<or> (pendingShort = PairingShortCode token \<and> length pendingShort = 6) then PairAccepted
     else PairMismatch)"
proof -
  have "length (PairingShortCode token) < 2 ^ 64" using PairingShortCode_length [of token] by simp
  from ConstantTimeEqualSized_iff [OF this assms(3), of 6] ConstantTimeEqualSized_iff [OF assms(1,2), of 64]
  have "ConstantTimeEqualSized (PairingShortCode token) pendingShort 6 \<longleftrightarrow>
          PairingShortCode token = pendingShort \<and> length (PairingShortCode token) = 6"
    "ConstantTimeEqual token pendingToken \<longleftrightarrow> token = pendingToken \<and> length token = 64"
    by (simp_all add: ConstantTimeEqual_def)
  note eqs = this
  show ?thesis
    unfolding EvaluatePairingAuthorization_def Let_def eqs by (intro if_cong refl) auto
qed

section \<open>Properties\<close>

text \<open>
  The pairing proof is HMAC-SHA-256 (RFC 2104 over FIPS 180-4) of the canonical pairing
  message under the decoded token, in lower-case hexadecimal, and the authentication proof that
  of the canonical authentication message under the decoded credential; either is empty exactly
  when its key or its message is not well formed.
\<close>

theorem proofs_are_standard_hmac:
  "ComputePairProof secret mo se s n d = mac_spec secret (PairProofMessage mo se s n d)
   \<and> ComputeAuthProof credential s' d' e' n' c' = mac_spec credential (AuthProofMessage s' d' e' n' c')"
  using proofs_are_hmac by blast

text \<open>
  C34. A signed message determines every field it binds, and no pairing message is an
  authentication message: a proof made for one set of values never signs another.
\<close>

theorem proof_messages_separate:
  "(PairProofMessage mo se s n d = PairProofMessage mo' se' s' n' d' \<longleftrightarrow>
      (mo, se, s, n, d) = (mo', se', s', n', d')
      \<or> (PairProofMessage mo se s n d = '''' \<and> PairProofMessage mo' se' s' n' d' = ''''))
   \<and> (AuthProofMessage t f e r c = AuthProofMessage t' f' e' r' c' \<longleftrightarrow>
      (t, f, e, r, c) = (t', f', e', r', c')
      \<or> (AuthProofMessage t f e r c = '''' \<and> AuthProofMessage t' f' e' r' c' = ''''))
   \<and> (PairProofMessage mo se s n d = AuthProofMessage t f e r c \<longleftrightarrow>
      PairProofMessage mo se s n d = '''' \<and> AuthProofMessage t f e r c = '''')"
  using PairProofMessage_inject [of mo se s n d mo' se' s' n' d']
    AuthProofMessage_inject [of t f e r c t' f' e' r' c'] proof_messages_disjoint [of mo se s n d t f e r c]
  by auto

text \<open>
  \<open>DecodeVideoHeader\<close> accepts a message exactly when it is the 32 header bytes of the
  returned header followed by the announced number of payload bytes, between 1 and 8 MiB, with
  no flag but the keyframe bit.
\<close>

theorem DecodeVideoHeader_accepts:
  "DecodeVideoHeader data = Some h \<longleftrightarrow>
     (\<exists>payload. data = render_video_header h @ payload \<and> video_header_fits h (length payload))"
  by (rule DecodeVideoHeader_iff)

text \<open>
  C35. What the sender's \<open>createDirectVideoMessage\<close> builds from a non-empty chunk, the receiver
  decodes to the same epoch, sequence number, timestamp, keyframe flag and payload.
\<close>

theorem direct_video_message_received:
  assumes "createDirectVideoMessage key epoch sequenc timestamp chunk = Some m" and "chunk \<noteq> []"
  shows "\<exists>h. DecodeVideoHeader m = Some h \<and> drop kHeaderSize m = chunk
     \<and> unat (sourceEpoch h) = epoch \<and> unat (sequence h) = sequenc \<and> unat (timestampUs h) = timestamp
     \<and> unat (payloadLength h) = length chunk \<and> (flags h AND kKeyframe \<noteq> 0 \<longleftrightarrow> key)"
  by (rule direct_message_roundtrip [OF assms])

lemma direct_video_message_received_witness:
  "\<exists>m h. createDirectVideoMessage True 7 1 5 [0, 0, 1, 0x65] = Some m \<and> DecodeVideoHeader m = Some h
     \<and> drop kHeaderSize m = [0, 0, 1, 0x65] \<and> unat (sourceEpoch h) = 7"
proof -
  obtain m where "createDirectVideoMessage True 7 1 5 [0, 0, 1, 0x65] = Some m"
    by (simp add: createDirectVideoMessage_def kMaxFrameBytes_def)
  with direct_video_message_received [OF this] show ?thesis by fastforce
qed

text \<open>
  \<open>IsValidMediaContract\<close> accepts even, positive sizes up to 1920 by 1080 in either
  orientation at 1 to 60 frames per second; its product test never wraps and never decides.
\<close>

theorem IsValidMediaContract_bounds:
  "IsValidMediaContract c \<longleftrightarrow>
     (let w = unat (width c); h = unat (height c); fps = unat (maxFps c) in
      0 < w \<and> 0 < h \<and> even w \<and> even h \<and> 1 \<le> fps \<and> fps \<le> 60
      \<and> max w h \<le> 1920 \<and> min w h \<le> 1080)"
  by (rule IsValidMediaContract_iff)

text \<open>
  A pairing attempt is accepted exactly when it is no replay, in time, and either presents the
  pending session with its token or a token whose six-digit code is the pending one.
\<close>

theorem pairing_authorization_decides:
  assumes "length token < 2 ^ 64" and "length pendingToken < 2 ^ 64" and "length pendingShort < 2 ^ 64"
  shows "EvaluatePairingAuthorization sid token pendingSid pendingToken pendingShort consumed expires now =
    (if sid \<noteq> '''' \<and> sid = consumed then PairReplayed
     else if expires \<le> now then PairExpired
     else if (pendingSid \<noteq> '''' \<and> sid = pendingSid \<and> token = pendingToken \<and> length token = 64)
        \<or> (pendingShort = PairingShortCode token \<and> length pendingShort = 6) then PairAccepted
     else PairMismatch)"
  by (rule EvaluatePairingAuthorization_cases [OF assms])

lemma pairing_authorization_decides_witness:
  "let session = replicate 32 (CHR ''1''); token = replicate 64 (CHR ''2'')
   in EvaluatePairingAuthorization session token session token '''' '''' 61000 60999 = PairAccepted
      \<and> EvaluatePairingAuthorization session token session token '''' '''' 61000 61000 = PairExpired"
  by (simp add: Let_def pairing_authorization_decides)

text \<open>
  The short code of a well-formed token is six decimal digits, the first twelve hexadecimal
  digits of the token modulo a million; no other token has one.
\<close>

theorem PairingShortCode_digits:
  "if length token = 64 \<and> list_all lower_hex_digit token
   then length (PairingShortCode token) = 6 \<and> list_all isdigit (PairingShortCode token)
      \<and> digits_value 10 (PairingShortCode token) = digits_value 16 (take 12 token) mod 1000000
   else PairingShortCode token = ''''"
  by (rule PairingShortCode_spec)

end
