(* ===== verification/Sha1_Base64.thy ===== *)
theory Sha1_Base64
  imports Sha2_Hmac
begin

text \<open>
  The opening-handshake digest of \<open>receiver/entry/src/main/cpp/websocket_protocol.cpp\<close>
 : SHA-1 and the base64 encoder. The reference definitions state SHA-1 as
  FIPS 180-4 does (the padding and the block parsing are those of SHA-256) and the base64
  decoder of RFC 4648; the theorems show that the source computes the former and that the
  latter inverts the source's encoder.
\<close>

section \<open>SHA-1 as the source computes it\<close>

definition RotateLeft :: "u32 \<Rightarrow> nat \<Rightarrow> u32" where
  "RotateLeft v count = push_bit count v OR drop_bit (32 - count) v"

definition Sha1_words :: "byte list \<Rightarrow> nat \<Rightarrow> u32 list" where
  "Sha1_words message offset =
     foldl (\<lambda>words index.
        words[index := RotateLeft (words ! (index - 3) XOR words ! (index - 8)
                                   XOR words ! (index - 14) XOR words ! (index - 16)) 1])
      (map (\<lambda>index. be_get32 message (offset + index * 4)) [0..<16] @ replicate 64 0)
      [16..<80]"

type_synonym sha1_regs = "u32 \<times> u32 \<times> u32 \<times> u32 \<times> u32"

definition Sha1_function :: "nat \<Rightarrow> u32 \<Rightarrow> u32 \<Rightarrow> u32 \<Rightarrow> u32" where
  "Sha1_function index b c d =
     (if index < 20 then (b AND c) OR (NOT b AND d)
      else if index < 40 then b XOR c XOR d
      else if index < 60 then (b AND c) OR (b AND d) OR (c AND d)
      else b XOR c XOR d)"

definition Sha1_constant :: "nat \<Rightarrow> u32" where
  "Sha1_constant index =
     (if index < 20 then 0x5A827999 else if index < 40 then 0x6ED9EBA1
      else if index < 60 then 0x8F1BBCDC else 0xCA62C1D6)"

fun Sha1_round :: "u32 list \<Rightarrow> sha1_regs \<Rightarrow> nat \<Rightarrow> sha1_regs" where
  "Sha1_round words (a, b, c, d, e) index =
     (let temporary = RotateLeft a 5 + Sha1_function index b c d + e + Sha1_constant index + words ! index
      in (temporary, a, RotateLeft b 30, c, d))"

fun sha1_add :: "sha1_regs \<Rightarrow> sha1_regs \<Rightarrow> sha1_regs" where
  "sha1_add (a, b, c, d, e) (a', b', c', d', e') = (a + a', b + b', c + c', d + d', e + e')"

fun sha1_list :: "sha1_regs \<Rightarrow> u32 list" where
  "sha1_list (a, b, c, d, e) = [a, b, c, d, e]"

definition Sha1_initial :: sha1_regs where
  "Sha1_initial = (0x67452301, 0xEFCDAB89, 0x98BADCFE, 0x10325476, 0xC3D2E1F0)"

function Sha1_blocks :: "byte list \<Rightarrow> nat \<Rightarrow> sha1_regs \<Rightarrow> sha1_regs" where
  "Sha1_blocks message offset hash =
     (if offset < length message then
        Sha1_blocks message (offset + 64)
          (sha1_add hash (foldl (Sha1_round (Sha1_words message offset)) hash [0..<80]))
      else hash)"
  by pat_completeness auto
termination
  by (relation "measure (\<lambda>(m, offset, hash). length m - offset)") auto

declare Sha1_blocks.simps [simp del]

text \<open>The message is padded by the same lines as in SHA-256.\<close>

definition Sha1_message :: "string \<Rightarrow> byte list" where
  "Sha1_message input =
     (let bitLength = word_of_nat (length input) * 8 :: u64
      in pad_zeros (bytes_of input @ [0x80])
         @ map (\<lambda>k. ucast (drop_bit (56 - 8 * k) bitLength AND 0xff)) [0..<8])"

definition Sha1 :: "string \<Rightarrow> byte list" where
  "Sha1 input =
     concat (map (\<lambda>v. map (\<lambda>b. ucast (drop_bit (24 - b * 8) v AND 0xff)) [0..<4])
       (sha1_list (Sha1_blocks (Sha1_message input) 0 Sha1_initial)))"

section \<open>Base64\<close>

definition base64_alphabet :: string where
  "base64_alphabet = ''ABCDEFGHIJKLMNOPQRSTUVWXYZabcdefghijklmnopqrstuvwxyz0123456789+/''"

definition Base64_group :: "byte list \<Rightarrow> nat \<Rightarrow> string" where
  "Base64_group data offset =
     (let size = length data;
          a = ucast (data ! offset) :: u32;
          b = (if offset + 1 < size then ucast (data ! (offset + 1)) else 0);
          c = (if offset + 2 < size then ucast (data ! (offset + 2)) else 0);
          v = push_bit 16 a OR push_bit 8 b OR c
      in [base64_alphabet ! unat (drop_bit 18 v AND 0x3f),
          base64_alphabet ! unat (drop_bit 12 v AND 0x3f),
          if offset + 1 < size then base64_alphabet ! unat (drop_bit 6 v AND 0x3f) else CHR ''='',
          if offset + 2 < size then base64_alphabet ! unat (v AND 0x3f) else CHR ''=''])"

function Base64_loop :: "byte list \<Rightarrow> nat \<Rightarrow> string" where
  "Base64_loop data offset =
     (if offset < length data then Base64_group data offset @ Base64_loop data (offset + 3) else '''')"
  by pat_completeness auto
termination
  by (relation "measure (\<lambda>(data, offset). length data - offset)") auto

declare Base64_loop.simps [simp del]

definition Base64 :: "byte list \<Rightarrow> string" where
  "Base64 data = Base64_loop data 0"

section \<open>Reference: SHA-1 of FIPS 180-4\<close>

fun fips1_W :: "byte list \<Rightarrow> nat \<Rightarrow> u32" where
  "fips1_W block t =
     (if t < 16 then be_get32 block (4 * t)
      else word_rotl 1 (fips1_W block (t - 3) XOR fips1_W block (t - 8)
                        XOR fips1_W block (t - 14) XOR fips1_W block (t - 16)))"

declare fips1_W.simps [simp del]

text \<open>Section 4.1.1: Ch, Parity and Maj; section 4.2.1: the roots of 2, 3, 5 and 10 scaled by \<open>2 ^ 30\<close>.\<close>

definition fips1_f :: "nat \<Rightarrow> u32 \<Rightarrow> u32 \<Rightarrow> u32 \<Rightarrow> u32" where
  "fips1_f t x y z =
     (if t \<le> 19 then (x AND y) XOR (NOT x AND z)
      else if 40 \<le> t \<and> t \<le> 59 then (x AND y) XOR (x AND z) XOR (y AND z)
      else x XOR y XOR z)"

definition fips1_K :: "nat \<Rightarrow> u32" where
  "fips1_K t = word_of_nat (root_floor 2 ([2, 3, 5, 10] ! (t div 20) * 2 ^ 60))"

fun fips1_step :: "byte list \<Rightarrow> nat \<Rightarrow> sha1_regs \<Rightarrow> sha1_regs" where
  "fips1_step block t (a, b, c, d, e) =
     (word_rotl 5 a + fips1_f t b c d + e + fips1_K t + fips1_W block t, a, word_rotl 30 b, c, d)"

definition fips1_compress :: "sha1_regs \<Rightarrow> byte list \<Rightarrow> sha1_regs" where
  "fips1_compress H block = sha1_add H (fold (fips1_step block) [0..<80] H)"

definition fips_sha1 :: "byte list \<Rightarrow> byte list" where
  "fips_sha1 data =
     concat (map be_put32 (sha1_list (foldl fips1_compress
       (0x67452301, 0xEFCDAB89, 0x98BADCFE, 0x10325476, 0xC3D2E1F0) (fips_parse (fips_pad data)))))"

section \<open>The loops compute the standard\<close>

lemma RotateLeft_rotl:
  assumes "0 < n" and "n < 32"
  shows "RotateLeft v n = word_rotl n v"
proof -
  have "RotateLeft v n = RotateRight v (32 - n)"
    using assms by (simp add: RotateRight_def RotateLeft_def or.commute)
  also have "\<dots> = word_rotr (32 - n) v" using assms by (simp add: RotateRight_rotr)
  also have "\<dots> = word_rotl n v"
    using assms by (intro bit_word_eqI) (simp add: bit_word_rotl_iff bit_word_rotr_iff)
  finally show ?thesis .
qed

lemma length_Sha1_words [simp]: "length (Sha1_words message offset) = 80"
  unfolding Sha1_words_def by (subst length_foldl_keep) simp_all

lemma Sha1_words_fips:
  assumes len: "offset + 64 \<le> length m" and t: "t < 80"
  shows "Sha1_words m offset ! t = fips1_W (take 64 (drop offset m)) t"
  unfolding Sha1_words_def
proof (rule foldl_fill [OF _ _ _ _ t])
  fix j :: nat assume "j < 16"
  then show "(map (\<lambda>index. be_get32 m (offset + index * 4)) [0..<16] @ replicate 64 0) ! j
      = fips1_W (take 64 (drop offset m)) j"
    using len be_get32_block [of offset "4 * j" m]
    by (simp del: upt_rec_numeral add: nth_append fips1_W.simps [of _ j] mult.commute)
next
  fix ws :: "u32 list" and i
  assume i: "16 \<le> i" and w: "\<And>j. j < i \<Longrightarrow> ws ! j = fips1_W (take 64 (drop offset m)) j"
  from i have "fips1_W b i = word_rotl 1 (fips1_W b (i - 3) XOR fips1_W b (i - 8)
      XOR fips1_W b (i - 14) XOR fips1_W b (i - 16))" for b
    by (subst fips1_W.simps) simp
  with i show "ws[i := RotateLeft (ws ! (i - 3) XOR ws ! (i - 8) XOR ws ! (i - 14) XOR ws ! (i - 16)) 1]
      = ws[i := fips1_W (take 64 (drop offset m)) i]"
    by (simp add: w RotateLeft_rotl)
qed simp_all

lemma Sha1_function_fips: "Sha1_function t b c d = fips1_f t b c d"
  by (rule bit_word_eqI) (auto simp: Sha1_function_def fips1_f_def bit_simps)

lemma Sha1_constant_fips:
  assumes "t < 80"
  shows "Sha1_constant t = fips1_K t"
proof -
  have roots: "root_floor 2 (2 * 2 ^ 60) = 0x5A827999" "root_floor 2 (3 * 2 ^ 60) = 0x6ED9EBA1"
    "root_floor 2 (5 * 2 ^ 60) = 0x8F1BBCDC" "root_floor 2 (10 * 2 ^ 60) = 0xCA62C1D6"
    by (rule root_floor_eqI; simp)+
  have "t div 20 = 0 \<and> t < 20 \<or> t div 20 = 1 \<and> \<not> t < 20 \<and> t < 40
      \<or> t div 20 = 2 \<and> \<not> t < 40 \<and> t < 60 \<or> t div 20 = 3 \<and> \<not> t < 60"
    using assms by arith
  then show ?thesis using roots by (elim disjE conjE) (simp_all add: Sha1_constant_def fips1_K_def)
qed

lemma Sha1_round_fips:
  assumes "offset + 64 \<le> length m" and "t < 80"
  shows "Sha1_round (Sha1_words m offset) regs t = fips1_step (take 64 (drop offset m)) t regs"
  using Sha1_words_fips [OF assms]
  by (cases regs rule: sha1_list.cases)
     (simp add: RotateLeft_rotl Sha1_function_fips Sha1_constant_fips [OF assms(2)])

lemma Sha1_rounds_fips:
  assumes "offset + 64 \<le> length m"
  shows "foldl (Sha1_round (Sha1_words m offset)) regs [0..<80]
       = fold (fips1_step (take 64 (drop offset m))) [0..<80] regs"
  unfolding foldl_conv_fold
  by (rule fold_cong) (auto simp: Sha1_round_fips [OF assms] fun_eq_iff)

lemma Sha1_blocks_fips:
  assumes "length m mod 64 = 0"
  shows "Sha1_blocks m 0 H = foldl fips1_compress H (fips_parse m)"
proof -
  have "Sha1_blocks m 0 H = foldl fips1_compress H (fips_parse (drop 0 m))"
    by (rule block_loop_fold [OF Sha1_blocks.simps _ assms])
       (simp_all del: upt_rec_numeral add: fips1_compress_def Sha1_rounds_fips)
  then show ?thesis by simp
qed

lemma Sha1_message_padded: "Sha1_message input = Sha256_message (bytes_of input)"
  by (simp add: Sha1_message_def Sha256_message_def)

lemma Sha1_eq_fips: "Sha1 input = fips_sha1 (bytes_of input)"
  unfolding Sha1_def fips_sha1_def Sha256_message_fips [symmetric] Sha1_message_padded be_put32_bytes
    Sha1_initial_def
  using Sha1_blocks_fips [OF length_Sha256_message_mod] by simp

lemma length_Sha1 [simp]: "length (Sha1 input) = 20"
  unfolding Sha1_def be_put32_bytes
  by (cases "Sha1_blocks (Sha1_message input) 0 Sha1_initial" rule: sha1_list.cases) simp

section \<open>Reference: the base64 decoder of RFC 4648\<close>

text \<open>
  Four characters carry 24 bits; two padding characters leave one byte, one leaves two. The
  alphabet position of a character is its six-bit value.
\<close>

definition sextet :: "char \<Rightarrow> nat option" where
  "sextet c = (let i = length (takeWhile ((\<noteq>) c) base64_alphabet) in if i < 64 then Some i else None)"

definition sextets_bytes :: "nat \<Rightarrow> nat \<Rightarrow> nat \<Rightarrow> nat \<Rightarrow> byte list" where
  "sextets_bytes p q r s =
     (let v = ((p * 64 + q) * 64 + r) * 64 + s
      in [word_of_nat (v div 65536), word_of_nat (v div 256), word_of_nat v])"

fun base64_decode :: "string \<Rightarrow> byte list option" where
  "base64_decode [] = Some []"
| "base64_decode (w # x # y # z # rest) =
     (case (sextet w, sextet x) of
        (Some p, Some q) \<Rightarrow>
          (if y = CHR ''='' \<and> z = CHR ''='' \<and> rest = [] then Some (take 1 (sextets_bytes p q 0 0))
           else case sextet y of
                  None \<Rightarrow> None
                | Some r \<Rightarrow>
                    (if z = CHR ''='' \<and> rest = [] then Some (take 2 (sextets_bytes p q r 0))
                     else case sextet z of
                            None \<Rightarrow> None
                          | Some s \<Rightarrow> map_option ((@) (sextets_bytes p q r s)) (base64_decode rest)))
      | _ \<Rightarrow> None)"
| "base64_decode _ = None"

lemma nth_base64_alphabet:
  assumes "n < 64"
  shows "sextet (base64_alphabet ! n) = Some n" and "base64_alphabet ! n \<noteq> CHR ''=''"
proof -
  have dist: "distinct base64_alphabet" and len: "length base64_alphabet = 64"
    and pad: "CHR ''='' \<notin> set base64_alphabet"
    by (simp_all add: base64_alphabet_def)
  have split: "base64_alphabet = take n base64_alphabet @ base64_alphabet ! n # drop (Suc n) base64_alphabet"
    using assms len by (simp add: id_take_nth_drop)
  have "base64_alphabet ! n \<notin> set (take n base64_alphabet)"
    using dist split by (metis distinct_append disjoint_iff list.set_intros(1))
  then have "takeWhile ((\<noteq>) (base64_alphabet ! n)) base64_alphabet = take n base64_alphabet"
    by (subst split) (subst takeWhile_append2, auto)
  then show "sextet (base64_alphabet ! n) = Some n" using assms len by (simp add: sextet_def)
  show "base64_alphabet ! n \<noteq> CHR ''=''" using pad assms len by (metis nth_mem)
qed

lemma unat_join24:
  fixes a b c :: byte
  defines "v \<equiv> push_bit 16 (ucast a) OR push_bit 8 (ucast b) OR ucast c :: u32"
  shows "unat v = (unat a * 256 + unat b) * 256 + unat c"
proof -
  have u: "unat (ucast x :: u32) = unat x" for x :: byte
    by (simp add: unsigned_ucast_eq take_bit_nat_eq_self unsigned_less [THEN less_le_trans])
  have lt: "unat x < 256" for x :: byte using unsigned_less [of x] by simp
  have "v = ucast a * 65536 + ucast b * 256 + ucast c"
    unfolding v_def
    by (subst disjunctive_add [symmetric], force simp: bit_simps dest: byte_bit_len)+
       (simp add: push_bit_eq_mult mult.commute)
  moreover have "unat a * 65536 + unat b * 256 + unat c < 2 ^ 32" using lt [of a] lt [of b] lt [of c] by simp
  ultimately show ?thesis
    using lt [of a] lt [of b] lt [of c]
    by (simp add: unat_word_ariths u)
qed

lemma unat_sextet: "unat (drop_bit k v AND 0x3f) = unat (v :: u32) div 2 ^ k mod 64"
proof -
  have "drop_bit k v AND 0x3f = take_bit 6 (drop_bit k v)" by (simp add: take_bit_eq_mask mask_numeral)
  moreover have "unat (take_bit 6 (drop_bit k v)) = take_bit 6 (drop_bit k (unat v))"
    by (simp only: unsigned_take_bit_eq unat_drop_bit_eq)
  ultimately show ?thesis by (simp add: take_bit_eq_mod drop_bit_eq_div)
qed

lemma sextets_bytes_sextets:
  assumes "n < 2 ^ 24"
  shows "sextets_bytes (n div 64 ^ 3 mod 64) (n div 64 ^ 2 mod 64) (n div 64 mod 64) (n mod 64)
       = [word_of_nat (n div 65536), word_of_nat (n div 256), word_of_nat n]"
proof -
  have "((n div 64 ^ 3 mod 64 * 64 + n div 64 ^ 2 mod 64) * 64 + n div 64 mod 64) * 64 + n mod 64 = n"
  proof -
    have "n div 64 ^ 3 mod 64 = n div 64 div 64 div 64" using assms by (simp add: div_mult2_eq [symmetric] less_mult_imp_div_less)
    moreover have "n div 64 ^ 2 mod 64 = n div 64 div 64 mod 64" by (simp add: div_mult2_eq [symmetric])
    ultimately show ?thesis by (simp add: mult.commute [of _ "64"])
  qed
  then show ?thesis by (simp only: sextets_bytes_def Let_def)
qed
definition join24 :: "byte \<Rightarrow> byte \<Rightarrow> byte \<Rightarrow> nat" where
  "join24 a b c = (unat a * 256 + unat b) * 256 + unat c"

definition sextet_char :: "nat \<Rightarrow> char" where
  "sextet_char n = base64_alphabet ! (n mod 64)"

lemma sextet_sextet_char [simp]: "sextet (sextet_char n) = Some (n mod 64)" "sextet_char n \<noteq> CHR ''=''"
  using nth_base64_alphabet [of "n mod 64"] by (simp_all add: sextet_char_def)

lemma join24_bytes:
  "word_of_nat (join24 a b c div 65536) = a" "word_of_nat (join24 a b c div 256) = b"
  "word_of_nat (join24 a b c) = c" "join24 a b c < 2 ^ 24"
proof -
  have lt: "unat x < 256" for x :: byte using unsigned_less [of x] by simp
  have low: "word_of_nat (x * 256 + unat y) = y" for x :: nat and y :: byte
  proof -
    have "(word_of_nat (x * 256 + unat y) :: byte) = word_of_nat (unat y)"
      unfolding word_of_nat_eq_iff by (simp add: take_bit_eq_mod)
    then show ?thesis by simp
  qed
  have "join24 a b c div 256 = unat a * 256 + unat b"
    using lt [of c] by (simp add: join24_def)
  moreover have "join24 a b c div 65536 = unat a"
  proof -
    have "join24 a b c div 65536 = join24 a b c div 256 div 256" by (simp add: div_mult2_eq [symmetric])
    then show ?thesis using \<open>join24 a b c div 256 = unat a * 256 + unat b\<close> lt [of b] by simp
  qed
  moreover have "join24 a b c = (unat a * 256 + unat b) * 256 + unat c" by (simp add: join24_def)
  ultimately show "word_of_nat (join24 a b c div 65536) = a" "word_of_nat (join24 a b c div 256) = b"
    "word_of_nat (join24 a b c) = c" by (simp_all only: low word_unat_eq_iff [symmetric] of_nat_unat ucast_id)
  show "join24 a b c < 2 ^ 24" using lt [of a] lt [of b] lt [of c] by (simp add: join24_def)
qed

lemma Base64_group_text:
  "Base64_group data offset =
     (let b = (if offset + 1 < length data then data ! (offset + 1) else 0);
          c = (if offset + 2 < length data then data ! (offset + 2) else 0);
          n = join24 (data ! offset) b c
      in [sextet_char (n div 64 ^ 3), sextet_char (n div 64 ^ 2),
          if offset + 1 < length data then sextet_char (n div 64) else CHR ''='',
          if offset + 2 < length data then sextet_char n else CHR ''=''])"
proof -
  have if_ucast: "(if P then ucast x else 0 :: u32) = ucast (if P then x else (0 :: byte))" for P x by simp
  have low: "v AND 0x3f = drop_bit 0 v AND 0x3f" for v :: u32 by simp
  have pow: "(2 :: nat) ^ 18 = 64 ^ 3" "(2 :: nat) ^ 12 = 64 ^ 2" "(2 :: nat) ^ 6 = 64" "(2 :: nat) ^ 0 = 1" by simp_all
  show ?thesis
    unfolding Base64_group_def Let_def if_ucast low [of "_ OR _"]
    by (simp only: unat_sextet unat_join24 join24_def [symmetric] sextet_char_def pow div_by_1)
qed

lemma group_bytes:
  "sextets_bytes (join24 a b c div 64 ^ 3 mod 64) (join24 a b c div 64 ^ 2 mod 64)
     (join24 a b c div 64 mod 64) (join24 a b c mod 64) = [a, b, c]"
  by (simp only: sextets_bytes_sextets [OF join24_bytes(4)] join24_bytes)

lemma join24_low:
  "join24 a b 0 mod 64 = 0" "join24 a 0 0 div 64 mod 64 = 0"
proof -
  show "join24 a b 0 mod 64 = 0" by (simp add: join24_def)
  have "join24 a 0 0 div 64 = unat a * 1024" by (simp add: join24_def)
  then show "join24 a 0 0 div 64 mod 64 = 0" by simp
qed

lemma base64_decode_loop: "base64_decode (Base64_loop data offset) = Some (drop offset data)"
proof (induction data offset rule: Base64_loop.induct)
  case (1 data offset)
  consider "length data \<le> offset" | "length data = offset + 1" | "length data = offset + 2" | "offset + 2 < length data"
    by linarith
  then show ?case
  proof cases
    case 1
    then show ?thesis by (subst Base64_loop.simps) simp
  next
    case 2
    then have d: "drop offset data = [data ! offset]" by (simp add: Cons_nth_drop_Suc [symmetric])
    have "Base64_loop data (offset + 3) = ''''" using 2 by (subst Base64_loop.simps) simp
    then show ?thesis using 2 group_bytes [of "data ! offset" 0 0]
      by (subst Base64_loop.simps) (simp add: Base64_group_text Let_def join24_low d)
  next
    case 3
    then have d: "drop offset data = [data ! offset, data ! Suc offset]" by (simp add: Cons_nth_drop_Suc [symmetric])
    have "Base64_loop data (offset + 3) = ''''" using 3 by (subst Base64_loop.simps) simp
    then show ?thesis using 3 group_bytes [of "data ! offset" "data ! Suc offset" 0]
      by (subst Base64_loop.simps) (simp add: Base64_group_text Let_def join24_low d)
  next
    case 4
    then have d: "drop offset data = data ! offset # data ! Suc offset # data ! (offset + 2) # drop (offset + 3) data"
      by (simp add: Cons_nth_drop_Suc [symmetric] eval_nat_numeral)
    have "base64_decode (Base64_loop data (offset + 3)) = Some (drop (offset + 3) data)"
      using 4 "1" by simp
    then show ?thesis using 4 group_bytes [of "data ! offset" "data ! Suc offset" "data ! (offset + 2)"]
      by (subst Base64_loop.simps) (simp add: Base64_group_text Let_def d)
  qed
qed

lemma base64_decode_Base64: "base64_decode (Base64 data) = Some data"
  by (simp add: Base64_def base64_decode_loop)

lemma ceil3: "0 < n \<Longrightarrow> (n + 2) div 3 = Suc ((n - 3 + 2) div 3)"
proof (cases "n \<le> 3")
  case False
  then have "n + 2 = (n - 3 + 2) + 3" by simp
  then show ?thesis by (metis div_add_self2 Suc_eq_plus1 zero_neq_numeral)
next
  case True
  moreover assume "0 < n"
  ultimately have "n = 1 \<or> n = 2 \<or> n = 3" by arith
  then show ?thesis by auto
qed

lemma length_Base64_loop: "length (Base64_loop data offset) = 4 * ((length data - offset + 2) div 3)"
proof (induction data offset rule: Base64_loop.induct)
  case (1 data offset)
  show ?case
  proof (cases "offset < length data")
    case True
    then have "(length data - offset + 2) div 3 = Suc ((length data - (offset + 3) + 2) div 3)"
      using ceil3 [of "length data - offset"] by (simp add: diff_diff_add)
    moreover have "length (Base64_group data offset) = 4" by (simp add: Base64_group_def Let_def)
    ultimately show ?thesis using 1 True by (subst Base64_loop.simps) simp
  qed (simp add: Base64_loop.simps)
qed

section \<open>Property\<close>

text \<open>
  \<open>Sha1\<close> computes SHA-1 as FIPS 180-4 defines it; \<open>Base64\<close> is inverted by the decoder of
  RFC 4648 and has the length of the padded encoding.
\<close>

theorem Sha1_and_Base64_conform:
  "Sha1 input = fips_sha1 (bytes_of input) \<and> base64_decode (Base64 data) = Some data
   \<and> length (Base64 data) = 4 * ((length data + 2) div 3)"
  by (simp add: Sha1_eq_fips base64_decode_Base64) (simp add: Base64_def length_Base64_loop)

end
