(* ===== verification/Stream_Decoder.thy ===== *)
theory Stream_Decoder
  imports Hwc_Prelude
begin

text \<open>
  The interface of the incremental decoders of the repository: the WebSocket decoder of the
  receiver, the control frame decoder of the host and the control line buffer of the relay. Each
  keeps the bytes that do not yet form a message, appends what the transport delivers and runs a
  loop that takes complete messages off the front. The contract is that one iteration depends on
  a prefix of the buffer only; the client lemmas show that the messages then do not depend on
  how the transport cut the stream.
\<close>

datatype ('d, 'm) step_result =
    NeedMore
  | Rejected 'd "'m list"
  | Yields 'd "'m list"

text \<open>The receiving side of a connection: every chunk is pushed, until a rejection.\<close>

primrec receive_all :: "('d \<Rightarrow> 'b list \<Rightarrow> bool \<times> 'd \<times> 'm list) \<Rightarrow> 'd \<Rightarrow> 'b list list \<Rightarrow> bool \<times> 'd \<times> 'm list"
where
  "receive_all push d [] = (True, d, [])"
| "receive_all push d (c # cs) =
     (case push d c of
        (False, d', ms) \<Rightarrow> (False, d', ms)
      | (True, d', ms) \<Rightarrow> (case receive_all push d' cs of (ok, d'', ns) \<Rightarrow> (ok, d'', ms @ ns)))"

locale stream_decoder =
  fixes feed :: "'d \<Rightarrow> 'b list \<Rightarrow> 'd"
    and pending :: "'d \<Rightarrow> nat"
    and step :: "'d \<Rightarrow> ('d, 'm) step_result"
    and loop :: "'d \<Rightarrow> bool \<times> 'd \<times> 'm list"
  assumes feed_feed: "feed (feed d a) b = feed d (a @ b)"
    and step_progress: "step d = Yields d' ms \<Longrightarrow> pending d' < pending d"
    and step_yields_stable: "step d = Yields d' ms \<Longrightarrow> step (feed d x) = Yields (feed d' x) ms"
    and step_rejected_stable: "step d = Rejected d' ms \<Longrightarrow> step (feed d x) = Rejected d' ms"
    and loop_unfold: "loop d =
       (case step d of
          NeedMore \<Rightarrow> (True, d, [])
        | Rejected d' ms \<Rightarrow> (False, d', ms)
        | Yields d' ms \<Rightarrow> (case loop d' of (ok, d'', ns) \<Rightarrow> (ok, d'', ms @ ns)))"
begin

lemma loop_induct [case_names step]:
  assumes "\<And>d. (\<And>d' ms. step d = Yields d' ms \<Longrightarrow> P d') \<Longrightarrow> P d"
  shows "P d"
proof (induction "pending d" arbitrary: d rule: less_induct)
  case less
  show ?case by (rule assms) (rule less.hyps, rule step_progress)
qed

lemma loop_ends:
  "loop d = (True, d', ms) \<Longrightarrow> step d' = NeedMore"
proof (induction d arbitrary: ms rule: loop_induct)
  case (step d)
  show ?case
  proof (cases "step d")
    case (Yields e ns)
    with step.prems obtain ns' where "loop e = (True, d', ns')"
      by (subst (asm) loop_unfold) (auto split: prod.splits)
    then show ?thesis by (rule step.IH [OF Yields])
  qed (use step.prems in \<open>subst (asm) loop_unfold; simp\<close>)+
qed

lemma loop_idle:
  assumes "loop d = (True, d', ms)"
  shows "loop d' = (True, d', [])"
  using loop_ends [OF assms] by (subst loop_unfold) simp

text \<open>What a run accepted stays accepted and what it rejected stays rejected when more follows.\<close>

lemma loop_feed_accepted:
  "loop d = (True, d', ms) \<Longrightarrow>
     loop (feed d x) = (case loop (feed d' x) of (ok, d'', ns) \<Rightarrow> (ok, d'', ms @ ns))"
proof (induction d arbitrary: ms rule: loop_induct)
  case (step d)
  show ?case
  proof (cases "step d")
    case NeedMore
    then have "loop d = (True, d, [])" by (subst loop_unfold) simp
    then show ?thesis using step.prems by (simp split: prod.split)
  next
    case (Rejected e ns)
    then show ?thesis using step.prems by (subst (asm) loop_unfold) simp
  next
    case (Yields e ns)
    then obtain ns' where e: "loop e = (True, d', ns')" and ms: "ms = ns @ ns'"
      using step.prems by (subst (asm) loop_unfold) (auto split: prod.splits)
    have "loop (feed d x) = (case loop (feed e x) of (ok, d'', ns'') \<Rightarrow> (ok, d'', ns @ ns''))"
      by (subst loop_unfold) (simp add: step_yields_stable [OF Yields])
    then show ?thesis by (simp add: step.IH [OF Yields e] ms split: prod.split)
  qed
qed

lemma loop_feed_rejected:
  "loop d = (False, d', ms) \<Longrightarrow> loop (feed d x) = (False, d', ms)"
proof (induction d arbitrary: ms rule: loop_induct)
  case (step d)
  show ?case
  proof (cases "step d")
    case NeedMore
    then show ?thesis using step.prems by (subst (asm) loop_unfold) simp
  next
    case (Rejected e ns)
    then have "loop d = (False, e, ns)" by (subst loop_unfold) simp
    then show ?thesis using step.prems by (subst loop_unfold) (simp add: step_rejected_stable [OF Rejected])
  next
    case (Yields e ns)
    then obtain ns' where e: "loop e = (False, d', ns')" and ms: "ms = ns @ ns'"
      using step.prems by (subst (asm) loop_unfold) (auto split: prod.splits)
    show ?thesis by (subst loop_unfold) (simp add: step_yields_stable [OF Yields] step.IH [OF Yields e] ms)
  qed
qed

text \<open>Feeding a stream in chunks, the loop run after each, is feeding the whole stream.\<close>

theorem receive_loop_concat:
  assumes "loop d = (True, d, [])" and "\<And>d. feed d [] = d"
  shows "receive_all (\<lambda>d c. loop (feed d c)) d cs = loop (feed d (concat cs))"
  using assms(1)
proof (induction cs arbitrary: d)
  case Nil
  then show ?case by (simp add: assms(2))
next
  case (Cons c cs)
  obtain ok d' ms where l: "loop (feed d c) = (ok, d', ms)" by (metis prod_cases3)
  show ?case
  proof (cases ok)
    case True
    with l have l': "loop (feed d c) = (True, d', ms)" by simp
    have "loop (feed d (concat (c # cs)))
        = (case loop (feed d' (concat cs)) of (ok, d'', ns) \<Rightarrow> (ok, d'', ms @ ns))"
      using loop_feed_accepted [OF l', of "concat cs"] by (simp add: feed_feed)
    then show ?thesis by (simp add: l' Cons.IH [OF loop_idle [OF l']])
  next
    case False
    with l have l': "loop (feed d c) = (False, d', ms)" by simp
    then show ?thesis using loop_feed_rejected [OF l', of "concat cs"] by (simp add: feed_feed)
  qed
qed

end

text \<open>
  A decoder that bounds its buffer: the public operation refuses a chunk that would exceed the
  capacity, and forgets everything.
\<close>

locale bounded_stream_decoder = stream_decoder feed pending step loop
  for feed :: "'d \<Rightarrow> 'b list \<Rightarrow> 'd" and pending :: "'d \<Rightarrow> nat"
    and step :: "'d \<Rightarrow> ('d, 'm) step_result" and loop :: "'d \<Rightarrow> bool \<times> 'd \<times> 'm list" +
  fixes push :: "'d \<Rightarrow> 'b list \<Rightarrow> bool \<times> 'd \<times> 'm list" and reset :: "'d \<Rightarrow> 'd" and capacity :: nat
  assumes push_unfold: "push d c =
       (if pending d + length c > capacity then (False, reset d, []) else loop (feed d c))"
    and feed_pending: "pending (feed d c) = pending d + length c"
    and feed_Nil: "feed d [] = d"
    and rejected_pending: "step d = Rejected d' ms \<Longrightarrow> pending d' = 0"
    and reset_pending: "pending (reset d) = 0"
begin

lemma loop_pending: "loop d = (ok, d', ms) \<Longrightarrow> pending d' \<le> pending d"
proof (induction d arbitrary: ms rule: loop_induct)
  case (step d)
  show ?case
  proof (cases "step d")
    case (Yields e ns)
    then obtain ns' where e: "loop e = (ok, d', ns')"
      using step.prems by (subst (asm) loop_unfold) (auto split: prod.splits)
    from step.IH [OF Yields e] step_progress [OF Yields] show ?thesis by simp
  qed (use step.prems rejected_pending in \<open>subst (asm) loop_unfold; force\<close>)+
qed

lemma push_pending:
  assumes "push d c = (ok, d', ms)" and "pending d \<le> capacity"
  shows "pending d' \<le> capacity"
  using assms loop_pending [of "feed d c" ok d' ms]
  by (auto simp: push_unfold reset_pending feed_pending split: if_splits)

text \<open>As long as the stream fits the buffer, its chunking does not matter.\<close>

theorem receive_push_concat:
  assumes "loop d = (True, d, [])" and "pending d + length (concat cs) \<le> capacity"
  shows "receive_all push d cs = push d (concat cs)"
proof -
  have "receive_all push d cs = receive_all (\<lambda>d c. loop (feed d c)) d cs"
    using assms(2)
  proof (induction cs arbitrary: d)
    case (Cons c cs)
    have "pending d' + length (concat cs) \<le> capacity" if "loop (feed d c) = (True, d', ms)" for d' ms
      using loop_pending [OF that] Cons.prems by (simp add: feed_pending)
    moreover have "push d c = loop (feed d c)" using Cons.prems by (simp add: push_unfold)
    ultimately show ?case using Cons.IH by (auto split: prod.split bool.split)
  qed simp
  also have "\<dots> = loop (feed d (concat cs))" by (rule receive_loop_concat [OF assms(1) feed_Nil])
  also have "\<dots> = push d (concat cs)" using assms(2) by (simp add: push_unfold)
  finally show ?thesis .
qed

text \<open>A longer stream is received as well, as long as what waits leaves room for each chunk.\<close>

theorem receive_push_room:
  assumes "loop d = (True, d, [])"
    and "\<And>i. i < length cs \<Longrightarrow> pending (fst (snd (loop (feed d (concat (take i cs)))))) + length (cs ! i) \<le> capacity"
  shows "receive_all push d cs = loop (feed d (concat cs))"
  using assms
proof (induction cs arbitrary: d)
  case Nil
  then show ?case by (simp add: feed_Nil)
next
  case (Cons c cs)
  have push: "push d c = loop (feed d c)"
    using Cons.prems(1) Cons.prems(2) [of 0] by (simp add: push_unfold feed_Nil)
  obtain ok d' ms where l: "loop (feed d c) = (ok, d', ms)" by (metis prod_cases3)
  show ?case
  proof (cases ok)
    case True
    with l have l': "loop (feed d c) = (True, d', ms)" by simp
    have step: "loop (feed d (c @ x)) = (case loop (feed d' x) of (ok, d'', ns) \<Rightarrow> (ok, d'', ms @ ns))" for x
      using loop_feed_accepted [OF l', of x] by (simp add: feed_feed)
    have room: "pending (fst (snd (loop (feed d' (concat (take i cs)))))) + length (cs ! i) \<le> capacity"
      if "i < length cs" for i
      using Cons.prems(2) [of "Suc i"] that by (simp add: step split: prod.splits)
    show ?thesis by (simp add: push l' step Cons.IH [OF loop_idle [OF l'] room])
  next
    case False
    with l have "loop (feed d c) = (False, d', ms)" by simp
    then show ?thesis using loop_feed_rejected [of "feed d c" d' ms "concat cs"] by (simp add: push feed_feed)
  qed
qed

end

end
