(* ===== verification/WebSocket.thy ===== *)
theory WebSocket
  imports Sha1_Base64 Stream_Decoder
begin

text \<open>
  The WebSocket layer of the receiver, \<open>receiver/entry/src/main/cpp/websocket_protocol.h\<close> and
  \<open>websocket_protocol.cpp\<close>: the header lookup and the opening handshake, the bounded read of the
  upgrade request, the frame encoder of the server side and the incremental decoder of client
  frames. The decoder is the loop of \<open>Decoder::Push\<close>, one iteration being \<open>Push_step\<close>; it is an
  instance of the stream decoder interface, and it implements the reassembly automaton of
  RFC 6455 stated at the end of the theory.
\<close>

section \<open>Opening handshake\<close>

definition kMagic :: string where
  "kMagic = ''258EAFA5-E914-47DA-95CA-C5AB0DC85B11''"

definition Lower :: "string \<Rightarrow> string" where
  "Lower s = map tolower s"

text \<open>
  The loop of \<open>Header\<close> over the lines from \<open>start\<close>. A line without a colon before its end, or
  with another name, is passed over.
\<close>

function Header_loop :: "string \<Rightarrow> string \<Rightarrow> nat \<Rightarrow> string option" where
  "Header_loop request target start =
     (if start < length request then
        (case find_from request crlf start of
           None \<Rightarrow> None
         | Some lineEnd \<Rightarrow>
             (if lineEnd = start then None
              else
                (case find_from request '':'' start of
                   None \<Rightarrow> Header_loop request target (lineEnd + 2)
                 | Some colon \<Rightarrow>
                     (if colon < lineEnd \<and> Lower (substr request start (colon - start)) = target
                      then Some (dropWhile ((=) CHR '' '')
                                  (substr request (colon + 1) (lineEnd - (colon + 1))))
                      else Header_loop request target (lineEnd + 2)))))
      else None)"
  by pat_completeness auto
termination
  by (relation "measure (\<lambda>(request, target, start). length request - start)")
     (auto dest: find_from_SomeD)

declare Header_loop.simps [simp del]

text \<open>\<open>find\<close> gives \<open>npos\<close> when there is no line end, and \<open>npos + 2\<close> wraps to 1.\<close>

definition Header :: "string \<Rightarrow> string \<Rightarrow> string option" where
  "Header request name =
     Header_loop request (Lower name)
       (case find_from request crlf 0 of None \<Rightarrow> 1 | Some i \<Rightarrow> i + 2)"

definition value_or :: "'a option \<Rightarrow> 'a \<Rightarrow> 'a" where
  "value_or x d = (case x of None \<Rightarrow> d | Some v \<Rightarrow> v)"

definition BuildUpgradeResponse :: "string \<Rightarrow> string option" where
  "BuildUpgradeResponse request =
     (let connection = Lower (value_or (Header request ''Connection'') '''')
      in if length request > 16 * 1024
            \<or> \<not> starts_with request (''GET /direct HTTP/1.1'' @ crlf)
            \<or> Lower (value_or (Header request ''Upgrade'') '''') \<noteq> ''websocket''
            \<or> find_sub ''upgrade'' connection = None
            \<or> Header request ''Sec-WebSocket-Version'' \<noteq> Some ''13''
         then None
         else
           (case Header request ''Sec-WebSocket-Key'' of
              None \<Rightarrow> None
            | Some key \<Rightarrow>
                (if length key < 20 \<or> length key > 64 then None
                 else Some (''HTTP/1.1 101 Switching Protocols'' @ crlf @ ''Upgrade: websocket'' @ crlf
                        @ ''Connection: Upgrade'' @ crlf @ ''Sec-WebSocket-Accept: ''
                        @ Base64 (Sha1 (key @ kMagic)) @ crlf @ crlf))))"

text \<open>
  \<open>ReadUpgradeRequest\<close>: what the clock, \<open>select\<close> and \<open>recv\<close> report in one iteration is an event.
  The result is None while the events do not decide it; otherwise the returned flag and the
  bytes read.
\<close>

datatype upgrade_event =
    DeadlinePassed
  | SelectInterrupted
  | SelectFailed
  | RecvFailed
  | RecvBytes string

definition upgrade_complete :: "string \<Rightarrow> bool" where
  "upgrade_complete request \<longleftrightarrow> find_sub (crlf @ crlf) request \<noteq> None"

fun ReadUpgradeRequest :: "string \<Rightarrow> upgrade_event list \<Rightarrow> (bool \<times> string) option" where
  "ReadUpgradeRequest request events =
     (if upgrade_complete request \<or> length request \<ge> 16 * 1024
      then Some (upgrade_complete request \<and> length request \<le> 16 * 1024, request)
      else
        (case events of
           [] \<Rightarrow> None
         | DeadlinePassed # _ \<Rightarrow> Some (False, request)
         | SelectInterrupted # rest \<Rightarrow> ReadUpgradeRequest request rest
         | SelectFailed # _ \<Rightarrow> Some (False, request)
         | RecvFailed # _ \<Rightarrow> Some (False, request)
         | RecvBytes bytes # rest \<Rightarrow> ReadUpgradeRequest (request @ bytes) rest))"

declare ReadUpgradeRequest.simps [simp del]

section \<open>Frames\<close>

definition kMaxMessageBytes :: nat where
  "kMaxMessageBytes = 8 * 1024 * 1024 + 32"

text \<open>The enumerators, and the other values a \<open>static_cast\<close> to the enum can produce.\<close>

datatype Opcode = kContinuation | kText | kBinary | kClose | kPing | kPong | kReserved byte

definition opcode_value :: "Opcode \<Rightarrow> byte" where
  "opcode_value opcode =
     (case opcode of kContinuation \<Rightarrow> 0 | kText \<Rightarrow> 1 | kBinary \<Rightarrow> 2 | kClose \<Rightarrow> 8 | kPing \<Rightarrow> 9
      | kPong \<Rightarrow> 0xA | kReserved b \<Rightarrow> b)"

definition opcode_of :: "byte \<Rightarrow> Opcode" where
  "opcode_of b =
     (if b = 0 then kContinuation else if b = 1 then kText else if b = 2 then kBinary
      else if b = 8 then kClose else if b = 9 then kPing else if b = 0xA then kPong
      else kReserved b)"

record Message =
  opcode :: Opcode
  payload :: "byte list"

definition EncodeFrame :: "Opcode \<Rightarrow> string \<Rightarrow> byte list" where
  "EncodeFrame oc body =
     (if length body > kMaxMessageBytes then []
      else
        (let size = word_of_nat (length body) :: u64
         in (0x80 OR opcode_value oc)
            # (if length body \<le> 125 then [ucast size]
               else if length body \<le> 0xffff
               then [126, ucast (drop_bit 8 size AND 0xff), ucast (size AND 0xff)]
               else 127 # map (\<lambda>k. ucast (drop_bit (56 - 8 * k) size AND 0xff)) [0..<8])
            @ bytes_of body))"

section \<open>The decoder\<close>

record Decoder =
  buffer :: "byte list"
  fragmented :: "byte list"
  fragmented_opcode :: "Opcode option"

definition Reset :: "Decoder \<Rightarrow> Decoder" where
  "Reset d = d\<lparr>buffer := [], fragmented := [], fragmented_opcode := None\<rparr>"

definition newDecoder :: Decoder where
  "newDecoder = \<lparr>buffer = [], fragmented = [], fragmented_opcode = None\<rparr>"

text \<open>The extended payload length: None when its bytes have not arrived.\<close>

definition frame_length :: "byte list \<Rightarrow> (nat \<times> nat) option" where
  "frame_length buf =
     (let short = buf ! 1 AND 0x7f
      in if short = 126 then (if length buf < 4 then None else Some (unat (be_get16 buf 2), 4))
         else if short = 127 then (if length buf < 10 then None else Some (unat (be_get64 buf 2), 10))
         else Some (unat short, 2))"

definition unmask :: "byte list \<Rightarrow> byte list \<Rightarrow> byte list" where
  "unmask key body = map (\<lambda>index. body ! index XOR key ! (index mod 4)) [0..<length body]"

text \<open>What the loop body does with a complete frame.\<close>

definition deliver :: "Decoder \<Rightarrow> Opcode \<Rightarrow> bool \<Rightarrow> byte list \<Rightarrow> (Decoder, Message) step_result" where
  "deliver d oc final decoded =
     (if oc = kText \<or> oc = kBinary then
        (if fragmented_opcode d \<noteq> None then Rejected (Reset d) []
         else if final then Yields d [\<lparr>opcode = oc, payload = decoded\<rparr>]
         else Yields (d\<lparr>fragmented_opcode := Some oc, fragmented := decoded\<rparr>) [])
      else if oc = kContinuation then
        (case fragmented_opcode d of
           None \<Rightarrow> Rejected (Reset d) []
         | Some first \<Rightarrow>
             (if length (fragmented d) + length decoded > kMaxMessageBytes then Rejected (Reset d) []
              else if final
              then Yields (d\<lparr>fragmented_opcode := None, fragmented := []\<rparr>)
                     [\<lparr>opcode = first, payload = fragmented d @ decoded\<rparr>]
              else Yields (d\<lparr>fragmented := fragmented d @ decoded\<rparr>) []))
      else if oc = kClose \<or> oc = kPing \<or> oc = kPong
      then Yields d [\<lparr>opcode = oc, payload = decoded\<rparr>]
      else Rejected (Reset d) [])"

text \<open>One iteration of the loop of \<open>Push\<close>.\<close>

definition Push_step :: "Decoder \<Rightarrow> (Decoder, Message) step_result" where
  "Push_step d =
     (let buf = buffer d
      in if length buf < 2 then NeedMore
         else
           (let fst_byte = buf ! 0; snd_byte = buf ! 1;
                final = fst_byte AND 0x80 \<noteq> 0;
                opcodeValue = fst_byte AND 0x0f
            in if fst_byte AND 0x70 \<noteq> 0 \<or> snd_byte AND 0x80 = 0 then Rejected (Reset d) []
               else
                 (case frame_length buf of
                    None \<Rightarrow> NeedMore
                  | Some (payloadLength, headerSize) \<Rightarrow>
                      (let control = opcodeValue \<ge> 8
                       in if payloadLength > kMaxMessageBytes
                             \<or> (control \<and> (\<not> final \<or> payloadLength > 125))
                          then Rejected (Reset d) []
                          else
                            (let frameSize = headerSize + 4 + payloadLength
                             in if length buf < frameSize then NeedMore
                                else deliver (d\<lparr>buffer := drop frameSize buf\<rparr>)
                                       (opcode_of opcodeValue) final
                                       (unmask (take 4 (drop headerSize buf))
                                          (take payloadLength (drop (headerSize + 4) buf))))))))"

lemma deliver_buffer: "deliver d oc final decoded = Yields d' ms \<Longrightarrow> buffer d' = buffer d"
  by (auto simp: deliver_def split: if_splits option.splits)

lemma Push_step_shorter: "Push_step d = Yields d' ms \<Longrightarrow> length (buffer d') < length (buffer d)"
  by (auto simp: Push_step_def Let_def dest!: deliver_buffer split: if_splits option.splits)

function Push_loop :: "Decoder \<Rightarrow> bool \<times> Decoder \<times> Message list" where
  "Push_loop d =
     (case Push_step d of
        NeedMore \<Rightarrow> (True, d, [])
      | Rejected d' ms \<Rightarrow> (False, d', ms)
      | Yields d' ms \<Rightarrow> (case Push_loop d' of (ok, d'', ns) \<Rightarrow> (ok, d'', ms @ ns)))"
  by pat_completeness auto
termination
  by (relation "measure (\<lambda>d. length (buffer d))") (auto simp: Push_step_shorter)

declare Push_loop.simps [simp del]

definition feed_buffer :: "Decoder \<Rightarrow> byte list \<Rightarrow> Decoder" where
  "feed_buffer d data = d\<lparr>buffer := buffer d @ data\<rparr>"

definition Push :: "Decoder \<Rightarrow> byte list \<Rightarrow> bool \<times> Decoder \<times> Message list" where
  "Push d data =
     (if length (buffer d) + length data > kMaxMessageBytes * 2 then (False, Reset d, [])
      else Push_loop (feed_buffer d data))"

section \<open>The decoder depends on the stream, not on its chunks\<close>

lemma Reset_feed [simp]: "Reset (feed_buffer d x) = Reset d"
  by (simp add: Reset_def feed_buffer_def)

lemma feed_buffer_simps [simp]:
  "buffer (feed_buffer d x) = buffer d @ x" "fragmented (feed_buffer d x) = fragmented d"
  "fragmented_opcode (feed_buffer d x) = fragmented_opcode d"
  by (simp_all add: feed_buffer_def)

lemma Reset_simps [simp]:
  "buffer (Reset d) = []" "fragmented (Reset d) = []" "fragmented_opcode (Reset d) = None"
  by (simp_all add: Reset_def)

lemma Reset_buffer [simp]: "Reset (d\<lparr>buffer := b\<rparr>) = Reset d"
  by (simp add: Reset_def)

lemma frame_length_stable:
  assumes "2 \<le> length buf" and "frame_length buf = Some r"
  shows "frame_length (buf @ x) = Some r"
  using assms by (auto simp: frame_length_def wire_layout nth_append Let_def split: if_splits)

lemma deliver_decides [simp]: "deliver d oc fin body \<noteq> NeedMore"
  by (auto simp: deliver_def split: option.split)

lemma deliver_feed_yields:
  "deliver d oc fin body = Yields d' ms \<Longrightarrow> deliver (feed_buffer d x) oc fin body = Yields (feed_buffer d' x) ms"
  by (auto simp: deliver_def feed_buffer_def split: if_splits option.splits)

lemma deliver_feed_rejected:
  "deliver d oc fin body = Rejected d' ms \<Longrightarrow> deliver (feed_buffer d x) oc fin body = Rejected d' ms"
  by (auto simp: deliver_def split: if_splits option.splits)

text \<open>Either an iteration needs more bytes, or it commutes with what is appended.\<close>

lemma Push_step_feed:
  assumes "Push_step d \<noteq> NeedMore"
  shows "Push_step (feed_buffer d x) =
     (case Push_step d of NeedMore \<Rightarrow> NeedMore | Rejected d' ms \<Rightarrow> Rejected d' ms
      | Yields d' ms \<Rightarrow> Yields (feed_buffer d' x) ms)"
proof (cases "length (buffer d) < 2")
  case True
  then show ?thesis using assms by (simp add: Push_step_def)
next
  case two: False
  let ?buf = "buffer d"
  have len: "2 \<le> length ?buf" using two by simp
  then have nth: "(?buf @ x) ! 0 = ?buf ! 0" "(?buf @ x) ! 1 = ?buf ! 1" by (auto simp: nth_append)
  show ?thesis
  proof (cases "frame_length ?buf")
    case None
    then show ?thesis using assms two nth by (auto simp: Push_step_def Let_def)
  next
    case (Some r)
    obtain n h where r: "r = (n, h)" by force
    have st: "frame_length (?buf @ x) = Some (n, h)" using frame_length_stable [OF len Some] r by simp
    show ?thesis
    proof (cases "length ?buf < h + 4 + n")
      case True
      then show ?thesis using assms two nth Some st r
        by (auto simp: Push_step_def Let_def split: if_splits)
    next
      case False
      then have parts: "take 4 (drop h (?buf @ x)) = take 4 (drop h ?buf)"
        "take n (drop (h + 4) (?buf @ x)) = take n (drop (h + 4) ?buf)"
        "drop (h + 4 + n) (?buf @ x) = drop (h + 4 + n) ?buf @ x"
        "\<not> length (?buf @ x) < h + 4 + n"
        by simp_all
      have feed: "feed_buffer d x\<lparr>buffer := drop (h + 4 + n) ?buf @ x\<rparr> = feed_buffer (d\<lparr>buffer := drop (h + 4 + n) ?buf\<rparr>) x"
        by (simp add: feed_buffer_def)
      show ?thesis using two nth Some st r False
        by (auto simp: Push_step_def Let_def parts feed simp del: drop_append take_append
            dest: deliver_feed_yields deliver_feed_rejected
            split: step_result.split)
    qed
  qed
qed

interpretation ws: bounded_stream_decoder feed_buffer "\<lambda>d. length (buffer d)" Push_step Push_loop
    Push Reset "kMaxMessageBytes * 2"
proof unfold_locales
  fix d d' :: Decoder and ms
  show "Push_step d = Yields d' ms \<Longrightarrow> length (buffer d') < length (buffer d)" by (rule Push_step_shorter)
  show "Push_step d = Yields d' ms \<Longrightarrow> Push_step (feed_buffer d x) = Yields (feed_buffer d' x) ms" for x
    using Push_step_feed [of d x] by simp
  show "Push_step d = Rejected d' ms \<Longrightarrow> Push_step (feed_buffer d x) = Rejected d' ms" for x
    using Push_step_feed [of d x] by simp
  show "Push_loop d = (case Push_step d of NeedMore \<Rightarrow> (True, d, []) | Rejected d' ms \<Rightarrow> (False, d', ms)
     | Yields d' ms \<Rightarrow> (case Push_loop d' of (ok, d'', ns) \<Rightarrow> (ok, d'', ms @ ns)))" for d
    by (rule Push_loop.simps)
  show "Push_step d = Rejected d' ms \<Longrightarrow> length (buffer d') = 0"
    by (auto simp: Push_step_def deliver_def Let_def split: if_splits option.splits)
qed (simp_all add: feed_buffer_def Push_def)

section \<open>Reference: frames and reassembly of RFC 6455\<close>

text \<open>
  A frame as a client sends it (section 5.2), and the automaton of a receiving endpoint
  (section 5.4): the state is the message being assembled, if any. The limit on the size of
  a message is the endpoint's own.
\<close>

record Frame =
  fin :: bool
  frame_opcode :: Opcode
  masking_key :: "byte list"
  frame_payload :: "byte list"

type_synonym assembly = "(Opcode \<times> byte list) option"

definition control_opcode :: "Opcode \<Rightarrow> bool" where
  "control_opcode oc \<longleftrightarrow> 8 \<le> opcode_value oc"

fun assemble_frame :: "nat \<Rightarrow> assembly \<Rightarrow> Frame \<Rightarrow> (assembly \<times> Message list) option" where
  "assemble_frame limit st f =
     (if length (frame_payload f) > limit
         \<or> (control_opcode (frame_opcode f) \<and> (\<not> fin f \<or> length (frame_payload f) > 125)) then None
      else
        (case frame_opcode f of
           kReserved _ \<Rightarrow> None
         | kContinuation \<Rightarrow>
             (case st of
                None \<Rightarrow> None
              | Some (oc, body) \<Rightarrow>
                  (if length body + length (frame_payload f) > limit then None
                   else if fin f then Some (None, [\<lparr>opcode = oc, payload = body @ frame_payload f\<rparr>])
                   else Some (Some (oc, body @ frame_payload f), [])))
         | oc \<Rightarrow>
             (if control_opcode oc then Some (st, [\<lparr>opcode = oc, payload = frame_payload f\<rparr>])
              else if st \<noteq> None then None
              else if fin f then Some (None, [\<lparr>opcode = oc, payload = frame_payload f\<rparr>])
              else Some (Some (oc, frame_payload f), []))))"

fun assemble :: "nat \<Rightarrow> assembly \<Rightarrow> Frame list \<Rightarrow> bool \<times> assembly \<times> Message list" where
  "assemble limit st [] = (True, st, [])"
| "assemble limit st (f # fs) =
     (case assemble_frame limit st f of
        None \<Rightarrow> (False, None, [])
      | Some (st', ms) \<Rightarrow> (case assemble limit st' fs of (ok, st'', ns) \<Rightarrow> (ok, st'', ms @ ns)))"

text \<open>The payload length in the shortest of its three forms; \<open>m\<close> is the mask bit.\<close>

definition length_field :: "byte \<Rightarrow> nat \<Rightarrow> byte list" where
  "length_field m n =
     (if n \<le> 125 then [m OR word_of_nat n]
      else if n \<le> 0xffff then [m OR 126] @ be_put16 (word_of_nat n)
      else [m OR 127] @ be_put64 (word_of_nat n))"

declare assemble_frame.simps [simp del]

definition client_frame :: "Frame \<Rightarrow> byte list" where
  "client_frame f =
     [(if fin f then 0x80 else 0) OR opcode_value (frame_opcode f)]
     @ length_field 0x80 (length (frame_payload f))
     @ masking_key f @ unmask (masking_key f) (frame_payload f)"

definition wf_frame :: "Frame \<Rightarrow> bool" where
  "wf_frame f \<longleftrightarrow> length (masking_key f) = 4 \<and> length (frame_payload f) < 2 ^ 63
     \<and> (\<forall>b. frame_opcode f = kReserved b \<longrightarrow> b \<in> {3, 4, 5, 6, 7, 0xB, 0xC, 0xD, 0xE, 0xF})"

definition decoder_of :: "assembly \<Rightarrow> byte list \<Rightarrow> Decoder" where
  "decoder_of st buf =
     \<lparr>buffer = buf, fragmented = (case st of None \<Rightarrow> [] | Some (_, body) \<Rightarrow> body),
      fragmented_opcode = map_option fst st\<rparr>"

section \<open>The decoder implements the automaton\<close>

lemma opcode_cases:
  assumes "wf_frame f"
  obtains "frame_opcode f = kContinuation" | "frame_opcode f = kText" | "frame_opcode f = kBinary"
    | "frame_opcode f = kClose" | "frame_opcode f = kPing" | "frame_opcode f = kPong"
    | b where "frame_opcode f = kReserved b" "b \<in> {3, 4, 5, 6, 7, 0xB, 0xC, 0xD, 0xE, 0xF}"
  using assms by (cases "frame_opcode f") (auto simp: wf_frame_def)

lemma first_byte:
  assumes "wf_frame f"
  defines "b \<equiv> (if fin f then 0x80 else 0) OR opcode_value (frame_opcode f)"
  shows "b AND 0x80 \<noteq> 0 \<longleftrightarrow> fin f" and "b AND 0x70 = 0" and "b AND 0x0f = opcode_value (frame_opcode f)"
    and "opcode_of (opcode_value (frame_opcode f)) = frame_opcode f"
  unfolding b_def by (rule opcode_cases [OF assms(1)]; auto simp: opcode_value_def opcode_of_def)+

lemma unmask_unmask:
  assumes "length key = 4"
  shows "unmask key (unmask key body) = body"
  by (rule nth_equalityI) (simp_all add: unmask_def xor.assoc)

lemma length_unmask [simp]: "length (unmask key body) = length body"
  by (simp add: unmask_def)

lemma second_byte:
  assumes "n < 128" and "m = 0 \<or> m = (0x80 :: byte)"
  shows "(m OR word_of_nat n) AND 0x80 = m" and "(m OR word_of_nat n) AND 0x7f = word_of_nat n"
    and "unat (word_of_nat n :: byte) = n"
proof -
  have bits: "bit (0x80 :: byte) i \<longleftrightarrow> i = 7" "bit (0x7f :: byte) i \<longleftrightarrow> i < 7" for i
    using bit_exp_iff [of 7 i, where 'a = byte] bit_mask_iff [of 7 i, where 'a = byte]
    by (auto simp: mask_eq_exp_minus_1 possible_bit_def)
  have "take_bit 7 n = n" using assms(1) by (simp add: take_bit_nat_eq_self)
  then have w: "(word_of_nat n :: byte) = take_bit 7 (word_of_nat n)" by (metis take_bit_of_nat)
  have low: "\<not> bit (word_of_nat n :: byte) 7" by (subst w) (simp add: bit_take_bit_iff)
  show "unat (word_of_nat n :: byte) = n" using assms(1) by (simp add: unat_of_nat)
  show "(m OR word_of_nat n) AND 0x80 = m"
    using assms(2) low
    by (intro bit_word_eqI) (auto simp: bits bit_and_iff bit_or_iff simp del: bit_of_nat_iff_bit bit_numeral_word_iff)
  have "(m OR word_of_nat n) AND 0x7f = take_bit 7 (word_of_nat n)"
    using assms(2)
    by (intro bit_word_eqI)
       (auto simp: bits bit_take_bit_iff bit_and_iff bit_or_iff simp del: bit_of_nat_iff_bit bit_numeral_word_iff)
  with w show "(m OR word_of_nat n) AND 0x7f = word_of_nat n" by simp
qed

text \<open>The decoder reads the length field of a frame, whatever follows it.\<close>

lemma length_field_first:
  assumes "m = 0 \<or> m = 0x80"
  shows "length_field m n \<noteq> []" and "hd (length_field m n) AND 0x80 = m"
  using assms second_byte(1) [of n m] by (auto simp: length_field_def)

lemma frame_length_field:
  assumes "n < 2 ^ 63" and "m = 0 \<or> m = 0x80"
  shows "frame_length (b # length_field m n @ rest) = Some (n, 1 + length (length_field m n))"
proof -
  let ?buf = "b # length_field m n @ rest"
  consider "n \<le> 125" | "125 < n" "n \<le> 0xffff" | "0xffff < n" by linarith
  then show ?thesis
  proof cases
    case 1
    then have lt: "n < 128" by simp
    have ne: "(word_of_nat n :: byte) \<noteq> 126" "(word_of_nat n :: byte) \<noteq> 127"
      using second_byte(3) [OF lt assms(2)] 1 by (auto dest: arg_cong [of _ _ unat])
    then show ?thesis
      using 1 second_byte [OF lt assms(2)] by (simp add: length_field_def frame_length_def Let_def)
  next
    case 2
    have "be_get16 ?buf 2 = word_of_nat n"
      by (rule be_get16_layout) (use 2 in \<open>simp add: length_field_def\<close>)
    moreover have "unat (word_of_nat n :: u16) = n" using 2 by (simp add: unat_of_nat)
    ultimately show ?thesis
      using 2 assms(2) by (auto simp: length_field_def frame_length_def Let_def)
  next
    case 3
    have "be_get64 ?buf 2 = word_of_nat n"
      by (rule be_get64_layout) (use 3 in \<open>simp add: length_field_def\<close>)
    moreover have "unat (word_of_nat n :: u64) = n" using assms(1) by (simp add: unat_of_nat)
    ultimately show ?thesis
      using 3 assms(2) by (auto simp: length_field_def frame_length_def Let_def)
  qed
qed

text \<open>The decoder finds the fields of a client frame at the head of its buffer.\<close>

lemma client_frame_head:
  fixes f :: Frame and rest :: "byte list"
  assumes "wf_frame f"
  defines "buf \<equiv> client_frame f @ rest"
  obtains h where "frame_length buf = Some (length (frame_payload f), h)"
    and "drop h buf = masking_key f @ unmask (masking_key f) (frame_payload f) @ rest"
    and "2 \<le> h" and "h \<le> length buf"
proof (rule that [of "1 + length (length_field 0x80 (length (frame_payload f)))"])
  show "frame_length buf = Some (length (frame_payload f), 1 + length (length_field 0x80 (length (frame_payload f))))"
    using assms(1) frame_length_field [of "length (frame_payload f)" "0x80"] by (simp add: buf_def client_frame_def wf_frame_def)
  show "2 \<le> 1 + length (length_field 0x80 (length (frame_payload f)))"
    using length_field_first [of "0x80" "length (frame_payload f)"] by (simp add: Suc_le_eq)
qed (simp_all add: buf_def client_frame_def)

lemma client_frame_bytes:
  shows "2 \<le> length (client_frame f @ rest)"
    and "(client_frame f @ rest) ! 0 = (if fin f then 0x80 else 0) OR opcode_value (frame_opcode f)"
    and "(client_frame f @ rest) ! 1 AND 0x80 \<noteq> 0"
  using length_field_first [of "0x80" "length (frame_payload f)"]
  by (cases "length_field 0x80 (length (frame_payload f))"; simp add: client_frame_def)+

lemma Push_step_client_frame:
  assumes "wf_frame f"
  shows "Push_step (decoder_of st (client_frame f @ rest)) =
     (case assemble_frame kMaxMessageBytes st f of
        None \<Rightarrow> Rejected newDecoder []
      | Some (st', ms) \<Rightarrow> Yields (decoder_of st' rest) ms)"
proof -
  let ?buf = "client_frame f @ rest" and ?n = "length (frame_payload f)"
  obtain h where h: "frame_length ?buf = Some (?n, h)"
      "drop h ?buf = masking_key f @ unmask (masking_key f) (frame_payload f) @ rest" "h \<le> length ?buf"
    by (rule client_frame_head [OF assms])
  have key: "length (masking_key f) = 4" using assms by (simp add: wf_frame_def)
  have d: "drop (h + k) ?buf = drop k (drop h ?buf)" for k by (simp only: drop_drop add.commute)
  have "length (drop h ?buf) = 4 + ?n + length rest" by (simp only: h(2)) (simp add: key)
  then have enough: "\<not> length ?buf < h + 4 + ?n" using h(3) by (simp only: length_drop)
  have parts: "take 4 (drop h ?buf) = masking_key f"
    "take ?n (drop (h + 4) ?buf) = unmask (masking_key f) (frame_payload f)"
    "drop (h + 4 + ?n) ?buf = rest"
    by (simp_all only: d add.assoc h(2)) (simp_all add: key)
  note fb = first_byte [OF assms]
  have step: "Push_step (decoder_of st ?buf) =
     (if ?n > kMaxMessageBytes \<or> control_opcode (frame_opcode f) \<and> (\<not> fin f \<or> ?n > 125) then Rejected newDecoder []
      else deliver (decoder_of st rest) (frame_opcode f) (fin f) (frame_payload f))"
    using client_frame_bytes [of f rest] enough
    by (auto simp del: add_2_eq_Suc' length_append drop_append take_append append_assoc
        simp: Push_step_def decoder_of_def Let_def h(1) parts fb control_opcode_def unmask_unmask [OF key] Reset_def newDecoder_def)
  show ?thesis
    unfolding step
    by (rule opcode_cases [OF assms])
       (auto simp: assemble_frame.simps deliver_def decoder_of_def control_opcode_def opcode_value_def word_le_nat_alt Reset_def newDecoder_def
         split: option.splits prod.splits)
qed

lemma Push_loop_client_frames:
  assumes "\<forall>f\<in>set fs. wf_frame f"
  shows "Push_loop (decoder_of st (concat (map client_frame fs))) =
     (case assemble kMaxMessageBytes st fs of (ok, st', ms) \<Rightarrow> (ok, if ok then decoder_of st' [] else newDecoder, ms))"
  using assms
proof (induction fs arbitrary: st)
  case Nil
  have "Push_step (decoder_of st []) = NeedMore" by (simp add: Push_step_def decoder_of_def)
  then show ?case by (subst Push_loop.simps) simp
next
  case (Cons f fs)
  have step: "Push_step (decoder_of st (concat (map client_frame (f # fs)))) =
     (case assemble_frame kMaxMessageBytes st f of None \<Rightarrow> Rejected newDecoder []
      | Some (st', ms) \<Rightarrow> Yields (decoder_of st' (concat (map client_frame fs))) ms)"
    using Push_step_client_frame [of f st "concat (map client_frame fs)"] Cons.prems by simp
  show ?case
    using Cons.IH Cons.prems
    by (subst Push_loop.simps) (simp only: step assemble.simps, auto split: option.split prod.split)
qed

lemma feed_decoder_of: "feed_buffer (decoder_of st a) b = decoder_of st (a @ b)"
  by (simp add: feed_buffer_def decoder_of_def)

lemma newDecoder_of: "newDecoder = decoder_of None []"
  by (simp add: newDecoder_def decoder_of_def)

lemma Push_loop_idle: "Push_loop (decoder_of st []) = (True, decoder_of st [], [])"
proof -
  have "Push_step (decoder_of st []) = NeedMore" by (simp add: Push_step_def decoder_of_def)
  then show ?thesis by (subst Push_loop.simps) simp
qed

text \<open>
  However the transport cuts the client's frames into reads, the decoder delivers the messages
  of the automaton, and rejects exactly when the automaton does.
\<close>

lemma receive_client_frames:
  assumes "\<forall>f\<in>set fs. wf_frame f" and "concat chunks = concat (map client_frame fs)"
    and "length (concat chunks) \<le> kMaxMessageBytes * 2"
  shows "receive_all Push (decoder_of st []) chunks =
     (case assemble kMaxMessageBytes st fs of (ok, st', ms) \<Rightarrow> (ok, if ok then decoder_of st' [] else newDecoder, ms))"
proof -
  have b: "buffer (decoder_of st []) = []" by (simp add: decoder_of_def)
  have "receive_all Push (decoder_of st []) chunks = Push (decoder_of st []) (concat chunks)"
    using assms(3) by (intro ws.receive_push_concat Push_loop_idle) (simp add: b)
  also have "\<dots> = Push_loop (decoder_of st (concat (map client_frame fs)))"
    using assms(2,3) by (simp add: Push_def b feed_decoder_of)
  finally show ?thesis by (simp add: Push_loop_client_frames [OF assms(1)])
qed

section \<open>Memory bounds\<close>

definition message_bounded :: "Message \<Rightarrow> bool" where
  "message_bounded m \<longleftrightarrow>
     length (payload m) \<le> kMaxMessageBytes
     \<and> opcode m \<in> {kText, kBinary, kClose, kPing, kPong}
     \<and> (opcode m \<in> {kClose, kPing, kPong} \<longrightarrow> length (payload m) \<le> 125)"

definition fragment_ok :: "Decoder \<Rightarrow> bool" where
  "fragment_ok d \<longleftrightarrow> length (fragmented d) \<le> kMaxMessageBytes
     \<and> (fragmented_opcode d = None \<longrightarrow> fragmented d = [])
     \<and> fragmented_opcode d \<in> {None, Some kText, Some kBinary}"

lemma opcode_of_control:
  "opcode_of v = kClose \<Longrightarrow> 8 \<le> v" "opcode_of v = kPing \<Longrightarrow> 8 \<le> v" "opcode_of v = kPong \<Longrightarrow> 8 \<le> v"
  by (auto simp: opcode_of_def word_le_nat_alt split: if_splits)

lemma deliver_bounded:
  assumes "fragment_ok d" and "length body \<le> kMaxMessageBytes"
    and "oc \<in> {kClose, kPing, kPong} \<longrightarrow> length body \<le> 125"
  shows "case deliver d oc fi body of
      NeedMore \<Rightarrow> True
    | Rejected d' ms \<Rightarrow> fragment_ok d' \<and> list_all message_bounded ms
    | Yields d' ms \<Rightarrow> fragment_ok d' \<and> list_all message_bounded ms"
  using assms by (auto simp: deliver_def fragment_ok_def message_bounded_def split: option.split)

lemma Push_step_bounded:
  assumes "fragment_ok d"
  shows "case Push_step d of
      NeedMore \<Rightarrow> True
    | Rejected d' ms \<Rightarrow> fragment_ok d' \<and> list_all message_bounded ms
    | Yields d' ms \<Rightarrow> fragment_ok d' \<and> list_all message_bounded ms"
proof -
  have r: "fragment_ok (Reset d)" by (simp add: fragment_ok_def)
  have b: "fragment_ok (d\<lparr>buffer := x\<rparr>)" for x using assms by (simp add: fragment_ok_def)
  show ?thesis
    unfolding Push_step_def Let_def
    by (auto simp: r split: option.split
        intro!: deliver_bounded [OF b] dest: opcode_of_control)
qed

lemma Push_loop_bounded:
  assumes "fragment_ok d" and "Push_loop d = (ok, d', ms)"
  shows "fragment_ok d' \<and> list_all message_bounded ms"
  using assms
proof (induction d arbitrary: ms rule: ws.loop_induct)
  case (step d)
  note b = Push_step_bounded [OF step.prems(1)]
  show ?case
  proof (cases "Push_step d")
    case (Yields e ns)
    then obtain ns' where e: "Push_loop e = (ok, d', ns')" and "ms = ns @ ns'"
      using step.prems(2) by (subst (asm) Push_loop.simps) (auto split: prod.splits)
    then show ?thesis using step.IH [OF Yields _ e] b Yields by simp
  qed (use step.prems b in \<open>subst (asm) Push_loop.simps; auto\<close>)+
qed

definition Decoder_invar :: "Decoder \<Rightarrow> bool" where
  "Decoder_invar d \<longleftrightarrow> fragment_ok d \<and> length (buffer d) \<le> kMaxMessageBytes * 2"

lemma Push_bounded:
  assumes "Decoder_invar d" and "Push d data = (ok, d', ms)"
  shows "Decoder_invar d' \<and> list_all message_bounded ms"
proof -
  have "length (buffer d') \<le> kMaxMessageBytes * 2"
    using assms by (intro ws.push_pending [of d data ok d' ms]) (simp_all add: Decoder_invar_def)
  moreover have "fragment_ok d' \<and> list_all message_bounded ms"
  proof (cases "length (buffer d) + length data > kMaxMessageBytes * 2")
    case True
    then have "d' = Reset d" "ms = []" using assms(2) by (auto simp: Push_def)
    then show ?thesis by (simp add: fragment_ok_def)
  next
    case False
    then have "Push_loop (feed_buffer d data) = (ok, d', ms)" using assms(2) by (simp add: Push_def)
    moreover have "fragment_ok (feed_buffer d data)"
      using assms(1) by (simp add: Decoder_invar_def fragment_ok_def)
    ultimately show ?thesis by (rule Push_loop_bounded [rotated])
  qed
  ultimately show ?thesis by (simp add: Decoder_invar_def)
qed

section \<open>The server's frames\<close>

text \<open>
  What a client reads of one unmasked frame (RFC 6455, section 5.2). The server's frames are
  final and unmasked, so the receiver's own decoder refuses them.
\<close>

definition read_server_frame :: "byte list \<Rightarrow> (Opcode \<times> byte list) option" where
  "read_server_frame buf =
     (if length buf < 2 \<or> buf ! 0 AND 0xf0 \<noteq> 0x80 \<or> buf ! 1 AND 0x80 \<noteq> 0 then None
      else (case frame_length buf of
              None \<Rightarrow> None
            | Some (n, h) \<Rightarrow>
                if length buf = h + n then Some (opcode_of (buf ! 0 AND 0x0f), drop h buf) else None))"

lemma EncodeFrame_fields:
  assumes "length body \<le> kMaxMessageBytes"
  shows "EncodeFrame oc body = (0x80 OR opcode_value oc) # length_field 0 (length body) @ bytes_of body"
proof -
  have "length body < 2 ^ 63" using assms by (simp add: kMaxMessageBytes_def)
  moreover have "(ucast (word_of_nat n :: u64) :: byte) = word_of_nat n" for n
    by (rule bit_word_eqI) (auto simp: bit_simps)
  moreover have "ucast (drop_bit 8 (word_of_nat n :: u64)) = (ucast (drop_bit 8 (word_of_nat n :: u16)) :: byte)"
    "ucast (word_of_nat n :: u64) = (ucast (word_of_nat n :: u16) :: byte)" for n
    by (rule bit_word_eqI; auto simp: bit_simps)+
  ultimately show ?thesis using assms
    by (simp add: EncodeFrame_def length_field_def be_put16_def be_put64_def Let_def)
qed

lemma read_server_frame_EncodeFrame:
  assumes "length body \<le> kMaxMessageBytes" and "oc \<in> {kText, kBinary, kClose, kPing, kPong}"
  shows "read_server_frame (EncodeFrame oc body) = Some (oc, bytes_of body)"
    and "Push_step (decoder_of st (EncodeFrame oc body)) = Rejected newDecoder []"
proof -
  have n: "length body < 2 ^ 63" using assms by (simp add: kMaxMessageBytes_def)
  obtain l ls where lf: "length_field 0 (length body) = l # ls" and l: "l AND 0x80 = 0"
    using length_field_first [of 0 "length body"] by (cases "length_field 0 (length body)") auto
  have "(0x80 OR opcode_value oc) AND 0xf0 = 0x80" "(0x80 OR opcode_value oc) AND 0x70 = 0"
    "opcode_of ((0x80 OR opcode_value oc) AND 0x0f) = oc"
    using assms(2) by (auto simp: opcode_value_def opcode_of_def)
  then show "read_server_frame (EncodeFrame oc body) = Some (oc, bytes_of body)"
    "Push_step (decoder_of st (EncodeFrame oc body)) = Rejected newDecoder []"
    using frame_length_field [OF n, of 0 "0x80 OR opcode_value oc" "bytes_of body"] lf l
    by (simp_all add: EncodeFrame_fields [OF assms(1)] read_server_frame_def Push_step_def decoder_of_def
        Reset_def newDecoder_def)
qed

section \<open>The handshake on well-formed requests\<close>

text \<open>A request as a client renders it: the request line, the header fields, the empty line.\<close>

definition header_line :: "string \<times> string \<Rightarrow> string" where
  "header_line h = fst h @ '': '' @ snd h @ crlf"

definition render_request :: "string \<Rightarrow> (string \<times> string) list \<Rightarrow> string" where
  "render_request line hs = line @ crlf @ concat (map header_line hs) @ crlf"

definition wf_header :: "string \<times> string \<Rightarrow> bool" where
  "wf_header h \<longleftrightarrow> CHR '':'' \<notin> set (fst h) \<and> carriage_return \<notin> set (fst h)
     \<and> carriage_return \<notin> set (snd h) \<and> (snd h = [] \<or> hd (snd h) \<noteq> CHR '' '')"

definition header_value :: "(string \<times> string) list \<Rightarrow> string \<Rightarrow> string option" where
  "header_value hs name = map_of (map (\<lambda>(n, v). (Lower n, v)) hs) (Lower name)"

lemma find_sub_skip:
  assumes "c \<notin> set p"
  shows "find_sub (c # pat) (p @ s) = map_option ((+) (length p)) (find_sub (c # pat) s)"
  using assms by (cases "find_sub (c # pat) s"; induction p) auto

lemma find_from_append:
  "find_from (pre @ s) pat (length pre) = map_option ((+) (length pre)) (find_sub pat s)"
  by (simp add: find_from_def)

lemma find_sub_hit: "find_sub (c # pat) (c # pat @ s) = Some 0"
  by simp

lemma dropWhile_spaces: "v = [] \<or> hd v \<noteq> CHR '' '' \<Longrightarrow> dropWhile ((=) CHR '' '') (CHR '' '' # v) = v"
  by (cases v) auto

lemma Header_loop_line:
  assumes "start < length request" and "find_from request crlf start = Some lineEnd" and "lineEnd \<noteq> start"
    and "find_from request '':'' start = Some colon" and "colon < lineEnd"
  shows "Header_loop request target start =
     (if Lower (substr request start (colon - start)) = target
      then Some (dropWhile ((=) CHR '' '') (substr request (colon + 1) (lineEnd - (colon + 1))))
      else Header_loop request target (lineEnd + 2))"
  using assms by (subst Header_loop.simps) simp

lemma Header_loop_lines:
  assumes "\<forall>h\<in>set hs. wf_header h"
  shows "Header_loop (pre @ concat (map header_line hs) @ crlf @ rest) target (length pre)
       = map_of (map (\<lambda>(n, v). (Lower n, v)) hs) target"
  using assms
proof (induction hs arbitrary: pre)
  case Nil
  then show ?case by (subst Header_loop.simps) (simp add: find_from_append)
next
  case (Cons h hs)
  obtain n v where h: "h = (n, v)" by force
  have wf: "CHR '':'' \<notin> set n" "carriage_return \<notin> set n" "carriage_return \<notin> set v" "v = [] \<or> hd v \<noteq> CHR '' ''"
    using Cons.prems by (auto simp: h wf_header_def)
  let ?tail = "concat (map header_line hs) @ crlf @ rest"
  let ?req = "pre @ n @ '': '' @ v @ crlf @ ?tail"
  have line: "find_from ?req crlf (length pre) = Some (length pre + length n + 2 + length v)"
    using find_sub_skip [of carriage_return "n @ '': '' @ v" "[newline]" "crlf @ ?tail"] wf
    by (simp add: find_from_append)
  have colon: "find_from ?req '':'' (length pre) = Some (length pre + length n)"
    using find_sub_skip [of "CHR '':''" n "[]" "'': '' @ v @ crlf @ ?tail"] wf(1)
    by (simp add: find_from_append)
  have name: "substr ?req (length pre) (length pre + length n - length pre) = n" by (simp add: substr_def)
  have val: "dropWhile ((=) CHR '' '') (substr ?req (length pre + length n + 1) (length pre + length n + 2 + length v - (length pre + length n + 1))) = v"
    using dropWhile_spaces [OF wf(4)] by (simp add: substr_def)
  have next_line: "Header_loop ?req target (length pre + length n + 2 + length v + 2)
      = map_of (map (\<lambda>(n, v). (Lower n, v)) hs) target"
    using Cons.IH [of "pre @ n @ '': '' @ v @ crlf"] Cons.prems by (simp add: add.assoc)
  have "Header_loop ?req target (length pre) = (if Lower n = target then Some v
      else Header_loop ?req target (length pre + length n + 2 + length v + 2))"
    by (subst Header_loop_line [OF _ line _ colon]) (simp_all only: name val, simp_all)
  then have "Header_loop ?req target (length pre) = map_of (map (\<lambda>(n, v). (Lower n, v)) (h # hs)) target"
    unfolding next_line by (auto simp: h)
  moreover have "header_line h = n @ '': '' @ v @ crlf" by (simp add: h header_line_def)
  ultimately show ?case by simp
qed

lemma Header_render_request:
  assumes "carriage_return \<notin> set line" and "\<forall>h\<in>set hs. wf_header h"
  shows "Header (render_request line hs) name = header_value hs name"
proof -
  have "find_from (render_request line hs) crlf 0 = Some (length line)"
    using find_sub_skip [OF assms(1), of "[newline]" "crlf @ concat (map header_line hs) @ crlf"]
    by (simp add: render_request_def find_from_def)
  moreover have "Header_loop (render_request line hs) (Lower name) (length (line @ crlf)) = header_value hs name"
    using Header_loop_lines [OF assms(2), of "line @ crlf" "[]" "Lower name"]
    by (simp add: render_request_def header_value_def)
  ultimately show ?thesis by (simp add: Header_def)
qed

text \<open>The accept value of RFC 6455, section 4.2.2.\<close>

definition accept_token :: "string \<Rightarrow> string" where
  "accept_token key = Base64 (fips_sha1 (bytes_of (key @ ''258EAFA5-E914-47DA-95CA-C5AB0DC85B11'')))"

lemma BuildUpgradeResponse_render:
  assumes "\<forall>h\<in>set hs. wf_header h" and "length (render_request ''GET /direct HTTP/1.1'' hs) \<le> 16384"
    and "map_option Lower (header_value hs ''Upgrade'') = Some ''websocket''"
    and "header_value hs ''Connection'' = Some connection" and "find_sub ''upgrade'' (Lower connection) \<noteq> None"
    and "header_value hs ''Sec-WebSocket-Version'' = Some ''13''"
    and "header_value hs ''Sec-WebSocket-Key'' = Some key" and "20 \<le> length key" and "length key \<le> 64"
  shows "BuildUpgradeResponse (render_request ''GET /direct HTTP/1.1'' hs) =
     Some (render_request ''HTTP/1.1 101 Switching Protocols''
       [(''Upgrade'', ''websocket''), (''Connection'', ''Upgrade''), (''Sec-WebSocket-Accept'', accept_token key)])"
proof -
  have line: "carriage_return \<notin> set ''GET /direct HTTP/1.1''" by simp
  note hv = Header_render_request [OF line assms(1)]
  have "starts_with (render_request ''GET /direct HTTP/1.1'' hs) (''GET /direct HTTP/1.1'' @ crlf)"
    by (simp add: render_request_def starts_with_def)
  moreover obtain u where "header_value hs ''Upgrade'' = Some u" "Lower u = ''websocket''"
    using assms(3) by auto
  ultimately show ?thesis
    using assms(2,4-9) unfolding BuildUpgradeResponse_def hv Let_def
    by (simp add: value_or_def Sha1_eq_fips accept_token_def kMagic_def render_request_def header_line_def)
qed

text \<open>The read of the request ends by its deadline, within its memory, and reports what it holds.\<close>

lemma ReadUpgradeRequest_bounds:
  assumes "ReadUpgradeRequest request events = Some (ok, r)" and "length request < 16 * 1024 + 2048"
    and "\<forall>b. RecvBytes b \<in> set events \<longrightarrow> length b \<le> 2048"
  shows "length r < 16 * 1024 + 2048 \<and> ok = (upgrade_complete r \<and> length r \<le> 16 * 1024)"
  using assms
proof (induction request events rule: ReadUpgradeRequest.induct)
  case (1 request events)
  show ?case
  proof (cases "upgrade_complete request \<or> length request \<ge> 16 * 1024")
    case True
    then show ?thesis using "1.prems" by (subst (asm) (1) ReadUpgradeRequest.simps) auto
  next
    case False
    then have short: "length (request @ b) < 16 * 1024 + 2048" if "length b \<le> 2048" for b using that by simp
    show ?thesis
    proof (cases events)
      case Nil
      then show ?thesis using "1.prems"(1) False by (subst (asm) ReadUpgradeRequest.simps) simp
    next
      case (Cons e rest)
      then show ?thesis
        using "1.prems" False short "1.IH" [OF False]
        by (subst (asm) (1) ReadUpgradeRequest.simps) (auto split: upgrade_event.splits)
    qed
  qed
qed

lemma ReadUpgradeRequest_ends:
  assumes "DeadlinePassed \<in> set events"
  shows "ReadUpgradeRequest request events \<noteq> None"
  using assms
proof (induction request events rule: ReadUpgradeRequest.induct)
  case (1 request events)
  show ?case
    using "1.prems" "1.IH"
    by (subst ReadUpgradeRequest.simps) (auto split: list.split upgrade_event.split)
qed

section \<open>Properties\<close>

text \<open>
  C36. Whatever well-formed client frames arrive, and however the transport cuts their bytes into
  reads, the decoder delivers the messages the automaton of RFC 6455 assembles from the frames,
  rejects when it rejects, and keeps its state in between, as long as the bytes fit the buffer.
\<close>

theorem decoder_implements_rfc6455:
  assumes "\<forall>f\<in>set fs. wf_frame f" and "concat chunks = concat (map client_frame fs)"
    and "length (concat chunks) \<le> kMaxMessageBytes * 2"
  shows "receive_all Push (decoder_of st []) chunks =
     (case assemble kMaxMessageBytes st fs of (ok, st', ms) \<Rightarrow> (ok, if ok then decoder_of st' [] else newDecoder, ms))"
  by (rule receive_client_frames [OF assms])

lemma decoder_implements_rfc6455_witness:
  "receive_all Push newDecoder [[0x01, 0x82, 1, 2], [3, 4, 0x69, 0x6B, 0x80], [0x81, 1, 2, 3, 4, 0x20]]
   = (True, newDecoder, [\<lparr>opcode = kText, payload = [0x68, 0x69, 0x21]\<rparr>])"
proof -
  let ?fs = "[\<lparr>fin = False, frame_opcode = kText, masking_key = [1, 2, 3, 4], frame_payload = [0x68, 0x69]\<rparr>,
    \<lparr>fin = True, frame_opcode = kContinuation, masking_key = [1, 2, 3, 4], frame_payload = [0x21]\<rparr>]"
  let ?cs = "[[0x01, 0x82, 1, 2], [3, 4, 0x69, 0x6B, 0x80], [0x81, 1, 2, 3, 4, 0x20]] :: byte list list"
  have wf: "\<forall>f\<in>set ?fs. wf_frame f" by (simp add: wf_frame_def)
  have bytes: "concat ?cs = concat (map client_frame ?fs)"
    by (simp add: client_frame_def length_field_def opcode_value_def unmask_def)
  have len: "length (concat ?cs) \<le> kMaxMessageBytes * 2" by (simp add: kMaxMessageBytes_def)
  have "assemble kMaxMessageBytes None ?fs = (True, None, [\<lparr>opcode = kText, payload = [0x68, 0x69, 0x21]\<rparr>])"
    by (simp add: assemble_frame.simps kMaxMessageBytes_def control_opcode_def opcode_value_def word_le_nat_alt)
  then show ?thesis
    using decoder_implements_rfc6455 [OF wf bytes len, of None] by (simp add: newDecoder_of)
qed

text \<open>
  The decoder's memory is bounded: an invariant holds of the fresh decoder and is kept by every
  \<open>Push\<close>, whatever the peer sends, and every delivered message is a data message of at most
  8 MiB + 32 bytes or a control message of at most 125.
\<close>

theorem decoder_memory_bounded:
  assumes "Decoder_invar d" and "Push d data = (ok, d', ms)"
  shows "Decoder_invar d' \<and> list_all message_bounded ms \<and> Decoder_invar newDecoder"
  using Push_bounded [OF assms] by (simp add: Decoder_invar_def fragment_ok_def newDecoder_def)

lemma decoder_memory_bounded_witness:
  "Decoder_invar newDecoder \<and> (\<exists>d'. Push newDecoder [0x81] = (True, d', []) \<and> Decoder_invar d')"
proof -
  have inv: "Decoder_invar newDecoder" by (simp add: Decoder_invar_def fragment_ok_def newDecoder_def)
  have "Push_step (feed_buffer newDecoder [0x81]) = NeedMore" by (simp add: Push_step_def newDecoder_def)
  then have "Push newDecoder [0x81] = (True, feed_buffer newDecoder [0x81], [])"
    by (subst Push_def, subst Push_loop.simps) (simp add: newDecoder_def kMaxMessageBytes_def)
  from decoder_memory_bounded [OF inv this] this show ?thesis by blast
qed

text \<open>
  A client reads exactly the payload and opcode out of a frame the server encodes.
\<close>

theorem server_frame_roundtrip:
  assumes "length body \<le> kMaxMessageBytes" and "oc \<in> {kText, kBinary, kClose, kPing, kPong}"
  shows "read_server_frame (EncodeFrame oc body) = Some (oc, bytes_of body)"
  by (rule read_server_frame_EncodeFrame [OF assms])

lemma server_frame_roundtrip_witness:
  "read_server_frame (EncodeFrame kText ''{}'') = Some (kText, [0x7B, 0x7D])"
proof -
  have "length ''{}'' \<le> kMaxMessageBytes" by (simp add: kMaxMessageBytes_def)
  from server_frame_roundtrip [OF this, of kText] show ?thesis by (simp add: bytes_of_def byte_of_char_def)
qed

text \<open>
  To a well-formed upgrade request for \<open>/direct\<close>, whatever the order and the case of its
  header names, the receiver answers the switching-protocols response whose accept value is the
  base64 form of the FIPS 180-4 SHA-1 of the key and the protocol's GUID.
\<close>

theorem upgrade_response_conforms:
  assumes "\<forall>h\<in>set hs. wf_header h" and "length (render_request ''GET /direct HTTP/1.1'' hs) \<le> 16384"
    and "map_option Lower (header_value hs ''Upgrade'') = Some ''websocket''"
    and "header_value hs ''Connection'' = Some connection" and "find_sub ''upgrade'' (Lower connection) \<noteq> None"
    and "header_value hs ''Sec-WebSocket-Version'' = Some ''13''"
    and "header_value hs ''Sec-WebSocket-Key'' = Some key" and "20 \<le> length key" and "length key \<le> 64"
  shows "BuildUpgradeResponse (render_request ''GET /direct HTTP/1.1'' hs) =
     Some (render_request ''HTTP/1.1 101 Switching Protocols''
       [(''Upgrade'', ''websocket''), (''Connection'', ''Upgrade''), (''Sec-WebSocket-Accept'', accept_token key)])"
  by (rule BuildUpgradeResponse_render [OF assms])

lemma upgrade_response_conforms_witness:
  "let key = ''dGhlIHNhbXBsZSBub25jZQ=='';
       hs = [(''host'', ''h''), (''UPGRADE'', ''WebSocket''), (''connection'', ''keep-alive, Upgrade''),
             (''sec-websocket-key'', key), (''sec-websocket-version'', ''13'')]
   in BuildUpgradeResponse (render_request ''GET /direct HTTP/1.1'' hs) =
     Some (render_request ''HTTP/1.1 101 Switching Protocols''
       [(''Upgrade'', ''websocket''), (''Connection'', ''Upgrade''), (''Sec-WebSocket-Accept'', accept_token key)])"
  unfolding Let_def
  by (rule upgrade_response_conforms [where connection = "''keep-alive, Upgrade''"])
     (simp_all add: wf_header_def header_value_def Lower_def tolower_def isupper_def ord_def
       render_request_def header_line_def char_of_def bit_0)

end
