(* ===== verification/Mdns_Protocol.thy ===== *)
theory Mdns_Protocol
  imports Hwc_Prelude
begin

text \<open>
  The multicast DNS messages of the receiver, \<open>receiver/entry/src/main/cpp/mdns_protocol.h\<close> and
  \<open>mdns_protocol.cpp\<close>: the decoder of compressed names, the dotted-decimal parser, the trusted
  address ranges and their order, the classification of a message, the builders of queries,
  probes and address records, the answer to a query with known-answer suppression, and the
  extraction of address records. An empty byte list is the source's empty vector: no message.
  The order of addresses is made the order of the type, so that the tie-break of two probing
  hosts can be stated with it.
\<close>

section \<open>Constants and data\<close>

text \<open>\<open>std::array<std::byte, 4>\<close>.\<close>

datatype Ipv4Address = Ipv4Address byte byte byte byte

fun address_bytes :: "Ipv4Address \<Rightarrow> byte list" where
  "address_bytes (Ipv4Address a b c d) = [a, b, c, d]"

definition address_of_bytes :: "byte list \<Rightarrow> Ipv4Address" where
  "address_of_bytes bs = Ipv4Address (bs ! 0) (bs ! 1) (bs ! 2) (bs ! 3)"

definition kHostname :: string where "kHostname = ''harmony-web-companion.local''"
definition kRecordTtlSeconds :: u32 where "kRecordTtlSeconds = 120"
definition kMaximumQueryBytes :: nat where "kMaximumQueryBytes = 512"
definition kMaximumResponseBytes :: nat where "kMaximumResponseBytes = 64"
definition kMulticastAddress :: Ipv4Address where "kMulticastAddress = Ipv4Address 224 0 0 251"
definition kMulticastPort :: u16 where "kMulticastPort = 5353"
definition kWindowsQueryHopLimit :: int where "kWindowsQueryHopLimit = 1"
definition kRequiredResponseHopLimit :: int where "kRequiredResponseHopLimit = 255"
definition kMaximumResponsesPerSecond :: nat where "kMaximumResponsesPerSecond = 10"

definition kHeaderBytes :: nat where "kHeaderBytes = 12"
definition kMaximumPointerJumps :: nat where "kMaximumPointerJumps = 16"
definition kMaximumRecords :: nat where "kMaximumRecords = 16"
definition kTypeA :: u16 where "kTypeA = 1"
definition kTypeAny :: u16 where "kTypeAny = 255"
definition kClassIn :: u16 where "kClassIn = 1"
definition kCacheFlush :: u16 where "kCacheFlush = 0x8000"
definition kQueryResponse :: u16 where "kQueryResponse = 0x8000"
definition kAuthoritative :: u16 where "kAuthoritative = 0x0400"
definition kTruncated :: u16 where "kTruncated = 0x0200"
definition kOpcodeMask :: u16 where "kOpcodeMask = 0x7800"

lemmas mdns_constants =
  kRecordTtlSeconds_def kMaximumQueryBytes_def kMaximumResponseBytes_def kHeaderBytes_def
  kMaximumPointerJumps_def kMaximumRecords_def kTypeA_def kTypeAny_def kClassIn_def kCacheFlush_def
  kQueryResponse_def kAuthoritative_def kTruncated_def kOpcodeMask_def

datatype MessageKind = kInvalid | kQuery | kProbe | kResponse

section \<open>Reading\<close>

definition ReadU16 :: "byte list \<Rightarrow> nat \<Rightarrow> u16 option" where
  "ReadU16 packet offset =
     (if offset > length packet \<or> length packet - offset < 2 then None else Some (be_get16 packet offset))"

definition ReadU32 :: "byte list \<Rightarrow> nat \<Rightarrow> u32 option" where
  "ReadU32 packet offset =
     (if offset > length packet \<or> length packet - offset < 4 then None else Some (be_get32 packet offset))"

definition ValidLabelCharacter :: "char \<Rightarrow> bool" where
  "ValidLabelCharacter c \<longleftrightarrow> isalnum c \<or> c = CHR ''-''"

text \<open>
  The loop of \<open>DecodeName\<close>. \<open>visited\<close> holds the pointer targets seen; a target seen before, or
  a seventeenth jump, is refused, so the loop ends on every packet.
\<close>

function DecodeName_loop ::
    "byte list \<Rightarrow> nat \<Rightarrow> string \<Rightarrow> nat \<Rightarrow> bool \<Rightarrow> nat list \<Rightarrow> (string \<times> nat) option" where
  "DecodeName_loop packet cursor output consumed jumped visited =
     (if cursor < length packet then
        (let len_byte = packet ! cursor
         in if len_byte AND 0xc0 = 0xc0 then
              (if cursor + 1 \<ge> length packet \<or> length visited \<ge> kMaximumPointerJumps then None
               else
                 (let pointer = unat (push_bit 8 (ucast (len_byte AND 0x3f)) OR ucast (packet ! (cursor + 1)) :: u64)
                  in if pointer \<ge> length packet \<or> pointer \<in> set visited then None
                     else DecodeName_loop packet pointer output
                            (if jumped then consumed else consumed + 2) True (visited @ [pointer])))
            else if len_byte AND 0xc0 \<noteq> 0 \<or> len_byte > 63 then None
            else
              (let n = unat len_byte; cursor1 = cursor + 1;
                   consumed1 = (if jumped then consumed else consumed + 1)
               in if n = 0 then
                    (if output \<noteq> [] \<and> length output \<le> 253 then Some (output, consumed1) else None)
                  else if cursor1 > length packet \<or> n > length packet - cursor1 then None
                  else
                    (let characters = chars_of (take n (drop cursor1 packet));
                         output1 = (if output = [] then output else output @ ''.'') @ map tolower characters
                     in if \<not> list_all ValidLabelCharacter characters \<or> length output1 > 253 then None
                        else DecodeName_loop packet (cursor1 + n) output1
                               (if jumped then consumed1 else consumed1 + n) jumped visited)))
      else None)"
  by pat_completeness auto
termination
  by (relation "measures [\<lambda>(packet, cursor, output, consumed, jumped, visited). kMaximumPointerJumps - length visited,
                          \<lambda>(packet, cursor, output, consumed, jumped, visited). length packet - cursor]")
     (auto simp: kMaximumPointerJumps_def)

declare DecodeName_loop.simps [simp del]

definition DecodeName :: "byte list \<Rightarrow> nat \<Rightarrow> (string \<times> nat) option" where
  "DecodeName packet offset =
     (if offset \<ge> length packet then None else DecodeName_loop packet offset '''' 0 False [])"

section \<open>Addresses\<close>

definition parse_part :: "string \<Rightarrow> byte option" where
  "parse_part part =
     (if part = [] \<or> length part > 3 then None
      else
        (case from_chars_unsigned 10 (2 ^ 32 - 1) part of
           None \<Rightarrow> None
         | Some (v, used) \<Rightarrow>
             (if used \<noteq> length part \<or> v > 255 \<or> (length part > 1 \<and> hd part = CHR ''0'') then None
              else Some (word_of_nat v))))"

text \<open>The loop of \<open>ParseIpv4Address\<close>, from index \<open>index\<close> with \<open>left\<close> iterations to go.\<close>

fun ParseIpv4_loop :: "string \<Rightarrow> nat \<Rightarrow> nat \<Rightarrow> nat \<Rightarrow> (byte list \<times> nat) option" where
  "ParseIpv4_loop str index 0 start = Some ([], start)"
| "ParseIpv4_loop str index (Suc left) start =
     (let dot = find_from str ''.'' start
      in if (index + 1 < 4 \<and> dot = None) \<or> (index + 1 = 4 \<and> dot \<noteq> None) then None
         else
           (case parse_part (substr str start ((case dot of None \<Rightarrow> length str | Some e \<Rightarrow> e) - start)) of
              None \<Rightarrow> None
            | Some b \<Rightarrow>
                (case ParseIpv4_loop str (index + 1) left (case dot of None \<Rightarrow> length str | Some e \<Rightarrow> e + 1) of
                   None \<Rightarrow> None | Some (bs, rest) \<Rightarrow> Some (b # bs, rest))))"

definition ParseIpv4Address :: "string \<Rightarrow> Ipv4Address option" where
  "ParseIpv4Address str =
     (if str = [] then None
      else
        (case ParseIpv4_loop str 0 4 0 of
           None \<Rightarrow> None
         | Some (bs, start) \<Rightarrow> if start \<noteq> length str then None else Some (address_of_bytes bs)))"

fun IsTrustedLanAddress :: "Ipv4Address \<Rightarrow> bool" where
  "IsTrustedLanAddress (Ipv4Address fst_byte snd_byte _ _) \<longleftrightarrow>
     fst_byte = 10 \<or> (fst_byte = 172 \<and> snd_byte \<ge> 16 \<and> snd_byte \<le> 31)
     \<or> (fst_byte = 192 \<and> snd_byte = 168) \<or> (fst_byte = 169 \<and> snd_byte = 254)"

fun compare_loop :: "byte list \<Rightarrow> byte list \<Rightarrow> int" where
  "compare_loop (l # ls) (r # rs) = (if l < r then -1 else if l > r then 1 else compare_loop ls rs)"
| "compare_loop _ _ = 0"

definition CompareAddresses :: "Ipv4Address \<Rightarrow> Ipv4Address \<Rightarrow> int" where
  "CompareAddresses left right = compare_loop (address_bytes left) (address_bytes right)"

section \<open>Building\<close>

function Encoded_loop :: "string \<Rightarrow> nat \<Rightarrow> byte list \<Rightarrow> byte list option" where
  "Encoded_loop hostname start encoded =
     (if start < length hostname then
        (let dot = find_from hostname ''.'' start;
             n = (case dot of None \<Rightarrow> length hostname | Some e \<Rightarrow> e) - start
         in if n = 0 \<or> n > 63 then None
            else
              (let encoded1 = encoded @ [word_of_nat n] @ bytes_of (substr hostname start n)
               in case dot of None \<Rightarrow> Some encoded1 | Some e \<Rightarrow> Encoded_loop hostname (e + 1) encoded1))
      else Some encoded)"
  by pat_completeness auto
termination
  by (relation "measure (\<lambda>(hostname, start, encoded). length hostname - start)")
     (auto dest!: find_from_SomeD [OF sym])

declare Encoded_loop.simps [simp del]

definition EncodedHostname :: "byte list" where
  "EncodedHostname = (case Encoded_loop kHostname 0 [] of None \<Rightarrow> [] | Some encoded \<Rightarrow> encoded @ [0])"

definition BuildAQuery :: "byte list" where
  "BuildAQuery = (replicate kHeaderBytes 0)[5 := 1] @ EncodedHostname @ be_put16 kTypeA @ be_put16 kClassIn"

definition BuildAProbe :: "Ipv4Address \<Rightarrow> byte list" where
  "BuildAProbe address =
     (let probe = BuildAQuery;
          probe = probe[length probe - 4 := 0x00, length probe - 3 := 0xff, 9 := 1];
          probe = probe @ [0xc0, 0x0c] @ be_put16 kTypeA @ be_put16 kClassIn @ be_put32 kRecordTtlSeconds
                  @ be_put16 4 @ address_bytes address
      in if length probe > kMaximumResponseBytes then [] else probe)"

definition BuildARecord :: "Ipv4Address \<Rightarrow> u32 \<Rightarrow> byte list" where
  "BuildARecord address ttlSeconds =
     (let response = (replicate kHeaderBytes 0)
                       [2 := ucast (drop_bit 8 (kQueryResponse OR kAuthoritative)),
                        3 := ucast ((kQueryResponse OR kAuthoritative) AND 0xff), 7 := 1];
          response = response @ EncodedHostname @ be_put16 kTypeA @ be_put16 (kClassIn OR kCacheFlush)
                     @ be_put32 ttlSeconds @ be_put16 4 @ address_bytes address
      in if length response > kMaximumResponseBytes then [] else response)"

section \<open>Classifying and answering\<close>

definition ClassifyMessage :: "byte list \<Rightarrow> MessageKind" where
  "ClassifyMessage packet =
     (if length packet < kHeaderBytes \<or> length packet > kMaximumQueryBytes then kInvalid
      else
        (case (ReadU16 packet 2, ReadU16 packet 4, ReadU16 packet 6, ReadU16 packet 8, ReadU16 packet 10) of
           (Some flags, Some questionCount, Some answerCount, Some authorityCount, Some additionalCount) \<Rightarrow>
             (if flags AND (kOpcodeMask OR kTruncated) \<noteq> 0 then kInvalid
              else if flags AND kQueryResponse \<noteq> 0
              then (if unat answerCount + unat authorityCount + unat additionalCount > 0 then kResponse else kInvalid)
              else if questionCount \<noteq> 1 then kInvalid
              else if authorityCount > 0 then kProbe else kQuery)
         | _ \<Rightarrow> kInvalid))"

text \<open>The type, class, time to live and data length that follow a name in a record.\<close>

definition record_fields :: "byte list \<Rightarrow> nat \<Rightarrow> (u16 \<times> u16 \<times> u32 \<times> u16) option" where
  "record_fields packet offset =
     (case (ReadU16 packet offset, ReadU16 packet (offset + 2), ReadU32 packet (offset + 4), ReadU16 packet (offset + 8)) of
        (Some type_code, Some class_code, Some ttl, Some dataLength) \<Rightarrow> Some (type_code, class_code, ttl, dataLength)
      | _ \<Rightarrow> None)"

text \<open>The loop of \<open>BuildAResponse\<close> over the known answers: the end offset and the suppression flag.\<close>

primrec KnownAnswers_loop :: "byte list \<Rightarrow> Ipv4Address \<Rightarrow> nat \<Rightarrow> nat \<Rightarrow> bool \<Rightarrow> (nat \<times> bool) option" where
  "KnownAnswers_loop query address 0 offset suppress = Some (offset, suppress)"
| "KnownAnswers_loop query address (Suc left) offset suppress =
     (case DecodeName query offset of
        None \<Rightarrow> None
      | Some (answerName, consumed) \<Rightarrow>
          (if offset > length query \<or> consumed > length query - offset then None
           else
             (case record_fields query (offset + consumed) of
                None \<Rightarrow> None
              | Some (answerType, answerClass, answerTtl, answerLength) \<Rightarrow>
                  (if answerName \<noteq> kHostname \<or> answerType \<noteq> kTypeA
                      \<or> answerClass AND NOT kCacheFlush \<noteq> kClassIn \<or> answerLength \<noteq> 4 then None
                   else
                     (let data = offset + consumed + 10
                      in if data > length query \<or> unat answerLength > length query - data then None
                         else KnownAnswers_loop query address left (data + unat answerLength)
                                (suppress \<or> (take 4 (drop data query) = address_bytes address
                                              \<and> answerTtl \<ge> kRecordTtlSeconds div 2)))))))"

definition BuildAResponse :: "byte list \<Rightarrow> Ipv4Address \<Rightarrow> byte list" where
  "BuildAResponse query address =
     (if length query < kHeaderBytes \<or> length query > kMaximumQueryBytes then []
      else
        (case (ReadU16 query 0, ReadU16 query 2, ReadU16 query 4, ReadU16 query 6, ReadU16 query 8, ReadU16 query 10) of
           (Some identifier, Some flags, Some questionCount, Some answerCount, Some authorityCount, Some additionalCount) \<Rightarrow>
             (if identifier \<noteq> 0 \<or> flags AND (kQueryResponse OR kOpcodeMask OR kTruncated) \<noteq> 0
                 \<or> questionCount \<noteq> 1 \<or> unat answerCount > kMaximumRecords
                 \<or> authorityCount \<noteq> 0 \<or> additionalCount \<noteq> 0 then []
              else
                (case DecodeName query kHeaderBytes of
                   None \<Rightarrow> []
                 | Some (name, consumed) \<Rightarrow>
                     (if name \<noteq> kHostname then []
                      else
                        (let offset = kHeaderBytes + consumed
                         in case (ReadU16 query offset, ReadU16 query (offset + 2)) of
                              (Some type_code, Some class_code) \<Rightarrow>
                                (if (type_code \<noteq> kTypeA \<and> type_code \<noteq> kTypeAny) \<or> class_code AND NOT kCacheFlush \<noteq> kClassIn
                                 then []
                                 else
                                   (case KnownAnswers_loop query address (unat answerCount) (offset + 4) False of
                                      None \<Rightarrow> []
                                    | Some (end_offset, suppressKnownAnswer) \<Rightarrow>
                                        (if end_offset \<noteq> length query \<or> suppressKnownAnswer then []
                                         else BuildARecord address kRecordTtlSeconds)))
                            | _ \<Rightarrow> []))))
         | _ \<Rightarrow> []))"

section \<open>Extracting address records\<close>

primrec SkipQuestions :: "byte list \<Rightarrow> nat \<Rightarrow> nat \<Rightarrow> nat option" where
  "SkipQuestions packet offset 0 = Some offset"
| "SkipQuestions packet offset (Suc count) =
     (case DecodeName packet offset of
        None \<Rightarrow> None
      | Some (_, consumed) \<Rightarrow>
          (if offset > length packet \<or> consumed > length packet - offset then None
           else
             (let offset1 = offset + consumed
              in if offset1 > length packet \<or> length packet - offset1 < 4 then None
                 else SkipQuestions packet (offset1 + 4) count)))"

text \<open>The loop over the records: the end offset and the addresses found.\<close>

primrec Records_loop :: "byte list \<Rightarrow> nat \<Rightarrow> nat \<Rightarrow> (nat \<times> Ipv4Address list) option" where
  "Records_loop packet offset 0 = Some (offset, [])"
| "Records_loop packet offset (Suc left) =
     (case DecodeName packet offset of
        None \<Rightarrow> None
      | Some (name, consumed) \<Rightarrow>
          (if offset > length packet \<or> consumed > length packet - offset then None
           else
             (case record_fields packet (offset + consumed) of
                None \<Rightarrow> None
              | Some (type_code, class_code, ttl, dataLength) \<Rightarrow>
                  (let data = offset + consumed + 10
                   in if data > length packet \<or> unat dataLength > length packet - data then None
                      else
                        (case Records_loop packet (data + unat dataLength) left of
                           None \<Rightarrow> None
                         | Some (end_offset, addresses) \<Rightarrow>
                             Some (end_offset,
                               (if ttl > 0 \<and> name = kHostname \<and> type_code = kTypeA
                                   \<and> class_code AND NOT kCacheFlush = kClassIn \<and> dataLength = 4
                                then [address_of_bytes (drop data packet)] else []) @ addresses))))))"

definition ExtractARecords :: "byte list \<Rightarrow> Ipv4Address list" where
  "ExtractARecords packet =
     (if length packet < kHeaderBytes \<or> length packet > kMaximumQueryBytes then []
      else
        (case (ReadU16 packet 2, ReadU16 packet 4, ReadU16 packet 6, ReadU16 packet 8, ReadU16 packet 10) of
           (Some flags, Some questionCount, Some answerCount, Some authorityCount, Some additionalCount) \<Rightarrow>
             (if flags AND (kOpcodeMask OR kTruncated) \<noteq> 0 then []
              else
                (let response = flags AND kQueryResponse \<noteq> 0;
                     knownAnswerQuery = \<not> response \<and> answerCount > 0 \<and> authorityCount = 0 \<and> additionalCount = 0;
                     probe = \<not> response \<and> answerCount = 0 \<and> authorityCount > 0 \<and> additionalCount = 0;
                     recordCount = unat answerCount + unat authorityCount + unat additionalCount
                 in if (\<not> response \<and> \<not> knownAnswerQuery \<and> \<not> probe)
                       \<or> (response \<and> answerCount = 0 \<and> authorityCount = 0 \<and> additionalCount = 0) then []
                    else if recordCount > kMaximumRecords then []
                    else
                      (case SkipQuestions packet kHeaderBytes (unat questionCount) of
                         None \<Rightarrow> []
                       | Some offset \<Rightarrow>
                           (case Records_loop packet offset recordCount of
                              None \<Rightarrow> []
                            | Some (end_offset, addresses) \<Rightarrow>
                                if end_offset \<noteq> length packet then [] else addresses))))
         | _ \<Rightarrow> []))"

section \<open>Decoding names\<close>

text \<open>Bounds of a decoded name: the decoder reads within the packet and consumes at least one byte.\<close>

lemma tolower_not_upper [simp]: "\<not> isupper (tolower c)"
  by (auto simp: tolower_def isupper_def ord_char_of)

lemma dot_not_upper: "\<not> isupper (CHR ''.'')"
  by (simp add: isupper_def ord_def)

lemma valid_tolower: "ValidLabelCharacter c \<Longrightarrow> ValidLabelCharacter (tolower c)"
  by (auto simp: ValidLabelCharacter_def isalnum_def tolower_def isupper_def islower_def isdigit_def ord_char_of)

lemma DecodeName_loop_bounds:
  assumes "DecodeName_loop packet cursor out consumed jumped visited = Some (name, c)"
    and "\<not> jumped \<Longrightarrow> cursor = offset + consumed" and "jumped \<Longrightarrow> offset + consumed \<le> length packet"
    and "list_all (\<lambda>x. ValidLabelCharacter x \<or> x = CHR ''.'') out"
    and "\<And>x. x \<in> set out \<Longrightarrow> \<not> isupper x"
  shows "name \<noteq> [] \<and> length name \<le> 253 \<and> consumed \<le> c \<and> (jumped \<or> consumed < c) \<and> offset + c \<le> length packet
     \<and> list_all (\<lambda>x. (ValidLabelCharacter x \<or> x = CHR ''.'') \<and> \<not> isupper x) name"
  using assms
proof (induction packet cursor out consumed jumped visited rule: DecodeName_loop.induct)
  case (1 packet cursor out consumed jumped visited)
  let ?b = "packet ! cursor"
  have lt: "cursor < length packet" using "1.prems"(1) by (subst (asm) DecodeName_loop.simps) (auto split: if_splits)
  show ?case
  proof (cases "?b AND 0xc0 = 0xc0")
    case True
    then show ?thesis
      using "1.prems" "1.IH"(1) [OF lt refl True] lt
      by (subst (asm) (1) DecodeName_loop.simps) (auto simp: Let_def split: if_splits)
  next
    case False
    let ?n = "unat ?b" and ?cs = "chars_of (take (unat ?b) (drop (cursor + 1) packet))"
    let ?c1 = "if jumped then consumed else consumed + 1"
    let ?out = "(if out = [] then out else out @ ''.'') @ map tolower ?cs"
    have ok: "\<not> (?b AND 0xc0 \<noteq> 0 \<or> ?b > 63)"
      using "1.prems"(1) lt False by (subst (asm) DecodeName_loop.simps) (auto simp: Let_def split: if_splits)
    show ?thesis
    proof (cases "?n = 0")
      case True
      then show ?thesis using "1.prems" lt False ok
        by (subst (asm) (1) DecodeName_loop.simps) (auto simp: Let_def list_all_iff split: if_splits)
    next
      case n: False
      have fits: "\<not> (cursor + 1 > length packet \<or> ?n > length packet - (cursor + 1))"
        and valid: "\<not> (\<not> list_all ValidLabelCharacter ?cs \<or> length ?out > 253)"
        and rec: "DecodeName_loop packet (cursor + 1 + ?n) ?out (if jumped then ?c1 else ?c1 + ?n) jumped visited = Some (name, c)"
        using "1.prems"(1) [unfolded DecodeName_loop.simps [of packet cursor out consumed jumped visited]] lt False ok n
        by (auto simp: Let_def split: if_splits)
      note ih = "1.IH"(2) [OF lt refl False ok refl refl refl n fits refl refl valid rec]
      have "list_all (\<lambda>x. ValidLabelCharacter x \<or> x = CHR ''.'') ?out"
        using "1.prems"(4) valid by (auto simp: list_all_iff valid_tolower)
      moreover have "\<And>x. x \<in> set ?out \<Longrightarrow> \<not> isupper x" using "1.prems"(5) dot_not_upper by (auto split: if_splits)
      ultimately show ?thesis using ih "1.prems"(2,3) fits by (cases jumped) auto
    qed
  qed
qed

lemma DecodeName_bounds:
  assumes "DecodeName packet offset = Some (name, consumed)"
  shows "name \<noteq> [] \<and> length name \<le> 253 \<and> 0 < consumed \<and> offset + consumed \<le> length packet
     \<and> list_all (\<lambda>x. (ValidLabelCharacter x \<or> x = CHR ''.'') \<and> \<not> isupper x) name"
  using DecodeName_loop_bounds [of packet offset "[]" 0 False "[]" name consumed offset] assms
  by (auto simp: DecodeName_def split: if_splits)

text \<open>What the decoder reads of an uncompressed name, in any letter case.\<close>

definition encode_labels :: "string list \<Rightarrow> byte list" where
  "encode_labels ls = concat (map (\<lambda>l. word_of_nat (length l) # bytes_of l) ls) @ [0]"

fun join_labels :: "string \<Rightarrow> string list \<Rightarrow> string" where
  "join_labels out [] = out"
| "join_labels out (l # ls) = join_labels ((if out = [] then out else out @ ''.'') @ map tolower l) ls"

definition valid_label :: "string \<Rightarrow> bool" where
  "valid_label l \<longleftrightarrow> l \<noteq> [] \<and> length l \<le> 63 \<and> list_all ValidLabelCharacter l"

lemma length_join_labels: "length out \<le> length (join_labels out ls)"
proof (induction ls arbitrary: out)
  case (Cons l ls)
  have "length out \<le> length ((if out = [] then out else out @ ''.'') @ map tolower l)" by simp
  also have "\<dots> \<le> length (join_labels out (l # ls))" by (simp only: join_labels.simps Cons.IH)
  finally show ?case .
qed simp

lemma label_byte:
  assumes "n \<le> 63"
  shows "unat (word_of_nat n :: byte) = n" and "\<not> (word_of_nat n :: byte) > 63"
    and "(word_of_nat n :: byte) AND 0xc0 = 0"
proof -
  show u: "unat (word_of_nat n :: byte) = n" using assms by (simp add: unat_of_nat)
  then show "\<not> (word_of_nat n :: byte) > 63" using assms by (simp add: word_less_nat_alt)
  have "take_bit 6 n = n" using assms by (simp add: take_bit_nat_eq_self)
  then have w: "(word_of_nat n :: byte) = take_bit 6 (word_of_nat n)" by (metis take_bit_of_nat)
  have "take_bit 6 v AND 0xc0 = 0" for v :: byte
  proof (rule bit_word_eqI)
    fix i assume "i < LENGTH(8)"
    moreover have "\<not> bit (0xc0 :: byte) i" if "i < 6"
      using that by (auto simp: less_Suc_eq numeral_eq_Suc bit_simps)
    ultimately show "bit (take_bit 6 v AND 0xc0) i = bit (0 :: byte) i"
      by (auto simp: bit_take_bit_iff bit_and_iff)
  qed
  with w show "(word_of_nat n :: byte) AND 0xc0 = 0" by metis
qed

lemma DecodeName_loop_labels:
  assumes "list_all valid_label ls" and "drop cursor packet = encode_labels ls @ rest"
    and "join_labels out ls \<noteq> []" and "length (join_labels out ls) \<le> 253"
  shows "DecodeName_loop packet cursor out consumed jumped visited =
     Some (join_labels out ls, if jumped then consumed else consumed + length (encode_labels ls))"
  using assms
proof (induction ls arbitrary: cursor out consumed)
  case Nil
  then have d: "drop cursor packet = 0 # rest" by (simp add: encode_labels_def)
  then have "cursor < length packet" "packet ! cursor = 0" using drop_ConsD [OF d] by simp_all
  with Nil show ?case by (subst DecodeName_loop.simps) (simp add: encode_labels_def)
next
  case (Cons l ls)
  have l: "l \<noteq> []" "length l \<le> 63" "list_all ValidLabelCharacter l" using Cons.prems(1) by (simp_all add: valid_label_def)
  note b = label_byte [OF l(2)]
  have d: "drop cursor packet = word_of_nat (length l) # bytes_of l @ encode_labels ls @ rest"
    using Cons.prems(2) by (simp add: encode_labels_def)
  from drop_ConsD [OF d] have lt: "cursor < length packet" and at: "packet ! cursor = word_of_nat (length l)"
    and d1: "drop (Suc cursor) packet = bytes_of l @ encode_labels ls @ rest" by simp_all
  have len: "length l \<le> length packet - Suc cursor" using arg_cong [OF d1, of length] by simp
  have d2: "drop (Suc cursor + length l) packet = encode_labels ls @ rest"
    using d1 by (metis drop_drop add.commute append_eq_conv_conj length_bytes_of)
  let ?out = "(if out = [] then out else out @ ''.'') @ map tolower l"
  have out: "length ?out \<le> 253" using length_join_labels [of ?out ls] Cons.prems(4) by simp
  have ih: "DecodeName_loop packet (Suc cursor + length l) ?out c jumped visited =
     Some (join_labels ?out ls, if jumped then c else c + length (encode_labels ls))" for c
    using Cons.prems d2 by (intro Cons.IH) simp_all
  have chars: "chars_of (take (length l) (drop (Suc cursor) packet)) = l"
    using d1 by simp
  have "DecodeName_loop packet cursor out consumed jumped visited =
     DecodeName_loop packet (Suc cursor + length l) ?out (if jumped then consumed else consumed + 1 + length l) jumped visited"
    using l len out lt
    by (subst DecodeName_loop.simps) (simp add: at b chars Let_def not_le del: append.simps split del: if_split cong: if_cong)
  then show ?case unfolding ih by (simp add: encode_labels_def)
qed

lemma DecodeName_labels:
  assumes "list_all valid_label ls" and "drop offset packet = encode_labels ls @ rest"
    and "join_labels [] ls \<noteq> []" and "length (join_labels [] ls) \<le> 253"
  shows "DecodeName packet offset = Some (join_labels [] ls, length (encode_labels ls))"
proof -
  have "drop offset packet \<noteq> []" using assms(2) by (simp add: encode_labels_def)
  then have "\<not> length packet \<le> offset" by auto
  then show ?thesis using DecodeName_loop_labels [OF assms, of 0 False "[]"] by (simp add: DecodeName_def)
qed

text \<open>A compressed name: a pointer to an uncompressed one elsewhere in the packet.\<close>

lemma DecodeName_pointer:
  assumes "drop offset packet = 0xc0 # p # rest" and "drop (unat p) packet = encode_labels ls @ rest'"
    and "list_all valid_label ls" and "join_labels [] ls \<noteq> []" and "length (join_labels [] ls) \<le> 253"
  shows "DecodeName packet offset = Some (join_labels [] ls, 2)"
proof -
  from drop_ConsD [OF assms(1)] have o: "offset < length packet" "packet ! offset = 0xc0"
    and d: "drop (Suc offset) packet = p # rest" by simp_all
  from drop_ConsD [OF d] have p: "Suc offset < length packet" "packet ! Suc offset = p" by simp_all
  have "drop (unat p) packet \<noteq> []" using assms(2) by (simp add: encode_labels_def)
  then have t: "unat p < length packet" by auto
  have u: "unat (ucast p :: u64) = unat p"
    by (simp add: unsigned_ucast_eq take_bit_nat_eq_self unsigned_less [THEN less_le_trans])
  have "DecodeName_loop packet (unat p) '''' 2 True [unat p] = Some (join_labels [] ls, 2)"
    using DecodeName_loop_labels [OF assms(3,2,4,5), of 2 True] by simp
  then show ?thesis
    using o p t by (simp add: DecodeName_def, subst DecodeName_loop.simps) (simp add: u kMaximumPointerJumps_def numeral_2_eq_2 Let_def)
qed

definition hostname_labels :: "string list" where
  "hostname_labels = [''harmony-web-companion'', ''local'']"

lemma hostname_labels_valid:
  "list_all valid_label hostname_labels" "join_labels [] hostname_labels = kHostname"
  "kHostname \<noteq> []" "length kHostname = 27"
  by (simp_all add: hostname_labels_def valid_label_def ValidLabelCharacter_def isalnum_def isdigit_def
      isupper_def islower_def ord_def kHostname_def tolower_def)

lemma EncodedHostname_labels: "EncodedHostname = encode_labels hostname_labels"
  by (simp add: EncodedHostname_def kHostname_def Encoded_loop.simps find_from_def Let_def substr_def
      encode_labels_def hostname_labels_def)

lemma length_EncodedHostname [simp, wire_layout]: "length EncodedHostname = 29"
  by (simp add: EncodedHostname_labels encode_labels_def hostname_labels_def)

lemma DecodeName_hostname:
  assumes "drop offset packet = EncodedHostname @ rest"
  shows "DecodeName packet offset = Some (kHostname, 29)"
  using DecodeName_labels [OF hostname_labels_valid(1), of offset packet rest] assms
  by (simp add: EncodedHostname_labels [symmetric] hostname_labels_valid)

lemma DecodeName_hostname_pointer:
  assumes "drop offset packet = 0xc0 # p # rest" and "drop (unat p) packet = EncodedHostname @ rest'"
  shows "DecodeName packet offset = Some (kHostname, 2)"
  using DecodeName_pointer [OF assms(1) _ hostname_labels_valid(1), of rest'] assms(2)
  by (simp add: EncodedHostname_labels [symmetric] hostname_labels_valid)

section \<open>Records\<close>

lemma ReadU16_layout:
  assumes "drop offset packet = be_put16 v @ rest"
  shows "ReadU16 packet offset = Some v"
proof -
  have "length (drop offset packet) \<ge> 2" by (simp only: assms) simp
  then have "\<not> (offset > length packet \<or> length packet - offset < 2)" by auto
  moreover have "be_get16 packet offset = v" by (rule be_get16_layout) (simp add: assms)
  ultimately show ?thesis by (simp add: ReadU16_def)
qed

lemma ReadU32_layout:
  assumes "drop offset packet = be_put32 v @ rest"
  shows "ReadU32 packet offset = Some v"
proof -
  have "length (drop offset packet) \<ge> 4" by (simp only: assms) simp
  then have "\<not> (offset > length packet \<or> length packet - offset < 4)" by auto
  moreover have "be_get32 packet offset = v" by (rule be_get32_layout) (simp add: assms)
  ultimately show ?thesis by (simp add: ReadU32_def)
qed

lemma drop_add_append: "drop n xs = ys @ zs \<Longrightarrow> length ys = k \<Longrightarrow> drop (n + k) xs = zs"
  by (metis add.commute append_eq_conv_conj drop_drop)

lemma record_fields_layout:
  assumes "drop offset packet = be_put16 t @ be_put16 c @ be_put32 ttl @ be_put16 n @ rest"
  shows "record_fields packet offset = Some (t, c, ttl, n)" and "drop (offset + 10) packet = rest"
proof -
  have d2: "drop (offset + 2) packet = be_put16 c @ be_put32 ttl @ be_put16 n @ rest"
    by (rule drop_add_append [OF assms]) simp
  have d4: "drop (offset + 4) packet = be_put32 ttl @ be_put16 n @ rest"
    using drop_add_append [OF d2, of "2"] by (simp add: numeral_eq_Suc)
  have d8: "drop (offset + 8) packet = be_put16 n @ rest"
    using drop_add_append [OF d4, of "4"] by (simp add: numeral_eq_Suc)
  show "drop (offset + 10) packet = rest" using drop_add_append [OF d8, of "2"] by (simp add: numeral_eq_Suc)
  show "record_fields packet offset = Some (t, c, ttl, n)"
    unfolding record_fields_def ReadU16_layout [OF assms] ReadU16_layout [OF d2] ReadU32_layout [OF d4]
      ReadU16_layout [OF d8] by simp
qed

lemma length_address_bytes [simp]: "length (address_bytes a) = 4"
  by (cases a) simp

lemma address_of_address_bytes [simp]: "address_of_bytes (address_bytes a @ rest) = a"
  by (cases a) (simp add: address_of_bytes_def)

lemma address_bytes_inject [simp]: "address_bytes a = address_bytes b \<longleftrightarrow> a = b"
  by (cases a; cases b) simp

text \<open>An address record of the receiver's host name, as a name server renders it.\<close>

definition render_record :: "u16 \<Rightarrow> Ipv4Address \<times> u32 \<Rightarrow> byte list" where
  "render_record c r = EncodedHostname @ be_put16 kTypeA @ be_put16 c @ be_put32 (snd r) @ be_put16 4
     @ address_bytes (fst r)"

lemma length_render_record [simp]: "length (render_record c r) = 43"
  by (simp add: render_record_def)

lemma Records_loop_Suc:
  assumes "drop offset packet = nm @ be_put16 kTypeA @ be_put16 c @ be_put32 ttl @ be_put16 4 @ address_bytes a @ rest"
    and "DecodeName packet offset = Some (kHostname, length nm)" and "c AND NOT kCacheFlush = kClassIn"
  shows "Records_loop packet offset (Suc n) =
     (case Records_loop packet (offset + length nm + 14) n of
        None \<Rightarrow> None
      | Some (e, as) \<Rightarrow> Some (e, (if ttl > 0 then [a] else []) @ as))"
proof -
  have d: "drop (offset + length nm) packet
      = be_put16 kTypeA @ be_put16 c @ be_put32 ttl @ be_put16 4 @ address_bytes a @ rest"
    by (rule drop_add_append [OF assms(1)]) simp
  note rf = record_fields_layout [OF d]
  have "length (drop (offset + length nm + 10) packet) \<ge> 4" by (simp only: rf(2)) simp
  then have len: "offset + length nm + 10 \<le> length packet" "4 \<le> length packet - (offset + length nm + 10)"
    unfolding length_drop by arith+
  moreover from this have "\<not> (offset > length packet \<or> length nm > length packet - offset)" by arith
  ultimately show ?thesis
    using assms(2,3) rf by (simp add: add.assoc split: option.split)
qed


lemma class_in_flush: "kClassIn AND NOT kCacheFlush = kClassIn" "(kClassIn OR kCacheFlush) AND NOT kCacheFlush = kClassIn"
  by (simp_all add: mdns_constants)

lemma Records_loop_render:
  assumes "c AND NOT kCacheFlush = kClassIn" and "drop offset packet = concat (map (render_record c) rs) @ rest"
  shows "Records_loop packet offset (length rs)
       = Some (offset + 43 * length rs, map fst (filter (\<lambda>r. snd r > 0) rs))"
  using assms(2)
proof (induction rs arbitrary: offset)
  case (Cons r rs)
  have d: "drop offset packet = EncodedHostname @ be_put16 kTypeA @ be_put16 c @ be_put32 (snd r) @ be_put16 4
      @ address_bytes (fst r) @ concat (map (render_record c) rs) @ rest"
    using Cons.prems by (simp add: render_record_def [of c r])
  have "drop (offset + 43) packet = concat (map (render_record c) rs) @ rest"
    by (rule drop_add_append [of _ _ "render_record c r"]) (use Cons.prems in simp_all)
  from Cons.IH [OF this] show ?case
    using Records_loop_Suc [OF d _ assms(1), of "length rs"] DecodeName_hostname [OF d] by (auto simp: add.assoc)
qed simp

lemma KnownAnswers_loop_render:
  assumes "c AND NOT kCacheFlush = kClassIn" and "drop offset packet = concat (map (render_record c) rs) @ rest"
  shows "KnownAnswers_loop packet address (length rs) offset suppress
       = Some (offset + 43 * length rs, suppress \<or> (\<exists>r\<in>set rs. fst r = address \<and> snd r \<ge> 60))"
  using assms(2)
proof (induction rs arbitrary: offset suppress)
  case (Cons r rs)
  have d: "drop offset packet = EncodedHostname @ be_put16 kTypeA @ be_put16 c @ be_put32 (snd r) @ be_put16 4
      @ address_bytes (fst r) @ concat (map (render_record c) rs) @ rest"
    using Cons.prems by (simp add: render_record_def [of c r])
  have nm: "DecodeName packet offset = Some (kHostname, 29)" by (rule DecodeName_hostname [OF d])
  have "drop (offset + 29) packet = be_put16 kTypeA @ be_put16 c @ be_put32 (snd r) @ be_put16 4
      @ address_bytes (fst r) @ concat (map (render_record c) rs) @ rest"
    by (rule drop_add_append [OF d]) simp
  note rf = record_fields_layout [OF this]
  have next_rec: "drop (offset + 43) packet = concat (map (render_record c) rs) @ rest"
    by (rule drop_add_append [of _ _ "render_record c r"]) (use Cons.prems in simp_all)
  have "length packet - offset \<ge> 43" using arg_cong [OF Cons.prems, of length] by simp
  then have len: "\<not> length packet < offset" "\<not> length packet - offset < 29"
    "\<not> length packet < offset + 39" "\<not> length packet - (offset + 39) < 4" by arith+
  have half: "kRecordTtlSeconds div 2 = 60" by (simp add: kRecordTtlSeconds_def)
  show ?case
    using Cons.IH [OF next_rec, of "suppress \<or> fst r = address \<and> snd r \<ge> 60"] len rf nm assms(1)
    by (simp add: half Let_def add.assoc disj_assoc ex_disj_distrib)
qed simp

section \<open>Whole messages\<close>

text \<open>The header of a message with the given flags and section counts.\<close>

definition render_header :: "u16 \<Rightarrow> nat \<Rightarrow> nat \<Rightarrow> nat \<Rightarrow> nat \<Rightarrow> byte list" where
  "render_header fl qd an ns ar = [0, 0] @ be_put16 fl @ be_put16 (word_of_nat qd) @ be_put16 (word_of_nat an)
     @ be_put16 (word_of_nat ns) @ be_put16 (word_of_nat ar)"

lemma length_render_header [simp, wire_layout]: "length (render_header fl qd an ns ar) = 12"
  by (simp add: render_header_def)

lemma render_header_reads:
  fixes fl qd an ns ar rest
  defines "m \<equiv> render_header fl qd an ns ar @ rest"
  shows "ReadU16 m 0 = Some 0" "ReadU16 m 2 = Some fl" "ReadU16 m 4 = Some (word_of_nat qd)"
    "ReadU16 m 6 = Some (word_of_nat an)" "ReadU16 m 8 = Some (word_of_nat ns)" "ReadU16 m 10 = Some (word_of_nat ar)"
    "drop kHeaderBytes m = rest"
proof -
  have zero: "[0, 0] = be_put16 0" by (simp add: be_put16_def)
  show "ReadU16 m 0 = Some 0" "ReadU16 m 2 = Some fl" "ReadU16 m 4 = Some (word_of_nat qd)"
    "ReadU16 m 6 = Some (word_of_nat an)" "ReadU16 m 8 = Some (word_of_nat ns)" "ReadU16 m 10 = Some (word_of_nat ar)"
    by (rule ReadU16_layout; simp add: m_def render_header_def zero)+
  show "drop kHeaderBytes m = rest" by (simp add: m_def kHeaderBytes_def)
qed

definition render_query :: "byte list \<Rightarrow> u16 \<Rightarrow> u16 \<Rightarrow> (Ipv4Address \<times> u32) list \<Rightarrow> byte list" where
  "render_query nm t c rs = render_header 0 1 (length rs) 0 0 @ nm @ be_put16 t @ be_put16 c
     @ concat (map (render_record (kClassIn OR kCacheFlush)) rs)"

lemma twelve_zeros: "replicate kHeaderBytes (0 :: byte) = [0, 0, 0, 0, 0, 0, 0, 0, 0, 0, 0, 0]"
  by (simp add: kHeaderBytes_def numeral_eq_Suc)

lemma header_bytes:
  "[0, 0, 0, 0, 0, 1, 0, 0, 0, 0, 0, 0] = render_header 0 1 0 0 0"
  "[0, 0, 0, 0, 0, 1, 0, 0, 0, 1, 0, 0] = render_header 0 1 0 1 0"
  "[0, 0, 0x84, 0, 0, 0, 0, 1, 0, 0, 0, 0] = render_header 0x8400 0 1 0 0"
  by (simp_all add: render_header_def be_put16_def)

lemma BuildAQuery_render: "BuildAQuery = render_query EncodedHostname kTypeA kClassIn []"
  unfolding BuildAQuery_def render_query_def twelve_zeros
  by (simp add: header_bytes(1) [unfolded One_nat_def, symmetric])

lemma BuildARecord_render:
  "BuildARecord a ttl = render_header 0x8400 0 1 0 0 @ render_record (kClassIn OR kCacheFlush) (a, ttl)"
proof -
  have fl: "ucast (drop_bit 8 (kQueryResponse OR kAuthoritative)) = (0x84 :: byte)"
    "ucast ((kQueryResponse OR kAuthoritative) AND 0xff) = (0 :: byte)"
    by (simp_all add: kQueryResponse_def kAuthoritative_def)
  show ?thesis
    unfolding BuildARecord_def Let_def twelve_zeros fl
    by (simp add: header_bytes(3) [unfolded One_nat_def, symmetric] render_record_def kMaximumResponseBytes_def)
qed

lemma BuildAProbe_render:
  "BuildAProbe a = render_header 0 1 0 1 0 @ EncodedHostname @ be_put16 kTypeAny @ be_put16 kClassIn
     @ [0xc0, 0x0c] @ be_put16 kTypeA @ be_put16 kClassIn @ be_put32 kRecordTtlSeconds @ be_put16 4 @ address_bytes a"
proof -
  have q: "BuildAQuery = [0, 0, 0, 0, 0, 1, 0, 0, 0, 0, 0, 0] @ EncodedHostname @ [0, 1] @ be_put16 kClassIn"
    unfolding BuildAQuery_def twelve_zeros by (simp add: be_put16_def kTypeA_def)
  have "BuildAQuery[length BuildAQuery - 4 := 0x00, length BuildAQuery - 3 := 0xff, 9 := 1]
      = [0, 0, 0, 0, 0, 1, 0, 0, 0, 1, 0, 0] @ EncodedHostname @ [0, 0xff] @ be_put16 kClassIn"
    unfolding q by (simp add: list_update_append)
  moreover have len: "length BuildAQuery = 45" by (simp add: q)
  moreover have "[0, 0xff] = be_put16 kTypeAny" by (simp add: be_put16_def kTypeAny_def)
  ultimately show ?thesis
    using len by (simp add: BuildAProbe_def Let_def header_bytes(2) [unfolded One_nat_def, symmetric] kMaximumResponseBytes_def)
qed

lemma length_built [simp]:
  "length BuildAQuery = 45" "length (BuildARecord a ttl) = 55" "length (BuildAProbe a) = 61"
  by (simp_all add: BuildAQuery_render render_query_def BuildARecord_render BuildAProbe_render)

lemma ClassifyMessage_header:
  assumes "12 + length rest \<le> 512"
  shows "ClassifyMessage (render_header fl qd an ns ar @ rest) =
     (if fl AND (kOpcodeMask OR kTruncated) \<noteq> 0 then kInvalid
      else if fl AND kQueryResponse \<noteq> 0
      then (if unat (word_of_nat an :: u16) + unat (word_of_nat ns :: u16) + unat (word_of_nat ar :: u16) > 0 then kResponse else kInvalid)
      else if (word_of_nat qd :: u16) \<noteq> 1 then kInvalid
      else if (word_of_nat ns :: u16) > 0 then kProbe else kQuery)"
  using assms render_header_reads [of fl qd an ns ar rest]
  by (simp add: ClassifyMessage_def kHeaderBytes_def kMaximumQueryBytes_def)

lemma flag_masks:
  "(0 :: u16) AND x = 0" "(0x8400 :: u16) AND (kOpcodeMask OR kTruncated) = 0" "(0x8400 :: u16) AND kQueryResponse \<noteq> 0"
  "kOpcodeMask OR kTruncated = 0x7a00" "kQueryResponse OR kOpcodeMask OR kTruncated = 0xfa00"
  by (simp_all add: mdns_constants)

lemma ClassifyMessage_built:
  "ClassifyMessage BuildAQuery = kQuery" "ClassifyMessage (BuildAProbe a) = kProbe"
  "ClassifyMessage (BuildARecord a ttl) = kResponse"
  by (simp_all add: BuildAQuery_render render_query_def BuildARecord_render BuildAProbe_render
      ClassifyMessage_header flag_masks(1-3) word_less_nat_alt)

lemma BuildAResponse_step:
  assumes "\<not> length q < kHeaderBytes" "\<not> kMaximumQueryBytes < length q"
    and "ReadU16 q 0 = Some 0" "ReadU16 q 2 = Some fl" "ReadU16 q 4 = Some qd" "ReadU16 q 6 = Some an"
      "ReadU16 q 8 = Some ns" "ReadU16 q 10 = Some ar"
    and "fl AND (kQueryResponse OR kOpcodeMask OR kTruncated) = 0" "qd = 1" "\<not> unat an > kMaximumRecords"
      "ns = 0" "ar = 0"
    and "DecodeName q kHeaderBytes = Some (nm, n)" "nm = kHostname"
    and "ReadU16 q (kHeaderBytes + n) = Some t" "ReadU16 q (kHeaderBytes + n + 2) = Some c"
    and "t = kTypeA \<or> t = kTypeAny" "c AND NOT kCacheFlush = kClassIn"
    and "KnownAnswers_loop q a (unat an) (kHeaderBytes + n + 4) False = Some (length q, s)"
  shows "BuildAResponse q a = (if s then [] else BuildARecord a kRecordTtlSeconds)"
  using assms by (auto simp: BuildAResponse_def Let_def)

lemma BuildAResponse_render:
  assumes "list_all valid_label ls" and "join_labels [] ls = kHostname"
    and "t = kTypeA \<or> t = kTypeAny" and "c AND NOT kCacheFlush = kClassIn"
    and "length rs \<le> 16" and "length (render_query (encode_labels ls) t c rs) \<le> 512"
  shows "BuildAResponse (render_query (encode_labels ls) t c rs) a =
     (if \<exists>r\<in>set rs. fst r = a \<and> snd r \<ge> 60 then [] else BuildARecord a kRecordTtlSeconds)"
proof -
  let ?nm = "encode_labels ls" and ?rs = "concat (map (render_record (kClassIn OR kCacheFlush)) rs)"
  let ?tail = "?nm @ be_put16 t @ be_put16 c @ ?rs"
  let ?q = "render_header 0 1 (length rs) 0 0 @ ?tail"
  note rd = render_header_reads [of 0 1 "length rs" 0 0 ?tail]
  have q: "render_query ?nm t c rs = ?q" by (simp add: render_query_def)
  have an: "unat (word_of_nat (length rs) :: u16) = length rs" using assms(5) by (simp add: unat_of_nat)
  have nm: "DecodeName ?q kHeaderBytes = Some (kHostname, length ?nm)"
    using DecodeName_labels [OF assms(1) rd(7)] assms(2) hostname_labels_valid(3,4) by simp
  have d1: "drop (kHeaderBytes + length ?nm) ?q = be_put16 t @ be_put16 c @ ?rs"
    by (rule drop_add_append [OF rd(7)]) simp
  have d2: "drop (kHeaderBytes + length ?nm + 2) ?q = be_put16 c @ ?rs"
    by (rule drop_add_append [OF d1]) simp
  have d3: "drop (kHeaderBytes + length ?nm + 4) ?q = ?rs @ []"
    using drop_add_append [OF d2, of "2"] by (simp add: numeral_eq_Suc)
  have kn: "KnownAnswers_loop ?q a (length rs) (kHeaderBytes + length ?nm + 4) False
      = Some (kHeaderBytes + length ?nm + 4 + 43 * length rs, \<exists>r\<in>set rs. fst r = a \<and> snd r \<ge> 60)"
    using KnownAnswers_loop_render [OF class_in_flush(2) d3] by simp
  have len: "length ?q = kHeaderBytes + length ?nm + 4 + 43 * length rs"
    using arg_cong [OF d3, of length] by (simp add: kHeaderBytes_def length_concat comp_def sum_list_triv)
  have bounds: "\<not> length ?q < kHeaderBytes" "\<not> kMaximumQueryBytes < length ?q" "\<not> kMaximumRecords < length rs"
    using assms(5,6) by (simp_all add: q kHeaderBytes_def kMaximumQueryBytes_def kMaximumRecords_def)
  have flags: "(0 :: u16) AND x = 0" for x by simp
  show ?thesis
    unfolding q
    by (rule BuildAResponse_step [OF bounds(1,2) rd(1-6) flags _ _ _ _ nm _ ReadU16_layout [OF d1]
          ReadU16_layout [OF d2] assms(3,4)])
       (use bounds(3) kn in \<open>simp_all only: an len, simp_all\<close>)
qed


text \<open>Only a plain query is answered, and only with the receiver's own record.\<close>

lemma or_mask_zero: "(f :: u16) AND (x OR y OR z) = 0 \<longleftrightarrow> f AND x = 0 \<and> f AND (y OR z) = 0"
  by (simp add: bit.conj_disj_distrib or_eq_0_iff)

lemma BuildAResponse_only:
  assumes "BuildAResponse q a \<noteq> []"
  shows "BuildAResponse q a = BuildARecord a kRecordTtlSeconds" and "ClassifyMessage q = kQuery"
proof -
  show "BuildAResponse q a = BuildARecord a kRecordTtlSeconds"
    using assms by (auto simp: BuildAResponse_def Let_def split: option.splits if_splits prod.splits)
  show "ClassifyMessage q = kQuery"
  proof (cases "\<exists>i f qd an ns ar. (ReadU16 q 0, ReadU16 q 2, ReadU16 q 4, ReadU16 q 6, ReadU16 q 8, ReadU16 q 10)
      = (Some i, Some f, Some qd, Some an, Some ns, Some ar)")
    case True
    then obtain i f qd an ns ar where r: "ReadU16 q 0 = Some i" "ReadU16 q 2 = Some f" "ReadU16 q 4 = Some qd"
        "ReadU16 q 6 = Some an" "ReadU16 q 8 = Some ns" "ReadU16 q 10 = Some ar" by blast
    have "\<not> length q < kHeaderBytes" "\<not> kMaximumQueryBytes < length q"
      "f AND (kQueryResponse OR kOpcodeMask OR kTruncated) = 0" "qd = 1" "ns = 0"
      using assms by (auto simp: BuildAResponse_def r split: if_splits)
    then show ?thesis by (simp add: ClassifyMessage_def r or_mask_zero)
  next
    case False
    then show ?thesis using assms by (auto simp: BuildAResponse_def split: option.splits if_splits)
  qed
qed

section \<open>Extraction from the receiver's own messages\<close>

lemma ExtractARecords_step:
  assumes "\<not> length q < kHeaderBytes" "\<not> kMaximumQueryBytes < length q"
    and "ReadU16 q 2 = Some fl" "ReadU16 q 4 = Some qd" "ReadU16 q 6 = Some an"
      "ReadU16 q 8 = Some ns" "ReadU16 q 10 = Some ar"
    and "fl AND (kOpcodeMask OR kTruncated) = 0"
    and "fl AND kQueryResponse \<noteq> 0 \<and> 0 < an \<or> fl AND kQueryResponse = 0 \<and> an = 0 \<and> 0 < ns \<and> ar = 0"
    and "\<not> unat an + unat ns + unat ar > kMaximumRecords"
    and "SkipQuestions q kHeaderBytes (unat qd) = Some offset"
    and "Records_loop q offset (unat an + unat ns + unat ar) = Some (length q, as)"
  shows "ExtractARecords q = as"
  using assms by (auto simp: ExtractARecords_def Let_def)

lemma ExtractARecords_BuildARecord: "ExtractARecords (BuildARecord a ttl) = (if ttl = 0 then [] else [a])"
proof -
  let ?r = "[(a, ttl)]"
  have q: "BuildARecord a ttl = render_header 0x8400 0 1 0 0 @ concat (map (render_record (kClassIn OR kCacheFlush)) ?r)"
    by (simp add: BuildARecord_render)
  note rd = render_header_reads [of "0x8400" 0 1 0 0 "concat (map (render_record (kClassIn OR kCacheFlush)) ?r)", folded q]
  have rec: "Records_loop (BuildARecord a ttl) kHeaderBytes 1 = Some (55, map fst (filter (\<lambda>r. snd r > 0) ?r))"
    using Records_loop_render [OF class_in_flush(2), of kHeaderBytes "BuildARecord a ttl" ?r "[]"] rd(7)
    by (simp add: kHeaderBytes_def)
  have "ExtractARecords (BuildARecord a ttl) = map fst (filter (\<lambda>r. snd r > 0) ?r)"
    by (rule ExtractARecords_step [OF _ _ rd(2-6)])
       (use rec in \<open>simp_all add: kHeaderBytes_def kMaximumQueryBytes_def kMaximumRecords_def flag_masks(2,3)\<close>)
  then show ?thesis by (auto simp: word_gt_0)
qed

lemma ExtractARecords_BuildAProbe: "ExtractARecords (BuildAProbe a) = [a]"
proof -
  let ?rec = "[0xc0, 0x0c] @ be_put16 kTypeA @ be_put16 kClassIn @ be_put32 kRecordTtlSeconds @ be_put16 4 @ address_bytes a"
  let ?tail = "EncodedHostname @ be_put16 kTypeAny @ be_put16 kClassIn @ ?rec"
  let ?p = "BuildAProbe a"
  have q: "?p = render_header 0 1 0 1 0 @ ?tail" by (simp add: BuildAProbe_render)
  note rd = render_header_reads [of 0 1 0 1 0 ?tail, folded q]
  have nm: "DecodeName ?p kHeaderBytes = Some (kHostname, 29)" by (rule DecodeName_hostname [OF rd(7)])
  then have sk: "SkipQuestions ?p kHeaderBytes 1 = Some 45" by (simp add: kHeaderBytes_def)
  have d: "drop 45 ?p = ?rec"
  proof -
    have "drop (kHeaderBytes + 33) ?p = ?rec"
      by (rule drop_add_append [of _ _ "EncodedHostname @ be_put16 kTypeAny @ be_put16 kClassIn"]) (use rd(7) in simp_all)
    then show ?thesis by (simp add: kHeaderBytes_def)
  qed
  have nm2: "DecodeName ?p 45 = Some (kHostname, 2)"
  proof (rule DecodeName_hostname_pointer)
    show "drop 45 ?p = 0xc0 # 0x0c # be_put16 kTypeA @ be_put16 kClassIn @ be_put32 kRecordTtlSeconds @ be_put16 4 @ address_bytes a"
      unfolding d by simp
    show "drop (unat (0x0c :: byte)) ?p = EncodedHostname @ be_put16 kTypeAny @ be_put16 kClassIn @ ?rec"
      using rd(7) by (simp add: kHeaderBytes_def)
  qed
  have "Records_loop ?p 45 (Suc 0) = Some (61, [a])"
    using Records_loop_Suc [of 45 ?p "[0xc0, 0x0c]" kClassIn kRecordTtlSeconds a "[]" 0] d nm2 class_in_flush(1)
    by (simp add: kRecordTtlSeconds_def)
  then show ?thesis
    by (intro ExtractARecords_step [OF _ _ rd(2-6)])
       (use sk in \<open>simp_all add: kHeaderBytes_def kMaximumQueryBytes_def kMaximumRecords_def\<close>)
qed

section \<open>Dotted decimal\<close>

fun dotted :: "byte list \<Rightarrow> string" where
  "dotted [] = []"
| "dotted [b] = dec (unat b)"
| "dotted (b # bs) = dec (unat b) @ ''.'' @ dotted bs"

lemma parse_part_iff: "parse_part p = Some b \<longleftrightarrow> p = dec (unat b)"
proof
  assume p: "p = dec (unat b)"
  have b: "unat b < 256" using unsigned_less [of b] by simp
  then have "length p \<le> 3" unfolding p by (intro length_dec_le) simp_all
  moreover have "from_chars_unsigned 10 (2 ^ 32 - 1) p = Some (unat b, length p)"
    using from_chars_unsigned_dec [of "unat b" "2 ^ 32 - 1" "[]"] b p by simp
  moreover have "\<not> (length p > 1 \<and> hd p = CHR ''0'')"
    unfolding p using dec_no_leading_zero [of "unat b"] by auto
  ultimately show "parse_part p = Some b" using b by (simp add: parse_part_def p)
next
  assume "parse_part p = Some b"
  then obtain v where v: "from_chars_unsigned 10 (2 ^ 32 - 1) p = Some (v, length p)" "v \<le> 255"
      "p \<noteq> []" "length p > 1 \<longrightarrow> hd p \<noteq> CHR ''0''" "b = word_of_nat v"
    by (auto simp: parse_part_def split: if_splits option.splits)
  note w = from_chars_unsigned_whole [OF v(1)]
  have "unat b = v" using v(2,5) by (simp add: unat_of_nat)
  then show "p = dec (unat b)" using dec_digits_value [OF w(1,3) v(4)] w(2) by simp
qed

lemma find_from_char:
  assumes "start \<le> length s"
  shows "find_from s [c] start = Some e \<longleftrightarrow> (\<exists>p q. drop start s = p @ c # q \<and> c \<notin> set p \<and> e = start + length p)"
    and "find_from s [c] start = None \<longleftrightarrow> c \<notin> set (drop start s)"
  using assms by (auto simp: find_from_def find_sub_char_Some find_sub_char_None)

lemma dec_no_dot: "CHR ''.'' \<notin> set (dec n)"
  using dec_digits [of "CHR ''.''" n] by (auto simp: isdigit_def ord_def)

lemma ParseIpv4_loop_iff:
  assumes "index + left = 4" and "left \<noteq> 0" and "start \<le> length str"
  shows "ParseIpv4_loop str index left start = Some (bs, e) \<longleftrightarrow>
     length bs = left \<and> e = length str \<and> drop start str = dotted bs"
  using assms
proof (induction left arbitrary: index start bs)
  case (Suc left)
  show ?case
  proof (cases "left = 0")
    case True
    then have "index = 3" using Suc.prems by simp
    show ?thesis
    proof (cases "find_from str ''.'' start")
      case None
      then have "ParseIpv4_loop str index (Suc left) start = Some (bs, e) \<longleftrightarrow>
          (\<exists>b. bs = [b] \<and> e = length str \<and> drop start str = dec (unat b))"
        using True \<open>index = 3\<close> by (auto simp: substr_def case_option_Some parse_part_iff)
      also have "\<dots> \<longleftrightarrow> length bs = Suc left \<and> e = length str \<and> drop start str = dotted bs"
        using True by (auto simp: length_Suc_conv)
      finally show ?thesis .
    next
      case (Some d)
      then have "CHR ''.'' \<in> set (drop start str)" using find_from_char(2) [OF Suc.prems(3), of "CHR ''.''"] by auto
      moreover have "CHR ''.'' \<notin> set (dotted bs)" if "length bs = 1"
        using that dec_no_dot by (auto simp: length_Suc_conv)
      ultimately show ?thesis using True \<open>index = 3\<close> Some by auto
    qed
  next
    case False
    then obtain l where l: "left = Suc l" by (cases left) auto
    have i: "index + 1 < 4" "index + 1 + left = 4" using Suc.prems l by simp_all
    show ?thesis
    proof (cases "find_from str ''.'' start")
      case None
      then have "CHR ''.'' \<notin> set (drop start str)" using find_from_char(2) [OF Suc.prems(3), of "CHR ''.''"] by simp
      moreover have "CHR ''.'' \<in> set (dotted bs)" if "length bs = Suc (Suc l)"
        using that by (cases bs rule: dotted.cases) auto
      ultimately show ?thesis using None i(1) l by auto
    next
      case (Some d)
      then obtain p q where pq: "drop start str = p @ CHR ''.'' # q" "CHR ''.'' \<notin> set p" "d = start + length p"
        using find_from_char(1) [OF Suc.prems(3), of "CHR ''.''" d] by auto
      have part: "substr str start (d - start) = p" using pq by (simp add: substr_def)
      have "drop (start + length (p @ ''.'')) str = q" using pq(1) by (metis append.assoc append_Cons append_Nil append_eq_conv_conj drop_drop add.commute)
      then have rest: "drop (d + 1) str = q" using pq(3) by simp
      have le: "d + 1 \<le> length str" using arg_cong [OF pq(1), of length] pq(3) Suc.prems(3) by simp
      note ih = Suc.IH [OF i(2) False le, unfolded rest]
      have "ParseIpv4_loop str index (Suc left) start = Some (bs, e) \<longleftrightarrow>
          (\<exists>b bs'. bs = b # bs' \<and> p = dec (unat b) \<and> ParseIpv4_loop str (index + 1) left (d + 1) = Some (bs', e))"
        using i(1) by (auto simp: Some part case_option_Some parse_part_iff)
      also have "\<dots> \<longleftrightarrow> length bs = Suc left \<and> e = length str \<and> drop start str = dotted bs"
        unfolding ih pq(1)
        using l pq(2) dec_no_dot
        by (cases bs rule: dotted.cases) (auto simp: split_at_separator)
      finally show ?thesis .
    qed
  qed
qed simp

fun address_text :: "Ipv4Address \<Rightarrow> string" where
  "address_text (Ipv4Address a b c d) =
     dec (unat a) @ ''.'' @ dec (unat b) @ ''.'' @ dec (unat c) @ ''.'' @ dec (unat d)"

lemma ParseIpv4Address_iff: "ParseIpv4Address str = Some x \<longleftrightarrow> str = address_text x"
proof -
  obtain a b c d where x: "x = Ipv4Address a b c d" by (cases x)
  have "ParseIpv4Address str = Some x \<longleftrightarrow> str \<noteq> [] \<and> (\<exists>bs. length bs = 4 \<and> str = dotted bs \<and> address_of_bytes bs = x)"
    using ParseIpv4_loop_iff [of 0 4 0 str] by (auto simp: ParseIpv4Address_def case_option_Some split: if_splits)
  also have "\<dots> \<longleftrightarrow> str = address_text x"
  proof
    assume "str \<noteq> [] \<and> (\<exists>bs. length bs = 4 \<and> str = dotted bs \<and> address_of_bytes bs = x)"
    then show "str = address_text x"
      by (auto simp: x address_of_bytes_def eval_nat_numeral length_Suc_conv)
  next
    assume "str = address_text x"
    then show "str \<noteq> [] \<and> (\<exists>bs. length bs = 4 \<and> str = dotted bs \<and> address_of_bytes bs = x)"
      by (intro conjI exI [of _ "[a, b, c, d]"]) (simp_all add: x address_of_bytes_def)
  qed
  finally show ?thesis .
qed

section \<open>The order of addresses\<close>

lemma compare_loop_refl: "compare_loop xs xs = 0"
  by (induction xs) auto

lemma compare_loop_zero: "length xs = length ys \<Longrightarrow> compare_loop xs ys = 0 \<longleftrightarrow> xs = ys"
  by (induction xs ys rule: list_induct2) auto

lemma compare_loop_swap: "compare_loop ys xs = - compare_loop xs ys"
  by (induction xs ys rule: compare_loop.induct) auto

lemma compare_loop_values: "compare_loop xs ys \<in> {-1, 0, 1}"
  by (induction xs ys rule: compare_loop.induct) auto

lemma compare_loop_trans:
  "\<lbrakk>length xs = length ys; length ys = length zs; compare_loop xs ys \<le> 0; compare_loop ys zs \<le> 0\<rbrakk>
   \<Longrightarrow> compare_loop xs zs \<le> 0"
proof (induction xs ys arbitrary: zs rule: list_induct2)
  case (Cons x xs y ys)
  then obtain z zs' where z: "zs = z # zs'" "length ys = length zs'" by (cases zs) auto
  show ?case using Cons.prems Cons.IH [OF z(2)] by (auto simp: z(1) split: if_splits)
qed simp

lemma CompareAddresses_zero: "CompareAddresses a b = 0 \<longleftrightarrow> a = b"
  by (simp add: CompareAddresses_def compare_loop_zero)

instantiation Ipv4Address :: linorder
begin

definition less_eq_Ipv4Address :: "Ipv4Address \<Rightarrow> Ipv4Address \<Rightarrow> bool" where
  "less_eq_Ipv4Address a b \<longleftrightarrow> CompareAddresses a b \<le> 0"

definition less_Ipv4Address :: "Ipv4Address \<Rightarrow> Ipv4Address \<Rightarrow> bool" where
  "less_Ipv4Address a b \<longleftrightarrow> CompareAddresses a b < 0"

instance
proof
  fix a b c :: Ipv4Address
  have swap: "CompareAddresses b a = - CompareAddresses a b"
    unfolding CompareAddresses_def by (rule compare_loop_swap)
  show "a < b \<longleftrightarrow> a \<le> b \<and> \<not> b \<le> a"
    by (auto simp: less_eq_Ipv4Address_def less_Ipv4Address_def swap)
  show "a \<le> a" by (simp add: less_eq_Ipv4Address_def CompareAddresses_def compare_loop_refl)
  show "a \<le> b \<Longrightarrow> b \<le> c \<Longrightarrow> a \<le> c"
    unfolding less_eq_Ipv4Address_def CompareAddresses_def by (rule compare_loop_trans) simp_all
  show "a \<le> b \<Longrightarrow> b \<le> a \<Longrightarrow> a = b"
    using CompareAddresses_zero [of a b] by (auto simp: less_eq_Ipv4Address_def swap)
  show "a \<le> b \<or> b \<le> a" by (auto simp: less_eq_Ipv4Address_def swap)
qed

end

lemma CompareAddresses_order:
  "CompareAddresses a b < 0 \<longleftrightarrow> a < b" "CompareAddresses a b > 0 \<longleftrightarrow> b < a" "CompareAddresses a b = 0 \<longleftrightarrow> a = b"
proof -
  have "CompareAddresses b a = - CompareAddresses a b"
    unfolding CompareAddresses_def by (rule compare_loop_swap)
  then show "CompareAddresses a b < 0 \<longleftrightarrow> a < b" "CompareAddresses a b > 0 \<longleftrightarrow> b < a" "CompareAddresses a b = 0 \<longleftrightarrow> a = b"
    by (auto simp: less_Ipv4Address_def CompareAddresses_zero)
qed

section \<open>Properties\<close>

text \<open>
  Decoding a name ends on every packet, reads within it, consumes between one byte and what
  is left, and returns a non-empty lower-case name of label characters and dots of at most 253
  characters, however the compression pointers are laid.
\<close>

theorem DecodeName_within_packet:
  assumes "DecodeName packet offset = Some (name, consumed)"
  shows "name \<noteq> [] \<and> length name \<le> 253 \<and> 0 < consumed \<and> offset + consumed \<le> length packet
     \<and> list_all (\<lambda>x. (ValidLabelCharacter x \<or> x = CHR ''.'') \<and> \<not> isupper x) name"
  by (rule DecodeName_bounds [OF assms])

lemma DecodeName_within_packet_witness:
  "DecodeName EncodedHostname 0 = Some (kHostname, 29) \<and> 0 + 29 \<le> length EncodedHostname"
  using DecodeName_within_packet [OF DecodeName_hostname [of 0 EncodedHostname "[]"]]
    DecodeName_hostname [of 0 EncodedHostname "[]"] by simp

text \<open>
  A query for the receiver's name, in any letter case, of type A or ANY, with up to sixteen
  known answers, gets the receiver's record, unless it lists that record with at least half of
  its time to live.
\<close>

theorem query_answered_unless_known:
  assumes "list_all valid_label ls" and "join_labels [] ls = kHostname"
    and "t = kTypeA \<or> t = kTypeAny" and "c AND NOT kCacheFlush = kClassIn"
    and "length rs \<le> 16" and "length (render_query (encode_labels ls) t c rs) \<le> 512"
  shows "BuildAResponse (render_query (encode_labels ls) t c rs) a =
     (if \<exists>r\<in>set rs. fst r = a \<and> snd r \<ge> 60 then [] else BuildARecord a kRecordTtlSeconds)"
  by (rule BuildAResponse_render [OF assms])

lemma query_answered_unless_known_witness:
  "BuildAResponse (render_query (encode_labels [''HARMONY-web-companion'', ''Local'']) kTypeAny kClassIn
      [(Ipv4Address 10 0 0 7, 59)]) (Ipv4Address 10 0 0 7) = BuildARecord (Ipv4Address 10 0 0 7) kRecordTtlSeconds"
proof -
  let ?ls = "[''HARMONY-web-companion'', ''Local'']"
  let ?rs = "[(Ipv4Address 10 0 0 7, 59)] :: (Ipv4Address \<times> u32) list"
  have "list_all valid_label ?ls" "join_labels [] ?ls = kHostname"
    by (simp_all add: valid_label_def ValidLabelCharacter_def isalnum_def isdigit_def
      isupper_def islower_def ord_def kHostname_def tolower_def char_of_def bit_0)
  moreover have "length (render_query (encode_labels ?ls) kTypeAny kClassIn ?rs) \<le> 512"
    by (simp add: render_query_def encode_labels_def)
  ultimately show ?thesis
    using query_answered_unless_known [of ?ls kTypeAny kClassIn ?rs] class_in_flush(1) by simp
qed

text \<open>
  The responder reflects nothing: whatever the packet, the answer is empty or the 55 bytes of
  the receiver's own record, and a response, a probe or an invalid message gets none.
\<close>

theorem answers_only_queries:
  "BuildAResponse q a \<in> {[], BuildARecord a kRecordTtlSeconds} \<and> length (BuildAResponse q a) \<le> 55
   \<and> (ClassifyMessage q \<noteq> kQuery \<longrightarrow> BuildAResponse q a = [])"
  using BuildAResponse_only [of q a] by (cases "BuildAResponse q a = []") auto

lemma answers_only_queries_witness:
  "let a = Ipv4Address 10 0 0 7
   in BuildAResponse (BuildAProbe a) a = [] \<and> BuildAResponse (BuildARecord a 120) a = []"
  using answers_only_queries [of "BuildAProbe (Ipv4Address 10 0 0 7)" "Ipv4Address 10 0 0 7"]
    answers_only_queries [of "BuildARecord (Ipv4Address 10 0 0 7) 120" "Ipv4Address 10 0 0 7"]
  by (simp add: ClassifyMessage_built Let_def)

text \<open>
  The receiver's own messages mean what they should to another instance: query, probe and
  record are classified as such, the address of a probe and of a record is extracted from them,
  and a record with time to live zero (the goodbye) announces none.
\<close>

theorem built_messages_understood:
  "ClassifyMessage BuildAQuery = kQuery \<and> ClassifyMessage (BuildAProbe a) = kProbe
   \<and> ClassifyMessage (BuildARecord a ttl) = kResponse
   \<and> ExtractARecords (BuildAProbe a) = [a]
   \<and> ExtractARecords (BuildARecord a ttl) = (if ttl = 0 then [] else [a])"
  by (simp add: ClassifyMessage_built ExtractARecords_BuildAProbe ExtractARecords_BuildARecord)

text \<open>
  \<open>ParseIpv4Address\<close> accepts exactly the canonical dotted-decimal text of an address: no
  leading zeros, signs, blanks, missing or extra parts.
\<close>

theorem ParseIpv4Address_canonical: "ParseIpv4Address str = Some x \<longleftrightarrow> str = address_text x"
  by (rule ParseIpv4Address_iff)

text \<open>
  \<open>CompareAddresses\<close> is the sign of a linear order on addresses; of two different probing
  hosts exactly one finds the other's address greater.
\<close>

theorem CompareAddresses_linear:
  "(CompareAddresses a b = 0 \<longleftrightarrow> a = b) \<and> (CompareAddresses a b > 0 \<longleftrightarrow> b < a)
   \<and> (a = b \<or> (CompareAddresses a b > 0 \<longleftrightarrow> \<not> CompareAddresses b a > 0))"
  unfolding CompareAddresses_order by auto

end
