(* ===== verification/State_Machine.thy ===== *)
theory State_Machine
  imports Main
begin

text \<open>
  The interface of the stateful components: a machine is an initial state and a function that
  takes an event and a state to the next state; an invariant holds of the initial state and is
  kept by every event. The client lemmas extend it to every run, and give the states that runs
  reach as an inductive relation.
\<close>

inductive reachable :: "'s \<Rightarrow> ('e \<Rightarrow> 's \<Rightarrow> 's) \<Rightarrow> 's \<Rightarrow> bool" for start and step where
  reachable_start: "reachable start step start"
| reachable_step: "reachable start step s \<Longrightarrow> reachable start step (step e s)"

inductive_cases reachable_cases: "reachable start step s"

lemma reachable_fold: "reachable start step s \<Longrightarrow> reachable start step (fold step es s)"
  by (induction es arbitrary: s) (auto intro: reachable_step)

lemma reachable_iff_run: "reachable start step s \<longleftrightarrow> (\<exists>es. s = fold step es start)"
proof
  assume "reachable start step s"
  then show "\<exists>es. s = fold step es start"
  proof induction
    case reachable_start
    show ?case by (rule exI [of _ "[]"]) simp
  next
    case (reachable_step s e)
    then obtain es where "s = fold step es start" by blast
    then show ?case by (intro exI [of _ "es @ [e]"]) simp
  qed
qed (auto intro: reachable_fold reachable_start)

locale invariant_system =
  fixes start :: 's and step :: "'e \<Rightarrow> 's \<Rightarrow> 's" and inv :: "'s \<Rightarrow> bool"
  assumes inv_start: "inv start"
    and inv_step: "inv s \<Longrightarrow> inv (step e s)"
begin

lemma inv_run_from: "inv s \<Longrightarrow> inv (fold step es s)"
  by (induction es arbitrary: s) (auto intro: inv_step)

lemma inv_run: "inv (fold step es start)"
  by (rule inv_run_from) (rule inv_start)

lemma inv_reachable: "reachable start step s \<Longrightarrow> inv s"
  by (induction rule: reachable.induct) (auto intro: inv_start inv_step)

text \<open>A consequence of the invariant holds at every point of a run.\<close>

lemma always:
  assumes "\<And>s. inv s \<Longrightarrow> Q s"
  shows "Q (fold step es start)"
  by (rule assms) (rule inv_run)

end

text \<open>
  Whatever holds at the end of a run and not at its start was brought about by one of its events,
  in a state that let it.
\<close>

lemma entered_by:
  assumes "Q (fold step es start)" "\<not> Q start" "\<And>e s. Q (step e s) \<Longrightarrow> Q s \<or> P s"
  obtains es1 e es2 where "es = es1 @ e # es2" "P (fold step es1 start)"
  using assms(1)
proof (induction es arbitrary: thesis rule: rev_induct)
  case Nil
  then show ?case using assms(2) by simp
next
  case (snoc e es)
  show ?case
  proof (cases "Q (fold step es start)")
    case True
    then obtain es1 e' es2 where "es = es1 @ e' # es2" "P (fold step es1 start)" using snoc.IH by blast
    then show ?thesis using snoc.prems(1) [of es1 e' "es2 @ [e]"] by simp
  next
    case False
    then have "P (fold step es start)" using assms(3) [of e "fold step es start"] snoc.prems(2) by simp
    then show ?thesis using snoc.prems(1) [of es e "[]"] by simp
  qed
qed

end
