(* ===== verification/Mdns_Responder.thy ===== *)
theory Mdns_Responder
  imports Mdns_Protocol State_Machine
begin

text \<open>
  The publisher of the receiver's host name, \<open>receiver/entry/src/main/cpp/mdns_responder.h\<close> and
  \<open>mdns_responder.cpp\<close>. The class runs a worker thread; every action of the worker and of the
  caller that touches shared state holds one mutex and first re-reads \<open>desired_\<close>, so the model
  is a state machine whose events are the caller's \<open>Start\<close> and \<open>Stop\<close> and one iteration of the
  worker's loops. An iteration carries what the transport reports (the clock, the result of
  \<open>Receive\<close>, whether \<open>Send\<close> succeeds). The state keeps the log of what was sent since an
  interface was last selected, which the properties speak about. \<open>Stop\<close> joins the worker: between
  its locked part and the join the worker finds \<open>desired_\<close> false and does nothing, so the
  operation is one step here.
\<close>

section \<open>State\<close>

definition kMaximumInitialProbeDelayMilliseconds :: int where "kMaximumInitialProbeDelayMilliseconds = 250"
definition kProbeIntervalMilliseconds :: int where "kProbeIntervalMilliseconds = 250"
definition kProbeCount :: nat where "kProbeCount = 3"
definition kResponseWindowMilliseconds :: u64 where "kResponseWindowMilliseconds = 1000"

datatype MdnsPublisherState = kStopped | kProbing | kPublished | kConflict | kError

record MdnsDatagram =
  bytes :: "byte list"
  sourceAddress :: Ipv4Address
  destinationAddress :: Ipv4Address
  sourcePort :: u16
  interfaceIndex :: u32
  hopLimit :: int

datatype MdnsReceiveResult = kTimeout | kPacket MdnsDatagram | kReceiveError

text \<open>
  Where the worker is: in \<open>ObserveFor\<close> after that many probes, with the deadline computed at its
  start; in the loop of the published state; or returned.
\<close>

datatype worker_position = Observing nat u64 | Serving | Returned

record MdnsResponder =
  desired :: bool
  publisher_state :: MdnsPublisherState
  selected_address :: Ipv4Address
  selected_index :: u32
  goodbye_sent :: bool
  response_window_initialized :: bool
  response_window_started_ms :: u64
  responses_in_window :: nat
  transport_open :: bool
  worker :: worker_position
  sent :: "byte list list"

definition newResponder :: MdnsResponder where
  "newResponder = \<lparr>desired = False, publisher_state = kStopped, selected_address = Ipv4Address 0 0 0 0,
     selected_index = 0, goodbye_sent = False, response_window_initialized = False,
     response_window_started_ms = 0, responses_in_window = 0, transport_open = False,
     worker = Returned, sent = []\<rparr>"

section \<open>Locked helpers\<close>

definition transport_send :: "byte list \<Rightarrow> MdnsResponder \<Rightarrow> MdnsResponder" where
  "transport_send packet r = r\<lparr>sent := sent r @ [packet]\<rparr>"

text \<open>The helpers return the new state and the boolean of the source.\<close>

definition SendProbeLocked :: "bool \<Rightarrow> MdnsResponder \<Rightarrow> MdnsResponder \<times> bool" where
  "SendProbeLocked send_ok r =
     (let probe = BuildAProbe (selected_address r)
      in if probe = [] then (r, False) else (transport_send probe r, send_ok))"

definition SendAnnouncementLocked :: "bool \<Rightarrow> MdnsResponder \<Rightarrow> MdnsResponder \<times> bool" where
  "SendAnnouncementLocked send_ok r =
     (let announcement = BuildARecord (selected_address r) kRecordTtlSeconds
      in if announcement = [] then (r, False) else (transport_send announcement r, send_ok))"

definition SendGoodbyeLocked :: "MdnsResponder \<Rightarrow> MdnsResponder" where
  "SendGoodbyeLocked r =
     (if goodbye_sent r then r
      else
        (let goodbye = BuildARecord (selected_address r) 0; r = r\<lparr>goodbye_sent := True\<rparr>
         in if goodbye = [] then r else transport_send goodbye r))"

definition FailLocked :: "MdnsResponder \<Rightarrow> MdnsResponder" where
  "FailLocked r = r\<lparr>publisher_state := kError, desired := False, transport_open := False\<rparr>"

definition ConflictLocked :: "bool \<Rightarrow> MdnsResponder \<Rightarrow> MdnsResponder" where
  "ConflictLocked wasPublished r =
     (if wasPublished then SendGoodbyeLocked r else r)
       \<lparr>publisher_state := kConflict, desired := False, transport_open := False\<rparr>"

definition AllowQueryResponse :: "u64 \<Rightarrow> MdnsResponder \<Rightarrow> MdnsResponder \<times> bool" where
  "AllowQueryResponse nowMilliseconds r =
     (let r = (if \<not> response_window_initialized r
                  \<or> nowMilliseconds - response_window_started_ms r \<ge> kResponseWindowMilliseconds
               then r\<lparr>response_window_initialized := True, response_window_started_ms := nowMilliseconds,
                      responses_in_window := 0\<rparr>
               else r)
      in if responses_in_window r \<ge> kMaximumResponsesPerSecond then (r, False)
         else (r\<lparr>responses_in_window := responses_in_window r + 1\<rparr>, True))"

section \<open>Datagrams\<close>

definition ContainsDifferentAddress :: "Ipv4Address list \<Rightarrow> Ipv4Address \<Rightarrow> bool" where
  "ContainsDifferentAddress addresses selectedAddress \<longleftrightarrow> list_ex (\<lambda>candidate. candidate \<noteq> selectedAddress) addresses"

definition AcceptDatagramMetadata :: "MdnsResponder \<Rightarrow> MdnsDatagram \<Rightarrow> bool" where
  "AcceptDatagramMetadata r d \<longleftrightarrow>
     length (bytes d) \<le> kMaximumQueryBytes \<and> IsTrustedLanAddress (sourceAddress d)
     \<and> sourcePort d = kMulticastPort \<and> destinationAddress d = kMulticastAddress
     \<and> interfaceIndex d = selected_index r"

definition AcceptMessageHopLimit :: "MdnsDatagram \<Rightarrow> MessageKind \<Rightarrow> bool" where
  "AcceptMessageHopLimit d kind \<longleftrightarrow>
     (if kind = kResponse then hopLimit d = kRequiredResponseHopLimit
      else if kind = kQuery \<or> kind = kProbe
      then hopLimit d = kWindowsQueryHopLimit \<or> hopLimit d = kRequiredResponseHopLimit
      else False)"

text \<open>The flag is the source's result: whether the loop goes on.\<close>

definition HandleProbingDatagram :: "bool \<Rightarrow> MdnsDatagram \<Rightarrow> MdnsResponder \<Rightarrow> MdnsResponder \<times> bool" where
  "HandleProbingDatagram send_ok d r =
     (let kind = ClassifyMessage (bytes d); addresses = ExtractARecords (bytes d)
      in if \<not> AcceptDatagramMetadata r d then (r, True)
         else if \<not> AcceptMessageHopLimit d kind then (r, True)
         else if \<not> ContainsDifferentAddress addresses (selected_address r) then (r, True)
         else if kind = kProbe then
           (let losesTieBreak = list_ex (\<lambda>candidate. CompareAddresses candidate (selected_address r) > 0) addresses
            in if \<not> desired r then (r, False)
               else if losesTieBreak then (ConflictLocked False r, False)
               else (case SendProbeLocked send_ok r of
                       (r, False) \<Rightarrow> (FailLocked r, False)
                     | (r, True) \<Rightarrow> (r, True)))
         else if kind = kResponse then (if desired r then ConflictLocked False r else r, False)
         else (r, True))"

definition HandlePublishedDatagram :: "bool \<Rightarrow> u64 \<Rightarrow> MdnsDatagram \<Rightarrow> MdnsResponder \<Rightarrow> MdnsResponder \<times> bool" where
  "HandlePublishedDatagram send_ok now d r =
     (let kind = ClassifyMessage (bytes d); addresses = ExtractARecords (bytes d);
          answer = (\<lambda>r.
            let response = BuildAResponse (bytes d) (selected_address r)
            in if response = [] then (r, True)
               else
                 (case AllowQueryResponse now r of
                    (r, False) \<Rightarrow> (r, True)
                  | (r, True) \<Rightarrow>
                      (if \<not> desired r then (r, False)
                       else if send_ok then (transport_send response r, True)
                       else (FailLocked (transport_send response r), False))))
      in if \<not> AcceptDatagramMetadata r d then (r, True)
         else if \<not> AcceptMessageHopLimit d kind then (r, True)
         else if ContainsDifferentAddress addresses (selected_address r) then
           (if \<not> desired r then (r, False)
            else if kind = kProbe then
              (case SendAnnouncementLocked send_ok r of
                 (r, False) \<Rightarrow> (FailLocked r, False)
               | (r, True) \<Rightarrow> (r, True))
            else if kind = kResponse then (ConflictLocked True r, False)
            else answer r)
         else answer r)"

section \<open>The worker\<close>

definition clamp :: "int \<Rightarrow> int \<Rightarrow> int \<Rightarrow> int" where
  "clamp v low high = (if v < low then low else if high < v then high else v)"

definition observe_until :: "u64 \<Rightarrow> int \<Rightarrow> u64" where
  "observe_until started milliseconds = started + word_of_int (max 0 milliseconds)"

text \<open>
  What follows a completed \<open>ObserveFor\<close>: the next probe and its observation, or after the third
  the announcement. \<open>restarted\<close> is the clock at the start of the next observation.
\<close>

definition after_observation :: "nat \<Rightarrow> bool \<Rightarrow> u64 \<Rightarrow> MdnsResponder \<Rightarrow> MdnsResponder" where
  "after_observation probes send_ok restarted r =
     (if \<not> desired r then r\<lparr>worker := Returned\<rparr>
      else if probes < kProbeCount then
        (case SendProbeLocked send_ok r of
           (r, False) \<Rightarrow> (FailLocked r)\<lparr>worker := Returned\<rparr>
         | (r, True) \<Rightarrow> r\<lparr>worker := Observing (probes + 1) (observe_until restarted kProbeIntervalMilliseconds)\<rparr>)
      else
        (case SendAnnouncementLocked send_ok r of
           (r, False) \<Rightarrow> (FailLocked r)\<lparr>worker := Returned\<rparr>
         | (r, True) \<Rightarrow> r\<lparr>publisher_state := kPublished, worker := Serving\<rparr>))"

text \<open>One iteration of \<open>ObserveFor\<close>, with what follows it when the deadline is reached.\<close>

definition ObserveFor_iteration ::
    "nat \<Rightarrow> u64 \<Rightarrow> u64 \<Rightarrow> MdnsReceiveResult \<Rightarrow> bool \<Rightarrow> u64 \<Rightarrow> MdnsResponder \<Rightarrow> MdnsResponder" where
  "ObserveFor_iteration probes deadline now result send_ok restarted r =
     (if \<not> desired r then r\<lparr>worker := Returned\<rparr>
      else if now \<ge> deadline then after_observation probes send_ok restarted r
      else
        (case result of
           kTimeout \<Rightarrow> r
         | kReceiveError \<Rightarrow> (FailLocked r)\<lparr>worker := Returned\<rparr>
         | kPacket d \<Rightarrow>
             (case HandleProbingDatagram send_ok d r of
                (r, True) \<Rightarrow> r
              | (r, False) \<Rightarrow> r\<lparr>worker := Returned\<rparr>)))"

definition Serving_iteration :: "u64 \<Rightarrow> MdnsReceiveResult \<Rightarrow> bool \<Rightarrow> MdnsResponder \<Rightarrow> MdnsResponder" where
  "Serving_iteration now result send_ok r =
     (if \<not> desired r then r\<lparr>worker := Returned\<rparr>
      else
        (case result of
           kTimeout \<Rightarrow> r
         | kReceiveError \<Rightarrow> (FailLocked r)\<lparr>worker := Returned\<rparr>
         | kPacket d \<Rightarrow>
             (case HandlePublishedDatagram send_ok now d r of
                (r, True) \<Rightarrow> r
              | (r, False) \<Rightarrow> r\<lparr>worker := Returned\<rparr>)))"

section \<open>Start and Stop\<close>

definition Stop :: "MdnsResponder \<Rightarrow> MdnsResponder" where
  "Stop r =
     (let r = (if publisher_state r = kPublished then SendGoodbyeLocked r else r)
      in r\<lparr>desired := False, transport_open := False, worker := Returned, publisher_state := kStopped\<rparr>)"

text \<open>
  \<open>Open\<close> and the thread constructor report \<open>open_ok\<close> and \<open>thread_ok\<close>; \<open>delay\<close> is what
  \<open>RandomDelayMilliseconds\<close> returns to the new worker and \<open>started\<close> the clock it then reads.
\<close>

definition Start ::
    "string \<Rightarrow> u32 \<Rightarrow> bool \<Rightarrow> bool \<Rightarrow> int \<Rightarrow> u64 \<Rightarrow> MdnsResponder \<Rightarrow> MdnsResponder \<times> bool" where
  "Start addressText index open_ok thread_ok delay started r =
     (let r = Stop r
      in case ParseIpv4Address addressText of
           None \<Rightarrow> (r\<lparr>publisher_state := kError\<rparr>, False)
         | Some address \<Rightarrow>
             (if \<not> IsTrustedLanAddress address \<or> index = 0 then (r\<lparr>publisher_state := kError\<rparr>, False)
              else
                (let r = r\<lparr>selected_address := address, selected_index := index, sent := []\<rparr>
                 in if \<not> open_ok then (r\<lparr>publisher_state := kError\<rparr>, False)
                    else
                      (let r = r\<lparr>transport_open := True, desired := True, goodbye_sent := False,
                                 response_window_initialized := False, response_window_started_ms := 0,
                                 responses_in_window := 0, publisher_state := kProbing\<rparr>
                       in if \<not> thread_ok
                          then (r\<lparr>desired := False, transport_open := False, publisher_state := kError\<rparr>, False)
                          else (r\<lparr>worker := Observing 0 (observe_until started
                                   (clamp delay 0 kMaximumInitialProbeDelayMilliseconds))\<rparr>, True)))))"

datatype responder_event =
    StartCalled string u32 bool bool int u64
  | StopCalled
  | WorkerIterates u64 MdnsReceiveResult bool u64

fun responder_step :: "responder_event \<Rightarrow> MdnsResponder \<Rightarrow> MdnsResponder" where
  "responder_step (StartCalled addr index open_ok thread_ok delay started) r =
     fst (Start addr index open_ok thread_ok delay started r)"
| "responder_step StopCalled r = Stop r"
| "responder_step (WorkerIterates now result send_ok restarted) r =
     (case worker r of
        Returned \<Rightarrow> r
      | Observing probes deadline \<Rightarrow> ObserveFor_iteration probes deadline now result send_ok restarted r
      | Serving \<Rightarrow> Serving_iteration now result send_ok r)"

definition responder_run :: "responder_event list \<Rightarrow> MdnsResponder" where
  "responder_run events = fold responder_step events newResponder"

section \<open>The log of a run\<close>

text \<open>
  What an instance may have sent since it selected its interface: probes, then its record, then
  one goodbye; the record only after three probes and the goodbye only after the record.
\<close>

definition log_shape :: "Ipv4Address \<Rightarrow> nat \<Rightarrow> nat \<Rightarrow> nat \<Rightarrow> byte list list \<Rightarrow> bool" where
  "log_shape a n m g log \<longleftrightarrow>
     log = replicate n (BuildAProbe a) @ replicate m (BuildARecord a kRecordTtlSeconds) @ replicate g (BuildARecord a 0)
     \<and> (0 < m \<longrightarrow> kProbeCount \<le> n) \<and> (0 < g \<longrightarrow> 0 < m) \<and> g \<le> 1"

lemma log_shape_Nil: "log_shape a 0 0 0 []"
  by (simp add: log_shape_def)

lemma log_shape_probe: "log_shape a n 0 0 log \<Longrightarrow> log_shape a (Suc n) 0 0 (log @ [BuildAProbe a])"
  by (simp add: log_shape_def replicate_append_same)

lemma log_shape_record:
  "log_shape a n m 0 log \<Longrightarrow> kProbeCount \<le> n \<Longrightarrow> log_shape a n (Suc m) 0 (log @ [BuildARecord a kRecordTtlSeconds])"
  by (simp add: log_shape_def replicate_append_same)

lemma log_shape_goodbye: "log_shape a n m 0 log \<Longrightarrow> 0 < m \<Longrightarrow> log_shape a n m 1 (log @ [BuildARecord a 0])"
  by (simp add: log_shape_def)

definition responder_inv :: "MdnsResponder \<Rightarrow> bool" where
  "responder_inv r \<longleftrightarrow>
     (desired r \<longleftrightarrow> publisher_state r = kProbing \<or> publisher_state r = kPublished)
     \<and> transport_open r = desired r
     \<and> responses_in_window r \<le> kMaximumResponsesPerSecond
     \<and> (desired r \<longrightarrow> IsTrustedLanAddress (selected_address r) \<and> \<not> goodbye_sent r)
     \<and> (\<exists>n m g. log_shape (selected_address r) n m g (sent r)
         \<and> (desired r \<longrightarrow> g = 0 \<and>
             (case worker r of
                Observing k _ \<Rightarrow> publisher_state r = kProbing \<and> m = 0 \<and> k \<le> n \<and> k \<le> kProbeCount
              | Serving \<Rightarrow> publisher_state r = kPublished \<and> 0 < m
              | Returned \<Rightarrow> False)))"

text \<open>The invariant of a responder that is not desired: only the log matters.\<close>

lemma responder_inv_idle:
  assumes "\<not> desired r" "publisher_state r \<noteq> kProbing" "publisher_state r \<noteq> kPublished" "\<not> transport_open r"
    "responses_in_window r \<le> kMaximumResponsesPerSecond" "log_shape (selected_address r) n m g (sent r)"
  shows "responder_inv r"
  using assms by (auto simp: responder_inv_def)

lemma built_not_Nil [simp]: "BuildARecord a ttl \<noteq> []" "BuildAProbe a \<noteq> []"
  using length_built(2) [of a ttl] length_built(3) [of a] by fastforce+

lemma FailLocked_inv: "responder_inv r \<Longrightarrow> responder_inv ((FailLocked r)\<lparr>worker := w\<rparr>)"
  by (auto simp: responder_inv_def FailLocked_def)

lemma Fail_sent_inv:
  assumes "responder_inv r" and "log_shape (selected_address r) n m g (sent r')"
    and "selected_address r' = selected_address r" and "responses_in_window r' \<le> kMaximumResponsesPerSecond"
  shows "responder_inv ((FailLocked r')\<lparr>worker := w\<rparr>)"
  using assms by (auto simp: responder_inv_def FailLocked_def)

lemma responder_inv_probing:
  assumes "responder_inv r" and "desired r" and "worker r = Observing k dl"
  obtains n where "log_shape (selected_address r) n 0 0 (sent r)" "k \<le> n" "k \<le> kProbeCount"
    "publisher_state r = kProbing" "transport_open r" "\<not> goodbye_sent r" "IsTrustedLanAddress (selected_address r)"
    "responses_in_window r \<le> kMaximumResponsesPerSecond"
  using assms by (auto simp: responder_inv_def)

lemma responder_inv_serving:
  assumes "responder_inv r" and "desired r" and "worker r = Serving"
  obtains n m where "log_shape (selected_address r) n m 0 (sent r)" "0 < m" "kProbeCount \<le> n"
    "publisher_state r = kPublished" "transport_open r" "\<not> goodbye_sent r" "IsTrustedLanAddress (selected_address r)"
    "responses_in_window r \<le> kMaximumResponsesPerSecond"
  using assms by (auto simp: responder_inv_def log_shape_def)

lemma responder_inv_observingI:
  assumes "desired r" "worker r = Observing k dl" "log_shape (selected_address r) n 0 0 (sent r)" "k \<le> n"
    "k \<le> kProbeCount" "publisher_state r = kProbing" "transport_open r" "\<not> goodbye_sent r"
    "IsTrustedLanAddress (selected_address r)" "responses_in_window r \<le> kMaximumResponsesPerSecond"
  shows "responder_inv r"
  unfolding responder_inv_def
  using assms by (intro conjI exI [of _ n] exI [of _ 0]) simp_all

lemma responder_inv_servingI:
  assumes "desired r" "worker r = Serving" "log_shape (selected_address r) n m 0 (sent r)" "0 < m"
    "publisher_state r = kPublished" "transport_open r" "\<not> goodbye_sent r"
    "IsTrustedLanAddress (selected_address r)" "responses_in_window r \<le> kMaximumResponsesPerSecond"
  shows "responder_inv r"
  unfolding responder_inv_def
  using assms by (intro conjI exI [of _ n] exI [of _ m] exI [of _ 0]) simp_all

lemma HandleProbingDatagram_inv:
  assumes "responder_inv r" and "desired r" and "worker r = Observing k dl"
    and "HandleProbingDatagram send_ok d r = (r', goes_on)"
  shows "responder_inv (if goes_on then r' else r'\<lparr>worker := Returned\<rparr>)"
proof -
  obtain n where n: "log_shape (selected_address r) n 0 0 (sent r)" "k \<le> n" "k \<le> kProbeCount"
    "publisher_state r = kProbing" "transport_open r" "\<not> goodbye_sent r" "IsTrustedLanAddress (selected_address r)"
    "responses_in_window r \<le> kMaximumResponsesPerSecond"
    by (rule responder_inv_probing [OF assms(1-3)])
  have conflict: "responder_inv ((ConflictLocked False r)\<lparr>worker := Returned\<rparr>)"
    using n by (intro responder_inv_idle [of _ n 0 0]) (simp_all add: ConflictLocked_def)
  have probe: "responder_inv (transport_send (BuildAProbe (selected_address r)) r)"
    using n assms(2,3) log_shape_probe [OF n(1)]
    by (intro responder_inv_observingI [of _ k dl "Suc n"]) (simp_all add: transport_send_def)
  have fail: "responder_inv ((FailLocked (transport_send (BuildAProbe (selected_address r)) r))\<lparr>worker := Returned\<rparr>)"
    using log_shape_probe [OF n(1)] n
    by (intro responder_inv_idle [of _ "Suc n" 0 0]) (simp_all add: FailLocked_def transport_send_def)
  show ?thesis
    using assms conflict probe fail
    by (auto simp: HandleProbingDatagram_def SendProbeLocked_def Let_def split: if_splits bool.splits)
qed

lemma AllowQueryResponse_keeps:
  assumes "AllowQueryResponse now r = (r', ok)"
  shows "desired r' = desired r" "worker r' = worker r" "sent r' = sent r" "selected_address r' = selected_address r"
    "publisher_state r' = publisher_state r" "transport_open r' = transport_open r" "goodbye_sent r' = goodbye_sent r"
    "selected_index r' = selected_index r"
  using assms by (auto simp: AllowQueryResponse_def Let_def split: if_splits)

lemma AllowQueryResponse_bound:
  assumes "AllowQueryResponse now r = (r', ok)" and "responses_in_window r \<le> kMaximumResponsesPerSecond"
  shows "responses_in_window r' \<le> kMaximumResponsesPerSecond"
  using assms by (auto simp: AllowQueryResponse_def Let_def kMaximumResponsesPerSecond_def split: if_splits)

lemma HandlePublishedDatagram_inv:
  assumes "responder_inv r" and "desired r" and "worker r = Serving"
    and "HandlePublishedDatagram send_ok now d r = (r', goes_on)"
  shows "responder_inv (if goes_on then r' else r'\<lparr>worker := Returned\<rparr>)"
proof -
  obtain n m where n: "log_shape (selected_address r) n m 0 (sent r)" "0 < m" "kProbeCount \<le> n"
    "publisher_state r = kPublished" "transport_open r" "\<not> goodbye_sent r" "IsTrustedLanAddress (selected_address r)"
    "responses_in_window r \<le> kMaximumResponsesPerSecond"
    by (rule responder_inv_serving [OF assms(1-3)])
  let ?rec = "BuildARecord (selected_address r) kRecordTtlSeconds"
  note shape = log_shape_record [OF n(1,3)]
  have conflict: "responder_inv ((ConflictLocked True r)\<lparr>worker := Returned\<rparr>)"
    using n log_shape_goodbye [OF n(1,2)]
    by (intro responder_inv_idle [of _ n m 1])
       (simp_all add: ConflictLocked_def SendGoodbyeLocked_def transport_send_def Let_def)
  have send: "responder_inv (transport_send ?rec q)" "responder_inv ((FailLocked (transport_send ?rec q))\<lparr>worker := Returned\<rparr>)"
    if q: "desired q" "worker q = Serving" "sent q = sent r" "selected_address q = selected_address r"
      "publisher_state q = kPublished" "transport_open q" "\<not> goodbye_sent q"
      "responses_in_window q \<le> kMaximumResponsesPerSecond" for q
  proof -
    show "responder_inv (transport_send ?rec q)"
      using q n shape by (intro responder_inv_servingI [of _ n "Suc m"]) (simp_all add: transport_send_def)
    show "responder_inv ((FailLocked (transport_send ?rec q))\<lparr>worker := Returned\<rparr>)"
      using q shape by (intro responder_inv_idle [of _ n "Suc m" 0]) (simp_all add: FailLocked_def transport_send_def)
  qed
  have plain: "responder_inv q"
    if q: "AllowQueryResponse now r = (q, ok)" for q ok
    using n assms(2,3) AllowQueryResponse_keeps [OF q] AllowQueryResponse_bound [OF q n(8)]
    by (intro responder_inv_servingI [of _ n m]) simp_all
  have answer: "BuildAResponse (bytes d) (selected_address r) \<noteq> [] \<Longrightarrow> BuildAResponse (bytes d) (selected_address r) = ?rec"
    by (rule BuildAResponse_only(1))
  obtain q ok where q: "AllowQueryResponse now r = (q, ok)" by force
  note keeps = AllowQueryResponse_keeps [OF q] AllowQueryResponse_bound [OF q n(8)]
  have sq: "responder_inv (transport_send ?rec q)" "responder_inv ((FailLocked (transport_send ?rec q))\<lparr>worker := Returned\<rparr>)"
    using keeps n assms(2,3) by (auto intro!: send)
  have sr: "responder_inv (transport_send ?rec r)" "responder_inv ((FailLocked (transport_send ?rec r))\<lparr>worker := Returned\<rparr>)"
    using n assms(2,3) by (auto intro!: send)
  show ?thesis
    using assms conflict sq sr plain [OF q] keeps answer
    by (auto simp: HandlePublishedDatagram_def SendAnnouncementLocked_def Let_def q split: if_splits bool.splits)
qed

lemma after_observation_inv:
  assumes "responder_inv r" and "desired r" and "worker r = Observing k dl"
  shows "responder_inv (after_observation k send_ok restarted r)"
proof -
  obtain n where n: "log_shape (selected_address r) n 0 0 (sent r)" "k \<le> n" "k \<le> kProbeCount"
    "publisher_state r = kProbing" "transport_open r" "\<not> goodbye_sent r" "IsTrustedLanAddress (selected_address r)"
    "responses_in_window r \<le> kMaximumResponsesPerSecond"
    by (rule responder_inv_probing [OF assms])
  show ?thesis
  proof (cases "k < kProbeCount")
    case True
    note shape = log_shape_probe [OF n(1)]
    have "responder_inv ((transport_send (BuildAProbe (selected_address r)) r)\<lparr>worker := Observing (k + 1) dl'\<rparr>)" for dl'
      using n assms(2) shape True
      by (intro responder_inv_observingI [of _ "k + 1" dl' "Suc n"]) (simp_all add: transport_send_def)
    moreover have "responder_inv ((FailLocked (transport_send (BuildAProbe (selected_address r)) r))\<lparr>worker := Returned\<rparr>)"
      using n shape by (intro responder_inv_idle [of _ "Suc n" 0 0]) (simp_all add: FailLocked_def transport_send_def)
    ultimately show ?thesis using assms(2) True by (simp add: after_observation_def SendProbeLocked_def Let_def split: bool.split)
  next
    case False
    then have "kProbeCount \<le> n" using n(2) by simp
    note shape = log_shape_record [OF n(1) this]
    let ?q = "transport_send (BuildARecord (selected_address r) kRecordTtlSeconds) r"
    have "responder_inv (?q\<lparr>publisher_state := kPublished, worker := Serving\<rparr>)"
      using n assms(2) shape by (intro responder_inv_servingI [of _ n 1]) (simp_all add: transport_send_def)
    moreover have "responder_inv ((FailLocked ?q)\<lparr>worker := Returned\<rparr>)"
      using n shape by (intro responder_inv_idle [of _ n 1 0]) (simp_all add: FailLocked_def transport_send_def)
    ultimately show ?thesis using assms(2) False by (simp add: after_observation_def SendAnnouncementLocked_def Let_def split: bool.split)
  qed
qed

lemma Stop_inv:
  assumes "responder_inv r"
  shows "responder_inv (Stop r)"
proof (cases "publisher_state r = kPublished")
  case True
  then have d: "desired r" using assms by (simp add: responder_inv_def)
  with True assms have w: "worker r = Serving" by (cases "worker r") (auto simp: responder_inv_def)
  obtain n m where n: "log_shape (selected_address r) n m 0 (sent r)" "0 < m" "kProbeCount \<le> n"
    "publisher_state r = kPublished" "transport_open r" "\<not> goodbye_sent r" "IsTrustedLanAddress (selected_address r)"
    "responses_in_window r \<le> kMaximumResponsesPerSecond"
    by (rule responder_inv_serving [OF assms d w])
  then show ?thesis using log_shape_goodbye [OF n(1,2)]
    by (intro responder_inv_idle [of _ n m 1]) (simp_all add: Stop_def SendGoodbyeLocked_def transport_send_def Let_def)
next
  case False
  obtain n m g where "log_shape (selected_address r) n m g (sent r)" "responses_in_window r \<le> kMaximumResponsesPerSecond"
    using assms by (auto simp: responder_inv_def)
  then show ?thesis using False by (intro responder_inv_idle [of _ n m g]) (simp_all add: Stop_def Let_def)
qed

lemma Start_inv:
  assumes "responder_inv r"
  shows "responder_inv (fst (Start addr index open_ok thread_ok delay started r))"
proof -
  obtain n m g where s: "log_shape (selected_address (Stop r)) n m g (sent (Stop r))"
      "responses_in_window (Stop r) \<le> kMaximumResponsesPerSecond"
    using Stop_inv [OF assms] by (auto simp: responder_inv_def)
  have st: "\<not> desired (Stop r)" "\<not> transport_open (Stop r)" by (simp_all add: Stop_def Let_def)
  have refused: "responder_inv ((Stop r)\<lparr>publisher_state := kError\<rparr>)"
    using s st by (intro responder_inv_idle [of _ n m g]) simp_all
  have unopened: "responder_inv ((Stop r)\<lparr>selected_address := a, selected_index := i, sent := [], publisher_state := kError\<rparr>)" for a i
    using s st log_shape_Nil by (intro responder_inv_idle [of _ 0 0 0]) simp_all
  show ?thesis
  proof (cases "\<exists>a. ParseIpv4Address addr = Some a \<and> IsTrustedLanAddress a \<and> index \<noteq> 0 \<and> open_ok \<and> thread_ok")
    case True
    then obtain a where "ParseIpv4Address addr = Some a" "IsTrustedLanAddress a" "index \<noteq> 0" open_ok thread_ok by blast
    then show ?thesis
      by (intro responder_inv_observingI [of _ 0 _ 0]) (simp_all add: Start_def Let_def log_shape_Nil)
  next
    case False
    then show ?thesis
      unfolding Start_def Let_def
      using refused unopened s st log_shape_Nil
      by (auto split: option.split intro!: responder_inv_idle [of _ 0 0 0])
  qed
qed

lemma ObserveFor_iteration_inv:
  assumes "responder_inv r" and "worker r = Observing k dl"
  shows "responder_inv (ObserveFor_iteration k dl now result send_ok restarted r)"
proof (cases "desired r")
  case False
  then show ?thesis using assms by (auto simp: ObserveFor_iteration_def responder_inv_def)
next
  case True
  note h = HandleProbingDatagram_inv [OF assms(1) True assms(2)]
  show ?thesis
    using True assms FailLocked_inv [OF assms(1)] after_observation_inv [OF assms(1) True assms(2)]
    by (auto simp: ObserveFor_iteration_def split: MdnsReceiveResult.split prod.split bool.split dest!: h)
qed

lemma Serving_iteration_inv:
  assumes "responder_inv r" and "worker r = Serving"
  shows "responder_inv (Serving_iteration now result send_ok r)"
proof (cases "desired r")
  case False
  then show ?thesis using assms by (auto simp: Serving_iteration_def responder_inv_def)
next
  case True
  note h = HandlePublishedDatagram_inv [OF assms(1) True assms(2)]
  show ?thesis
    using True assms FailLocked_inv [OF assms(1)]
    by (auto simp: Serving_iteration_def split: MdnsReceiveResult.split prod.split bool.split dest!: h)
qed

lemma responder_step_inv: "responder_inv r \<Longrightarrow> responder_inv (responder_step e r)"
  by (cases "(e, r)" rule: responder_step.cases)
     (auto simp: Start_inv Stop_inv ObserveFor_iteration_inv Serving_iteration_inv split: worker_position.split)

lemma newResponder_inv: "responder_inv newResponder"
  by (rule responder_inv_idle [of _ 0 0 0]) (simp_all add: newResponder_def log_shape_Nil)

interpretation responder: invariant_system newResponder responder_step responder_inv
  by unfold_locales (simp_all add: newResponder_inv responder_step_inv)

section \<open>Rate limit\<close>

text \<open>The clock readings at which a query would be answered, of those in the list.\<close>

fun answered :: "u64 list \<Rightarrow> MdnsResponder \<Rightarrow> u64 list" where
  "answered [] r = []"
| "answered (t # ts) r = (case AllowQueryResponse t r of (r', ok) \<Rightarrow> (if ok then [t] else []) @ answered ts r')"

lemma AllowQueryResponse_within:
  assumes "response_window_initialized r" and "t - response_window_started_ms r < 1000"
  shows "AllowQueryResponse t r = (if responses_in_window r \<ge> 10 then (r, False)
     else (r\<lparr>responses_in_window := responses_in_window r + 1\<rparr>, True))"
proof -
  have "\<not> 1000 \<le> t - response_window_started_ms r" using assms(2) by (simp add: not_le)
  then show ?thesis using assms(1)
    by (simp add: AllowQueryResponse_def Let_def kMaximumResponsesPerSecond_def kResponseWindowMilliseconds_def)
qed

lemma AllowQueryResponse_reset:
  assumes "\<not> response_window_initialized r \<or> \<not> t - response_window_started_ms r < 1000"
  shows "AllowQueryResponse t r = (r\<lparr>response_window_initialized := True, response_window_started_ms := t,
     responses_in_window := 1\<rparr>, True)"
  using assms by (auto simp: AllowQueryResponse_def Let_def kMaximumResponsesPerSecond_def
      kResponseWindowMilliseconds_def not_le not_less)

lemma answered_one_window:
  assumes "response_window_initialized r" and "\<forall>t\<in>set ts. t - response_window_started_ms r < 1000"
    and "responses_in_window r \<le> 10"
  shows "length (answered ts r) \<le> 10 - responses_in_window r"
  using assms
proof (induction ts arbitrary: r)
  case (Cons t ts)
  then have a: "AllowQueryResponse t r = (if responses_in_window r \<ge> 10 then (r, False)
     else (r\<lparr>responses_in_window := responses_in_window r + 1\<rparr>, True))"
    by (intro AllowQueryResponse_within) simp_all
  show ?case
  proof (cases "responses_in_window r \<ge> 10")
    case True
    then show ?thesis using Cons.IH [of r] Cons.prems a by simp
  next
    case False
    then show ?thesis using Cons.IH [of "r\<lparr>responses_in_window := responses_in_window r + 1\<rparr>"] Cons.prems a by simp
  qed
qed simp

lemma close_times: "t \<le> t' \<Longrightarrow> unat t' - unat t < 1000 \<Longrightarrow> t' - t < (1000 :: u64)"
  by (simp add: word_less_nat_alt unat_sub word_le_nat_alt)

lemma answered_after_reset:
  assumes "\<not> response_window_initialized r \<or> \<not> t - response_window_started_ms r < 1000"
    and "\<forall>t'\<in>set ts. t' - t < 1000"
  shows "length (answered (t # ts) r) \<le> 10"
  using answered_one_window [of "r\<lparr>response_window_initialized := True, response_window_started_ms := t,
     responses_in_window := 1\<rparr>" ts] assms(2) by (simp add: AllowQueryResponse_reset [OF assms(1)])

lemma answered_two_windows:
  assumes "sorted ts" and "\<forall>t\<in>set ts. \<forall>t'\<in>set ts. t \<le> t' \<longrightarrow> t' - t < 1000" and "responses_in_window r \<le> 10"
  shows "length (answered ts r) \<le> 20 - responses_in_window r"
  using assms
proof (induction ts arbitrary: r)
  case (Cons t ts)
  show ?case
  proof (cases "\<not> response_window_initialized r \<or> \<not> t - response_window_started_ms r < 1000")
    case True
    have "\<forall>t'\<in>set ts. t' - t < 1000" using Cons.prems(1,2) by auto
    from answered_after_reset [OF True this] Cons.prems(3) show ?thesis by simp
  next
    case False
    then have a: "AllowQueryResponse t r = (if responses_in_window r \<ge> 10 then (r, False)
       else (r\<lparr>responses_in_window := responses_in_window r + 1\<rparr>, True))"
      by (intro AllowQueryResponse_within) simp_all
    have "length (answered ts q) \<le> 20 - responses_in_window q" if "responses_in_window q \<le> 10" for q
      using Cons.prems that by (intro Cons.IH) auto
    from this [of r] this [of "r\<lparr>responses_in_window := responses_in_window r + 1\<rparr>"] Cons.prems(3)
    show ?thesis by (auto simp: a)
  qed
qed simp

section \<open>Tie-break\<close>

definition on_link :: "MdnsResponder \<Rightarrow> MdnsDatagram \<Rightarrow> bool" where
  "on_link r d \<longleftrightarrow> AcceptDatagramMetadata r d \<and> AcceptMessageHopLimit d (ClassifyMessage (bytes d))"

lemma off_link_ignored:
  assumes "\<not> on_link r d"
  shows "HandleProbingDatagram send_ok d r = (r, True)" and "HandlePublishedDatagram send_ok now d r = (r, True)"
  using assms by (auto simp: on_link_def HandleProbingDatagram_def HandlePublishedDatagram_def Let_def)

lemma HandleProbingDatagram_probe:
  assumes "on_link r d" and "bytes d = BuildAProbe b" and "desired r" and "selected_address r = a"
  shows "HandleProbingDatagram send_ok d r =
     (if a = b then (r, True)
      else if a < b then (ConflictLocked False r, False)
      else if send_ok then (transport_send (BuildAProbe a) r, True)
      else (FailLocked (transport_send (BuildAProbe a) r), False))"
  using assms
  by (auto simp: on_link_def HandleProbingDatagram_def SendProbeLocked_def Let_def ExtractARecords_BuildAProbe
      ClassifyMessage_built ContainsDifferentAddress_def CompareAddresses_order)


section \<open>Properties\<close>

text \<open>
  C38. At every point of every run, what was sent since the interface was selected is probes, then
  the record, then at most one goodbye; the record is published only after three probes; a
  publishing responder has its transport open on a trusted address and has sent no goodbye; and
  \<open>Stop\<close> then sends exactly the goodbye and closes the transport.
\<close>

theorem responder_publishes_after_probing:
  fixes events :: "responder_event list"
  defines "r \<equiv> responder_run events"
  shows "\<exists>n m g. log_shape (selected_address r) n m g (sent r)
     \<and> (publisher_state r = kPublished \<longrightarrow>
          3 \<le> n \<and> 0 < m \<and> g = 0 \<and> transport_open r \<and> IsTrustedLanAddress (selected_address r)
          \<and> sent (Stop r) = sent r @ [BuildARecord (selected_address r) 0] \<and> \<not> transport_open (Stop r))"
proof -
  have inv: "responder_inv r" unfolding r_def responder_run_def by (rule responder.inv_run)
  show ?thesis
  proof (cases "publisher_state r = kPublished")
    case True
    then have d: "desired r" using inv by (simp add: responder_inv_def)
    with True inv have w: "worker r = Serving" by (cases "worker r") (auto simp: responder_inv_def)
    show ?thesis
      by (rule responder_inv_serving [OF inv d w])
         (auto simp: kProbeCount_def Stop_def SendGoodbyeLocked_def transport_send_def Let_def)
  next
    case False
    then show ?thesis using inv by (auto simp: responder_inv_def)
  qed
qed

lemma responder_publishes_after_probing_witness:
  "let r = responder_run [StartCalled ''10.0.0.7'' 3 True True 0 0, WorkerIterates 0 kTimeout True 0,
      WorkerIterates 250 kTimeout True 250, WorkerIterates 500 kTimeout True 500, WorkerIterates 750 kTimeout True 750]
   in publisher_state r = kPublished \<and> transport_open r \<and> (\<exists>n m g. 3 \<le> n \<and> log_shape (selected_address r) n m g (sent r))"
proof -
  let ?es = "[StartCalled ''10.0.0.7'' 3 True True 0 0, WorkerIterates 0 kTimeout True 0,
      WorkerIterates 250 kTimeout True 250, WorkerIterates 500 kTimeout True 500, WorkerIterates 750 kTimeout True 750]"
  have "''10.0.0.7'' = address_text (Ipv4Address 10 0 0 7)" by (simp add: dec.simps digit_char_def char_of_def bit_0)
  then have a: "ParseIpv4Address ''10.0.0.7'' = Some (Ipv4Address 10 0 0 7)" by (simp only: ParseIpv4Address_iff)
  have "publisher_state (responder_run ?es) = kPublished"
    by (simp add: responder_run_def Start_def a Stop_def newResponder_def Let_def clamp_def observe_until_def
        ObserveFor_iteration_def after_observation_def SendProbeLocked_def SendAnnouncementLocked_def
        transport_send_def kProbeCount_def kMaximumInitialProbeDelayMilliseconds_def kProbeIntervalMilliseconds_def)
  with responder_publishes_after_probing [of ?es] show ?thesis unfolding Let_def by blast
qed

text \<open>
  Of two hosts with different addresses that probe for the name at the same time and hear
  each other's probe, exactly the one with the smaller address gives up, and the other repeats
  its probe.
\<close>

theorem simultaneous_probes_resolve:
  assumes "desired p" and "on_link p dq" and "bytes dq = BuildAProbe (selected_address q)"
    and "desired q" and "on_link q dp" and "bytes dp = BuildAProbe (selected_address p)"
    and "selected_address p < selected_address q"
  shows "HandleProbingDatagram True dq p = (ConflictLocked False p, False)
     \<and> HandleProbingDatagram True dp q = (transport_send (BuildAProbe (selected_address q)) q, True)"
  using HandleProbingDatagram_probe [OF assms(2,3,1) refl] HandleProbingDatagram_probe [OF assms(5,6,4) refl] assms(7)
  by auto

lemma simultaneous_probes_resolve_witness:
  "let p = newResponder\<lparr>desired := True, selected_address := Ipv4Address 10 0 0 7, selected_index := 1\<rparr>;
       q = newResponder\<lparr>desired := True, selected_address := Ipv4Address 10 0 0 8, selected_index := 1\<rparr>;
       msg = (\<lambda>a. \<lparr>bytes = BuildAProbe a, sourceAddress = a, destinationAddress = kMulticastAddress,
                    sourcePort = kMulticastPort, interfaceIndex = 1, hopLimit = 255\<rparr>)
   in publisher_state (fst (HandleProbingDatagram True (msg (Ipv4Address 10 0 0 8)) p)) = kConflict
      \<and> snd (HandleProbingDatagram True (msg (Ipv4Address 10 0 0 7)) q)"
proof -
  let ?p = "newResponder\<lparr>desired := True, selected_address := Ipv4Address 10 0 0 7, selected_index := 1\<rparr>"
  let ?q = "newResponder\<lparr>desired := True, selected_address := Ipv4Address 10 0 0 8, selected_index := 1\<rparr>"
  let ?m = "\<lambda>a. \<lparr>bytes = BuildAProbe a, sourceAddress = a, destinationAddress = kMulticastAddress,
                    sourcePort = kMulticastPort, interfaceIndex = 1, hopLimit = 255\<rparr>"
  have "on_link ?p (?m (Ipv4Address 10 0 0 8))" "on_link ?q (?m (Ipv4Address 10 0 0 7))"
    by (simp_all add: on_link_def AcceptDatagramMetadata_def AcceptMessageHopLimit_def ClassifyMessage_built
        kMaximumQueryBytes_def kRequiredResponseHopLimit_def)
  moreover have "Ipv4Address 10 0 0 7 < Ipv4Address 10 0 0 8"
    by (simp add: less_Ipv4Address_def CompareAddresses_def)
  ultimately show ?thesis
    using simultaneous_probes_resolve [of ?p "?m (Ipv4Address 10 0 0 8)" ?q "?m (Ipv4Address 10 0 0 7)"]
    by (simp add: Let_def ConflictLocked_def)
qed

text \<open>
  However many queries arrive, within any second of a clock that does not run backwards the
  responder answers at most twenty, and at most ten when its window is fresh.
\<close>

theorem answers_rate_limited:
  assumes "sorted ts" and "\<forall>t\<in>set ts. unat t - unat (hd ts) < 1000" and "responses_in_window r \<le> 10"
  shows "length (answered ts r) \<le> 20
     \<and> (\<not> response_window_initialized r \<longrightarrow> length (answered ts r) \<le> 10)"
proof -
  have first: "unat (hd ts) \<le> unat t" if "t \<in> set ts" for t
    using assms(1) that by (cases ts) (auto simp: word_le_nat_alt)
  have close: "t' - t < 1000" if "t \<in> set ts" "t' \<in> set ts" "t \<le> t'" for t t'
    using that assms(2) first [of t] first [of t']
    by (intro close_times) (auto simp: word_le_nat_alt less_diff_conv2 intro: le_less_trans [OF diff_le_mono2])
  have "length (answered ts r) \<le> 20 - responses_in_window r"
    using close by (intro answered_two_windows assms) blast
  moreover have "length (answered ts r) \<le> 10" if "\<not> response_window_initialized r"
  proof (cases ts)
    case (Cons t ts')
    have "\<forall>t'\<in>set ts'. t' - t < 1000" using close [of t] assms(1) by (auto simp: Cons)
    then show ?thesis unfolding Cons using that by (intro answered_after_reset) simp_all
  qed simp
  ultimately show ?thesis by simp
qed

lemma answers_rate_limited_witness:
  "length (answered (replicate 12 5) newResponder) \<le> 10"
  using answers_rate_limited [of "replicate 12 5" newResponder] by (simp add: newResponder_def)

text \<open>
  A datagram from outside the link changes nothing and sends nothing: another source range,
  port, destination or interface, an oversized packet, or a response whose hop limit is not 255.
\<close>

theorem off_link_datagrams_ignored:
  assumes "\<not> on_link r d"
  shows "HandleProbingDatagram send_ok d r = (r, True) \<and> HandlePublishedDatagram send_ok now d r = (r, True)"
  using off_link_ignored [OF assms] by blast

lemma off_link_datagrams_ignored_witness:
  "HandlePublishedDatagram True 0 \<lparr>bytes = BuildARecord (Ipv4Address 10 0 0 9) 120, sourceAddress = Ipv4Address 10 0 0 9,
      destinationAddress = kMulticastAddress, sourcePort = kMulticastPort, interfaceIndex = 0, hopLimit = 64\<rparr> newResponder
   = (newResponder, True)"
proof -
  have "\<not> on_link newResponder \<lparr>bytes = BuildARecord (Ipv4Address 10 0 0 9) 120, sourceAddress = Ipv4Address 10 0 0 9,
      destinationAddress = kMulticastAddress, sourcePort = kMulticastPort, interfaceIndex = 0, hopLimit = 64\<rparr>"
    by (simp add: on_link_def AcceptMessageHopLimit_def ClassifyMessage_built kRequiredResponseHopLimit_def)
  from off_link_datagrams_ignored [OF this] show ?thesis by simp
qed

end
