(* ===== verification/Mdns_Transport.thy ===== *)
theory Mdns_Transport
  imports Mdns_Responder "HOL-Library.Multiset"
begin

text \<open>
  The sockets under the publisher, \<open>receiver/entry/src/main/cpp/mdns_posix_transport.cpp\<close>: the class
  \<open>PosixMdnsTransport\<close> with its one descriptor. The results of the system calls, the contents of a
  received message and its control headers are arguments. The descriptors that were opened and
  closed are logged.
\<close>

section \<open>The transport\<close>

record PosixTransport =
  descriptor :: int
  opened :: "int list"
  closed :: "int list"

definition newTransport :: PosixTransport where
  "newTransport = \<lparr>descriptor = - 1, opened = [], closed = []\<rparr>"

definition CloseTransport :: "PosixTransport \<Rightarrow> PosixTransport" where
  "CloseTransport s =
     (if descriptor s \<ge> 0 then s\<lparr>descriptor := - 1, closed := closed s @ [descriptor s]\<rparr> else s\<lparr>descriptor := - 1\<rparr>)"

record OpenEnv =
  socket_result :: int
  reuse_address :: int
  reuse_port :: int
  packet_info :: int
  receive_ttl :: int
  multicast_all :: int
  bind_result :: int
  add_membership :: int
  multicast_interface :: int
  multicast_ttl :: int
  multicast_loop :: int

definition OpenTransport :: "OpenEnv \<Rightarrow> PosixTransport \<Rightarrow> PosixTransport \<times> bool" where
  "OpenTransport env s =
     (let s = CloseTransport s
      in if socket_result env < 0 then (s, False)
         else
           (let s = s\<lparr>opened := opened s @ [socket_result env]\<rparr>; fail = (s\<lparr>closed := closed s @ [socket_result env]\<rparr>, False)
            in if reuse_address env \<noteq> 0 \<or> reuse_port env \<noteq> 0 \<or> packet_info env \<noteq> 0 \<or> receive_ttl env \<noteq> 0
                  \<or> multicast_all env \<noteq> 0 then fail
               else if bind_result env \<noteq> 0 then fail
               else if add_membership env \<noteq> 0 \<or> multicast_interface env \<noteq> 0 \<or> multicast_ttl env \<noteq> 0
                       \<or> multicast_loop env \<noteq> 0 then fail
               else (s\<lparr>descriptor := socket_result env\<rparr>, True)))"

definition SendPacket :: "int \<Rightarrow> byte list \<Rightarrow> PosixTransport \<Rightarrow> bool" where
  "SendPacket sentBytes packet s \<longleftrightarrow>
     \<not> (descriptor s < 0 \<or> packet = [] \<or> length packet > kMaximumResponseBytes) \<and> sentBytes = int (length packet)"

section \<open>Receiving\<close>

text \<open>
  A control header: packet information or the hop limit of the IP level, with whether its length is
  enough, or another one.
\<close>

datatype control_header = PacketInfo bool int Ipv4Address | HopLimit bool int | OtherHeader

text \<open>
  The answers to one call: of \<open>select\<close>, of \<open>recvmsg\<close>, and whether the descriptor was still there after
  each of them, since \<open>Close\<close> may come from another thread.
\<close>

record ReceiveEnv =
  ready :: int
  open_after_select :: bool
  recv_count :: int
  open_after_recv :: bool
  truncated :: bool
  peer_inet :: bool
  peer_address :: Ipv4Address
  peer_port :: u16
  receive_buffer :: "byte list"
  control_headers :: "control_header list"

definition empty_datagram :: MdnsDatagram where
  "empty_datagram = \<lparr>bytes = [], sourceAddress = Ipv4Address 0 0 0 0, destinationAddress = Ipv4Address 0 0 0 0,
     sourcePort = 0, interfaceIndex = 0, hopLimit = - 1\<rparr>"

text \<open>The loop over the control headers.\<close>

definition take_header :: "(int \<times> Ipv4Address) option \<times> int \<Rightarrow> control_header \<Rightarrow> (int \<times> Ipv4Address) option \<times> int" where
  "take_header acc h =
     (case h of
        PacketInfo enough ifindex address \<Rightarrow> if enough then (Some (ifindex, address), snd acc) else acc
      | HopLimit enough ttl \<Rightarrow> if enough then (fst acc, ttl) else acc
      | OtherHeader \<Rightarrow> acc)"

definition received_datagram :: "ReceiveEnv \<Rightarrow> MdnsDatagram" where
  "received_datagram env =
     (case foldl take_header (None, - 1) (control_headers env) of
        (info, ttl) \<Rightarrow>
          \<lparr>bytes = take (nat (recv_count env)) (receive_buffer env), sourceAddress = peer_address env,
           destinationAddress = (case info of None \<Rightarrow> Ipv4Address 0 0 0 0 | Some (i, a) \<Rightarrow> a),
           sourcePort = peer_port env,
           interfaceIndex = (case info of None \<Rightarrow> 0 | Some (i, a) \<Rightarrow> if i > 0 then word_of_int i else 0),
           hopLimit = ttl\<rparr>)"

definition ReceivePacket :: "int \<Rightarrow> ReceiveEnv \<Rightarrow> PosixTransport \<Rightarrow> MdnsReceiveResult" where
  "ReceivePacket timeoutMilliseconds env s =
     (if timeoutMilliseconds < 0 then kReceiveError
      else if descriptor s < 0 then kTimeout
      else if ready env = 0 \<or> \<not> open_after_select env then kTimeout
      else if ready env < 0 then kReceiveError
      else if recv_count env \<le> 0 then (if open_after_recv env then kReceiveError else kTimeout)
      else if truncated env \<or> nat (recv_count env) > kMaximumQueryBytes \<or> \<not> peer_inet env then kPacket empty_datagram
      else kPacket (received_datagram env))"

text \<open>\<open>value\<close> is what was read from the random device, if four bytes were.\<close>

definition RandomDelayMilliseconds :: "int \<Rightarrow> u32 option \<Rightarrow> int" where
  "RandomDelayMilliseconds maximumInclusive value =
     (if maximumInclusive \<le> 0 then 0
      else (case value of
              Some v \<Rightarrow> sint (ucast (v mod (word_of_int maximumInclusive + 1)) :: 32 word)
            | None \<Rightarrow> maximumInclusive div 2))"

section \<open>What the kernel delivers\<close>

text \<open>
  A packet on the network as the kernel hands it over with the options that \<open>Open\<close> has set: the
  buffer takes one byte more than the longest query, a longer packet is cut and flagged, and the
  two control headers come in either order.
\<close>

definition kernel_delivers :: "MdnsDatagram \<Rightarrow> ReceiveEnv \<Rightarrow> bool" where
  "kernel_delivers p env \<longleftrightarrow>
     ready env > 0 \<and> open_after_select env \<and> open_after_recv env \<and> peer_inet env \<and> bytes p \<noteq> [] \<and>
     receive_buffer env = take (kMaximumQueryBytes + 1) (bytes p) \<and> recv_count env = int (length (receive_buffer env)) \<and>
     truncated env = (length (bytes p) > kMaximumQueryBytes + 1) \<and>
     peer_address env = sourceAddress p \<and> peer_port env = sourcePort p \<and>
     (\<exists>i. i > 0 \<and> word_of_int i = interfaceIndex p \<and>
        (control_headers env = [PacketInfo True i (destinationAddress p), HopLimit True (hopLimit p)] \<or>
         control_headers env = [HopLimit True (hopLimit p), PacketInfo True i (destinationAddress p)]))"

lemma kernel_delivers_received:
  assumes "kernel_delivers p env" "length (bytes p) \<le> kMaximumQueryBytes"
  shows "received_datagram env = p"
  using assms by (cases p) (auto simp: kernel_delivers_def received_datagram_def take_header_def)

lemma long_packet_off_link: "length (bytes p) > kMaximumQueryBytes \<Longrightarrow> \<not> on_link r p"
  by (simp add: on_link_def AcceptDatagramMetadata_def)

lemma empty_datagram_off_link: "\<not> on_link r empty_datagram"
  by (simp add: on_link_def AcceptDatagramMetadata_def empty_datagram_def kMulticastPort_def)

text \<open>
  C14. The transport hides nothing from the publisher and makes nothing up. For every packet that the
  kernel delivers to the open socket, the datagram that \<open>Receive\<close> reports makes the publisher, probing
  or published, do exactly what the packet itself would: packets of up to 512 bytes are handed on
  with their source, destination, interface and hop limit, and longer ones, which are not for it, as
  an empty datagram that it ignores.
\<close>

theorem transport_faithful:
  assumes "kernel_delivers p env" "0 \<le> descriptor s" "0 \<le> timeout"
  shows "\<exists>d. ReceivePacket timeout env s = kPacket d \<and>
    HandleProbingDatagram send_ok d r = HandleProbingDatagram send_ok p r \<and>
    HandlePublishedDatagram send_ok clock d r = HandlePublishedDatagram send_ok clock p r"
proof (cases "length (bytes p) \<le> kMaximumQueryBytes")
  case True
  then have "ReceivePacket timeout env s = kPacket p"
    using assms kernel_delivers_received [OF assms(1) True] by (auto simp: ReceivePacket_def kernel_delivers_def)
  then show ?thesis by blast
next
  case False
  then have "ReceivePacket timeout env s = kPacket empty_datagram"
    using assms by (auto simp: ReceivePacket_def kernel_delivers_def)
  then show ?thesis using off_link_ignored long_packet_off_link [of p r] empty_datagram_off_link [of r] False by auto
qed

definition examplePacket :: MdnsDatagram where
  "examplePacket = \<lparr>bytes = BuildAProbe (Ipv4Address 192 168 1 7), sourceAddress = Ipv4Address 192 168 1 7,
     destinationAddress = kMulticastAddress, sourcePort = kMulticastPort, interfaceIndex = 3, hopLimit = 255\<rparr>"

definition exampleReceive :: ReceiveEnv where
  "exampleReceive = \<lparr>ready = 1, open_after_select = True, recv_count = int (length (BuildAProbe (Ipv4Address 192 168 1 7))),
     open_after_recv = True, truncated = False, peer_inet = True, peer_address = Ipv4Address 192 168 1 7,
     peer_port = kMulticastPort, receive_buffer = BuildAProbe (Ipv4Address 192 168 1 7),
     control_headers = [HopLimit True 255, PacketInfo True 3 kMulticastAddress]\<rparr>"

theorem transport_faithful_witness:
  "\<exists>d. ReceivePacket 200 exampleReceive (newTransport\<lparr>descriptor := 5\<rparr>) = kPacket d \<and>
     HandleProbingDatagram True d newResponder = HandleProbingDatagram True examplePacket newResponder \<and>
     HandlePublishedDatagram True 0 d newResponder = HandlePublishedDatagram True 0 examplePacket newResponder"
proof (rule transport_faithful)
  have "length (BuildAProbe (Ipv4Address 192 168 1 7)) \<le> 64" "BuildAProbe (Ipv4Address 192 168 1 7) \<noteq> []"
    by (simp add: BuildAProbe_def Let_def kMaximumResponseBytes_def) (simp add: BuildAProbe_render render_header_def)
  then show "kernel_delivers examplePacket exampleReceive"
    by (auto simp: kernel_delivers_def examplePacket_def exampleReceive_def kMaximumQueryBytes_def intro!: exI [of _ 3])
qed simp_all

section \<open>Descriptors and delays\<close>

datatype transport_call = CallOpen OpenEnv | CallClose

fun transport_step :: "transport_call \<Rightarrow> PosixTransport \<Rightarrow> PosixTransport" where
  "transport_step (CallOpen env) s = fst (OpenTransport env s)"
| "transport_step CallClose s = CloseTransport s"

definition transport_inv :: "PosixTransport \<Rightarrow> bool" where
  "transport_inv s \<longleftrightarrow>
     mset (opened s) = mset (closed s) + (if descriptor s \<ge> 0 then {#descriptor s#} else {#}) \<and> list_all (\<lambda>d. d \<ge> 0) (opened s)"

lemma CloseTransport_inv: "transport_inv s \<Longrightarrow> transport_inv (CloseTransport s) \<and> descriptor (CloseTransport s) < 0"
  by (auto simp: transport_inv_def CloseTransport_def)

interpretation transport: invariant_system newTransport transport_step transport_inv
proof
  show "transport_inv newTransport" by (simp add: transport_inv_def newTransport_def)
  show "transport_inv (transport_step e s)" if "transport_inv s" for e s
    using CloseTransport_inv [OF that]
    by (cases e) (auto simp: OpenTransport_def Let_def transport_inv_def)
qed

text \<open>Each descriptor that a run has opened is closed once, except the one in use; after \<open>Close\<close> all are closed.\<close>

lemma descriptors_closed:
  "mset (opened (fold transport_step calls newTransport)) = mset (closed (CloseTransport (fold transport_step calls newTransport)))"
proof -
  have "mset (opened s) = mset (closed (CloseTransport s))" if "transport_inv s" for s
    using that by (auto simp: transport_inv_def CloseTransport_def)
  then show ?thesis using transport.inv_run by blast
qed

lemma delay_bounded:
  assumes "0 \<le> maximum" "maximum < 2 ^ 31 - 1"
  shows "0 \<le> RandomDelayMilliseconds maximum value" "RandomDelayMilliseconds maximum value \<le> maximum"
proof -
  have "0 \<le> sint (v mod (word_of_int maximum + 1) :: 32 word) \<and> sint (v mod (word_of_int maximum + 1) :: 32 word) \<le> maximum" for v
  proof -
    have m: "uint (word_of_int maximum + 1 :: 32 word) = maximum + 1"
      using assms by (simp add: uint_word_ariths uint_word_of_int)
    have "uint (v mod (word_of_int maximum + 1) :: 32 word) = uint v mod (maximum + 1)" by (simp add: uint_mod m)
    moreover have "0 \<le> uint v mod (maximum + 1)" "uint v mod (maximum + 1) \<le> maximum"
      using assms(1) pos_mod_bound [of "maximum + 1" "uint v"] by simp_all
    ultimately show ?thesis using assms(2) by (simp add: sint_uint signed_take_bit_int_eq_self)
  qed
  then show "0 \<le> RandomDelayMilliseconds maximum value" "RandomDelayMilliseconds maximum value \<le> maximum"
    using assms(1) by (auto simp: RandomDelayMilliseconds_def split: option.split)
qed

end
