(* ===== verification/Decoder_Control.thy ===== *)
theory Decoder_Control
  imports Hwc_Prelude "HOL-Library.Multiset"
begin

text \<open>
  The control structures around the receiver's platform decoder, all under
  \<open>receiver/entry/src/main/cpp\<close>: \<open>decoder_state.h\<close> and \<open>decoder_orchestration.h\<close> (lifecycle
  gate and recovery coordinator), \<open>avc_decoder_input.h\<close> (splitting a key frame into codec data and
  sync frame), \<open>receiver_lifecycle_state.h\<close> (surface and foreground decisions),
  \<open>bounded_control_queue.h\<close> (the telemetry queue, a drop-oldest FIFO behind a locale) and
  \<open>connect_policy.h\<close>. An address is a \<open>u64\<close>, null is 0.
\<close>

section \<open>Decoder state\<close>

datatype DecoderLifecycleState =
  DecoderStopped | DecoderStarting | DecoderRunning | DecoderFlushing | DecoderStopping

datatype FlushRecoveryAction = kResume | kRebuild
datatype DecoderInputKind = kCodecData | kSyncFrame | kFrame
datatype DecoderRecoveryState = kNeedsCodecData | kNeedsSyncFrame | kReady

record DecodeQueueAdmission =
  accepted :: bool
  clearPending :: bool
  requestKeyFrame :: bool
  nextState :: DecoderRecoveryState

definition EvaluateDecodeQueueAdmission ::
    "nat \<Rightarrow> nat \<Rightarrow> DecoderRecoveryState \<Rightarrow> DecodeQueueAdmission" where
  "EvaluateDecodeQueueAdmission queuedFrames capacity currentState =
     (if queuedFrames < capacity
      then \<lparr>accepted = True, clearPending = False, requestKeyFrame = False, nextState = currentState\<rparr>
      else \<lparr>accepted = False, clearPending = True, requestKeyFrame = True, nextState = kNeedsCodecData\<rparr>)"

definition DecoderCallbacksAllowed :: "DecoderLifecycleState \<Rightarrow> bool" where
  "DecoderCallbacksAllowed state \<longleftrightarrow> state = DecoderRunning"

definition EvaluateFlushRecovery :: "bool \<Rightarrow> bool \<Rightarrow> FlushRecoveryAction" where
  "EvaluateFlushRecovery flushSucceeded restartSucceeded =
     (if flushSucceeded \<and> restartSucceeded then kResume else kRebuild)"

definition DecoderInputAllowed :: "DecoderRecoveryState \<Rightarrow> DecoderInputKind \<Rightarrow> bool" where
  "DecoderInputAllowed state kind =
     (if state = kNeedsCodecData then kind = kCodecData
      else if state = kNeedsSyncFrame then kind = kSyncFrame
      else kind = kSyncFrame \<or> kind = kFrame)"

definition AdvanceDecoderRecovery ::
    "DecoderRecoveryState \<Rightarrow> DecoderInputKind \<Rightarrow> bool \<Rightarrow> DecoderRecoveryState" where
  "AdvanceDecoderRecovery state kind pushed =
     (if \<not> pushed then kNeedsCodecData
      else if state = kNeedsCodecData \<and> kind = kCodecData then kNeedsSyncFrame
      else if state = kNeedsSyncFrame \<and> kind = kSyncFrame then kReady
      else state)"

text \<open>\<open>DecoderRecoveryCoordinator\<close>: the recovery state and the pending key-frame request.\<close>

record DecoderRecoveryCoordinator =
  recovery_state :: DecoderRecoveryState
  keyframe_request_pending :: bool

definition newCoordinator :: DecoderRecoveryCoordinator where
  "newCoordinator = \<lparr>recovery_state = kNeedsCodecData, keyframe_request_pending = False\<rparr>"

definition RecoveryReset :: "DecoderRecoveryCoordinator \<Rightarrow> DecoderRecoveryCoordinator" where
  "RecoveryReset c = c\<lparr>recovery_state := kNeedsCodecData, keyframe_request_pending := False\<rparr>"

definition InputAllowed :: "DecoderInputKind \<Rightarrow> DecoderRecoveryCoordinator \<Rightarrow> bool" where
  "InputAllowed kind c = DecoderInputAllowed (recovery_state c) kind"

definition RequireCodecData :: "DecoderRecoveryCoordinator \<Rightarrow> DecoderRecoveryCoordinator" where
  "RequireCodecData c = c\<lparr>recovery_state := kNeedsCodecData\<rparr>"

definition RequestKeyFrame :: "DecoderRecoveryCoordinator \<Rightarrow> DecoderRecoveryCoordinator" where
  "RequestKeyFrame c = c\<lparr>keyframe_request_pending := True\<rparr>"

definition ConsumeKeyFrameRequest ::
    "DecoderRecoveryCoordinator \<Rightarrow> DecoderRecoveryCoordinator \<times> bool" where
  "ConsumeKeyFrameRequest c = (c\<lparr>keyframe_request_pending := False\<rparr>, keyframe_request_pending c)"

text \<open>\<open>Admit\<close> runs the caller's \<open>clearPending\<close>; whether it did is the last component.\<close>

definition Admit ::
    "nat \<Rightarrow> nat \<Rightarrow> DecoderRecoveryCoordinator \<Rightarrow> DecoderRecoveryCoordinator \<times> DecodeQueueAdmission \<times> bool" where
  "Admit queuedFrames capacity c =
     (let admission = EvaluateDecodeQueueAdmission queuedFrames capacity (recovery_state c)
      in if \<not> accepted admission
         then (let c' = c\<lparr>recovery_state := nextState admission\<rparr>
               in (if requestKeyFrame admission then RequestKeyFrame c' else c',
                   admission, clearPending admission))
         else (c, admission, False))"

definition OnInputSubmitted ::
    "DecoderInputKind \<Rightarrow> bool \<Rightarrow> DecoderRecoveryCoordinator \<Rightarrow> DecoderRecoveryCoordinator" where
  "OnInputSubmitted kind submitted c =
     (let c' = c\<lparr>recovery_state := AdvanceDecoderRecovery (recovery_state c) kind submitted\<rparr>
      in if \<not> submitted then RequestKeyFrame c' else c')"

lemmas coordinator_defs =
  newCoordinator_def RecoveryReset_def InputAllowed_def RequireCodecData_def RequestKeyFrame_def
  ConsumeKeyFrameRequest_def OnInputSubmitted_def Admit_def EvaluateDecodeQueueAdmission_def Let_def

section \<open>Annex-B recovery input\<close>

record AvcRecoveryInput =
  codecData :: "byte list"
  syncFrame :: "byte list"
  hasSps :: bool
  hasPps :: bool
  hasIdr :: bool

definition emptyRecovery :: AvcRecoveryInput where
  "emptyRecovery = \<lparr>codecData = [], syncFrame = [], hasSps = False, hasPps = False, hasIdr = False\<rparr>"

definition recovery_complete :: "AvcRecoveryInput \<Rightarrow> bool" where
  "recovery_complete r \<longleftrightarrow> hasSps r \<and> hasPps r \<and> hasIdr r"

definition AvcStartCodeLength :: "byte list \<Rightarrow> nat \<Rightarrow> nat" where
  "AvcStartCodeLength bytes offset =
     (if offset + 3 \<le> length bytes \<and> bytes ! offset = 0 \<and> bytes ! (offset + 1) = 0 \<and>
         bytes ! (offset + 2) = 1 then 3
      else if offset + 4 \<le> length bytes \<and> bytes ! offset = 0 \<and> bytes ! (offset + 1) = 0 \<and>
         bytes ! (offset + 2) = 0 \<and> bytes ! (offset + 3) = 1 then 4
      else 0)"

function FindAvcStartCode :: "byte list \<Rightarrow> nat \<Rightarrow> nat" where
  "FindAvcStartCode bytes cursor =
     (if cursor + 3 \<le> length bytes
      then if AvcStartCodeLength bytes cursor \<noteq> 0 then cursor
           else FindAvcStartCode bytes (cursor + 1)
      else length bytes)"
  by pat_completeness auto
termination by (relation "measure (\<lambda>(bytes, cursor). length bytes - cursor)") auto

declare FindAvcStartCode.simps [simp del]

definition append_unit :: "byte list \<Rightarrow> nat \<Rightarrow> nat \<Rightarrow> byte \<Rightarrow> AvcRecoveryInput \<Rightarrow> AvcRecoveryInput" where
  "append_unit bytes start next_start header result =
     (let nalType = header AND 0x1f;
          unit = take (next_start - start) (drop start bytes);
          result = (if nalType = 7 \<or> nalType = 8
                    then result\<lparr>codecData := codecData result @ unit\<rparr>
                    else result\<lparr>syncFrame := syncFrame result @ unit\<rparr>)
      in result\<lparr>hasSps := hasSps result \<or> nalType = 7, hasPps := hasPps result \<or> nalType = 8,
                hasIdr := hasIdr result \<or> nalType = 5\<rparr>)"

lemma FindAvcStartCode_bounds:
  "cursor \<le> length bytes \<Longrightarrow> cursor \<le> FindAvcStartCode bytes cursor \<and> FindAvcStartCode bytes cursor \<le> length bytes"
proof (induction bytes cursor rule: FindAvcStartCode.induct)
  case (1 bytes cursor)
  then show ?case by (subst (1 2) FindAvcStartCode.simps) auto
qed

function Split_loop :: "byte list \<Rightarrow> nat \<Rightarrow> AvcRecoveryInput \<Rightarrow> AvcRecoveryInput" where
  "Split_loop bytes start result =
     (if start < length bytes then
        (let prefix = AvcStartCodeLength bytes start;
             nalOffset = start + prefix
         in if prefix = 0 \<or> length bytes \<le> nalOffset then emptyRecovery
            else (let next_start = FindAvcStartCode bytes (nalOffset + 1)
                  in Split_loop bytes next_start
                       (append_unit bytes start next_start (bytes ! nalOffset) result)))
      else result)"
  by pat_completeness auto
termination
proof (relation "measure (\<lambda>(bytes, start, result). length bytes - start)", goal_cases)
  case (2 bytes start result prefix nalOffset next_start)
  then have "nalOffset + 1 \<le> next_start"
    using FindAvcStartCode_bounds [of "nalOffset + 1" bytes] by simp
  with 2 have "start < next_start" "start < length bytes" by simp_all
  then show ?case by simp
qed simp

declare Split_loop.simps [simp del]

definition SplitAvcRecoveryInput :: "byte list \<Rightarrow> AvcRecoveryInput" where
  "SplitAvcRecoveryInput bytes =
     (let start = FindAvcStartCode bytes 0
      in if start \<noteq> 0 then emptyRecovery else Split_loop bytes start emptyRecovery)"

section \<open>Surface and foreground lifecycle\<close>

record DecoderRuntimeSnapshot =
  runtime_state :: DecoderLifecycleState
  available :: bool

record ReceiverLifecycleDecision =
  decision_accepted :: bool
  stopDecoder :: bool
  startDecoder :: bool

definition rejected :: ReceiverLifecycleDecision where
  "rejected = \<lparr>decision_accepted = False, stopDecoder = False, startDecoder = False\<rparr>"

record ReceiverLifecycleState =
  foreground :: bool
  lifecycle_component :: u64
  surface :: u64

definition newLifecycle :: ReceiverLifecycleState where
  "newLifecycle = \<lparr>foreground = True, lifecycle_component = 0, surface = 0\<rparr>"

definition DecoderShouldRun :: "ReceiverLifecycleState \<Rightarrow> bool" where
  "DecoderShouldRun l \<longleftrightarrow> foreground l \<and> surface l \<noteq> 0"

definition Reconcile ::
    "bool \<Rightarrow> bool \<Rightarrow> DecoderRuntimeSnapshot \<Rightarrow> ReceiverLifecycleState \<Rightarrow> ReceiverLifecycleDecision" where
  "Reconcile accept identityChanged decoder l =
     (let decoderExists = available decoder \<or> runtime_state decoder \<noteq> DecoderStopped;
          decoderHealthy = available decoder \<and> runtime_state decoder = DecoderRunning;
          shouldRun = DecoderShouldRun l
      in \<lparr>decision_accepted = accept,
          stopDecoder = decoderExists \<and> (\<not> shouldRun \<or> identityChanged \<or> \<not> decoderHealthy),
          startDecoder = shouldRun \<and> (identityChanged \<or> \<not> decoderHealthy)\<rparr>)"

definition SurfaceCreated :: "u64 \<Rightarrow> u64 \<Rightarrow> DecoderRuntimeSnapshot \<Rightarrow> ReceiverLifecycleState \<Rightarrow>
    ReceiverLifecycleState \<times> ReceiverLifecycleDecision" where
  "SurfaceCreated comp_id surf decoder l =
     (if comp_id = 0 \<or> surf = 0 then (l, rejected)
      else (let identityChanged = (comp_id \<noteq> lifecycle_component l \<or> surf \<noteq> surface l);
                l' = l\<lparr>lifecycle_component := comp_id, surface := surf\<rparr>
            in (l', Reconcile True identityChanged decoder l')))"

definition SurfaceChanged :: "u64 \<Rightarrow> u64 \<Rightarrow> DecoderRuntimeSnapshot \<Rightarrow> ReceiverLifecycleState \<Rightarrow>
    ReceiverLifecycleState \<times> ReceiverLifecycleDecision" where
  "SurfaceChanged comp_id surf decoder l =
     (if comp_id = 0 \<or> surf = 0 \<or> (lifecycle_component l \<noteq> 0 \<and> comp_id \<noteq> lifecycle_component l)
      then (l, rejected)
      else (let identityChanged = (comp_id \<noteq> lifecycle_component l \<or> surf \<noteq> surface l);
                l' = l\<lparr>lifecycle_component := comp_id, surface := surf\<rparr>
            in (l', Reconcile True identityChanged decoder l')))"

definition SurfaceDestroyed :: "u64 \<Rightarrow> u64 \<Rightarrow> DecoderRuntimeSnapshot \<Rightarrow> ReceiverLifecycleState \<Rightarrow>
    ReceiverLifecycleState \<times> ReceiverLifecycleDecision" where
  "SurfaceDestroyed comp_id surf decoder l =
     (if lifecycle_component l = 0 \<or> surface l = 0 \<or> comp_id \<noteq> lifecycle_component l \<or> surf \<noteq> surface l
      then (l, rejected)
      else (let l' = l\<lparr>lifecycle_component := 0, surface := 0\<rparr>
            in (l', Reconcile True True decoder l')))"

definition Foreground :: "DecoderRuntimeSnapshot \<Rightarrow> ReceiverLifecycleState \<Rightarrow>
    ReceiverLifecycleState \<times> ReceiverLifecycleDecision" where
  "Foreground decoder l =
     (let l' = l\<lparr>foreground := True\<rparr> in (l', Reconcile True False decoder l'))"

definition Background :: "DecoderRuntimeSnapshot \<Rightarrow> ReceiverLifecycleState \<Rightarrow>
    ReceiverLifecycleState \<times> ReceiverLifecycleDecision" where
  "Background decoder l =
     (let l' = l\<lparr>foreground := False\<rparr> in (l', Reconcile True False decoder l'))"

section \<open>The bounded control queue\<close>

record BoundedControlQueue =
  capacity :: nat
  messages :: "string list"

definition newQueue :: "nat \<Rightarrow> BoundedControlQueue" where
  "newQueue n = \<lparr>capacity = n, messages = []\<rparr>"

text \<open>\<open>while (messages_.size() >= capacity_) messages_.pop_front()\<close>, entered with a positive capacity.\<close>

fun make_room :: "nat \<Rightarrow> string list \<Rightarrow> string list" where
  "make_room cap [] = []"
| "make_room cap (m # ms) = (if cap \<le> length (m # ms) then make_room cap ms else m # ms)"

definition QueuePush :: "string \<Rightarrow> BoundedControlQueue \<Rightarrow> BoundedControlQueue" where
  "QueuePush message q =
     (if capacity q = 0 then q
      else q\<lparr>messages := make_room (capacity q) (messages q) @ [message]\<rparr>)"

definition TryPop :: "BoundedControlQueue \<Rightarrow> BoundedControlQueue \<times> string option" where
  "TryPop q =
     (case messages q of [] \<Rightarrow> (q, None) | m # ms \<Rightarrow> (q\<lparr>messages := ms\<rparr>, Some m))"

definition QueueClear :: "BoundedControlQueue \<Rightarrow> BoundedControlQueue" where
  "QueueClear q = q\<lparr>messages := []\<rparr>"

section \<open>Waiting for a connection\<close>

datatype ConnectWaitDecision = kContinue | kConnected | kFailed | kCancelled | kTimedOut

definition EvaluateConnectWait :: "bool \<Rightarrow> bool \<Rightarrow> bool \<Rightarrow> int \<Rightarrow> ConnectWaitDecision" where
  "EvaluateConnectWait desired deadlineReached socketReady socketError =
     (if \<not> desired then kCancelled
      else if deadlineReached then kTimedOut
      else if \<not> socketReady then kContinue
      else if socketError = 0 then kConnected else kFailed)"

section \<open>What the splitter finds\<close>

text \<open>
  A byte stream as Annex B describes it: units of a start code and a non-empty NAL that does not
  end in a zero byte and contains no start code.
\<close>

datatype nal_unit = Nal (long_code: bool) (nal_bytes: "byte list")

definition start_code :: "nal_unit \<Rightarrow> byte list" where
  "start_code u = (if long_code u then [0, 0, 0, 1] else [0, 0, 1])"

definition unit_bytes :: "nal_unit \<Rightarrow> byte list" where
  "unit_bytes u = start_code u @ nal_bytes u"

definition code_at :: "byte list \<Rightarrow> nat \<Rightarrow> bool" where
  "code_at xs i \<longleftrightarrow> i + 2 < length xs \<and> xs ! i = 0 \<and> xs ! (i + 1) = 0 \<and> xs ! (i + 2) = 1"

definition wellformed_nal :: "nal_unit \<Rightarrow> bool" where
  "wellformed_nal u \<longleftrightarrow> nal_bytes u \<noteq> [] \<and> last (nal_bytes u) \<noteq> 0 \<and>
     list_all (\<lambda>i. \<not> code_at (nal_bytes u) i) [0..<length (nal_bytes u)]"

definition unit_type :: "nal_unit \<Rightarrow> byte" where
  "unit_type u = hd (nal_bytes u) AND 0x1f"

definition parameter_set :: "nal_unit \<Rightarrow> bool" where
  "parameter_set u \<longleftrightarrow> unit_type u = 7 \<or> unit_type u = 8"

lemma FindAvcStartCode_skips:
  assumes "c \<le> e" "e \<le> length bytes" "\<And>i. c \<le> i \<Longrightarrow> i < e \<Longrightarrow> AvcStartCodeLength bytes i = 0"
    and "AvcStartCodeLength bytes e \<noteq> 0 \<or> e = length bytes"
  shows "FindAvcStartCode bytes c = e"
  using assms
proof (induction bytes c rule: FindAvcStartCode.induct)
  case (1 bytes c)
  show ?case
  proof (cases "c = e")
    case True
    then show ?thesis
      using 1(5) by (subst FindAvcStartCode.simps) (auto simp: AvcStartCodeLength_def split: if_splits)
  next
    case False
    then have "c < e" "AvcStartCodeLength bytes c = 0" using 1 by auto
    show ?thesis
    proof (cases "c + 3 \<le> length bytes")
      case True
      have "FindAvcStartCode bytes (c + 1) = e"
        using 1(1) [OF True] \<open>AvcStartCodeLength bytes c = 0\<close> \<open>c < e\<close> 1(3-5) by auto
      then show ?thesis
        using True \<open>AvcStartCodeLength bytes c = 0\<close> by (subst FindAvcStartCode.simps) simp
    next
      case short: False
      then have "e = length bytes"
        using 1(5) \<open>c < e\<close> by (auto simp: AvcStartCodeLength_def split: if_splits)
      then show ?thesis using short by (subst FindAvcStartCode.simps) simp
    qed
  qed
qed

lemma AvcStartCodeLength_zeros:
  assumes "AvcStartCodeLength bytes k \<noteq> 0"
  obtains j where "j = k \<or> j = k + 1 \<and> bytes ! k = 0"
    and "bytes ! j = 0" "bytes ! (j + 1) = 0" "bytes ! (j + 2) = 1"
proof (cases "bytes ! (k + 2) = 1")
  case True
  then show ?thesis
    using assms that [of k] by (auto simp: AvcStartCodeLength_def split: if_splits)
next
  case False
  then show ?thesis
    using assms that [of "k + 1"] by (auto simp: AvcStartCodeLength_def numeral_3_eq_3 split: if_splits)
qed

lemma no_code_inside:
  assumes wf: "wellformed_nal u" and i: "0 < i" "i < length (nal_bytes u)"
  shows "AvcStartCodeLength (p @ nal_bytes u @ post) (length p + i) = 0"
proof (rule ccontr)
  let ?n = "nal_bytes u" and ?b = "p @ nal_bytes u @ post"
  assume "AvcStartCodeLength ?b (length p + i) \<noteq> 0"
  then obtain k where k: "k = length p + i \<or> k = length p + i + 1 \<and> ?b ! (length p + i) = 0"
      and zeros: "?b ! k = 0" "?b ! (k + 1) = 0" "?b ! (k + 2) = 1"
    by (rule AvcStartCodeLength_zeros)
  have "?b ! (length p + i) = ?n ! i"
    using i by (simp add: nth_append)
  with k obtain j where j: "j = i \<or> (j = i + 1 \<and> ?n ! i = 0)" and "k = length p + j"
    by (metis add.assoc)
  with zeros have code: "?b ! (length p + j) = 0" "?b ! (length p + j + 1) = 0"
      "?b ! (length p + j + 2) = 1"
    by simp_all
  have last: "?n ! (length ?n - 1) \<noteq> 0"
    using wf by (auto simp: wellformed_nal_def last_conv_nth)
  have "j < length ?n"
    using j i last by (cases "j = length ?n") (auto simp: not_less)
  show False
  proof (cases "j + 2 < length ?n")
    case True
    then have "code_at ?n j"
      using code by (simp add: code_at_def nth_append add.assoc)
    then show False
      using wf \<open>j < length ?n\<close> by (auto simp: wellformed_nal_def list_all_iff)
  next
    case False
    then have "length ?n - 1 = j \<or> (length ?n - 1 = j + 1 \<and> j + 1 < length ?n)"
      using \<open>j < length ?n\<close> by linarith
    then show False
      using last code \<open>j < length ?n\<close> False by (auto simp: nth_append add.assoc)
  qed
qed

lemma code_at_start:
  "AvcStartCodeLength (p @ unit_bytes u @ post) (length p) = length (start_code u)"
  by (auto simp: AvcStartCodeLength_def unit_bytes_def start_code_def nth_append)

lemma length_start_code: "length (start_code u) \<noteq> 0"
  by (simp add: start_code_def)

lemma start_code_not_Nil [simp]: "start_code u \<noteq> []" "unit_bytes u \<noteq> []"
  by (simp_all add: start_code_def unit_bytes_def)

lemma units_start_or_end:
  "AvcStartCodeLength (p @ concat (map unit_bytes us)) (length p) \<noteq> 0 \<or>
   length p = length (p @ concat (map unit_bytes us))"
  by (cases us) (simp_all add: code_at_start length_start_code)

definition gather :: "AvcRecoveryInput \<Rightarrow> nal_unit list \<Rightarrow> AvcRecoveryInput" where
  "gather r us =
     \<lparr>codecData = codecData r @ concat (map unit_bytes (filter parameter_set us)),
      syncFrame = syncFrame r @ concat (map unit_bytes (filter (\<lambda>u. \<not> parameter_set u) us)),
      hasSps = (hasSps r \<or> (\<exists>u \<in> set us. unit_type u = 7)),
      hasPps = (hasPps r \<or> (\<exists>u \<in> set us. unit_type u = 8)),
      hasIdr = (hasIdr r \<or> (\<exists>u \<in> set us. unit_type u = 5))\<rparr>"

lemma Split_loop_units:
  assumes "\<forall>u \<in> set us. wellformed_nal u"
  shows "Split_loop (p @ concat (map unit_bytes us)) (length p) r = gather r us"
  using assms
proof (induction us arbitrary: p r)
  case Nil
  show ?case by (subst Split_loop.simps) (simp add: gather_def)
next
  case (Cons u us)
  let ?rest = "concat (map unit_bytes us)"
  let ?b = "p @ unit_bytes u @ ?rest"
  have wf: "wellformed_nal u" and ne: "nal_bytes u \<noteq> []"
    using Cons.prems by (auto simp: wellformed_nal_def)
  have pre: "AvcStartCodeLength ?b (length p) = length (start_code u)"
    by (rule code_at_start)
  let ?off = "length p + length (start_code u)"
  let ?stop = "length p + length (unit_bytes u)"
  have "?off < length ?b"
    using ne by (simp add: unit_bytes_def)
  have head: "?b ! ?off = hd (nal_bytes u)"
    using ne by (simp add: unit_bytes_def nth_append hd_conv_nth)
  have next_code: "FindAvcStartCode ?b (?off + 1) = ?stop"
  proof (rule FindAvcStartCode_skips)
    show "?off + 1 \<le> ?stop" using ne by (cases "nal_bytes u") (auto simp: unit_bytes_def)
    show "?stop \<le> length ?b" by simp
    show "AvcStartCodeLength ?b i = 0" if "?off + 1 \<le> i" "i < ?stop" for i
      using no_code_inside [OF wf, of "i - ?off" "p @ start_code u" ?rest] that
      by (simp add: unit_bytes_def)
    show "AvcStartCodeLength ?b ?stop \<noteq> 0 \<or> ?stop = length ?b"
      using units_start_or_end [of "p @ unit_bytes u" us] by simp
  qed
  have step: "Split_loop ?b (length p) r =
      Split_loop ?b ?stop (append_unit ?b (length p) ?stop (hd (nal_bytes u)) r)"
    using pre \<open>?off < length ?b\<close> next_code head length_start_code [of u]
    by (subst Split_loop.simps) (auto simp: Let_def)
  also have "\<dots> = gather (append_unit ?b (length p) ?stop (hd (nal_bytes u)) r) us"
    using Cons.IH [of "p @ unit_bytes u"] Cons.prems by simp
  also have "\<dots> = gather r (u # us)"
    by (auto simp: gather_def append_unit_def Let_def parameter_set_def unit_type_def)
  finally show ?case by simp
qed

lemma SplitAvcRecoveryInput_gathers:
  assumes "\<forall>u \<in> set us. wellformed_nal u"
  shows "SplitAvcRecoveryInput (concat (map unit_bytes us)) = gather emptyRecovery us"
proof -
  have "FindAvcStartCode (concat (map unit_bytes us)) 0 = 0"
    using FindAvcStartCode_skips [of 0 0] units_start_or_end [of "[]" us] by simp
  then show ?thesis
    using Split_loop_units [OF assms, of "[]"] by (simp add: SplitAvcRecoveryInput_def)
qed

text \<open>On any input, the two parts together hold every byte, and complete input has both.\<close>

lemma append_unit_parts:
  assumes "start < next_start" "next_start \<le> length bytes"
  shows "mset (codecData (append_unit bytes start next_start h r)) +
           mset (syncFrame (append_unit bytes start next_start h r)) =
         mset (codecData r) + mset (syncFrame r) + mset (take (next_start - start) (drop start bytes))"
  by (simp add: append_unit_def Let_def)

definition flags_backed :: "AvcRecoveryInput \<Rightarrow> bool" where
  "flags_backed r \<longleftrightarrow> (hasSps r \<longrightarrow> codecData r \<noteq> []) \<and> (hasIdr r \<longrightarrow> syncFrame r \<noteq> [])"

lemma append_unit_backed:
  assumes "start < next_start" "next_start \<le> length bytes" "flags_backed r"
  shows "flags_backed (append_unit bytes start next_start h r)"
  using assms by (auto simp: append_unit_def Let_def flags_backed_def)

lemma Split_loop_parts:
  assumes "start \<le> length bytes" "flags_backed r"
    and "mset (codecData r) + mset (syncFrame r) = mset (take start bytes)"
  shows "Split_loop bytes start r = emptyRecovery \<or>
    mset (codecData (Split_loop bytes start r)) + mset (syncFrame (Split_loop bytes start r)) = mset bytes \<and>
    flags_backed (Split_loop bytes start r)"
  using assms
proof (induction bytes start r rule: Split_loop.induct)
  case (1 bytes start r)
  let ?off = "start + AvcStartCodeLength bytes start"
  let ?next = "FindAvcStartCode bytes (?off + 1)"
  show ?case
  proof (cases "start < length bytes \<and> AvcStartCodeLength bytes start \<noteq> 0 \<and> ?off < length bytes")
    case True
    then have next_bounds: "start < ?next" "?next \<le> length bytes"
      using FindAvcStartCode_bounds [of "?off + 1" bytes] by auto
    let ?r = "append_unit bytes start ?next (bytes ! ?off) r"
    have "mset (codecData ?r) + mset (syncFrame ?r) = mset (take ?next bytes)"
    proof -
      have "take ?next bytes = take start bytes @ take (?next - start) (drop start bytes)"
        using next_bounds by (metis add_diff_inverse_nat less_imp_le_nat not_less take_add)
      then show ?thesis
        using append_unit_parts [OF next_bounds] 1(4) by simp
    qed
    moreover have "flags_backed ?r"
      using next_bounds 1(3) by (rule append_unit_backed)
    moreover have "Split_loop bytes start r = Split_loop bytes ?next ?r"
      using True by (subst Split_loop.simps) (simp add: Let_def)
    ultimately show ?thesis
      using 1(1) [of "AvcStartCodeLength bytes start" ?off ?next] True next_bounds by auto
  next
    case False
    then show ?thesis
      using 1(2-4) by (subst (1 2 3 4) Split_loop.simps) (auto simp: Let_def)
  qed
qed


lemma Split_parts:
  "SplitAvcRecoveryInput bytes = emptyRecovery \<or>
    mset (codecData (SplitAvcRecoveryInput bytes)) + mset (syncFrame (SplitAvcRecoveryInput bytes)) = mset bytes \<and>
    flags_backed (SplitAvcRecoveryInput bytes)"
  using Split_loop_parts [of 0 bytes emptyRecovery]
  by (auto simp: SplitAvcRecoveryInput_def flags_backed_def emptyRecovery_def Let_def)

lemma complete_recovery_parts:
  assumes "recovery_complete (SplitAvcRecoveryInput bytes)"
  shows "codecData (SplitAvcRecoveryInput bytes) \<noteq> []" "syncFrame (SplitAvcRecoveryInput bytes) \<noteq> []"
    "mset (codecData (SplitAvcRecoveryInput bytes)) + mset (syncFrame (SplitAvcRecoveryInput bytes)) = mset bytes"
  using Split_parts [of bytes] assms
  by (auto simp: recovery_complete_def emptyRecovery_def flags_backed_def)

section \<open>Drop-oldest queues\<close>

text \<open>
  The contract the session relies on for the telemetry queue: a push keeps the newest messages up
  to the capacity, a pop takes the oldest one kept.
\<close>

locale drop_oldest_queue =
  fixes contents :: "'q \<Rightarrow> 'm list"
    and push :: "'m \<Rightarrow> 'q \<Rightarrow> 'q"
    and pop :: "'q \<Rightarrow> 'q \<times> 'm option"
    and room :: "'q \<Rightarrow> nat"
  assumes contents_push: "0 < room q \<Longrightarrow> contents (push m q) = drop (length (contents q) + 1 - room q) (contents q @ [m])"
    and room_push: "room (push m q) = room q"
    and pop_empty: "contents q = [] \<Longrightarrow> snd (pop q) = None \<and> contents (fst (pop q)) = []"
    and pop_oldest: "contents q = m # ms \<Longrightarrow> snd (pop q) = Some m \<and> contents (fst (pop q)) = ms"
    and room_pop: "room (fst (pop q)) = room q"
begin

lemma contents_pushes:
  assumes "0 < room q" "length (contents q) \<le> room q"
  shows "contents (fold push ms q) = drop (length (contents q @ ms) - room q) (contents q @ ms)"
  using assms
proof (induction ms arbitrary: q)
  case (Cons m ms)
  let ?q = "push m q" and ?c = "contents q" and ?n = "length (contents q) + 1 - room q"
  have now: "contents ?q = drop ?n (?c @ [m])"
    using Cons.prems by (simp add: contents_push)
  have "contents (fold push ms ?q) =
      drop (length (contents ?q @ ms) - room q) (contents ?q @ ms)"
    using Cons.IH [of ?q] Cons.prems by (simp add: room_push now)
  also have "contents ?q @ ms = drop ?n (?c @ m # ms)"
    using Cons.prems by (simp add: now)
  finally show ?case
    using Cons.prems by (cases "length ?c = room q") (auto simp: Suc_diff_le not_less_eq_eq)
qed simp

lemma never_overfull:
  "0 < room q \<Longrightarrow> length (contents q) \<le> room q \<Longrightarrow> length (contents (fold push ms q)) \<le> room q"
  by (simp add: contents_pushes)

text \<open>\<open>n\<close> pops in a row.\<close>

primrec pops :: "nat \<Rightarrow> 'q \<Rightarrow> 'm list" where
  "pops 0 q = []"
| "pops (Suc n) q = (case pop q of (q', None) \<Rightarrow> [] | (q', Some m) \<Rightarrow> m # pops n q')"

lemma pops_contents: "pops n q = take n (contents q)"
proof (induction n arbitrary: q)
  case (Suc n)
  show ?case
  proof (cases "contents q")
    case Nil
    then show ?thesis using pop_empty [OF Nil] by (cases "pop q") simp
  next
    case (Cons m ms)
    then show ?thesis using pop_oldest [OF Cons] Suc by (cases "pop q") simp
  qed
qed simp

end

lemma make_room_drop: "0 < cap \<Longrightarrow> make_room cap ms = drop (length ms + 1 - cap) ms"
  by (induction ms) (auto simp: Suc_diff_le)

interpretation telemetry_queue: drop_oldest_queue messages QueuePush TryPop capacity
proof unfold_locales
  show "messages (QueuePush m q) = drop (length (messages q) + 1 - capacity q) (messages q @ [m])"
    if "0 < capacity q" for m q
    using that by (auto simp: QueuePush_def make_room_drop)
qed (auto simp: QueuePush_def TryPop_def split: list.splits)


section \<open>Correctness of the control structures\<close>

text \<open>
  On a stream of well-formed NAL units the splitter collects exactly the parameter sets (types
  7 and 8), in order and with their start codes, as codec data and the other units as sync frame,
  and its flags say which of SPS, PPS and IDR occurred.
\<close>

theorem SplitAvcRecoveryInput_separates:
  assumes "\<forall>u \<in> set us. wellformed_nal u"
  shows "SplitAvcRecoveryInput (concat (map unit_bytes us)) =
    \<lparr>codecData = concat (map unit_bytes (filter parameter_set us)),
     syncFrame = concat (map unit_bytes (filter (\<lambda>u. \<not> parameter_set u) us)),
     hasSps = (\<exists>u \<in> set us. unit_type u = 7), hasPps = (\<exists>u \<in> set us. unit_type u = 8),
     hasIdr = (\<exists>u \<in> set us. unit_type u = 5)\<rparr>"
  using SplitAvcRecoveryInput_gathers [OF assms] by (simp add: gather_def emptyRecovery_def)

lemma SplitAvcRecoveryInput_separates_witness:
  "codecData (SplitAvcRecoveryInput [0, 0, 0, 1, 0x67, 1, 0, 0, 1, 0x68, 2, 0, 0, 1, 0x65, 3]) =
     [0, 0, 0, 1, 0x67, 1, 0, 0, 1, 0x68, 2]"
  using SplitAvcRecoveryInput_separates [of "[Nal True [0x67, 1], Nal False [0x68, 2], Nal False [0x65, 3]]"]
  by (simp add: wellformed_nal_def code_at_def unit_bytes_def start_code_def parameter_set_def
      unit_type_def upt_rec)

text \<open>
  Whatever the input, when the splitter reports complete recovery input then every byte of the
  input went to exactly one of the two parts, and neither part is empty.
\<close>

theorem SplitAvcRecoveryInput_keeps_bytes:
  assumes "recovery_complete (SplitAvcRecoveryInput bytes)"
  shows "mset (codecData (SplitAvcRecoveryInput bytes)) + mset (syncFrame (SplitAvcRecoveryInput bytes)) =
      mset bytes \<and>
    codecData (SplitAvcRecoveryInput bytes) \<noteq> [] \<and> syncFrame (SplitAvcRecoveryInput bytes) \<noteq> []"
  using complete_recovery_parts [OF assms] by simp

lemma SplitAvcRecoveryInput_keeps_bytes_witness:
  "syncFrame (SplitAvcRecoveryInput [0, 0, 1, 0x67, 1, 0, 0, 1, 0x68, 2, 0, 0, 1, 0x65, 3]) \<noteq> []"
proof -
  have "SplitAvcRecoveryInput [0, 0, 1, 0x67, 1, 0, 0, 1, 0x68, 2, 0, 0, 1, 0x65, 3] =
      gather emptyRecovery [Nal False [0x67, 1], Nal False [0x68, 2], Nal False [0x65, 3]]"
    using SplitAvcRecoveryInput_gathers
        [of "[Nal False [0x67, 1], Nal False [0x68, 2], Nal False [0x65, 3]]"]
    by (simp add: wellformed_nal_def code_at_def unit_bytes_def start_code_def upt_rec)
  then have "recovery_complete (SplitAvcRecoveryInput [0, 0, 1, 0x67, 1, 0, 0, 1, 0x68, 2, 0, 0, 1, 0x65, 3])"
    by (simp add: recovery_complete_def gather_def unit_type_def)
  then show ?thesis
    using SplitAvcRecoveryInput_keeps_bytes by blast
qed

text \<open>
  A telemetry queue of positive capacity never holds more than its capacity: after any pushes
  it holds the newest messages that fit, and popping returns them oldest first.
\<close>

theorem BoundedControlQueue_keeps_newest:
  assumes "0 < n"
  shows "let q = fold QueuePush ms (newQueue n) in
     messages q = drop (length ms - n) ms \<and> length (messages q) \<le> n \<and>
     (\<forall>k. telemetry_queue.pops k q = take k (drop (length ms - n) ms))"
  using assms telemetry_queue.contents_pushes [of "newQueue n" ms]
  by (simp add: telemetry_queue.pops_contents newQueue_def Let_def)

lemma BoundedControlQueue_keeps_newest_witness:
  "messages (fold QueuePush [''a'', ''b'', ''c''] (newQueue 2)) = [''b'', ''c'']"
  using BoundedControlQueue_keeps_newest [of 2 "[''a'', ''b'', ''c'']"] by (simp add: Let_def)

end
