(* ===== verification/Receiver_Decoder.thy ===== *)
theory Receiver_Decoder
  imports Decoder_Control Native_Protocol State_Machine
begin

text \<open>
  The decoder side of \<open>ReceiverSession\<close> (\<open>receiver/entry/src/main/cpp/receiver_session.cpp\<close>,
  \<open>HandleVideo\<close> and everything from \<open>DecoderRuntimeLocked\<close> on): creation, destruction, flushing
  and reconfiguration of the platform decoder, the input queue and its pump, the decoder callbacks
  and the surface events.

  The platform decoder is not code of the repository. What its calls return is an argument
  (\<open>CodecResults\<close>, the buffer descriptions and \<open>codec_accepts\<close>), and every call made on it is
  recorded in \<open>codec_log\<close>, so that the order of the calls can be stated and proved.

  Handlers that change the decoder run under \<open>decoder_lifecycle_mutex_\<close>, and what uses the input
  queue runs under \<open>decoder_queue_mutex_\<close>: each such section is one function. A lifecycle handler
  that closes the gate while the queue's mutex is held waits for the mutex in \<open>ClearDecoderQueues\<close>,
  so the section comes before it. \<open>HandleVideo\<close> is one step; the code looks at the gate and at the
  recovery state before it takes the mutex, and again behind it.

  \<open>DecoderOutput\<close> holds no mutex, so it is a state machine: each of its accesses to what other threads
  share and each call it makes is a step of its own, any number of these callbacks are in flight, and
  every other handler can run between two steps. What the code relies on is that \<open>Stop\<close> and \<open>Flush\<close>
  of the platform decoder wait for the callbacks that are running (the comment in
  \<open>DestroyDecoderLocked\<close> says that lifecycle calls do): the callbacks in flight take their remaining
  steps after the gate is closed and before the call is logged. A decoder that is not started calls
  nothing back.
\<close>

section \<open>State\<close>

text \<open>\<open>state_\<close> and the texts of \<open>detail_\<close>, by what they say.\<close>

datatype SessionState =
  StateIdle | StateStarting | StateListening | StatePaired | StateConnected | StateDisplaying | StateError

datatype OH_AVErrCode =
  AV_ERR_OK | AV_ERR_INVALID_VAL | AV_ERR_UNSUPPORT | AV_ERR_NO_MEMORY | AV_ERR_OTHER int

datatype Detail =
    CheckingWifi | NotStarted | NotCurrentWifiAddress | NoDeviceIdentity | PreparingToReceive
  | ListenFailed | WaitingForSender | WifiAddressChanged | QrAuthorized | ShortCodeAuthorized
  | DeviceForgotten | PairingDone | SenderConnected | Playing
  | DecoderSetupFailed string OH_AVErrCode | DecoderFailed int

record InputSlot =
  slot_index :: u32
  slot_capacity :: int
  slot_mapped :: bool

record DecodedInput =
  input_bytes :: "byte list"
  input_timestamp :: u64
  input_kind :: DecoderInputKind

text \<open>The calls made on the platform decoder; a handle is a number.\<close>

datatype codec_call =
    CallCreate nat
  | CallConfigure nat u32 u32
  | CallSetSurface nat u64
  | CallPrepare nat
  | CallStart nat bool
  | CallFlush nat
  | CallPush nat u32 DecoderInputKind "byte list" u64 bool
  | CallRender nat u32
  | CallFree nat u32
  | CallStop nat
  | CallDestroy nat

text \<open>
  A running output callback: its decoder, the buffer's index, the presentation time and end-of-stream
  flag of the buffer (None when they cannot be read), whether \<open>RenderOutputBuffer\<close> will succeed, the
  clock, and where it is: behind the first check; behind the call that renders, with what it counted
  and displayed; or refused, before and behind the second check.
\<close>

datatype output_phase =
  OutAdmitted | OutRendered int | OutCounted int u64 | OutShown int u64 | OutRefused | OutFreeing

record OutputCall =
  output_handle :: nat
  output_index :: u32
  output_attributes :: "(int \<times> bool) option"
  output_rendered :: bool
  output_clock :: u64
  output_at :: output_phase

record DecoderSide =
  status_state :: SessionState
  status_detail :: Detail
  listening :: bool
  connected :: bool
  active_source_epoch :: u32
  telemetry :: BoundedControlQueue
  received_frames :: u64
  received_bytes :: u64
  decoder_resync_events :: u64
  keyframe_requests_sent :: u64
  callback_gate :: DecoderLifecycleState
  decoder :: "nat option"
  decoder_media_contract :: MediaContract
  decoder_recovery :: DecoderRecoveryCoordinator
  lifecycle_state :: ReceiverLifecycleState
  input_slots :: "InputSlot list"
  decode_queue :: "DecodedInput list"
  frames_decoded :: u64
  frames_dropped :: u64
  outputs_running :: "OutputCall list"
  codec_log :: "codec_call list"

definition newDecoderSide :: DecoderSide where
  "newDecoderSide =
     \<lparr>status_state = StateIdle, status_detail = CheckingWifi, listening = False, connected = False,
      active_source_epoch = 0, telemetry = newQueue 8, received_frames = 0, received_bytes = 0,
      decoder_resync_events = 0, keyframe_requests_sent = 0, callback_gate = DecoderStopped,
      decoder = None, decoder_media_contract = noContract, decoder_recovery = newCoordinator,
      lifecycle_state = newLifecycle, input_slots = [], decode_queue = [], frames_decoded = 0,
      frames_dropped = 0, outputs_running = [], codec_log = []\<rparr>"

text \<open>What the calls of one handler return; \<open>create\<close> is the handle or the null pointer.\<close>

record CodecResults =
  create :: "nat option"
  registerCallback :: OH_AVErrCode
  format_made :: bool
  configure :: OH_AVErrCode
  setSurface :: OH_AVErrCode
  prepare :: OH_AVErrCode
  start :: OH_AVErrCode
  flushed :: bool
  restarted :: bool

section \<open>Creating and destroying the decoder\<close>

definition SetState ::
    "SessionState \<Rightarrow> Detail \<Rightarrow> bool \<Rightarrow> bool \<Rightarrow> 'a DecoderSide_scheme \<Rightarrow> 'a DecoderSide_scheme" where
  "SetState st detail lst conn s =
     s\<lparr>status_state := st, status_detail := detail, listening := lst, connected := conn\<rparr>"

definition SetGate :: "DecoderLifecycleState \<Rightarrow> 'a DecoderSide_scheme \<Rightarrow> 'a DecoderSide_scheme" where
  "SetGate st s = s\<lparr>callback_gate := st\<rparr>"

definition codec_called :: "codec_call \<Rightarrow> 'a DecoderSide_scheme \<Rightarrow> 'a DecoderSide_scheme" where
  "codec_called c s = s\<lparr>codec_log := codec_log s @ [c]\<rparr>"

definition coordinate ::
    "(DecoderRecoveryCoordinator \<Rightarrow> DecoderRecoveryCoordinator) \<Rightarrow> 'a DecoderSide_scheme \<Rightarrow> 'a DecoderSide_scheme"
where
  "coordinate f s = s\<lparr>decoder_recovery := f (decoder_recovery s)\<rparr>"

definition RequestKeyframe :: "'a DecoderSide_scheme \<Rightarrow> 'a DecoderSide_scheme" where
  "RequestKeyframe = coordinate RequestKeyFrame"

definition CallbacksAllowed :: "'a DecoderSide_scheme \<Rightarrow> bool" where
  "CallbacksAllowed s = DecoderCallbacksAllowed (callback_gate s)"

definition DecoderRuntimeLocked :: "'a DecoderSide_scheme \<Rightarrow> DecoderRuntimeSnapshot" where
  "DecoderRuntimeLocked s = \<lparr>runtime_state = callback_gate s, available = (decoder s \<noteq> None)\<rparr>"

definition ClearDecoderQueues :: "'a DecoderSide_scheme \<Rightarrow> 'a DecoderSide_scheme" where
  "ClearDecoderQueues s = s\<lparr>input_slots := [], decode_queue := []\<rparr>"

definition dec_signed :: "int \<Rightarrow> string" where
  "dec_signed n = (if n < 0 then CHR ''-'' # dec (nat (- n)) else dec (nat n))"

definition telemetry_text :: "int \<Rightarrow> u64 \<Rightarrow> u64 \<Rightarrow> 'a DecoderSide_scheme \<Rightarrow> string" where
  "telemetry_text pts clock decoded s =
     ''{\"type\":\"telemetry\",\"protocol\":6,\"captureUs\":'' @ dec_signed pts
     @ '',\"displayUs\":'' @ dec (unat clock)
     @ '',\"receivedFrames\":'' @ dec (unat (received_frames s))
     @ '',\"receivedBytes\":'' @ dec (unat (received_bytes s))
     @ '',\"receiverDecodedFrames\":'' @ dec (unat decoded)
     @ '',\"receiverDroppedFrames\":'' @ dec (unat (frames_dropped s))
     @ '',\"receiverResyncEvents\":'' @ dec (unat (decoder_resync_events s))
     @ '',\"receiverKeyframeRequests\":'' @ dec (unat (keyframe_requests_sent s))
     @ ''}''"

text \<open>One step of a running output callback; None when it returns.\<close>

definition DecoderOutput_step ::
    "OutputCall \<Rightarrow> 'a DecoderSide_scheme \<Rightarrow> OutputCall option \<times> 'a DecoderSide_scheme" where
  "DecoderOutput_step c s =
     (case output_at c of
        OutAdmitted \<Rightarrow>
          (case output_attributes c of
             Some (pts, False) \<Rightarrow>
               (Some (c\<lparr>output_at := (if output_rendered c then OutRendered pts else OutRefused)\<rparr>),
                codec_called (CallRender (output_handle c) (output_index c)) s)
           | _ \<Rightarrow> (Some (c\<lparr>output_at := OutRefused\<rparr>), s))
      | OutRendered pts \<Rightarrow>
          (Some (c\<lparr>output_at := OutCounted pts (frames_decoded s + 1)\<rparr>), s\<lparr>frames_decoded := frames_decoded s + 1\<rparr>)
      | OutCounted pts decoded \<Rightarrow>
          (Some (c\<lparr>output_at := OutShown pts decoded\<rparr>),
           if decoded = 1 then SetState StateDisplaying Playing True True s else s)
      | OutShown pts decoded \<Rightarrow>
          (None, s\<lparr>telemetry := QueuePush (telemetry_text pts (output_clock c) decoded s) (telemetry s)\<rparr>)
      | OutRefused \<Rightarrow>
          (if CallbacksAllowed s \<and> decoder s = Some (output_handle c) then Some (c\<lparr>output_at := OutFreeing\<rparr>) else None, s)
      | OutFreeing \<Rightarrow> (None, codec_called (CallFree (output_handle c) (output_index c)) s))"

fun steps_left :: "output_phase \<Rightarrow> nat" where
  "steps_left OutAdmitted = 4"
| "steps_left (OutRendered _) = 3"
| "steps_left (OutCounted _ _) = 2"
| "steps_left (OutShown _ _) = 1"
| "steps_left OutRefused = 2"
| "steps_left OutFreeing = 1"

lemma DecoderOutput_step_fewer:
  "DecoderOutput_step c s = (Some c', s') \<Longrightarrow> steps_left (output_at c') < steps_left (output_at c)"
  by (auto simp: DecoderOutput_step_def split: output_phase.splits option.splits bool.splits prod.splits if_splits)

text \<open>The remaining steps of a callback, and of all that are in flight.\<close>

function FinishOutput :: "OutputCall \<Rightarrow> 'a DecoderSide_scheme \<Rightarrow> 'a DecoderSide_scheme" where
  "FinishOutput c s =
     (case DecoderOutput_step c s of
        (None, s) \<Rightarrow> s
      | (Some c, s) \<Rightarrow> FinishOutput c s)"
  by pat_completeness auto
termination
  by (relation "measure (\<lambda>(c, s). steps_left (output_at c))") (auto dest: DecoderOutput_step_fewer [OF sym])

declare FinishOutput.simps [simp del]

definition DrainOutputs :: "'a DecoderSide_scheme \<Rightarrow> 'a DecoderSide_scheme" where
  "DrainOutputs s = fold FinishOutput (outputs_running s) (s\<lparr>outputs_running := []\<rparr>)"

text \<open>\<open>Stop\<close> returns when the callbacks have.\<close>

definition DestroyDecoderLocked :: "'a DecoderSide_scheme \<Rightarrow> 'a DecoderSide_scheme" where
  "DestroyDecoderLocked s =
     (let s = ClearDecoderQueues (SetGate DecoderStopping s);
          s = (case decoder s of
                 None \<Rightarrow> s
               | Some h \<Rightarrow> codec_called (CallDestroy h) (codec_called (CallStop h) (DrainOutputs (s\<lparr>decoder := None\<rparr>))))
      in coordinate RequireCodecData (SetGate DecoderStopped s))"

text \<open>The local \<open>fail\<close> of \<open>CreateDecoderLocked\<close>.\<close>

definition setup_failed :: "string \<Rightarrow> OH_AVErrCode \<Rightarrow> 'a DecoderSide_scheme \<Rightarrow> 'a DecoderSide_scheme" where
  "setup_failed operation code s =
     SetState StateError (DecoderSetupFailed operation code) (connected s) (connected s) s"

text \<open>A failing step after \<open>CreateByMime\<close>: report, destroy the new decoder, close the gate.\<close>

definition abandon :: "string \<Rightarrow> OH_AVErrCode \<Rightarrow> nat \<Rightarrow> 'a DecoderSide_scheme \<Rightarrow> 'a DecoderSide_scheme" where
  "abandon operation code h s =
     SetGate DecoderStopped (codec_called (CallDestroy h) (setup_failed operation code s))"

definition start_decoder ::
    "CodecResults \<Rightarrow> nat \<Rightarrow> 'a DecoderSide_scheme \<Rightarrow> 'a DecoderSide_scheme \<times> bool" where
  "start_decoder res h s =
     (let s = SetGate DecoderRunning (s\<lparr>decoder := Some h\<rparr>);
          s = codec_called (CallStart h (start res = AV_ERR_OK)) s
      in if start res \<noteq> AV_ERR_OK
         then (let s = ClearDecoderQueues (SetGate DecoderStopping (setup_failed ''Start'' (start res) s))
               in (SetGate DecoderStopped (codec_called (CallDestroy h) (s\<lparr>decoder := None\<rparr>)), False))
         else (coordinate RequireCodecData s, True))"

definition CreateDecoderLocked ::
    "CodecResults \<Rightarrow> 'a DecoderSide_scheme \<Rightarrow> 'a DecoderSide_scheme \<times> bool" where
  "CreateDecoderLocked res s =
     (if \<not> DecoderShouldRun (lifecycle_state s)
      then (setup_failed ''Surface'' AV_ERR_INVALID_VAL s, False)
      else if \<not> IsValidMediaContract (decoder_media_contract s)
      then (SetGate DecoderStopped s, False)
      else
        (let s = SetGate DecoderStarting s
         in case create res of
              None \<Rightarrow> (SetGate DecoderStopped (setup_failed ''CreateByMime'' AV_ERR_UNSUPPORT s), False)
            | Some h \<Rightarrow>
                (let s = codec_called (CallCreate h) s
                 in if registerCallback res \<noteq> AV_ERR_OK
                    then (abandon ''RegisterCallback'' (registerCallback res) h s, False)
                    else if \<not> format_made res
                    then (abandon ''CreateVideoFormat'' AV_ERR_NO_MEMORY h s, False)
                    else
                      (let s = codec_called (CallConfigure h (width (decoder_media_contract s))
                                 (height (decoder_media_contract s))) s
                       in if configure res \<noteq> AV_ERR_OK
                          then (abandon ''Configure'' (configure res) h s, False)
                          else
                            (let s = codec_called (CallSetSurface h (surface (lifecycle_state s))) s
                             in if setSurface res \<noteq> AV_ERR_OK
                                then (abandon ''SetSurface'' (setSurface res) h s, False)
                                else
                                  (let s = codec_called (CallPrepare h) s
                                   in if prepare res \<noteq> AV_ERR_OK
                                      then (abandon ''Prepare'' (prepare res) h s, False)
                                      else start_decoder res h s))))))"

definition ApplyLifecycleDecisionLocked ::
    "CodecResults \<Rightarrow> ReceiverLifecycleDecision \<Rightarrow> 'a DecoderSide_scheme \<Rightarrow> 'a DecoderSide_scheme \<times> bool"
where
  "ApplyLifecycleDecisionLocked res decision s =
     (if \<not> decision_accepted decision then (s, False)
      else
        (let s = (if stopDecoder decision then DestroyDecoderLocked s else s)
         in if \<not> startDecoder decision then (s, False) else CreateDecoderLocked res s))"

section \<open>Flushing and reconfiguring\<close>

definition BeginFlush :: "'a DecoderSide_scheme \<Rightarrow> 'a DecoderSide_scheme" where
  "BeginFlush s = ClearDecoderQueues (SetGate DecoderFlushing s)"

definition resync :: "'a DecoderSide_scheme \<Rightarrow> 'a DecoderSide_scheme" where
  "resync s = RequestKeyframe
     ((coordinate RequireCodecData s)\<lparr>decoder_resync_events := decoder_resync_events s + 1\<rparr>)"

definition FlushDecoder :: "CodecResults \<Rightarrow> 'a DecoderSide_scheme \<Rightarrow> 'a DecoderSide_scheme \<times> bool" where
  "FlushDecoder res s =
     (let (s, recovered) =
        (case decoder s of
           Some h \<Rightarrow>
             (let s = codec_called (CallFlush h) (DrainOutputs (BeginFlush s));
                  s = (if flushed res then codec_called (CallStart h (restarted res)) (SetGate DecoderRunning s)
                       else s)
              in if EvaluateFlushRecovery (flushed res) (flushed res \<and> restarted res) = kResume
                 then (s, True)
                 else
                   (let s = DestroyDecoderLocked s
                    in if DecoderShouldRun (lifecycle_state s) then CreateDecoderLocked res s
                       else (s, False)))
         | None \<Rightarrow>
             (let s = SetGate DecoderStopped (BeginFlush s)
              in if \<not> DecoderShouldRun (lifecycle_state s) then (s, True)
                 else CreateDecoderLocked res s))
      in (resync s, recovered))"

definition ReconfigureDecoder ::
    "CodecResults \<Rightarrow> MediaContract \<Rightarrow> 'a DecoderSide_scheme \<Rightarrow> 'a DecoderSide_scheme \<times> bool" where
  "ReconfigureDecoder res contract s =
     (if \<not> IsValidMediaContract contract then (s, False)
      else
        (let previous = decoder_media_contract s;
             s = (DestroyDecoderLocked s)\<lparr>decoder_media_contract := contract\<rparr>;
             (s, prepared) = (if \<not> DecoderShouldRun (lifecycle_state s) then (s, True)
                              else CreateDecoderLocked res s);
             s = (if \<not> prepared then s\<lparr>decoder_media_contract := previous\<rparr> else s)
         in (resync s, prepared)))"

section \<open>Feeding the decoder\<close>

definition dropped :: "nat \<Rightarrow> 'a DecoderSide_scheme \<Rightarrow> 'a DecoderSide_scheme" where
  "dropped n s = s\<lparr>frames_dropped := frames_dropped s + word_of_nat n\<rparr>"

text \<open>The pump gives up: the frame and the queue are dropped and a key frame is asked for.\<close>

definition pump_failed :: "'a DecoderSide_scheme \<Rightarrow> 'a DecoderSide_scheme" where
  "pump_failed s =
     (let s = dropped (length (decode_queue s)) (dropped 1 s);
          s = s\<lparr>decode_queue := [], decoder_resync_events := decoder_resync_events s + 1\<rparr>
      in RequestKeyframe s)"

text \<open>
  \<open>PumpDecoderLocked\<close>, one iteration of the loop per unfolding; \<open>codec_accepts\<close> tells for a slot
  whether \<open>SetBufferAttr\<close> and \<open>PushInputBuffer\<close> both succeed.
\<close>

function PumpDecoderLocked ::
    "(InputSlot \<Rightarrow> bool) \<Rightarrow> nat \<Rightarrow> 'a DecoderSide_scheme \<Rightarrow> 'a DecoderSide_scheme" where
  "PumpDecoderLocked codec_accepts h s =
     (if CallbacksAllowed s \<and> decoder s = Some h \<and> input_slots s \<noteq> [] \<and> decode_queue s \<noteq> []
      then
        (let slot = hd (input_slots s);
             frame = hd (decode_queue s);
             s = s\<lparr>input_slots := tl (input_slots s), decode_queue := tl (decode_queue s)\<rparr>
         in if \<not> InputAllowed (input_kind frame) (decoder_recovery s)
            then PumpDecoderLocked codec_accepts h (dropped 1 s)
            else if slot_capacity slot < 0 \<or> \<not> slot_mapped slot
                    \<or> int (length (input_bytes frame)) > slot_capacity slot
            then pump_failed (coordinate RequireCodecData s)
            else
              (let pushed = codec_accepts slot;
                   s = codec_called (CallPush h (slot_index slot) (input_kind frame) (input_bytes frame)
                         (input_timestamp frame) pushed) s;
                   s = coordinate (OnInputSubmitted (input_kind frame) pushed) s
               in if \<not> pushed then pump_failed s else PumpDecoderLocked codec_accepts h s))
      else s)"
  by pat_completeness auto
termination
  by (relation "measure (\<lambda>(codec_accepts, h, s). length (input_slots s))")
     (auto simp: dropped_def codec_called_def coordinate_def)

declare PumpDecoderLocked.simps [simp del]

definition SubmitFrame ::
    "(InputSlot \<Rightarrow> bool) \<Rightarrow> DecodedInput \<Rightarrow> 'a DecoderSide_scheme \<Rightarrow> 'a DecoderSide_scheme" where
  "SubmitFrame codec_accepts frame s =
     (case decoder s of
        None \<Rightarrow> dropped 1 s
      | Some h \<Rightarrow>
          (if \<not> CallbacksAllowed s \<or> \<not> InputAllowed (input_kind frame) (decoder_recovery s)
           then dropped 1 s
           else
             (let queuedFrames = length (decode_queue s);
                  (coordinator, admission, cleared) = Admit queuedFrames 3 (decoder_recovery s);
                  s = (if cleared then s\<lparr>decode_queue := []\<rparr> else s);
                  s = s\<lparr>decoder_recovery := coordinator\<rparr>
              in if \<not> accepted admission
                 then (let s = dropped 1 (dropped queuedFrames s)
                       in s\<lparr>decoder_resync_events := decoder_resync_events s + 1\<rparr>)
                 else PumpDecoderLocked codec_accepts h (s\<lparr>decode_queue := decode_queue s @ [frame]\<rparr>))))"

definition SubmitRecovery ::
    "(InputSlot \<Rightarrow> bool) \<Rightarrow> DecodedInput \<Rightarrow> DecodedInput \<Rightarrow> 'a DecoderSide_scheme \<Rightarrow>
     'a DecoderSide_scheme \<times> bool" where
  "SubmitRecovery codec_accepts config sync s =
     (case decoder s of
        None \<Rightarrow> (dropped 1 s, False)
      | Some h \<Rightarrow>
          (if \<not> CallbacksAllowed s \<or> recovery_state (decoder_recovery s) \<noteq> kNeedsCodecData
              \<or> input_kind config \<noteq> kCodecData \<or> input_kind sync \<noteq> kSyncFrame
              \<or> input_bytes config = [] \<or> input_bytes sync = []
           then (dropped 1 s, False)
           else
             (let s = dropped (length (decode_queue s)) s
              in (PumpDecoderLocked codec_accepts h (s\<lparr>decode_queue := [config, sync]\<rparr>), True))))"

definition HandleVideo ::
    "(InputSlot \<Rightarrow> bool) \<Rightarrow> byte list \<Rightarrow> 'a DecoderSide_scheme \<Rightarrow> 'a DecoderSide_scheme" where
  "HandleVideo codec_accepts data s =
     (case DecodeVideoHeader data of
        None \<Rightarrow> dropped 1 s
      | Some header \<Rightarrow>
          (if sourceEpoch header \<noteq> active_source_epoch s then dropped 1 s
           else
             (let s = s\<lparr>received_frames := received_frames s + 1,
                        received_bytes := received_bytes s + ucast (payloadLength header)\<rparr>
              in if \<not> CallbacksAllowed s \<or> decoder s = None then dropped 1 s
                 else
                   (let recoveryState = recovery_state (decoder_recovery s);
                        keyframe = (flags header AND kKeyframe \<noteq> 0);
                        payload = take (unat (payloadLength header)) (drop kHeaderSize data)
                    in if recoveryState = kNeedsCodecData then
                         (let recovery = SplitAvcRecoveryInput payload
                          in if \<not> keyframe \<or> \<not> recovery_complete recovery
                             then RequestKeyframe (dropped 1 s)
                             else
                               (case SubmitRecovery codec_accepts
                                       \<lparr>input_bytes = codecData recovery, input_timestamp = timestampUs header,
                                        input_kind = kCodecData\<rparr>
                                       \<lparr>input_bytes = syncFrame recovery, input_timestamp = timestampUs header,
                                        input_kind = kSyncFrame\<rparr> s of
                                  (s, True) \<Rightarrow> s
                                | (s, False) \<Rightarrow> RequestKeyframe s))
                       else if recoveryState = kNeedsSyncFrame \<and> \<not> keyframe
                       then RequestKeyframe (dropped 1 s)
                       else SubmitFrame codec_accepts
                              \<lparr>input_bytes = payload, input_timestamp = timestampUs header,
                               input_kind = (if keyframe then kSyncFrame else kFrame)\<rparr> s))))"

section \<open>Decoder callbacks\<close>

definition DecoderError :: "int \<Rightarrow> 'a DecoderSide_scheme \<Rightarrow> 'a DecoderSide_scheme" where
  "DecoderError code s = SetState StateError (DecoderFailed code) (connected s) (connected s) s"

definition DecoderNeedInput ::
    "(InputSlot \<Rightarrow> bool) \<Rightarrow> nat \<Rightarrow> InputSlot \<Rightarrow> 'a DecoderSide_scheme \<Rightarrow> 'a DecoderSide_scheme" where
  "DecoderNeedInput codec_accepts callbackDecoder slot s =
     (if \<not> CallbacksAllowed s \<or> decoder s \<noteq> Some callbackDecoder then s
      else PumpDecoderLocked codec_accepts callbackDecoder (s\<lparr>input_slots := input_slots s @ [slot]\<rparr>))"

text \<open>The callback's first check. What it does from there on are the steps above.\<close>

definition DecoderOutput ::
    "nat \<Rightarrow> u32 \<Rightarrow> (int \<times> bool) option \<Rightarrow> bool \<Rightarrow> u64 \<Rightarrow> 'a DecoderSide_scheme \<Rightarrow> 'a DecoderSide_scheme" where
  "DecoderOutput h index attributes rendered clock s =
     (if \<not> CallbacksAllowed s \<or> decoder s \<noteq> Some h then s
      else s\<lparr>outputs_running := outputs_running s @
        [\<lparr>output_handle = h, output_index = index, output_attributes = attributes, output_rendered = rendered,
          output_clock = clock, output_at = OutAdmitted\<rparr>]\<rparr>)"

text \<open>A step of the callback at the given place among those in flight.\<close>

definition DecoderOutput_advance :: "nat \<Rightarrow> 'a DecoderSide_scheme \<Rightarrow> 'a DecoderSide_scheme" where
  "DecoderOutput_advance i s =
     (if i < length (outputs_running s)
      then
        (case DecoderOutput_step (outputs_running s ! i) s of
           (Some c, t) \<Rightarrow> t\<lparr>outputs_running := (outputs_running s)[i := c]\<rparr>
         | (None, t) \<Rightarrow> t\<lparr>outputs_running := take i (outputs_running s) @ drop (Suc i) (outputs_running s)\<rparr>)
      else s)"

section \<open>Surface events\<close>

datatype surface_event =
  OnSurfaceCreated u64 u64 | OnSurfaceChanged u64 u64 | OnSurfaceDestroyed u64 u64 | OnAppForeground | OnAppBackground

fun lifecycle_decision ::
    "surface_event \<Rightarrow> DecoderRuntimeSnapshot \<Rightarrow> ReceiverLifecycleState \<Rightarrow>
     ReceiverLifecycleState \<times> ReceiverLifecycleDecision" where
  "lifecycle_decision (OnSurfaceCreated comp_id surf) = SurfaceCreated comp_id surf"
| "lifecycle_decision (OnSurfaceChanged comp_id surf) = SurfaceChanged comp_id surf"
| "lifecycle_decision (OnSurfaceDestroyed comp_id surf) = SurfaceDestroyed comp_id surf"
| "lifecycle_decision OnAppForeground = Foreground"
| "lifecycle_decision OnAppBackground = Background"

fun requests_keyframe :: "surface_event \<Rightarrow> bool" where
  "requests_keyframe (OnSurfaceCreated _ _) = True"
| "requests_keyframe (OnSurfaceChanged _ _) = True"
| "requests_keyframe (OnSurfaceDestroyed _ _) = False"
| "requests_keyframe OnAppForeground = True"
| "requests_keyframe OnAppBackground = False"

definition OnSurfaceEvent ::
    "CodecResults \<Rightarrow> surface_event \<Rightarrow> 'a DecoderSide_scheme \<Rightarrow> 'a DecoderSide_scheme" where
  "OnSurfaceEvent res e s =
     (let (l, decision) = lifecycle_decision e (DecoderRuntimeLocked s) (lifecycle_state s);
          (s, decoderStarted) = ApplyLifecycleDecisionLocked res decision (s\<lparr>lifecycle_state := l\<rparr>)
      in if decoderStarted \<and> requests_keyframe e then RequestKeyframe s else s)"

section \<open>The contract of the platform decoder\<close>

text \<open>
  What the calls on a decoder have to respect, as an automaton over the log: at most one decoder at
  a time; configured, given a surface and prepared before it is started; input, flush and output
  only while it runs; and input that starts with codec data, continues with a sync frame and only
  then with arbitrary frames, again from the start after a flush or a refused input. None is a
  violation.
\<close>

datatype feed = AwaitCodecData | AwaitSyncFrame | Streaming

datatype codec_phase = Created | Configured | Surfaced | Prepared | Running | Halted

record codec =
  handle :: nat
  dimensions :: "u32 \<times> u32"
  codec_surface :: u64
  phase :: codec_phase
  feed_state :: feed

fun feed_step :: "feed \<Rightarrow> DecoderInputKind \<Rightarrow> feed option" where
  "feed_step _ kCodecData = Some AwaitSyncFrame"
| "feed_step AwaitCodecData _ = None"
| "feed_step _ kSyncFrame = Some Streaming"
| "feed_step AwaitSyncFrame kFrame = None"
| "feed_step Streaming kFrame = Some Streaming"

definition on_codec :: "nat \<Rightarrow> codec_phase list \<Rightarrow> (codec \<Rightarrow> codec) \<Rightarrow> codec option \<Rightarrow> codec option option" where
  "on_codec h phases f c =
     (case c of None \<Rightarrow> None
      | Some c \<Rightarrow> (if handle c = h \<and> phase c \<in> set phases then Some (Some (f c)) else None))"

fun codec_step :: "codec_call \<Rightarrow> codec option \<Rightarrow> codec option option" where
  "codec_step (CallCreate h) c =
     (if c = None then Some (Some \<lparr>handle = h, dimensions = (0, 0), codec_surface = 0, phase = Created,
                                  feed_state = AwaitCodecData\<rparr>) else None)"
| "codec_step (CallConfigure h w ht) c =
     on_codec h [Created] (\<lambda>c. c\<lparr>dimensions := (w, ht), phase := Configured\<rparr>) c"
| "codec_step (CallSetSurface h s) c = on_codec h [Configured] (\<lambda>c. c\<lparr>codec_surface := s, phase := Surfaced\<rparr>) c"
| "codec_step (CallPrepare h) c = on_codec h [Surfaced] (\<lambda>c. c\<lparr>phase := Prepared\<rparr>) c"
| "codec_step (CallStart h ok) c =
     on_codec h [Prepared, Halted]
       (\<lambda>c. c\<lparr>phase := (if ok then Running else Halted), feed_state := AwaitCodecData\<rparr>) c"
| "codec_step (CallFlush h) c =
     on_codec h [Running] (\<lambda>c. c\<lparr>phase := Halted, feed_state := AwaitCodecData\<rparr>) c"
| "codec_step (CallPush h i kind bytes pts ok) c =
     (case c of None \<Rightarrow> None
      | Some c \<Rightarrow>
          (if handle c = h \<and> phase c = Running \<and> bytes \<noteq> []
           then (case feed_step (feed_state c) kind of
                   None \<Rightarrow> None
                 | Some f \<Rightarrow> Some (Some (c\<lparr>feed_state := (if ok then f else AwaitCodecData)\<rparr>)))
           else None))"
| "codec_step (CallRender h i) c = on_codec h [Running] (\<lambda>c. c) c"
| "codec_step (CallFree h i) c = on_codec h [Running] (\<lambda>c. c) c"
| "codec_step (CallStop h) c = on_codec h [Running, Halted] (\<lambda>c. c\<lparr>phase := Halted\<rparr>) c"
| "codec_step (CallDestroy h) c =
     (case c of None \<Rightarrow> None | Some c \<Rightarrow> (if handle c = h then Some None else None))"

primrec codec_run :: "codec_call list \<Rightarrow> codec option \<Rightarrow> codec option option" where
  "codec_run [] c = Some c"
| "codec_run (x # xs) c = (case codec_step x c of None \<Rightarrow> None | Some c \<Rightarrow> codec_run xs c)"

lemma codec_run_append:
  "codec_run (xs @ ys) c = (case codec_run xs c of None \<Rightarrow> None | Some c \<Rightarrow> codec_run ys c)"
  by (induction xs arbitrary: c) (auto split: option.splits)

section \<open>The invariant\<close>

definition feed_matches :: "DecoderRecoveryState \<Rightarrow> feed \<Rightarrow> bool" where
  "feed_matches r f \<longleftrightarrow> r = kNeedsCodecData \<or> r = kNeedsSyncFrame \<and> f = AwaitSyncFrame \<or> r = kReady \<and> f = Streaming"

text \<open>The decoder the log says is live is the one the session holds, in the right condition.\<close>

definition codec_matches :: "'a DecoderSide_scheme \<Rightarrow> codec option \<Rightarrow> bool" where
  "codec_matches s c =
     (case decoder s of
        None \<Rightarrow> c = None
      | Some h \<Rightarrow>
          (case c of None \<Rightarrow> False
           | Some c \<Rightarrow> handle c = h \<and> phase c = Running \<and> codec_surface c = surface (lifecycle_state s) \<and>
               dimensions c = (width (decoder_media_contract s), height (decoder_media_contract s)) \<and>
               feed_matches (recovery_state (decoder_recovery s)) (feed_state c)))"

definition decoder_inv :: "'a DecoderSide_scheme \<Rightarrow> bool" where
  "decoder_inv s \<longleftrightarrow>
     (\<exists>c. codec_run (codec_log s) None = Some c \<and> codec_matches s c) \<and>
     (case decoder s of
        None \<Rightarrow> callback_gate s = DecoderStopped \<and> recovery_state (decoder_recovery s) = kNeedsCodecData \<and>
                input_slots s = [] \<and> decode_queue s = []
      | Some h \<Rightarrow> callback_gate s = DecoderRunning \<and> DecoderShouldRun (lifecycle_state s) \<and>
                  IsValidMediaContract (decoder_media_contract s)) \<and>
     length (decode_queue s) \<le> 3 \<and> list_all (\<lambda>f. input_bytes f \<noteq> []) (decode_queue s) \<and>
     list_all (\<lambda>c. decoder s = Some (output_handle c)) (outputs_running s) \<and>
     capacity (telemetry s) = 8 \<and> length (messages (telemetry s)) \<le> 8"

lemmas decoder_simps =
  SetState_def SetGate_def codec_called_def coordinate_def RequestKeyframe_def CallbacksAllowed_def
  DecoderCallbacksAllowed_def ClearDecoderQueues_def setup_failed_def abandon_def dropped_def resync_def
  BeginFlush_def

text \<open>A state without decoder, reached by calls that leave no decoder behind.\<close>

definition halted :: "'a DecoderSide_scheme \<Rightarrow> bool" where
  "halted s \<longleftrightarrow> decoder_inv s \<and> decoder s = None"

lemma halted_iff:
  "halted s \<longleftrightarrow> codec_run (codec_log s) None = Some None \<and> decoder s = None \<and>
     callback_gate s = DecoderStopped \<and> recovery_state (decoder_recovery s) = kNeedsCodecData \<and>
     input_slots s = [] \<and> decode_queue s = [] \<and> outputs_running s = [] \<and> capacity (telemetry s) = 8 \<and>
     length (messages (telemetry s)) \<le> 8"
proof -
  have none: "list_all (\<lambda>c. False) cs \<longleftrightarrow> cs = []" for cs :: "OutputCall list" by (cases cs) simp_all
  show ?thesis by (cases "decoder s") (auto simp: halted_def decoder_inv_def codec_matches_def none)
qed

lemma decoder_inv_cong:
  assumes "codec_log t = codec_log s" "decoder t = decoder s" "lifecycle_state t = lifecycle_state s"
    "decoder_media_contract t = decoder_media_contract s"
    "recovery_state (decoder_recovery t) = recovery_state (decoder_recovery s)"
    "callback_gate t = callback_gate s" "input_slots t = input_slots s" "decode_queue t = decode_queue s"
    "telemetry t = telemetry s" "outputs_running t = outputs_running s"
  shows "decoder_inv t = decoder_inv s" "halted t = halted s"
  unfolding halted_def decoder_inv_def codec_matches_def assms by (rule refl)+

lemma newDecoderSide_inv: "decoder_inv newDecoderSide"
  by (simp add: decoder_inv_def codec_matches_def newDecoderSide_def newCoordinator_def newQueue_def)

text \<open>
  What a step of an output callback leaves alone, and the codec's side of it: its calls are in the
  contract as long as the decoder runs.
\<close>

definition output_frame :: "'a DecoderSide_scheme \<Rightarrow> 'a DecoderSide_scheme \<Rightarrow> bool" where
  "output_frame s t \<longleftrightarrow>
     decoder t = decoder s \<and> callback_gate t = callback_gate s \<and> lifecycle_state t = lifecycle_state s \<and>
     decoder_media_contract t = decoder_media_contract s \<and> decoder_recovery t = decoder_recovery s \<and>
     input_slots t = input_slots s \<and> decode_queue t = decode_queue s \<and> outputs_running t = outputs_running s \<and>
     active_source_epoch t = active_source_epoch s \<and> frames_dropped t = frames_dropped s \<and>
     DecoderSide.more t = DecoderSide.more s"

lemma output_frame_refl: "output_frame s s"
  by (simp add: output_frame_def)

lemma output_frame_trans: "output_frame s t \<Longrightarrow> output_frame t u \<Longrightarrow> output_frame s u"
  by (simp add: output_frame_def)

lemma QueuePush_bounds:
  "capacity q = 8 \<Longrightarrow> length (messages q) \<le> 8 \<Longrightarrow>
   capacity (QueuePush m q) = 8 \<and> length (messages (QueuePush m q)) \<le> 8"
  using telemetry_queue.never_overfull [of q "[m]"] by (simp add: QueuePush_def)

definition output_sound :: "codec \<Rightarrow> 'a DecoderSide_scheme \<Rightarrow> bool" where
  "output_sound c s \<longleftrightarrow> codec_run (codec_log s) None = Some (Some c) \<and> phase c = Running \<and>
     capacity (telemetry s) = 8 \<and> length (messages (telemetry s)) \<le> 8"

lemma DecoderOutput_step_frame:
  assumes "DecoderOutput_step oc s = (r, t)"
  shows "output_frame s t" "output_sound c s \<Longrightarrow> handle c = output_handle oc \<Longrightarrow> output_sound c t"
    "r = Some oc' \<Longrightarrow> output_handle oc' = output_handle oc"
proof -
  show "output_frame s t"
    using assms
    by (auto simp: DecoderOutput_step_def output_frame_def codec_called_def SetState_def
        split: output_phase.splits option.splits bool.splits prod.splits if_splits)
  show "output_sound c t" if "output_sound c s" "handle c = output_handle oc"
    using assms that QueuePush_bounds [of "telemetry s"]
    by (auto simp: DecoderOutput_step_def output_sound_def codec_called_def SetState_def codec_run_append on_codec_def
        split: output_phase.splits option.splits bool.splits prod.splits if_splits)
  show "output_handle oc' = output_handle oc" if "r = Some oc'"
    using assms that
    by (auto simp: DecoderOutput_step_def split: output_phase.splits option.splits bool.splits prod.splits if_splits)
qed

lemma FinishOutput_frame:
  "output_frame s (FinishOutput oc s) \<and>
   (output_sound c s \<longrightarrow> handle c = output_handle oc \<longrightarrow> output_sound c (FinishOutput oc s))"
proof (induction oc s rule: FinishOutput.induct)
  case (1 oc s)
  obtain r t where step: "DecoderOutput_step oc s = (r, t)" by fastforce
  note step_frame = DecoderOutput_step_frame [OF step]
  show ?case
  proof (cases r)
    case None
    then show ?thesis using step step_frame by (simp add: FinishOutput.simps [of oc s])
  next
    case (Some oc')
    have "output_frame t (FinishOutput oc' t) \<and>
        (output_sound c t \<longrightarrow> handle c = output_handle oc' \<longrightarrow> output_sound c (FinishOutput oc' t))"
      using 1 [OF step [symmetric] Some] .
    then show ?thesis
      using Some step step_frame(1,2) step_frame(3) [OF Some] output_frame_trans [OF step_frame(1)]
      by (simp add: FinishOutput.simps [of oc s])
  qed
qed

lemma DrainOutputs_frame:
  "output_frame (s\<lparr>outputs_running := []\<rparr>) (DrainOutputs s) \<and>
   (output_sound c s \<longrightarrow> list_all (\<lambda>oc. handle c = output_handle oc) (outputs_running s) \<longrightarrow> output_sound c (DrainOutputs s))"
proof -
  have "output_frame t (fold FinishOutput cs t) \<and>
      (output_sound c t \<longrightarrow> list_all (\<lambda>oc. handle c = output_handle oc) cs \<longrightarrow> output_sound c (fold FinishOutput cs t))"
    for cs and t :: "'a DecoderSide_scheme"
  proof (induction cs arbitrary: t)
    case (Cons oc cs)
    show ?case
      using Cons.IH [of "FinishOutput oc t"] FinishOutput_frame [of t oc c] output_frame_trans by auto
  qed (simp add: output_frame_refl)
  from this [of "s\<lparr>outputs_running := []\<rparr>" "outputs_running s"] show ?thesis
    by (simp add: DrainOutputs_def output_sound_def)
qed

lemma DrainOutputs_fields [simp]:
  "decoder (DrainOutputs s) = decoder s" "callback_gate (DrainOutputs s) = callback_gate s"
  "lifecycle_state (DrainOutputs s) = lifecycle_state s" "decoder_media_contract (DrainOutputs s) = decoder_media_contract s"
  "decoder_recovery (DrainOutputs s) = decoder_recovery s" "input_slots (DrainOutputs s) = input_slots s"
  "decode_queue (DrainOutputs s) = decode_queue s" "outputs_running (DrainOutputs s) = []"
  "active_source_epoch (DrainOutputs s) = active_source_epoch s" "frames_dropped (DrainOutputs s) = frames_dropped s"
  "DecoderSide.more (DrainOutputs s) = DecoderSide.more s"
  using DrainOutputs_frame [of s] by (simp_all add: output_frame_def)

lemma DrainOutputs_none: "outputs_running s = [] \<Longrightarrow> DrainOutputs s = s"
  by (simp add: DrainOutputs_def)

lemma DrainOutputs_sound:
  assumes "codec_run (codec_log s) None = Some (Some c)" "phase c = Running" "capacity (telemetry s) = 8"
    "length (messages (telemetry s)) \<le> 8" "list_all (\<lambda>oc. output_handle oc = handle c) (outputs_running s)"
  shows "codec_run (codec_log (DrainOutputs s)) None = Some (Some c)" "capacity (telemetry (DrainOutputs s)) = 8"
    "length (messages (telemetry (DrainOutputs s))) \<le> 8"
proof -
  have "output_sound c (DrainOutputs s)"
    using DrainOutputs_frame [of s c] assms by (simp add: output_sound_def eq_commute)
  then show "codec_run (codec_log (DrainOutputs s)) None = Some (Some c)" "capacity (telemetry (DrainOutputs s)) = 8"
    "length (messages (telemetry (DrainOutputs s))) \<le> 8"
    by (simp_all add: output_sound_def)
qed

text \<open>Destruction, of a decoder that runs or was just halted by a flush.\<close>

lemma DestroyDecoderLocked_running:
  assumes "decoder s = Some h" "codec_run (codec_log s) None = Some (Some c)" "handle c = h"
    "phase c = Running \<or> phase c = Halted \<and> outputs_running s = []"
    "capacity (telemetry s) = 8" "length (messages (telemetry s)) \<le> 8"
    "list_all (\<lambda>oc. output_handle oc = h) (outputs_running s)"
  shows "halted (DestroyDecoderLocked s)"
proof -
  define t where "t = (ClearDecoderQueues (SetGate DecoderStopping s))\<lparr>decoder := None\<rparr>"
  define u where "u = DrainOutputs t"
  have t: "codec_log t = codec_log s" "telemetry t = telemetry s" "outputs_running t = outputs_running s" "decoder t = None"
      "input_slots t = []" "decode_queue t = []"
    by (simp_all add: t_def ClearDecoderQueues_def SetGate_def)
  have u: "codec_run (codec_log u) None = Some (Some c)" "capacity (telemetry u) = 8" "length (messages (telemetry u)) \<le> 8"
    using assms t DrainOutputs_sound [of t c] DrainOutputs_none [of t] by (auto simp: u_def)
  have f: "decoder u = None" "input_slots u = []" "decode_queue u = []" "outputs_running u = []" using t by (simp_all add: u_def)
  have "DestroyDecoderLocked s = coordinate RequireCodecData (SetGate DecoderStopped
      (codec_called (CallDestroy h) (codec_called (CallStop h) u)))"
    using assms(1) by (simp add: DestroyDecoderLocked_def Let_def u_def t_def ClearDecoderQueues_def SetGate_def)
  then show ?thesis
    using u f assms(3,4)
    by (auto simp: halted_iff decoder_simps RequireCodecData_def codec_run_append on_codec_def)
qed

lemma DestroyDecoderLocked_lifecycle:
  assumes "decoder_inv s"
  shows "halted (DestroyDecoderLocked (s\<lparr>lifecycle_state := l\<rparr>))"
proof (cases "decoder s")
  case None
  then have "halted s" using assms by (simp add: halted_def)
  then show ?thesis using None by (simp add: halted_iff DestroyDecoderLocked_def decoder_simps RequireCodecData_def Let_def)
next
  case (Some h)
  obtain c where c: "codec_run (codec_log s) None = Some (Some c)" "handle c = h" "phase c = Running"
    using assms Some by (auto simp: decoder_inv_def codec_matches_def split: option.splits)
  have "list_all (\<lambda>oc. output_handle oc = h) (outputs_running s)" "capacity (telemetry s) = 8" "length (messages (telemetry s)) \<le> 8"
    using assms Some by (simp_all add: decoder_inv_def eq_commute)
  then show ?thesis using DestroyDecoderLocked_running [of "s\<lparr>lifecycle_state := l\<rparr>" h c] Some c by simp
qed

lemma DestroyDecoderLocked_halts: "decoder_inv s \<Longrightarrow> halted (DestroyDecoderLocked s)"
  using DestroyDecoderLocked_lifecycle [of s "lifecycle_state s"] by simp

lemma DestroyDecoderLocked_keeps:
  "lifecycle_state (DestroyDecoderLocked s) = lifecycle_state s"
  "decoder_media_contract (DestroyDecoderLocked s) = decoder_media_contract s"
  by (simp_all add: DestroyDecoderLocked_def decoder_simps Let_def split: option.splits)


section \<open>Every operation keeps the invariant\<close>

lemma halted_frame:
  assumes "halted s"
  shows "halted (s\<lparr>lifecycle_state := l\<rparr>)" "halted (s\<lparr>decoder_media_contract := c\<rparr>)"
    "halted (SetGate DecoderStopped s)" "halted (SetState st d lst conn s)" "halted (RequestKeyframe s)"
    "halted (resync s)"
  using assms by (simp_all add: halted_iff decoder_simps RequestKeyFrame_def RequireCodecData_def)

lemma setup_failed_halted: "halted s \<Longrightarrow> halted (setup_failed op code s)"
  by (simp add: setup_failed_def halted_frame)

lemma abandon_halts:
  assumes "codec_run (codec_log s) None = Some (Some c)" "handle c = h" "decoder s = None"
    "recovery_state (decoder_recovery s) = kNeedsCodecData" "input_slots s = []" "decode_queue s = []"
    "outputs_running s = []" "capacity (telemetry s) = 8" "length (messages (telemetry s)) \<le> 8"
  shows "halted (abandon op code h s)"
  using assms by (simp add: halted_iff decoder_simps codec_run_append)

text \<open>What creation leaves behind: no decoder when it fails, a healthy one when it succeeds.\<close>

definition creation_outcome :: "'a DecoderSide_scheme \<Rightarrow> 'a DecoderSide_scheme \<times> bool \<Rightarrow> bool" where
  "creation_outcome s r \<longleftrightarrow>
     (if snd r then decoder_inv (fst r) \<and> decoder (fst r) \<noteq> None else halted (fst r)) \<and>
     lifecycle_state (fst r) = lifecycle_state s \<and>
     decoder_media_contract (fst r) = decoder_media_contract s"

text \<open>A decoder under construction: the session holds none, the log one in the given phase.\<close>

definition under_construction :: "nat \<Rightarrow> codec \<Rightarrow> 'a DecoderSide_scheme \<Rightarrow> 'a DecoderSide_scheme \<Rightarrow> bool" where
  "under_construction h c s t \<longleftrightarrow>
     codec_run (codec_log t) None = Some (Some c) \<and> handle c = h \<and> decoder t = None \<and>
     recovery_state (decoder_recovery t) = kNeedsCodecData \<and> input_slots t = [] \<and> decode_queue t = [] \<and>
     outputs_running t = [] \<and> capacity (telemetry t) = 8 \<and> length (messages (telemetry t)) \<le> 8 \<and>
     lifecycle_state t = lifecycle_state s \<and> decoder_media_contract t = decoder_media_contract s"

lemma under_construction_call:
  assumes "under_construction h c s t" "codec_step call (Some c) = Some (Some c')" "handle c' = h"
  shows "under_construction h c' s (codec_called call t)"
  using assms by (auto simp: under_construction_def codec_called_def codec_run_append)

lemma abandon_outcome:
  "under_construction h c s t \<Longrightarrow> creation_outcome s (abandon op code h t, False)"
  using abandon_halts [of t c h op code]
  by (auto simp: under_construction_def creation_outcome_def decoder_simps)

lemma start_decoder_outcome:
  assumes "under_construction h c s t" "phase c = Prepared" "codec_surface c = surface (lifecycle_state s)"
    "dimensions c = (width (decoder_media_contract s), height (decoder_media_contract s))"
    "DecoderShouldRun (lifecycle_state s)" "IsValidMediaContract (decoder_media_contract s)"
  shows "creation_outcome s (start_decoder res h t)"
  using assms
  by (auto simp: under_construction_def creation_outcome_def start_decoder_def halted_iff decoder_inv_def
      codec_matches_def decoder_simps codec_run_append on_codec_def RequireCodecData_def feed_matches_def Let_def)

lemma CreateDecoderLocked_outcome:
  assumes "halted s"
  shows "creation_outcome s (CreateDecoderLocked res s)"
proof -
  let ?l = "lifecycle_state s" and ?m = "decoder_media_contract s"
  consider "\<not> DecoderShouldRun ?l" | "DecoderShouldRun ?l" "\<not> IsValidMediaContract ?m"
    | "DecoderShouldRun ?l" "IsValidMediaContract ?m" "create res = None"
    | h where "DecoderShouldRun ?l" "IsValidMediaContract ?m" "create res = Some h"
    by blast
  then show ?thesis
  proof cases
    case 4
    let ?s0 = "SetGate DecoderStarting s"
    let ?s1 = "codec_called (CallCreate h) ?s0"
    let ?s2 = "codec_called (CallConfigure h (width ?m) (height ?m)) ?s1"
    let ?s3 = "codec_called (CallSetSurface h (surface ?l)) ?s2"
    let ?s4 = "codec_called (CallPrepare h) ?s3"
    let ?c1 = "\<lparr>handle = h, dimensions = (0, 0), codec_surface = 0, phase = Created, feed_state = AwaitCodecData\<rparr>"
    let ?c2 = "?c1\<lparr>dimensions := (width ?m, height ?m), phase := Configured\<rparr>"
    let ?c3 = "?c2\<lparr>codec_surface := surface ?l, phase := Surfaced\<rparr>"
    let ?c4 = "?c3\<lparr>phase := Prepared\<rparr>"
    have c1: "under_construction h ?c1 s ?s1"
      using assms by (simp add: under_construction_def halted_iff decoder_simps codec_run_append)
    have c2: "under_construction h ?c2 s ?s2"
      by (rule under_construction_call [OF c1]) (simp_all add: on_codec_def)
    have c3: "under_construction h ?c3 s ?s3"
      by (rule under_construction_call [OF c2]) (simp_all add: on_codec_def)
    have c4: "under_construction h ?c4 s ?s4"
      by (rule under_construction_call [OF c3]) (simp_all add: on_codec_def)
    have kept: "decoder_media_contract ?s1 = ?m" "lifecycle_state ?s2 = ?l"
      by (simp_all add: codec_called_def SetGate_def)
    show ?thesis
      using 4 abandon_outcome [OF c1] abandon_outcome [OF c2] abandon_outcome [OF c3]
        abandon_outcome [OF c4] start_decoder_outcome [OF c4]
      by (simp add: CreateDecoderLocked_def Let_def kept)
  qed (use assms in \<open>simp_all add: CreateDecoderLocked_def creation_outcome_def halted_frame
        setup_failed_halted, simp_all add: halted_iff decoder_simps\<close>)
qed

lemma decoder_inv_status [simp]:
  "decoder_inv (SetState st d lst conn s) = decoder_inv s"
  "decoder_inv (dropped n s) = decoder_inv s"
  "decoder_inv (RequestKeyframe s) = decoder_inv s"
  "decoder_inv (s\<lparr>decoder_resync_events := e\<rparr>) = decoder_inv s"
  "decoder_inv (s\<lparr>received_frames := a, received_bytes := b\<rparr>) = decoder_inv s"
  by (rule decoder_inv_cong; simp add: decoder_simps RequestKeyFrame_def)+

lemma halted_inv: "halted s \<Longrightarrow> decoder_inv s"
  by (simp add: halted_def)

lemma creation_inv: "creation_outcome s (t, b) \<Longrightarrow> decoder_inv t"
  by (cases b) (auto simp: creation_outcome_def halted_inv)

lemma decoder_inv_requires_codec_data: "decoder_inv s \<Longrightarrow> decoder_inv (coordinate RequireCodecData s)"
  by (cases "decoder s")
     (auto simp: decoder_inv_def codec_matches_def coordinate_def RequireCodecData_def feed_matches_def
       split: option.splits)

lemma resync_inv: "decoder_inv s \<Longrightarrow> decoder_inv (resync s)"
  by (simp add: resync_def decoder_inv_requires_codec_data)

lemma decoder_inv_queue:
  "decoder_inv s \<Longrightarrow> decoder s \<noteq> None \<Longrightarrow> length q \<le> 3 \<Longrightarrow> list_all (\<lambda>f. input_bytes f \<noteq> []) q \<Longrightarrow>
   decoder_inv (s\<lparr>input_slots := sl, decode_queue := q\<rparr>)"
  by (auto simp: decoder_inv_def codec_matches_def split: option.splits)

lemma decoder_inv_queue_only:
  "decoder_inv s \<Longrightarrow> decoder s \<noteq> None \<Longrightarrow> length q \<le> 3 \<Longrightarrow> list_all (\<lambda>f. input_bytes f \<noteq> []) q \<Longrightarrow>
   decoder_inv (s\<lparr>decode_queue := q\<rparr>)"
  using decoder_inv_queue [of s q "input_slots s"] by simp

text \<open>The snapshot a handler takes is healthy exactly when a decoder is held.\<close>

lemma runtime_snapshot:
  assumes "decoder_inv s"
  shows "available (DecoderRuntimeLocked s) = (decoder s \<noteq> None)"
    and "runtime_state (DecoderRuntimeLocked s) = (if decoder s = None then DecoderStopped else DecoderRunning)"
  using assms by (auto simp: DecoderRuntimeLocked_def decoder_inv_def split: option.splits)

lemmas lifecycle_defs =
  SurfaceCreated_def SurfaceChanged_def SurfaceDestroyed_def Foreground_def Background_def Reconcile_def
  rejected_def Let_def

text \<open>
  What a decision says about the new lifecycle state: a decoder is stopped when it may not run or
  its surface changed, and started when it should run and none does.
\<close>

lemma lifecycle_decision_cases:
  assumes "decoder_inv s" and "lifecycle_decision e (DecoderRuntimeLocked s) (lifecycle_state s) = (l, d)"
  shows "\<not> decision_accepted d \<and> l = lifecycle_state s \<or>
    decision_accepted d \<and> stopDecoder d = (decoder s \<noteq> None \<and> (\<not> DecoderShouldRun l \<or> startDecoder d)) \<and>
    (startDecoder d \<longrightarrow> DecoderShouldRun l) \<and>
    (\<not> startDecoder d \<longrightarrow> DecoderShouldRun l \<longrightarrow> decoder s \<noteq> None \<and> surface l = surface (lifecycle_state s))"
  using assms runtime_snapshot [OF assms(1)]
  by (cases e) (auto simp: lifecycle_defs split: if_splits)

lemma ApplyLifecycleDecision_inv:
  assumes inv: "decoder_inv s"
    and dec: "lifecycle_decision e (DecoderRuntimeLocked s) (lifecycle_state s) = (l, d)"
  shows "decoder_inv (fst (ApplyLifecycleDecisionLocked res d (s\<lparr>lifecycle_state := l\<rparr>)))"
proof -
  let ?s = "s\<lparr>lifecycle_state := l\<rparr>"
  note cases = lifecycle_decision_cases [OF inv dec]
  have stop: "halted (DestroyDecoderLocked ?s)" by (rule DestroyDecoderLocked_lifecycle [OF inv])
  have none: "halted ?s" if "decoder s = None"
    using inv that by (simp add: halted_def [of s] halted_frame)
  show ?thesis
  proof (cases "decision_accepted d")
    case False
    then show ?thesis using cases inv by (simp add: ApplyLifecycleDecisionLocked_def)
  next
    case acc: True
    show ?thesis
    proof (cases "startDecoder d")
      case True
      then show ?thesis
        using acc cases stop none CreateDecoderLocked_outcome [of "DestroyDecoderLocked ?s" res]
          CreateDecoderLocked_outcome [of ?s res]
        by (cases "decoder s") (auto simp: ApplyLifecycleDecisionLocked_def Let_def creation_outcome_def
            halted_inv split: if_splits)
    next
      case False
      then have "decoder_inv ?s" if "\<not> stopDecoder d"
        using acc cases inv that none
        by (cases "decoder s") (auto simp: halted_inv decoder_inv_def codec_matches_def split: option.splits)
      then show ?thesis
        using False acc stop by (simp add: ApplyLifecycleDecisionLocked_def Let_def halted_inv)
    qed
  qed
qed

lemma OnSurfaceEvent_inv: "decoder_inv s \<Longrightarrow> decoder_inv (OnSurfaceEvent res e s)"
  using ApplyLifecycleDecision_inv [of s e _ _ res]
  by (auto simp: OnSurfaceEvent_def Let_def split: prod.splits)

lemma FlushDecoder_inv:
  assumes "decoder_inv s"
  shows "decoder_inv (fst (FlushDecoder res s))"
proof (cases "decoder s")
  case None
  then have "halted s" using assms by (simp add: halted_def)
  then have "halted (SetGate DecoderStopped (BeginFlush s))"
    by (simp add: halted_iff decoder_simps)
  then show ?thesis
    using None CreateDecoderLocked_outcome [of "SetGate DecoderStopped (BeginFlush s)" res]
    by (auto simp: FlushDecoder_def Let_def resync_inv halted_inv creation_inv split: prod.splits)
next
  case (Some h)
  let ?s0 = "DrainOutputs (BeginFlush s)"
  let ?s1 = "codec_called (CallFlush h) ?s0"
  let ?s2 = "if flushed res then codec_called (CallStart h (restarted res)) (SetGate DecoderRunning ?s1) else ?s1"
  obtain c where c: "codec_run (codec_log s) None = Some (Some c)" "handle c = h" "phase c = Running"
      "codec_surface c = surface (lifecycle_state s)"
      "dimensions c = (width (decoder_media_contract s), height (decoder_media_contract s))"
    using assms Some by (auto simp: decoder_inv_def codec_matches_def split: option.splits)
  have begun: "codec_log (BeginFlush s) = codec_log s" "telemetry (BeginFlush s) = telemetry s"
      "outputs_running (BeginFlush s) = outputs_running s"
    by (simp_all add: decoder_simps)
  have s0: "codec_run (codec_log ?s0) None = Some (Some c)" "capacity (telemetry ?s0) = 8" "length (messages (telemetry ?s0)) \<le> 8"
    using DrainOutputs_sound [of "BeginFlush s" c] begun c assms Some by (simp_all add: decoder_inv_def eq_commute)
  have s2: "decoder ?s2 = Some h" "lifecycle_state ?s2 = lifecycle_state s"
      "decoder_media_contract ?s2 = decoder_media_contract s" "capacity (telemetry ?s2) = 8"
      "length (messages (telemetry ?s2)) \<le> 8" "decode_queue ?s2 = []" "outputs_running ?s2 = []"
    using assms Some s0 by (auto simp: decoder_simps decoder_inv_def)
  have run2: "codec_run (codec_log ?s2) None = Some (Some (c\<lparr>feed_state := AwaitCodecData,
      phase := (if flushed res \<and> restarted res then Running else Halted)\<rparr>))"
    using c s0(1) by (auto simp: codec_called_def SetGate_def codec_run_append on_codec_def)
  show ?thesis
  proof (cases "flushed res \<and> restarted res")
    case True
    then have gate: "callback_gate ?s2 = DecoderRunning"
      by (simp add: decoder_simps)
    have "decoder_inv (coordinate RequireCodecData ?s2)"
      using run2 c s2 gate True assms Some
      by (auto simp: decoder_inv_def codec_matches_def coordinate_def RequireCodecData_def feed_matches_def)
    then show ?thesis
      using True Some by (auto simp: FlushDecoder_def EvaluateFlushRecovery_def resync_def Let_def)
  next
    case False
    have "halted (DestroyDecoderLocked ?s2)"
      by (rule DestroyDecoderLocked_running [OF s2(1) run2]) (use c(2) s2(4,5,7) False in simp_all)
    then show ?thesis
      using False Some CreateDecoderLocked_outcome [of "DestroyDecoderLocked ?s2" res]
      by (auto simp: FlushDecoder_def EvaluateFlushRecovery_def Let_def resync_inv halted_inv creation_inv
        split: prod.splits)
  qed
qed

lemma ReconfigureDecoder_inv:
  assumes "decoder_inv s"
  shows "decoder_inv (fst (ReconfigureDecoder res contract s))"
proof -
  let ?s = "(DestroyDecoderLocked s)\<lparr>decoder_media_contract := contract\<rparr>"
  have "halted ?s" using assms by (intro halted_frame DestroyDecoderLocked_halts)
  then show ?thesis
    using assms CreateDecoderLocked_outcome [of ?s res]
    by (auto simp: ReconfigureDecoder_def Let_def resync_inv halted_inv creation_outcome_def halted_frame
      split: prod.splits if_splits)
qed

lemma dropped_keeps [simp]: "decoder (dropped n s) = decoder s" "CallbacksAllowed (dropped n s) = CallbacksAllowed s"
  by (simp_all add: dropped_def CallbacksAllowed_def)

lemma push_inv:
  assumes "decoder_inv s" "decoder s = Some h" "InputAllowed (input_kind f) (decoder_recovery s)" "input_bytes f \<noteq> []"
  shows "decoder_inv (coordinate (OnInputSubmitted (input_kind f) ok)
     (codec_called (CallPush h i (input_kind f) (input_bytes f) pts ok) s))"
proof -
  obtain c where c: "codec_run (codec_log s) None = Some (Some c)" "handle c = h" "phase c = Running"
      and m: "feed_matches (recovery_state (decoder_recovery s)) (feed_state c)"
    using assms by (auto simp: decoder_inv_def codec_matches_def split: option.splits)
  obtain f' where f': "feed_step (feed_state c) (input_kind f) = Some f'"
      "feed_matches (AdvanceDecoderRecovery (recovery_state (decoder_recovery s)) (input_kind f) ok)
         (if ok then f' else AwaitCodecData)"
    using m assms(3)
    by (cases "input_kind f"; cases "feed_state c")
       (auto simp: feed_matches_def InputAllowed_def DecoderInputAllowed_def AdvanceDecoderRecovery_def)
  have "codec_run (codec_log s @ [CallPush h i (input_kind f) (input_bytes f) pts ok]) None =
      Some (Some (c\<lparr>feed_state := (if ok then f' else AwaitCodecData)\<rparr>))"
    using c f' assms(4) by (simp add: codec_run_append)
  then show ?thesis
    using assms c f'
    by (auto simp: decoder_inv_def codec_matches_def coordinate_def codec_called_def OnInputSubmitted_def
        RequestKeyFrame_def Let_def)
qed

lemma pump_failed_inv: "decoder_inv s \<Longrightarrow> decoder s \<noteq> None \<Longrightarrow> decoder_inv (pump_failed s)"
  by (simp add: pump_failed_def Let_def dropped_def decoder_inv_status [unfolded dropped_def])
     (auto simp: decoder_inv_def codec_matches_def split: option.splits)

lemma PumpDecoderLocked_inv:
  assumes "decoder_inv s"
  shows "decoder_inv (PumpDecoderLocked acc h s)"
  using assms
proof (induction acc h s rule: PumpDecoderLocked.induct)
  case (1 acc h s)
  let ?slot = "hd (input_slots s)" and ?f = "hd (decode_queue s)"
  let ?s = "s\<lparr>input_slots := tl (input_slots s), decode_queue := tl (decode_queue s)\<rparr>"
  show ?case
  proof (cases "CallbacksAllowed s \<and> decoder s = Some h \<and> input_slots s \<noteq> [] \<and> decode_queue s \<noteq> []")
    case False
    then show ?thesis using 1(3) by (subst PumpDecoderLocked.simps) (simp only: False if_False)
  next
    case go: True
    have queue: "length (tl (decode_queue s)) \<le> 3" "list_all (\<lambda>f. input_bytes f \<noteq> []) (tl (decode_queue s))"
        "input_bytes ?f \<noteq> []"
      using 1(3) go by (auto simp: decoder_inv_def list_all_iff dest: list.set_sel)
    have inv: "decoder_inv ?s"
      using 1(3) go queue by (intro decoder_inv_queue) auto
    have dec: "decoder ?s = Some h" using go by simp
    show ?thesis
    proof (cases "InputAllowed (input_kind ?f) (decoder_recovery s)")
      case False
      then show ?thesis
        using 1(1) [OF go refl refl refl] inv go
        by (subst PumpDecoderLocked.simps) (simp add: Let_def)
    next
      case allowed: True
      let ?t = "coordinate (OnInputSubmitted (input_kind ?f) (acc ?slot))
         (codec_called (CallPush h (slot_index ?slot) (input_kind ?f) (input_bytes ?f)
            (input_timestamp ?f) (acc ?slot)) ?s)"
      have "decoder_inv ?t"
        by (rule push_inv [OF inv dec]) (use allowed queue in simp_all)
      moreover have "decoder ?t \<noteq> None" using dec by (simp add: coordinate_def codec_called_def)
      moreover have "decoder_inv (pump_failed (coordinate RequireCodecData ?s))"
        using inv dec by (intro pump_failed_inv decoder_inv_requires_codec_data) (simp_all add: coordinate_def)
      ultimately show ?thesis
        using 1(2) [OF go refl refl refl] allowed go pump_failed_inv [of ?t]
        by (subst PumpDecoderLocked.simps) (auto simp: Let_def)
    qed
  qed
qed

lemma SubmitFrame_inv:
  assumes "decoder_inv s" "input_bytes f \<noteq> []"
  shows "decoder_inv (SubmitFrame acc f s)"
proof (cases "decoder s = None \<or> \<not> CallbacksAllowed s \<or> \<not> InputAllowed (input_kind f) (decoder_recovery s)")
  case True
  then show ?thesis using assms by (auto simp: SubmitFrame_def split: option.splits)
next
  case False
  then obtain h where h: "decoder s = Some h" by auto
  show ?thesis
  proof (cases "length (decode_queue s) < 3")
    case True
    have "decoder_inv (s\<lparr>decode_queue := decode_queue s @ [f]\<rparr>)"
      using assms h True by (intro decoder_inv_queue_only) (auto simp: decoder_inv_def)
    then show ?thesis
      using False h True
      by (simp add: SubmitFrame_def Admit_def EvaluateDecodeQueueAdmission_def Let_def PumpDecoderLocked_inv)
  next
    case full: False
    have "decoder_inv (coordinate RequireCodecData (s\<lparr>decode_queue := []\<rparr>))"
      using assms h by (intro decoder_inv_requires_codec_data decoder_inv_queue_only) auto
    then have "decoder_inv (RequestKeyframe (coordinate RequireCodecData (s\<lparr>decode_queue := []\<rparr>)))"
      by simp
    then show ?thesis
      using False h full
      by (simp add: SubmitFrame_def Admit_def EvaluateDecodeQueueAdmission_def Let_def coordinate_def
          RequestKeyframe_def RequireCodecData_def)
  qed
qed

lemma SubmitRecovery_inv:
  assumes "decoder_inv s"
  shows "decoder_inv (fst (SubmitRecovery acc config sync s))"
proof (cases "decoder s")
  case (Some h)
  then show ?thesis
    using assms
    by (auto simp: SubmitRecovery_def Let_def intro!: PumpDecoderLocked_inv decoder_inv_queue_only)
qed (use assms in \<open>simp add: SubmitRecovery_def\<close>)

lemma SubmitRecovery_result_inv:
  "SubmitRecovery acc config sync s = (t, b) \<Longrightarrow> decoder_inv s \<Longrightarrow> decoder_inv t"
  using SubmitRecovery_inv [of s acc config sync] by simp

lemma HandleVideo_inv:
  assumes "decoder_inv s"
  shows "decoder_inv (HandleVideo acc data s)"
proof (cases "DecodeVideoHeader data")
  case None
  then show ?thesis using assms by (simp add: HandleVideo_def)
next
  case (Some header)
  then have "payloadLength header \<noteq> 0" "length data = kHeaderSize + unat (payloadLength header)"
    by (auto simp: DecodeVideoHeader_def Let_def split: if_splits)
  then have "take (unat (payloadLength header)) (drop kHeaderSize data) \<noteq> []"
    by (auto simp: unat_eq_0)
  then show ?thesis
    using Some assms
    by (auto simp: HandleVideo_def Let_def SubmitFrame_inv split: prod.splits bool.splits
        intro: SubmitRecovery_result_inv)
qed

lemma DecoderOutput_inv: "decoder_inv s \<Longrightarrow> decoder_inv (DecoderOutput h i attrs ok clock s)"
  by (auto simp: DecoderOutput_def decoder_inv_def codec_matches_def split: option.splits)

lemma DecoderOutput_step_inv:
  assumes "decoder_inv s" "decoder s = Some (output_handle oc)" "DecoderOutput_step oc s = (r, t)"
  shows "decoder_inv t"
proof -
  obtain c where c: "codec_run (codec_log s) None = Some (Some c)" "handle c = output_handle oc" "phase c = Running"
      "codec_surface c = surface (lifecycle_state s)"
      "dimensions c = (width (decoder_media_contract s), height (decoder_media_contract s))"
      "feed_matches (recovery_state (decoder_recovery s)) (feed_state c)"
    using assms(1,2) by (auto simp: decoder_inv_def codec_matches_def split: option.splits)
  then have "output_sound c t"
    using DecoderOutput_step_frame(2) [OF assms(3), of c] assms(1) by (simp add: output_sound_def decoder_inv_def)
  then show ?thesis
    using DecoderOutput_step_frame(1) [OF assms(3)] assms(1,2) c
    by (auto simp: decoder_inv_def codec_matches_def output_frame_def output_sound_def)
qed

lemma outputs_running_inv:
  "decoder_inv t \<Longrightarrow> list_all (\<lambda>c. decoder t = Some (output_handle c)) cs \<Longrightarrow> decoder_inv (t\<lparr>outputs_running := cs\<rparr>)"
  by (auto simp: decoder_inv_def codec_matches_def split: option.splits)

lemma DecoderOutput_advance_inv:
  assumes "decoder_inv s"
  shows "decoder_inv (DecoderOutput_advance i s)"
proof (cases "i < length (outputs_running s)")
  case True
  let ?oc = "outputs_running s ! i"
  have all: "\<forall>c\<in>set (outputs_running s). decoder s = Some (output_handle c)"
    using assms by (simp add: decoder_inv_def list_all_iff)
  then have here: "decoder s = Some (output_handle ?oc)" using True by simp
  obtain r t where step: "DecoderOutput_step ?oc s = (r, t)" by fastforce
  have t: "decoder_inv t" "decoder t = decoder s"
    using DecoderOutput_step_inv [OF assms here step] DecoderOutput_step_frame(1) [OF step] by (simp_all add: output_frame_def)
  show ?thesis
  proof (cases r)
    case None
    have "list_all (\<lambda>c. decoder t = Some (output_handle c)) (take i (outputs_running s) @ drop (Suc i) (outputs_running s))"
      using all t(2) by (auto simp: list_all_iff dest: in_set_takeD in_set_dropD)
    then show ?thesis using outputs_running_inv [OF t(1)] step None True by (simp add: DecoderOutput_advance_def)
  next
    case (Some oc)
    have "list_all (\<lambda>c. decoder t = Some (output_handle c)) ((outputs_running s)[i := oc])"
      using all t(2) here DecoderOutput_step_frame(3) [OF step Some] by (auto simp: list_all_iff dest!: set_update_subset_insert [THEN subsetD])
    then show ?thesis using outputs_running_inv [OF t(1)] step Some True by (simp add: DecoderOutput_advance_def)
  qed
qed (use assms in \<open>simp add: DecoderOutput_advance_def\<close>)

lemma DecoderNeedInput_inv:
  assumes "decoder_inv s"
  shows "decoder_inv (DecoderNeedInput acc h slot s)"
proof (cases "CallbacksAllowed s \<and> decoder s = Some h")
  case True
  then have "decoder_inv (s\<lparr>input_slots := input_slots s @ [slot]\<rparr>)"
    using assms by (auto simp: decoder_inv_def codec_matches_def split: option.splits)
  then show ?thesis by (auto simp: DecoderNeedInput_def PumpDecoderLocked_inv assms)
qed (use assms in \<open>auto simp: DecoderNeedInput_def\<close>)

lemma DecoderError_inv: "decoder_inv s \<Longrightarrow> decoder_inv (DecoderError code s)"
  by (simp add: DecoderError_def)

section \<open>Recovery, overload and visibility\<close>

definition all_succeed :: "CodecResults \<Rightarrow> bool" where
  "all_succeed res \<longleftrightarrow> create res \<noteq> None \<and> registerCallback res = AV_ERR_OK \<and> format_made res \<and>
     configure res = AV_ERR_OK \<and> setSurface res = AV_ERR_OK \<and> prepare res = AV_ERR_OK \<and> start res = AV_ERR_OK"

lemma CreateDecoderLocked_succeeds:
  assumes "all_succeed res"
  shows "snd (CreateDecoderLocked res s) \<longleftrightarrow>
    DecoderShouldRun (lifecycle_state s) \<and> IsValidMediaContract (decoder_media_contract s)"
  using assms
  by (auto simp: CreateDecoderLocked_def all_succeed_def start_decoder_def Let_def)

lemma created_iff:
  "creation_outcome s r \<Longrightarrow> decoder (fst r) \<noteq> None \<longleftrightarrow> snd r"
  by (auto simp: creation_outcome_def halted_def split: if_splits)

definition fits :: "DecodedInput \<Rightarrow> InputSlot \<Rightarrow> bool" where
  "fits f slot \<longleftrightarrow> slot_mapped slot \<and> int (length (input_bytes f)) \<le> slot_capacity slot"

text \<open>One accepted input: the slot and the frame are consumed and the push is recorded.\<close>

lemma PumpDecoderLocked_accepts:
  assumes "CallbacksAllowed s" "decoder s = Some h" "input_slots s = slot # slots" "decode_queue s = f # fs"
    "InputAllowed (input_kind f) (decoder_recovery s)" "fits f slot" "acc slot"
  shows "PumpDecoderLocked acc h s = PumpDecoderLocked acc h
    (s\<lparr>input_slots := slots, decode_queue := fs,
       codec_log := codec_log s @ [CallPush h (slot_index slot) (input_kind f) (input_bytes f) (input_timestamp f) True],
       decoder_recovery := OnInputSubmitted (input_kind f) True (decoder_recovery s)\<rparr>)"
  using assms
  by (subst PumpDecoderLocked.simps) (simp add: Let_def fits_def codec_called_def coordinate_def)

lemma PumpDecoderLocked_idle: "decode_queue s = [] \<Longrightarrow> PumpDecoderLocked acc h s = s"
  by (subst PumpDecoderLocked.simps) simp

lemma SubmitRecovery_accepted:
  assumes inv: "decoder_inv s" "decoder s = Some h" "recovery_state (decoder_recovery s) = kNeedsCodecData"
    and slots: "input_slots s = a # b # slots" "fits config a" "fits sync b" "acc a" "acc b"
    and inputs: "input_kind config = kCodecData" "input_kind sync = kSyncFrame"
      "input_bytes config \<noteq> []" "input_bytes sync \<noteq> []"
  shows "SubmitRecovery acc config sync s =
    ((dropped (length (decode_queue s)) s)
      \<lparr>input_slots := slots, decode_queue := [],
       codec_log := codec_log s @
         [CallPush h (slot_index a) kCodecData (input_bytes config) (input_timestamp config) True,
          CallPush h (slot_index b) kSyncFrame (input_bytes sync) (input_timestamp sync) True],
       decoder_recovery := (decoder_recovery s)\<lparr>recovery_state := kReady\<rparr>\<rparr>, True)"
proof -
  have gate: "CallbacksAllowed s"
    using inv by (simp add: decoder_inv_def CallbacksAllowed_def DecoderCallbacksAllowed_def)
  let ?s0 = "(dropped (length (decode_queue s)) s)\<lparr>decode_queue := [config, sync]\<rparr>"
  let ?s1 = "?s0\<lparr>input_slots := b # slots, decode_queue := [sync],
       codec_log := codec_log s @ [CallPush h (slot_index a) kCodecData (input_bytes config) (input_timestamp config) True],
       decoder_recovery := (decoder_recovery s)\<lparr>recovery_state := kNeedsSyncFrame\<rparr>\<rparr>"
  have "PumpDecoderLocked acc h ?s0 = PumpDecoderLocked acc h ?s1"
    using gate inv slots inputs
    by (subst PumpDecoderLocked_accepts [where slot = a and slots = "b # slots" and f = config and fs = "[sync]"])
       (simp_all add: CallbacksAllowed_def dropped_def InputAllowed_def DecoderInputAllowed_def
         OnInputSubmitted_def AdvanceDecoderRecovery_def Let_def)
  also have "\<dots> = ?s1\<lparr>input_slots := slots, decode_queue := [],
       codec_log := codec_log ?s1 @ [CallPush h (slot_index b) kSyncFrame (input_bytes sync) (input_timestamp sync) True],
       decoder_recovery := (decoder_recovery s)\<lparr>recovery_state := kReady\<rparr>\<rparr>"
    using gate inv slots inputs
    by (subst PumpDecoderLocked_accepts [where slot = b and slots = slots and f = sync and fs = "[]"])
       (simp_all add: CallbacksAllowed_def dropped_def InputAllowed_def DecoderInputAllowed_def
         OnInputSubmitted_def AdvanceDecoderRecovery_def Let_def PumpDecoderLocked_idle)
  finally show ?thesis
    using gate inv inputs by (simp add: SubmitRecovery_def Let_def dropped_def)
qed

definition payload_of :: "byte list \<Rightarrow> VideoHeader \<Rightarrow> byte list" where
  "payload_of data h = take (unat (payloadLength h)) (drop kHeaderSize data)"

text \<open>A video message the session can recover with: for the active epoch, a key frame, complete.\<close>

definition recovers :: "'a DecoderSide_scheme \<Rightarrow> byte list \<Rightarrow> VideoHeader \<Rightarrow> bool" where
  "recovers s data h \<longleftrightarrow> DecodeVideoHeader data = Some h \<and> sourceEpoch h = active_source_epoch s \<and>
     flags h AND kKeyframe \<noteq> 0 \<and> recovery_complete (SplitAvcRecoveryInput (payload_of data h))"

text \<open>
  C39. A complete key frame restores the stream: when the decoder waits for codec data and offers two
  input buffers that are large enough and accepted, handling the frame pushes exactly two inputs,
  the codec data and then the sync frame, which share out the bytes of the payload, and leaves the
  decoder ready with nothing queued; frames still queued before are counted as dropped.
\<close>

theorem key_frame_restores_stream:
  assumes "decoder_inv s" "decoder s = Some h" "recovery_state (decoder_recovery s) = kNeedsCodecData"
    and "recovers s data header"
    and "input_slots s = a # b # slots" "acc a" "acc b" "slot_mapped a" "slot_mapped b"
    and "int (length data) \<le> slot_capacity a" "int (length data) \<le> slot_capacity b"
  shows "\<exists>config sync. mset config + mset sync = mset (payload_of data header) \<and>
    codec_log (HandleVideo acc data s) = codec_log s @
      [CallPush h (slot_index a) kCodecData config (timestampUs header) True,
       CallPush h (slot_index b) kSyncFrame sync (timestampUs header) True] \<and>
    recovery_state (decoder_recovery (HandleVideo acc data s)) = kReady \<and>
    decode_queue (HandleVideo acc data s) = [] \<and> input_slots (HandleVideo acc data s) = slots \<and>
    frames_dropped (HandleVideo acc data s) = frames_dropped s + word_of_nat (length (decode_queue s))"
proof -
  let ?r = "SplitAvcRecoveryInput (payload_of data header)"
  let ?config = "\<lparr>input_bytes = codecData ?r, input_timestamp = timestampUs header, input_kind = kCodecData\<rparr>"
  let ?sync = "\<lparr>input_bytes = syncFrame ?r, input_timestamp = timestampUs header, input_kind = kSyncFrame\<rparr>"
  let ?s = "s\<lparr>received_frames := received_frames s + 1,
              received_bytes := received_bytes s + ucast (payloadLength header)\<rparr>"
  have parts: "mset (codecData ?r) + mset (syncFrame ?r) = mset (payload_of data header)"
      "codecData ?r \<noteq> []" "syncFrame ?r \<noteq> []"
    using assms(4) complete_recovery_parts [of "payload_of data header"] by (auto simp: recovers_def)
  have "length (codecData ?r) + length (syncFrame ?r) = length (payload_of data header)"
    using arg_cong [OF parts(1), of size] by simp
  then have "length (codecData ?r) \<le> length data" "length (syncFrame ?r) \<le> length data"
    by (auto simp: payload_of_def)
  then have fit: "fits ?config a" "fits ?sync b"
    using assms by (auto simp: fits_def)
  have gate: "CallbacksAllowed ?s"
    using assms by (simp add: decoder_inv_def CallbacksAllowed_def DecoderCallbacksAllowed_def)
  have accepted: "SubmitRecovery acc ?config ?sync ?s =
    ((dropped (length (decode_queue s)) ?s)
      \<lparr>input_slots := slots, decode_queue := [],
       codec_log := codec_log s @
         [CallPush h (slot_index a) kCodecData (codecData ?r) (timestampUs header) True,
          CallPush h (slot_index b) kSyncFrame (syncFrame ?r) (timestampUs header) True],
       decoder_recovery := (decoder_recovery s)\<lparr>recovery_state := kReady\<rparr>\<rparr>, True)"
    using SubmitRecovery_accepted [of ?s h a b slots ?config ?sync acc] assms fit parts by simp
  have "HandleVideo acc data s = fst (SubmitRecovery acc ?config ?sync ?s)"
    using assms gate accepted by (simp add: HandleVideo_def recovers_def Let_def payload_of_def)
  then show ?thesis
    using accepted parts(1) by (intro exI [of _ "codecData ?r"] exI [of _ "syncFrame ?r"]) (simp add: dropped_def)
qed


text \<open>A session with a running decoder and two free input buffers, reached by the handlers.\<close>

definition example_results :: CodecResults where
  "example_results = \<lparr>create = Some 7, registerCallback = AV_ERR_OK, format_made = True, configure = AV_ERR_OK,
     setSurface = AV_ERR_OK, prepare = AV_ERR_OK, start = AV_ERR_OK, flushed = True, restarted = True\<rparr>"

definition example_slot :: "u32 \<Rightarrow> InputSlot" where
  "example_slot i = \<lparr>slot_index = i, slot_capacity = 4096, slot_mapped = True\<rparr>"

definition example_session :: DecoderSide where
  "example_session =
     fold (DecoderNeedInput (\<lambda>_. True) 7) [example_slot 1, example_slot 2]
       (fst (ReconfigureDecoder example_results \<lparr>width = 640, height = 480, maxFps = 30\<rparr>
          (OnSurfaceEvent example_results (OnSurfaceCreated 1 2) newDecoderSide)))"

lemma example_contract: "IsValidMediaContract \<lparr>width = 640, height = 480, maxFps = 30\<rparr>"
  by (simp add: IsValidMediaContract_def)

lemma example_created:
  "OnSurfaceEvent example_results (OnSurfaceCreated 1 2) newDecoderSide =
     newDecoderSide\<lparr>lifecycle_state := \<lparr>foreground = True, lifecycle_component = 1, surface = 2\<rparr>\<rparr>"
  by (simp add: OnSurfaceEvent_def lifecycle_defs DecoderRuntimeLocked_def newDecoderSide_def newLifecycle_def
      ApplyLifecycleDecisionLocked_def DecoderShouldRun_def CreateDecoderLocked_def SetGate_def
      IsValidMediaContract_def noContract_def)

lemma example_session_state:
  "decoder_inv example_session" "decoder example_session = Some 7"
  "recovery_state (decoder_recovery example_session) = kNeedsCodecData"
  "input_slots example_session = [example_slot 1, example_slot 2]"
  "active_source_epoch example_session = 0" "decode_queue example_session = []"
proof -
  let ?s = "newDecoderSide\<lparr>lifecycle_state := \<lparr>foreground = True, lifecycle_component = 1, surface = 2\<rparr>\<rparr>"
  let ?t = "fst (ReconfigureDecoder example_results \<lparr>width = 640, height = 480, maxFps = 30\<rparr> ?s)"
  show "decoder_inv example_session"
    unfolding example_session_def by (simp add: DecoderNeedInput_inv ReconfigureDecoder_inv OnSurfaceEvent_inv newDecoderSide_inv)
  have t: "decoder ?t = Some 7" "callback_gate ?t = DecoderRunning" "decode_queue ?t = []" "input_slots ?t = []"
      "recovery_state (decoder_recovery ?t) = kNeedsCodecData" "active_source_epoch ?t = 0"
    by (simp_all add: ReconfigureDecoder_def example_contract Let_def DestroyDecoderLocked_def newDecoderSide_def
        DecoderShouldRun_def CreateDecoderLocked_def example_results_def start_decoder_def decoder_simps
        RequireCodecData_def RequestKeyFrame_def)
  show "decoder example_session = Some 7"
    "recovery_state (decoder_recovery example_session) = kNeedsCodecData"
    "input_slots example_session = [example_slot 1, example_slot 2]"
    "active_source_epoch example_session = 0" "decode_queue example_session = []"
    unfolding example_session_def example_created
    by (simp_all add: t DecoderNeedInput_def CallbacksAllowed_def DecoderCallbacksAllowed_def PumpDecoderLocked_idle)
qed

definition example_key_frame :: "byte list" where
  "example_key_frame =
     render_video_header \<lparr>sourceEpoch = 0, sequence = 1, flags = 1, payloadLength = 15, timestampUs = 9\<rparr> @
     [0, 0, 1, 0x67, 1, 0, 0, 1, 0x68, 2, 0, 0, 1, 0x65, 3]"

lemma example_key_frame_recovers:
  "recovers example_session example_key_frame
     \<lparr>sourceEpoch = 0, sequence = 1, flags = 1, payloadLength = 15, timestampUs = 9\<rparr>"
proof -
  let ?h = "\<lparr>sourceEpoch = 0, sequence = 1, flags = 1, payloadLength = 15, timestampUs = 9\<rparr>"
  let ?units = "[Nal False [0x67, 1], Nal False [0x68, 2], Nal False [0x65, 3]]"
  have bytes: "payload_of example_key_frame ?h = concat (map unit_bytes ?units)"
    by (simp add: payload_of_def example_key_frame_def kHeaderSize_def unit_bytes_def start_code_def)
  have "SplitAvcRecoveryInput (concat (map unit_bytes ?units)) = gather emptyRecovery ?units"
    by (rule SplitAvcRecoveryInput_gathers) (simp add: wellformed_nal_def code_at_def upt_rec)
  then have "recovery_complete (SplitAvcRecoveryInput (payload_of example_key_frame ?h))"
    unfolding bytes by (simp add: recovery_complete_def gather_def unit_type_def)
  moreover have "DecodeVideoHeader example_key_frame = Some ?h"
    unfolding DecodeVideoHeader_iff
    by (intro exI [of _ "[0, 0, 1, 0x67, 1, 0, 0, 1, 0x68, 2, 0, 0, 1, 0x65, 3]"])
       (simp add: example_key_frame_def video_header_fits_def kMaxFrameBytes_def)
  ultimately show ?thesis
    by (simp add: recovers_def example_session_state kKeyframe_def)
qed

lemma key_frame_restores_stream_witness:
  "recovery_state (decoder_recovery (HandleVideo (\<lambda>_. True) example_key_frame example_session)) = kReady"
proof -
  have "length example_key_frame = 47"
    by (simp add: example_key_frame_def)
  then show ?thesis
    using key_frame_restores_stream [OF example_session_state(1,2,3) example_key_frame_recovers
      example_session_state(4), of "\<lambda>_. True"]
    by (auto simp: example_slot_def)
qed


lemma OnSurfaceEvent_lifecycle:
  assumes inv: "decoder_inv s"
    and dec: "lifecycle_decision e (DecoderRuntimeLocked s) (lifecycle_state s) = (l, d)"
  shows "lifecycle_state (OnSurfaceEvent res e s) = l"
proof -
  have create: "lifecycle_state (fst (CreateDecoderLocked res t)) = lifecycle_state t" for t :: "'a DecoderSide_scheme"
    by (simp add: CreateDecoderLocked_def start_decoder_def decoder_simps Let_def split: option.splits)
  show ?thesis
    by (simp add: OnSurfaceEvent_def dec ApplyLifecycleDecisionLocked_def create DestroyDecoderLocked_keeps
        RequestKeyframe_def coordinate_def Let_def split: prod.splits)
       (auto simp: prod_eq_iff ApplyLifecycleDecisionLocked_def create DestroyDecoderLocked_keeps)
qed

lemma decision_follows:
  assumes inv: "decoder_inv s" and ok: "all_succeed res"
    and dec: "lifecycle_decision e (DecoderRuntimeLocked s) (lifecycle_state s) = (l, d)"
    and acc: "decision_accepted d"
  shows "decoder (OnSurfaceEvent res e s) \<noteq> None \<longleftrightarrow>
    DecoderShouldRun (lifecycle_state (OnSurfaceEvent res e s)) \<and> IsValidMediaContract (decoder_media_contract s)"
proof -
  let ?s = "s\<lparr>lifecycle_state := l\<rparr>"
  let ?t = "if stopDecoder d then DestroyDecoderLocked ?s else ?s"
  note cases = lifecycle_decision_cases [OF inv dec]
  have keeps: "lifecycle_state ?t = l" "decoder_media_contract ?t = decoder_media_contract s"
    by (simp_all add: DestroyDecoderLocked_keeps)
  have stopped: "halted (DestroyDecoderLocked ?s)" by (rule DestroyDecoderLocked_lifecycle [OF inv])
  have valid: "IsValidMediaContract (decoder_media_contract s)" if "decoder s \<noteq> None"
    using inv that by (auto simp: decoder_inv_def)
  have result: "decoder (OnSurfaceEvent res e s) = decoder (fst (ApplyLifecycleDecisionLocked res d ?s))"
      "lifecycle_state (OnSurfaceEvent res e s) = lifecycle_state (fst (ApplyLifecycleDecisionLocked res d ?s))"
    by (simp_all add: OnSurfaceEvent_def dec RequestKeyframe_def coordinate_def Let_def split: prod.splits)
  show ?thesis
  proof (cases "startDecoder d")
    case True
    have "halted ?t"
      using True cases stopped inv by (cases "decoder s") (auto simp: halted_def [of s] halted_frame acc)
    then have "creation_outcome ?t (CreateDecoderLocked res ?t)"
      by (rule CreateDecoderLocked_outcome)
    then show ?thesis
      using True acc keeps result CreateDecoderLocked_succeeds [OF ok, of ?t]
        created_iff [of ?t "CreateDecoderLocked res ?t"]
      by (simp add: ApplyLifecycleDecisionLocked_def Let_def creation_outcome_def)
  next
    case False
    then show ?thesis
      using acc cases keeps result stopped valid
      by (auto simp: ApplyLifecycleDecisionLocked_def Let_def halted_def)
  qed
qed

text \<open>
  The decoder follows the screen: after a surface or foreground event the session accepts, and
  whose decoder calls succeed, a decoder exists exactly when the application is in the foreground
  with a surface and a valid media contract is set; an event it rejects changes nothing.
\<close>

theorem decoder_follows_visibility:
  assumes "decoder_inv s" "all_succeed res"
  shows "let (l, d) = lifecycle_decision e (DecoderRuntimeLocked s) (lifecycle_state s);
             t = OnSurfaceEvent res e s
    in if decision_accepted d
       then lifecycle_state t = l \<and>
         (decoder t \<noteq> None \<longleftrightarrow> DecoderShouldRun l \<and> IsValidMediaContract (decoder_media_contract s))
       else t = s"
proof -
  obtain l d where dec: "lifecycle_decision e (DecoderRuntimeLocked s) (lifecycle_state s) = (l, d)"
    by fastforce
  show ?thesis
  proof (cases "decision_accepted d")
    case True
    then show ?thesis
      using decision_follows [OF assms dec] OnSurfaceEvent_lifecycle [OF assms(1) dec] dec by simp
  next
    case False
    then have "l = lifecycle_state s"
      using lifecycle_decision_cases [OF assms(1) dec] by simp
    then show ?thesis
      using False dec by (simp add: OnSurfaceEvent_def ApplyLifecycleDecisionLocked_def)
  qed
qed

lemma decoder_follows_visibility_witness:
  "decoder (OnSurfaceEvent example_results OnAppBackground example_session) = None"
  using decoder_follows_visibility [OF example_session_state(1), of example_results OnAppBackground]
  by (simp add: Background_def Reconcile_def Let_def DecoderShouldRun_def all_succeed_def example_results_def)

section \<open>Accounting of inputs\<close>

text \<open>The inputs that the decoder has accepted, in the order of the calls.\<close>

fun accepted_input :: "codec_call \<Rightarrow> DecodedInput list" where
  "accepted_input (CallPush h i kind bytes pts ok) =
     (if ok then [\<lparr>input_bytes = bytes, input_timestamp = pts, input_kind = kind\<rparr>] else [])"
| "accepted_input _ = []"

definition accepted_inputs :: "codec_call list \<Rightarrow> DecodedInput list" where
  "accepted_inputs calls = concat (map accepted_input calls)"

text \<open>
  Between two states: the inputs that waited and the given new ones, in this order, are those accepted
  since and those that wait now, in this order, interleaved with the lost ones, and the counter of
  dropped frames has advanced by the number of the lost ones and the given number.
\<close>

definition accounts :: "nat \<Rightarrow> DecodedInput list \<Rightarrow> 'a DecoderSide_scheme \<Rightarrow> 'a DecoderSide_scheme \<Rightarrow> bool" where
  "accounts k inputs s t \<longleftrightarrow>
     (\<exists>calls lost. codec_log t = codec_log s @ calls \<and>
        decode_queue s @ inputs \<in> shuffles (accepted_inputs calls @ decode_queue t) lost \<and>
        frames_dropped t = frames_dropped s + word_of_nat (length lost + k))"

lemma accountsI:
  "codec_log t = codec_log s @ calls \<Longrightarrow>
   decode_queue s @ inputs \<in> shuffles (accepted_inputs calls @ decode_queue t) lost \<Longrightarrow>
   frames_dropped t = frames_dropped s + word_of_nat (length lost + k) \<Longrightarrow> accounts k inputs s t"
  unfolding accounts_def by blast

lemma shuffles_Nil_right: "xs \<in> shuffles xs []"
  by (cases xs) simp_all

lemma shuffles_lost_first: "ys \<in> shuffles xs lost \<Longrightarrow> zs @ ys \<in> shuffles xs (zs @ lost)"
  by (induction zs) (simp_all add: Cons_in_shuffles_rightI)

lemma accounts_nothing:
  "codec_log t = codec_log s \<Longrightarrow> decode_queue t = decode_queue s \<Longrightarrow>
   frames_dropped t = frames_dropped s + word_of_nat k \<Longrightarrow> accounts k [] s t"
  by (rule accountsI [where calls = "[]" and lost = "[]"]) (simp_all add: accepted_inputs_def shuffles_Nil_right)

text \<open>An input that waits first and is lost or accepted, and the loss of everything.\<close>

lemma accounts_lost:
  assumes "accounts 0 inputs s t" "decode_queue r = f # decode_queue s" "codec_log s = codec_log r"
    "frames_dropped s = frames_dropped r + 1"
  shows "accounts 0 inputs r t"
proof -
  obtain calls lost where "codec_log t = codec_log s @ calls" "frames_dropped t = frames_dropped s + word_of_nat (length lost)"
      "decode_queue s @ inputs \<in> shuffles (accepted_inputs calls @ decode_queue t) lost"
    using assms(1) by (auto simp: accounts_def)
  then show ?thesis
    using assms(2-4) by (intro accountsI [where calls = calls and lost = "f # lost"]) (simp_all add: Cons_in_shuffles_rightI)
qed

lemma accounts_accepted:
  assumes "accounts 0 inputs s t" "decode_queue r = f # decode_queue s" "codec_log s = codec_log r @ [call]"
    "accepted_input call = [f]" "frames_dropped s = frames_dropped r"
  shows "accounts 0 inputs r t"
proof -
  obtain calls lost where "codec_log t = codec_log s @ calls" "frames_dropped t = frames_dropped s + word_of_nat (length lost)"
      "decode_queue s @ inputs \<in> shuffles (accepted_inputs calls @ decode_queue t) lost"
    using assms(1) by (auto simp: accounts_def)
  then show ?thesis
    using assms(2-5)
    by (intro accountsI [where calls = "call # calls" and lost = lost]) (simp_all add: accepted_inputs_def Cons_in_shuffles_leftI)
qed

lemma accounts_all_lost:
  assumes "codec_log t = codec_log s @ calls" "accepted_inputs calls = []" "decode_queue t = []"
    "frames_dropped t = frames_dropped s + word_of_nat (length (decode_queue s @ inputs))"
  shows "accounts 0 inputs s t"
  using assms by (intro accountsI [where calls = calls and lost = "decode_queue s @ inputs"]) simp_all

lemma pump_failed_fields:
  "codec_log (pump_failed s) = codec_log s" "decode_queue (pump_failed s) = []"
  "frames_dropped (pump_failed s) = frames_dropped s + word_of_nat (Suc (length (decode_queue s)))"
  by (simp_all add: pump_failed_def dropped_def RequestKeyframe_def coordinate_def Let_def)

lemma PumpDecoderLocked_accounts: "accounts 0 [] s (PumpDecoderLocked acc h s)"
proof (induction acc h s rule: PumpDecoderLocked.induct)
  case (1 acc h s)
  show ?case
  proof (cases "CallbacksAllowed s \<and> decoder s = Some h \<and> input_slots s \<noteq> [] \<and> decode_queue s \<noteq> []")
    case False
    then show ?thesis by (subst PumpDecoderLocked.simps) (simp only: False if_False, simp add: accounts_nothing)
  next
    case True
    let ?slot = "hd (input_slots s)" and ?f = "hd (decode_queue s)"
    let ?s = "s\<lparr>input_slots := tl (input_slots s), decode_queue := tl (decode_queue s)\<rparr>"
    let ?call = "CallPush h (slot_index ?slot) (input_kind ?f) (input_bytes ?f) (input_timestamp ?f) (acc ?slot)"
    let ?t = "coordinate (OnInputSubmitted (input_kind ?f) (acc ?slot)) (codec_called ?call ?s)"
    have q: "decode_queue s = ?f # tl (decode_queue s)" using True by simp
    have n: "(word_of_nat (length (decode_queue s)) :: u64) = 1 + word_of_nat (length (decode_queue s) - Suc 0)"
      using True by (cases "decode_queue s") simp_all
    consider (refused) "\<not> InputAllowed (input_kind ?f) (decoder_recovery s)"
      | (unfit) "InputAllowed (input_kind ?f) (decoder_recovery s)"
          "slot_capacity ?slot < 0 \<or> \<not> slot_mapped ?slot \<or> int (length (input_bytes ?f)) > slot_capacity ?slot"
      | (failed) "InputAllowed (input_kind ?f) (decoder_recovery s)"
          "\<not> (slot_capacity ?slot < 0 \<or> \<not> slot_mapped ?slot \<or> int (length (input_bytes ?f)) > slot_capacity ?slot)" "\<not> acc ?slot"
      | (accepted) "InputAllowed (input_kind ?f) (decoder_recovery s)"
          "\<not> (slot_capacity ?slot < 0 \<or> \<not> slot_mapped ?slot \<or> int (length (input_bytes ?f)) > slot_capacity ?slot)" "acc ?slot"
      by blast
    then show ?thesis
    proof cases
      case refused
      then have "accounts 0 [] (dropped 1 ?s) (PumpDecoderLocked acc h (dropped 1 ?s))"
        using 1(1) [OF True refl refl refl] by simp
      then have "accounts 0 [] s (PumpDecoderLocked acc h (dropped 1 ?s))"
        by (rule accounts_lost [where f = ?f]) (use q in \<open>simp_all add: dropped_def\<close>)
      then show ?thesis using True refused by (subst PumpDecoderLocked.simps) (simp add: Let_def)
    next
      case unfit
      have "accounts 0 [] s (pump_failed (coordinate RequireCodecData ?s))"
        by (rule accounts_all_lost [where calls = "[]"])
          (use n in \<open>simp_all add: pump_failed_fields accepted_inputs_def coordinate_def\<close>)
      then show ?thesis using True unfit by (subst PumpDecoderLocked.simps) (simp add: Let_def)
    next
      case failed
      have "accounts 0 [] s (pump_failed ?t)"
        by (rule accounts_all_lost [where calls = "[?call]"])
          (use n failed in \<open>simp_all add: pump_failed_fields accepted_inputs_def coordinate_def codec_called_def\<close>)
      then show ?thesis using True failed by (subst PumpDecoderLocked.simps) (simp add: Let_def)
    next
      case accepted
      then have "accounts 0 [] ?t (PumpDecoderLocked acc h ?t)"
        using 1(2) [OF True refl refl refl] by simp
      then have "accounts 0 [] s (PumpDecoderLocked acc h ?t)"
        by (rule accounts_accepted [where f = ?f and call = ?call]) (use q accepted in \<open>simp_all add: coordinate_def codec_called_def\<close>)
      then show ?thesis using True accepted by (subst PumpDecoderLocked.simps) (simp add: Let_def)
    qed
  qed
qed

lemma accounts_queued:
  assumes "accounts 0 [] s t" "decode_queue s = decode_queue r @ inputs" "codec_log s = codec_log r" "frames_dropped s = frames_dropped r"
  shows "accounts 0 inputs r t"
  using assms by (simp add: accounts_def)

lemma accounts_replaced:
  assumes "accounts 0 [] s t" "decode_queue s = inputs" "codec_log s = codec_log r"
    "frames_dropped s = frames_dropped r + word_of_nat (length (decode_queue r))"
  shows "accounts 0 inputs r t"
proof -
  obtain calls lost where "codec_log t = codec_log s @ calls" "frames_dropped t = frames_dropped s + word_of_nat (length lost)"
      "inputs \<in> shuffles (accepted_inputs calls @ decode_queue t) lost"
    using assms(1,2) by (auto simp: accounts_def)
  then show ?thesis
    using assms(3,4) by (intro accountsI [where calls = calls and lost = "decode_queue r @ lost"]) (simp_all add: shuffles_lost_first)
qed

lemma accounts_refused:
  assumes "codec_log t = codec_log s" "decode_queue t = decode_queue s" "frames_dropped t = frames_dropped s + 1"
  shows "accounts 0 [f] s t"
proof -
  have "xs @ [f] \<in> shuffles xs [f]" for xs
    by (induction xs) (simp_all add: Cons_in_shuffles_leftI)
  then show ?thesis using assms by (intro accountsI [where calls = "[]" and lost = "[f]"]) (simp_all add: accepted_inputs_def)
qed

lemma SubmitFrame_accounts: "accounts 0 [f] s (SubmitFrame acc f s)"
proof (cases "decoder s = None \<or> \<not> CallbacksAllowed s \<or> \<not> InputAllowed (input_kind f) (decoder_recovery s)")
  case True
  then have "SubmitFrame acc f s = dropped 1 s" by (auto simp: SubmitFrame_def split: option.split)
  then show ?thesis by (simp add: accounts_refused dropped_def)
next
  case False
  then obtain h where h: "decoder s = Some h" by auto
  show ?thesis
  proof (cases "length (decode_queue s) < 3")
    case True
    then have "SubmitFrame acc f s = PumpDecoderLocked acc h (s\<lparr>decode_queue := decode_queue s @ [f]\<rparr>)"
      using False h by (simp add: SubmitFrame_def Admit_def EvaluateDecodeQueueAdmission_def Let_def)
    then show ?thesis
      using accounts_queued [OF PumpDecoderLocked_accounts, of "s\<lparr>decode_queue := decode_queue s @ [f]\<rparr>" s "[f]"] by simp
  next
    case full: False
    then show ?thesis
      using False h
      by (intro accounts_all_lost [where calls = "[]"])
        (simp_all add: SubmitFrame_def Admit_def EvaluateDecodeQueueAdmission_def Let_def accepted_inputs_def dropped_def)
  qed
qed

lemma SubmitRecovery_accounts:
  assumes "decoder s = Some h" "CallbacksAllowed s" "recovery_state (decoder_recovery s) = kNeedsCodecData"
    "input_kind config = kCodecData" "input_kind sync = kSyncFrame" "input_bytes config \<noteq> []" "input_bytes sync \<noteq> []"
  shows "\<exists>t. SubmitRecovery acc config sync s = (t, True) \<and> accounts 0 [config, sync] s t"
  using assms
    accounts_replaced [OF PumpDecoderLocked_accounts, of "(dropped (length (decode_queue s)) s)\<lparr>decode_queue := [config, sync]\<rparr>" _ s acc h]
  by (simp add: SubmitRecovery_def Let_def) (simp add: dropped_def)

text \<open>
  The inputs that a video message offers: none when the session cannot take it, the codec data and the
  sync frame of a complete key frame while codec data is awaited, and else its payload, unless that is
  no key frame while one is awaited.
\<close>

definition offered :: "byte list \<Rightarrow> 'a DecoderSide_scheme \<Rightarrow> DecodedInput list" where
  "offered data s =
     (case DecodeVideoHeader data of
        None \<Rightarrow> []
      | Some h \<Rightarrow>
          (let keyframe = (flags h AND kKeyframe \<noteq> 0); parts = SplitAvcRecoveryInput (payload_of data h)
           in if sourceEpoch h \<noteq> active_source_epoch s \<or> \<not> CallbacksAllowed s \<or> decoder s = None then []
              else if recovery_state (decoder_recovery s) = kNeedsCodecData then
                (if keyframe \<and> recovery_complete parts
                 then [\<lparr>input_bytes = codecData parts, input_timestamp = timestampUs h, input_kind = kCodecData\<rparr>,
                       \<lparr>input_bytes = syncFrame parts, input_timestamp = timestampUs h, input_kind = kSyncFrame\<rparr>]
                 else [])
              else if recovery_state (decoder_recovery s) = kNeedsSyncFrame \<and> \<not> keyframe then []
              else [\<lparr>input_bytes = payload_of data h, input_timestamp = timestampUs h,
                     input_kind = (if keyframe then kSyncFrame else kFrame)\<rparr>]))"

lemma RequestKeyframe_accounts: "accounts k xs s (RequestKeyframe t) = accounts k xs s t"
  by (simp add: accounts_def RequestKeyframe_def coordinate_def)

lemma dropped_accounts: "accounts 1 [] s (dropped 1 s)"
  by (rule accounts_nothing) (simp_all add: dropped_def)

lemma accounts_counters:
  "accounts k xs (s\<lparr>received_frames := m, received_bytes := n\<rparr>) t = accounts k xs s t"
  by (simp add: accounts_def)

lemma HandleVideo_accounts:
  "accounts (if offered data s = [] then 1 else 0) (offered data s) s (HandleVideo acc data s)"
proof (cases "DecodeVideoHeader data")
  case None
  then show ?thesis using dropped_accounts [of s] by (simp add: HandleVideo_def offered_def)
next
  case (Some h)
  let ?s = "s\<lparr>received_frames := received_frames s + 1, received_bytes := received_bytes s + ucast (payloadLength h)\<rparr>"
  let ?key = "flags h AND kKeyframe \<noteq> 0" and ?parts = "SplitAvcRecoveryInput (payload_of data h)"
  let ?config = "\<lparr>input_bytes = codecData ?parts, input_timestamp = timestampUs h, input_kind = kCodecData\<rparr>"
  let ?sync = "\<lparr>input_bytes = syncFrame ?parts, input_timestamp = timestampUs h, input_kind = kSyncFrame\<rparr>"
  let ?frame = "\<lparr>input_bytes = payload_of data h, input_timestamp = timestampUs h, input_kind = (if ?key then kSyncFrame else kFrame)\<rparr>"
  have gate: "CallbacksAllowed ?s = CallbacksAllowed s" by (simp add: CallbacksAllowed_def)
  have one: "accounts 1 [] s (dropped 1 ?s)" "accounts 1 [] s (RequestKeyframe (dropped 1 ?s))"
    using dropped_accounts [of ?s] by (simp_all add: accounts_counters RequestKeyframe_accounts)
  have frame: "accounts 0 [?frame] s (SubmitFrame acc ?frame ?s)"
    using SubmitFrame_accounts [of ?frame ?s acc] by (simp add: accounts_counters)
  show ?thesis
  proof (cases "sourceEpoch h \<noteq> active_source_epoch s \<or> \<not> CallbacksAllowed s \<or> decoder s = None")
    case True
    then show ?thesis
      using Some one dropped_accounts [of s] gate by (auto simp: HandleVideo_def offered_def Let_def)
  next
    case admitted: False
    then obtain d where d: "decoder s = Some d" by auto
    show ?thesis
    proof (cases "recovery_state (decoder_recovery s) = kNeedsCodecData \<and> ?key \<and> recovery_complete ?parts")
      case True
      obtain t where t: "SubmitRecovery acc ?config ?sync ?s = (t, True)" "accounts 0 [?config, ?sync] ?s t"
        using SubmitRecovery_accounts [of ?s _ ?config ?sync acc] admitted True gate complete_recovery_parts [of "payload_of data h"]
        by auto
      have "HandleVideo acc data s = t"
        using Some admitted True gate t(1) d by (simp add: HandleVideo_def Let_def payload_of_def)
      then show ?thesis
        using Some admitted True t(2) d by (simp add: offered_def Let_def accounts_counters)
    next
      case False
      then show ?thesis
        using Some admitted gate one frame d by (auto simp: HandleVideo_def offered_def Let_def payload_of_def)
    qed
  qed
qed

lemma DecoderNeedInput_accounts: "accounts 0 [] s (DecoderNeedInput acc h slot s)"
proof -
  let ?s = "s\<lparr>input_slots := input_slots s @ [slot]\<rparr>"
  have "accounts 0 [] s (PumpDecoderLocked acc h ?s)"
    using PumpDecoderLocked_accounts [of ?s acc h] by (simp add: accounts_def)
  moreover have "accounts 0 [] s s" by (simp add: accounts_nothing)
  ultimately show ?thesis by (simp add: DecoderNeedInput_def)
qed

text \<open>A decoder that is destroyed or flushed loses what waits, and none of it is counted.\<close>

lemma CreateDecoderLocked_queue:
  "decode_queue s = [] \<Longrightarrow> decode_queue (fst (CreateDecoderLocked res s)) = []"
  "frames_dropped (fst (CreateDecoderLocked res s)) = frames_dropped s"
  by (auto simp: CreateDecoderLocked_def start_decoder_def decoder_simps Let_def split: option.splits)

lemma DestroyDecoderLocked_queue:
  "decode_queue (DestroyDecoderLocked s) = []" "frames_dropped (DestroyDecoderLocked s) = frames_dropped s"
  by (simp_all add: DestroyDecoderLocked_def Let_def decoder_simps split: option.split)

lemma FlushDecoder_queue:
  "decode_queue (fst (FlushDecoder res s)) = [] \<and> frames_dropped (fst (FlushDecoder res s)) = frames_dropped s"
  by (auto simp: FlushDecoder_def Let_def resync_def RequestKeyframe_def coordinate_def case_prod_unfold
      CreateDecoderLocked_queue DestroyDecoderLocked_queue codec_called_def SetGate_def BeginFlush_def ClearDecoderQueues_def
      split: option.split)

text \<open>
  C40. No input disappears unnoticed while frames are handled. When a video message is handled or an
  input buffer offered, the inputs that waited and those the message offers, in this order, are
  exactly those the decoder accepts with their bytes, time and kind, those that wait afterwards, both
  in their order, and lost ones; and the counter of dropped frames advances by the number of the lost
  ones, and by one for a message that offers no input. A complete key frame on which the stream can
  restart offers two, its codec data and its sync frame. A flush and the end of a decoder
  empty the queue without counting what waited.
\<close>

theorem inputs_accounted_for:
  "(\<exists>calls lost. codec_log (HandleVideo acc data s) = codec_log s @ calls \<and>
      decode_queue s @ offered data s \<in> shuffles (accepted_inputs calls @ decode_queue (HandleVideo acc data s)) lost \<and>
      frames_dropped (HandleVideo acc data s) =
        frames_dropped s + word_of_nat (length lost + (if offered data s = [] then 1 else 0))) \<and>
   (\<exists>calls lost. codec_log (DecoderNeedInput acc h slot s) = codec_log s @ calls \<and>
      decode_queue s \<in> shuffles (accepted_inputs calls @ decode_queue (DecoderNeedInput acc h slot s)) lost \<and>
      frames_dropped (DecoderNeedInput acc h slot s) = frames_dropped s + word_of_nat (length lost)) \<and>
   decode_queue (fst (FlushDecoder res s)) = [] \<and> frames_dropped (fst (FlushDecoder res s)) = frames_dropped s \<and>
   decode_queue (DestroyDecoderLocked s) = [] \<and> frames_dropped (DestroyDecoderLocked s) = frames_dropped s"
  using HandleVideo_accounts [of data s acc] DecoderNeedInput_accounts [of s acc h slot] FlushDecoder_queue [of res s]
    DestroyDecoderLocked_queue [of s]
  by (simp add: accounts_def)

end
