(* ===== verification/Receiver_Session.thy ===== *)
theory Receiver_Session
  imports Receiver_Decoder WebSocket Mdns_Responder
begin

text \<open>
  \<open>ReceiverSession\<close> (\<open>receiver/entry/src/main/cpp/receiver_session.cpp\<close>): the trust store and the
  one-time pairing authorizations, the control socket, the challenge dialogue of
  \<open>AuthenticateConnection\<close>, the loop of a connected session and the network loop, on top of the
  decoder side, the WebSocket layer and the mDNS publisher. The state extends \<open>DecoderSide\<close>.

  Sockets, clocks, the random device and the network interfaces are the operating system's: what
  their calls return is an argument of the definitions. One received chunk, one control call from
  the application and one decoder callback are one step each; steps of the network thread, of the
  application and of the decoder interleave freely.
\<close>

section \<open>Platform\<close>

definition kControlPort :: u16 where "kControlPort = 44000"

record network_interface =
  ifa_name :: string
  ifa_address :: "Ipv4Address option"
  ifa_up :: bool
  ifa_loopback :: bool
  ifa_index :: u32

text \<open>
  \<open>inet_pton\<close> for \<open>AF_INET\<close>: dotted decimal without leading zeros, which is what
  \<open>ParseIpv4Address\<close> accepts. \<open>None\<close> for the interfaces is a failing \<open>getifaddrs\<close>.
\<close>

definition ValidIpv4 :: "string \<Rightarrow> Ipv4Address option" where
  "ValidIpv4 text_value = ParseIpv4Address text_value"

fun private_peer :: "Ipv4Address \<Rightarrow> bool" where
  "private_peer (Ipv4Address fst_byte snd_byte _ _) \<longleftrightarrow>
     fst_byte = 10 \<or> (fst_byte = 172 \<and> snd_byte \<ge> 16 \<and> snd_byte \<le> 31)
     \<or> (fst_byte = 192 \<and> snd_byte = 168) \<or> (fst_byte = 169 \<and> snd_byte = 254)"

definition wlan_candidate :: "network_interface \<Rightarrow> bool" where
  "wlan_candidate i \<longleftrightarrow> ifa_address i \<noteq> None \<and> ifa_up i \<and> \<not> ifa_loopback i \<and> take 4 (ifa_name i) = ''wlan''"

text \<open>The interface index of the first interface that carries the address.\<close>

fun interface_of :: "Ipv4Address \<Rightarrow> network_interface list \<Rightarrow> u32 option" where
  "interface_of a [] = None"
| "interface_of a (i # rest) =
     (if wlan_candidate i \<and> ifa_address i = Some a
      then (if ifa_index i \<noteq> 0 then Some (ifa_index i) else None)
      else interface_of a rest)"

definition IsCurrentWifiIpv4 :: "string \<Rightarrow> network_interface list option \<Rightarrow> u32 option" where
  "IsCurrentWifiIpv4 text_value interfaces =
     (case ValidIpv4 text_value of
        None \<Rightarrow> None
      | Some a \<Rightarrow>
          (if \<not> private_peer a then None
           else (case interfaces of None \<Rightarrow> None | Some is \<Rightarrow> interface_of a is)))"

definition Ipv4Text :: "Ipv4Address \<Rightarrow> string" where
  "Ipv4Text a = address_text a"

definition WifiAddresses :: "network_interface list option \<Rightarrow> string list" where
  "WifiAddresses interfaces =
     (case interfaces of
        None \<Rightarrow> []
      | Some is \<Rightarrow>
          filter (\<lambda>t. IsCurrentWifiIpv4 t interfaces \<noteq> None)
            (map (\<lambda>i. Ipv4Text (the (ifa_address i))) (filter wlan_candidate is)))"

text \<open>The loop of \<open>RandomBytes\<close> over what successive \<open>read\<close> calls return.\<close>

datatype read_result = ReadSome "byte list" | ReadInterrupted | ReadFailed

fun RandomBytes_loop :: "byte list \<Rightarrow> nat \<Rightarrow> read_result list \<Rightarrow> byte list option" where
  "RandomBytes_loop got wanted script =
     (if wanted \<le> length got then Some got
      else
        (case script of
           [] \<Rightarrow> None
         | ReadSome bs # rest \<Rightarrow>
             (if bs = [] then None
              else RandomBytes_loop (got @ take (wanted - length got) bs) wanted rest)
         | ReadInterrupted # rest \<Rightarrow> RandomBytes_loop got wanted rest
         | ReadFailed # _ \<Rightarrow> None))"

declare RandomBytes_loop.simps [simp del]

definition RandomBytes :: "bool \<Rightarrow> nat \<Rightarrow> read_result list \<Rightarrow> byte list option" where
  "RandomBytes opened wanted script = (if opened then RandomBytes_loop [] wanted script else None)"

definition RandomHex :: "bool \<Rightarrow> nat \<Rightarrow> read_result list \<Rightarrow> string" where
  "RandomHex opened byteCount script =
     (case RandomBytes opened byteCount script of None \<Rightarrow> '''' | Some bs \<Rightarrow> LowerHex bs)"

definition Hex :: "string \<Rightarrow> nat \<Rightarrow> bool" where
  "Hex str size_wanted \<longleftrightarrow> length str = size_wanted \<and>
     list_all (\<lambda>c. isdigit c \<or> (97 \<le> ord c \<and> ord c \<le> 102)) str"

definition SessionSenderIdValid :: "string \<Rightarrow> bool" where
  "SessionSenderIdValid str \<longleftrightarrow> 16 \<le> length str \<and> length str \<le> 64 \<and>
     list_all (\<lambda>c. isdigit c \<or> (97 \<le> ord c \<and> ord c \<le> 102) \<or> c = CHR ''-'') str"

text \<open>
  A \<open>system_clock::time_point\<close> counts microseconds; \<open>to_milliseconds\<close> is the \<open>duration_cast\<close>, which
  truncates towards zero.
\<close>

definition to_milliseconds :: "int \<Rightarrow> int" where
  "to_milliseconds t = (if t < 0 then - (- t div 1000) else t div 1000)"

section \<open>State\<close>

datatype ChallengeStage = kInitial | kPairFinal | kAuthFinal

record PairChallengeState =
  pair_sessionId :: string
  pair_senderId :: string
  pair_nonce :: string
  pair_deviceId :: string
  manualIpv4 :: bool

record AuthChallengeState =
  auth_senderId :: string
  auth_deviceId :: string
  auth_nonce :: string
  auth_sourceEpoch :: u32
  auth_mediaContract :: MediaContract

record AuthLocals =
  stage :: ChallengeStage
  pairChallenge :: PairChallengeState
  authChallenge :: AuthChallengeState

definition newLocals :: AuthLocals where
  "newLocals = \<lparr>stage = kInitial,
     pairChallenge = \<lparr>pair_sessionId = '''', pair_senderId = '''', pair_nonce = '''', pair_deviceId = '''',
                      manualIpv4 = False\<rparr>,
     authChallenge = \<lparr>auth_senderId = '''', auth_deviceId = '''', auth_nonce = '''', auth_sourceEpoch = 0,
                      auth_mediaContract = noContract\<rparr>\<rparr>"

text \<open>Where the network thread is: not running, opening its listener, waiting for a client, in the dialogue, connected.\<close>

datatype network_position = NotRunning | Opening | Accepting | Authenticating AuthLocals | InSession

record ReceiverSession = DecoderSide +
  listen_address :: string
  listen_interface_index :: u32
  paired_address :: string
  device_id :: string
  trusted_sender_id :: string
  trusted_credential :: string
  pairing_record_version :: u64
  pending_session_id :: string
  pending_token :: string
  pending_short_code :: string
  consumed_session_id :: string
  pairing_expires_at :: int
  latest_source_epoch :: u32
  active_media_contract :: MediaContract
  session_desired :: bool
  listener_socket :: int
  control_socket :: int
  address_responder :: MdnsResponder
  websocket_decoder :: Decoder
  socket_out :: "byte list"
  network :: network_position

definition newSession :: ReceiverSession where
  "newSession = DecoderSide.extend newDecoderSide
     (ReceiverSession.fields '''' 0 '''' '''' '''' '''' 0 '''' '''' '''' '''' 0 0 noContract False (-1) (-1)
        newResponder newDecoder [] NotRunning)"

section \<open>Sending\<close>

datatype send_result = SentBytes nat | SendInterrupted | SendWouldBlock bool | SendFailed

record ControlSend =
  lock_taken :: bool
  send_script :: "send_result list"

text \<open>
  The loop of \<open>SendControl\<close> over what successive calls of \<open>send\<close> return, with the answer of the
  following \<open>select\<close> for one that would block (False when the deadline has passed). It returns the
  bytes handed to the socket; a script that ends stands for the deadline.
\<close>

fun SendControl_loop :: "byte list \<Rightarrow> send_result list \<Rightarrow> byte list \<times> bool" where
  "SendControl_loop frame script =
     (if frame = [] then ([], True)
      else
        (case script of
           [] \<Rightarrow> ([], False)
         | SentBytes n # rest \<Rightarrow>
             (if n = 0 then ([], False)
              else (case SendControl_loop (drop n frame) rest of (out, ok) \<Rightarrow> (take n frame @ out, ok)))
         | SendInterrupted # rest \<Rightarrow> SendControl_loop frame rest
         | SendWouldBlock writable # rest \<Rightarrow>
             (if writable then SendControl_loop frame rest else ([], False))
         | SendFailed # _ \<Rightarrow> ([], False)))"

declare SendControl_loop.simps [simp del]

definition SendControl :: "ControlSend \<Rightarrow> string \<Rightarrow> ReceiverSession \<Rightarrow> ReceiverSession \<times> bool" where
  "SendControl c json s =
     (if \<not> lock_taken c \<or> control_socket s < 0 then (s, False)
      else
        (let frame = EncodeFrame kText json
         in if frame = [] then (s, False)
            else (case SendControl_loop frame (send_script c) of
                    (out, ok) \<Rightarrow> (s\<lparr>socket_out := socket_out s @ out\<rparr>, ok))))"

text \<open>A single \<open>send\<close> that must take everything; \<open>returned\<close> is what it returns.\<close>

definition SendWhole :: "int \<Rightarrow> byte list \<Rightarrow> ReceiverSession \<Rightarrow> ReceiverSession \<times> bool" where
  "SendWhole returned data s =
     (s\<lparr>socket_out := socket_out s @ take (nat returned) data\<rparr>, returned = int (length data))"

definition CloseControlSocket :: "ReceiverSession \<Rightarrow> ReceiverSession" where
  "CloseControlSocket s = s\<lparr>control_socket := -1\<rparr>"

definition CloseSockets :: "ReceiverSession \<Rightarrow> ReceiverSession" where
  "CloseSockets s = s\<lparr>control_socket := -1, listener_socket := -1\<rparr>"

section \<open>Trust and authorizations\<close>

definition ConfigureTrust :: "string \<Rightarrow> string \<Rightarrow> string \<Rightarrow> u64 \<Rightarrow> ReceiverSession \<Rightarrow> ReceiverSession \<times> bool" where
  "ConfigureTrust deviceId senderId credential version s =
     (if \<not> Hex deviceId 32 \<or> ((senderId \<noteq> '''' \<or> credential \<noteq> '''') \<and>
          (\<not> SessionSenderIdValid senderId \<or> \<not> Hex credential 64))
      then (s, False)
      else (s\<lparr>device_id := deviceId, trusted_sender_id := senderId, trusted_credential := credential,
              pairing_record_version := version\<rparr>, True))"

text \<open>
  The clock counts microseconds in 64 bits, so the conversion of the milliseconds wraps around where
  the product does not fit.
\<close>

definition from_milliseconds :: "int \<Rightarrow> int" where
  "from_milliseconds ms = sint (word_of_int (ms * 1000) :: 64 word)"

definition AuthorizeQr :: "int \<Rightarrow> string \<Rightarrow> string \<Rightarrow> int \<Rightarrow> ReceiverSession \<Rightarrow> ReceiverSession \<times> bool" where
  "AuthorizeQr now sessionId token expiresAtMs s =
     (let expiry = from_milliseconds expiresAtMs
      in if \<not> Hex sessionId 32 \<or> \<not> Hex token 64 \<or> expiry \<le> now \<or> expiry > now + 65 * 1000000
         then (s, False)
         else (s\<lparr>pending_session_id := sessionId, pending_token := token, pending_short_code := '''',
                 pairing_expires_at := expiry, status_detail := QrAuthorized\<rparr>, True))"

definition AuthorizeShortCode :: "int \<Rightarrow> string \<Rightarrow> ReceiverSession \<Rightarrow> ReceiverSession \<times> bool" where
  "AuthorizeShortCode now shortCode s =
     (if length shortCode \<noteq> 6 \<or> \<not> list_all isdigit shortCode then (s, False)
      else (s\<lparr>pending_session_id := '''', pending_token := '''', pending_short_code := shortCode,
              pairing_expires_at := now + 60 * 1000000, status_detail := ShortCodeAuthorized\<rparr>, True))"

definition ForgetDevice :: "ReceiverSession \<Rightarrow> ReceiverSession" where
  "ForgetDevice s =
     CloseControlSocket
       (s\<lparr>trusted_sender_id := '''', trusted_credential := '''', pending_session_id := '''',
          pending_token := '''', pending_short_code := '''',
          pairing_record_version := pairing_record_version s + 1, status_detail := DeviceForgotten\<rparr>)"

section \<open>The challenge dialogue\<close>

text \<open>
  What the platform returns while one message is handled: the wall clock in microseconds, the
  result of \<open>RandomHex(32)\<close>, the sending of the reply and the decoder calls.
\<close>

record MessageEnv =
  wall_clock :: int
  fresh_credential :: string
  reply_send :: ControlSend
  codec_results :: CodecResults

datatype dialogue_result = GoOn | Ended bool

type_synonym dialogue = "AuthLocals \<times> ReceiverSession \<times> dialogue_result"

definition sendError :: "MessageEnv \<Rightarrow> string \<Rightarrow> ReceiverSession \<Rightarrow> ReceiverSession" where
  "sendError env code s =
     fst (SendControl (reply_send env)
       (''{\"type\":\"error\",\"protocol\":6,\"code\":\"'' @ EscapeJson code @ ''\"}'') s)"

text \<open>\<open>sendError(code); return false;\<close>\<close>

definition refuse :: "MessageEnv \<Rightarrow> string \<Rightarrow> AuthLocals \<Rightarrow> ReceiverSession \<Rightarrow> dialogue" where
  "refuse env code l s = (l, sendError env code s, Ended False)"

definition field :: "string \<Rightarrow> string \<Rightarrow> string" where
  "field json key = value_or (JsonString json key) ''''"

definition uint32_field :: "int option \<Rightarrow> bool" where
  "uint32_field v = (case v of None \<Rightarrow> False | Some n \<Rightarrow> 0 < n \<and> n \<le> 4294967295)"

definition parseMediaContract :: "string \<Rightarrow> MediaContract option" where
  "parseMediaContract json =
     (let w = JsonInteger json ''width''; h = JsonInteger json ''height''; f = JsonInteger json ''maxFps''
      in if \<not> uint32_field w \<or> \<not> uint32_field h \<or> \<not> uint32_field f then None
         else
           (let contract = \<lparr>width = word_of_int (the w), height = word_of_int (the h),
                            maxFps = word_of_int (the f)\<rparr>
            in if IsValidMediaContract contract then Some contract else None))"

definition codecValid :: "string \<Rightarrow> bool" where
  "codecValid json \<longleftrightarrow> JsonString json ''mode'' = Some ''auth'' \<and> JsonString json ''codec'' = Some ''video/avc'' \<and>
     JsonString json ''avcFormat'' = Some ''annexb''"

definition pair_proof_reply :: "string \<Rightarrow> string \<Rightarrow> string \<Rightarrow> string \<Rightarrow> string \<Rightarrow> string \<Rightarrow> string" where
  "pair_proof_reply proofMode sessionId senderId nonce deviceId proof =
     ''{\"type\":\"pair_proof\",\"protocol\":6,\"mode\":\"pair\",\"proofMode\":\"'' @ proofMode
     @ ''\",\"sessionId\":\"'' @ sessionId @ ''\",\"senderId\":\"'' @ senderId @ ''\",\"nonce\":\"'' @ nonce
     @ ''\",\"deviceId\":\"'' @ deviceId @ ''\",\"proof\":\"'' @ proof @ ''\"}''"

definition paired_reply :: "string \<Rightarrow> string \<Rightarrow> string" where
  "paired_reply deviceId credential =
     ''{\"type\":\"paired\",\"protocol\":6,\"deviceId\":\"'' @ deviceId @ ''\",\"credential\":\"'' @ credential @ ''\"}''"

definition auth_proof_reply :: "string \<Rightarrow> string \<Rightarrow> u32 \<Rightarrow> string \<Rightarrow> string \<Rightarrow> string" where
  "auth_proof_reply senderId deviceId epoch nonce proof =
     ''{\"type\":\"auth_proof\",\"protocol\":6,\"mode\":\"auth\",\"senderId\":\"'' @ senderId
     @ ''\",\"deviceId\":\"'' @ deviceId @ ''\",\"sourceEpoch\":'' @ dec (unat epoch)
     @ '',\"nonce\":\"'' @ nonce @ ''\",\"proof\":\"'' @ proof @ ''\"}''"

definition ready_reply :: "u32 \<Rightarrow> MediaContract \<Rightarrow> string" where
  "ready_reply epoch contract =
     ''{\"type\":\"ready\",\"protocol\":6,\"sourceEpoch\":'' @ dec (unat epoch)
     @ '',\"width\":'' @ dec (unat (width contract)) @ '',\"height\":'' @ dec (unat (height contract))
     @ '',\"maxFps\":'' @ dec (unat (maxFps contract)) @ ''}''"

text \<open>The decision of \<open>pair_challenge\<close> under the lock: an error, or the secret to prove.\<close>

definition pair_challenge_decision :: "int \<Rightarrow> string \<Rightarrow> ReceiverSession \<Rightarrow> string + string" where
  "pair_challenge_decision now sessionId s =
     (if consumed_session_id s \<noteq> '''' \<and> sessionId = consumed_session_id s then Inl ''authorization_replayed''
      else if to_milliseconds now \<ge> to_milliseconds (pairing_expires_at s) then Inl ''authorization_expired''
      else if pending_session_id s \<noteq> '''' \<and> sessionId = pending_session_id s \<and> Hex (pending_token s) 64
      then Inr (pending_token s)
      else if pending_short_code s \<noteq> '''' then Inl ''short_code_requires_manual_ipv4''
      else Inl ''pairing_failed'')"

definition OnPairChallenge :: "MessageEnv \<Rightarrow> string \<Rightarrow> AuthLocals \<Rightarrow> ReceiverSession \<Rightarrow> dialogue" where
  "OnPairChallenge env json l s =
     (let sessionId = field json ''sessionId''; senderId = field json ''senderId''; nonce = field json ''nonce''
      in if JsonString json ''mode'' \<noteq> Some ''pair'' \<or> \<not> Hex sessionId 32 \<or> \<not> SessionSenderIdValid senderId
            \<or> \<not> Hex nonce 64
         then refuse env ''challenge_invalid'' l s
         else
           (case pair_challenge_decision (wall_clock env) sessionId s of
              Inl err \<Rightarrow> refuse env err l s
            | Inr secret \<Rightarrow>
                (let proof = ComputePairProof secret ''qr'' sessionId senderId nonce (device_id s)
                 in if proof = '''' then refuse env ''challenge_invalid'' l s
                    else
                      (let l = l\<lparr>pairChallenge := \<lparr>pair_sessionId = sessionId, pair_senderId = senderId,
                                   pair_nonce = nonce, pair_deviceId = device_id s, manualIpv4 = False\<rparr>,
                                 stage := kPairFinal\<rparr>;
                           (s, ok) = SendControl (reply_send env)
                                       (pair_proof_reply ''qr'' sessionId senderId nonce (device_id s) proof) s
                       in (l, s, if ok then GoOn else Ended False)))))"

text \<open>The decision of a final pairing message under the lock, with the new trust on acceptance.\<close>

definition pair_final_decision ::
    "MessageEnv \<Rightarrow> string \<Rightarrow> string \<Rightarrow> string \<Rightarrow> string \<Rightarrow> ReceiverSession \<Rightarrow> ReceiverSession \<times> string" where
  "pair_final_decision env sessionId token senderId deviceId s =
     (case EvaluatePairingAuthorization sessionId token (pending_session_id s) (pending_token s)
             (pending_short_code s) (consumed_session_id s) (to_milliseconds (pairing_expires_at s))
             (to_milliseconds (wall_clock env)) of
        PairReplayed \<Rightarrow> (s, ''authorization_replayed'')
      | PairExpired \<Rightarrow> (s, ''authorization_expired'')
      | PairMismatch \<Rightarrow> (s, ''pairing_failed'')
      | PairAccepted \<Rightarrow>
          (if fresh_credential env = '''' \<or> device_id s \<noteq> deviceId then (s, ''pairing_failed'')
           else (s\<lparr>trusted_sender_id := senderId, trusted_credential := fresh_credential env,
                   consumed_session_id := sessionId, pending_session_id := '''', pending_token := '''',
                   pending_short_code := '''', pairing_record_version := pairing_record_version s + 1\<rparr>, '''')))"

definition OnPairFinal :: "MessageEnv \<Rightarrow> string \<Rightarrow> AuthLocals \<Rightarrow> ReceiverSession \<Rightarrow> dialogue" where
  "OnPairFinal env json l s =
     (let sessionId = field json ''sessionId''; token = field json ''token'';
          senderId = field json ''senderId''; nonce = field json ''nonce'';
          c = pairChallenge l;
          manualFinal = manualIpv4 c \<and> JsonString json ''type'' = Some ''pair_manual_ipv4''
                        \<and> JsonString json ''mode'' = Some ''pair_manual_ipv4'';
          proofFinal = \<not> manualIpv4 c \<and> JsonString json ''type'' = Some ''pair''
                        \<and> JsonString json ''mode'' = Some ''pair''
      in if (\<not> manualFinal \<and> \<not> proofFinal) \<or> sessionId \<noteq> pair_sessionId c \<or> senderId \<noteq> pair_senderId c
            \<or> nonce \<noteq> pair_nonce c \<or> \<not> Hex token 64
         then refuse env ''challenge_state_invalid'' l s
         else
           (case pair_final_decision env sessionId token senderId (pair_deviceId c) s of
              (s, err) \<Rightarrow>
                (if err \<noteq> '''' then refuse env err l s
                 else
                   (let (s, _) = SendControl (reply_send env) (paired_reply (pair_deviceId c) (fresh_credential env)) s
                    in (l, SetState StatePaired PairingDone True False s, Ended False)))))"

definition OnAuthChallenge :: "MessageEnv \<Rightarrow> string \<Rightarrow> AuthLocals \<Rightarrow> ReceiverSession \<Rightarrow> dialogue" where
  "OnAuthChallenge env json l s =
     (let senderId = field json ''senderId''; deviceId = field json ''deviceId''; nonce = field json ''nonce'';
          epoch = JsonInteger json ''sourceEpoch''
      in case parseMediaContract json of
           None \<Rightarrow> refuse env ''challenge_invalid'' l s
         | Some mediaContract \<Rightarrow>
             (if \<not> SessionSenderIdValid senderId \<or> \<not> Hex deviceId 32 \<or> \<not> Hex nonce 64
                 \<or> \<not> uint32_field epoch \<or> \<not> codecValid json
              then refuse env ''challenge_invalid'' l s
              else
                (let acceptedEpoch = word_of_int (the epoch) :: u32;
                     paired = trusted_sender_id s \<noteq> '''' \<and> trusted_credential s \<noteq> '''';
                     identityMatches = paired \<and> senderId = trusted_sender_id s \<and> deviceId = device_id s;
                     sourceDecision = EvaluateSourceContract acceptedEpoch mediaContract
                                        (latest_source_epoch s) (active_media_contract s)
                 in if \<not> paired then refuse env ''not_paired'' l s
                    else if \<not> identityMatches then refuse env ''identity_mismatch'' l s
                    else if sourceDecision = EpochStale then refuse env ''epoch_stale'' l s
                    else if sourceDecision = EpochContractMismatch then refuse env ''epoch_contract_mismatch'' l s
                    else
                      (let proof = ComputeAuthProof (trusted_credential s) senderId deviceId acceptedEpoch nonce
                                     mediaContract
                       in if proof = '''' then refuse env ''challenge_invalid'' l s
                          else
                            (let l = l\<lparr>authChallenge := \<lparr>auth_senderId = senderId, auth_deviceId = deviceId,
                                         auth_nonce = nonce, auth_sourceEpoch = acceptedEpoch,
                                         auth_mediaContract = mediaContract\<rparr>, stage := kAuthFinal\<rparr>;
                                 (s, ok) = SendControl (reply_send env)
                                             (auth_proof_reply senderId deviceId acceptedEpoch nonce proof) s
                             in (l, s, if ok then GoOn else Ended False))))))"

text \<open>The final message repeats the challenge; the trust check of its credential.\<close>

definition auth_final_matches :: "string \<Rightarrow> AuthChallengeState \<Rightarrow> bool" where
  "auth_final_matches json c \<longleftrightarrow>
     JsonString json ''type'' = Some ''auth'' \<and> field json ''senderId'' = auth_senderId c \<and>
     field json ''deviceId'' = auth_deviceId c \<and> field json ''nonce'' = auth_nonce c \<and>
     JsonInteger json ''sourceEpoch'' = Some (uint (auth_sourceEpoch c)) \<and> codecValid json \<and>
     parseMediaContract json = Some (auth_mediaContract c) \<and> Hex (field json ''credential'') 64"

definition auth_trusted :: "string \<Rightarrow> ReceiverSession \<Rightarrow> bool" where
  "auth_trusted json s \<longleftrightarrow> field json ''senderId'' = trusted_sender_id s \<and> field json ''deviceId'' = device_id s \<and>
     ConstantTimeEqual (field json ''credential'') (trusted_credential s)"

text \<open>Taking over a new source and preparing the decoder for it.\<close>

definition take_source :: "u32 \<Rightarrow> MediaContract \<Rightarrow> ReceiverSession \<Rightarrow> ReceiverSession" where
  "take_source epoch contract s =
     s\<lparr>latest_source_epoch := epoch, active_source_epoch := epoch, active_media_contract := contract\<rparr>"

definition prepare_decoder :: "CodecResults \<Rightarrow> MediaContract \<Rightarrow> MediaContract \<Rightarrow> ReceiverSession \<Rightarrow> ReceiverSession \<times> bool" where
  "prepare_decoder res previous contract s =
     (if previous = contract then FlushDecoder res s else ReconfigureDecoder res contract s)"

definition OnAuthFinal :: "MessageEnv \<Rightarrow> string \<Rightarrow> AuthLocals \<Rightarrow> ReceiverSession \<Rightarrow> dialogue" where
  "OnAuthFinal env json l s =
     (let newEpoch = auth_sourceEpoch (authChallenge l); contract = auth_mediaContract (authChallenge l);
          previousEpoch = latest_source_epoch s; previousContract = active_media_contract s
      in if \<not> auth_final_matches json (authChallenge l) then refuse env ''challenge_state_invalid'' l s
         else if \<not> auth_trusted json s then refuse env ''identity_mismatch'' l s
         else
           (case EvaluateSourceContract newEpoch contract previousEpoch previousContract of
              EpochStale \<Rightarrow> refuse env ''epoch_stale'' l s
            | EpochContractMismatch \<Rightarrow> refuse env ''epoch_contract_mismatch'' l s
            | SourceAccepted \<Rightarrow>
                (case prepare_decoder (codec_results env) previousContract contract (take_source newEpoch contract s) of
                   (s, False) \<Rightarrow>
                     (let s = (if active_source_epoch s = newEpoch \<and> active_media_contract s = contract
                               then s\<lparr>latest_source_epoch := previousEpoch, active_source_epoch := previousEpoch,
                                      active_media_contract := previousContract\<rparr>
                               else s)
                      in refuse env ''decoder_configuration_failed'' l s)
                 | (s, True) \<Rightarrow>
                     (case SendControl (reply_send env) (ready_reply newEpoch contract) s of
                        (s, False) \<Rightarrow> (l, s, Ended False)
                      | (s, True) \<Rightarrow> (l, SetState StateConnected SenderConnected True True s, Ended True)))))"

text \<open>The initial manual pairing message only fills in the challenge; the final part handles it too.\<close>

definition begin_manual :: "string \<Rightarrow> AuthLocals \<Rightarrow> ReceiverSession \<Rightarrow> AuthLocals" where
  "begin_manual json l s =
     l\<lparr>pairChallenge := \<lparr>pair_sessionId = field json ''sessionId'', pair_senderId = field json ''senderId'',
         pair_nonce = '''', pair_deviceId = device_id s, manualIpv4 = True\<rparr>, stage := kPairFinal\<rparr>"

definition AuthenticateMessage :: "MessageEnv \<Rightarrow> Message \<Rightarrow> AuthLocals \<Rightarrow> ReceiverSession \<Rightarrow> dialogue" where
  "AuthenticateMessage env message l s =
     (if opcode message \<noteq> kText \<or> length (payload message) > 2048 then refuse env ''challenge_invalid'' l s
      else
        (let json = chars_of (payload message); type = JsonString json ''type''
         in if JsonInteger json ''protocol'' \<noteq> Some (uint kVersion) then refuse env ''protocol_mismatch'' l s
            else if stage l = kInitial \<and> type = Some ''pair_manual_ipv4'' then
              (if JsonString json ''mode'' \<noteq> Some ''pair_manual_ipv4'' \<or> \<not> Hex (field json ''sessionId'') 32
                  \<or> \<not> SessionSenderIdValid (field json ''senderId'')
               then refuse env ''challenge_invalid'' l s
               else OnPairFinal env json (begin_manual json l s) s)
            else if stage l = kInitial \<and> type = Some ''pair_challenge'' then OnPairChallenge env json l s
            else if stage l = kPairFinal then OnPairFinal env json l s
            else if stage l = kInitial \<and> type = Some ''auth_challenge'' then OnAuthChallenge env json l s
            else if stage l = kAuthFinal then OnAuthFinal env json l s
            else refuse env ''challenge_required'' l s))"

text \<open>The messages of one chunk; what follows a message that ends the dialogue is not read.\<close>

fun AuthenticateMessages ::
    "(nat \<Rightarrow> MessageEnv) \<Rightarrow> Message list \<Rightarrow> AuthLocals \<Rightarrow> ReceiverSession \<Rightarrow> dialogue" where
  "AuthenticateMessages envs [] l s = (l, s, GoOn)"
| "AuthenticateMessages envs (m # ms) l s =
     (case AuthenticateMessage (envs 0) m l s of
        (l, s, GoOn) \<Rightarrow> AuthenticateMessages (\<lambda>i. envs (Suc i)) ms l s
      | (l, s, Ended r) \<Rightarrow> (l, s, Ended r))"

definition AuthenticateChunk ::
    "(nat \<Rightarrow> MessageEnv) \<Rightarrow> byte list \<Rightarrow> AuthLocals \<Rightarrow> ReceiverSession \<Rightarrow> dialogue" where
  "AuthenticateChunk envs data l s =
     (case Push (websocket_decoder s) data of
        (ok, d, ms) \<Rightarrow>
          (let s = s\<lparr>websocket_decoder := d\<rparr>
           in if \<not> ok then (l, s, Ended False) else AuthenticateMessages envs ms l s))"

section \<open>The connected session\<close>

definition HandleControl :: "ControlSend \<Rightarrow> string \<Rightarrow> ReceiverSession \<Rightarrow> ReceiverSession \<times> bool" where
  "HandleControl c json s =
     (if JsonInteger json ''protocol'' \<noteq> Some (uint kVersion) then (s, False)
      else if JsonString json ''type'' = Some ''ping'' then
        (case JsonInteger json ''at'' of
           None \<Rightarrow> (s, False)
         | Some at \<Rightarrow> SendControl c (''{\"type\":\"pong\",\"protocol\":6,\"at\":'' @ dec_signed at @ ''}'') s)
      else (s, JsonString json ''type'' \<noteq> Some ''close''))"

record SessionEnv =
  control_send :: ControlSend
  pong_count :: int
  buffer_accepts :: "InputSlot \<Rightarrow> bool"

definition SessionMessage :: "SessionEnv \<Rightarrow> Message \<Rightarrow> ReceiverSession \<Rightarrow> ReceiverSession \<times> bool" where
  "SessionMessage env message s =
     (if opcode message = kText then HandleControl (control_send env) (chars_of (payload message)) s
      else if opcode message = kBinary then (HandleVideo (buffer_accepts env) (payload message) s, True)
      else if opcode message = kPing
      then SendWhole (pong_count env) (EncodeFrame kPong (chars_of (payload message))) s
      else (s, opcode message \<noteq> kClose))"

fun SessionMessages :: "(nat \<Rightarrow> SessionEnv) \<Rightarrow> Message list \<Rightarrow> ReceiverSession \<Rightarrow> ReceiverSession \<times> bool" where
  "SessionMessages envs [] s = (s, True)"
| "SessionMessages envs (m # ms) s =
     (case SessionMessage (envs 0) m s of
        (s, True) \<Rightarrow> SessionMessages (\<lambda>i. envs (Suc i)) ms s
      | (s, False) \<Rightarrow> (s, False))"

definition SessionChunk :: "(nat \<Rightarrow> SessionEnv) \<Rightarrow> byte list \<Rightarrow> ReceiverSession \<Rightarrow> ReceiverSession \<times> bool" where
  "SessionChunk envs data s =
     (case Push (websocket_decoder s) data of
        (ok, d, ms) \<Rightarrow>
          (let s = s\<lparr>websocket_decoder := d\<rparr>
           in if \<not> ok then (s, False) else SessionMessages envs ms s))"

definition keyframe_request :: string where
  "keyframe_request =
     ''{\"type\":\"keyframe\",\"protocol\":6,\"reason\":\"loss_flush_or_session_start\",\"requireCodecConfig\":true}''"

text \<open>The end of a loop iteration: the pending key-frame request, then one telemetry message.\<close>

definition SendKeyframeRequest :: "ControlSend \<Rightarrow> ReceiverSession \<Rightarrow> ReceiverSession \<times> bool" where
  "SendKeyframeRequest c s =
     (case ConsumeKeyFrameRequest (decoder_recovery s) of
        (coordinator, wanted) \<Rightarrow>
          (let s = s\<lparr>decoder_recovery := coordinator\<rparr>
           in if \<not> wanted then (s, True)
              else
                (case SendControl c keyframe_request s of
                   (s, False) \<Rightarrow> (s, False)
                 | (s, True) \<Rightarrow> (s\<lparr>keyframe_requests_sent := keyframe_requests_sent s + 1\<rparr>, True))))"

definition SendTelemetry :: "ControlSend \<Rightarrow> ReceiverSession \<Rightarrow> ReceiverSession \<times> bool" where
  "SendTelemetry c s =
     (case TryPop (telemetry s) of
        (q, None) \<Rightarrow> (s\<lparr>telemetry := q\<rparr>, True)
      | (q, Some message) \<Rightarrow> SendControl c message (s\<lparr>telemetry := q\<rparr>))"

definition SessionRequests :: "ControlSend \<Rightarrow> ControlSend \<Rightarrow> ReceiverSession \<Rightarrow> ReceiverSession \<times> bool" where
  "SessionRequests keyframe_send telemetry_send s =
     (case SendKeyframeRequest keyframe_send s of
        (s, False) \<Rightarrow> (s, False)
      | (s, True) \<Rightarrow> SendTelemetry telemetry_send s)"

text \<open>\<open>ContinueWithCurrentAddress\<close>: the address must still be the one of the chosen interface.\<close>

definition ContinueWithCurrentAddress ::
    "network_interface list option \<Rightarrow> ReceiverSession \<Rightarrow> ReceiverSession \<times> bool" where
  "ContinueWithCurrentAddress interfaces s =
     (if IsCurrentWifiIpv4 (listen_address s) interfaces = Some (listen_interface_index s) then (s, True)
      else
        (let s = s\<lparr>address_responder := Stop (address_responder s), session_desired := False\<rparr>
         in (SetState StateError WifiAddressChanged False False s, False)))"

section \<open>Status\<close>

record StatusSnapshot =
  snap_state :: SessionState
  snap_detail :: Detail
  snap_listenAddress :: string
  snap_pairedAddress :: string
  snap_deviceId :: string
  snap_listening :: bool
  snap_connected :: bool
  snap_paired :: bool
  automaticAddressPublished :: bool
  automaticAddressConflict :: bool
  automaticAddressFailed :: bool
  snap_framesDecoded :: u64
  snap_framesDropped :: u64
  snap_receivedFrames :: u64
  mediaWidth :: u32
  mediaHeight :: u32
  mediaMaxFps :: u32

definition Status :: "ReceiverSession \<Rightarrow> StatusSnapshot" where
  "Status s =
     (let publisherState = publisher_state (address_responder s)
      in \<lparr>snap_state = status_state s, snap_detail = status_detail s, snap_listenAddress = listen_address s,
          snap_pairedAddress = paired_address s, snap_deviceId = device_id s, snap_listening = listening s,
          snap_connected = connected s, snap_paired = (trusted_sender_id s \<noteq> ''''),
          automaticAddressPublished = (publisherState = kPublished),
          automaticAddressConflict = (publisherState = kConflict),
          automaticAddressFailed = (publisherState = kError),
          snap_framesDecoded = frames_decoded s, snap_framesDropped = frames_dropped s,
          snap_receivedFrames = received_frames s, mediaWidth = width (active_media_contract s),
          mediaHeight = height (active_media_contract s), mediaMaxFps = maxFps (active_media_contract s)\<rparr>)"

record PairingRecord =
  record_deviceId :: string
  record_senderId :: string
  record_credential :: string
  record_version :: u64

definition Pairing :: "ReceiverSession \<Rightarrow> PairingRecord" where
  "Pairing s = \<lparr>record_deviceId = device_id s, record_senderId = trusted_sender_id s,
     record_credential = trusted_credential s, record_version = pairing_record_version s\<rparr>"

section \<open>The network thread\<close>

definition ResetRecovery :: "ReceiverSession \<Rightarrow> ReceiverSession" where
  "ResetRecovery s = coordinate RecoveryReset s"

definition ClearTelemetry :: "ReceiverSession \<Rightarrow> ReceiverSession" where
  "ClearTelemetry s = s\<lparr>telemetry := QueueClear (telemetry s)\<rparr>"

definition ResetWebsocket :: "ReceiverSession \<Rightarrow> ReceiverSession" where
  "ResetWebsocket s = s\<lparr>websocket_decoder := Reset (websocket_decoder s)\<rparr>"

text \<open>What follows the loop of \<open>NetworkLoop\<close>.\<close>

definition NetworkExit :: "ReceiverSession \<Rightarrow> ReceiverSession" where
  "NetworkExit s =
     (let s = CloseSockets (s\<lparr>address_responder := Stop (address_responder s)\<rparr>)
      in (ResetRecovery (ClearTelemetry s))\<lparr>network := NotRunning\<rparr>)"

text \<open>\<open>socket\<close>, \<open>bind\<close> and \<open>listen\<close> return \<open>fd\<close>, \<open>bound\<close> and \<open>listens\<close>.\<close>

definition OpenListener ::
    "network_interface list option \<Rightarrow> int \<Rightarrow> bool \<Rightarrow> bool \<Rightarrow> ReceiverSession \<Rightarrow> ReceiverSession \<times> bool" where
  "OpenListener interfaces fd bound listens s =
     (if IsCurrentWifiIpv4 (listen_address s) interfaces = None then (s, False)
      else if fd < 0 then (s, False)
      else (s\<lparr>listener_socket := fd\<rparr>, bound \<and> listens))"

record ResponderStart =
  open_ok :: bool
  thread_ok :: bool
  random_delay :: int
  clock_started :: u64

text \<open>The start of \<open>NetworkLoop\<close>, up to its loop.\<close>

definition NetworkBegin ::
    "network_interface list option \<Rightarrow> int \<Rightarrow> bool \<Rightarrow> bool \<Rightarrow> ResponderStart \<Rightarrow> ReceiverSession \<Rightarrow> ReceiverSession"
where
  "NetworkBegin interfaces fd bound listens rs s =
     (case OpenListener interfaces fd bound listens s of
        (s, False) \<Rightarrow>
          (let s = (if session_desired s then SetState StateError ListenFailed False False s else s)
           in (CloseSockets s)\<lparr>network := NotRunning\<rparr>)
      | (s, True) \<Rightarrow>
          (let responder = fst (Start (listen_address s) (listen_interface_index s) (open_ok rs) (thread_ok rs)
                                  (random_delay rs) (clock_started rs) (address_responder s))
           in SetState StateListening WaitingForSender True False
                (s\<lparr>address_responder := responder, network := Accepting\<rparr>)))"

text \<open>The rest of an iteration of the network loop after \<open>AcceptWebSocket\<close> has returned.\<close>

definition IterationEnd :: "ReceiverSession \<Rightarrow> ReceiverSession" where
  "IterationEnd s =
     (let s = ResetWebsocket (CloseControlSocket s);
          s = s\<lparr>network := Accepting\<rparr>
      in if session_desired s then SetState StateListening WaitingForSender True False s else s)"

definition ReadUpgrade :: "upgrade_event list \<Rightarrow> int \<Rightarrow> ReceiverSession \<Rightarrow> ReceiverSession \<times> bool" where
  "ReadUpgrade events returned s =
     (case ReadUpgradeRequest '''' events of
        None \<Rightarrow> (s, False)
      | Some (False, _) \<Rightarrow> (s, False)
      | Some (True, request) \<Rightarrow>
          (case BuildUpgradeResponse request of
             None \<Rightarrow> (s, False)
           | Some response \<Rightarrow> SendWhole returned (bytes_of response) s))"

text \<open>
  \<open>AcceptWebSocket\<close> up to the dialogue: \<open>client\<close> is the accepted descriptor and the peer's
  address, None when \<open>select\<close> or \<open>accept\<close> gives none.
\<close>

definition AcceptWebSocket ::
    "(int \<times> Ipv4Address) option \<Rightarrow> upgrade_event list \<Rightarrow> int \<Rightarrow> ReceiverSession \<Rightarrow> ReceiverSession" where
  "AcceptWebSocket client events returned s =
     (case client of
        None \<Rightarrow> IterationEnd s
      | Some (fd, peer) \<Rightarrow>
          (if listener_socket s < 0 \<or> fd < 0 \<or> \<not> private_peer peer then IterationEnd s
           else
             (let s = s\<lparr>control_socket := fd, socket_out := [], paired_address := Ipv4Text peer\<rparr>
              in case ReadUpgrade events returned s of
                   (s, False) \<Rightarrow> IterationEnd s
                 | (s, True) \<Rightarrow> s\<lparr>network := Authenticating newLocals\<rparr>)))"

definition AcceptIteration ::
    "network_interface list option \<Rightarrow> (int \<times> Ipv4Address) option \<Rightarrow> upgrade_event list \<Rightarrow> int \<Rightarrow>
     ReceiverSession \<Rightarrow> ReceiverSession" where
  "AcceptIteration interfaces client events returned s =
     (if \<not> session_desired s then NetworkExit s
      else
        (case ContinueWithCurrentAddress interfaces s of
           (s, False) \<Rightarrow> NetworkExit s
         | (s, True) \<Rightarrow> AcceptWebSocket client events returned s))"

datatype recv_result = NoData | RecvEnded | RecvData "byte list"

text \<open>One iteration of the loop of \<open>AuthenticateConnection\<close>; \<open>expired\<close> is its ten second deadline.\<close>

definition AuthenticateIteration ::
    "bool \<Rightarrow> recv_result \<Rightarrow> (nat \<Rightarrow> MessageEnv) \<Rightarrow> AuthLocals \<Rightarrow> ReceiverSession \<Rightarrow> ReceiverSession" where
  "AuthenticateIteration expired received envs l s =
     (if \<not> session_desired s \<or> expired \<or> control_socket s < 0 then IterationEnd s
      else
        (case received of
           NoData \<Rightarrow> s
         | RecvEnded \<Rightarrow> IterationEnd s
         | RecvData data \<Rightarrow>
             (case AuthenticateChunk envs data l s of
                (l, s, GoOn) \<Rightarrow> s\<lparr>network := Authenticating l\<rparr>
              | (l, s, Ended True) \<Rightarrow> s\<lparr>network := InSession\<rparr>
              | (l, s, Ended False) \<Rightarrow> IterationEnd s)))"

text \<open>One iteration of \<open>RunConnectedSession\<close>: receive, then send what is pending.\<close>

definition SessionReceive :: "recv_result \<Rightarrow> (nat \<Rightarrow> SessionEnv) \<Rightarrow> ReceiverSession \<Rightarrow> ReceiverSession \<times> bool" where
  "SessionReceive received envs s =
     (case received of
        NoData \<Rightarrow> (s, True)
      | RecvEnded \<Rightarrow> (s, False)
      | RecvData data \<Rightarrow> (if control_socket s < 0 then (s, False) else SessionChunk envs data s))"

definition SessionIteration ::
    "network_interface list option \<Rightarrow> recv_result \<Rightarrow> (nat \<Rightarrow> SessionEnv) \<Rightarrow> ControlSend \<Rightarrow> ControlSend \<Rightarrow>
     ReceiverSession \<Rightarrow> ReceiverSession" where
  "SessionIteration interfaces received envs keyframe_send telemetry_send s =
     (if \<not> session_desired s then IterationEnd s
      else
        (case ContinueWithCurrentAddress interfaces s of
           (s, False) \<Rightarrow> IterationEnd s
         | (s, True) \<Rightarrow>
             (case SessionReceive received envs s of
                (s, False) \<Rightarrow> IterationEnd s
              | (s, True) \<Rightarrow>
                  (case SessionRequests keyframe_send telemetry_send s of
                     (s, False) \<Rightarrow> IterationEnd s
                   | (s, True) \<Rightarrow> s))))"

section \<open>Starting and stopping\<close>

text \<open>
  \<open>Stop\<close> waits for the network thread, which leaves its loops and runs \<open>NetworkExit\<close>.
\<close>

definition StopSession :: "ReceiverSession \<Rightarrow> ReceiverSession" where
  "StopSession s =
     (let s = s\<lparr>session_desired := False, address_responder := Stop (address_responder s)\<rparr>;
          s = CloseSockets s;
          s = (if network s \<noteq> NotRunning then NetworkExit s else s)
      in SetState StateIdle NotStarted False False (ResetRecovery (ClearTelemetry (ResetWebsocket s))))"

definition StartSession ::
    "network_interface list option \<Rightarrow> string \<Rightarrow> string \<Rightarrow> ReceiverSession \<Rightarrow> ReceiverSession \<times> bool" where
  "StartSession interfaces generated address s =
     (case IsCurrentWifiIpv4 address interfaces of
        None \<Rightarrow> (SetState StateError NotCurrentWifiAddress False False s, False)
      | Some interface_index \<Rightarrow>
          (let s = StopSession s;
               s = (if device_id s = '''' then s\<lparr>device_id := generated\<rparr> else s)
           in if device_id s = '''' then (SetState StateError NoDeviceIdentity False False s, False)
              else
                (let s = s\<lparr>listen_address := address, listen_interface_index := interface_index, paired_address := '''',
                           frames_decoded := 0, frames_dropped := 0, received_frames := 0, received_bytes := 0,
                           decoder_resync_events := 0, keyframe_requests_sent := 0\<rparr>;
                     s = (ResetRecovery s)\<lparr>session_desired := True\<rparr>
                 in ((SetState StateStarting PreparingToReceive False False s)\<lparr>network := Opening\<rparr>, True))))"

section \<open>Events and runs\<close>

datatype session_event =
    StartCall "network_interface list option" string string
  | StopCall
  | ConfigureTrustCall string string string u64
  | AuthorizeQrCall int string string int
  | AuthorizeShortCodeCall int string
  | ForgetDeviceCall
  | SurfaceCall CodecResults surface_event
  | CodecNeedsInput "InputSlot \<Rightarrow> bool" nat InputSlot
  | CodecOutputs nat u32 "(int \<times> bool) option" bool u64
  | CodecOutputAdvances nat
  | CodecFails int
  | ResponderIterates u64 MdnsReceiveResult bool u64
  | NetBegin "network_interface list option" int bool bool ResponderStart
  | NetAccept "network_interface list option" "(int \<times> Ipv4Address) option" "upgrade_event list" int
  | NetAuthenticate bool recv_result "nat \<Rightarrow> MessageEnv"
  | NetSession "network_interface list option" recv_result "nat \<Rightarrow> SessionEnv" ControlSend ControlSend

fun session_step :: "session_event \<Rightarrow> ReceiverSession \<Rightarrow> ReceiverSession" where
  "session_step (StartCall interfaces generated address) s = fst (StartSession interfaces generated address s)"
| "session_step StopCall s = StopSession s"
| "session_step (ConfigureTrustCall deviceId senderId credential version) s =
     fst (ConfigureTrust deviceId senderId credential version s)"
| "session_step (AuthorizeQrCall now sessionId token expiresAtMs) s = fst (AuthorizeQr now sessionId token expiresAtMs s)"
| "session_step (AuthorizeShortCodeCall now shortCode) s = fst (AuthorizeShortCode now shortCode s)"
| "session_step ForgetDeviceCall s = ForgetDevice s"
| "session_step (SurfaceCall res e) s = OnSurfaceEvent res e s"
| "session_step (CodecNeedsInput acc h slot) s = DecoderNeedInput acc h slot s"
| "session_step (CodecOutputs h i attrs ok clock) s = DecoderOutput h i attrs ok clock s"
| "session_step (CodecOutputAdvances i) s = DecoderOutput_advance i s"
| "session_step (CodecFails code) s = DecoderError code s"
| "session_step (ResponderIterates now result send_ok restart) s =
     s\<lparr>address_responder := responder_step (WorkerIterates now result send_ok restart) (address_responder s)\<rparr>"
| "session_step (NetBegin interfaces fd bound listens rs) s =
     (if network s = Opening then NetworkBegin interfaces fd bound listens rs s else s)"
| "session_step (NetAccept interfaces client events returned) s =
     (if network s = Accepting then AcceptIteration interfaces client events returned s else s)"
| "session_step (NetAuthenticate expired received envs) s =
     (case network s of Authenticating l \<Rightarrow> AuthenticateIteration expired received envs l s | _ \<Rightarrow> s)"
| "session_step (NetSession interfaces received envs k t) s =
     (if network s = InSession then SessionIteration interfaces received envs k t s else s)"

definition session_run :: "session_event list \<Rightarrow> ReceiverSession" where
  "session_run events = fold session_step events newSession"

section \<open>What the decoder operations leave alone\<close>

text \<open>A step of the decoder side keeps the session's own fields and the active epoch.\<close>

definition decoder_frame :: "'a DecoderSide_scheme \<Rightarrow> 'a DecoderSide_scheme \<Rightarrow> bool" where
  "decoder_frame s t \<longleftrightarrow> DecoderSide.more t = DecoderSide.more s \<and> active_source_epoch t = active_source_epoch s"

lemma decoder_frame_refl [simp]: "decoder_frame s s"
  by (simp add: decoder_frame_def)

lemma decoder_frame_trans: "decoder_frame s t \<Longrightarrow> decoder_frame t u \<Longrightarrow> decoder_frame s u"
  by (simp add: decoder_frame_def)

lemma small_frames [simp]:
  "decoder_frame s (SetState st d l c t) = decoder_frame s t" "decoder_frame s (SetGate g t) = decoder_frame s t"
  "decoder_frame s (codec_called x t) = decoder_frame s t" "decoder_frame s (coordinate f t) = decoder_frame s t"
  "decoder_frame s (RequestKeyframe t) = decoder_frame s t" "decoder_frame s (ClearDecoderQueues t) = decoder_frame s t"
  "decoder_frame s (dropped n t) = decoder_frame s t" "decoder_frame s (resync t) = decoder_frame s t"
  "decoder_frame s (BeginFlush t) = decoder_frame s t" "decoder_frame s (abandon op code h t) = decoder_frame s t"
  "decoder_frame s (setup_failed op code t) = decoder_frame s t" "decoder_frame s (pump_failed t) = decoder_frame s t"
  "decoder_frame s (t\<lparr>decoder := h'\<rparr>) = decoder_frame s t" "decoder_frame s (t\<lparr>input_slots := sl\<rparr>) = decoder_frame s t"
  "decoder_frame s (t\<lparr>decode_queue := q\<rparr>) = decoder_frame s t"
  "decoder_frame s (t\<lparr>decoder_media_contract := m\<rparr>) = decoder_frame s t"
  "decoder_frame s (t\<lparr>decoder_recovery := r\<rparr>) = decoder_frame s t"
  "decoder_frame s (t\<lparr>lifecycle_state := lc\<rparr>) = decoder_frame s t"
  "decoder_frame s (t\<lparr>telemetry := tq\<rparr>) = decoder_frame s t"
  "decoder_frame s (t\<lparr>frames_decoded := n1\<rparr>) = decoder_frame s t"
  "decoder_frame s (t\<lparr>decoder_resync_events := n2\<rparr>) = decoder_frame s t"
  "decoder_frame s (t\<lparr>received_frames := n3\<rparr>) = decoder_frame s t"
  "decoder_frame s (t\<lparr>received_bytes := n4\<rparr>) = decoder_frame s t"
  by (simp_all add: decoder_frame_def decoder_simps pump_failed_def Let_def)

lemma DrainOutputs_frame_session [simp]: "decoder_frame s (DrainOutputs t) = decoder_frame s t"
  by (simp add: decoder_frame_def)

lemma DestroyDecoderLocked_frame [simp]: "decoder_frame s (DestroyDecoderLocked t) = decoder_frame s t"
  by (simp add: DestroyDecoderLocked_def Let_def split: option.split)

lemma CreateDecoderLocked_frame [simp]: "decoder_frame s (fst (CreateDecoderLocked res t)) = decoder_frame s t"
  by (simp add: CreateDecoderLocked_def start_decoder_def Let_def split: option.split)

lemma OnSurfaceEvent_frame: "decoder_frame s (OnSurfaceEvent res e s)"
  by (simp add: OnSurfaceEvent_def ApplyLifecycleDecisionLocked_def Let_def case_prod_unfold)

lemma FlushDecoder_frame: "decoder_frame s (fst (FlushDecoder res s))"
  by (simp add: FlushDecoder_def Let_def case_prod_unfold split: option.split)

lemma ReconfigureDecoder_frame: "decoder_frame s (fst (ReconfigureDecoder res contract s))"
  by (simp add: ReconfigureDecoder_def Let_def case_prod_unfold)

lemma PumpDecoderLocked_frame [simp]: "decoder_frame s (PumpDecoderLocked acc h t) = decoder_frame s t"
proof (induction acc h t rule: PumpDecoderLocked.induct)
  case (1 acc h t)
  show ?case
  proof (cases "CallbacksAllowed t \<and> decoder t = Some h \<and> input_slots t \<noteq> [] \<and> decode_queue t \<noteq> []")
    case False
    then show ?thesis by (subst PumpDecoderLocked.simps) (simp only: False if_False)
  next
    case True
    then show ?thesis
      using 1(1) [OF True refl refl refl] 1(2) [OF True refl refl refl]
      by (subst PumpDecoderLocked.simps) (auto simp: Let_def)
  qed
qed

lemma SubmitFrame_frame [simp]: "decoder_frame s (SubmitFrame acc f t) = decoder_frame s t"
  by (auto simp: SubmitFrame_def Let_def split: option.splits prod.splits)

lemma SubmitRecovery_frame [simp]: "decoder_frame s (fst (SubmitRecovery acc c y t)) = decoder_frame s t"
  by (auto simp: SubmitRecovery_def Let_def split: option.splits)

lemma HandleVideo_frame: "decoder_frame s (HandleVideo acc data s)"
proof -
  have recovery: "(case r of (t, True) \<Rightarrow> t | (t, False) \<Rightarrow> RequestKeyframe t) =
      (if snd r then fst r else RequestKeyframe (fst r))" for r :: "'a DecoderSide_scheme \<times> bool"
    by (cases r) (simp split: bool.split)
  show ?thesis
    by (simp add: HandleVideo_def recovery Let_def split: option.split)
qed

lemma DecoderNeedInput_frame: "decoder_frame s (DecoderNeedInput acc h slot s)"
  by (simp add: DecoderNeedInput_def)

lemma DecoderOutput_frame: "decoder_frame s (DecoderOutput h i attrs ok clock s)"
  by (simp add: DecoderOutput_def decoder_frame_def)

lemma DecoderOutput_advance_same:
  "decoder_frame s (DecoderOutput_advance i s) \<and> decoder_media_contract (DecoderOutput_advance i s) = decoder_media_contract s"
proof (cases "DecoderOutput_step (outputs_running s ! i) s")
  case (Pair r t)
  then show ?thesis
    using DecoderOutput_step_frame(1) [OF Pair]
    by (auto simp: DecoderOutput_advance_def output_frame_def decoder_frame_def split: option.split)
qed

lemmas DecoderOutput_advance_frame = conjunct1 [OF DecoderOutput_advance_same]

lemma DecoderError_frame: "decoder_frame s (DecoderError code s)"
  by (simp add: DecoderError_def)

text \<open>The media contract of the decoder changes with a reconfiguration that succeeds only.\<close>

lemma CreateDecoderLocked_contract [simp]:
  "decoder_media_contract (fst (CreateDecoderLocked res t)) = decoder_media_contract t"
  by (simp add: CreateDecoderLocked_def start_decoder_def decoder_simps Let_def split: option.split)

lemma contract_keeps [simp]:
  "decoder_media_contract (resync t) = decoder_media_contract t"
  "decoder_media_contract (RequestKeyframe t) = decoder_media_contract t"
  "decoder_media_contract (BeginFlush t) = decoder_media_contract t"
  "decoder_media_contract (SetGate g t) = decoder_media_contract t"
  "decoder_media_contract (codec_called x t) = decoder_media_contract t"
  "decoder_media_contract (DestroyDecoderLocked t) = decoder_media_contract t"
  by (simp_all add: decoder_simps DestroyDecoderLocked_keeps)

lemma OnSurfaceEvent_contract: "decoder_media_contract (OnSurfaceEvent res e s) = decoder_media_contract s"
  by (simp add: OnSurfaceEvent_def ApplyLifecycleDecisionLocked_def Let_def case_prod_unfold)

lemma FlushDecoder_contract: "decoder_media_contract (fst (FlushDecoder res s)) = decoder_media_contract s"
  by (simp add: FlushDecoder_def Let_def case_prod_unfold split: option.split)

lemma ReconfigureDecoder_contract:
  "decoder_media_contract (fst (ReconfigureDecoder res contract s)) =
     (if snd (ReconfigureDecoder res contract s) then contract else decoder_media_contract s)"
  "snd (ReconfigureDecoder res contract s) \<Longrightarrow> IsValidMediaContract contract"
  by (auto simp: ReconfigureDecoder_def Let_def case_prod_unfold split: if_splits)

lemma feeding_contract [simp]:
  "decoder_media_contract (pump_failed t) = decoder_media_contract t"
  "decoder_media_contract (coordinate f t) = decoder_media_contract t"
  "decoder_media_contract (dropped n t) = decoder_media_contract t"
  "decoder_media_contract (SetState st d l c t) = decoder_media_contract t"
  by (simp_all add: decoder_simps pump_failed_def Let_def)

lemma PumpDecoderLocked_contract [simp]:
  "decoder_media_contract (PumpDecoderLocked acc h t) = decoder_media_contract t"
proof (induction acc h t rule: PumpDecoderLocked.induct)
  case (1 acc h t)
  show ?case
  proof (cases "CallbacksAllowed t \<and> decoder t = Some h \<and> input_slots t \<noteq> [] \<and> decode_queue t \<noteq> []")
    case False
    then show ?thesis by (subst PumpDecoderLocked.simps) (simp only: False if_False)
  next
    case True
    then show ?thesis
      using 1(1) [OF True refl refl refl] 1(2) [OF True refl refl refl]
      by (subst PumpDecoderLocked.simps) (auto simp: Let_def)
  qed
qed

lemma SubmitFrame_contract [simp]: "decoder_media_contract (SubmitFrame acc f t) = decoder_media_contract t"
  by (simp add: SubmitFrame_def Let_def case_prod_unfold split: option.split)

lemma SubmitRecovery_contract [simp]:
  "decoder_media_contract (fst (SubmitRecovery acc c y t)) = decoder_media_contract t"
  by (simp add: SubmitRecovery_def Let_def split: option.split)

lemma HandleVideo_contract: "decoder_media_contract (HandleVideo acc data s) = decoder_media_contract s"
proof -
  have recovery: "(case r of (t, True) \<Rightarrow> t | (t, False) \<Rightarrow> RequestKeyframe t) =
      (if snd r then fst r else RequestKeyframe (fst r))" for r :: "'a DecoderSide_scheme \<times> bool"
    by (cases r) (simp split: bool.split)
  show ?thesis
    by (simp add: HandleVideo_def recovery Let_def split: option.split)
qed

lemma callback_contract:
  "decoder_media_contract (DecoderNeedInput acc h slot s) = decoder_media_contract s"
  "decoder_media_contract (DecoderOutput h i attrs ok clock s) = decoder_media_contract s"
  "decoder_media_contract (DecoderError code s) = decoder_media_contract s"
  by (auto simp: DecoderNeedInput_def DecoderOutput_def DecoderError_def Let_def split: option.splits bool.splits)

section \<open>The invariant of the session\<close>

text \<open>The session's own fields are a function of the record's extension.\<close>

lemma more_fields:
  fixes s t :: ReceiverSession
  assumes "DecoderSide.more t = DecoderSide.more s"
  shows "listen_address t = listen_address s" "listen_interface_index t = listen_interface_index s"
    "paired_address t = paired_address s" "device_id t = device_id s"
    "trusted_sender_id t = trusted_sender_id s" "trusted_credential t = trusted_credential s"
    "pairing_record_version t = pairing_record_version s" "pending_session_id t = pending_session_id s"
    "pending_token t = pending_token s" "pending_short_code t = pending_short_code s"
    "consumed_session_id t = consumed_session_id s" "pairing_expires_at t = pairing_expires_at s"
    "latest_source_epoch t = latest_source_epoch s" "active_media_contract t = active_media_contract s"
    "session_desired t = session_desired s" "listener_socket t = listener_socket s"
    "control_socket t = control_socket s" "address_responder t = address_responder s"
    "websocket_decoder t = websocket_decoder s" "socket_out t = socket_out s" "network t = network s"
  using assms by (cases s; cases t; simp)+

lemmas decoder_frame_fields = more_fields [OF conjunct1 [OF decoder_frame_def [THEN iffD1]]]
  conjunct2 [OF decoder_frame_def [THEN iffD1]]

definition session_inv :: "ReceiverSession \<Rightarrow> bool" where
  "session_inv s \<longleftrightarrow> decoder_inv s \<and> responder_inv (address_responder s) \<and>
     active_source_epoch s = latest_source_epoch s \<and> decoder_media_contract s = active_media_contract s"

lemma session_inv_frame:
  assumes "session_inv s" "decoder_frame s t" "decoder_inv t" "decoder_media_contract t = decoder_media_contract s"
  shows "session_inv t"
  using assms decoder_frame_fields [OF assms(2)] by (simp add: session_inv_def)

lemma decoder_inv_session [simp]:
  fixes s :: ReceiverSession
  shows "decoder_inv (s\<lparr>listen_address := a1\<rparr>) = decoder_inv s"
    "decoder_inv (s\<lparr>listen_interface_index := a2\<rparr>) = decoder_inv s"
    "decoder_inv (s\<lparr>paired_address := a3\<rparr>) = decoder_inv s"
    "decoder_inv (s\<lparr>device_id := a4\<rparr>) = decoder_inv s"
    "decoder_inv (s\<lparr>trusted_sender_id := a5\<rparr>) = decoder_inv s"
    "decoder_inv (s\<lparr>trusted_credential := a6\<rparr>) = decoder_inv s"
    "decoder_inv (s\<lparr>pairing_record_version := a7\<rparr>) = decoder_inv s"
    "decoder_inv (s\<lparr>pending_session_id := a8\<rparr>) = decoder_inv s"
    "decoder_inv (s\<lparr>pending_token := a9\<rparr>) = decoder_inv s"
    "decoder_inv (s\<lparr>pending_short_code := b1\<rparr>) = decoder_inv s"
    "decoder_inv (s\<lparr>consumed_session_id := b2\<rparr>) = decoder_inv s"
    "decoder_inv (s\<lparr>pairing_expires_at := b3\<rparr>) = decoder_inv s"
    "decoder_inv (s\<lparr>latest_source_epoch := b4\<rparr>) = decoder_inv s"
    "decoder_inv (s\<lparr>active_media_contract := b5\<rparr>) = decoder_inv s"
    "decoder_inv (s\<lparr>session_desired := b6\<rparr>) = decoder_inv s"
    "decoder_inv (s\<lparr>listener_socket := b7\<rparr>) = decoder_inv s"
    "decoder_inv (s\<lparr>control_socket := b8\<rparr>) = decoder_inv s"
    "decoder_inv (s\<lparr>address_responder := b9\<rparr>) = decoder_inv s"
    "decoder_inv (s\<lparr>websocket_decoder := c1\<rparr>) = decoder_inv s"
    "decoder_inv (s\<lparr>socket_out := c2\<rparr>) = decoder_inv s"
    "decoder_inv (s\<lparr>network := c3\<rparr>) = decoder_inv s"
    "decoder_inv (s\<lparr>active_source_epoch := c4\<rparr>) = decoder_inv s"
    "decoder_inv (s\<lparr>status_detail := c5\<rparr>) = decoder_inv s"
    "decoder_inv (s\<lparr>keyframe_requests_sent := c6\<rparr>) = decoder_inv s"
    "decoder_inv (s\<lparr>received_frames := c7\<rparr>) = decoder_inv s"
    "decoder_inv (s\<lparr>received_bytes := c8\<rparr>) = decoder_inv s"
    "decoder_inv (s\<lparr>frames_decoded := c9\<rparr>) = decoder_inv s"
    "decoder_inv (s\<lparr>frames_dropped := d1\<rparr>) = decoder_inv s"
  by (rule decoder_inv_cong; simp)+

lemma session_inv_simps [simp]:
  "session_inv (SetState st d l c s) = session_inv s"
  "session_inv (CloseControlSocket s) = session_inv s" "session_inv (CloseSockets s) = session_inv s"
  "session_inv (ResetWebsocket s) = session_inv s"
  "session_inv (s\<lparr>network := n\<rparr>) = session_inv s" "session_inv (s\<lparr>session_desired := b\<rparr>) = session_inv s"
  "session_inv (s\<lparr>websocket_decoder := d'\<rparr>) = session_inv s"
  "session_inv (s\<lparr>device_id := i\<rparr>) = session_inv s"
  "session_inv (s\<lparr>listener_socket := fd\<rparr>) = session_inv s"
  by (simp_all add: session_inv_def SetState_def CloseControlSocket_def CloseSockets_def ResetWebsocket_def
      decoder_inv_status [unfolded SetState_def])

lemma SendControl_inv [simp]: "session_inv (fst (SendControl c json s)) = session_inv s"
  by (simp add: SendControl_def session_inv_def Let_def case_prod_unfold)

lemma SendWhole_inv [simp]: "session_inv (fst (SendWhole n bs s)) = session_inv s"
  by (simp add: SendWhole_def session_inv_def)

lemma ClearTelemetry_inv: "session_inv s \<Longrightarrow> session_inv (ClearTelemetry s)"
  by (auto simp: session_inv_def ClearTelemetry_def decoder_inv_def codec_matches_def QueueClear_def
      split: option.splits)

lemma ResetRecovery_inv: "session_inv s \<Longrightarrow> session_inv (ResetRecovery s)"
  by (auto simp: session_inv_def ResetRecovery_def coordinate_def RecoveryReset_def decoder_inv_def
      codec_matches_def feed_matches_def split: option.splits)

lemma responder_update_inv: "session_inv s \<Longrightarrow> responder_inv r \<Longrightarrow> session_inv (s\<lparr>address_responder := r\<rparr>)"
  by (simp add: session_inv_def)

lemma NetworkExit_inv: "session_inv s \<Longrightarrow> session_inv (NetworkExit s)"
  unfolding NetworkExit_def Let_def
  by (simp add: ResetRecovery_inv ClearTelemetry_inv responder_update_inv Stop_inv session_inv_def [of s])
     

lemma session_inv_parts:
  "session_inv s \<Longrightarrow> decoder_inv s" "session_inv s \<Longrightarrow> responder_inv (address_responder s)"
  by (simp_all add: session_inv_def)

lemma trust_ops_inv:
  assumes "session_inv s"
  shows "session_inv (fst (ConfigureTrust deviceId senderId credential version s))"
    "session_inv (fst (AuthorizeQr now sessionId token expiresAtMs s))"
    "session_inv (fst (AuthorizeShortCode now shortCode s))" "session_inv (ForgetDevice s)"
  using assms
  by (simp_all add: ConfigureTrust_def AuthorizeQr_def AuthorizeShortCode_def ForgetDevice_def Let_def)
     (simp_all add: session_inv_def)

lemma refuse_inv [simp]: "session_inv (fst (snd (refuse env code l s))) = session_inv s"
  by (simp add: refuse_def sendError_def)

lemma OnPairChallenge_inv: "session_inv s \<Longrightarrow> session_inv (fst (snd (OnPairChallenge env json l s)))"
  by (simp add: OnPairChallenge_def Let_def case_prod_unfold split: sum.split)

lemma OnPairFinal_inv:
  assumes "session_inv s"
  shows "session_inv (fst (snd (OnPairFinal env json l s)))"
proof -
  have "session_inv (fst (pair_final_decision env i t n d s))" for i t n d
    using assms by (simp add: pair_final_decision_def session_inv_def split: PairingAuthorizationResult.split)
  then show ?thesis
    using assms by (simp add: OnPairFinal_def Let_def case_prod_unfold)
qed

lemma OnAuthChallenge_inv: "session_inv s \<Longrightarrow> session_inv (fst (snd (OnAuthChallenge env json l s)))"
  by (simp add: OnAuthChallenge_def Let_def case_prod_unfold split: option.split)

lemma prepare_decoder_result:
  assumes "session_inv s"
    and prep: "prepare_decoder res (active_media_contract s) contract (take_source epoch contract s) = (t, ok)"
  shows "decoder_frame (take_source epoch contract s) t" "decoder_inv t"
    "decoder_media_contract t = (if ok then contract else active_media_contract s)"
    "ok \<Longrightarrow> session_inv t"
    "\<not> ok \<Longrightarrow> session_inv (t\<lparr>latest_source_epoch := latest_source_epoch s,
       active_source_epoch := latest_source_epoch s, active_media_contract := active_media_contract s\<rparr>)"
proof -
  let ?s = "take_source epoch contract s"
  have inv: "decoder_inv ?s" and m: "decoder_media_contract ?s = active_media_contract s"
    using assms(1) by (simp_all add: session_inv_def take_source_def)
  show f: "decoder_frame ?s t" and d: "decoder_inv t"
    using prep FlushDecoder_frame [of ?s res] ReconfigureDecoder_frame [of ?s res contract]
      FlushDecoder_inv [OF inv, of res] ReconfigureDecoder_inv [OF inv, of res contract]
    by (auto simp: prepare_decoder_def split: if_splits)
  show c: "decoder_media_contract t = (if ok then contract else active_media_contract s)"
    using prep m FlushDecoder_contract [of res ?s] ReconfigureDecoder_contract [of res contract ?s]
    by (auto simp: prepare_decoder_def split: if_splits)
  note fields = decoder_frame_fields [OF f]
  show "session_inv t" if ok
    using d c fields assms(1) that by (simp add: session_inv_def take_source_def)
  show "session_inv (t\<lparr>latest_source_epoch := latest_source_epoch s,
       active_source_epoch := latest_source_epoch s, active_media_contract := active_media_contract s\<rparr>)" if "\<not> ok"
    using d c fields assms(1) that by (simp add: session_inv_def take_source_def)
qed

text \<open>\<open>OnAuthFinal\<close> in these terms; the invariant makes the code's check before the rollback true.\<close>

lemma OnAuthFinal_cases:
  assumes "session_inv s"
  obtains (refused) code where "OnAuthFinal env json l s = refuse env code l s"
  | (rolled_back) t where "auth_final_matches json (authChallenge l)" "auth_trusted json s"
      "prepare_decoder (codec_results env) (active_media_contract s) (auth_mediaContract (authChallenge l))
         (take_source (auth_sourceEpoch (authChallenge l)) (auth_mediaContract (authChallenge l)) s) = (t, False)"
      "OnAuthFinal env json l s = refuse env ''decoder_configuration_failed'' l
         (t\<lparr>latest_source_epoch := latest_source_epoch s, active_source_epoch := latest_source_epoch s,
            active_media_contract := active_media_contract s\<rparr>)"
  | (prepared) t u ok where "auth_final_matches json (authChallenge l)" "auth_trusted json s"
      "EvaluateSourceContract (auth_sourceEpoch (authChallenge l)) (auth_mediaContract (authChallenge l))
         (latest_source_epoch s) (active_media_contract s) = SourceAccepted"
      "prepare_decoder (codec_results env) (active_media_contract s) (auth_mediaContract (authChallenge l))
         (take_source (auth_sourceEpoch (authChallenge l)) (auth_mediaContract (authChallenge l)) s) = (t, True)"
      "SendControl (reply_send env)
         (ready_reply (auth_sourceEpoch (authChallenge l)) (auth_mediaContract (authChallenge l))) t = (u, ok)"
      "OnAuthFinal env json l s =
         (if ok then (l, SetState StateConnected SenderConnected True True u, Ended True) else (l, u, Ended False))"
proof -
  let ?c = "authChallenge l"
  let ?e = "auth_sourceEpoch ?c" and ?m = "auth_mediaContract ?c"
  let ?d = "EvaluateSourceContract ?e ?m (latest_source_epoch s) (active_media_contract s)"
  obtain t ok where prep: "prepare_decoder (codec_results env) (active_media_contract s) ?m (take_source ?e ?m s) = (t, ok)"
    by fastforce
  have fields: "active_source_epoch t = ?e" "active_media_contract t = ?m"
    using decoder_frame_fields [OF prepare_decoder_result(1) [OF assms prep]] by (simp_all add: take_source_def)
  obtain u sent_ok where send: "SendControl (reply_send env) (ready_reply ?e ?m) t = (u, sent_ok)"
    by fastforce
  show ?thesis
  proof (cases "auth_final_matches json ?c \<and> auth_trusted json s \<and> ?d = SourceAccepted")
    case False
    then consider "\<not> auth_final_matches json ?c" | "auth_final_matches json ?c" "\<not> auth_trusted json s"
      | "auth_final_matches json ?c" "auth_trusted json s" "?d = EpochStale"
      | "auth_final_matches json ?c" "auth_trusted json s" "?d = EpochContractMismatch"
      by (cases ?d) auto
    then have "\<exists>code. OnAuthFinal env json l s = refuse env code l s"
      by cases (auto simp: OnAuthFinal_def Let_def)
    then show ?thesis using refused by blast
  next
    case True
    then show ?thesis
      using rolled_back [of t] prepared [of t u sent_ok] prep fields send
      by (cases ok; cases sent_ok) (simp_all add: OnAuthFinal_def Let_def)
  qed
qed

lemma OnAuthFinal_inv:
  assumes "session_inv s"
  shows "session_inv (fst (snd (OnAuthFinal env json l s)))"
  using assms
proof (cases rule: OnAuthFinal_cases [of s env json l])
  case (rolled_back t)
  then show ?thesis using prepare_decoder_result(5) [OF assms rolled_back(3)] by simp
next
  case (prepared t u ok)
  then show ?thesis
    using prepare_decoder_result(4) [OF assms prepared(4)]
      SendControl_inv [of "reply_send env" "ready_reply (auth_sourceEpoch (authChallenge l)) (auth_mediaContract (authChallenge l))" t]
    by simp
next
  case (refused code)
  then show ?thesis using assms by simp
qed

text \<open>A message is refused at once or handled by one of the five parts of the dialogue.\<close>

lemma AuthenticateMessage_cases:
  obtains (refused) code where "AuthenticateMessage env m l s = refuse env code l s"
  | (manual) "AuthenticateMessage env m l s =
        OnPairFinal env (chars_of (payload m)) (begin_manual (chars_of (payload m)) l s) s" "stage l = kInitial"
  | (pair_challenge) "AuthenticateMessage env m l s = OnPairChallenge env (chars_of (payload m)) l s" "stage l = kInitial"
  | (pair_final) "AuthenticateMessage env m l s = OnPairFinal env (chars_of (payload m)) l s" "stage l = kPairFinal"
  | (auth_challenge) "AuthenticateMessage env m l s = OnAuthChallenge env (chars_of (payload m)) l s" "stage l = kInitial"
  | (auth_final) "AuthenticateMessage env m l s = OnAuthFinal env (chars_of (payload m)) l s" "stage l = kAuthFinal"
proof -
  let ?json = "chars_of (payload m)"
  have "(\<exists>code. AuthenticateMessage env m l s = refuse env code l s) \<or>
      AuthenticateMessage env m l s = OnPairFinal env ?json (begin_manual ?json l s) s \<and> stage l = kInitial \<or>
      AuthenticateMessage env m l s = OnPairChallenge env ?json l s \<and> stage l = kInitial \<or>
      AuthenticateMessage env m l s = OnPairFinal env ?json l s \<and> stage l = kPairFinal \<or>
      AuthenticateMessage env m l s = OnAuthChallenge env ?json l s \<and> stage l = kInitial \<or>
      AuthenticateMessage env m l s = OnAuthFinal env ?json l s \<and> stage l = kAuthFinal"
    by (cases "stage l") (auto simp: AuthenticateMessage_def Let_def)
  then show ?thesis using that by blast
qed

lemma AuthenticateMessage_inv:
  assumes "session_inv s"
  shows "session_inv (fst (snd (AuthenticateMessage env m l s)))"
  by (cases rule: AuthenticateMessage_cases [of env m l s])
     (simp_all add: assms OnPairFinal_inv OnPairChallenge_inv OnAuthChallenge_inv OnAuthFinal_inv)

lemma AuthenticateMessages_inv:
  "session_inv s \<Longrightarrow> session_inv (fst (snd (AuthenticateMessages envs ms l s)))"
proof (induction ms arbitrary: envs l s)
  case (Cons m ms)
  obtain l' s' r where step: "AuthenticateMessage (envs 0) m l s = (l', s', r)"
    using prod_cases3 by blast
  then have "session_inv s'"
    using AuthenticateMessage_inv [OF Cons.prems, of "envs 0" m l] by simp
  then show ?case using step Cons.IH by (cases r) simp_all
qed simp

lemma AuthenticateChunk_inv:
  "session_inv s \<Longrightarrow> session_inv (fst (snd (AuthenticateChunk envs data l s)))"
  by (simp add: AuthenticateChunk_def AuthenticateMessages_inv Let_def case_prod_unfold)

lemma HandleVideo_session_inv: "session_inv s \<Longrightarrow> session_inv (HandleVideo acc data s)"
  by (rule session_inv_frame)
     (simp_all add: HandleVideo_frame HandleVideo_inv HandleVideo_contract session_inv_parts)

lemma SessionMessage_inv: "session_inv s \<Longrightarrow> session_inv (fst (SessionMessage env m s))"
  by (auto simp: SessionMessage_def HandleControl_def HandleVideo_session_inv split: option.split)

lemma SessionMessages_inv: "session_inv s \<Longrightarrow> session_inv (fst (SessionMessages envs ms s))"
proof (induction ms arbitrary: envs s)
  case (Cons m ms)
  obtain s' ok where step: "SessionMessage (envs 0) m s = (s', ok)"
    by fastforce
  then have "session_inv s'"
    using SessionMessage_inv [OF Cons.prems, of "envs 0" m] by simp
  then show ?case using step Cons.IH by (cases ok) simp_all
qed simp

lemma SessionChunk_inv: "session_inv s \<Longrightarrow> session_inv (fst (SessionChunk envs data s))"
  by (simp add: SessionChunk_def SessionMessages_inv Let_def case_prod_unfold)

lemma TryPop_bounds: "capacity (fst (TryPop q)) = capacity q" "length (messages (fst (TryPop q))) \<le> length (messages q)"
  by (simp_all add: TryPop_def split: list.split)

lemma popped_inv: "session_inv s \<Longrightarrow> session_inv (s\<lparr>telemetry := fst (TryPop (telemetry s))\<rparr>)"
  using TryPop_bounds [of "telemetry s"]
  by (auto simp: session_inv_def decoder_inv_def codec_matches_def split: option.splits)

lemma consumed_inv:
  "session_inv s \<Longrightarrow> session_inv (s\<lparr>decoder_recovery := fst (ConsumeKeyFrameRequest (decoder_recovery s))\<rparr>)"
  by (auto simp: session_inv_def decoder_inv_def codec_matches_def ConsumeKeyFrameRequest_def split: option.splits)

lemma keyframes_sent_inv: "session_inv s \<Longrightarrow> session_inv (s\<lparr>keyframe_requests_sent := n\<rparr>)"
  by (simp add: session_inv_def)

lemma SendControl_result_inv: "SendControl c json s = (t, ok) \<Longrightarrow> session_inv s \<Longrightarrow> session_inv t"
  using SendControl_inv [of c json s] by simp

lemma SendKeyframeRequest_inv:
  assumes "session_inv s"
  shows "session_inv (fst (SendKeyframeRequest c s))"
  using consumed_inv [OF assms] SendControl_result_inv
  by (auto simp: SendKeyframeRequest_def Let_def case_prod_unfold keyframes_sent_inv split: bool.splits)

lemma SendTelemetry_inv:
  assumes "session_inv s"
  shows "session_inv (fst (SendTelemetry c s))"
  using popped_inv [OF assms] by (auto simp: SendTelemetry_def split: prod.split option.split)

lemma SessionRequests_inv: "session_inv s \<Longrightarrow> session_inv (fst (SessionRequests k t s))"
  using SendKeyframeRequest_inv [of s k] by (auto simp: SessionRequests_def SendTelemetry_inv split: prod.splits bool.splits)

lemma ContinueWithCurrentAddress_inv:
  "session_inv s \<Longrightarrow> session_inv (fst (ContinueWithCurrentAddress interfaces s))"
  by (simp add: ContinueWithCurrentAddress_def Let_def responder_update_inv Stop_inv session_inv_parts)

lemma IterationEnd_inv: "session_inv s \<Longrightarrow> session_inv (IterationEnd s)"
  by (simp add: IterationEnd_def Let_def)

lemma NetworkBegin_inv: "session_inv s \<Longrightarrow> session_inv (NetworkBegin interfaces fd bound listens rs s)"
  by (auto simp: NetworkBegin_def OpenListener_def Let_def responder_update_inv Start_inv session_inv_parts
      split: bool.splits)

lemma AcceptWebSocket_inv:
  assumes "session_inv s"
  shows "session_inv (AcceptWebSocket client events returned s)"
proof -
  have upgrade: "session_inv (fst (ReadUpgrade events returned t))" if "session_inv t" for t
    using that by (auto simp: ReadUpgrade_def split: option.split bool.split)
  have "session_inv (s\<lparr>control_socket := fd, socket_out := [], paired_address := p\<rparr>)" for fd p
    using assms by (simp add: session_inv_def)
  from upgrade [OF this] show ?thesis
    using assms by (auto simp: AcceptWebSocket_def Let_def IterationEnd_inv split: option.split prod.splits bool.split)
      (metis fst_conv IterationEnd_inv)+
qed

lemma AcceptIteration_inv: "session_inv s \<Longrightarrow> session_inv (AcceptIteration interfaces client events returned s)"
  using ContinueWithCurrentAddress_inv [of s interfaces]
  by (auto simp: AcceptIteration_def NetworkExit_inv AcceptWebSocket_inv split: prod.splits bool.splits)

lemma AuthenticateIteration_inv:
  assumes "session_inv s"
  shows "session_inv (AuthenticateIteration expired received envs l s)"
proof -
  have "session_inv t" if "AuthenticateChunk envs data l s = (l', t, r)" for data l' t r
    using AuthenticateChunk_inv [OF assms, of envs data l] that by simp
  then show ?thesis
    using assms by (auto simp: AuthenticateIteration_def IterationEnd_inv
        split: recv_result.split prod.split dialogue_result.split bool.split)
qed

lemma SessionReceive_inv: "session_inv s \<Longrightarrow> session_inv (fst (SessionReceive received envs s))"
  by (simp add: SessionReceive_def SessionChunk_inv split: recv_result.split)

lemma SessionIteration_inv:
  assumes "session_inv s"
  shows "session_inv (SessionIteration interfaces received envs k t s)"
proof (cases "session_desired s")
  case True
  obtain u b where u: "ContinueWithCurrentAddress interfaces s = (u, b)" by fastforce
  obtain v c where v: "SessionReceive received envs u = (v, c)" by fastforce
  obtain w d where w: "SessionRequests k t v = (w, d)" by fastforce
  have "session_inv u" using ContinueWithCurrentAddress_inv [OF assms, of interfaces] u by simp
  moreover from this have "session_inv v" using SessionReceive_inv [of u received envs] v by simp
  moreover from this have "session_inv w" using SessionRequests_inv [of v k t] w by simp
  ultimately show ?thesis
    using True u v w
    by (cases b; cases c; cases d) (simp_all add: SessionIteration_def IterationEnd_inv)
qed (simp add: SessionIteration_def IterationEnd_inv assms)

lemma StopSession_inv: "session_inv s \<Longrightarrow> session_inv (StopSession s)"
  by (simp add: StopSession_def Let_def ResetRecovery_inv ClearTelemetry_inv responder_update_inv Stop_inv
      NetworkExit_inv session_inv_parts)

lemma StartSession_inv:
  assumes "session_inv s"
  shows "session_inv (fst (StartSession interfaces generated address s))"
proof -
  have counters: "session_inv (u\<lparr>listen_address := address, listen_interface_index := i, paired_address := '''',
      frames_decoded := 0, frames_dropped := 0, received_frames := 0, received_bytes := 0,
      decoder_resync_events := 0, keyframe_requests_sent := 0\<rparr>)" if "session_inv u" for u i
    using that by (simp add: session_inv_def)
  show ?thesis
    using StopSession_inv [OF assms] assms
    by (auto simp: StartSession_def Let_def intro!: ResetRecovery_inv counters split: option.splits)
qed

lemma session_step_inv: "session_inv s \<Longrightarrow> session_inv (session_step e s)"
proof (cases e)
  case (SurfaceCall res ev)
  assume "session_inv s"
  then show ?thesis
    unfolding SurfaceCall session_step.simps
    by (rule session_inv_frame)
       (use \<open>session_inv s\<close> in \<open>simp_all add: OnSurfaceEvent_frame OnSurfaceEvent_inv OnSurfaceEvent_contract session_inv_parts\<close>)
next
  case (CodecNeedsInput acc h slot)
  assume "session_inv s"
  then show ?thesis
    unfolding CodecNeedsInput session_step.simps
    by (rule session_inv_frame)
       (use \<open>session_inv s\<close> in \<open>simp_all add: DecoderNeedInput_frame DecoderNeedInput_inv callback_contract session_inv_parts\<close>)
next
  case (CodecOutputs h i attrs ok clock)
  assume "session_inv s"
  then show ?thesis
    unfolding CodecOutputs session_step.simps
    by (rule session_inv_frame)
       (use \<open>session_inv s\<close> in \<open>simp_all add: DecoderOutput_frame DecoderOutput_inv callback_contract session_inv_parts\<close>)
next
  case (CodecOutputAdvances i)
  assume "session_inv s"
  then show ?thesis
    unfolding CodecOutputAdvances session_step.simps
    by (rule session_inv_frame)
       (use \<open>session_inv s\<close> in \<open>simp_all add: DecoderOutput_advance_same DecoderOutput_advance_inv session_inv_parts\<close>)
next
  case (CodecFails code)
  assume "session_inv s"
  then show ?thesis
    unfolding CodecFails session_step.simps
    by (rule session_inv_frame)
       (use \<open>session_inv s\<close> in \<open>simp_all add: DecoderError_frame DecoderError_inv callback_contract session_inv_parts\<close>)
next
  case (ResponderIterates now result send_ok restart)
  assume "session_inv s"
  then show ?thesis
    unfolding ResponderIterates session_step.simps
    by (intro responder_update_inv responder_step_inv) (simp_all add: session_inv_parts)
qed (auto simp: StartSession_inv StopSession_inv trust_ops_inv NetworkBegin_inv AcceptIteration_inv
    AuthenticateIteration_inv SessionIteration_inv split: network_position.split)

lemma newSession_inv: "session_inv newSession"
proof -
  have "decoder_inv newSession = decoder_inv newDecoderSide"
    by (simp add: newSession_def DecoderSide.defs ReceiverSession.defs newDecoderSide_def decoder_inv_def
        codec_matches_def)
  then show ?thesis
    using newDecoderSide_inv newResponder_inv
    by (simp add: session_inv_def) (simp add: newSession_def DecoderSide.defs ReceiverSession.defs newDecoderSide_def)
qed

interpretation receiver: invariant_system newSession session_step session_inv
  by unfold_locales (rule newSession_inv, rule session_step_inv)

lemma session_run_inv: "session_inv (session_run events)"
  unfolding session_run_def by (rule receiver.inv_run)

end
