(* ===== verification/Receiver_Trust.thy ===== *)
theory Receiver_Trust
  imports Receiver_Session
begin

text \<open>
  What a run of the receiver session (\<open>receiver/entry/src/main/cpp/receiver_session.cpp\<close>) does to
  its trust: which calls change the trusted sender, how a pairing uses up its authorization, what a
  connected session presupposes, in which order sources succeed each other, and that the trusted
  sender's dialogue does end in a connected session. The sender's two messages are those of
  \<open>extension/direct-client.js\<close>.
\<close>

section \<open>Who changes the trust store and the source\<close>

definition trust :: "ReceiverSession \<Rightarrow> string \<times> string \<times> u64" where
  "trust s = (trusted_sender_id s, trusted_credential s, pairing_record_version s)"

definition authorization :: "ReceiverSession \<Rightarrow> string \<times> string \<times> string \<times> string \<times> int" where
  "authorization s =
     (pending_session_id s, pending_token s, pending_short_code s, consumed_session_id s, pairing_expires_at s)"

definition source :: "ReceiverSession \<Rightarrow> u32 \<times> MediaContract" where
  "source s = (latest_source_epoch s, active_media_contract s)"

definition same_store :: "ReceiverSession \<Rightarrow> ReceiverSession \<Rightarrow> bool" where
  "same_store s t \<longleftrightarrow> trust t = trust s \<and> authorization t = authorization s \<and> source t = source s
     \<and> device_id t = device_id s"

lemmas store_defs = trust_def authorization_def source_def same_store_def

lemma same_store_refl [simp]: "same_store s s"
  by (simp add: same_store_def)

lemma same_store_trans: "same_store s t \<Longrightarrow> same_store t u \<Longrightarrow> same_store s u"
  by (simp add: same_store_def)

lemma decoder_frame_store: "decoder_frame s t \<Longrightarrow> same_store s t"
  using decoder_frame_fields [of s t] by (simp add: store_defs)

lemma same_store_simps [simp]:
  "same_store s (SetState st d l c t) = same_store s t" "same_store s (CloseControlSocket t) = same_store s t"
  "same_store s (CloseSockets t) = same_store s t" "same_store s (ResetWebsocket t) = same_store s t"
  "same_store s (ClearTelemetry t) = same_store s t" "same_store s (ResetRecovery t) = same_store s t"
  "same_store s (t\<lparr>network := n\<rparr>) = same_store s t" "same_store s (t\<lparr>session_desired := b\<rparr>) = same_store s t"
  "same_store s (t\<lparr>websocket_decoder := w\<rparr>) = same_store s t"
  "same_store s (t\<lparr>address_responder := r\<rparr>) = same_store s t"
  "same_store s (t\<lparr>telemetry := q\<rparr>) = same_store s t"
  "same_store s (t\<lparr>decoder_recovery := rc\<rparr>) = same_store s t"
  "same_store s (t\<lparr>keyframe_requests_sent := k\<rparr>) = same_store s t"
  "same_store s (t\<lparr>control_socket := fd\<rparr>) = same_store s t" "same_store s (t\<lparr>listener_socket := lf\<rparr>) = same_store s t"
  "same_store s (t\<lparr>socket_out := so\<rparr>) = same_store s t" "same_store s (t\<lparr>paired_address := pa\<rparr>) = same_store s t"
  "same_store s (t\<lparr>listen_address := la\<rparr>) = same_store s t"
  "same_store s (t\<lparr>listen_interface_index := li\<rparr>) = same_store s t"
  by (simp_all add: store_defs SetState_def CloseControlSocket_def CloseSockets_def ResetWebsocket_def
      ClearTelemetry_def ResetRecovery_def coordinate_def)

lemma SendControl_store [simp]: "same_store s (fst (SendControl c json t)) = same_store s t"
  by (simp add: SendControl_def Let_def case_prod_unfold)

lemma SendWhole_store [simp]: "same_store s (fst (SendWhole n bs t)) = same_store s t"
  by (simp add: SendWhole_def)

lemma refuse_store [simp]: "same_store s (fst (snd (refuse env code l t))) = same_store s t"
  by (simp add: refuse_def sendError_def)

lemma challenge_store:
  "same_store s (fst (snd (OnPairChallenge env json l s)))" "same_store s (fst (snd (OnAuthChallenge env json l s)))"
  by (simp_all add: OnPairChallenge_def OnAuthChallenge_def Let_def case_prod_unfold split: sum.split option.split)

lemma HandleVideo_store [simp]: "same_store s (HandleVideo acc data s)"
  by (rule decoder_frame_store) (rule HandleVideo_frame)

lemma SessionMessage_store: "same_store s (fst (SessionMessage env m s))"
  by (simp add: SessionMessage_def HandleControl_def split: option.split)

lemma SessionMessages_store: "same_store s (fst (SessionMessages envs ms s))"
proof (induction ms arbitrary: envs s)
  case (Cons m ms)
  obtain t ok where step: "SessionMessage (envs 0) m s = (t, ok)"
    by fastforce
  have "same_store s t"
    using SessionMessage_store [of s "envs 0" m] step by simp
  then show ?case
    using step Cons.IH [of t "\<lambda>i. envs (Suc i)"] same_store_trans by (cases ok) auto
qed simp

lemma SessionReceive_store: "same_store s (fst (SessionReceive received envs s))"
proof -
  have "same_store s (fst (SessionMessages envs ms (s\<lparr>websocket_decoder := d\<rparr>)))" for ms d
    by (rule same_store_trans [OF _ SessionMessages_store]) simp
  then show ?thesis
    by (simp add: SessionReceive_def SessionChunk_def Let_def case_prod_unfold split: recv_result.split)
qed

lemma SessionRequests_store: "same_store s (fst (SessionRequests k t s))"
proof -
  have key: "same_store s (fst (SendKeyframeRequest k s))"
  proof -
    have "same_store s u" if "SendControl k keyframe_request (s\<lparr>decoder_recovery := r\<rparr>) = (u, ok)" for r u ok
      using SendControl_store [of s k keyframe_request "s\<lparr>decoder_recovery := r\<rparr>"] that by simp
    then show ?thesis
      by (auto simp: SendKeyframeRequest_def Let_def split: prod.split bool.split)
  qed
  have tele: "same_store u (fst (SendTelemetry t u))" for u
    by (simp add: SendTelemetry_def split: prod.split option.split)
  show ?thesis
    using key tele same_store_trans
    by (cases "SendKeyframeRequest k s"; cases "snd (SendKeyframeRequest k s)")
       (auto simp: SessionRequests_def)
qed

lemma IterationEnd_store [simp]: "same_store s (IterationEnd t) = same_store s t"
  by (simp add: IterationEnd_def Let_def)

lemma NetworkExit_store [simp]: "same_store s (NetworkExit t) = same_store s t"
  by (simp add: NetworkExit_def Let_def)

lemma ContinueWithCurrentAddress_store: "same_store s (fst (ContinueWithCurrentAddress interfaces s))"
  by (simp add: ContinueWithCurrentAddress_def Let_def)

lemma SessionIteration_store: "same_store s (SessionIteration interfaces received envs k t s)"
proof (cases "session_desired s")
  case True
  obtain u b where u: "ContinueWithCurrentAddress interfaces s = (u, b)" by fastforce
  obtain v c where v: "SessionReceive received envs u = (v, c)" by fastforce
  obtain w d where w: "SessionRequests k t v = (w, d)" by fastforce
  have su: "same_store s u" using ContinueWithCurrentAddress_store [of s interfaces] u by simp
  have uv: "same_store u v" using SessionReceive_store [of u received envs] v by simp
  have vw: "same_store v w" using SessionRequests_store [of v k t] w by simp
  have sv: "same_store s v" by (rule same_store_trans [OF su uv])
  have sw: "same_store s w" by (rule same_store_trans [OF sv vw])
  show ?thesis
    using True u v w su sv sw by (cases b; cases c; cases d) (simp_all add: SessionIteration_def)
qed (simp add: SessionIteration_def)

lemma NetworkBegin_store: "same_store s (NetworkBegin interfaces fd bound listens rs s)"
  by (auto simp: NetworkBegin_def OpenListener_def Let_def split: bool.splits)

lemma AcceptIteration_store: "same_store s (AcceptIteration interfaces client events returned s)"
proof -
  have upgrade: "same_store t (fst (ReadUpgrade events returned t))" for t
    by (simp add: ReadUpgrade_def split: option.split bool.split)
  have "same_store t (AcceptWebSocket client events returned t)" for t
  proof (cases client)
    case (Some c)
    obtain fd peer where c: "c = (fd, peer)" by fastforce
    let ?t = "t\<lparr>control_socket := fd, socket_out := [], paired_address := Ipv4Text peer\<rparr>"
    have "same_store t (fst (ReadUpgrade events returned ?t))"
      using same_store_trans [OF _ upgrade, of t ?t] by simp
    then show ?thesis
      using Some c
      by (cases "ReadUpgrade events returned ?t"; cases "snd (ReadUpgrade events returned ?t)")
         (auto simp: AcceptWebSocket_def Let_def)
  qed (simp add: AcceptWebSocket_def)
  note accept = this
  obtain u b where u: "ContinueWithCurrentAddress interfaces s = (u, b)" by fastforce
  have su: "same_store s u" using ContinueWithCurrentAddress_store [of s interfaces] u by simp
  have "same_store s (AcceptWebSocket client events returned u)"
    by (rule same_store_trans [OF su accept])
  then show ?thesis
    using u su by (cases b) (simp_all add: AcceptIteration_def)
qed

lemma StopSession_store [simp]: "same_store s (StopSession s)"
  by (simp add: StopSession_def Let_def)

section \<open>Sending whole frames\<close>

lemma SendControl_loop_prefix:
  "SendControl_loop frame script = (out, ok) \<Longrightarrow> (\<exists>rest. frame = out @ rest) \<and> (ok \<longleftrightarrow> out = frame)"
proof (induction frame script arbitrary: out ok rule: SendControl_loop.induct)
  case (1 frame script)
  note step = SendControl_loop.simps [of frame script]
  show ?case
  proof (cases "frame = []")
    case True
    then show ?thesis using 1(4) unfolding step by simp
  next
    case ne: False
    show ?thesis
    proof (cases script)
      case Nil
      then show ?thesis using 1(4) ne unfolding step by simp
    next
      case (Cons r rest)
      show ?thesis
      proof (cases r)
        case (SentBytes n)
        show ?thesis
        proof (cases "n = 0")
          case True
          then show ?thesis using 1(4) ne Cons SentBytes unfolding step by simp
        next
          case False
          obtain o' k where rec: "SendControl_loop (drop n frame) rest = (o', k)" by fastforce
          have out: "out = take n frame @ o'" "ok = k"
            using 1(4) ne Cons SentBytes False rec unfolding step by simp_all
          obtain z where "drop n frame = o' @ z" "k \<longleftrightarrow> o' = drop n frame"
            using 1(1) [OF ne Cons SentBytes False rec] by blast
          then show ?thesis
            unfolding out
            by (metis append.assoc append_same_eq append_take_drop_id same_append_eq)
        qed
      next
        case SendInterrupted
        then show ?thesis using 1(2,4) ne Cons unfolding step by simp
      next
        case (SendWouldBlock w)
        then show ?thesis using 1(3,4) ne Cons unfolding step by (cases w) simp_all
      next
        case SendFailed
        then show ?thesis using 1(4) ne Cons unfolding step by simp
      qed
    qed
  qed
qed

lemma SendControl_sent:
  assumes "SendControl c json s = (t, ok)"
  shows "\<exists>out rest. socket_out t = socket_out s @ out \<and> EncodeFrame kText json = out @ rest \<and> (ok \<longrightarrow> rest = [])"
proof -
  obtain out k where loop: "SendControl_loop (EncodeFrame kText json) (send_script c) = (out, k)" by fastforce
  have "(\<exists>rest. EncodeFrame kText json = out @ rest) \<and> (k \<longleftrightarrow> out = EncodeFrame kText json)"
    by (rule SendControl_loop_prefix [OF loop])
  then show ?thesis
    using assms loop by (auto simp: SendControl_def Let_def split: if_splits)
qed

section \<open>What the dialogue can do to the store\<close>

text \<open>
  A pairing the store permits: the authorization check accepts what the message brings, its sender
  becomes the trusted one, and everything pending is used up.
\<close>

definition pairing_granted :: "MessageEnv \<Rightarrow> string \<Rightarrow> ReceiverSession \<Rightarrow> ReceiverSession \<Rightarrow> bool" where
  "pairing_granted env json s t \<longleftrightarrow>
     EvaluatePairingAuthorization (field json ''sessionId'') (field json ''token'') (pending_session_id s)
       (pending_token s) (pending_short_code s) (consumed_session_id s)
       (to_milliseconds (pairing_expires_at s)) (to_milliseconds (wall_clock env)) = PairAccepted \<and>
     Hex (field json ''token'') 64 \<and> trusted_sender_id t = field json ''senderId'' \<and>
     trusted_credential t = fresh_credential env \<and> fresh_credential env \<noteq> '''' \<and>
     consumed_session_id t = field json ''sessionId'' \<and> pairing_record_version t = pairing_record_version s + 1 \<and>
     pending_session_id t = '''' \<and> pending_token t = '''' \<and> pending_short_code t = '''' \<and>
     source t = source s \<and> device_id t = device_id s"

text \<open>A source the store permits: the dialogue's final message matched its challenge and the trust.\<close>

definition source_accepted :: "string \<Rightarrow> AuthChallengeState \<Rightarrow> ReceiverSession \<Rightarrow> ReceiverSession \<Rightarrow> bool" where
  "source_accepted json c s t \<longleftrightarrow>
     auth_final_matches json c \<and> auth_trusted json s \<and>
     EvaluateSourceContract (auth_sourceEpoch c) (auth_mediaContract c) (latest_source_epoch s)
       (active_media_contract s) = SourceAccepted \<and>
     source t = (auth_sourceEpoch c, auth_mediaContract c) \<and> trust t = trust s \<and>
     authorization t = authorization s \<and> device_id t = device_id s"

definition ready_sent :: "AuthChallengeState \<Rightarrow> ReceiverSession \<Rightarrow> bool" where
  "ready_sent c t \<longleftrightarrow> (\<exists>before. socket_out t = before @
     EncodeFrame kText (ready_reply (auth_sourceEpoch c) (auth_mediaContract c)))"

text \<open>The result of a message: nothing stored, a pairing, or a source, and when the dialogue ends well.\<close>

type_synonym heard_messages = "(MessageEnv \<times> string) set"

definition dialogue_effect ::
    "heard_messages \<Rightarrow> ReceiverSession \<Rightarrow> ReceiverSession \<Rightarrow> dialogue_result \<Rightarrow> bool" where
  "dialogue_effect H s t r \<longleftrightarrow>
     same_store s t \<and> r \<noteq> Ended True \<or>
     (\<exists>env json. (env, json) \<in> H \<and> pairing_granted env json s t) \<and> r = Ended False \<or>
     (\<exists>env json c. (env, json) \<in> H \<and> source_accepted json c s t \<and> (r = Ended True \<longrightarrow> ready_sent c t)) \<and> r \<noteq> GoOn"

lemma dialogue_effect_mono: "dialogue_effect H s t r \<Longrightarrow> H \<subseteq> H' \<Longrightarrow> dialogue_effect H' s t r"
  unfolding dialogue_effect_def by blast

text \<open>The text messages in a sequence of messages, and in what one call of \<open>recv\<close> returns.\<close>

definition texts_of :: "(nat \<Rightarrow> MessageEnv) \<Rightarrow> Message list \<Rightarrow> heard_messages" where
  "texts_of envs ms = {(envs i, chars_of (payload (ms ! i))) | i. i < length ms}"

definition heard :: "recv_result \<Rightarrow> (nat \<Rightarrow> MessageEnv) \<Rightarrow> ReceiverSession \<Rightarrow> heard_messages" where
  "heard received envs s =
     (case received of RecvData data \<Rightarrow> texts_of envs (snd (snd (Push (websocket_decoder s) data))) | _ \<Rightarrow> {})"

lemma texts_of_Cons: "texts_of envs (m # ms) = insert (envs 0, chars_of (payload m)) (texts_of (\<lambda>i. envs (Suc i)) ms)"
proof -
  have "{f i | i. i < Suc n} = insert (f 0) {f (Suc i) | i. i < n}" for f :: "nat \<Rightarrow> MessageEnv \<times> string" and n
    by (auto simp: less_Suc_eq_0_disj)
  from this [of "\<lambda>i. (envs i, chars_of (payload ((m # ms) ! i)))" "length ms"]
  show ?thesis by (simp add: texts_of_def)
qed

lemma pairing_granted_cong:
  assumes "same_store s s'"
  shows "pairing_granted env json s t = pairing_granted env json s' t"
  using assms by (simp add: pairing_granted_def store_defs)

lemma source_accepted_cong:
  assumes "same_store s s'"
  shows "source_accepted json c s t = source_accepted json c s' t"
  using assms by (simp add: source_accepted_def store_defs auth_trusted_def)

lemma dialogue_effect_from:
  "same_store s s' \<Longrightarrow> dialogue_effect H s' t r \<Longrightarrow> dialogue_effect H s t r"
  unfolding dialogue_effect_def
  using same_store_trans pairing_granted_cong source_accepted_cong by blast

lemma refuse_effect: "dialogue_effect H s (fst (snd (refuse env code l s))) (snd (snd (refuse env code l s)))"
  by (simp add: dialogue_effect_def) (simp add: refuse_def)

lemma pairing_granted_status:
  "pairing_granted env json s (SetState st d l c t) = pairing_granted env json s t"
  by (simp add: pairing_granted_def SetState_def source_def)

lemma pairing_granted_same:
  "same_store t u \<Longrightarrow> pairing_granted env json s t = pairing_granted env json s u"
  by (simp add: pairing_granted_def store_defs)

lemma pair_final_effect:
  "dialogue_effect {(env, json)} s (fst (snd (OnPairFinal env json l s))) (snd (snd (OnPairFinal env json l s)))"
proof -
  let ?c = "pairChallenge l"
  obtain u err where d: "pair_final_decision env (field json ''sessionId'') (field json ''token'')
      (field json ''senderId'') (pair_deviceId ?c) s = (u, err)"
    by fastforce
  have denied: "u = s" if "err \<noteq> ''''"
    using d that by (auto simp: pair_final_decision_def split: PairingAuthorizationResult.splits if_splits)
  have granted: "pairing_granted env json s u" if "err = ''''" "Hex (field json ''token'') 64"
    using d that
    by (auto simp: pair_final_decision_def pairing_granted_def source_def
        split: PairingAuthorizationResult.splits if_splits)
  obtain v ok where send: "SendControl (reply_send env) (paired_reply (pair_deviceId ?c) (fresh_credential env)) u = (v, ok)"
    by fastforce
  have uv: "same_store u v"
    using SendControl_store [of u "reply_send env" "paired_reply (pair_deviceId ?c) (fresh_credential env)" u] send
    by simp
  have final: "pairing_granted env json s (SetState StatePaired PairingDone True False v)"
    if "err = ''''" "Hex (field json ''token'') 64"
    using granted [OF that] pairing_granted_same [OF uv] by (simp add: pairing_granted_status)
  show ?thesis
    using refuse_effect d denied send final
    by (auto simp: OnPairFinal_def Let_def) (auto simp: dialogue_effect_def)
qed

lemma challenge_effect:
  "dialogue_effect H s (fst (snd (OnPairChallenge env json l s))) (snd (snd (OnPairChallenge env json l s)))"
  "dialogue_effect H s (fst (snd (OnAuthChallenge env json l s))) (snd (snd (OnAuthChallenge env json l s)))"
proof -
  have "snd (snd (OnPairChallenge env json l s)) \<noteq> Ended True" "snd (snd (OnAuthChallenge env json l s)) \<noteq> Ended True"
    by (simp_all add: OnPairChallenge_def OnAuthChallenge_def refuse_def Let_def case_prod_unfold
        split: sum.split option.split)
  then show
    "dialogue_effect H s (fst (snd (OnPairChallenge env json l s))) (snd (snd (OnPairChallenge env json l s)))"
    "dialogue_effect H s (fst (snd (OnAuthChallenge env json l s))) (snd (snd (OnAuthChallenge env json l s)))"
    using challenge_store by (simp_all add: dialogue_effect_def)
qed

lemma auth_final_effect:
  assumes "session_inv s"
  shows "dialogue_effect {(env, json)} s (fst (snd (OnAuthFinal env json l s))) (snd (snd (OnAuthFinal env json l s)))"
  using assms
proof (cases rule: OnAuthFinal_cases [of s env json l])
  case (refused code)
  then show ?thesis using refuse_effect by simp
next
  case (rolled_back t)
  note fields = decoder_frame_fields [OF prepare_decoder_result(1) [OF assms rolled_back(3)]]
  let ?t = "t\<lparr>latest_source_epoch := latest_source_epoch s, active_source_epoch := latest_source_epoch s,
            active_media_contract := active_media_contract s\<rparr>"
  have "same_store s ?t"
    using fields by (simp add: store_defs take_source_def)
  then show ?thesis
    unfolding rolled_back(4) by (simp add: dialogue_effect_def) (simp add: refuse_def)
next
  case (prepared t u ok)
  let ?c = "authChallenge l"
  note fields = decoder_frame_fields [OF prepare_decoder_result(1) [OF assms prepared(4)]]
  have "same_store t u"
    using SendControl_store [of t "reply_send env" "ready_reply (auth_sourceEpoch ?c) (auth_mediaContract ?c)" t] prepared(5)
    by simp
  then have taken: "source_accepted json ?c s u"
    using prepared(1-3) fields by (simp add: source_accepted_def store_defs take_source_def)
  have "ready_sent ?c u" if ok
    using SendControl_sent [OF prepared(5)] that by (auto simp: ready_sent_def)
  with taken show ?thesis
    unfolding prepared(6) dialogue_effect_def
    by (auto simp: source_accepted_def store_defs ready_sent_def SetState_def)
qed

lemma AuthenticateMessage_effect:
  assumes "session_inv s"
  shows "dialogue_effect {(env, chars_of (payload m))} s (fst (snd (AuthenticateMessage env m l s))) (snd (snd (AuthenticateMessage env m l s)))"
  by (cases rule: AuthenticateMessage_cases [of env m l s])
     (simp_all add: refuse_effect pair_final_effect challenge_effect auth_final_effect assms)

lemma AuthenticateMessages_effect:
  assumes "session_inv s"
  shows "dialogue_effect (texts_of envs ms) s (fst (snd (AuthenticateMessages envs ms l s))) (snd (snd (AuthenticateMessages envs ms l s)))"
  using assms
proof (induction ms arbitrary: envs l s)
  case Nil
  show ?case by (simp add: dialogue_effect_def)
next
  case (Cons m ms)
  obtain l' s' r where step: "AuthenticateMessage (envs 0) m l s = (l', s', r)"
    using prod_cases3 by blast
  have inv: "session_inv s'" and effect: "dialogue_effect {(envs 0, chars_of (payload m))} s s' r"
    using AuthenticateMessage_inv [OF Cons.prems, of "envs 0" m l]
      AuthenticateMessage_effect [OF Cons.prems, of "envs 0" m l] step by simp_all
  show ?case
  proof (cases r)
    case GoOn
    then have "same_store s s'" using effect by (auto simp: dialogue_effect_def)
    then show ?thesis
      using step GoOn dialogue_effect_mono [OF dialogue_effect_from [OF _ Cons.IH [OF inv]] subset_insertI]
      by (simp add: texts_of_Cons)
  next
    case (Ended ok)
    then show ?thesis
      using step dialogue_effect_mono [OF effect, of "texts_of envs (m # ms)"] by (simp add: texts_of_Cons)
  qed
qed

lemma AuthenticateChunk_effect:
  assumes "session_inv s" "AuthenticateChunk envs data l s = (l', t, r)"
  shows "dialogue_effect (heard (RecvData data) envs s) s t r"
proof -
  obtain ok d ms where push: "Push (websocket_decoder s) data = (ok, d, ms)"
    using prod_cases3 by blast
  let ?s = "s\<lparr>websocket_decoder := d\<rparr>"
  have "dialogue_effect (texts_of envs ms) ?s (fst (snd (AuthenticateMessages envs ms l ?s))) (snd (snd (AuthenticateMessages envs ms l ?s)))"
    using assms(1) by (intro AuthenticateMessages_effect) simp
  then have "dialogue_effect (texts_of envs ms) s (fst (snd (AuthenticateMessages envs ms l ?s))) (snd (snd (AuthenticateMessages envs ms l ?s)))"
    by (rule dialogue_effect_from [rotated]) simp
  then show ?thesis
    using assms(2) push by (cases ok) (auto simp: AuthenticateChunk_def heard_def Let_def dialogue_effect_def)
qed

section \<open>What a step of the session can do to the store\<close>

lemma IterationEnd_waits: "network (IterationEnd s) = Accepting"
  by (simp add: IterationEnd_def SetState_def Let_def)

lemma AuthenticateIteration_effect:
  assumes "session_inv s"
    and t_def: "t = AuthenticateIteration expired received envs l s"
  shows "same_store s t \<and> network t \<noteq> InSession \<or> 
    (\<exists>env json. (env, json) \<in> heard received envs s \<and> pairing_granted env json s t) \<and> network t \<noteq> InSession \<or>
    (\<exists>env json c. (env, json) \<in> heard received envs s \<and> source_accepted json c s t \<and>
       (network t = InSession \<longrightarrow> ready_sent c t)) \<or> t = s"
proof (cases "\<not> session_desired s \<or> expired \<or> control_socket s < 0")
  case True
  then have "t = IterationEnd s" by (auto simp: t_def AuthenticateIteration_def)
  then show ?thesis by (simp add: IterationEnd_waits)
next
  case live: False
  show ?thesis
  proof (cases received)
    case (RecvData data)
    obtain l' u r where chunk: "AuthenticateChunk envs data l s = (l', u, r)"
      using prod_cases3 by blast
    have effect: "dialogue_effect (heard received envs s) s u r"
      unfolding RecvData by (rule AuthenticateChunk_effect [OF assms(1) chunk])
    have over: "same_store u (IterationEnd u)" "network (IterationEnd u) \<noteq> InSession"
      by (simp_all add: IterationEnd_waits)
    consider (go) "r = GoOn" | (good) "r = Ended True" | (bad) "r = Ended False"
      by (metis dialogue_result.exhaust)
    then show ?thesis
    proof cases
      case go
      then show ?thesis
        using effect live chunk RecvData by (auto simp: t_def AuthenticateIteration_def dialogue_effect_def)
    next
      case good
      then obtain env json c where told: "(env, json) \<in> heard received envs s" "source_accepted json c s u" "ready_sent c u"
        using effect by (auto simp: dialogue_effect_def)
      from told(2,3) have "source_accepted json c s (u\<lparr>network := InSession\<rparr>)" "ready_sent c (u\<lparr>network := InSession\<rparr>)"
        by (simp_all add: source_accepted_def store_defs ready_sent_def)
      then show ?thesis
        using live chunk RecvData good told(1) by (auto simp: t_def AuthenticateIteration_def)
    next
      case bad
      then have t: "t = IterationEnd u"
        using live chunk RecvData by (simp add: t_def AuthenticateIteration_def)
      have "source_accepted json c s (IterationEnd u)" if "source_accepted json c s u" for json c
        using that over(1) by (simp add: source_accepted_def store_defs)
      then show ?thesis
        using effect bad over same_store_trans pairing_granted_same [OF over(1)]
        unfolding t dialogue_effect_def by blast
    qed
  qed (use live in \<open>simp_all add: t_def AuthenticateIteration_def IterationEnd_waits\<close>)
qed

definition store_event :: "session_event \<Rightarrow> bool" where
  "store_event e \<longleftrightarrow> (case e of StartCall _ _ _ \<Rightarrow> True | ConfigureTrustCall _ _ _ _ \<Rightarrow> True
     | AuthorizeQrCall _ _ _ _ \<Rightarrow> True | AuthorizeShortCodeCall _ _ \<Rightarrow> True | ForgetDeviceCall \<Rightarrow> True
     | NetAuthenticate _ _ _ \<Rightarrow> True | _ \<Rightarrow> False)"

lemma other_step_store: "\<not> store_event e \<Longrightarrow> same_store s (session_step e s)"
  by (cases e) (auto simp: store_event_def SessionIteration_store AcceptIteration_store NetworkBegin_store
      decoder_frame_store OnSurfaceEvent_frame DecoderNeedInput_frame DecoderOutput_frame DecoderOutput_advance_frame DecoderError_frame)

lemma StartSession_store:
  "trust (fst (StartSession interfaces generated address s)) = trust s"
  "authorization (fst (StartSession interfaces generated address s)) = authorization s"
  "source (fst (StartSession interfaces generated address s)) = source s"
proof -
  have stop: "trust (StopSession s) = trust s" "authorization (StopSession s) = authorization s"
      "source (StopSession s) = source s"
    using StopSession_store [of s] by (simp_all add: same_store_def)
  have fields: "trust u = trust s \<and> authorization u = authorization s \<and> source u = source s"
    if "u = SetState st d l c (StopSession s) \<or> u = SetState st d l c ((StopSession s)\<lparr>device_id := i\<rparr>) \<or>
        u = s" for u st d l c i
    using that stop by (auto simp: store_defs SetState_def)
  show "trust (fst (StartSession interfaces generated address s)) = trust s"
    "authorization (fst (StartSession interfaces generated address s)) = authorization s"
    "source (fst (StartSession interfaces generated address s)) = source s"
    using stop by (auto simp: StartSession_def Let_def store_defs SetState_def ResetRecovery_def coordinate_def
        split: option.split)
qed

text \<open>The order in which sources succeed each other: a later epoch, or the same epoch and contract.\<close>

definition source_order :: "u32 \<times> MediaContract \<Rightarrow> u32 \<times> MediaContract \<Rightarrow> bool" where
  "source_order a b \<longleftrightarrow> fst a < fst b \<or> a = b"

lemma source_order_trans: "source_order a b \<Longrightarrow> source_order b c \<Longrightarrow> source_order a c"
  by (auto simp: source_order_def)

lemma source_accepted_order: "source_accepted json c s t \<Longrightarrow> source_order (source s) (source t)"
  using EvaluateSourceContract_accepted
  by (auto simp: source_accepted_def source_order_def source_def word_less_nat_alt)

lemma trust_calls_source:
  "source (fst (ConfigureTrust d i c v s)) = source s" "source (fst (AuthorizeQr now si tok ex s)) = source s"
  "source (fst (AuthorizeShortCode now sc s)) = source s" "source (ForgetDevice s) = source s"
  by (simp_all add: ConfigureTrust_def AuthorizeQr_def AuthorizeShortCode_def ForgetDevice_def source_def
      CloseControlSocket_def Let_def)

lemma step_source_order:
  assumes "session_inv s"
  shows "source_order (source s) (source (session_step e s))"
proof (cases "store_event e")
  case False
  then show ?thesis
    using other_step_store [of e s] by (simp add: same_store_def source_order_def)
next
  case True
  show ?thesis
  proof (cases e)
    case (NetAuthenticate expired received envs)
    show ?thesis
    proof (cases "network s")
      case (Authenticating l)
      have "source_order (source s) (source (AuthenticateIteration expired received envs l s))"
        using AuthenticateIteration_effect [OF assms refl, of expired received envs l] source_accepted_order
        by (auto simp: same_store_def pairing_granted_def source_order_def)
      then show ?thesis using NetAuthenticate Authenticating by simp
    qed (simp_all add: NetAuthenticate source_order_def)
  qed (use True in \<open>simp_all add: store_event_def StartSession_store trust_calls_source source_order_def\<close>)
qed

lemma run_source_order: "session_inv s \<Longrightarrow> source_order (source s) (source (fold session_step es s))"
proof (induction es arbitrary: s)
  case Nil
  show ?case by (simp add: source_order_def)
next
  case (Cons e es)
  then show ?case
    using step_source_order [OF Cons.prems, of e] session_step_inv source_order_trans by simp
qed

section \<open>Pairing is authorized, and once\<close>

definition pending :: "ReceiverSession \<Rightarrow> bool" where
  "pending s \<longleftrightarrow> pending_session_id s \<noteq> '''' \<or> pending_short_code s \<noteq> ''''"

lemma pairing_granted_pending: "pairing_granted env json s t \<Longrightarrow> pending s \<and> \<not> pending t"
  by (auto simp: pairing_granted_def pending_def EvaluatePairingAuthorization_def Let_def split: if_splits)

lemma same_store_pending: "same_store s t \<Longrightarrow> pending t = pending s"
  by (simp add: store_defs pending_def)

lemma trust_step_cases:
  assumes "session_inv s" and changed: "trust (session_step e s) \<noteq> trust s"
  shows "(\<exists>d i c v. e = ConfigureTrustCall d i c v) \<or> e = ForgetDeviceCall \<or>
    (\<exists>expired received envs env json. e = NetAuthenticate expired received envs \<and>
       (env, json) \<in> heard received envs s \<and> pairing_granted env json s (session_step e s))"
proof (cases e)
  case (NetAuthenticate expired received envs)
  then obtain l where l: "network s = Authenticating l"
    using changed by (cases "network s") simp_all
  then have "\<exists>env json. (env, json) \<in> heard received envs s \<and> pairing_granted env json s (session_step e s)"
    using changed NetAuthenticate AuthenticateIteration_effect [OF assms(1) refl, of expired received envs l]
    by (auto simp: same_store_def source_accepted_def)
  then show ?thesis using NetAuthenticate by blast
next
  case (StartCall interfaces generated address)
  then show ?thesis using changed by (simp add: StartSession_store)
next
  case (AuthorizeQrCall now si tok ex)
  then show ?thesis using changed by (simp add: AuthorizeQr_def trust_def Let_def split: if_splits)
next
  case (AuthorizeShortCodeCall now sc)
  then show ?thesis using changed by (simp add: AuthorizeShortCode_def trust_def Let_def split: if_splits)
qed (use changed other_step_store [of e s] in \<open>simp_all add: store_event_def same_store_def\<close>)

text \<open>Pairings that happen in a run from a state, and authorizations its user gives.\<close>

fun pairs :: "session_event \<Rightarrow> ReceiverSession \<Rightarrow> bool" where
  "pairs (NetAuthenticate expired received envs) s \<longleftrightarrow>
     trust (session_step (NetAuthenticate expired received envs) s) \<noteq> trust s"
| "pairs _ s \<longleftrightarrow> False"

fun authorizes :: "session_event \<Rightarrow> ReceiverSession \<Rightarrow> bool" where
  "authorizes (AuthorizeQrCall now sessionId token expiresAtMs) s \<longleftrightarrow> snd (AuthorizeQr now sessionId token expiresAtMs s)"
| "authorizes (AuthorizeShortCodeCall now shortCode) s \<longleftrightarrow> snd (AuthorizeShortCode now shortCode s)"
| "authorizes _ s \<longleftrightarrow> False"

fun count_events :: "(session_event \<Rightarrow> ReceiverSession \<Rightarrow> bool) \<Rightarrow> session_event list \<Rightarrow> ReceiverSession \<Rightarrow> nat" where
  "count_events P [] s = 0"
| "count_events P (e # es) s = (if P e s then 1 else 0) + count_events P es (session_step e s)"

lemma pairs_uses_pending:
  assumes "session_inv s" "pairs e s"
  shows "pending s \<and> \<not> pending (session_step e s) \<and> \<not> authorizes e s"
proof -
  obtain expired received envs where e: "e = NetAuthenticate expired received envs"
    using assms(2) by (cases e) simp_all
  then have "trust (session_step e s) \<noteq> trust s" using assms(2) by simp
  from trust_step_cases [OF assms(1) this] show ?thesis
    using e pairing_granted_pending by auto
qed

lemma pending_step:
  assumes "session_inv s" "pending (session_step e s)"
  shows "pending s \<or> authorizes e s"
proof (cases e)
  case (NetAuthenticate expired received envs)
  show ?thesis
  proof (cases "network s")
    case (Authenticating l)
    then show ?thesis
      using assms(2) NetAuthenticate AuthenticateIteration_effect [OF assms(1) refl, of expired received envs l]
      by (auto dest: same_store_pending pairing_granted_pending simp: source_accepted_def authorization_def pending_def)
  qed (use assms(2) NetAuthenticate in simp_all)
next
  case (StartCall interfaces generated address)
  then show ?thesis
    using assms(2) StartSession_store(2) [of interfaces generated address s]
    by (simp add: pending_def authorization_def)
next
  case (ConfigureTrustCall d i c v)
  then show ?thesis using assms(2) by (simp add: ConfigureTrust_def pending_def split: if_splits)
next
  case (AuthorizeQrCall now si tok ex)
  then show ?thesis using assms(2) by (simp add: AuthorizeQr_def pending_def Let_def split: if_splits)
next
  case (AuthorizeShortCodeCall now sc)
  then show ?thesis using assms(2) by (simp add: AuthorizeShortCode_def pending_def Let_def split: if_splits)
next
  case ForgetDeviceCall
  then show ?thesis using assms(2) by (simp add: ForgetDevice_def CloseControlSocket_def pending_def)
qed (use assms(2) same_store_pending [OF other_step_store [of e s]] in \<open>simp_all add: store_event_def\<close>)

lemma pairings_bounded:
  "session_inv s \<Longrightarrow> count_events pairs es s \<le> count_events authorizes es s + (if pending s then 1 else 0)"
proof (induction es arbitrary: s)
  case (Cons e es)
  have inv: "session_inv (session_step e s)" by (rule session_step_inv [OF Cons.prems])
  show ?case
    using Cons.IH [OF inv] pairs_uses_pending [OF Cons.prems, of e] pending_step [OF Cons.prems, of e]
    by (auto split: if_splits)
qed simp

section \<open>Connecting needs the credential\<close>

lemma frame_network:
  fixes s t :: ReceiverSession
  shows "decoder_frame s t \<Longrightarrow> network t = network s"
  using decoder_frame_fields [of s t] by simp

lemma step_connects:
  assumes "network s \<noteq> InSession" "network (session_step e s) = InSession"
  shows "\<exists>expired received envs. e = NetAuthenticate expired received envs"
proof (cases e)
  case (StartCall interfaces generated address)
  have "network (StopSession s) = NotRunning"
    by (simp add: StopSession_def NetworkExit_def SetState_def ResetRecovery_def coordinate_def ClearTelemetry_def
        ResetWebsocket_def CloseSockets_def Let_def)
  then show ?thesis
    using assms StartCall by (auto simp: StartSession_def SetState_def Let_def split: option.splits if_splits)
next
  case StopCall
  then show ?thesis
    using assms by (simp add: StopSession_def NetworkExit_def SetState_def ResetRecovery_def coordinate_def
        ClearTelemetry_def ResetWebsocket_def CloseSockets_def Let_def split: if_splits)
next
  case (NetBegin interfaces fd bound listens rs)
  then show ?thesis
    using assms by (auto simp: NetworkBegin_def SetState_def Let_def split: prod.splits bool.splits if_splits)
next
  case (NetAccept interfaces client events returned)
  have "network (AcceptWebSocket client events returned t) \<noteq> InSession" for t
    by (auto simp: AcceptWebSocket_def IterationEnd_waits Let_def split: option.split prod.split bool.split)
  then show ?thesis
    using assms NetAccept
    by (auto simp: AcceptIteration_def NetworkExit_def Let_def split: prod.splits bool.splits if_splits)
next
  case (ConfigureTrustCall d i c v)
  then show ?thesis using assms by (simp add: ConfigureTrust_def split: if_splits)
next
  case (AuthorizeQrCall now si tok ex)
  then show ?thesis using assms by (simp add: AuthorizeQr_def Let_def split: if_splits)
next
  case (AuthorizeShortCodeCall now sc)
  then show ?thesis using assms by (simp add: AuthorizeShortCode_def Let_def split: if_splits)
qed (use assms in \<open>simp_all add: ForgetDevice_def CloseControlSocket_def
      frame_network [OF OnSurfaceEvent_frame] frame_network [OF DecoderNeedInput_frame]
      frame_network [OF DecoderOutput_frame]
      frame_network [OF DecoderOutput_advance_frame] frame_network [OF DecoderError_frame] split: network_position.splits if_splits\<close>)

lemma trusted_credential_equal:
  assumes "auth_final_matches json c" "auth_trusted json s" "length (trusted_credential s) < 2 ^ 64"
  shows "field json ''credential'' = trusted_credential s"
proof -
  have "length (field json ''credential'') = 64"
    using assms(1) by (simp add: auth_final_matches_def Hex_def)
  then show ?thesis
    using assms(2,3) ConstantTimeEqualSized_iff [of "field json ''credential''" "trusted_credential s" 64]
    by (simp add: auth_trusted_def ConstantTimeEqual_def)
qed

lemma step_connects_authentically:
  assumes "session_inv s" "network s \<noteq> InSession" "network (session_step e s) = InSession"
  shows "\<exists>expired received envs env json c. e = NetAuthenticate expired received envs \<and>
    (env, json) \<in> heard received envs s \<and> source_accepted json c s (session_step e s) \<and>
    ready_sent c (session_step e s)"
proof -
  obtain expired received envs where e: "e = NetAuthenticate expired received envs"
    using step_connects [OF assms(2,3)] by blast
  then obtain l where l: "network s = Authenticating l"
    using assms(2,3) by (cases "network s") simp_all
  then have step: "session_step e s = AuthenticateIteration expired received envs l s"
    using e by simp
  have "\<exists>env json c. (env, json) \<in> heard received envs s \<and> source_accepted json c s (session_step e s) \<and>
      ready_sent c (session_step e s)"
    using AuthenticateIteration_effect [OF assms(1) refl, of expired received envs l] assms(2,3)
    unfolding step by auto
  then show ?thesis using e by blast
qed

section \<open>The sender's messages\<close>

text \<open>
  What the extension sends (\<open>extension/direct-client.js\<close>, \<open>connect\<close>): the challenge and the final
  message, as \<open>JSON.stringify\<close> prints them.
\<close>

definition auth_fields :: "string \<Rightarrow> string \<Rightarrow> string \<Rightarrow> u32 \<Rightarrow> string \<Rightarrow> MediaContract \<Rightarrow> (string \<times> json_value) list" where
  "auth_fields senderId deviceId credential epoch nonce contract =
     [(''type'', JStr ''auth''), (''protocol'', JInt 6), (''mode'', JStr ''auth''), (''senderId'', JStr senderId),
      (''deviceId'', JStr deviceId), (''credential'', JStr credential), (''sourceEpoch'', JInt (uint epoch)),
      (''nonce'', JStr nonce), (''codec'', JStr ''video/avc''), (''avcFormat'', JStr ''annexb''),
      (''width'', JInt (uint (width contract))), (''height'', JInt (uint (height contract))),
      (''maxFps'', JInt (uint (maxFps contract)))]"

definition auth_challenge_fields :: "string \<Rightarrow> string \<Rightarrow> u32 \<Rightarrow> string \<Rightarrow> MediaContract \<Rightarrow> (string \<times> json_value) list" where
  "auth_challenge_fields senderId deviceId epoch nonce contract =
     [(''type'', JStr ''auth_challenge''), (''protocol'', JInt 6), (''mode'', JStr ''auth''), (''senderId'', JStr senderId),
      (''deviceId'', JStr deviceId), (''sourceEpoch'', JInt (uint epoch)),
      (''nonce'', JStr nonce), (''codec'', JStr ''video/avc''), (''avcFormat'', JStr ''annexb''),
      (''width'', JInt (uint (width contract))), (''height'', JInt (uint (height contract))),
      (''maxFps'', JInt (uint (maxFps contract)))]"

definition message_keys :: "string list" where
  "message_keys = [''type'', ''protocol'', ''mode'', ''senderId'', ''deviceId'', ''credential'', ''sourceEpoch'',
     ''nonce'', ''codec'', ''avcFormat'', ''width'', ''height'', ''maxFps'', ''sessionId'', ''token'']"

lemma message_keys_words: "list_all key_word message_keys"
  by (simp add: message_keys_def key_word_def isalnum_def isdigit_def isupper_def islower_def ord_def)

text \<open>A value the key search cannot take for a key: plain, and longer than any key or a fixed other word.\<close>

definition safe_text :: "string \<Rightarrow> bool" where
  "safe_text w \<longleftrightarrow> plain w \<and> w \<notin> set message_keys"

lemma searchable_fields:
  assumes fs: "list_all (\<lambda>(k', v). k' \<in> set message_keys \<and> (case v of JStr w \<Rightarrow> safe_text w | JInt _ \<Rightarrow> True)) fs"
    and k: "k \<in> set message_keys"
  shows "searchable k fs"
proof -
  have word: "key_word k'" if "k' \<in> set message_keys" for k'
    using message_keys_words that by (simp add: list_all_iff)
  have "key_word k' \<and> searchable_value k v"
    if "k' \<in> set message_keys" "case v of JStr w \<Rightarrow> safe_text w | JInt _ \<Rightarrow> True" for k' v
    using that k word by (cases v) (auto simp: safe_text_def)
  then show ?thesis
    using fs word [OF k] by (auto simp: searchable_def list_all_iff)
qed

lemma hexish_plain: "list_all (\<lambda>c. isdigit c \<or> (97 \<le> ord c \<and> ord c \<le> 102) \<or> c = CHR ''-'') w \<Longrightarrow> plain w"
  by (auto simp: plain_def list_all_iff isdigit_def ord_def)

lemma long_not_key: "16 \<le> length w \<Longrightarrow> w \<notin> set message_keys"
  by (auto simp: message_keys_def)

lemma safe_ids:
  "SessionSenderIdValid w \<Longrightarrow> safe_text w" "Hex w 32 \<Longrightarrow> safe_text w" "Hex w 64 \<Longrightarrow> safe_text w"
  by (auto simp: safe_text_def SessionSenderIdValid_def Hex_def intro!: hexish_plain long_not_key
      simp: list_all_iff)

lemma safe_words: "safe_text ''auth''" "safe_text ''auth_challenge''" "safe_text ''video/avc''" "safe_text ''annexb''"
  by (simp_all add: safe_text_def plain_def message_keys_def ord_def)

lemma u32_in_int64: "in_int64 (JInt (uint (x :: u32)))"
proof -
  have "uint x < 2 ^ 32" using unsigned_less [of x, where 'a = int] by simp
  then show ?thesis by (simp add: in_int64_def order_trans [OF _ uint_ge_0])
qed


text \<open>What the readers find in the two messages.\<close>

lemma auth_fields_readable:
  assumes "SessionSenderIdValid i" "Hex d 32" "Hex c 64" "Hex n 64"
  shows "list_all (\<lambda>(k', v). k' \<in> set message_keys \<and> (case v of JStr w \<Rightarrow> safe_text w | JInt _ \<Rightarrow> True)) (auth_fields i d c e n m)"
    "list_all (\<lambda>(k', v). k' \<in> set message_keys \<and> (case v of JStr w \<Rightarrow> safe_text w | JInt _ \<Rightarrow> True)) (auth_challenge_fields i d e n m)"
    "list_all (\<lambda>(_, v). in_int64 v) (auth_fields i d c e n m)" "list_all (\<lambda>(_, v). in_int64 v) (auth_challenge_fields i d e n m)"
  using assms safe_ids safe_words
  by (simp_all add: auth_fields_def auth_challenge_fields_def u32_in_int64)
     (simp_all add: message_keys_def in_int64_def)

lemma read_fields:
  assumes "list_all (\<lambda>(k', v). k' \<in> set message_keys \<and> (case v of JStr w \<Rightarrow> safe_text w | JInt _ \<Rightarrow> True)) fs"
    "list_all (\<lambda>(_, v). in_int64 v) fs" "k \<in> set message_keys"
  shows "JsonString (render_object fs) k = (case map_of fs k of Some (JStr w) \<Rightarrow> Some w | _ \<Rightarrow> None)"
    "JsonInteger (render_object fs) k = (case map_of fs k of Some (JInt i) \<Rightarrow> Some i | _ \<Rightarrow> None)"
  using JsonString_render_object [OF searchable_fields [OF assms(1,3)]]
    JsonInteger_render_object [OF searchable_fields [OF assms(1,3)] assms(2)] by simp_all

lemma message_key_members:
  "''type'' \<in> set message_keys" "''protocol'' \<in> set message_keys" "''mode'' \<in> set message_keys"
  "''senderId'' \<in> set message_keys" "''deviceId'' \<in> set message_keys" "''credential'' \<in> set message_keys"
  "''sourceEpoch'' \<in> set message_keys" "''nonce'' \<in> set message_keys" "''codec'' \<in> set message_keys"
  "''avcFormat'' \<in> set message_keys" "''width'' \<in> set message_keys" "''height'' \<in> set message_keys"
  "''maxFps'' \<in> set message_keys" "''sessionId'' \<in> set message_keys" "''token'' \<in> set message_keys"
  by (simp_all add: message_keys_def)

lemma uint32_field_uint: "uint32_field (Some (uint (x :: u32))) \<longleftrightarrow> x \<noteq> 0"
proof -
  have "uint x < 2 ^ 32" using unsigned_less [of x, where 'a = int] by simp
  moreover have "0 < uint x \<longleftrightarrow> x \<noteq> 0" by (simp add: word_neq_0_conv word_less_def)
  ultimately show ?thesis by (simp add: uint32_field_def)
qed

lemma valid_contract_nonzero:
  "IsValidMediaContract m \<Longrightarrow> width m \<noteq> 0 \<and> height m \<noteq> 0 \<and> maxFps m \<noteq> 0"
  by (simp add: IsValidMediaContract_def split: if_splits)

lemma parse_rendered_contract:
  assumes "JsonInteger json ''width'' = Some (uint (width m))" "JsonInteger json ''height'' = Some (uint (height m))"
    "JsonInteger json ''maxFps'' = Some (uint (maxFps m))" "IsValidMediaContract m"
  shows "parseMediaContract json = Some m"
  using assms valid_contract_nonzero [OF assms(4)]
  by (cases m) (simp add: parseMediaContract_def uint32_field_uint Let_def)

lemma auth_message_read:
  assumes ids: "SessionSenderIdValid i" "Hex d 32" "Hex c 64" "Hex n 64" and m: "IsValidMediaContract m"
    and json_def: "json = render_object (auth_fields i d c e n m)"
  shows "auth_final_matches json \<lparr>auth_senderId = i, auth_deviceId = d, auth_nonce = n, auth_sourceEpoch = e,
           auth_mediaContract = m\<rparr>"
    and "field json ''senderId'' = i" "field json ''deviceId'' = d" "field json ''credential'' = c"
    and "JsonInteger json ''protocol'' = Some 6" "JsonString json ''type'' = Some ''auth''"
proof -
  note rd = read_fields [OF auth_fields_readable(1,3) [OF ids, of e m], folded json_def]
  note strings = rd(1) [OF message_key_members(1)] rd(1) [OF message_key_members(3)]
    rd(1) [OF message_key_members(4)] rd(1) [OF message_key_members(5)] rd(1) [OF message_key_members(6)]
    rd(1) [OF message_key_members(8)] rd(1) [OF message_key_members(9)] rd(1) [OF message_key_members(10)]
  note ints = rd(2) [OF message_key_members(2)] rd(2) [OF message_key_members(7)]
    rd(2) [OF message_key_members(11)] rd(2) [OF message_key_members(12)] rd(2) [OF message_key_members(13)]
  have contract: "parseMediaContract json = Some m"
    using ints m by (intro parse_rendered_contract) (simp_all add: auth_fields_def)
  show "auth_final_matches json \<lparr>auth_senderId = i, auth_deviceId = d, auth_nonce = n, auth_sourceEpoch = e,
           auth_mediaContract = m\<rparr>"
    unfolding auth_final_matches_def codecValid_def field_def contract using ids
    by (simp add: strings ints auth_fields_def value_or_def)
  show "field json ''senderId'' = i" "field json ''deviceId'' = d" "field json ''credential'' = c"
    "JsonInteger json ''protocol'' = Some 6" "JsonString json ''type'' = Some ''auth''"
    by (simp_all add: field_def strings ints auth_fields_def value_or_def)
qed

lemma auth_challenge_read:
  assumes ids: "SessionSenderIdValid i" "Hex d 32" "Hex n 64" and m: "IsValidMediaContract m"
    and json_def: "json = render_object (auth_challenge_fields i d e n m)"
  shows "field json ''senderId'' = i" "field json ''deviceId'' = d" "field json ''nonce'' = n"
    and "JsonInteger json ''protocol'' = Some 6" "JsonString json ''type'' = Some ''auth_challenge''"
    and "JsonInteger json ''sourceEpoch'' = Some (uint e)" "codecValid json" "parseMediaContract json = Some m"
proof -
  have c: "Hex (replicate 64 (CHR ''0'')) 64"
    by (simp add: Hex_def isdigit_def ord_def list_all_iff)
  note rd = read_fields [OF auth_fields_readable(2,4) [OF ids(1,2) c ids(3), of e m], folded json_def]
  note strings = rd(1) [OF message_key_members(1)] rd(1) [OF message_key_members(3)]
    rd(1) [OF message_key_members(4)] rd(1) [OF message_key_members(5)]
    rd(1) [OF message_key_members(8)] rd(1) [OF message_key_members(9)] rd(1) [OF message_key_members(10)]
  note ints = rd(2) [OF message_key_members(2)] rd(2) [OF message_key_members(7)]
    rd(2) [OF message_key_members(11)] rd(2) [OF message_key_members(12)] rd(2) [OF message_key_members(13)]
  show "parseMediaContract json = Some m"
    using ints m by (intro parse_rendered_contract) (simp_all add: auth_challenge_fields_def)
  show "field json ''senderId'' = i" "field json ''deviceId'' = d" "field json ''nonce'' = n"
    "JsonInteger json ''protocol'' = Some 6" "JsonString json ''type'' = Some ''auth_challenge''"
    "JsonInteger json ''sourceEpoch'' = Some (uint e)" "codecValid json"
    by (simp_all add: field_def codecValid_def strings ints auth_challenge_fields_def value_or_def)
qed

section \<open>A trusted sender connects\<close>

text \<open>One text message in one masked frame.\<close>

definition text_frame :: "byte list \<Rightarrow> string \<Rightarrow> byte list" where
  "text_frame key json = client_frame \<lparr>fin = True, frame_opcode = kText, masking_key = key, frame_payload = bytes_of json\<rparr>"

lemma Push_text_frame:
  assumes "length key = 4" "length json \<le> 2048"
  shows "Push newDecoder (text_frame key json) = (True, newDecoder, [\<lparr>opcode = kText, payload = bytes_of json\<rparr>])"
proof -
  let ?f = "\<lparr>fin = True, frame_opcode = kText, masking_key = key, frame_payload = bytes_of json\<rparr>"
  have wf: "\<forall>f \<in> set [?f]. wf_frame f" using assms by (simp add: wf_frame_def)
  have len: "length (client_frame ?f) \<le> kMaxMessageBytes * 2"
    using assms by (simp add: client_frame_def length_field_def kMaxMessageBytes_def wire_layout)
  have "assemble kMaxMessageBytes None [?f] = (True, None, [\<lparr>opcode = kText, payload = bytes_of json\<rparr>])"
    using assms by (simp add: assemble_frame.simps control_opcode_def opcode_value_def kMaxMessageBytes_def word_le_nat_alt)
  then have "Push_loop (decoder_of None (client_frame ?f)) =
      (True, decoder_of None [], [\<lparr>opcode = kText, payload = bytes_of json\<rparr>])"
    using Push_loop_client_frames [OF wf, of None] by simp
  then show ?thesis
    using len by (simp add: text_frame_def Push_def newDecoder_of feed_decoder_of) (simp add: decoder_of_def)
qed

lemma length_int_dec_u32: "length (int_dec (uint (x :: u32))) \<le> 10"
proof -
  have "unat x < 10 ^ 10" using unsigned_less [of x, where 'a = nat] by simp
  then have "length (dec (unat x)) \<le> 10" by (rule length_dec_le) simp
  then show ?thesis by (simp add: int_dec_def)
qed

lemma message_lengths:
  assumes "SessionSenderIdValid i" "Hex d 32" "Hex c 64" "Hex n 64"
  shows "length (render_object (auth_fields i d c e n m)) \<le> 2048"
    "length (render_object (auth_challenge_fields i d e n m)) \<le> 2048"
proof -
  have plain: "EscapeJson i = i" "EscapeJson d = d" "EscapeJson c = c" "EscapeJson n = n"
      "EscapeJson ''auth'' = ''auth''" "EscapeJson ''auth_challenge'' = ''auth_challenge''"
      "EscapeJson ''video/avc'' = ''video/avc''" "EscapeJson ''annexb'' = ''annexb''"
    using safe_ids safe_words assms by (simp_all add: EscapeJson_plain safe_text_def)
  have len: "length i \<le> 64" "length d = 32" "length c = 64" "length n = 64"
    using assms by (simp_all add: SessionSenderIdValid_def Hex_def)
  note decs = length_int_dec_u32 [of e] length_int_dec_u32 [of "width m"] length_int_dec_u32 [of "height m"]
    length_int_dec_u32 [of "maxFps m"]
  have six: "length (int_dec 6) = 1" by (simp add: int_dec_def dec.simps)
  show "length (render_object (auth_fields i d c e n m)) \<le> 2048"
    "length (render_object (auth_challenge_fields i d e n m)) \<le> 2048"
    using decs len six by (simp_all add: auth_fields_def auth_challenge_fields_def render_object_def plain)
qed

lemma SendControl_loop_one:
  "length frame \<le> n \<Longrightarrow> 0 < n \<Longrightarrow> SendControl_loop frame [SentBytes n] = (frame, True)"
  by (subst SendControl_loop.simps) (simp add: SendControl_loop.simps)

definition sends_whole :: "ControlSend \<Rightarrow> bool" where
  "sends_whole c \<longleftrightarrow> lock_taken c \<and> (\<exists>n \<ge> 1000000. send_script c = [SentBytes n])"

lemma SendControl_whole:
  assumes "sends_whole c" "0 \<le> control_socket s" "length json \<le> 2048"
  shows "SendControl c json s = (s\<lparr>socket_out := socket_out s @ EncodeFrame kText json\<rparr>, True)"
proof -
  have "length (EncodeFrame kText json) \<le> 1000000" "EncodeFrame kText json \<noteq> []"
    using assms(3) by (auto simp: EncodeFrame_def kMaxMessageBytes_def Let_def)
  then show ?thesis
    using assms SendControl_loop_one by (auto simp: SendControl_def sends_whole_def Let_def)
qed

lemma SessionSenderIdValid_eq: "SessionSenderIdValid = SenderIdValid"
  by (rule ext) (simp add: SessionSenderIdValid_def SenderIdValid_def)

lemma Hex_decodes: "Hex w (2 * n) \<Longrightarrow> DecodeLowerHex w n \<noteq> None"
  by (simp only: DecodeLowerHex_defined) (auto simp: Hex_def lower_hex_digit_def list_all_iff)

lemma ComputeAuthProof_defined:
  assumes "SessionSenderIdValid i" "Hex d 32" "Hex c 64" "Hex n 64" "e \<noteq> 0" "IsValidMediaContract m"
  shows "length (ComputeAuthProof c i d e n m) = 64"
proof -
  obtain k where "DecodeLowerHex c 32 = Some k" using Hex_decodes [of c 32] assms by auto
  moreover have "AuthProofMessage i d e n m \<noteq> ''''"
    using Hex_decodes [of d 16] Hex_decodes [of n 32] assms
    by (simp add: AuthProofMessage_def SessionSenderIdValid_eq)
  ultimately have "ComputeAuthProof c i d e n m \<noteq> ''''"
    by (simp add: ComputeAuthProof_def Let_def) (metis length_LowerHex length_hmac list.size(3) mult_eq_0_iff zero_neq_numeral)
  then show ?thesis using proof_shape(2) [of c i d e n m] by simp
qed

definition codec_ready :: "CodecResults \<Rightarrow> bool" where
  "codec_ready res \<longleftrightarrow> all_succeed res \<and> flushed res \<and> restarted res"

lemma prepare_decoder_succeeds:
  assumes "codec_ready res" "IsValidMediaContract m" "decoder_media_contract s = previous"
  shows "snd (prepare_decoder res previous m s)"
proof (cases "previous = m")
  case True
  have "snd (FlushDecoder res s)"
  proof (cases "decoder s")
    case None
    then show ?thesis
      using assms True CreateDecoderLocked_succeeds [of res "SetGate DecoderStopped (BeginFlush s)"]
      by (auto simp: FlushDecoder_def codec_ready_def Let_def case_prod_unfold)
  next
    case (Some h)
    then show ?thesis
      using assms by (simp add: FlushDecoder_def EvaluateFlushRecovery_def codec_ready_def Let_def case_prod_unfold)
  qed
  then show ?thesis using True by (simp add: prepare_decoder_def)
next
  case False
  have "snd (ReconfigureDecoder res m s)"
    using assms CreateDecoderLocked_succeeds [of res "DestroyDecoderLocked s\<lparr>decoder_media_contract := m\<rparr>"]
    by (auto simp: ReconfigureDecoder_def codec_ready_def Let_def case_prod_unfold)
  then show ?thesis using False by (simp add: prepare_decoder_def)
qed

text \<open>What the sender must bring, and what the platform must do for it.\<close>

definition sender_ready :: "string \<Rightarrow> u32 \<Rightarrow> string \<Rightarrow> MediaContract \<Rightarrow> ReceiverSession \<Rightarrow> bool" where
  "sender_ready senderId epoch nonce contract s \<longleftrightarrow>
     SessionSenderIdValid senderId \<and> Hex (device_id s) 32 \<and> Hex nonce 64 \<and> epoch \<noteq> 0 \<and>
     IsValidMediaContract contract \<and> trusted_sender_id s = senderId \<and> Hex (trusted_credential s) 64 \<and>
     EvaluateSourceContract epoch contract (latest_source_epoch s) (active_media_contract s) = SourceAccepted"

definition challenge_of :: "string \<Rightarrow> u32 \<Rightarrow> string \<Rightarrow> MediaContract \<Rightarrow> ReceiverSession \<Rightarrow> AuthChallengeState" where
  "challenge_of senderId epoch nonce contract s =
     \<lparr>auth_senderId = senderId, auth_deviceId = device_id s, auth_nonce = nonce, auth_sourceEpoch = epoch,
      auth_mediaContract = contract\<rparr>"

definition proof_reply_of :: "string \<Rightarrow> u32 \<Rightarrow> string \<Rightarrow> MediaContract \<Rightarrow> ReceiverSession \<Rightarrow> string" where
  "proof_reply_of senderId epoch nonce contract s =
     auth_proof_reply senderId (device_id s) epoch nonce
       (ComputeAuthProof (trusted_credential s) senderId (device_id s) epoch nonce contract)"

lemma Hex_nonempty: "Hex w 64 \<Longrightarrow> w \<noteq> ''''" "Hex w 32 \<Longrightarrow> w \<noteq> ''''"
  by (auto simp: Hex_def)

lemma epoch_back: "(word_of_int (uint (e :: u32)) :: u32) = e"
  by simp

lemma challenge_answered:
  assumes ready: "sender_ready i e n m s" and sends: "sends_whole (reply_send env)" "0 \<le> control_socket s"
    and json: "json = render_object (auth_challenge_fields i (device_id s) e n m)"
    and short: "length (proof_reply_of i e n m s) \<le> 2048"
  shows "OnAuthChallenge env json l s =
    (l\<lparr>authChallenge := challenge_of i e n m s, stage := kAuthFinal\<rparr>,
     s\<lparr>socket_out := socket_out s @ EncodeFrame kText (proof_reply_of i e n m s)\<rparr>, GoOn)"
proof -
  have ids: "SessionSenderIdValid i" "Hex (device_id s) 32" "Hex n 64" "IsValidMediaContract m" "e \<noteq> 0"
    and trusted: "trusted_sender_id s = i" "Hex (trusted_credential s) 64"
      "EvaluateSourceContract e m (latest_source_epoch s) (active_media_contract s) = SourceAccepted"
    using ready by (simp_all add: sender_ready_def)
  note rd = auth_challenge_read [OF ids(1-4) json]
  have paired: "i \<noteq> ''''" using ids(1) by (auto simp: SessionSenderIdValid_def)
  have "ComputeAuthProof (trusted_credential s) i (device_id s) e n m \<noteq> ''''"
    using ComputeAuthProof_defined [OF ids(1,2) trusted(2) ids(3,5,4)] by force
  then show ?thesis
    using ids trusted paired rd Hex_nonempty(1) [OF trusted(2)] SendControl_whole [OF sends short]
    by (simp add: OnAuthChallenge_def Let_def uint32_field_uint challenge_of_def proof_reply_of_def)
qed

lemma reply_lengths:
  assumes "sender_ready i e n m s"
  shows "length (proof_reply_of i e n m s) \<le> 2048" "length (ready_reply e m) \<le> 2048"
proof -
  have len: "length i \<le> 64" "length (device_id s) = 32" "length n = 64"
    using assms by (simp_all add: sender_ready_def SessionSenderIdValid_def Hex_def)
  have proof64: "length (ComputeAuthProof (trusted_credential s) i (device_id s) e n m) = 64"
    using assms by (intro ComputeAuthProof_defined) (simp_all add: sender_ready_def)
  have decs: "length (dec (unat (x :: u32))) \<le> 10" for x
    using length_int_dec_u32 [of x] by (simp add: int_dec_def)
  show "length (proof_reply_of i e n m s) \<le> 2048"
    using len proof64 decs [of e] by (simp add: proof_reply_of_def auth_proof_reply_def)
  show "length (ready_reply e m) \<le> 2048"
    using decs [of e] decs [of "width m"] decs [of "height m"] decs [of "maxFps m"] by (simp add: ready_reply_def)
qed

lemma trusted_source_taken:
  assumes inv: "session_inv s" and ready: "sender_ready i e n m s"
    and sends: "sends_whole (reply_send env)" "0 \<le> control_socket s" and codec: "codec_ready (codec_results env)"
    and json: "json = render_object (auth_fields i (device_id s) (trusted_credential s) e n m)"
    and l: "authChallenge l = challenge_of i e n m s" and result: "OnAuthFinal env json l s = (l', t, r)"
  shows "r = Ended True \<and> socket_out t = socket_out s @ EncodeFrame kText (ready_reply e m)"
proof -
  have ids: "SessionSenderIdValid i" "Hex (device_id s) 32" "Hex (trusted_credential s) 64" "Hex n 64" "IsValidMediaContract m"
    using ready by (simp_all add: sender_ready_def)
  note rd = auth_message_read [OF ids json]
  have matches: "auth_final_matches json (authChallenge l)" using rd(1) l by (simp add: challenge_of_def)
  have trusted: "auth_trusted json s"
    using rd(2-4) ready ConstantTimeEqualSized_iff [of "trusted_credential s" "trusted_credential s" 64] ids(3)
    by (simp add: auth_trusted_def sender_ready_def ConstantTimeEqual_def Hex_def)
  have accepted: "EvaluateSourceContract e m (latest_source_epoch s) (active_media_contract s) = SourceAccepted"
    using ready by (simp add: sender_ready_def)
  let ?taken = "take_source e m s"
  obtain u where u: "prepare_decoder (codec_results env) (active_media_contract s) m ?taken = (u, True)"
    using prepare_decoder_succeeds [OF codec ids(5), of ?taken "active_media_contract s"] inv
    by (cases "prepare_decoder (codec_results env) (active_media_contract s) m ?taken")
      (simp add: take_source_def session_inv_def)
  then have "decoder_frame ?taken u"
    using FlushDecoder_frame [of ?taken "codec_results env"] ReconfigureDecoder_frame [of ?taken "codec_results env" m]
    by (auto simp: prepare_decoder_def split: if_splits)
  then have kept: "control_socket u = control_socket s" "socket_out u = socket_out s"
    using decoder_frame_fields [of ?taken u] by (simp_all add: take_source_def)
  then have "SendControl (reply_send env) (ready_reply e m) u =
      (u\<lparr>socket_out := socket_out s @ EncodeFrame kText (ready_reply e m)\<rparr>, True)"
    using SendControl_whole [OF sends(1) _ reply_lengths(2) [OF ready], of u] sends(2) by simp
  then have "OnAuthFinal env json l s =
      (l, SetState StateConnected SenderConnected True True
            (u\<lparr>socket_out := socket_out s @ EncodeFrame kText (ready_reply e m)\<rparr>), Ended True)"
    using matches trusted accepted u l by (simp add: OnAuthFinal_def challenge_of_def Let_def)
  then show ?thesis using result by (auto simp: SetState_def)
qed

text \<open>One chunk that carries one text message.\<close>

lemma text_chunk:
  assumes "websocket_decoder s = newDecoder" "length key = 4" "length json \<le> 2048"
  shows "AuthenticateChunk envs (text_frame key json) l s =
    AuthenticateMessage (envs 0) \<lparr>opcode = kText, payload = bytes_of json\<rparr> l s"
proof -
  have same: "s\<lparr>websocket_decoder := newDecoder\<rparr> = s" using assms(1) [symmetric] by simp
  obtain l' t r where m: "AuthenticateMessage (envs 0) \<lparr>opcode = kText, payload = bytes_of json\<rparr> l s = (l', t, r)"
    using prod_cases3 by blast
  then show ?thesis
    using Push_text_frame [OF assms(2,3)] assms(1)
    by (cases r) (simp_all add: AuthenticateChunk_def Let_def same)
qed

lemma message_dispatch:
  assumes "length json \<le> 2048" "JsonInteger json ''protocol'' = Some 6"
  shows "JsonString json ''type'' = Some ''auth_challenge'' \<Longrightarrow> stage l = kInitial \<Longrightarrow>
      AuthenticateMessage env \<lparr>opcode = kText, payload = bytes_of json\<rparr> l s = OnAuthChallenge env json l s"
    and "stage l = kAuthFinal \<Longrightarrow>
      AuthenticateMessage env \<lparr>opcode = kText, payload = bytes_of json\<rparr> l s = OnAuthFinal env json l s"
  using assms by (simp_all add: AuthenticateMessage_def Let_def kVersion_def)

definition waiting :: "ReceiverSession \<Rightarrow> bool" where
  "waiting s \<longleftrightarrow> network s = Authenticating newLocals \<and> websocket_decoder s = newDecoder \<and>
     session_desired s \<and> 0 \<le> control_socket s"

definition platform_ready :: "MessageEnv \<Rightarrow> bool" where
  "platform_ready env \<longleftrightarrow> sends_whole (reply_send env) \<and> codec_ready (codec_results env)"

definition connecting_events :: "byte list \<Rightarrow> byte list \<Rightarrow> string \<Rightarrow> u32 \<Rightarrow> string \<Rightarrow> MediaContract \<Rightarrow>
    MessageEnv \<Rightarrow> ReceiverSession \<Rightarrow> session_event list" where
  "connecting_events key1 key2 i e n m env s =
     [NetAuthenticate False (RecvData (text_frame key1
        (render_object (auth_challenge_fields i (device_id s) e n m)))) (\<lambda>_. env),
      NetAuthenticate False (RecvData (text_frame key2
        (render_object (auth_fields i (device_id s) (trusted_credential s) e n m)))) (\<lambda>_. env)]"

lemma challenge_step:
  assumes "waiting s" and ready: "sender_ready i e n m s" and platform: "platform_ready env" and key: "length key = 4"
  shows "session_step (NetAuthenticate False (RecvData (text_frame key
      (render_object (auth_challenge_fields i (device_id s) e n m)))) (\<lambda>_. env)) s =
    s\<lparr>socket_out := socket_out s @ EncodeFrame kText (proof_reply_of i e n m s),
      network := Authenticating (newLocals\<lparr>authChallenge := challenge_of i e n m s, stage := kAuthFinal\<rparr>)\<rparr>"
proof -
  let ?json = "render_object (auth_challenge_fields i (device_id s) e n m)"
  have ids: "SessionSenderIdValid i" "Hex (device_id s) 32" "Hex n 64" "IsValidMediaContract m"
    and c: "Hex (trusted_credential s) 64"
    using ready by (simp_all add: sender_ready_def)
  have short: "length ?json \<le> 2048" by (rule message_lengths(2) [OF ids(1,2) c ids(3)])
  have live: "network s = Authenticating newLocals" "session_desired s" "0 \<le> control_socket s"
      "websocket_decoder s = newDecoder"
    using assms(1) by (simp_all add: waiting_def)
  note read = auth_challenge_read [OF ids refl]
  have "AuthenticateChunk (\<lambda>_. env) (text_frame key ?json) newLocals s = OnAuthChallenge env ?json newLocals s"
    using text_chunk [OF live(4) key short, of "\<lambda>_. env" newLocals]
      message_dispatch(1) [OF short read(4) read(5), of newLocals env s]
    by (simp add: newLocals_def)
  also have "\<dots> = (newLocals\<lparr>authChallenge := challenge_of i e n m s, stage := kAuthFinal\<rparr>,
      s\<lparr>socket_out := socket_out s @ EncodeFrame kText (proof_reply_of i e n m s)\<rparr>, GoOn)"
    using platform by (intro challenge_answered [OF ready _ live(3) refl reply_lengths(1) [OF ready]])
      (simp add: platform_ready_def)
  finally show ?thesis using live by (simp add: AuthenticateIteration_def)
qed

lemma final_step:
  assumes inv: "session_inv s" and live: "network s = Authenticating l" "session_desired s" "0 \<le> control_socket s"
      "websocket_decoder s = newDecoder"
    and l: "stage l = kAuthFinal" "authChallenge l = challenge_of i e n m s"
    and ready: "sender_ready i e n m s" and platform: "platform_ready env" and key: "length key = 4"
    and t: "t = session_step (NetAuthenticate False (RecvData (text_frame key
      (render_object (auth_fields i (device_id s) (trusted_credential s) e n m)))) (\<lambda>_. env)) s"
  shows "network t = InSession \<and> socket_out t = socket_out s @ EncodeFrame kText (ready_reply e m)"
proof -
  let ?json = "render_object (auth_fields i (device_id s) (trusted_credential s) e n m)"
  have ids: "SessionSenderIdValid i" "Hex (device_id s) 32" "Hex (trusted_credential s) 64" "Hex n 64" "IsValidMediaContract m"
    using ready by (simp_all add: sender_ready_def)
  have short: "length ?json \<le> 2048" by (rule message_lengths(1) [OF ids(1-4)])
  note read = auth_message_read [OF ids refl]
  obtain l' u r where final: "OnAuthFinal env ?json l s = (l', u, r)" by (cases "OnAuthFinal env ?json l s") blast
  have u: "r = Ended True \<and> socket_out u = socket_out s @ EncodeFrame kText (ready_reply e m)"
    using platform by (intro trusted_source_taken [OF inv ready _ live(3) _ refl l(2) final]) (simp_all add: platform_ready_def)
  have "AuthenticateChunk (\<lambda>_. env) (text_frame key ?json) l s = OnAuthFinal env ?json l s"
    using text_chunk [OF live(4) key short, of "\<lambda>_. env" l] message_dispatch(2) [OF short read(5) l(1), of env s] by simp
  then show ?thesis using live final u by (simp add: t AuthenticateIteration_def)
qed

lemma trusted_dialogue:
  assumes inv: "session_inv s" and waiting: "waiting s" and ready: "sender_ready i e n m s"
    and platform: "platform_ready env" and keys: "length key1 = 4" "length key2 = 4"
    and t: "t = fold session_step (connecting_events key1 key2 i e n m env s) s"
  shows "network t = InSession \<and> socket_out t =
    socket_out s @ EncodeFrame kText (proof_reply_of i e n m s) @ EncodeFrame kText (ready_reply e m)"
proof -
  let ?u = "s\<lparr>socket_out := socket_out s @ EncodeFrame kText (proof_reply_of i e n m s),
      network := Authenticating (newLocals\<lparr>authChallenge := challenge_of i e n m s, stage := kAuthFinal\<rparr>)\<rparr>"
  have first: "session_step (hd (connecting_events key1 key2 i e n m env s)) s = ?u"
    using challenge_step [OF waiting ready platform keys(1)] by (simp add: connecting_events_def)
  then have "session_inv ?u" using session_step_inv [OF inv] by metis
  then have "network t = InSession \<and> socket_out t = socket_out ?u @ EncodeFrame kText (ready_reply e m)"
    using waiting ready platform keys(2) t first
    by (intro final_step [where l = "newLocals\<lparr>authChallenge := challenge_of i e n m s, stage := kAuthFinal\<rparr>"
          and i = i and n = n and env = env and key = key2])
      (simp_all add: waiting_def sender_ready_def challenge_of_def connecting_events_def)
  then show ?thesis by simp
qed

section \<open>An example run\<close>

text \<open>A receiver on one Wi-Fi interface, a trusted sender, and the upgrade of its connection.\<close>

definition example_wlan :: "network_interface list option" where
  "example_wlan = Some [\<lparr>ifa_name = ''wlan0'', ifa_address = Some (Ipv4Address 192 168 1 10), ifa_up = True,
     ifa_loopback = False, ifa_index = 3\<rparr>]"

definition example_sender :: string where "example_sender = replicate 16 (CHR ''a'')"
definition example_device :: string where "example_device = replicate 32 (CHR ''b'')"
definition example_secret :: string where "example_secret = replicate 64 (CHR ''c'')"
definition example_nonce :: string where "example_nonce = replicate 64 (CHR ''d'')"

definition example_headers :: "(string \<times> string) list" where
  "example_headers =
     [(''Host'', ''h''), (''Upgrade'', ''websocket''), (''Connection'', ''Upgrade''),
      (''Sec-WebSocket-Key'', ''dGhlIHNhbXBsZSBub25jZQ==''), (''Sec-WebSocket-Version'', ''13'')]"

definition example_request :: string where
  "example_request = render_request ''GET /direct HTTP/1.1'' example_headers"

definition example_waiting_run :: "session_event list" where
  "example_waiting_run =
     [ConfigureTrustCall example_device example_sender example_secret 1,
      StartCall example_wlan '''' ''192.168.1.10'',
      NetBegin example_wlan 3 True True \<lparr>open_ok = True, thread_ok = True, random_delay = 0, clock_started = 0\<rparr>,
      NetAccept example_wlan (Some (4, Ipv4Address 192 168 1 20)) [RecvBytes example_request] 129]"

lemma example_response: "\<exists>r. BuildUpgradeResponse example_request = Some r \<and> length r = 129"
proof -
  let ?key = "''dGhlIHNhbXBsZSBub25jZQ==''"
  have "BuildUpgradeResponse example_request = Some (render_request ''HTTP/1.1 101 Switching Protocols''
       [(''Upgrade'', ''websocket''), (''Connection'', ''Upgrade''), (''Sec-WebSocket-Accept'', accept_token ?key)])"
    unfolding example_request_def
    by (rule BuildUpgradeResponse_render [where connection = "''Upgrade''"])
       (simp_all add: example_headers_def wf_header_def header_value_def Lower_def tolower_def isupper_def ord_def
         render_request_def header_line_def char_of_def bit_0)
  moreover have "length (accept_token ?key) = 28"
    by (simp add: accept_token_def Base64_def length_Base64_loop flip: Sha1_eq_fips)
  ultimately show ?thesis by (simp add: render_request_def header_line_def)
qed

lemma example_request_read: "ReadUpgradeRequest '''' [RecvBytes example_request] = Some (True, example_request)"
proof -
  have len: "length example_request \<le> 16384" and "upgrade_complete example_request" "\<not> upgrade_complete ''''"
    by (simp_all add: upgrade_complete_def example_request_def example_headers_def render_request_def header_line_def)
  then show ?thesis by (subst ReadUpgradeRequest.simps, subst ReadUpgradeRequest.simps) simp
qed

lemma example_upgrade: "\<exists>r. ReadUpgrade [RecvBytes example_request] 129 s = (s\<lparr>socket_out := socket_out s @ r\<rparr>, True)"
  using example_response by (auto simp: ReadUpgrade_def example_request_read SendWhole_def)

lemma example_wifi: "IsCurrentWifiIpv4 ''192.168.1.10'' example_wlan = Some 3"
proof -
  have "ParseIpv4Address ''192.168.1.10'' = Some (Ipv4Address 192 168 1 10)"
    by (simp add: ParseIpv4Address_iff dec.simps digit_char_def char_of_def bit_0)
  then show ?thesis
    by (simp add: IsCurrentWifiIpv4_def ValidIpv4_def example_wlan_def wlan_candidate_def word_le_nat_alt)
qed

lemma example_trust_steps:
  "session_step (ConfigureTrustCall example_device example_sender example_secret 1) newSession =
     newSession\<lparr>device_id := example_device, trusted_sender_id := example_sender,
       trusted_credential := example_secret, pairing_record_version := 1\<rparr>"
  by (simp add: ConfigureTrust_def Hex_def SessionSenderIdValid_def example_device_def example_sender_def
      example_secret_def isdigit_def ord_def list_all_iff)

lemma StartSession_listens:
  fixes s :: ReceiverSession
  assumes "IsCurrentWifiIpv4 address interfaces = Some i" "device_id s \<noteq> ''''"
    and t: "t = fst (StartSession interfaces generated address s)"
  shows "network t = Opening" "session_desired t" "listen_address t = address" "listen_interface_index t = i"
    "websocket_decoder t = Reset (websocket_decoder s)" "device_id t = device_id s" "trust t = trust s" "source t = source s"
proof -
  have id: "device_id (StopSession s) = device_id s" and ws: "websocket_decoder (StopSession s) = Reset (websocket_decoder s)"
    by (simp_all add: StopSession_def SetState_def ResetRecovery_def coordinate_def ClearTelemetry_def ResetWebsocket_def
        CloseSockets_def NetworkExit_def Let_def)
  show "trust t = trust s" "source t = source s" using t by (simp_all add: StartSession_store)
  show "network t = Opening" "session_desired t" "listen_address t = address" "listen_interface_index t = i"
    "websocket_decoder t = Reset (websocket_decoder s)" "device_id t = device_id s"
    using assms id ws by (simp_all add: StartSession_def SetState_def ResetRecovery_def coordinate_def Let_def)
qed

lemma NetworkBegin_listens:
  fixes s :: ReceiverSession
  assumes "IsCurrentWifiIpv4 (listen_address s) interfaces = Some i" "0 \<le> fd"
    and t: "t = NetworkBegin interfaces fd True True rs s"
  shows "network t = Accepting" "session_desired t = session_desired s" "listener_socket t = fd"
    "listen_address t = listen_address s" "listen_interface_index t = listen_interface_index s"
    "websocket_decoder t = websocket_decoder s" "device_id t = device_id s" "trust t = trust s" "source t = source s"
  using assms by (simp_all add: NetworkBegin_def OpenListener_def SetState_def store_defs Let_def)

lemma AcceptIteration_waits:
  fixes s :: ReceiverSession
  assumes "session_desired s" "IsCurrentWifiIpv4 (listen_address s) interfaces = Some (listen_interface_index s)"
    and "0 \<le> listener_socket s" "0 \<le> fd" "private_peer peer" "websocket_decoder s = newDecoder"
    and upgrade: "\<And>u. \<exists>r. ReadUpgrade events returned u = (u\<lparr>socket_out := socket_out u @ r\<rparr>, True)"
    and t: "t = AcceptIteration interfaces (Some (fd, peer)) events returned s"
  shows "waiting t" "device_id t = device_id s" "trust t = trust s" "source t = source s"
proof -
  let ?u = "s\<lparr>control_socket := fd, socket_out := [], paired_address := Ipv4Text peer\<rparr>"
  obtain r where "ReadUpgrade events returned ?u = (?u\<lparr>socket_out := socket_out ?u @ r\<rparr>, True)"
    using upgrade [of ?u] by blast
  then have "t = ?u\<lparr>socket_out := r, network := Authenticating newLocals\<rparr>"
    using assms(1-5) t by (simp add: AcceptIteration_def ContinueWithCurrentAddress_def AcceptWebSocket_def Let_def)
  then show "waiting t" "device_id t = device_id s" "trust t = trust s" "source t = source s"
    using assms(1,4,6) by (simp_all add: waiting_def store_defs)
qed

lemma example_waiting:
  defines "s \<equiv> session_run example_waiting_run"
  shows "waiting s" "device_id s = example_device" "trust s = (example_sender, example_secret, 1)" "source s = (0, noContract)"
proof -
  let ?s1 = "newSession\<lparr>device_id := example_device, trusted_sender_id := example_sender,
       trusted_credential := example_secret, pairing_record_version := 1\<rparr>"
  let ?s2 = "fst (StartSession example_wlan '''' ''192.168.1.10'' ?s1)"
  let ?rs = "\<lparr>open_ok = True, thread_ok = True, random_delay = 0, clock_started = 0\<rparr>"
  let ?s3 = "NetworkBegin example_wlan 3 True True ?rs ?s2"
  let ?s4 = "AcceptIteration example_wlan (Some (4, Ipv4Address 192 168 1 20)) [RecvBytes example_request] 129 ?s3"
  have id: "device_id ?s1 \<noteq> ''''" by (simp add: example_device_def)
  have first: "trust ?s1 = (example_sender, example_secret, 1)" "source ?s1 = (0, noContract)" "device_id ?s1 = example_device"
      "Reset (websocket_decoder ?s1) = newDecoder"
    by (simp_all add: store_defs newSession_def ReceiverSession.defs DecoderSide.defs newDecoderSide_def newDecoder_def Reset_def)
  note two = StartSession_listens [OF example_wifi id refl, of "''''"]
  have wifi: "IsCurrentWifiIpv4 (listen_address ?s2) example_wlan = Some 3" using two(3) example_wifi by simp
  note three = NetworkBegin_listens [OF wifi _ refl, of 3 ?rs]
  have step3: "session_desired ?s3" "IsCurrentWifiIpv4 (listen_address ?s3) example_wlan = Some (listen_interface_index ?s3)"
      "0 \<le> listener_socket ?s3" "websocket_decoder ?s3 = newDecoder"
    using two three example_wifi first(4) by simp_all
  note four = AcceptIteration_waits [OF step3(1-3) _ _ step3(4) example_upgrade refl, of 4 "Ipv4Address 192 168 1 20"]
  have run: "s = ?s4"
    using two(1) three(1)
    by (simp add: s_def session_run_def example_waiting_run_def example_trust_steps del: session_step.simps(3))
  show "waiting s" "device_id s = example_device" "trust s = (example_sender, example_secret, 1)" "source s = (0, noContract)"
    unfolding run using four three two first by simp_all
qed

definition example_contract :: MediaContract where
  "example_contract = \<lparr>width = 1280, height = 720, maxFps = 30\<rparr>"

definition example_env :: MessageEnv where
  "example_env = \<lparr>wall_clock = 0, fresh_credential = '''',
     reply_send = \<lparr>lock_taken = True, send_script = [SentBytes 1000000]\<rparr>,
     codec_results = \<lparr>create = Some 1, registerCallback = AV_ERR_OK, format_made = True, configure = AV_ERR_OK,
       setSurface = AV_ERR_OK, prepare = AV_ERR_OK, start = AV_ERR_OK, flushed = True, restarted = True\<rparr>\<rparr>"

definition example_key :: "byte list" where "example_key = [1, 2, 3, 4]"

lemma example_ready:
  "sender_ready example_sender 1 example_nonce example_contract (session_run example_waiting_run)"
  "platform_ready example_env" "length example_key = 4"
proof -
  have fields: "device_id (session_run example_waiting_run) = example_device"
      "trusted_sender_id (session_run example_waiting_run) = example_sender"
      "trusted_credential (session_run example_waiting_run) = example_secret"
      "latest_source_epoch (session_run example_waiting_run) = 0"
      "active_media_contract (session_run example_waiting_run) = noContract"
    using example_waiting(2-4) by (simp_all add: trust_def source_def)
  have "IsValidMediaContract example_contract"
    by (simp add: IsValidMediaContract_def example_contract_def Let_def max_def min_def word_le_nat_alt unat_mod)
  then show "sender_ready example_sender 1 example_nonce example_contract (session_run example_waiting_run)"
    by (simp add: sender_ready_def fields Hex_def SessionSenderIdValid_def list_all_iff isdigit_def ord_def
        example_device_def example_sender_def example_secret_def example_nonce_def EvaluateSourceContract_def)
  show "platform_ready example_env" "length example_key = 4"
    by (simp_all add: platform_ready_def sends_whole_def codec_ready_def all_succeed_def example_env_def example_key_def)
qed

definition example_connecting :: "session_event list" where
  "example_connecting = connecting_events example_key example_key example_sender 1 example_nonce example_contract
     example_env (session_run example_waiting_run)"

lemma example_connects:
  "network (session_run example_waiting_run) \<noteq> InSession"
  "network (session_run (example_waiting_run @ [hd example_connecting])) \<noteq> InSession"
  "network (session_run ((example_waiting_run @ [hd example_connecting]) @ [last example_connecting])) = InSession"
  "trusted_credential (session_run (example_waiting_run @ [hd example_connecting])) = example_secret"
proof -
  let ?s = "session_run example_waiting_run"
  note w = example_waiting(1)
  have step: "session_step (hd example_connecting) ?s =
    ?s\<lparr>socket_out := socket_out ?s @ EncodeFrame kText (proof_reply_of example_sender 1 example_nonce example_contract ?s),
      network := Authenticating (newLocals\<lparr>authChallenge := challenge_of example_sender 1 example_nonce example_contract ?s,
        stage := kAuthFinal\<rparr>)\<rparr>"
    using challenge_step [OF w example_ready] by (simp add: example_connecting_def connecting_events_def)
  have all: "[hd example_connecting, last example_connecting] = example_connecting"
    by (simp add: example_connecting_def connecting_events_def)
  have "network (fold session_step example_connecting ?s) = InSession"
    using trusted_dialogue [OF session_run_inv w example_ready(1,2,3,3) refl] by (simp add: example_connecting_def)
  then have "network (session_step (last example_connecting) (session_step (hd example_connecting) ?s)) = InSession"
    by (subst (asm) all [symmetric]) simp
  then show "network (session_run ((example_waiting_run @ [hd example_connecting]) @ [last example_connecting])) = InSession"
    by (simp add: session_run_def)
  show "network ?s \<noteq> InSession" using w by (simp add: waiting_def)
  show "network (session_run (example_waiting_run @ [hd example_connecting])) \<noteq> InSession"
    "trusted_credential (session_run (example_waiting_run @ [hd example_connecting])) = example_secret"
    using step example_waiting(3) by (simp_all add: session_run_def trust_def)
qed

section \<open>Pairing by short code\<close>

text \<open>The extension's only message of a manual pairing (\<open>extension/direct-client.js\<close>, \<open>pairReceiver\<close>).\<close>

definition manual_pair_fields :: "string \<Rightarrow> string \<Rightarrow> string \<Rightarrow> (string \<times> json_value) list" where
  "manual_pair_fields sessionId token senderId =
     [(''type'', JStr ''pair_manual_ipv4''), (''protocol'', JInt 6), (''mode'', JStr ''pair_manual_ipv4''),
      (''sessionId'', JStr sessionId), (''token'', JStr token), (''senderId'', JStr senderId)]"

text \<open>The user has entered the code the sender shows, in time, and the code has not been used.\<close>

definition code_entered :: "string \<Rightarrow> string \<Rightarrow> string \<Rightarrow> MessageEnv \<Rightarrow> ReceiverSession \<Rightarrow> bool" where
  "code_entered sessionId token senderId env s \<longleftrightarrow>
     Hex sessionId 32 \<and> Hex token 64 \<and> SessionSenderIdValid senderId \<and> Hex (device_id s) 32 \<and>
     Hex (fresh_credential env) 64 \<and> pending_short_code s = PairingShortCode token \<and>
     length (PairingShortCode token) = 6 \<and> sessionId \<noteq> consumed_session_id s \<and>
     to_milliseconds (wall_clock env) < to_milliseconds (pairing_expires_at s)"

lemma manual_pair_read:
  assumes "Hex k 32" "Hex c 64" "SessionSenderIdValid i" and json: "json = render_object (manual_pair_fields k c i)"
  shows "field json ''sessionId'' = k" "field json ''token'' = c" "field json ''senderId'' = i" "field json ''nonce'' = ''''"
    "JsonString json ''type'' = Some ''pair_manual_ipv4''" "JsonString json ''mode'' = Some ''pair_manual_ipv4''"
    "JsonInteger json ''protocol'' = Some 6" "length json \<le> 2048"
proof -
  have safe: "safe_text ''pair_manual_ipv4''" by (simp add: safe_text_def plain_def message_keys_def ord_def)
  have readable: "list_all (\<lambda>(k', v). k' \<in> set message_keys \<and> (case v of JStr w \<Rightarrow> safe_text w | JInt _ \<Rightarrow> True))
      (manual_pair_fields k c i)" "list_all (\<lambda>(_, v). in_int64 v) (manual_pair_fields k c i)"
    using assms safe_ids safe by (simp_all add: manual_pair_fields_def) (simp_all add: message_keys_def in_int64_def)
  note rd = read_fields [OF readable, folded json]
  note keys = message_key_members
  show "field json ''sessionId'' = k" "field json ''token'' = c" "field json ''senderId'' = i" "field json ''nonce'' = ''''"
    "JsonString json ''type'' = Some ''pair_manual_ipv4''" "JsonString json ''mode'' = Some ''pair_manual_ipv4''"
    "JsonInteger json ''protocol'' = Some 6"
    by (simp_all add: field_def rd(1) [OF keys(14)] rd(1) [OF keys(15)] rd(1) [OF keys(4)] rd(1) [OF keys(8)]
        rd(1) [OF keys(1)] rd(1) [OF keys(3)] rd(2) [OF keys(2)] manual_pair_fields_def value_or_def)
  have len: "length k = 32" "length c = 64" "length i \<le> 64"
    using assms by (simp_all add: Hex_def SessionSenderIdValid_def)
  have "EscapeJson k = k" "EscapeJson c = c" "EscapeJson i = i" "EscapeJson ''pair_manual_ipv4'' = ''pair_manual_ipv4''"
    using safe_ids safe assms by (simp_all add: EscapeJson_plain safe_text_def)
  then show "length json \<le> 2048"
    using len by (simp add: json manual_pair_fields_def render_object_def int_dec_def dec.simps)
qed

lemma same_code: "length w = 6 \<Longrightarrow> ConstantTimeEqualSized w w 6"
  using ConstantTimeEqualSized_iff [of w w 6] by simp

text \<open>The final decision when the code matches.\<close>

lemma manual_decision:
  assumes "code_entered k c i env s"
  shows "pair_final_decision env k c i (device_id s) s =
    (s\<lparr>trusted_sender_id := i, trusted_credential := fresh_credential env, consumed_session_id := k,
       pending_session_id := '''', pending_token := '''', pending_short_code := '''',
       pairing_record_version := pairing_record_version s + 1\<rparr>, '''')"
proof -
  have "EvaluatePairingAuthorization k c (pending_session_id s) (pending_token s) (pending_short_code s)
      (consumed_session_id s) (to_milliseconds (pairing_expires_at s)) (to_milliseconds (wall_clock env)) = PairAccepted"
    using assms same_code by (auto simp: EvaluatePairingAuthorization_def code_entered_def Let_def)
  then show ?thesis using assms Hex_nonempty(1) by (auto simp: pair_final_decision_def code_entered_def)
qed

definition manual_pairing :: "byte list \<Rightarrow> string \<Rightarrow> string \<Rightarrow> string \<Rightarrow> MessageEnv \<Rightarrow> session_event" where
  "manual_pairing key sessionId token senderId env =
     NetAuthenticate False (RecvData (text_frame key (render_object (manual_pair_fields sessionId token senderId)))) (\<lambda>_. env)"

lemma manual_pairing_step:
  assumes w: "waiting s" and code: "code_entered k c i env s" and sends: "sends_whole (reply_send env)" and key: "length key = 4"
    and t: "t = session_step (manual_pairing key k c i env) s"
  shows "trust t = (i, fresh_credential env, pairing_record_version s + 1) \<and> consumed_session_id t = k \<and> \<not> pending t \<and>
    socket_out t = socket_out s @ EncodeFrame kText (paired_reply (device_id s) (fresh_credential env)) \<and> network t = Accepting"
proof -
  let ?json = "render_object (manual_pair_fields k c i)"
  let ?reply = "paired_reply (device_id s) (fresh_credential env)"
  let ?u = "s\<lparr>trusted_sender_id := i, trusted_credential := fresh_credential env, consumed_session_id := k,
       pending_session_id := '''', pending_token := '''', pending_short_code := '''',
       pairing_record_version := pairing_record_version s + 1\<rparr>"
  let ?l = "begin_manual ?json newLocals s"
  have ids: "Hex k 32" "Hex c 64" "SessionSenderIdValid i" and reply: "length ?reply \<le> 2048"
    using code by (simp_all add: code_entered_def paired_reply_def Hex_def)
  note read = manual_pair_read [OF ids refl]
  have live: "network s = Authenticating newLocals" "session_desired s" "0 \<le> control_socket s" "websocket_decoder s = newDecoder"
    using w by (simp_all add: waiting_def)
  have sent: "SendControl (reply_send env) ?reply ?u = (?u\<lparr>socket_out := socket_out s @ EncodeFrame kText ?reply\<rparr>, True)"
    using SendControl_whole [OF sends _ reply, of ?u] live(3) by simp
  have "AuthenticateChunk (\<lambda>_. env) (text_frame key ?json) newLocals s =
      AuthenticateMessage env \<lparr>opcode = kText, payload = bytes_of ?json\<rparr> newLocals s"
    by (rule text_chunk [OF live(4) key read(8)])
  also have "\<dots> = OnPairFinal env ?json ?l s"
    using read ids by (simp add: AuthenticateMessage_def newLocals_def kVersion_def Let_def)
  also have "\<dots> = (?l, SetState StatePaired PairingDone True False (?u\<lparr>socket_out := socket_out s @ EncodeFrame kText ?reply\<rparr>),
      Ended False)"
    using read ids(2) manual_decision [OF code] sent by (simp add: OnPairFinal_def begin_manual_def Let_def)
  finally show ?thesis
    using live by (simp add: t manual_pairing_def AuthenticateIteration_def IterationEnd_def SetState_def ResetWebsocket_def
        CloseControlSocket_def trust_def pending_def Let_def)
qed

definition example_session_id :: string where "example_session_id = replicate 32 (CHR ''e'')"

definition example_pairing_env :: MessageEnv where
  "example_pairing_env = example_env\<lparr>fresh_credential := example_nonce\<rparr>"

definition example_authorized_run :: "session_event list" where
  "example_authorized_run = example_waiting_run @ [AuthorizeShortCodeCall 0 (PairingShortCode example_secret)]"

definition example_pairing :: session_event where
  "example_pairing = manual_pairing example_key example_session_id example_secret example_sender example_pairing_env"

lemma example_code: "length (PairingShortCode example_secret) = 6" "list_all isdigit (PairingShortCode example_secret)"
  using PairingShortCode_spec [of example_secret]
  by (simp_all add: example_secret_def lower_hex_digit_def list_all_iff isdigit_def ord_def)

lemma waiting_consumed: "consumed_session_id (session_run example_waiting_run) = ''''"
proof -
  have same: "consumed_session_id (session_step e s) = consumed_session_id s" if mem: "e \<in> set example_waiting_run" for e s
  proof -
    consider "\<exists>a b c d. e = ConfigureTrustCall a b c d" | "\<exists>a b c. e = StartCall a b c" | "\<not> store_event e"
      using mem by (auto simp: example_waiting_run_def store_event_def)
    then show ?thesis
    proof cases
      case 2
      then show ?thesis using StartSession_store(2) by (auto simp: authorization_def)
    next
      case 3
      from other_step_store [OF this, of s] show ?thesis by (simp add: store_defs)
    qed (auto simp: ConfigureTrust_def)
  qed
  have "consumed_session_id (fold session_step es s) = consumed_session_id s" if "set es \<subseteq> set example_waiting_run" for es s
    using that by (induction es arbitrary: s) (simp_all add: same)
  then show ?thesis
    by (simp add: session_run_def newSession_def ReceiverSession.defs DecoderSide.defs newDecoderSide_def)
qed

lemma example_authorized:
  defines "s \<equiv> session_run example_authorized_run"
  shows "waiting s" "code_entered example_session_id example_secret example_sender example_pairing_env s"
    "sends_whole (reply_send example_pairing_env)" "pairing_record_version s = 1"
proof -
  let ?w = "session_run example_waiting_run"
  have s: "s = ?w\<lparr>pending_session_id := '''', pending_token := '''', pending_short_code := PairingShortCode example_secret,
      pairing_expires_at := 60 * 1000000, status_detail := ShortCodeAuthorized\<rparr>"
    using example_code by (simp add: s_def example_authorized_run_def session_run_def AuthorizeShortCode_def)
  show "waiting s" "pairing_record_version s = 1"
    using example_waiting(1,3) by (simp_all add: s waiting_def trust_def)
  show "sends_whole (reply_send example_pairing_env)"
    using example_ready(2) by (simp add: platform_ready_def example_pairing_env_def)
  show "code_entered example_session_id example_secret example_sender example_pairing_env s"
    using example_code example_waiting(2) waiting_consumed
    by (simp add: s code_entered_def example_pairing_env_def example_env_def Hex_def SessionSenderIdValid_def list_all_iff
        isdigit_def ord_def example_session_id_def example_device_def example_sender_def example_secret_def example_nonce_def
        to_milliseconds_def)
qed

lemma example_pairs:
  "trust (session_run (example_authorized_run @ [example_pairing])) = (example_sender, example_nonce, 2)"
  "trust (session_run example_authorized_run) = (example_sender, example_secret, 1)"
proof -
  show "trust (session_run (example_authorized_run @ [example_pairing])) = (example_sender, example_nonce, 2)"
    using manual_pairing_step [OF example_authorized(1-3) example_ready(3) refl] example_authorized(4)
    by (simp add: session_run_def example_pairing_def) (simp add: example_pairing_env_def)
  show "trust (session_run example_authorized_run) = (example_sender, example_secret, 1)"
    using example_waiting(3)
    by (simp add: example_authorized_run_def session_run_def AuthorizeShortCode_def trust_def)
qed

section \<open>Properties\<close>

text \<open>
  C16. The trusted sender gets its session: when the receiver waits for a dialogue, and a sender
  with the trusted id and credential sends its challenge and its final message for a source the
  contract accepts, then after these two messages the session is connected and the receiver has
  sent exactly the challenge's proof and the ready message.
\<close>

theorem trusted_sender_connects:
  assumes "s = session_run es" "waiting s" "sender_ready i e n m s" "platform_ready env"
    and "length key1 = 4" "length key2 = 4"
    and "t = session_run (es @ connecting_events key1 key2 i e n m env s)"
  shows "network t = InSession \<and> socket_out t =
    socket_out s @ EncodeFrame kText (proof_reply_of i e n m s) @ EncodeFrame kText (ready_reply e m)"
  using assms session_run_inv [of es]
  by (intro trusted_dialogue [of s i e n m env key1 key2]) (simp_all add: session_run_def)

lemma trusted_sender_connects_witness:
  "network (session_run (example_waiting_run @ connecting_events example_key example_key example_sender 1 example_nonce
     example_contract example_env (session_run example_waiting_run))) = InSession"
  using trusted_sender_connects [OF refl example_waiting(1) example_ready(1,2,3,3) refl] by simp

text \<open>
  C17. A session is connected only by a received final message that carries the trusted credential,
  names the trusted sender and this device, and brings a source the contract accepts; the ready
  message for that source has been sent when it is.
\<close>

theorem session_needs_credential:
  assumes "s = session_run es" "t = session_run (es @ [e])" "network s \<noteq> InSession" "network t = InSession"
    and "length (trusted_credential s) < 2 ^ 64"
  shows "\<exists>expired received envs env json c. e = NetAuthenticate expired received envs \<and>
    (env, json) \<in> heard received envs s \<and>
    field json ''credential'' = trusted_credential s \<and> Hex (trusted_credential s) 64 \<and>
    field json ''senderId'' = trusted_sender_id s \<and> field json ''deviceId'' = device_id s \<and>
    source_accepted json c s t \<and> ready_sent c t"
proof -
  have step: "t = session_step e s" using assms(1,2) by (simp add: session_run_def)
  from step_connects_authentically [OF session_run_inv assms(3,4) [unfolded step assms(1)]]
  obtain expired received envs env json c where e: "e = NetAuthenticate expired received envs"
      "(env, json) \<in> heard received envs s" "source_accepted json c s t" "ready_sent c t"
    unfolding step assms(1) by blast
  then have m: "auth_final_matches json c" "auth_trusted json s" by (simp_all add: source_accepted_def)
  have "field json ''credential'' = trusted_credential s" by (rule trusted_credential_equal [OF m assms(5)])
  then show ?thesis
    using e m by (intro exI [of _ expired] exI [of _ received] exI [of _ envs] exI [of _ env] exI [of _ json] exI [of _ c])
      (simp add: auth_final_matches_def auth_trusted_def)
qed

lemma session_needs_credential_witness:
  "\<exists>received envs env json. last example_connecting = NetAuthenticate False received envs \<and>
     (env, json) \<in> heard received envs (session_run (example_waiting_run @ [hd example_connecting])) \<and>
     field json ''credential'' = example_secret"
  using session_needs_credential [OF refl refl example_connects(2,3)] example_connects(4)
  by (fastforce simp: example_secret_def example_connecting_def connecting_events_def)

text \<open>
  C18. The trusted sender, its credential and the record's version change only when the application
  configures or forgets them, or when a received message pairs: then the message brought a token
  that the pending, unexpired and unused authorization accepts, its sender is the trusted one with
  the fresh credential, and nothing is pending any more.
\<close>

theorem trust_needs_authorization:
  assumes "s = session_run es" "t = session_run (es @ [e])" "trust t \<noteq> trust s"
  shows "(\<exists>d i c v. e = ConfigureTrustCall d i c v) \<or> e = ForgetDeviceCall \<or>
    (\<exists>expired received envs env json. e = NetAuthenticate expired received envs \<and>
       (env, json) \<in> heard received envs s \<and> pairing_granted env json s t)"
  using trust_step_cases [OF session_run_inv, of e es] assms by (simp add: session_run_def)

lemma trust_needs_authorization_witness:
  "\<exists>received envs env json. example_pairing = NetAuthenticate False received envs \<and>
     (env, json) \<in> heard received envs (session_run example_authorized_run) \<and>
     pairing_granted env json (session_run example_authorized_run)
       (session_run (example_authorized_run @ [example_pairing]))"
proof -
  have "trust (session_run (example_authorized_run @ [example_pairing])) \<noteq> trust (session_run example_authorized_run)"
    by (simp add: example_pairs example_secret_def example_nonce_def)
  from trust_needs_authorization [OF refl refl this] show ?thesis
    by (auto simp: example_pairing_def manual_pairing_def)
qed

text \<open>
  C19. No run of the session pairs more often than its user gives an authorization.
\<close>

theorem pairings_need_authorizations: "count_events pairs es newSession \<le> count_events authorizes es newSession"
proof -
  have "\<not> pending newSession"
    by (simp add: pending_def newSession_def ReceiverSession.defs DecoderSide.defs newDecoderSide_def)
  then show ?thesis using pairings_bounded [OF newSession_inv, of es] by simp
qed

text \<open>
  C21. The code the user enters pairs its sender: one message with a token of that code, before the
  authorization expires, makes the sender the trusted one under the fresh credential, which is what
  the receiver answers, and uses the authorization up.
\<close>

theorem entered_code_pairs:
  assumes "s = session_run es" "waiting s" "code_entered k c i env s" "sends_whole (reply_send env)" "length key = 4"
    and "t = session_run (es @ [manual_pairing key k c i env])"
  shows "trust t = (i, fresh_credential env, pairing_record_version s + 1) \<and> consumed_session_id t = k \<and> \<not> pending t \<and>
    socket_out t = socket_out s @ EncodeFrame kText (paired_reply (device_id s) (fresh_credential env)) \<and> network t = Accepting"
  using assms by (intro manual_pairing_step) (simp_all add: session_run_def)

lemma entered_code_pairs_witness:
  "trust (session_run (example_authorized_run @ [example_pairing])) = (example_sender, example_nonce, 2)"
  using entered_code_pairs [OF refl example_authorized(1-3) example_ready(3) refl] example_authorized(4)
  by (simp add: example_pairing_def) (simp add: example_pairing_env_def)

text \<open>
  C22. In every run the source epoch never decreases, and the media contract changes only together
  with a later epoch.
\<close>

theorem source_epochs_advance: "source_order (source (session_run es)) (source (session_run (es @ fs)))"
  using run_source_order [OF session_run_inv, of es fs] by (simp add: session_run_def)

text \<open>
  C20. Whatever the network, the application and the codec do, in any order, with any number of
  output callbacks in flight, each between any two of its accesses and calls while a surface event or
  a message stops, flushes or replaces the decoder: given that the codec's stop and flush wait for
  the callbacks that are running, the calls made to the codec are all in its contract and leave it in
  the state the session holds for it; every callback in flight is one of that decoder; the decoder is
  configured for the accepted media contract; the epoch frames are matched against is the accepted
  one; and at most three frames and eight messages wait.
\<close>

theorem session_respects_codec:
  "\<exists>c. codec_run (codec_log (session_run es)) None = Some c \<and> codec_matches (session_run es) c \<and>
     decoder_media_contract (session_run es) = active_media_contract (session_run es) \<and>
     active_source_epoch (session_run es) = latest_source_epoch (session_run es) \<and>
     list_all (\<lambda>oc. decoder (session_run es) = Some (output_handle oc)) (outputs_running (session_run es)) \<and>
     length (decode_queue (session_run es)) \<le> 3 \<and> length (messages (telemetry (session_run es))) \<le> 8"
  using session_run_inv [of es] by (auto simp: session_inv_def decoder_inv_def)

text \<open>
  C23. \<open>SendControl\<close> puts a prefix of the message's frame on the socket after what was sent before,
  and the whole frame whenever it reports success.
\<close>

theorem control_frames_in_order:
  assumes "SendControl c json s = (t, ok)"
  shows "\<exists>out rest. socket_out t = socket_out s @ out \<and> EncodeFrame kText json = out @ rest \<and> (ok \<longrightarrow> rest = [])"
  using SendControl_sent [OF assms] .

lemma control_frames_in_order_witness:
  "\<exists>out rest. socket_out (fst (SendControl \<lparr>lock_taken = True, send_script = [SentBytes 1, SendFailed]\<rparr> ''{}''
       (newSession\<lparr>control_socket := 4\<rparr>))) = out \<and> EncodeFrame kText ''{}'' = out @ rest"
proof -
  let ?c = "\<lparr>lock_taken = True, send_script = [SentBytes 1, SendFailed]\<rparr>"
  obtain t ok where send: "SendControl ?c ''{}'' (newSession\<lparr>control_socket := 4\<rparr>) = (t, ok)" by fastforce
  have "socket_out newSession = []"
    by (simp add: newSession_def ReceiverSession.defs DecoderSide.defs newDecoderSide_def)
  then show ?thesis using control_frames_in_order [OF send] send by auto
qed

end
