(* ===== verification/Receiver_Bindings.thy ===== *)
theory Receiver_Bindings
  imports Receiver_Trust "HOL-Library.Log_Nat"
begin

text \<open>
  The calls of the user interface into the receiver: \<open>receiver/entry/src/main/cpp/napi_init.cpp\<close>, with
  \<open>video_surface_layout.h\<close>. A call takes JavaScript values and returns one; numbers cross as doubles.
  The lemmas show that a call is nothing but a step of the session, so that what holds of all runs
  of the session holds of all programs of the user interface, and that the pairing a program reads
  can be given back after a restart.
\<close>

section \<open>Values\<close>

text \<open>A finite double is the rational it stands for; a text is its UTF-8 encoding.\<close>

datatype js_number = NotFinite | Finite rat

datatype js_value =
    JsUndefined
  | JsBoolean bool
  | JsNumber js_number
  | JsString string
  | JsArray "js_value list"
  | JsObject "(string \<times> js_value) list"

fun member :: "string \<Rightarrow> js_value \<Rightarrow> js_value" where
  "member key (JsObject entries) = (case map_of entries key of None \<Rightarrow> JsUndefined | Some v \<Rightarrow> v)"
| "member key v = JsUndefined"

definition ArgumentString :: "js_value \<Rightarrow> string" where
  "ArgumentString v = (case v of JsString t \<Rightarrow> t | _ \<Rightarrow> '''')"

text \<open>\<open>napi_get_value_double\<close> leaves its output alone, which the callers set to zero, on other values.\<close>

definition argument_double :: "js_value \<Rightarrow> js_number" where
  "argument_double v = (case v of JsNumber x \<Rightarrow> x | _ \<Rightarrow> Finite 0)"

text \<open>
  A cast of a double to an integer drops the fraction. For a number out of range the language leaves
  the result open; \<open>other\<close> is what the compiled code gives.
\<close>

definition truncated :: "rat \<Rightarrow> int" where
  "truncated q = (if 0 \<le> q then \<lfloor>q\<rfloor> else \<lceil>q\<rceil>)"

definition cast_u64 :: "(js_number \<Rightarrow> u64) \<Rightarrow> js_number \<Rightarrow> u64" where
  "cast_u64 other x =
     (case x of
        NotFinite \<Rightarrow> other x
      | Finite q \<Rightarrow> if 0 \<le> truncated q \<and> truncated q < 2 ^ 64 then word_of_int (truncated q) else other x)"

definition cast_i64 :: "(js_number \<Rightarrow> u64) \<Rightarrow> js_number \<Rightarrow> int" where
  "cast_i64 other x =
     (case x of
        NotFinite \<Rightarrow> sint (other x)
      | Finite q \<Rightarrow> if - (2 ^ 63) \<le> truncated q \<and> truncated q < 2 ^ 63 then truncated q else sint (other x))"

text \<open>The cast the other way rounds to a number with 53 digits, to the even one of two that are as near.\<close>

definition nearest_double :: "nat \<Rightarrow> nat" where
  "nearest_double n =
     (let unit = 2 ^ (floorlog 2 n - 53); q = n div unit; r = n mod unit
      in (if unit < 2 * r \<or> unit = 2 * r \<and> odd q then q + 1 else q) * unit)"

lemma nearest_double_exact: "n < 2 ^ 53 \<Longrightarrow> nearest_double n = n"
  using floorlog_leI [of n 2 53] by (simp add: nearest_double_def)

definition exported :: "u64 \<Rightarrow> js_number" where
  "exported v = Finite (of_nat (nearest_double (unat v)))"

lemma cast_exported: "unat v < 2 ^ 53 \<Longrightarrow> cast_u64 other (exported v) = v"
proof -
  assume "unat v < 2 ^ 53"
  moreover have "uint v < 2 ^ 64" using uint_lt2p [of v] by simp
  moreover have "truncated (of_nat n) = int n" for n by (simp add: truncated_def)
  ultimately show ?thesis by (simp only: exported_def cast_u64_def nearest_double_exact js_number.case) simp
qed

section \<open>The calls\<close>

text \<open>What the platform gives while a call runs.\<close>

record BindingEnv =
  call_interfaces :: "network_interface list option"
  generated_id :: string
  system_now :: int
  cast_other :: "js_number \<Rightarrow> u64"
  call_codec :: CodecResults
  detail_text :: "Detail \<Rightarrow> string"

type_synonym js_call = "BindingEnv \<Rightarrow> js_value list \<Rightarrow> ReceiverSession \<Rightarrow> ReceiverSession \<times> js_value"

definition returns_boolean :: "ReceiverSession \<times> bool \<Rightarrow> ReceiverSession \<times> js_value" where
  "returns_boolean r = (fst r, JsBoolean (snd r))"

definition StartReceiver :: js_call where
  "StartReceiver env args s = returns_boolean
     (case args of
        [address] \<Rightarrow> StartSession (call_interfaces env) (generated_id env) (ArgumentString address) s
      | _ \<Rightarrow> (s, False))"

definition StopReceiver :: js_call where
  "StopReceiver env args s = (StopSession s, JsUndefined)"

definition ConfigureTrust_js :: js_call where
  "ConfigureTrust_js env args s = returns_boolean
     (case args of
        [deviceId, senderId, credential, version] \<Rightarrow>
          ConfigureTrust (ArgumentString deviceId) (ArgumentString senderId) (ArgumentString credential)
            (cast_u64 (cast_other env) (argument_double version)) s
      | _ \<Rightarrow> (s, False))"

definition AuthorizeQr_js :: js_call where
  "AuthorizeQr_js env args s = returns_boolean
     (case args of
        [sessionId, token, expiresAt] \<Rightarrow>
          AuthorizeQr (system_now env) (ArgumentString sessionId) (ArgumentString token)
            (cast_i64 (cast_other env) (argument_double expiresAt)) s
      | _ \<Rightarrow> (s, False))"

definition AuthorizeShortCode_js :: js_call where
  "AuthorizeShortCode_js env args s = returns_boolean
     (case args of
        [shortCode] \<Rightarrow> AuthorizeShortCode (system_now env) (ArgumentString shortCode) s
      | _ \<Rightarrow> (s, False))"

definition ForgetDevice_js :: js_call where
  "ForgetDevice_js env args s = (ForgetDevice s, JsUndefined)"

text \<open>What is read: the fields that \<open>SetString\<close>, \<open>SetBoolean\<close> and \<open>SetInteger\<close> set.\<close>

definition SetString :: "string \<Rightarrow> string \<Rightarrow> string \<times> js_value" where
  "SetString key v = (key, JsString v)"

definition SetBoolean :: "string \<Rightarrow> bool \<Rightarrow> string \<times> js_value" where
  "SetBoolean key v = (key, JsBoolean v)"

definition SetInteger :: "string \<Rightarrow> u64 \<Rightarrow> string \<times> js_value" where
  "SetInteger key v = (key, JsNumber (exported v))"

fun state_text :: "SessionState \<Rightarrow> string" where
  "state_text StateIdle = ''idle''"
| "state_text StateStarting = ''starting''"
| "state_text StateListening = ''listening''"
| "state_text StatePaired = ''paired''"
| "state_text StateConnected = ''connected''"
| "state_text StateDisplaying = ''displaying''"
| "state_text StateError = ''error''"

definition GetStatus :: js_call where
  "GetStatus env args s =
     (let status = Status s
      in (s, JsObject
           [SetString ''state'' (state_text (snap_state status)),
            SetString ''detail'' (detail_text env (snap_detail status)),
            SetString ''listenAddress'' (snap_listenAddress status),
            SetString ''pairedAddress'' (snap_pairedAddress status),
            SetString ''deviceId'' (snap_deviceId status),
            SetBoolean ''listening'' (snap_listening status),
            SetBoolean ''connected'' (snap_connected status),
            SetBoolean ''paired'' (snap_paired status),
            SetBoolean ''automaticAddressPublished'' (automaticAddressPublished status),
            SetBoolean ''automaticAddressConflict'' (automaticAddressConflict status),
            SetBoolean ''automaticAddressFailed'' (automaticAddressFailed status),
            SetInteger ''framesDecoded'' (snap_framesDecoded status),
            SetInteger ''framesDropped'' (snap_framesDropped status),
            SetInteger ''receivedFrames'' (snap_receivedFrames status),
            SetInteger ''mediaWidth'' (ucast (mediaWidth status)),
            SetInteger ''mediaHeight'' (ucast (mediaHeight status)),
            SetInteger ''mediaMaxFps'' (ucast (mediaMaxFps status))]))"

definition GetPairing :: js_call where
  "GetPairing env args s =
     (let pairing = Pairing s
      in (s, JsObject
           [SetString ''deviceId'' (record_deviceId pairing), SetString ''senderId'' (record_senderId pairing),
            SetString ''credential'' (record_credential pairing), SetInteger ''version'' (record_version pairing)]))"

definition GetWifiAddresses :: js_call where
  "GetWifiAddresses env args s = (s, JsArray (map JsString (WifiAddresses (call_interfaces env))))"

text \<open>
  The layout decision of \<open>video_surface_layout.h\<close>. The products are rounded, or too large for a
  double, which makes them infinite.
\<close>

definition ShouldFitVideoByWidth :: "(rat \<Rightarrow> rat \<Rightarrow> rat option) \<Rightarrow> rat \<Rightarrow> rat \<Rightarrow> rat \<Rightarrow> rat \<Rightarrow> bool" where
  "ShouldFitVideoByWidth multiply media_width media_height container_width container_height =
     (if media_width \<le> 0 \<or> media_height \<le> 0 \<or> container_width \<le> 0 \<or> container_height \<le> 0 then False
      else
        (case (multiply media_width container_height, multiply container_width media_height) of
           (None, _) \<Rightarrow> True
         | (Some a, None) \<Rightarrow> False
         | (Some a, Some b) \<Rightarrow> b \<le> a))"

definition dimension :: "js_value \<Rightarrow> rat option" where
  "dimension v = (case v of JsNumber (Finite q) \<Rightarrow> if 0 < q then Some q else None | _ \<Rightarrow> None)"

definition ShouldFitVideoByWidth_js :: "(rat \<Rightarrow> rat \<Rightarrow> rat option) \<Rightarrow> js_call" where
  "ShouldFitVideoByWidth_js multiply env args s =
     (s, JsBoolean
        (case map dimension args of
           [Some media_width, Some media_height, Some container_width, Some container_height] \<Rightarrow>
             ShouldFitVideoByWidth multiply media_width media_height container_width container_height
         | _ \<Rightarrow> False))"

text \<open>
  Rounding keeps the order of numbers, so the decision is that of the exact aspect ratios whenever
  the picture is relatively at least as wide as its container.
\<close>

lemma fits_relatively_wide_picture:
  assumes "\<And>a b. multiply a b = Some (rounded (a * b))" "mono rounded"
    and "0 < media_height" "0 < container_height" "0 < media_width" "0 < container_width"
    and "container_width / container_height \<le> media_width / media_height"
  shows "ShouldFitVideoByWidth multiply media_width media_height container_width container_height"
proof -
  have "container_width * media_height \<le> media_width * container_height"
    using assms(3,4,7) by (simp add: field_simps)
  then show ?thesis using assms(1,3-6) monoD [OF assms(2)] by (simp add: ShouldFitVideoByWidth_def not_le)
qed

definition OnAppForeground_js :: js_call where
  "OnAppForeground_js env args s = (OnSurfaceEvent (call_codec env) OnAppForeground s, JsUndefined)"

definition OnAppBackground_js :: js_call where
  "OnAppBackground_js env args s = (OnSurfaceEvent (call_codec env) OnAppBackground s, JsUndefined)"

text \<open>The callbacks of the surface that \<open>Init\<close> registers.\<close>

definition surface_callback :: "BindingEnv \<Rightarrow> surface_event \<Rightarrow> ReceiverSession \<Rightarrow> ReceiverSession" where
  "surface_callback env e s = OnSurfaceEvent (call_codec env) e s"

text \<open>The table that \<open>Init\<close> exports.\<close>

definition exported_calls :: "(rat \<Rightarrow> rat \<Rightarrow> rat option) \<Rightarrow> (string \<times> js_call) list" where
  "exported_calls multiply =
     [(''startReceiver'', StartReceiver), (''stopReceiver'', StopReceiver), (''configureTrust'', ConfigureTrust_js),
      (''authorizeQr'', AuthorizeQr_js), (''authorizeShortCode'', AuthorizeShortCode_js),
      (''forgetDevice'', ForgetDevice_js), (''getStatus'', GetStatus), (''getPairing'', GetPairing),
      (''getWifiAddresses'', GetWifiAddresses), (''shouldFitVideoByWidth'', ShouldFitVideoByWidth_js multiply),
      (''onAppForeground'', OnAppForeground_js), (''onAppBackground'', OnAppBackground_js)]"

text \<open>A call of an exported function.\<close>

definition invoke ::
    "(rat \<Rightarrow> rat \<Rightarrow> rat option) \<Rightarrow> string \<Rightarrow> BindingEnv \<Rightarrow> js_value list \<Rightarrow> ReceiverSession \<Rightarrow>
     (ReceiverSession \<times> js_value) option" where
  "invoke multiply name env args s = map_option (\<lambda>call. call env args s) (map_of (exported_calls multiply) name)"

section \<open>A call is a step of the session\<close>

definition at_most_a_step :: "ReceiverSession \<Rightarrow> ReceiverSession \<Rightarrow> bool" where
  "at_most_a_step s t \<longleftrightarrow> t = s \<or> (\<exists>e. t = session_step e s)"

lemma session_steps:
  "at_most_a_step s (fst (StartSession interfaces generated address s))" "at_most_a_step s (StopSession s)"
  "at_most_a_step s (fst (ConfigureTrust d i c v s))" "at_most_a_step s (fst (AuthorizeQr now si token ex s))"
  "at_most_a_step s (fst (AuthorizeShortCode now sc s))" "at_most_a_step s (ForgetDevice s)"
  "at_most_a_step s (OnSurfaceEvent res e s)" "at_most_a_step s s"
  unfolding at_most_a_step_def by (metis session_step.simps)+

lemma surface_callback_steps: "at_most_a_step s (surface_callback env e s)"
  by (simp add: surface_callback_def session_steps)

lemma invoke_steps:
  assumes "invoke multiply name env args s = Some (t, v)"
  shows "at_most_a_step s t"
  using assms session_steps
  by (auto simp: invoke_def exported_calls_def StartReceiver_def StopReceiver_def ConfigureTrust_js_def AuthorizeQr_js_def
      AuthorizeShortCode_js_def ForgetDevice_js_def GetStatus_def GetPairing_def GetWifiAddresses_def
      ShouldFitVideoByWidth_js_def OnAppForeground_js_def OnAppBackground_js_def returns_boolean_def Let_def
      split: if_splits list.splits)

section \<open>The stored pairing is one the store accepts\<close>

definition identifier_of :: "nat \<Rightarrow> string \<Rightarrow> bool" where
  "identifier_of n w \<longleftrightarrow> w = '''' \<or> Hex w n"

lemma LowerHex_Hex: "Hex (LowerHex bs) (2 * length bs)"
  using LowerHex_digits [of _ bs] by (auto simp: Hex_def list_all_iff lower_hex_digit_def)

lemma RandomBytes_length:
  "length got \<le> n \<Longrightarrow> RandomBytes_loop got n script = Some bs \<Longrightarrow> length bs = n"
proof (induction got n script rule: RandomBytes_loop.induct)
  case (1 got n script)
  then show ?case
    by (subst (asm) (3) RandomBytes_loop.simps) (auto split: if_splits list.splits read_result.splits)
qed

text \<open>What \<open>RandomHex\<close> gives is an identifier or nothing.\<close>

lemma RandomHex_identifier: "identifier_of (2 * n) (RandomHex opened n script)"
proof -
  have "length bs = n" if "RandomBytes opened n script = Some bs" for bs
    using that RandomBytes_length [of "[]" n script bs] by (auto simp: RandomBytes_def split: if_splits)
  then show ?thesis
    using LowerHex_Hex by (auto simp: identifier_of_def RandomHex_def split: option.split)
qed

text \<open>Events whose random identifiers come from there.\<close>

definition random_identifiers :: "session_event \<Rightarrow> bool" where
  "random_identifiers e \<longleftrightarrow>
     (case e of
        StartCall _ generated _ \<Rightarrow> identifier_of 32 generated
      | NetAuthenticate _ _ envs \<Rightarrow> (\<forall>i. identifier_of 64 (fresh_credential (envs i)))
      | _ \<Rightarrow> True)"

definition pairing_valid :: "ReceiverSession \<Rightarrow> bool" where
  "pairing_valid s \<longleftrightarrow> identifier_of 32 (device_id s) \<and>
     (trusted_sender_id s = '''' \<and> trusted_credential s = '''' \<or>
      SessionSenderIdValid (trusted_sender_id s) \<and> Hex (trusted_credential s) 64)"

definition dialogue_valid :: "AuthLocals \<Rightarrow> bool" where
  "dialogue_valid l \<longleftrightarrow> (stage l = kPairFinal \<longrightarrow> SessionSenderIdValid (pair_senderId (pairChallenge l)))"

definition store_inv :: "ReceiverSession \<Rightarrow> bool" where
  "store_inv s \<longleftrightarrow> pairing_valid s \<and>
     (case network s of Authenticating l \<Rightarrow> dialogue_valid l | _ \<Rightarrow> True)"

lemma pairing_valid_same: "same_store s t \<Longrightarrow> pairing_valid s \<Longrightarrow> pairing_valid t"
  by (simp add: pairing_valid_def store_defs)

text \<open>The final message of a pairing names the sender whose form was checked when the pairing began.\<close>

lemma OnPairFinal_sender:
  "trust (fst (snd (OnPairFinal env json l s))) = trust s \<or>
     trusted_sender_id (fst (snd (OnPairFinal env json l s))) = pair_senderId (pairChallenge l)"
proof -
  obtain u err where d: "pair_final_decision env (field json ''sessionId'') (field json ''token'')
      (field json ''senderId'') (pair_deviceId (pairChallenge l)) s = (u, err)"
    by fastforce
  have u: "u = s \<or> trusted_sender_id u = field json ''senderId''"
    using d by (auto simp: pair_final_decision_def split: PairingAuthorizationResult.splits if_splits)
  have keep: "trust (fst (SendControl c t v)) = trust v" for c t and v :: ReceiverSession
    using SendControl_store [of v c t v] by (simp add: store_defs)
  have sender: "trusted_sender_id (fst (SendControl c t v)) = trusted_sender_id v" for c t and v :: ReceiverSession
    using keep [of c t v] by (simp add: trust_def)
  have refuse: "trust (fst (snd (refuse env code l v))) = trust v" "trusted_sender_id (fst (snd (refuse env code l v))) = trusted_sender_id v"
    for code and v :: ReceiverSession
    by (simp_all add: refuse_def sendError_def keep sender)
  have set_state: "trust (SetState st dt li co v) = trust v" "trusted_sender_id (SetState st dt li co v) = trusted_sender_id v"
    for st dt li co and v :: ReceiverSession
    by (simp_all add: trust_def SetState_def)
  show ?thesis
    using d u by (auto simp: OnPairFinal_def Let_def set_state case_prod_unfold keep sender refuse)
qed

definition sender_kept :: "ReceiverSession \<Rightarrow> ReceiverSession \<Rightarrow> bool" where
  "sender_kept s t \<longleftrightarrow> trust t = trust s \<or> SessionSenderIdValid (trusted_sender_id t)"

lemma sender_kept_trans: "sender_kept s t \<Longrightarrow> sender_kept t u \<Longrightarrow> sender_kept s u"
  by (auto simp: sender_kept_def trust_def)

lemma sender_kept_simps [simp]:
  "sender_kept (s\<lparr>websocket_decoder := w\<rparr>) t = sender_kept s t" "sender_kept s (t\<lparr>websocket_decoder := w\<rparr>) = sender_kept s t"
  "sender_kept s (t\<lparr>network := n\<rparr>) = sender_kept s t" "sender_kept s s"
  by (simp_all add: sender_kept_def trust_def)

lemma sender_kept_same: "same_store s t \<Longrightarrow> sender_kept s t"
  by (simp add: sender_kept_def store_defs)

lemma dialogue_parts_locals:
  "fst (refuse env code l s) = l" "fst (OnPairFinal env json l s) = l" "fst (OnAuthFinal env json l s) = l"
  "dialogue_valid l \<Longrightarrow> dialogue_valid (fst (OnPairChallenge env json l s))"
  "dialogue_valid l \<Longrightarrow> dialogue_valid (fst (OnAuthChallenge env json l s))"
  by (auto simp: refuse_def OnPairFinal_def OnAuthFinal_def OnPairChallenge_def OnAuthChallenge_def Let_def
      case_prod_unfold dialogue_valid_def split: sum.split option.split SourceContractDecision.split bool.split)

lemma OnAuthFinal_sender:
  assumes "session_inv s"
  shows "trust (fst (snd (OnAuthFinal env json l s))) = trust s"
proof -
  have refuse: "trust (fst (snd (refuse env code l t))) = trust t" for code and t :: ReceiverSession
    using refuse_store [of t env code l t] by (simp add: store_defs)
  show ?thesis using assms
  proof (cases rule: OnAuthFinal_cases [of s env json l])
    case (rolled_back t)
    then show ?thesis
      using decoder_frame_fields [OF prepare_decoder_result(1) [OF assms rolled_back(3)]]
      by (simp add: refuse) (simp add: trust_def take_source_def)
  next
    case (prepared t u ok)
    moreover have "trust u = trust t"
      using SendControl_store [of t "reply_send env" _ t] prepared(5) by (metis fst_conv same_store_def same_store_refl)
    ultimately show ?thesis
      using decoder_frame_fields [OF prepare_decoder_result(1) [OF assms prepared(4)]]
      by (simp add: trust_def take_source_def SetState_def)
  qed (simp add: refuse)
qed

lemma AuthenticateMessage_sender:
  assumes "session_inv s" "dialogue_valid l"
  shows "sender_kept s (fst (snd (AuthenticateMessage env m l s)))" "dialogue_valid (fst (AuthenticateMessage env m l s))"
proof -
  let ?json = "chars_of (payload m)"
  have auth: "sender_kept s (fst (snd (OnAuthFinal env ?json l s)))"
    using OnAuthFinal_sender [OF assms(1)] by (simp add: sender_kept_def)
  have final: "sender_kept s (fst (snd (OnPairFinal env ?json l' s)))"
    if "SessionSenderIdValid (pair_senderId (pairChallenge l'))" for l'
    using OnPairFinal_sender [of env ?json l' s] that by (auto simp: sender_kept_def)
  have manual: "SessionSenderIdValid (field ?json ''senderId'') \<Longrightarrow> sender_kept s (fst (snd (OnPairFinal env ?json (begin_manual ?json l s) s)))"
    "SessionSenderIdValid (field ?json ''senderId'') \<Longrightarrow> dialogue_valid (begin_manual ?json l s)"
    using final [of "begin_manual ?json l s"] by (simp_all add: begin_manual_def dialogue_valid_def)
  have challenges: "sender_kept s (fst (snd (OnPairChallenge env ?json l s)))" "sender_kept s (fst (snd (OnAuthChallenge env ?json l s)))"
      "sender_kept s (fst (snd (refuse env code l s)))" for code
    by (simp_all add: sender_kept_same challenge_store)
  note rules = auth final manual challenges dialogue_parts_locals assms(2)
  show "sender_kept s (fst (snd (AuthenticateMessage env m l s)))" "dialogue_valid (fst (AuthenticateMessage env m l s))"
    using rules assms(2) by (auto simp: AuthenticateMessage_def Let_def dialogue_valid_def [of l])
qed

lemma AuthenticateMessages_sender:
  assumes "session_inv s" "dialogue_valid l"
  shows "sender_kept s (fst (snd (AuthenticateMessages envs ms l s))) \<and> dialogue_valid (fst (AuthenticateMessages envs ms l s))"
  using assms
proof (induction ms arbitrary: envs l s)
  case (Cons m ms)
  obtain l' s' r where step: "AuthenticateMessage (envs 0) m l s = (l', s', r)" by (rule prod_cases3)
  note this_step = AuthenticateMessage_sender [OF Cons.prems, of "envs 0" m, unfolded step, simplified]
  have inv: "session_inv s'" using AuthenticateMessage_inv [OF Cons.prems(1), of "envs 0" m l] step by simp
  show ?case
  proof (cases r)
    case GoOn
    then show ?thesis
      using Cons.IH [OF inv this_step(2), of "\<lambda>i. envs (Suc i)"] sender_kept_trans [OF this_step(1)] step by auto
  qed (use this_step step in simp)
qed (simp add: sender_kept_same)

lemma AuthenticateIteration_sender:
  assumes "session_inv s" "dialogue_valid l"
  shows "sender_kept s (AuthenticateIteration expired received envs l s)"
    "network (AuthenticateIteration expired received envs l s) = Authenticating l' \<Longrightarrow> network s = Authenticating l \<Longrightarrow>
      dialogue_valid l'"
proof -
  have over: "sender_kept s u \<Longrightarrow> sender_kept s (IterationEnd u)" for u
    using IterationEnd_store [of u u] by (auto simp: sender_kept_def store_defs)
  have chunk: "sender_kept s (fst (snd (AuthenticateChunk envs data l s)))" "dialogue_valid (fst (AuthenticateChunk envs data l s))"
    for data
  proof -
    obtain ok d ms where push: "Push (websocket_decoder s) data = (ok, d, ms)" by (rule prod_cases3)
    have "session_inv (s\<lparr>websocket_decoder := d\<rparr>)" using assms(1) by simp
    from AuthenticateMessages_sender [OF this assms(2), of envs ms]
    show "sender_kept s (fst (snd (AuthenticateChunk envs data l s)))" "dialogue_valid (fst (AuthenticateChunk envs data l s))"
      using push assms(2) by (auto simp: AuthenticateChunk_def Let_def)
  qed
  show "sender_kept s (AuthenticateIteration expired received envs l s)"
    using chunk over
    by (auto simp: AuthenticateIteration_def case_prod_unfold split: recv_result.split dialogue_result.split bool.split)
  show "dialogue_valid l'"
    if "network (AuthenticateIteration expired received envs l s) = Authenticating l'" "network s = Authenticating l"
    using that chunk(2) assms(2)
    by (auto simp: AuthenticateIteration_def case_prod_unfold IterationEnd_waits
        split: recv_result.splits dialogue_result.splits bool.splits if_splits)
qed

text \<open>A connected session stays connected or goes back to waiting.\<close>

lemma send_network [simp]:
  "network (fst (SendControl c json t)) = network t" "network (fst (SendWhole n bs t)) = network t"
  by (simp_all add: SendControl_def SendWhole_def CloseControlSocket_def Let_def case_prod_unfold)

lemma SessionMessage_network: "network (fst (SessionMessage env m s)) = network s"
  by (simp add: SessionMessage_def HandleControl_def frame_network [OF HandleVideo_frame] split: option.split)

lemma SessionMessages_network: "network (fst (SessionMessages envs ms s)) = network s"
proof (induction ms arbitrary: envs s)
  case (Cons m ms)
  obtain t ok where step: "SessionMessage (envs 0) m s = (t, ok)" by fastforce
  have "network t = network s" using SessionMessage_network [of "envs 0" m s] step by simp
  then show ?case using step Cons.IH [of "\<lambda>i. envs (Suc i)" t] by (cases ok) auto
qed simp

lemma SessionIteration_network: "network (SessionIteration interfaces received envs k t s) \<in> {network s, Accepting}"
proof -
  obtain u b where u: "ContinueWithCurrentAddress interfaces s = (u, b)" by fastforce
  obtain v c where v: "SessionReceive received envs u = (v, c)" by fastforce
  obtain w d where w: "SessionRequests k t v = (w, d)" by fastforce
  have "network u = network s"
    using u by (auto simp: ContinueWithCurrentAddress_def SetState_def Let_def split: if_splits)
  moreover have "network (fst (SessionReceive received envs u)) = network u"
    by (simp add: SessionReceive_def SessionChunk_def SessionMessages_network Let_def case_prod_unfold split: recv_result.split)
  moreover have "network (fst (SendTelemetry t r)) = network r" "network (fst (SendKeyframeRequest k r)) = network r" for r
    by (simp_all add: SendTelemetry_def SendKeyframeRequest_def Let_def case_prod_unfold split: option.split bool.split)
  then have "network (fst (SessionRequests k t v)) = network v"
    by (simp add: SessionRequests_def case_prod_unfold split: bool.split)
  ultimately show ?thesis
    using u v w by (auto simp: SessionIteration_def IterationEnd_waits split: bool.split)
qed

text \<open>Only the acceptance of a client opens a dialogue, in its initial stage.\<close>

lemma step_dialogue:
  assumes "network (session_step e s) = Authenticating l" "\<not> (\<exists>expired received envs. e = NetAuthenticate expired received envs)"
  shows "network s = Authenticating l \<or> l = newLocals"
proof (cases e)
  case (StartCall interfaces generated address)
  have "network (StopSession s) = NotRunning"
    by (simp add: StopSession_def NetworkExit_def SetState_def ResetRecovery_def coordinate_def ClearTelemetry_def
        ResetWebsocket_def CloseSockets_def Let_def)
  then show ?thesis
    using assms StartCall by (auto simp: StartSession_def SetState_def Let_def split: option.splits if_splits)
next
  case StopCall
  then show ?thesis
    using assms by (simp add: StopSession_def NetworkExit_def SetState_def ResetRecovery_def coordinate_def
        ClearTelemetry_def ResetWebsocket_def CloseSockets_def Let_def split: if_splits)
next
  case (NetBegin interfaces fd bound listens rs)
  then show ?thesis
    using assms by (auto simp: NetworkBegin_def SetState_def Let_def split: prod.splits bool.splits if_splits)
next
  case (NetAccept interfaces client events returned)
  have "network (AcceptWebSocket client events returned t) = Authenticating l \<Longrightarrow> l = newLocals" for t
    by (auto simp: AcceptWebSocket_def IterationEnd_waits Let_def split: option.splits prod.splits bool.splits if_splits)
  then show ?thesis
    using assms NetAccept
    by (auto simp: AcceptIteration_def NetworkExit_def Let_def split: prod.splits bool.splits if_splits)
next
  case (NetSession interfaces received envs k t)
  have "network (SessionIteration interfaces received envs k t s) \<noteq> Authenticating l" if "network s = InSession"
    using that SessionIteration_network [of interfaces received envs k t s] by auto
  then show ?thesis using assms NetSession by (auto split: if_splits)
next
  case (ConfigureTrustCall d i c v)
  then show ?thesis using assms by (simp add: ConfigureTrust_def split: if_splits)
next
  case (AuthorizeQrCall now si tok ex)
  then show ?thesis using assms by (simp add: AuthorizeQr_def Let_def split: if_splits)
next
  case (AuthorizeShortCodeCall now sc)
  then show ?thesis using assms by (simp add: AuthorizeShortCode_def Let_def split: if_splits)
qed (use assms in \<open>simp_all add: ForgetDevice_def CloseControlSocket_def
      frame_network [OF OnSurfaceEvent_frame] frame_network [OF DecoderNeedInput_frame]
      frame_network [OF DecoderOutput_frame]
      frame_network [OF DecoderOutput_advance_frame] frame_network [OF DecoderError_frame] split: network_position.splits if_splits\<close>)

lemma store_inv_auth_step:
  assumes "session_inv s" "store_inv s" "random_identifiers (NetAuthenticate expired received envs)"
  shows "store_inv (session_step (NetAuthenticate expired received envs) s)"
proof (cases "network s")
  case (Authenticating l)
  let ?t = "AuthenticateIteration expired received envs l s"
  have l: "dialogue_valid l" "pairing_valid s" using assms(2) Authenticating by (simp_all add: store_inv_def)
  note sender = AuthenticateIteration_sender [OF assms(1) l(1), of expired received envs]
  have fresh: "Hex (fresh_credential env) 64" if "(env, json) \<in> heard received envs s" "fresh_credential env \<noteq> ''''" for env json
    using that assms(3)
    by (auto simp: heard_def texts_of_def random_identifiers_def identifier_of_def split: recv_result.splits)
  have "pairing_valid ?t"
    using AuthenticateIteration_effect [OF assms(1) refl, of expired received envs l]
  proof (elim disjE exE conjE)
    fix env json
    assume h: "(env, json) \<in> heard received envs s" and g: "pairing_granted env json s ?t"
    from g have t: "trusted_credential ?t = fresh_credential env" "fresh_credential env \<noteq> ''''" "device_id ?t = device_id s"
      by (simp_all add: pairing_granted_def)
    have "trust ?t \<noteq> trust s" using g by (auto simp: pairing_granted_def trust_def)
    then have "SessionSenderIdValid (trusted_sender_id ?t)" using sender(1) by (simp add: sender_kept_def)
    then show ?thesis using t fresh [OF h t(2)] l(2) by (simp add: pairing_valid_def)
  qed (use l(2) pairing_valid_same in \<open>auto simp: source_accepted_def pairing_valid_def store_defs\<close>)
  then show ?thesis
    using Authenticating sender(2) by (auto simp: store_inv_def split: network_position.split)
qed (use assms in simp_all)

lemma device_id_simps:
  "device_id (StopSession s) = device_id s" "device_id (SetState st dt li co s) = device_id s"
  using StopSession_store [of s] by (simp_all add: same_store_def SetState_def)

lemma pairing_valid_calls:
  assumes "pairing_valid s"
  shows "identifier_of 32 generated \<Longrightarrow> pairing_valid (fst (StartSession interfaces generated address s))"
    "pairing_valid (fst (ConfigureTrust d i c v s))" "pairing_valid (fst (AuthorizeQr now si tk ex s))"
    "pairing_valid (fst (AuthorizeShortCode now sc s))" "pairing_valid (ForgetDevice s)"
proof -
  let ?t = "fst (StartSession interfaces generated address s)"
  have "device_id ?t \<in> {device_id s, generated}"
    by (auto simp: StartSession_def Let_def device_id_simps ResetRecovery_def coordinate_def split: option.split)
  moreover have "trust ?t = trust s" by (rule StartSession_store)
  ultimately show "identifier_of 32 generated \<Longrightarrow> pairing_valid ?t"
    using assms by (auto simp: pairing_valid_def trust_def)
qed (use assms in \<open>auto simp: pairing_valid_def ConfigureTrust_def AuthorizeQr_def AuthorizeShortCode_def ForgetDevice_def
      CloseControlSocket_def identifier_of_def Let_def\<close>)

lemma store_inv_step:
  assumes "session_inv s" "store_inv s" "random_identifiers e"
  shows "store_inv (session_step e s)"
proof (cases "\<exists>expired received envs. e = NetAuthenticate expired received envs")
  case True
  then show ?thesis using store_inv_auth_step assms by auto
next
  case False
  have valid: "pairing_valid s" using assms(2) by (simp add: store_inv_def)
  have "pairing_valid (session_step e s)"
  proof (cases "store_event e")
    case True
    then show ?thesis
      using pairing_valid_calls [OF valid] assms(3) False by (cases e) (auto simp: store_event_def random_identifiers_def)
  qed (use other_step_store pairing_valid_same valid in blast)
  moreover have "dialogue_valid newLocals" by (simp add: dialogue_valid_def newLocals_def)
  ultimately show ?thesis
    using step_dialogue [of e s] False assms(2) by (auto simp: store_inv_def split: network_position.splits)
qed

lemma store_inv_run: "list_all random_identifiers es \<Longrightarrow> store_inv (session_run es)"
proof (induction es rule: rev_induct)
  case Nil
  show ?case
    by (simp add: session_run_def store_inv_def pairing_valid_def identifier_of_def newSession_def DecoderSide.defs
        ReceiverSession.defs)
next
  case (snoc e es)
  then show ?case using snoc store_inv_step [OF session_run_inv, of es e] by (simp add: session_run_def)
qed

text \<open>
  C37. Whatever the network and the application did, the pairing that \<open>getPairing\<close> hands out is accepted
  by \<open>configureTrust\<close> of any receiver, for instance after a restart, which then has the same device
  identity, trusted sender, credential and version. The identifiers are assumed to come from
  \<open>RandomHex\<close>, and the version to be one that a double holds exactly.
\<close>

theorem pairing_survives_restart:
  assumes "list_all random_identifiers es" "device_id (session_run es) \<noteq> ''''"
    and "unat (pairing_record_version (session_run es)) < 2 ^ 53"
    and "saved = snd (GetPairing env [] (session_run es))"
  shows "\<exists>t. ConfigureTrust_js env' (map (\<lambda>key. member key saved) [''deviceId'', ''senderId'', ''credential'', ''version'']) s =
      (t, JsBoolean True) \<and> Pairing t = Pairing (session_run es)"
proof -
  have "pairing_valid (session_run es)" using store_inv_run [OF assms(1)] by (simp add: store_inv_def)
  then show ?thesis
    using assms(2,3)
    by (auto simp: assms(4) GetPairing_def ConfigureTrust_js_def ConfigureTrust_def returns_boolean_def Pairing_def
        SetString_def SetInteger_def ArgumentString_def argument_double_def cast_exported pairing_valid_def
        identifier_of_def Let_def)
qed

definition exampleCall :: BindingEnv where
  "exampleCall = \<lparr>call_interfaces = None, generated_id = '''', system_now = 0, cast_other = (\<lambda>_. 0),
     call_codec = codec_results example_env, detail_text = (\<lambda>_. '''')\<rparr>"

lemma auth_step_device:
  assumes "session_inv s"
  shows "device_id (session_step (NetAuthenticate expired received envs) s) = device_id s"
proof (cases "network s")
  case (Authenticating l)
  then show ?thesis
    using AuthenticateIteration_effect [OF assms refl, of expired received envs l]
    by (auto simp: same_store_def pairing_granted_def source_accepted_def)
qed simp_all

text \<open>The pairing of a code that was entered, restored by a receiver that has just started.\<close>

theorem pairing_survives_restart_witness:
  "\<exists>t. ConfigureTrust_js exampleCall (map (\<lambda>key. member key (snd (GetPairing exampleCall []
         (session_run (example_authorized_run @ [example_pairing]))))) [''deviceId'', ''senderId'', ''credential'', ''version''])
         newSession = (t, JsBoolean True) \<and> trusted_sender_id t = example_sender"
proof -
  let ?s = "session_run (example_authorized_run @ [example_pairing])"
  have paired: "trust ?s = (example_sender, example_nonce, 2)"
    using manual_pairing_step [OF example_authorized(1-3) example_ready(3) refl] example_authorized(4)
    by (simp add: session_run_def example_pairing_def) (simp add: example_pairing_env_def)
  have ids: "list_all random_identifiers (example_authorized_run @ [example_pairing])"
    by (simp add: example_authorized_run_def example_waiting_run_def example_pairing_def manual_pairing_def
        random_identifiers_def identifier_of_def Hex_def example_device_def example_nonce_def example_pairing_env_def
        list_all_iff isdigit_def ord_def)
  have "device_id ?s = device_id (session_run example_authorized_run)"
    using auth_step_device [OF session_run_inv] by (simp add: session_run_def example_pairing_def manual_pairing_def)
  moreover have "Hex (device_id (session_run example_authorized_run)) 32"
    using example_authorized(2) by (simp add: code_entered_def)
  ultimately have "device_id ?s \<noteq> ''''" using Hex_nonempty(2) by metis
  then show ?thesis
    using pairing_survives_restart [OF ids _ _ refl, of exampleCall exampleCall newSession] paired
    by (auto simp: trust_def Pairing_def)
qed

end
