(* ===== verification/Host_Protocol.thy ===== *)
theory Host_Protocol
  imports Json_Fields Stream_Decoder
begin

text \<open>
  The control and video protocol of the Windows host (\<open>host/common/hss_protocol.h\<close>,
  \<open>hss_protocol.cpp\<close>): the datagram header, the length-prefixed control frames with their
  incremental decoder, the JSON field readers, and the Annex B scan of \<open>host/graphics/annex_b.h\<close>.
\<close>

section \<open>Constants and data\<close>

definition kVideoMagic :: u32 where "kVideoMagic = 0x48535331"
definition kProtocolVersion :: byte where "kProtocolVersion = 1"
definition kVideoHeaderSize :: nat where "kVideoHeaderSize = 32"
definition kMaxControlPayload :: nat where "kMaxControlPayload = 64 * 1024"
definition kMaxUdpPayload :: nat where "kMaxUdpPayload = 1200"

text \<open>\<open>VideoFlags\<close>: the enumerators; any 16 bit value can be cast to the enum.\<close>

definition kNone :: u16 where "kNone = 0"
definition kKeyframe :: u16 where "kKeyframe = 1"
definition kCodecConfig :: u16 where "kCodecConfig = 2"
definition kEndOfFrame :: u16 where "kEndOfFrame = 4"

definition HasFlag :: "u16 \<Rightarrow> u16 \<Rightarrow> bool" where
  "HasFlag v flag \<longleftrightarrow> v AND flag \<noteq> 0"

record VideoHeader =
  session :: u32
  frame :: u32
  fragment :: u16
  fragments :: u16
  flags :: u16
  payloadLength :: u16
  timestampUs :: u64

section \<open>The datagram header\<close>

definition EncodeVideoHeader :: "VideoHeader \<Rightarrow> byte list" where
  "EncodeVideoHeader header =
     be_put32 kVideoMagic @ [kProtocolVersion, word_of_nat kVideoHeaderSize] @ be_put16 (flags header)
     @ be_put32 (session header) @ be_put32 (frame header) @ be_put16 (fragment header)
     @ be_put16 (fragments header) @ be_put16 (payloadLength header) @ be_put16 0 @ be_put64 (timestampUs header)"

definition DecodeVideoHeader :: "byte list \<Rightarrow> VideoHeader option" where
  "DecodeVideoHeader datagram =
     (if length datagram < kVideoHeaderSize \<or> be_get32 datagram 0 \<noteq> kVideoMagic
         \<or> datagram ! 4 \<noteq> kProtocolVersion \<or> datagram ! 5 \<noteq> word_of_nat kVideoHeaderSize
      then None
      else
        (let header = \<lparr>session = be_get32 datagram 8, frame = be_get32 datagram 12,
                       fragment = be_get16 datagram 16, fragments = be_get16 datagram 18,
                       flags = be_get16 datagram 6, payloadLength = be_get16 datagram 20,
                       timestampUs = be_get64 datagram 24\<rparr>
         in if fragments header = 0 \<or> fragment header \<ge> fragments header
               \<or> unat (payloadLength header) > kMaxUdpPayload
               \<or> length datagram \<noteq> kVideoHeaderSize + unat (payloadLength header)
            then None else Some header))"

section \<open>Control frames\<close>

definition EncodeControlFrame :: "string \<Rightarrow> byte list" where
  "EncodeControlFrame json =
     (if length json > kMaxControlPayload then []
      else be_put32 (word_of_nat (length json)) @ bytes_of json)"

text \<open>\<open>error_text\<close> is the string behind the caller's \<open>error\<close> pointer.\<close>

record ControlFrameDecoder =
  control_buffer :: "byte list"
  error_text :: string

definition newControlDecoder :: ControlFrameDecoder where
  "newControlDecoder = \<lparr>control_buffer = [], error_text = ''''\<rparr>"

definition ResetControl :: "string \<Rightarrow> ControlFrameDecoder \<Rightarrow> ControlFrameDecoder" where
  "ResetControl error d = \<lparr>control_buffer = [], error_text = error\<rparr>"

text \<open>One iteration of the loop in \<open>Push\<close>.\<close>

definition ControlStep :: "ControlFrameDecoder \<Rightarrow> (ControlFrameDecoder, string) step_result" where
  "ControlStep d =
     (let b = control_buffer d in
      if length b < 4 then NeedMore
      else
        (let n = unat (be_get32 b 0)
         in if n = 0 \<or> n > kMaxControlPayload then Rejected (ResetControl ''invalid control payload length'' d) []
            else if length b < n + 4 then NeedMore
            else Yields (d\<lparr>control_buffer := drop (n + 4) b\<rparr>) [chars_of (take n (drop 4 b))]))"

lemma ControlStep_shorter: "ControlStep d = Yields d' frames \<Longrightarrow> length (control_buffer d') < length (control_buffer d)"
  by (auto simp: ControlStep_def Let_def split: if_splits)

function ControlLoop :: "ControlFrameDecoder \<Rightarrow> bool \<times> ControlFrameDecoder \<times> string list" where
  "ControlLoop d =
     (case ControlStep d of
        NeedMore \<Rightarrow> (True, d, [])
      | Rejected d' frames \<Rightarrow> (False, d', frames)
      | Yields d' frames \<Rightarrow> (case ControlLoop d' of (ok, d'', rest) \<Rightarrow> (ok, d'', frames @ rest)))"
  by pat_completeness auto

termination
  by (relation "measure (\<lambda>d. length (control_buffer d))") (simp_all add: ControlStep_shorter)

declare ControlLoop.simps [simp del]

definition feed_control :: "ControlFrameDecoder \<Rightarrow> byte list \<Rightarrow> ControlFrameDecoder" where
  "feed_control d bytes_in = d\<lparr>control_buffer := control_buffer d @ bytes_in\<rparr>"

definition PushControl :: "ControlFrameDecoder \<Rightarrow> byte list \<Rightarrow> bool \<times> ControlFrameDecoder \<times> string list" where
  "PushControl d bytes_in =
     (if length (control_buffer d) + length bytes_in > kMaxControlPayload + 4
      then (False, ResetControl ''control buffer exceeds 64 KiB'' d, [])
      else ControlLoop (feed_control d bytes_in))"

section \<open>JSON fields\<close>

definition FindValueStart :: "string \<Rightarrow> string \<Rightarrow> nat option" where
  "FindValueStart json key =
     (case find_from json (quoted key) 0 of
        None \<Rightarrow> None
      | Some keyPosition \<Rightarrow>
          (case find_from json [CHR '':''] (keyPosition + length (quoted key)) of
             None \<Rightarrow> None
           | Some colonPosition \<Rightarrow> Some (skip_json_space json (colonPosition + 1))))"

abbreviation backspace :: char where "backspace \<equiv> CHR 0x08"
abbreviation formfeed :: char where "formfeed \<equiv> CHR 0x0C"

fun host_unescape :: "char \<Rightarrow> char option" where
  "host_unescape c =
     (if c = dquote then Some dquote
      else if c = backslash then Some backslash
      else if c = CHR ''/'' then Some (CHR ''/'')
      else if c = CHR ''b'' then Some backspace
      else if c = CHR ''f'' then Some formfeed
      else if c = CHR ''n'' then Some newline
      else if c = CHR ''r'' then Some carriage_return
      else if c = CHR ''t'' then Some tabulator
      else None)"

fun host_string_loop :: "string \<Rightarrow> string \<Rightarrow> string option" where
  "host_string_loop str [] = None"
| "host_string_loop str (c # cs) =
     (if c = dquote then Some str
      else if c = backslash then
        (case cs of
           [] \<Rightarrow> None
         | e # rest \<Rightarrow>
             (case host_unescape e of
                None \<Rightarrow> None
              | Some x \<Rightarrow> host_string_loop (str @ [x]) rest))
      else host_string_loop (str @ [c]) cs)"

definition HostJsonString :: "string \<Rightarrow> string \<Rightarrow> string option" where
  "HostJsonString json key =
     (case FindValueStart json key of
        None \<Rightarrow> None
      | Some start \<Rightarrow>
          (if start \<ge> length json \<or> json ! start \<noteq> dquote then None
           else host_string_loop [] (drop (start + 1) json)))"

definition HostJsonInteger :: "string \<Rightarrow> string \<Rightarrow> int option" where
  "HostJsonInteger json key =
     (case FindValueStart json key of
        None \<Rightarrow> None
      | Some start \<Rightarrow> map_option fst (from_chars_int64 (drop start json)))"

fun host_escape_char :: "char \<Rightarrow> string" where
  "host_escape_char c =
     (if c = dquote then [backslash, dquote]
      else if c = backslash then [backslash, backslash]
      else if c = backspace then [backslash, CHR ''b'']
      else if c = formfeed then [backslash, CHR ''f'']
      else if c = newline then [backslash, CHR ''n'']
      else if c = carriage_return then [backslash, CHR ''r'']
      else if c = tabulator then [backslash, CHR ''t'']
      else [c])"

definition HostEscapeJson :: "string \<Rightarrow> string" where
  "HostEscapeJson str = concat (map host_escape_char str)"

section \<open>The Annex B scan\<close>

definition nal_prefix :: "byte list \<Rightarrow> nat \<Rightarrow> nat" where
  "nal_prefix bs offset =
     (if bs ! offset = 0 \<and> bs ! (offset + 1) = 0 \<and> bs ! (offset + 2) = 1 then 3
      else if offset + 4 < length bs \<and> bs ! offset = 0 \<and> bs ! (offset + 1) = 0
              \<and> bs ! (offset + 2) = 0 \<and> bs ! (offset + 3) = 1 then 4
      else 0)"

definition HasAnnexBNalType :: "byte list \<Rightarrow> byte \<Rightarrow> bool" where
  "HasAnnexBNalType bs wanted \<longleftrightarrow>
     list_ex (\<lambda>offset. nal_prefix bs offset \<noteq> 0 \<and> bs ! (offset + nal_prefix bs offset) AND 0x1f = wanted)
       [0..<length bs - 3]"

definition ContainsAvcCodecConfig :: "byte list \<Rightarrow> bool" where
  "ContainsAvcCodecConfig bs \<longleftrightarrow> HasAnnexBNalType bs 7 \<and> HasAnnexBNalType bs 8"

section \<open>The header decoder\<close>

text \<open>The layout with the reserved field, which the decoder does not read.\<close>

definition render_datagram_header :: "VideoHeader \<Rightarrow> u16 \<Rightarrow> byte list" where
  "render_datagram_header h reserved =
     be_put32 kVideoMagic @ [kProtocolVersion, 32] @ be_put16 (flags h)
     @ be_put32 (session h) @ be_put32 (frame h) @ be_put16 (fragment h) @ be_put16 (fragments h)
     @ be_put16 (payloadLength h) @ be_put16 reserved @ be_put64 (timestampUs h)"

definition datagram_fits :: "VideoHeader \<Rightarrow> nat \<Rightarrow> bool" where
  "datagram_fits h n \<longleftrightarrow> fragment h < fragments h \<and> n \<le> kMaxUdpPayload \<and> unat (payloadLength h) = n"

lemma EncodeVideoHeader_render: "EncodeVideoHeader h = render_datagram_header h 0"
  by (simp add: EncodeVideoHeader_def render_datagram_header_def kVideoHeaderSize_def)

lemma length_render_datagram_header [simp, wire_layout]: "length (render_datagram_header h r) = 32"
  by (simp add: render_datagram_header_def)

lemma render_datagram_layout:
  fixes h payload r
  defines "m \<equiv> render_datagram_header h r @ payload"
  shows "be_get32 m 0 = kVideoMagic" "m ! 4 = kProtocolVersion" "m ! 5 = 32" "be_get16 m 6 = flags h"
    "be_get32 m 8 = session h" "be_get32 m 12 = frame h" "be_get16 m 16 = fragment h"
    "be_get16 m 18 = fragments h" "be_get16 m 20 = payloadLength h" "be_get64 m 24 = timestampUs h"
  unfolding m_def render_datagram_header_def
  by (auto simp: nth_append intro!: be_get16_layout be_get32_layout be_get64_layout)

lemma render_datagram_bytes:
  assumes "32 \<le> length d" and "be_get32 d 0 = kVideoMagic" and "d ! 4 = kProtocolVersion" and "d ! 5 = 32"
    and "h = \<lparr>session = be_get32 d 8, frame = be_get32 d 12, fragment = be_get16 d 16, fragments = be_get16 d 18,
              flags = be_get16 d 6, payloadLength = be_get16 d 20, timestampUs = be_get64 d 24\<rparr>"
  shows "d = render_datagram_header h (be_get16 d 22) @ drop 32 d"
proof -
  have "render_datagram_header h (be_get16 d 22) = take 32 d"
    unfolding render_datagram_header_def take_32_split [OF assms(1)] assms(2) [symmetric] assms(3) [symmetric]
      assms(4) [symmetric]
    by (simp add: assms(5) be_put32_get32 be_put16_get16 be_put64_get64 numeral_2_eq_2)
  then show ?thesis by (metis append_take_drop_id)
qed

lemma DecodeVideoHeader_accepts_iff:
  "DecodeVideoHeader d = Some h \<longleftrightarrow>
     (\<exists>reserved payload. d = render_datagram_header h reserved @ payload \<and> datagram_fits h (length payload))"
proof
  assume "DecodeVideoHeader d = Some h"
  then have len: "32 \<le> length d" and hd: "be_get32 d 0 = kVideoMagic" "d ! 4 = kProtocolVersion" "d ! 5 = 32"
      "h = \<lparr>session = be_get32 d 8, frame = be_get32 d 12, fragment = be_get16 d 16, fragments = be_get16 d 18,
              flags = be_get16 d 6, payloadLength = be_get16 d 20, timestampUs = be_get64 d 24\<rparr>"
      and p: "fragment h < fragments h" "unat (payloadLength h) \<le> kMaxUdpPayload"
      "length d = 32 + unat (payloadLength h)"
    by (auto simp: DecodeVideoHeader_def Let_def kVideoHeaderSize_def split: if_splits)
  have "datagram_fits h (length (drop 32 d))" using p by (simp add: datagram_fits_def)
  with render_datagram_bytes [OF len hd]
  show "\<exists>reserved payload. d = render_datagram_header h reserved @ payload \<and> datagram_fits h (length payload)" by blast
next
  assume "\<exists>reserved payload. d = render_datagram_header h reserved @ payload \<and> datagram_fits h (length payload)"
  then obtain reserved payload where d: "d = render_datagram_header h reserved @ payload"
    and f: "fragment h < fragments h" "length payload \<le> kMaxUdpPayload" "unat (payloadLength h) = length payload"
    by (auto simp: datagram_fits_def)
  note l = render_datagram_layout [of h reserved payload, folded d]
  have "fragments h \<noteq> 0" using f(1) by auto
  then show "DecodeVideoHeader d = Some h"
    using f by (simp add: DecodeVideoHeader_def l kVideoHeaderSize_def) (simp add: d)
qed

text \<open>The decoder is a bounded stream decoder.\<close>

lemma feed_control_simps [simp]:
  "control_buffer (feed_control d x) = control_buffer d @ x" "feed_control (feed_control d x) y = feed_control d (x @ y)"
  "feed_control d [] = d" "control_buffer (ResetControl e d) = []" "ResetControl e (feed_control d x) = ResetControl e d"
  by (simp_all add: feed_control_def ResetControl_def)

lemma ControlStep_feed:
  "ControlStep d = Yields d' ms \<Longrightarrow> ControlStep (feed_control d x) = Yields (feed_control d' x) ms"
  "ControlStep d = Rejected d' ms \<Longrightarrow> ControlStep (feed_control d x) = Rejected d' ms"
  by (auto simp: ControlStep_def Let_def be_get_append feed_control_def ResetControl_def split: if_splits)

interpretation control: bounded_stream_decoder feed_control "\<lambda>d. length (control_buffer d)" ControlStep ControlLoop
  PushControl "ResetControl ''control buffer exceeds 64 KiB''" "kMaxControlPayload + 4"
proof unfold_locales
  show "ControlLoop d =
       (case ControlStep d of
          NeedMore \<Rightarrow> (True, d, [])
        | Rejected d' ms \<Rightarrow> (False, d', ms)
        | Yields d' ms \<Rightarrow> (case ControlLoop d' of (ok, d'', ns) \<Rightarrow> (ok, d'', ms @ ns)))" for d
    by (rule ControlLoop.simps)
  show "length (control_buffer d') = 0" if "ControlStep d = Rejected d' ms" for d d' ms
    using that by (auto simp: ControlStep_def Let_def ResetControl_def split: if_splits)
qed (simp_all add: ControlStep_shorter ControlStep_feed PushControl_def)

text \<open>What the loop does on encoded frames.\<close>

definition control_payload :: "string \<Rightarrow> bool" where
  "control_payload json \<longleftrightarrow> json \<noteq> '''' \<and> length json \<le> kMaxControlPayload"

definition with_buffer :: "ControlFrameDecoder \<Rightarrow> byte list \<Rightarrow> ControlFrameDecoder" where
  "with_buffer d b = d\<lparr>control_buffer := b\<rparr>"

lemma with_buffer_simps [simp]:
  "control_buffer (with_buffer d b) = b" "feed_control (with_buffer d b) c = with_buffer d (b @ c)"
  "with_buffer (with_buffer d b) c = with_buffer d c"
  by (simp_all add: with_buffer_def feed_control_def)

lemma frame_bytes:
  assumes "control_payload json"
  shows "EncodeControlFrame json = be_put32 (word_of_nat (length json)) @ bytes_of json"
    "be_get32 (be_put32 (word_of_nat (length json)) @ x) 0 = word_of_nat (length json)"
    "unat (word_of_nat (length json) :: u32) = length json"
  using assms by (auto simp: control_payload_def EncodeControlFrame_def kMaxControlPayload_def unat_of_nat intro!: be_get32_layout)

lemma ControlStep_frame:
  assumes "control_payload json"
  shows "ControlStep (with_buffer d (EncodeControlFrame json @ x)) = Yields (with_buffer d x) [json]"
proof -
  have "0 < length json" "length json \<le> kMaxControlPayload" using assms by (auto simp: control_payload_def)
  then show ?thesis
    unfolding frame_bytes(1) [OF assms] append_assoc
    by (simp add: ControlStep_def Let_def frame_bytes(2,3) [OF assms]) (simp add: with_buffer_def)
qed

lemma ControlStep_prefix:
  assumes "control_payload json" "EncodeControlFrame json = p @ q" "q \<noteq> []"
  shows "ControlStep (with_buffer d p) = NeedMore"
proof (cases "length p < 4")
  case True
  then show ?thesis by (simp add: ControlStep_def)
next
  case False
  have "take 4 p = be_put32 (word_of_nat (length json))"
    using arg_cong [OF assms(2), of "take 4"] False frame_bytes(1) [OF assms(1)] by simp
  then have "be_get32 p 0 = word_of_nat (length json)" by (intro be_get32_layout) simp
  moreover have "length p < length json + 4"
    using arg_cong [OF assms(2), of length] assms(3) frame_bytes(1) [OF assms(1)] by (cases q) simp_all
  ultimately show ?thesis
    using frame_bytes(3) [OF assms(1)] assms(1)
    by (auto simp: ControlStep_def Let_def control_payload_def)
qed

lemma ControlStep_idle: "ControlStep (with_buffer d []) = NeedMore"
  by (simp add: ControlStep_def)

text \<open>A prefix of a stream of frames is some of them and a proper prefix of the next.\<close>

lemma stream_prefix:
  assumes "p @ q = concat (map EncodeControlFrame fs)"
  shows "\<exists>k r. p = concat (map EncodeControlFrame (take k fs)) @ r \<and> k \<le> length fs \<and>
    (r = [] \<or> k < length fs \<and> (\<exists>t. EncodeControlFrame (fs ! k) = r @ t \<and> t \<noteq> []))"
  using assms
proof (induction fs arbitrary: p)
  case Nil
  then show ?case by simp
next
  case (Cons f fs)
  let ?e = "EncodeControlFrame f"
  have eq: "p @ q = ?e @ concat (map EncodeControlFrame fs)" using Cons.prems by simp
  then consider (short) t where "?e = p @ t" "t \<noteq> []" | (long) p' where "p = ?e @ p'" "p' @ q = concat (map EncodeControlFrame fs)"
    by (auto simp: append_eq_append_conv2) (metis append_Nil2)+
  then show ?case
  proof cases
    case short
    then show ?thesis by (intro exI [of _ 0] exI [of _ p]) auto
  next
    case long
    obtain k r where "p' = concat (map EncodeControlFrame (take k fs)) @ r" "k \<le> length fs"
        "r = [] \<or> k < length fs \<and> (\<exists>t. EncodeControlFrame (fs ! k) = r @ t \<and> t \<noteq> [])"
      using Cons.IH [OF long(2)] by blast
    then show ?thesis using long(1) by (intro exI [of _ "Suc k"] exI [of _ r]) auto
  qed
qed

lemma ControlLoop_frames:
  assumes "\<forall>f \<in> set fs. control_payload f" "ControlStep (with_buffer d r) = NeedMore"
  shows "ControlLoop (with_buffer d (concat (map EncodeControlFrame fs) @ r)) = (True, with_buffer d r, fs)"
  using assms(1)
proof (induction fs)
  case Nil
  then show ?case by (subst ControlLoop.simps) (simp add: assms(2))
next
  case (Cons f fs)
  then have "ControlStep (with_buffer d (concat (map EncodeControlFrame (f # fs)) @ r)) =
      Yields (with_buffer d (concat (map EncodeControlFrame fs) @ r)) [f]"
    using ControlStep_frame [of f d "concat (map EncodeControlFrame fs) @ r"] by simp
  then show ?case using Cons by (subst ControlLoop.simps) simp
qed

text \<open>
  A beginning of the stream is received whatever its chunks, when each frame leaves room for one
  more chunk: the whole frames of it are delivered.
\<close>

lemma newControlDecoder_buffer: "newControlDecoder = with_buffer newControlDecoder []"
  by (simp add: with_buffer_def newControlDecoder_def)

lemma control_room:
  assumes fs: "\<forall>f \<in> set fs. control_payload f \<and> length f + m \<le> kMaxControlPayload + 1"
    and cs: "concat cs @ later = concat (map EncodeControlFrame fs)" "\<forall>c \<in> set cs. length c \<le> m"
    and m: "m \<le> kMaxControlPayload" and i: "i < length cs"
  shows "length (control_buffer (fst (snd (ControlLoop (feed_control newControlDecoder (concat (take i cs))))))) + length (cs ! i)
      \<le> kMaxControlPayload + 4"
proof -
  have payloads: "\<forall>f \<in> set fs. control_payload f" using fs by blast
  have "concat (take i cs) @ (concat (drop i cs) @ later) = concat (map EncodeControlFrame fs)"
    by (metis cs(1) append.assoc append_take_drop_id concat_append)
  then obtain k r where k: "concat (take i cs) = concat (map EncodeControlFrame (take k fs)) @ r" "k \<le> length fs"
    and r: "r = [] \<or> k < length fs \<and> (\<exists>t. EncodeControlFrame (fs ! k) = r @ t \<and> t \<noteq> [])"
    using stream_prefix by blast
  have need: "ControlStep (with_buffer newControlDecoder r) = NeedMore"
    using r payloads ControlStep_idle ControlStep_prefix by (metis nth_mem)
  have "\<forall>f \<in> set (take k fs). control_payload f" using payloads by (auto dest: in_set_takeD)
  from ControlLoop_frames [OF this need]
  have "control_buffer (fst (snd (ControlLoop (feed_control newControlDecoder (concat (take i cs)))))) = r"
    by (subst newControlDecoder_buffer, subst with_buffer_simps(2)) (simp add: k(1))
  moreover have "length r + m \<le> kMaxControlPayload + 4"
  proof (cases "r = []")
    case True
    then show ?thesis using m by simp
  next
    case False
    then obtain t where t: "k < length fs" "EncodeControlFrame (fs ! k) = r @ t" "t \<noteq> []" using r by blast
    have "length r + length t = length (fs ! k) + 4"
      using arg_cong [OF t(2), of length] payloads t(1) frame_bytes(1) by simp
    moreover have "length (fs ! k) + m \<le> kMaxControlPayload + 1" using fs t(1) by simp
    ultimately show ?thesis using t(3) by (cases t) simp_all
  qed
  moreover have "length (cs ! i) \<le> m" using cs(2) i by simp
  ultimately show ?thesis by simp
qed

lemma control_stream_part:
  assumes fs: "\<forall>f \<in> set (fs @ gs). control_payload f \<and> length f + m \<le> kMaxControlPayload + 1"
    and cs: "concat cs = concat (map EncodeControlFrame fs) @ r" "r @ later = concat (map EncodeControlFrame gs)"
    and need: "ControlStep (with_buffer newControlDecoder r) = NeedMore"
    and m: "\<forall>c \<in> set cs. length c \<le> m" "m \<le> kMaxControlPayload"
  shows "receive_all PushControl newControlDecoder cs = (True, with_buffer newControlDecoder r, fs)"
proof -
  have whole: "concat cs @ later = concat (map EncodeControlFrame (fs @ gs))" using cs by simp
  have start: "ControlLoop newControlDecoder = (True, newControlDecoder, [])"
    by (subst ControlLoop.simps) (simp add: ControlStep_def newControlDecoder_def)
  have "receive_all PushControl newControlDecoder cs = ControlLoop (feed_control newControlDecoder (concat cs))"
    by (rule control.receive_push_room [OF start control_room [OF fs whole m]])
  also have "\<dots> = (True, with_buffer newControlDecoder r, fs)"
    using ControlLoop_frames [of fs newControlDecoder r] fs need
    by (subst newControlDecoder_buffer, subst with_buffer_simps(2)) (simp add: cs(1) flip: newControlDecoder_buffer)
  finally show ?thesis .
qed

lemma control_stream:
  assumes "\<forall>f \<in> set fs. control_payload f \<and> length f + m \<le> kMaxControlPayload + 1"
    and "concat cs = concat (map EncodeControlFrame fs)" "\<forall>c \<in> set cs. length c \<le> m" and "m \<le> kMaxControlPayload"
  shows "receive_all PushControl newControlDecoder cs = (True, newControlDecoder, fs)"
  using control_stream_part [of fs "[]" m cs "[]" "[]"] assms ControlStep_idle [of newControlDecoder]
  by (simp flip: newControlDecoder_buffer)

text \<open>
  A frame of the largest size followed by another is refused when a read of 8192 bytes ends inside
  the second: the buffer check counts the bytes of both.
\<close>

lemma full_frames_refused:
  assumes "length f = 65536" "8188 \<le> length g" "length g \<le> 65536"
  shows "\<exists>p c rest. EncodeControlFrame f @ EncodeControlFrame g = p @ c @ rest \<and> length c = 8192 \<and>
    ControlLoop (with_buffer newControlDecoder p) = (True, with_buffer newControlDecoder p, []) \<and>
    PushControl (with_buffer newControlDecoder p) c =
      (False, ResetControl ''control buffer exceeds 64 KiB'' (with_buffer newControlDecoder p), [])"
proof -
  let ?s = "EncodeControlFrame f @ EncodeControlFrame g"
  let ?p = "take 65536 ?s" and ?c = "take 8192 (drop 65536 ?s)"
  have f: "control_payload f" and g: "control_payload g"
    using assms by (auto simp: control_payload_def kMaxControlPayload_def)
  have len: "length (EncodeControlFrame f) = 65540" "length (EncodeControlFrame g) = length g + 4"
    using assms(1) by (simp_all add: frame_bytes(1) [OF f] frame_bytes(1) [OF g])
  have split: "EncodeControlFrame f = ?p @ drop 65536 (EncodeControlFrame f)" "drop 65536 (EncodeControlFrame f) \<noteq> []"
    using len by simp_all
  have "ControlStep (with_buffer newControlDecoder ?p) = NeedMore"
    by (rule ControlStep_prefix [OF f split])
  then have loop: "ControlLoop (with_buffer newControlDecoder ?p) = (True, with_buffer newControlDecoder ?p, [])"
    by (subst ControlLoop.simps) simp
  have c: "length ?c = 8192" using len assms by simp
  have "?s = ?p @ ?c @ drop 8192 (drop 65536 ?s)" by (metis append_take_drop_id)
  moreover have "PushControl (with_buffer newControlDecoder ?p) ?c =
      (False, ResetControl ''control buffer exceeds 64 KiB'' (with_buffer newControlDecoder ?p), [])"
    using c len by (simp add: PushControl_def kMaxControlPayload_def)
  ultimately show ?thesis using loop c by blast
qed

text \<open>The readers on rendered objects.\<close>

lemma FindValueStart_eq: "FindValueStart = ValueStart"
  by (intro ext) (simp add: FindValueStart_def ValueStart_def)

lemma host_string_loop_plain: "plain w \<Longrightarrow> host_string_loop acc (w @ dquote # rest) = Some (acc @ w)"
  by (induction w arbitrary: acc) (auto simp: plain_def)

lemma HostJsonString_render_object:
  assumes "searchable k fs"
  shows "HostJsonString (render_object fs) k = (case map_of fs k of Some (JStr w) \<Rightarrow> Some w | _ \<Rightarrow> None)"
proof (cases "map_of fs k")
  case None
  then show ?thesis using ValueStart_absent [OF assms] by (simp add: HostJsonString_def FindValueStart_eq)
next
  case (Some v)
  obtain start post where st: "ValueStart (render_object fs) k = Some start"
      "start < length (render_object fs)" "drop start (render_object fs) = render_value v @ post"
    by (rule present_field [OF assms Some])
  have nth: "render_object fs ! start = hd (render_value v @ post)"
    using st(2,3) by (metis hd_drop_conv_nth)
  show ?thesis
  proof (cases v)
    case (JStr w)
    have w: "plain w"
      using assms map_of_SomeD [OF Some] by (auto simp: searchable_def list_all_iff JStr)
    have "drop (start + 1) (render_object fs) = tl (render_value v @ post)"
      using st(3) by (metis drop_Suc tl_drop Suc_eq_plus1)
    then show ?thesis using st nth host_string_loop_plain [OF w, of "[]" post] EscapeJson_plain [OF w]
      by (simp add: HostJsonString_def FindValueStart_eq JStr Some quoted_def)
  next
    case (JInt i)
    obtain c t where "int_dec i = c # t" "c \<noteq> dquote" by (rule int_dec_first)
    then show ?thesis using st(1,2) nth by (simp add: HostJsonString_def FindValueStart_eq JInt Some)
  qed
qed

lemma HostJsonInteger_render_object:
  assumes "searchable k fs" and range: "list_all (\<lambda>(_, v). in_int64 v) fs"
  shows "HostJsonInteger (render_object fs) k = (case map_of fs k of Some (JInt i) \<Rightarrow> Some i | _ \<Rightarrow> None)"
proof (cases "map_of fs k")
  case None
  then show ?thesis using ValueStart_absent [OF assms(1)] by (simp add: HostJsonInteger_def FindValueStart_eq)
next
  case (Some v)
  obtain start post where st: "ValueStart (render_object fs) k = Some start"
      "drop start (render_object fs) = render_value v @ post"
      and post: "post \<noteq> []" "hd post = CHR '','' \<or> hd post = CHR ''}''"
    by (rule present_field [OF assms(1) Some])
  show ?thesis
  proof (cases v)
    case (JStr w)
    then show ?thesis
      using st by (simp add: HostJsonInteger_def FindValueStart_eq Some quoted_def from_chars_int64_dquote)
  next
    case (JInt i)
    have i: "- (2 ^ 63) \<le> i" "i < 2 ^ 63"
      using range map_of_SomeD [OF Some] by (auto simp: list_all_iff in_int64_def JInt)
    have "\<not> is_base_digit 10 (hd post)"
      using post(2) by (auto simp: is_base_digit_def digit_value_def isdigit_def islower_def isupper_def ord_def)
    from from_chars_int64_dec [OF i post(1) this] st(2) show ?thesis
      by (simp add: HostJsonInteger_def FindValueStart_eq Some JInt st(1))
  qed
qed

lemma host_string_loop_escape: "host_string_loop acc (HostEscapeJson str @ dquote # rest) = Some (acc @ str)"
proof (induction str arbitrary: acc)
  case Nil
  show ?case by (simp add: HostEscapeJson_def)
next
  case (Cons c cs)
  have "HostEscapeJson (c # cs) = host_escape_char c @ HostEscapeJson cs" by (simp add: HostEscapeJson_def)
  then show ?case using Cons.IH [of "acc @ [c]"] by (auto split: if_splits)
qed

text \<open>The scan finds a NAL unit type exactly behind a three byte start code: the other case is covered by it.\<close>

lemma HasAnnexBNalType_iff:
  "HasAnnexBNalType bs t \<longleftrightarrow>
     (\<exists>i. i + 3 < length bs \<and> bs ! i = 0 \<and> bs ! (i + 1) = 0 \<and> bs ! (i + 2) = 1 \<and> bs ! (i + 3) AND 0x1f = t)"
    (is "_ \<longleftrightarrow> (\<exists>i. ?unit i)")
proof
  assume "HasAnnexBNalType bs t"
  then obtain o' where o': "o' + 3 < length bs" "nal_prefix bs o' \<noteq> 0" "bs ! (o' + nal_prefix bs o') AND 0x1f = t"
    by (fastforce simp: HasAnnexBNalType_def list_ex_iff less_diff_conv)
  then consider "?unit o'" | "?unit (o' + 1)"
    by (auto simp: nal_prefix_def eval_nat_numeral split: if_splits)
  then show "\<exists>i. ?unit i" by cases blast+
next
  assume "\<exists>i. ?unit i"
  then obtain i where i: "?unit i" by blast
  then have "nal_prefix bs i = 3" by (simp add: nal_prefix_def)
  moreover have "i \<in> set [0..<length bs - 3]" using i by auto
  ultimately show "HasAnnexBNalType bs t"
    unfolding HasAnnexBNalType_def list_ex_iff using i by (intro bexI [of _ i]) simp_all
qed

section \<open>Properties\<close>

text \<open>
  \<open>DecodeVideoHeader\<close> accepts exactly the datagrams of the documented layout whose fragment number
  and length fit, and returns the fields they were built from; in particular it reads back what
  \<open>EncodeVideoHeader\<close> writes.
\<close>

theorem host_datagram_layout:
  "(DecodeVideoHeader d = Some h \<longleftrightarrow>
     (\<exists>reserved payload. d = render_datagram_header h reserved @ payload \<and> datagram_fits h (length payload))) \<and>
   EncodeVideoHeader h = render_datagram_header h 0"
  by (simp add: DecodeVideoHeader_accepts_iff EncodeVideoHeader_render)

text \<open>
  C15. Control frames of up to 57345 bytes are received as sent, however the connection cuts their
  stream into reads of at most 8192 bytes, and the decoder is left empty.
\<close>

theorem control_frames_received:
  assumes "\<forall>f \<in> set fs. control_payload f \<and> length f \<le> 57345"
    and "concat cs = concat (map EncodeControlFrame fs)" "\<forall>c \<in> set cs. length c \<le> 8192"
  shows "receive_all PushControl newControlDecoder cs = (True, newControlDecoder, fs)"
  using assms by (intro control_stream [where m = 8192]) (auto simp: kMaxControlPayload_def)

lemma control_frames_received_witness:
  "receive_all PushControl newControlDecoder [[0, 0, 0], [2, 0x7B, 0x7D, 0], [0, 0, 2, 0x7B], [0x7D]] =
     (True, newControlDecoder, [''{}'', ''{}''])"
  by (rule control_frames_received)
     (simp_all add: control_payload_def kMaxControlPayload_def EncodeControlFrame_def be_put32_def bytes_of_def byte_of_char_def)

end
