(* ===== verification/Access_Units.thy ===== *)
theory Access_Units
  imports Host_Protocol
begin

text \<open>
  The bytes the host's encoder makes of what a Media Foundation transform delivers, the functions
  \<open>HasAnnexBStartCode\<close>, \<open>NormalizeAccessUnit\<close> and \<open>NormalizeCodecConfig\<close> of
  \<open>host/graphics/mf_h264_encoder.cpp\<close>: NAL units behind four-byte lengths become NAL units behind start
  codes, and an \<open>avcC\<close> record becomes its parameter sets behind start codes.
\<close>

section \<open>The functions\<close>

definition HasAnnexBStartCode :: "byte list \<Rightarrow> bool" where
  "HasAnnexBStartCode bs \<longleftrightarrow> 4 \<le> length bs \<and> bs ! 0 = 0 \<and> bs ! 1 = 0 \<and> (bs ! 2 = 1 \<or> bs ! 2 = 0 \<and> bs ! 3 = 1)"

definition startCode :: "byte list" where
  "startCode = [0, 0, 0, 1]"

text \<open>The loop; None is the return of the original bytes.\<close>

function NormalizeAccessUnit_loop :: "byte list \<Rightarrow> nat \<Rightarrow> byte list \<Rightarrow> byte list option" where
  "NormalizeAccessUnit_loop data offset annexB =
     (if offset + 4 \<le> length data then
        (let nalSize = unat (be_get32 data offset); offset = offset + 4
         in if nalSize = 0 \<or> offset + nalSize > length data then None
            else NormalizeAccessUnit_loop data (offset + nalSize) (annexB @ startCode @ take nalSize (drop offset data)))
      else if offset = length data then Some annexB else None)"
  by pat_completeness auto
termination by (relation "measure (\<lambda>(data, offset, annexB). length data - offset)") auto

declare NormalizeAccessUnit_loop.simps [simp del]

definition NormalizeAccessUnit :: "byte list \<Rightarrow> byte list" where
  "NormalizeAccessUnit data =
     (if HasAnnexBStartCode data then data
      else (case NormalizeAccessUnit_loop data 0 [] of None \<Rightarrow> data | Some annexB \<Rightarrow> annexB))"

definition appendNal :: "byte list \<Rightarrow> nat \<times> byte list \<Rightarrow> (nat \<times> byte list) option" where
  "appendNal data = (\<lambda>(cursor, annexB).
     if cursor + 2 > length data then None
     else
       (let nalSize = unat (be_get16 data cursor); cursor = cursor + 2
        in if nalSize = 0 \<or> cursor + nalSize > length data then None
           else Some (cursor + nalSize, annexB @ startCode @ take nalSize (drop cursor data))))"

fun appendNals :: "byte list \<Rightarrow> nat \<Rightarrow> nat \<times> byte list \<Rightarrow> (nat \<times> byte list) option" where
  "appendNals data 0 st = Some st"
| "appendNals data (Suc n) st = (case appendNal data st of None \<Rightarrow> None | Some st \<Rightarrow> appendNals data n st)"

definition NormalizeCodecConfig :: "byte list \<Rightarrow> byte list" where
  "NormalizeCodecConfig data =
     (if length data < 7 \<or> data ! 0 \<noteq> 1 then NormalizeAccessUnit data
      else
        (case appendNals data (unat (data ! 5 AND 0x1f)) (6, []) of
           None \<Rightarrow> []
         | Some (offset, annexB) \<Rightarrow>
             (if offset \<ge> length data then []
              else
                (case appendNals data (unat (data ! offset)) (offset + 1, annexB) of
                   None \<Rightarrow> []
                 | Some (_, annexB) \<Rightarrow> annexB))))"

section \<open>Length-prefixed units\<close>

definition avcc_unit :: "byte list list \<Rightarrow> byte list" where
  "avcc_unit nals = concat (map (\<lambda>n. be_put32 (word_of_nat (length n)) @ n) nals)"

definition annexb_unit :: "byte list list \<Rightarrow> byte list" where
  "annexb_unit nals = concat (map (\<lambda>n. startCode @ n) nals)"

definition sized_nal :: "nat \<Rightarrow> byte list \<Rightarrow> bool" where
  "sized_nal w n \<longleftrightarrow> n \<noteq> [] \<and> length n < 2 ^ w"

lemma NormalizeAccessUnit_loop_avcc:
  assumes "list_all (sized_nal 32) nals"
  shows "NormalizeAccessUnit_loop (pre @ avcc_unit nals) (length pre) annexB = Some (annexB @ annexb_unit nals)"
  using assms
proof (induction nals arbitrary: pre annexB)
  case Nil
  then show ?case by (subst NormalizeAccessUnit_loop.simps) (simp add: avcc_unit_def annexb_unit_def)
next
  case (Cons n nals)
  let ?p = "be_put32 (word_of_nat (length n)) :: byte list"
  let ?data = "pre @ avcc_unit (n # nals)"
  have data: "?data = pre @ ?p @ n @ avcc_unit nals" by (simp add: avcc_unit_def)
  have size: "unat (be_get32 ?data (length pre)) = length n"
  proof -
    have "be_get32 ?data (length pre) = word_of_nat (length n)" by (rule be_get32_layout) (simp add: data)
    then show ?thesis using Cons.prems by (simp add: sized_nal_def unat_of_nat)
  qed
  have "NormalizeAccessUnit_loop ?data (length pre) annexB =
      NormalizeAccessUnit_loop ?data (length pre + 4 + length n) (annexB @ startCode @ n)"
    using Cons.prems size by (subst NormalizeAccessUnit_loop.simps) (simp add: Let_def sized_nal_def data)
  also have "\<dots> = NormalizeAccessUnit_loop ((pre @ ?p @ n) @ avcc_unit nals) (length (pre @ ?p @ n)) (annexB @ startCode @ n)"
    by (simp add: data add.assoc)
  also have "\<dots> = Some ((annexB @ startCode @ n) @ annexb_unit nals)"
    by (rule Cons.IH) (use Cons.prems in simp)
  finally show ?case by (simp add: annexb_unit_def)
qed

text \<open>A length that reads as a start code: one, or 256 to 511.\<close>

definition length_reads_as_code :: "nat \<Rightarrow> bool" where
  "length_reads_as_code n \<longleftrightarrow> n = 1 \<or> 256 \<le> n \<and> n < 512"

lemma length_bytes:
  assumes "n < 2 ^ 32"
  shows "unat (ucast (drop_bit k (word_of_nat n :: u32)) :: byte) = (n div 2 ^ k) mod 256"
proof -
  have "unat (word_of_nat n :: u32) = n" using assms by (simp add: unat_of_nat)
  then have "unat (drop_bit k (word_of_nat n :: u32)) = n div 2 ^ k"
    using unat_drop_bit_eq [of k "word_of_nat n :: u32"] by (simp add: drop_bit_eq_div)
  moreover have "unat (ucast w :: byte) = unat w mod 256" for w :: u32
    by (simp add: unsigned_ucast_eq take_bit_eq_mod)
  ultimately show ?thesis by simp
qed

lemma HasAnnexBStartCode_avcc:
  assumes "sized_nal 32 n"
  shows "HasAnnexBStartCode (avcc_unit (n # nals)) \<longleftrightarrow> length_reads_as_code (length n)"
proof -
  let ?k = "length n"
  have k: "0 < ?k" "?k < 4294967296" using assms by (cases n; simp add: sized_nal_def)+
  have byte: "(b :: byte) = 0 \<longleftrightarrow> unat b = 0" "(b :: byte) = 1 \<longleftrightarrow> unat b = 1" for b
    by (auto simp: unat_eq_0 dest: arg_cong [of _ _ unat] intro: word_unat_eq_iff [THEN iffD2])
  have b: "unat (ucast (drop_bit j (word_of_nat ?k :: u32)) :: byte) = (?k div 2 ^ j) mod 256" for j
    using length_bytes [of ?k j] k(2) by simp
  have "HasAnnexBStartCode (avcc_unit (n # nals)) \<longleftrightarrow>
      (?k div 2 ^ 24) mod 256 = 0 \<and> (?k div 2 ^ 16) mod 256 = 0 \<and>
      ((?k div 2 ^ 8) mod 256 = 1 \<or> (?k div 2 ^ 8) mod 256 = 0 \<and> ?k mod 256 = 1)"
    using b [of 24] b [of 16] b [of 8] b [of 0]
    by (simp add: HasAnnexBStartCode_def avcc_unit_def be_put32_def byte)
  also have "(?k div 2 ^ 24) mod 256 = 0 \<longleftrightarrow> ?k < 16777216" using k(2) by (simp add: div_eq_0_iff less_mult_imp_div_less)
  also have "?k < 16777216 \<and> (?k div 2 ^ 16) mod 256 = 0 \<and>
      ((?k div 2 ^ 8) mod 256 = 1 \<or> (?k div 2 ^ 8) mod 256 = 0 \<and> ?k mod 256 = 1) \<longleftrightarrow>
      ?k < 65536 \<and> (?k div 256 = 1 \<or> ?k div 256 = 0 \<and> ?k mod 256 = 1)"
  proof (cases "?k < 16777216")
    case True
    then have "(?k div 2 ^ 16) mod 256 = 0 \<longleftrightarrow> ?k < 65536" by (simp add: div_eq_0_iff less_mult_imp_div_less)
    moreover have "?k < 65536 \<Longrightarrow> (?k div 2 ^ 8) mod 256 = ?k div 256" by (simp add: less_mult_imp_div_less)
    ultimately show ?thesis using True by auto
  qed simp
  also have "\<dots> \<longleftrightarrow> length_reads_as_code ?k"
  proof -
    have "?k div 256 = 1 \<longleftrightarrow> 256 \<le> ?k \<and> ?k < 512" by linarith
    moreover have "?k div 256 = 0 \<and> ?k mod 256 = 1 \<longleftrightarrow> ?k = 1" by (auto simp: div_eq_0_iff)
    ultimately show ?thesis unfolding length_reads_as_code_def by auto
  qed
  finally show ?thesis .
qed

lemma NormalizeAccessUnit_avcc:
  assumes "list_all (sized_nal 32) nals"
  shows "NormalizeAccessUnit (avcc_unit nals) =
    (if nals \<noteq> [] \<and> length_reads_as_code (length (hd nals)) then avcc_unit nals else annexb_unit nals)"
proof -
  have "NormalizeAccessUnit_loop (avcc_unit nals) 0 [] = Some (annexb_unit nals)"
    using NormalizeAccessUnit_loop_avcc [OF assms, of "[]" "[]"] by simp
  moreover have "HasAnnexBStartCode (avcc_unit nals) \<longleftrightarrow> nals \<noteq> [] \<and> length_reads_as_code (length (hd nals))"
    using assms HasAnnexBStartCode_avcc by (cases nals) (auto simp: HasAnnexBStartCode_def avcc_unit_def)
  ultimately show ?thesis by (auto simp: NormalizeAccessUnit_def)
qed

section \<open>The decoder configuration record\<close>

definition avcc_sets :: "byte list list \<Rightarrow> byte list" where
  "avcc_sets nals = concat (map (\<lambda>n. be_put16 (word_of_nat (length n)) @ n) nals)"

text \<open>ISO/IEC 14496-15: version, three bytes of the profile, the length size, the counts and the sets.\<close>

definition avcC_record :: "byte list \<Rightarrow> byte list list \<Rightarrow> byte list list \<Rightarrow> byte list \<Rightarrow> byte list" where
  "avcC_record profile sps pps extension =
     1 # profile @ [0xff, 0xe0 OR word_of_nat (length sps)] @ avcc_sets sps @ [word_of_nat (length pps)] @ avcc_sets pps
       @ extension"

lemma appendNals_sets:
  assumes "list_all (sized_nal 16) nals"
  shows "appendNals (pre @ avcc_sets nals @ post) (length nals) (length pre, annexB) =
    Some (length (pre @ avcc_sets nals), annexB @ annexb_unit nals)"
  using assms
proof (induction nals arbitrary: pre annexB)
  case Nil
  then show ?case by (simp add: avcc_sets_def annexb_unit_def)
next
  case (Cons n nals)
  let ?p = "be_put16 (word_of_nat (length n)) :: byte list"
  let ?data = "pre @ avcc_sets (n # nals) @ post"
  have data: "?data = pre @ ?p @ n @ avcc_sets nals @ post" by (simp add: avcc_sets_def)
  have "be_get16 ?data (length pre) = word_of_nat (length n)" by (rule be_get16_layout) (simp add: data)
  then have size: "unat (be_get16 ?data (length pre)) = length n" using Cons.prems by (simp add: sized_nal_def unat_of_nat)
  then have "appendNal ?data (length pre, annexB) = Some (length (pre @ ?p @ n), annexB @ startCode @ n)"
    using Cons.prems by (simp add: appendNal_def Let_def sized_nal_def data)
  moreover have "appendNals ((pre @ ?p @ n) @ avcc_sets nals @ post) (length nals) (length (pre @ ?p @ n), annexB @ startCode @ n) =
      Some (length ((pre @ ?p @ n) @ avcc_sets nals), (annexB @ startCode @ n) @ annexb_unit nals)"
    by (rule Cons.IH) (use Cons.prems in simp)
  ultimately show ?case by (simp add: data) (simp add: avcc_sets_def annexb_unit_def)
qed

lemma set_count: "k < 32 \<Longrightarrow> unat ((0xe0 OR word_of_nat k :: byte) AND 0x1f) = k"
proof -
  assume k: "k < 32"
  have "(0xe0 OR word_of_nat k :: byte) AND 0x1f = word_of_nat k AND 0x1f"
    by (simp add: bit.conj_disj_distrib2)
  also have "\<dots> = take_bit 5 (word_of_nat k)" by (simp add: take_bit_eq_mask mask_eq_exp_minus_1)
  also have "\<dots> = word_of_nat (take_bit 5 k)" by (simp add: take_bit_of_nat)
  also have "take_bit 5 k = k" using k by (simp add: take_bit_nat_eq_self)
  finally show ?thesis using k by (simp add: unat_of_nat)
qed

lemma NormalizeCodecConfig_record:
  assumes "length profile = 3" "list_all (sized_nal 16) sps" "list_all (sized_nal 16) pps" "length sps < 32" "length pps < 256"
  shows "NormalizeCodecConfig (avcC_record profile sps pps extension) = annexb_unit (sps @ pps)"
proof -
  let ?data = "avcC_record profile sps pps extension"
  let ?head = "1 # profile @ [0xff, 0xe0 OR word_of_nat (length sps)] :: byte list"
  have head: "length ?head = 6" using assms(1) by simp
  have data: "?data = ?head @ avcc_sets sps @ (word_of_nat (length pps) # avcc_sets pps @ extension)"
    "?data = (?head @ avcc_sets sps @ [word_of_nat (length pps)]) @ avcc_sets pps @ extension"
    by (simp_all add: avcC_record_def)
  have five: "?data ! 5 = 0xe0 OR word_of_nat (length sps)" using assms(1) by (simp add: avcC_record_def nth_append)
  have one: "?data ! 0 = 1" "7 \<le> length ?data" using assms(1) by (simp_all add: avcC_record_def)
  let ?at = "length (?head @ avcc_sets sps)"
  have first: "appendNals ?data (length sps) (6, []) = Some (?at, annexb_unit sps)"
    using appendNals_sets [OF assms(2), of ?head "word_of_nat (length pps) # avcc_sets pps @ extension" "[]"] head data(1) by simp
  have count: "?data ! ?at = word_of_nat (length pps)" "?at < length ?data"
    unfolding data(2) by (simp_all add: nth_append)
  have second: "appendNals ?data (length pps) (?at + 1, annexb_unit sps) =
      Some (length ((?head @ avcc_sets sps @ [word_of_nat (length pps)]) @ avcc_sets pps), annexb_unit sps @ annexb_unit pps)"
    using appendNals_sets [OF assms(3), of "?head @ avcc_sets sps @ [word_of_nat (length pps)]" extension "annexb_unit sps"] data(2) by simp
  have n: "unat (word_of_nat (length pps) :: byte) = length pps" using assms(5) by (simp add: unat_of_nat)
  show ?thesis
    using one five first count second n set_count [OF assms(4)]
    by (simp add: NormalizeCodecConfig_def annexb_unit_def not_le del: appendNals.simps)
qed

section \<open>Parameter sets are found\<close>

lemma HasAnnexBNalType_unit:
  assumes "n \<noteq> []" "hd n AND 0x1f = wanted"
  shows "HasAnnexBNalType (pre @ startCode @ n @ post) wanted"
proof -
  let ?bs = "pre @ startCode @ n @ post"
  obtain x xs where n: "n = x # xs" using assms(1) by (cases n) auto
  have "nal_prefix ?bs (length pre) = 4" by (simp add: nal_prefix_def startCode_def nth_append n)
  moreover have "?bs ! (length pre + 4) = x" by (simp add: startCode_def nth_append n)
  moreover have "length pre < length ?bs - 3" by (simp add: startCode_def n)
  ultimately show ?thesis using assms(2)
    by (auto simp: HasAnnexBNalType_def list_ex_iff n intro!: bexI [of _ "length pre"])
qed

lemma HasAnnexBNalType_annexb:
  assumes "n \<in> set nals" "n \<noteq> []" "hd n AND 0x1f = wanted"
  shows "HasAnnexBNalType (annexb_unit nals @ post) wanted"
proof -
  obtain as bs where "nals = as @ n # bs" using assms(1) by (meson split_list)
  then have "annexb_unit nals @ post = annexb_unit as @ startCode @ n @ (annexb_unit bs @ post)"
    by (simp add: annexb_unit_def)
  then show ?thesis using HasAnnexBNalType_unit [OF assms(2,3)] by simp
qed

lemma avcC_record_configures:
  assumes "length profile = 3" "list_all (sized_nal 16) sps" "list_all (sized_nal 16) pps" "length sps < 32" "length pps < 256"
    and "s \<in> set sps" "hd s AND 0x1f = 7" "p \<in> set pps" "hd p AND 0x1f = 8"
  shows "ContainsAvcCodecConfig (NormalizeCodecConfig (avcC_record profile sps pps extension) @ post)"
proof -
  have "s \<noteq> []" "p \<noteq> []" using assms(2,3,6,8) by (auto simp: list_all_iff sized_nal_def)
  then show ?thesis unfolding NormalizeCodecConfig_record [OF assms(1-5)] ContainsAvcCodecConfig_def
    using assms(6-9) by (intro conjI HasAnnexBNalType_annexb [of s] HasAnnexBNalType_annexb [of p]) simp_all
qed

section \<open>The encoder's output is what the decoders expect\<close>

text \<open>
  C12. An access unit of length-prefixed NAL units is turned into the same units behind start codes,
  and an \<open>avcC\<close> record into its parameter sets behind start codes, whatever follows it: with one
  exception. A unit whose first length is one, or 256 to 511, begins like a start code and is passed
  on as it is.
\<close>

theorem access_units_normalized:
  assumes "list_all (sized_nal 32) nals"
    and "length profile = 3" "list_all (sized_nal 16) sps" "list_all (sized_nal 16) pps" "length sps < 32" "length pps < 256"
  shows "NormalizeAccessUnit (avcc_unit nals) =
      (if nals \<noteq> [] \<and> length_reads_as_code (length (hd nals)) then avcc_unit nals else annexb_unit nals) \<and>
    NormalizeCodecConfig (avcC_record profile sps pps extension) = annexb_unit (sps @ pps)"
  using NormalizeAccessUnit_avcc [OF assms(1)] NormalizeCodecConfig_record [OF assms(2-6)] by simp

lemma access_units_normalized_witness:
  "NormalizeAccessUnit (avcc_unit [replicate 300 5]) = avcc_unit [replicate 300 5] \<and>
   NormalizeCodecConfig (avcC_record [100, 0, 31] [[0x67, 1]] [[0x68]] []) = [0, 0, 0, 1, 0x67, 1, 0, 0, 0, 1, 0x68]"
  using access_units_normalized [of "[replicate 300 5]" "[100, 0, 31]" "[[0x67, 1]]" "[[0x68]]" "[]"]
  by (simp add: sized_nal_def length_reads_as_code_def annexb_unit_def startCode_def)

end
