(* ===== verification/Data_Plane_Gate.thy ===== *)
theory Data_Plane_Gate
  imports Hwc_Prelude
begin

text \<open>
  \<open>DataPlaneGate\<close> (\<open>host/app/data_plane_gate.h\<close>): the gate between the host's control thread,
  which opens and revokes it, and the pipe thread, which captures a token per frame and sends each
  packet of the frame under the gate's mutex. \<open>gate_step\<close> is one atomic access of either thread
  (a load, a store, taking or releasing the mutex, the packet's \<open>sendto\<close>), so that a run is any
  interleaving of the two. The atomic forms of the operations are what \<open>Host_Server\<close> uses.
\<close>

section \<open>The operations as one step\<close>

record DataPlaneGate =
  epoch :: u64
  allowed :: bool

definition newGate :: DataPlaneGate where
  "newGate = \<lparr>epoch = 0, allowed = False\<rparr>"

definition Open :: "DataPlaneGate \<Rightarrow> DataPlaneGate \<times> u64" where
  "Open g = (let g = g\<lparr>allowed := False\<rparr>; token = epoch g + 1 in (g\<lparr>epoch := token, allowed := True\<rparr>, token))"

definition Revoke :: "DataPlaneGate \<Rightarrow> DataPlaneGate" where
  "Revoke g = (let g = g\<lparr>allowed := False\<rparr> in g\<lparr>epoch := epoch g + 1\<rparr>)"

definition Capture :: "DataPlaneGate \<Rightarrow> u64 option" where
  "Capture g = (if \<not> allowed g then None else Some (epoch g))"

definition CanSend :: "u64 \<Rightarrow> DataPlaneGate \<Rightarrow> bool" where
  "CanSend token g \<longleftrightarrow> allowed g \<and> epoch g = token"

definition RunIfAllowed :: "u64 \<Rightarrow> ('s \<Rightarrow> 's) \<Rightarrow> DataPlaneGate \<Rightarrow> 's \<Rightarrow> 's \<times> bool" where
  "RunIfAllowed token action g s = (if \<not> allowed g \<or> epoch g \<noteq> token then (s, False) else (action s, True))"

section \<open>The operations access by access\<close>

datatype holder = Nobody | ControlThread | SenderThread

text \<open>
  Where each thread is. \<open>Quiet opened\<close> is the control thread outside the operations, with what the
  last one was. \<open>Epochs\<close> counts the changes of \<open>epoch_\<close>; a sender carries, beside its token, the
  count at its capture.
\<close>

datatype control_position =
    Quiet bool
  | OpenLocking | OpenCounting | OpenAllowing | OpenUnlocking
  | RevokeLocking | RevokeCounting | RevokeUnlocking

datatype sender_position =
    Empty
  | CaptureLoading
  | CaptureChecking u64 nat
  | CaptureComparing u64 nat
  | Captured u64 nat
  | RunLoading u64 nat
  | RunComparing u64 nat
  | RunSending u64 nat
  | RunUnlocking u64 nat

record gate_state =
  gate :: DataPlaneGate
  mutex :: holder
  control :: control_position
  sender :: sender_position
  epochs :: nat
  packets :: "(nat \<times> nat) list"

definition gate_start :: gate_state where
  "gate_start = \<lparr>gate = newGate, mutex = Nobody, control = Quiet False, sender = Empty, epochs = 0, packets = []\<rparr>"

text \<open>The control thread's accesses, then the sender's.\<close>

inductive gate_step :: "gate_state \<Rightarrow> gate_state \<Rightarrow> bool" where
  open_closes: "control s = Quiet b \<Longrightarrow>
    gate_step s (s\<lparr>gate := (gate s)\<lparr>allowed := False\<rparr>, control := OpenLocking\<rparr>)"
| open_locks: "control s = OpenLocking \<Longrightarrow> mutex s = Nobody \<Longrightarrow>
    gate_step s (s\<lparr>mutex := ControlThread, control := OpenCounting\<rparr>)"
| open_counts: "control s = OpenCounting \<Longrightarrow>
    gate_step s (s\<lparr>gate := (gate s)\<lparr>epoch := epoch (gate s) + 1\<rparr>, epochs := epochs s + 1, control := OpenAllowing\<rparr>)"
| open_allows: "control s = OpenAllowing \<Longrightarrow>
    gate_step s (s\<lparr>gate := (gate s)\<lparr>allowed := True\<rparr>, control := OpenUnlocking\<rparr>)"
| open_unlocks: "control s = OpenUnlocking \<Longrightarrow>
    gate_step s (s\<lparr>mutex := Nobody, control := Quiet True\<rparr>)"
| revoke_closes: "control s = Quiet b \<Longrightarrow>
    gate_step s (s\<lparr>gate := (gate s)\<lparr>allowed := False\<rparr>, control := RevokeLocking\<rparr>)"
| revoke_locks: "control s = RevokeLocking \<Longrightarrow> mutex s = Nobody \<Longrightarrow>
    gate_step s (s\<lparr>mutex := ControlThread, control := RevokeCounting\<rparr>)"
| revoke_counts: "control s = RevokeCounting \<Longrightarrow>
    gate_step s (s\<lparr>gate := (gate s)\<lparr>epoch := epoch (gate s) + 1\<rparr>, epochs := epochs s + 1, control := RevokeUnlocking\<rparr>)"
| revoke_unlocks: "control s = RevokeUnlocking \<Longrightarrow>
    gate_step s (s\<lparr>mutex := Nobody, control := Quiet False\<rparr>)"
| capture_allowed: "sender s = Empty \<Longrightarrow> allowed (gate s) \<Longrightarrow>
    gate_step s (s\<lparr>sender := CaptureLoading\<rparr>)"
| capture_refused: "sender s = Empty \<Longrightarrow> \<not> allowed (gate s) \<Longrightarrow> gate_step s s"
| capture_loads: "sender s = CaptureLoading \<Longrightarrow>
    gate_step s (s\<lparr>sender := CaptureChecking (epoch (gate s)) (epochs s)\<rparr>)"
| capture_checks: "sender s = CaptureChecking token n \<Longrightarrow>
    gate_step s (s\<lparr>sender := (if allowed (gate s) then CaptureComparing token n else Empty)\<rparr>)"
| capture_compares: "sender s = CaptureComparing token n \<Longrightarrow>
    gate_step s (s\<lparr>sender := (if epoch (gate s) = token then Captured token n else Empty)\<rparr>)"
| frame_done: "sender s = Captured token n \<Longrightarrow> gate_step s (s\<lparr>sender := Empty\<rparr>)"
| run_locks: "sender s = Captured token n \<Longrightarrow> mutex s = Nobody \<Longrightarrow>
    gate_step s (s\<lparr>mutex := SenderThread, sender := RunLoading token n\<rparr>)"
| run_loads: "sender s = RunLoading token n \<Longrightarrow>
    gate_step s (s\<lparr>sender := (if allowed (gate s) then RunComparing token n else RunUnlocking token n)\<rparr>)"
| run_compares: "sender s = RunComparing token n \<Longrightarrow>
    gate_step s (s\<lparr>sender := (if epoch (gate s) = token then RunSending token n else RunUnlocking token n)\<rparr>)"
| run_sends: "sender s = RunSending token n \<Longrightarrow>
    gate_step s (s\<lparr>packets := packets s @ [(n, epochs s)], sender := RunUnlocking token n\<rparr>)"
| run_unlocks: "sender s = RunUnlocking token n \<Longrightarrow>
    gate_step s (s\<lparr>mutex := Nobody, sender := Captured token n\<rparr>)"

inductive_cases gate_step_cases: "gate_step s t"

text \<open>Every interleaving.\<close>

abbreviation gate_runs :: "gate_state \<Rightarrow> gate_state \<Rightarrow> bool" where
  "gate_runs \<equiv> gate_step\<^sup>*\<^sup>*"

section \<open>The invariant\<close>

definition control_holds :: "control_position \<Rightarrow> bool" where
  "control_holds c \<longleftrightarrow> c \<in> {OpenCounting, OpenAllowing, OpenUnlocking, RevokeCounting, RevokeUnlocking}"

fun sender_holds :: "sender_position \<Rightarrow> bool" where
  "sender_holds (RunLoading _ _) = True"
| "sender_holds (RunComparing _ _) = True"
| "sender_holds (RunSending _ _) = True"
| "sender_holds (RunUnlocking _ _) = True"
| "sender_holds _ = False"

text \<open>The sender's token belongs to a count that is not in the future, and is current when it sends.\<close>

fun token_ok :: "sender_position \<Rightarrow> gate_state \<Rightarrow> bool" where
  "token_ok Empty s = True"
| "token_ok CaptureLoading s = True"
| "token_ok (CaptureChecking token n) s \<longleftrightarrow> token = word_of_nat n \<and> n \<le> epochs s"
| "token_ok (CaptureComparing token n) s \<longleftrightarrow> token = word_of_nat n \<and> n \<le> epochs s"
| "token_ok (Captured token n) s \<longleftrightarrow> token = word_of_nat n \<and> n \<le> epochs s"
| "token_ok (RunLoading token n) s \<longleftrightarrow> token = word_of_nat n \<and> n \<le> epochs s"
| "token_ok (RunComparing token n) s \<longleftrightarrow> token = word_of_nat n \<and> n \<le> epochs s"
| "token_ok (RunSending token n) s \<longleftrightarrow> token = word_of_nat n \<and> n \<le> epochs s \<and> epoch (gate s) = token"
| "token_ok (RunUnlocking token n) s \<longleftrightarrow> token = word_of_nat n \<and> n \<le> epochs s"

text \<open>After a revocation nothing is between the gate's check and the end of a packet.\<close>

fun in_packet :: "sender_position \<Rightarrow> bool" where
  "in_packet (RunComparing _ _) = True"
| "in_packet (RunSending _ _) = True"
| "in_packet _ = False"

definition gate_inv :: "gate_state \<Rightarrow> bool" where
  "gate_inv s \<longleftrightarrow>
     (mutex s = ControlThread \<longleftrightarrow> control_holds (control s)) \<and>
     (mutex s = SenderThread \<longleftrightarrow> sender_holds (sender s)) \<and>
     epoch (gate s) = word_of_nat (epochs s) \<and> token_ok (sender s) s \<and>
     (allowed (gate s) \<longrightarrow> control s \<in> {Quiet True, OpenUnlocking}) \<and>
     (control s = Quiet False \<longrightarrow> \<not> in_packet (sender s))"

lemma gate_inv_start: "gate_inv gate_start"
  by (simp add: gate_inv_def gate_start_def newGate_def control_holds_def)

lemma token_ok_fields:
  "token_ok p (s\<lparr>control := c\<rparr>) = token_ok p s" "token_ok p (s\<lparr>mutex := m\<rparr>) = token_ok p s"
  "token_ok p (s\<lparr>sender := q\<rparr>) = token_ok p s" "token_ok p (s\<lparr>packets := l\<rparr>) = token_ok p s"
  "token_ok p (s\<lparr>gate := (gate s)\<lparr>allowed := a\<rparr>\<rparr>) = token_ok p s"
  by (cases p; simp)+

lemma in_packet_holds: "in_packet p \<Longrightarrow> sender_holds p"
  by (cases p) simp_all

lemma gate_inv_step:
  assumes "gate_inv s" "gate_step s t"
  shows "gate_inv t"
  using assms(2,1)
proof cases
  case open_counts
  then show ?thesis using assms(1) by (cases "sender s") (auto simp: gate_inv_def control_holds_def)
next
  case revoke_counts
  then show ?thesis using assms(1) by (cases "sender s") (auto simp: gate_inv_def control_holds_def)
qed (auto simp: gate_inv_def control_holds_def token_ok_fields dest: in_packet_holds split: if_splits)

lemma gate_inv_runs: "gate_runs gate_start s \<Longrightarrow> gate_inv s"
  by (induction rule: rtranclp_induct) (auto intro: gate_inv_start gate_inv_step)

text \<open>What was sent was sent in the epoch of its capture.\<close>

definition packets_inv :: "gate_state \<Rightarrow> bool" where
  "packets_inv s \<longleftrightarrow>
     (\<forall>(n, m) \<in> set (packets s). n \<le> m \<and> m \<le> epochs s \<and> (word_of_nat n :: u64) = word_of_nat m)"

lemma packets_inv_step:
  assumes "gate_inv s" "packets_inv s" "gate_step s t"
  shows "packets_inv t"
  using assms(3,1,2) by cases (fastforce simp: gate_inv_def packets_inv_def)+

lemma packets_inv_runs: "gate_runs gate_start s \<Longrightarrow> gate_inv s \<and> packets_inv s"
proof (induction rule: rtranclp_induct)
  case base
  show ?case by (rule conjI [OF gate_inv_start]) (simp add: packets_inv_def gate_start_def)
next
  case (step s t)
  then show ?case using gate_inv_step packets_inv_step by blast
qed

lemma word_of_nat_small: "n < 2 ^ 64 \<Longrightarrow> m < 2 ^ 64 \<Longrightarrow> (word_of_nat n :: u64) = word_of_nat m \<Longrightarrow> n = m"
  by (simp add: word_of_nat_eq_iff take_bit_nat_eq_self)

section \<open>Uninterrupted, the accesses are the operations\<close>

lemma open_runs:
  assumes "control s = Quiet b" "mutex s = Nobody"
  shows "gate_runs s (s\<lparr>gate := fst (Open (gate s)), control := Quiet True, epochs := epochs s + 1\<rparr>)"
proof -
  let ?s1 = "s\<lparr>gate := (gate s)\<lparr>allowed := False\<rparr>, control := OpenLocking\<rparr>"
  let ?s2 = "?s1\<lparr>mutex := ControlThread, control := OpenCounting\<rparr>"
  let ?s3 = "?s2\<lparr>gate := (gate ?s2)\<lparr>epoch := epoch (gate ?s2) + 1\<rparr>, epochs := epochs ?s2 + 1, control := OpenAllowing\<rparr>"
  let ?s4 = "?s3\<lparr>gate := (gate ?s3)\<lparr>allowed := True\<rparr>, control := OpenUnlocking\<rparr>"
  let ?s5 = "?s4\<lparr>mutex := Nobody, control := Quiet True\<rparr>"
  have "gate_step s ?s1" by (rule open_closes [OF assms(1)])
  moreover have "gate_step ?s1 ?s2" by (rule open_locks) (simp_all add: assms)
  moreover have "gate_step ?s2 ?s3" by (rule open_counts) simp
  moreover have "gate_step ?s3 ?s4" by (rule open_allows) simp
  moreover have "gate_step ?s4 ?s5" by (rule open_unlocks) simp
  ultimately have "gate_runs s ?s5" by (meson converse_rtranclp_into_rtranclp rtranclp.rtrancl_refl)
  moreover have "?s5 = s\<lparr>gate := fst (Open (gate s)), control := Quiet True, epochs := epochs s + 1\<rparr>"
    using assms by (cases s; cases "gate s") (simp add: Open_def Let_def)
  ultimately show ?thesis by (simp only:)
qed

lemma revoke_runs:
  assumes "control s = Quiet b" "mutex s = Nobody"
  shows "gate_runs s (s\<lparr>gate := Revoke (gate s), control := Quiet False, epochs := epochs s + 1\<rparr>)"
proof -
  let ?s1 = "s\<lparr>gate := (gate s)\<lparr>allowed := False\<rparr>, control := RevokeLocking\<rparr>"
  let ?s2 = "?s1\<lparr>mutex := ControlThread, control := RevokeCounting\<rparr>"
  let ?s3 = "?s2\<lparr>gate := (gate ?s2)\<lparr>epoch := epoch (gate ?s2) + 1\<rparr>, epochs := epochs ?s2 + 1, control := RevokeUnlocking\<rparr>"
  let ?s4 = "?s3\<lparr>mutex := Nobody, control := Quiet False\<rparr>"
  have "gate_step s ?s1" by (rule revoke_closes [OF assms(1)])
  moreover have "gate_step ?s1 ?s2" by (rule revoke_locks) (simp_all add: assms)
  moreover have "gate_step ?s2 ?s3" by (rule revoke_counts) simp
  moreover have "gate_step ?s3 ?s4" by (rule revoke_unlocks) simp
  ultimately have "gate_runs s ?s4" by (meson converse_rtranclp_into_rtranclp rtranclp.rtrancl_refl)
  moreover have "?s4 = s\<lparr>gate := Revoke (gate s), control := Quiet False, epochs := epochs s + 1\<rparr>"
    using assms by (cases s; cases "gate s") (simp add: Revoke_def Let_def)
  ultimately show ?thesis by (simp only:)
qed

lemma capture_runs:
  assumes "sender s = Empty" "Capture (gate s) = Some token"
  shows "gate_runs s (s\<lparr>sender := Captured token (epochs s)\<rparr>)"
proof -
  have g: "allowed (gate s)" "epoch (gate s) = token" using assms(2) by (simp_all add: Capture_def split: if_splits)
  let ?s1 = "s\<lparr>sender := CaptureLoading\<rparr>"
  let ?s2 = "?s1\<lparr>sender := CaptureChecking token (epochs s)\<rparr>"
  let ?s3 = "?s2\<lparr>sender := CaptureComparing token (epochs s)\<rparr>"
  let ?s4 = "?s3\<lparr>sender := Captured token (epochs s)\<rparr>"
  have "gate_step s ?s1" using g by (intro capture_allowed [OF assms(1)])
  moreover have "gate_step ?s1 ?s2" using capture_loads [of ?s1] g by simp
  moreover have "gate_step ?s2 ?s3" using capture_checks [of ?s2] g by simp
  moreover have "gate_step ?s3 ?s4" using capture_compares [of ?s3] g by simp
  ultimately have "gate_runs s ?s4" by (meson converse_rtranclp_into_rtranclp rtranclp.rtrancl_refl)
  then show ?thesis by simp
qed

lemma packet_runs:
  assumes "sender s = Captured token n" "mutex s = Nobody"
  shows "gate_runs s (s\<lparr>packets :=
    fst (RunIfAllowed token (\<lambda>ps. ps @ [(n, epochs s)]) (gate s) (packets s))\<rparr>)"
proof -
  let ?s1 = "s\<lparr>mutex := SenderThread, sender := RunLoading token n\<rparr>"
  have first: "gate_step s ?s1" by (rule run_locks [OF assms])
  consider (closed) "\<not> allowed (gate s)" | (other) "allowed (gate s)" "epoch (gate s) \<noteq> token"
    | (sent) "allowed (gate s)" "epoch (gate s) = token" by blast
  then show ?thesis
  proof cases
    case closed
    let ?s2 = "?s1\<lparr>sender := RunUnlocking token n\<rparr>"
    have "gate_step ?s1 ?s2" using run_loads [of ?s1] closed by simp
    moreover have "gate_step ?s2 s" using run_unlocks [of ?s2] assms by (cases s) simp
    ultimately have "gate_runs s s" using first by simp
    then show ?thesis using closed by (simp add: RunIfAllowed_def)
  next
    case other
    then show ?thesis by (simp add: RunIfAllowed_def)
  next
    case sent
    let ?s2 = "?s1\<lparr>sender := RunComparing token n\<rparr>"
    let ?s3 = "?s2\<lparr>sender := RunSending token n\<rparr>"
    let ?s4 = "?s3\<lparr>packets := packets s @ [(n, epochs s)], sender := RunUnlocking token n\<rparr>"
    let ?s5 = "?s4\<lparr>mutex := Nobody, sender := Captured token n\<rparr>"
    have "gate_step ?s1 ?s2" using run_loads [of ?s1] sent by simp
    moreover have "gate_step ?s2 ?s3" using run_compares [of ?s2] sent by simp
    moreover have "gate_step ?s3 ?s4" using run_sends [of ?s3] by simp
    moreover have "gate_step ?s4 ?s5" using run_unlocks [of ?s4] by simp
    ultimately have "gate_runs s ?s5" using first by (meson converse_rtranclp_into_rtranclp rtranclp.rtrancl_refl)
    moreover have "?s5 = s\<lparr>packets := packets s @ [(n, epochs s)]\<rparr>" using assms by (cases s) simp
    ultimately show ?thesis using sent by (simp add: RunIfAllowed_def)
  qed
qed

text \<open>An example: a frame captured in the first opening, one packet sent, and the gate revoked.\<close>

definition example_revoked :: gate_state where
  "example_revoked = \<lparr>gate = \<lparr>epoch = 2, allowed = False\<rparr>, mutex = Nobody, control = Quiet False,
     sender = Captured 1 1, epochs = 2, packets = [(1, 1)]\<rparr>"

lemma example_revoked_reached: "gate_runs gate_start example_revoked"
proof -
  let ?s1 = "\<lparr>gate = \<lparr>epoch = 1, allowed = True\<rparr>, mutex = Nobody, control = Quiet True, sender = Empty, epochs = 1, packets = []\<rparr>"
  let ?s2 = "?s1\<lparr>sender := Captured 1 1\<rparr>"
  let ?s3 = "?s2\<lparr>packets := [(1, 1)]\<rparr>"
  have "gate_runs gate_start ?s1"
    using open_runs [of gate_start False] by (simp add: gate_start_def newGate_def Open_def Let_def)
  moreover have "gate_runs ?s1 ?s2" using capture_runs [of ?s1 1] by (simp add: Capture_def)
  moreover have "gate_runs ?s2 ?s3" using packet_runs [of ?s2 1 1] by (simp add: RunIfAllowed_def)
  moreover have "gate_runs ?s3 example_revoked"
    using revoke_runs [of ?s3 True] by (simp add: Revoke_def example_revoked_def Let_def numeral_2_eq_2)
  ultimately show ?thesis by simp
qed

section \<open>Properties\<close>

text \<open>
  C2. In every interleaving of the control thread and the pipe thread, each packet was sent in the
  opening of the gate in which its frame captured its token: none outlives a revocation or a
  reopening. The epoch counter has 64 bits; the bound keeps it from wrapping.
\<close>

theorem packets_stay_in_their_opening:
  assumes "gate_runs gate_start s" "epochs s < 2 ^ 64"
  shows "list_all (\<lambda>(n, m). n = m \<and> m \<le> epochs s) (packets s)"
  using packets_inv_runs [OF assms(1)] assms(2)
  by (fastforce simp: packets_inv_def list_all_iff intro: word_of_nat_small)

lemma packets_stay_in_their_opening_witness: "list_all (\<lambda>(n, m). n = m \<and> m \<le> 2) (packets example_revoked)"
  using packets_stay_in_their_opening [OF example_revoked_reached] by (simp add: example_revoked_def)

text \<open>
  C3. When \<open>Revoke\<close> has returned no packet is being sent, and none is until the gate is opened
  again, whatever the pipe thread was doing.
\<close>

theorem revoked_gate_sends_nothing:
  assumes "gate_runs gate_start s" "control s = Quiet False" "gate_step s t"
  shows "packets t = packets s"
  using gate_inv_runs [OF assms(1)] assms(2) assms(3)
  by (auto simp: gate_inv_def elim!: gate_step_cases)

lemma revoked_gate_sends_nothing_witness:
  "packets (example_revoked\<lparr>mutex := SenderThread, sender := RunLoading 1 1\<rparr>) = [(1, 1)]"
proof -
  have "gate_step example_revoked (example_revoked\<lparr>mutex := SenderThread, sender := RunLoading 1 1\<rparr>)"
    by (rule run_locks) (simp_all add: example_revoked_def)
  from revoked_gate_sends_nothing [OF example_revoked_reached _ this] show ?thesis
    by (simp add: example_revoked_def)
qed

end
