(* ===== verification/Socket_Send.thy ===== *)
theory Socket_Send
  imports Hwc_Prelude
begin

text \<open>
  The blocking send loop that the Windows programs share: \<open>HostServer::SendControl\<close>
  (\<open>host/app/host_server.cpp\<close>), \<open>PointerRelay::Send\<close> and \<open>PipeSink::WriteAll\<close>, and the relay's
  \<open>SendAll\<close>. The script is what successive calls of \<open>send\<close> (or \<open>WriteFile\<close>) return; they hand
  over at most what is left. A script that ends stands for a call that does not return.
\<close>

fun send_all :: "byte list \<Rightarrow> int list \<Rightarrow> byte list \<times> bool" where
  "send_all [] script = ([], True)"
| "send_all (b # bs) [] = ([], False)"
| "send_all (b # bs) (n # script) =
     (if n \<le> 0 then ([], False)
      else (case send_all (drop (nat n) (b # bs)) script of
              (out, ok) \<Rightarrow> (take (nat n) (b # bs) @ out, ok)))"

lemma send_all_prefix:
  "send_all frame script = (out, ok) \<Longrightarrow> (\<exists>rest. frame = out @ rest) \<and> (ok \<longleftrightarrow> out = frame)"
proof (induction frame script arbitrary: out ok rule: send_all.induct)
  case (3 b bs n script)
  show ?case
  proof (cases "n \<le> 0")
    case True
    then show ?thesis using 3(2) by simp
  next
    case False
    obtain o' k where rec: "send_all (drop (nat n) (b # bs)) script = (o', k)" by fastforce
    have out: "out = take (nat n) (b # bs) @ o'" "ok = k" using 3(2) False rec by simp_all
    obtain z where z: "drop (nat n) (b # bs) = o' @ z" "k \<longleftrightarrow> o' = drop (nat n) (b # bs)"
      using 3(1) [OF False rec] by blast
    have "b # bs = take (nat n) (b # bs) @ o' @ z" by (metis append_take_drop_id z(1))
    moreover have "(out = b # bs) \<longleftrightarrow> o' = drop (nat n) (b # bs)"
      unfolding out by (metis append_take_drop_id same_append_eq)
    ultimately show ?thesis using z(2) out by auto
  qed
qed auto

lemma send_all_once: "0 < n \<Longrightarrow> int (length frame) \<le> n \<Longrightarrow> send_all frame [n] = (frame, True)"
  by (cases frame) simp_all

section \<open>Little-endian integers\<close>

definition le_put32 :: "u32 \<Rightarrow> byte list" where "le_put32 v = rev (be_put32 v)"
definition le_put64 :: "u64 \<Rightarrow> byte list" where "le_put64 v = rev (be_put64 v)"
definition le_get32 :: "byte list \<Rightarrow> nat \<Rightarrow> u32" where "le_get32 bs i = be_get32 (rev (take 4 (drop i bs))) 0"
definition le_get64 :: "byte list \<Rightarrow> nat \<Rightarrow> u64" where "le_get64 bs i = be_get64 (rev (take 8 (drop i bs))) 0"

lemma length_le_put [simp, wire_layout]: "length (le_put32 v) = 4" "length (le_put64 x) = 8"
  by (simp_all add: le_put32_def le_put64_def)

lemma le_get_layout [wire_layout]:
  "take 4 (drop i bs) = le_put32 v \<Longrightarrow> le_get32 bs i = v"
  "take 8 (drop i bs) = le_put64 w \<Longrightarrow> le_get64 bs i = w"
  by (simp_all add: le_get32_def le_get64_def le_put32_def le_put64_def be_get32_layout be_get64_layout)

end
