(* ===== verification/Fragments.thy ===== *)
theory Fragments
  imports Hwc_Prelude
begin

text \<open>
  Cutting an encoded frame into pieces of a positive length, as \<open>HostServer::SendVideoFrame\<close> and the
  relay's \<open>BuildLanVideoDatagrams\<close> do: the count rounded up leaves no byte out and makes no piece empty.
\<close>

lemma concat_pieces:
  assumes "0 < k"
  shows "concat (map (\<lambda>i. take k (drop (i * k) xs)) [0..<n]) = take (n * k) xs"
proof (induction n)
  case (Suc n)
  have "take (Suc n * k) xs = take (n * k) xs @ take k (drop (n * k) xs)"
    by (metis add.commute mult_Suc take_add)
  then show ?case using Suc by simp
qed simp

lemma pieces_cover:
  assumes "0 < (k :: nat)"
  shows "n \<le> (n + k - 1) div k * k"
  using div_mult_mod_eq [of "n + k - 1" k] mod_less_divisor [OF assms, of "n + k - 1"] assms by linarith

lemma pieces_nonempty:
  assumes "0 < (k :: nat)" "i < (n + k - 1) div k"
  shows "i * k < n"
proof -
  have "(i + 1) * k \<le> (n + k - 1) div k * k" by (rule mult_le_mono1) (use assms(2) in simp)
  also have "\<dots> \<le> n + k - 1" by (rule div_times_less_eq_dividend)
  finally show ?thesis using assms(1) by simp
qed

lemma concat_all_pieces:
  "0 < k \<Longrightarrow> concat (map (\<lambda>i. take k (drop (i * k) xs)) [0..<(length xs + k - 1) div k]) = xs"
  using concat_pieces [of k xs "(length xs + k - 1) div k"] pieces_cover [of k "length xs"] by simp

lemma unat_u16: "n \<le> 0xffff \<Longrightarrow> unat (word_of_nat n :: u16) = n"
  by (simp add: unat_of_nat)

end
