(* ===== verification/Host_Server.thy ===== *)
theory Host_Server
  imports Host_Protocol Data_Plane_Gate Socket_Send Fragments State_Machine
begin

text \<open>
  The Windows host (\<open>host/app/host_server.cpp\<close>, \<open>host_server.h\<close>): the pairing code and the session
  it opens, the five second window in which a lost session may resume, the dialogue of one control
  connection, and the frames that come through the encoder's pipe (\<open>host/graphics/pipe_sink.cpp\<close>)
  and leave as datagrams through the gate.

  One accepted connection, one \<open>recv\<close>, one control message, one pipe frame and one datagram are one
  step each; the control thread's and the pipe thread's steps interleave freely. Sockets, clocks,
  the random generator, the network gate's answer and the pointer pipe are arguments.
\<close>

section \<open>State\<close>

definition kControlPort :: u16 where "kControlPort = 44000"
definition kVideoPort :: u16 where "kVideoPort = 47101"
definition kPipeMagic :: u32 where "kPipeMagic = 0x48535046"
definition kMaxEncodedFrame :: nat where "kMaxEncodedFrame = 16 * 1024 * 1024"

record sockaddr_in =
  sin_addr :: u32
  sin_port :: u16

record PipeFrameHeader =
  magic :: u32
  payloadSize :: u32
  pipe_frame :: u32
  pipe_flags :: u32
  pipe_timestampUs :: u64

text \<open>The locals of \<open>HandleClient\<close>, with the frames of the last \<open>recv\<close> that are still to handle.\<close>

record Connection =
  peer :: sockaddr_in
  authenticated :: bool
  decoder :: ControlFrameDecoder
  lastMessage :: int
  inbox :: "string list"

text \<open>The locals of \<open>SendVideoFrame\<close> between two datagrams.\<close>

record VideoJob =
  dataPlaneToken :: u64
  video_to :: sockaddr_in
  video_session :: u32
  video_header :: PipeFrameHeader
  video_payload :: "byte list"
  next_fragment :: nat

record HostServer =
  started :: bool
  serving :: bool
  pairing_code :: string
  paired :: bool
  resume_pending :: bool
  resume_deadline :: int
  session_id :: "byte list"
  session_short :: u32
  video_peer :: sockaddr_in
  data_plane_gate :: DataPlaneGate
  keyframe_event :: bool
  connection :: "Connection option"
  control_out :: "byte list"
  video_job :: "VideoJob option"
  datagrams :: "(sockaddr_in \<times> byte list) list"
  frames_csv :: string
  telemetry_csv :: string

definition newHost :: HostServer where
  "newHost = \<lparr>started = False, serving = False, pairing_code = '''', paired = False, resume_pending = False, resume_deadline = 0,
     session_id = replicate 16 0, session_short = 0, video_peer = \<lparr>sin_addr = 0, sin_port = 0\<rparr>,
     data_plane_gate = newGate, keyframe_event = False, connection = None, control_out = [],
     video_job = None, datagrams = [], frames_csv = '''', telemetry_csv = ''''\<rparr>"

text \<open>A \<open>steady_clock::time_point\<close> counts microseconds.\<close>

definition seconds :: "int \<Rightarrow> int" where "seconds n = n * 1000000"

section \<open>The pairing code and the session\<close>

text \<open>\<open>random\<close> is what \<open>BCryptGenRandom\<close> writes, None when it fails.\<close>

definition RotatePairingCode :: "byte list option \<Rightarrow> HostServer \<Rightarrow> HostServer" where
  "RotatePairingCode random s =
     (case random of
        None \<Rightarrow> s\<lparr>pairing_code := ''------''\<rparr>
      | Some bs \<Rightarrow> s\<lparr>pairing_code := dec (unat (100000 + le_get32 bs 0 mod 900000)), paired := False\<rparr>)"

definition ClearSession :: "byte list option \<Rightarrow> HostServer \<Rightarrow> HostServer" where
  "ClearSession random s =
     RotatePairingCode random
       (s\<lparr>data_plane_gate := Revoke (data_plane_gate s), paired := False, resume_pending := False,
          session_short := 0, video_peer := \<lparr>sin_addr = 0, sin_port = 0\<rparr>\<rparr>)"

definition MarkDisconnected :: "int \<Rightarrow> HostServer \<Rightarrow> HostServer" where
  "MarkDisconnected now s =
     (if paired s then s\<lparr>resume_pending := True, resume_deadline := now + seconds 5\<rparr> else s)"

definition ExpireResumeWindow :: "int \<Rightarrow> byte list option \<Rightarrow> HostServer \<Rightarrow> HostServer" where
  "ExpireResumeWindow now random s =
     (if resume_pending s \<and> now \<ge> resume_deadline s then ClearSession random s else s)"

definition hex_digit_of :: "nat \<Rightarrow> char" where
  "hex_digit_of n = (if n < 10 then char_of (48 + n) else char_of (87 + n))"

definition HexSession :: "byte list \<Rightarrow> string" where
  "HexSession v = concat (map (\<lambda>b. [hex_digit_of (unat b div 16), hex_digit_of (unat b mod 16)]) v)"

definition SessionMessage :: "HostServer \<Rightarrow> string" where
  "SessionMessage s =
     ''{\"type\":\"session\",\"protocol\":1,\"sessionId\":\"'' @ HexSession (session_id s)
     @ ''\",\"sessionShort\":'' @ dec (unat (session_short s))
     @ '',\"codec\":\"video/avc\",\"width\":1920,\"height\":1200,\"fps\":60,\"videoPort\":47101}''"

definition StatusMessage :: "HostServer \<Rightarrow> string" where
  "StatusMessage s =
     ''{\"type\":\"host_status\",\"pairingCode\":\"'' @ pairing_code s @ ''\",\"paired\":''
     @ (if paired s then ''true'' else ''false'') @ ''}''"

section \<open>The metrics files\<close>

definition RecordHostFrame :: "u64 \<Rightarrow> u32 \<Rightarrow> u64 \<Rightarrow> nat \<Rightarrow> nat \<Rightarrow> bool \<Rightarrow> HostServer \<Rightarrow> HostServer" where
  "RecordHostFrame clock frame_number captureUs size_in fragment_count key s =
     s\<lparr>frames_csv := frames_csv s
        @ (if frames_csv s = [] then ''frame,capture_us,send_complete_us,encoded_bytes,udp_fragments,keyframe'' @ [newline] else [])
        @ dec (unat frame_number) @ '','' @ dec (unat captureUs) @ '','' @ dec (unat clock) @ '','' @ dec size_in
        @ '','' @ dec fragment_count @ '','' @ (if key then ''1'' else ''0'') @ [newline]\<rparr>"

definition RecordReceiverTelemetry :: "u64 \<Rightarrow> string \<Rightarrow> HostServer \<Rightarrow> HostServer" where
  "RecordReceiverTelemetry clock json s =
     (case (HostJsonInteger json ''captureUs'', HostJsonInteger json ''endToEndUs'',
            HostJsonInteger json ''framesDecoded'', HostJsonInteger json ''framesDropped'') of
        (Some captureUs, Some endToEndUs, Some decoded, Some dropped) \<Rightarrow>
          s\<lparr>telemetry_csv := telemetry_csv s
             @ (if telemetry_csv s = [] then ''received_host_us,capture_us,end_to_end_us,frames_decoded,frames_dropped'' @ [newline] else [])
             @ dec (unat clock) @ '','' @ int_dec captureUs @ '','' @ int_dec endToEndUs @ '',''
             @ int_dec decoded @ '','' @ int_dec dropped @ [newline]\<rparr>
      | _ \<Rightarrow> s)"

section \<open>The control connection\<close>

definition SendControl :: "int list \<Rightarrow> string \<Rightarrow> HostServer \<Rightarrow> HostServer \<times> bool" where
  "SendControl script json s =
     (let bytes_to_send = EncodeControlFrame json
      in if bytes_to_send = [] then (s, False)
         else (case send_all bytes_to_send script of (out, ok) \<Rightarrow> (s\<lparr>control_out := control_out s @ out\<rparr>, ok)))"

text \<open>\<open>HandleClient\<close> returns or breaks: the rest of the iteration in \<open>ControlLoop\<close>.\<close>

definition LeaveClient :: "int \<Rightarrow> HostServer \<Rightarrow> HostServer" where
  "LeaveClient now s = MarkDisconnected now (s\<lparr>connection := None\<rparr>)"

text \<open>
  What the platform gives while one message is handled: the clock, the random bytes of a new
  session id, what \<open>send\<close> returns, two readings of the performance counter and the answer of the
  pointer pipe.
\<close>

record ControlEnv =
  now :: int
  fresh_session :: "byte list option"
  send_script :: "int list"
  serverReceive :: u64
  serverSend :: u64
  pointer_error :: "string option"

definition error_message :: "string \<Rightarrow> string" where
  "error_message code = ''{\"type\":\"error\",\"code\":\"'' @ code @ ''\"}''"

definition canResume :: "int \<Rightarrow> string \<Rightarrow> sockaddr_in \<Rightarrow> HostServer \<Rightarrow> bool" where
  "canResume t json from s \<longleftrightarrow>
     HostJsonString json ''type'' = Some ''resume'' \<and>
     HostJsonString json ''sessionId'' = Some (HexSession (session_id s)) \<and> paired s \<and> resume_pending s \<and>
     t < resume_deadline s \<and> sin_addr from = sin_addr (video_peer s)"

definition codeMatches :: "string \<Rightarrow> HostServer \<Rightarrow> bool" where
  "codeMatches json s \<longleftrightarrow>
     HostJsonString json ''type'' = Some ''pair'' \<and> HostJsonString json ''pairingCode'' = Some (pairing_code s) \<and>
     \<not> paired s"

definition versionAndPort :: "string \<Rightarrow> bool" where
  "versionAndPort json \<longleftrightarrow> HostJsonInteger json ''protocol'' = Some (uint kProtocolVersion) \<and>
     HostJsonInteger json ''videoPort'' = Some (uint kVideoPort)"

text \<open>After the session is chosen: send it, and open the gate when the client has it.\<close>

definition AdmitClient :: "ControlEnv \<Rightarrow> Connection \<Rightarrow> HostServer \<Rightarrow> HostServer" where
  "AdmitClient env c s =
     (case SendControl (send_script env) (SessionMessage s) s of
        (s, False) \<Rightarrow> LeaveClient (now env) s
      | (s, True) \<Rightarrow> s\<lparr>connection := Some (c\<lparr>authenticated := True\<rparr>),
                      data_plane_gate := fst (Open (data_plane_gate s)), keyframe_event := True\<rparr>)"

definition video_endpoint :: "sockaddr_in \<Rightarrow> sockaddr_in" where
  "video_endpoint from = from\<lparr>sin_port := kVideoPort\<rparr>"

definition short_of :: "byte list \<Rightarrow> u32" where
  "short_of sid = (let shortId = le_get32 sid 0 in if shortId = 0 then 1 else shortId)"

definition HandleFirst :: "ControlEnv \<Rightarrow> string \<Rightarrow> Connection \<Rightarrow> HostServer \<Rightarrow> HostServer" where
  "HandleFirst env json c s =
     (let resumes = canResume (now env) json (peer c) s; matches = codeMatches json s
      in if (\<not> resumes \<and> \<not> matches) \<or> \<not> versionAndPort json
         then LeaveClient (now env) (fst (SendControl (send_script env) (error_message ''pairing_rejected'') s))
         else if resumes
         then AdmitClient env c (s\<lparr>resume_pending := False, video_peer := video_endpoint (peer c)\<rparr>)
         else
           (case fresh_session env of
              None \<Rightarrow> LeaveClient (now env) (fst (SendControl (send_script env) (error_message ''random_failed'') s))
            | Some sid \<Rightarrow>
                AdmitClient env c
                  (s\<lparr>session_id := sid, paired := True, resume_pending := False, session_short := short_of sid,
                     video_peer := video_endpoint (peer c)\<rparr>)))"

definition pong_message :: "int \<Rightarrow> ControlEnv \<Rightarrow> string" where
  "pong_message clientSend env =
     ''{\"type\":\"pong\",\"clientSendUs\":'' @ int_dec clientSend @ '',\"serverReceiveUs\":''
     @ dec (unat (serverReceive env)) @ '',\"serverSendUs\":'' @ dec (unat (serverSend env)) @ ''}''"

definition pointer_rejected :: "string \<Rightarrow> string" where
  "pointer_rejected inputError =
     ''{\"type\":\"error\",\"code\":\"pointer_rejected\",\"message\":\"'' @ HostEscapeJson inputError @ ''\"}''"

definition HandleAuthenticated :: "ControlEnv \<Rightarrow> string \<Rightarrow> HostServer \<Rightarrow> HostServer" where
  "HandleAuthenticated env json s =
     (let type = HostJsonString json ''type''
      in if type = Some ''ping''
         then fst (SendControl (send_script env)
                (pong_message (case HostJsonInteger json ''clientSendUs'' of None \<Rightarrow> 0 | Some i \<Rightarrow> i) env) s)
         else if type = Some ''keyframe'' then s\<lparr>keyframe_event := True\<rparr>
         else if type = Some ''telemetry'' then RecordReceiverTelemetry (serverReceive env) json s
         else if type = Some ''pointer''
         then (case pointer_error env of
                 None \<Rightarrow> s
               | Some inputError \<Rightarrow> fst (SendControl (send_script env) (pointer_rejected inputError) s))
         else s)"

text \<open>The next control message of the last \<open>recv\<close>.\<close>

definition HandleMessage :: "ControlEnv \<Rightarrow> HostServer \<Rightarrow> HostServer" where
  "HandleMessage env s =
     (case connection s of
        None \<Rightarrow> s
      | Some c \<Rightarrow>
          (case inbox c of
             [] \<Rightarrow> s
           | json # rest \<Rightarrow>
               (let c = c\<lparr>inbox := rest\<rparr>; s = s\<lparr>connection := Some c\<rparr>
                in if authenticated c then HandleAuthenticated env json s else HandleFirst env json c s)))"

datatype host_recv = PeerGone | RecvTimedOut | RecvBytes "byte list"

text \<open>The head of the loop in \<open>HandleClient\<close>, once all frames of the last \<open>recv\<close> are handled.\<close>

definition HandleClientRecv :: "bool \<Rightarrow> host_recv \<Rightarrow> byte list option \<Rightarrow> ControlEnv \<Rightarrow> HostServer \<Rightarrow> HostServer" where
  "HandleClientRecv wifi_allowed received random env s =
     (case connection s of
        None \<Rightarrow> s
      | Some c \<Rightarrow>
          (if inbox c \<noteq> [] then s
           else if \<not> wifi_allowed
           then LeaveClient (now env)
                  (fst (SendControl (send_script env) (error_message ''wifi_not_allowed'') (ClearSession random s)))
           else
             (case received of
                PeerGone \<Rightarrow> LeaveClient (now env) s
              | RecvTimedOut \<Rightarrow> (if now env - lastMessage c > seconds 3 then LeaveClient (now env) s else s)
              | RecvBytes data \<Rightarrow>
                  (case PushControl (decoder c) data of
                     (False, d, _) \<Rightarrow>
                       LeaveClient (now env) (fst (SendControl (send_script env) (error_message ''bad_frame'') s))
                   | (True, d, received_frames) \<Rightarrow>
                       s\<lparr>connection := Some (c\<lparr>decoder := d, lastMessage := now env, inbox := received_frames\<rparr>)\<rparr>))))"

text \<open>
  \<open>ControlLoop\<close> while no client is connected: the head of an iteration, and one of its listeners.
  \<open>wifi_allowed\<close> is the check right before \<open>accept\<close>, whose result is the peer.
\<close>

definition ControlHead :: "int \<Rightarrow> byte list option \<Rightarrow> HostServer \<Rightarrow> HostServer" where
  "ControlHead t random s = (if connection s \<noteq> None then s else ExpireResumeWindow t random s)"

definition AcceptClient :: "int \<Rightarrow> bool \<Rightarrow> sockaddr_in option \<Rightarrow> HostServer \<Rightarrow> HostServer" where
  "AcceptClient t wifi_allowed accepted s =
     (case accepted of
        None \<Rightarrow> s
      | Some from \<Rightarrow>
          (if connection s \<noteq> None \<or> \<not> wifi_allowed then s
           else s\<lparr>connection := Some \<lparr>peer = from, authenticated = False, decoder = newControlDecoder,
                    lastMessage = t, inbox = []\<rparr>, control_out := []\<rparr>))"

text \<open>
  \<open>Start\<close>: \<open>ready\<close> says that the events, the sockets and the network gate are there. A host that is
  serving has its control, pipe and status threads.
\<close>

definition StartHost :: "bool \<Rightarrow> byte list option \<Rightarrow> HostServer \<Rightarrow> HostServer \<times> bool" where
  "StartHost ready random s =
     (if started s then (s, False)
      else if \<not> ready then (s\<lparr>started := True\<rparr>, False)
      else ((RotatePairingCode random (s\<lparr>started := True\<rparr>))\<lparr>serving := True\<rparr>, True))"

text \<open>What \<open>StatusLoop\<close> writes to a client of the status pipe.\<close>

definition StatusFrame :: "HostServer \<Rightarrow> byte list" where
  "StatusFrame s = EncodeControlFrame (StatusMessage s)"

section \<open>The encoder's pipe\<close>

definition DecodePipeHeader :: "byte list \<Rightarrow> PipeFrameHeader" where
  "DecodePipeHeader bs = \<lparr>magic = le_get32 bs 0, payloadSize = le_get32 bs 4, pipe_frame = le_get32 bs 8,
     pipe_flags = le_get32 bs 12, pipe_timestampUs = le_get64 bs 16\<rparr>"

definition PipeHeaderAccepted :: "PipeFrameHeader \<Rightarrow> bool" where
  "PipeHeaderAccepted h \<longleftrightarrow> magic h = kPipeMagic \<and> payloadSize h \<noteq> 0 \<and> unat (payloadSize h) \<le> kMaxEncodedFrame"

text \<open>
  The loop of \<open>PipeLoop\<close> over one pipe connection, whose bytes \<open>ReadExactly\<close> takes one after the
  other; it ends at the first header that is not accepted and at the end of the bytes.
\<close>

function PipeFrames :: "byte list \<Rightarrow> (PipeFrameHeader \<times> byte list) list" where
  "PipeFrames bs =
     (if length bs < 24 then []
      else
        (let h = DecodePipeHeader bs; rest = drop 24 bs; n = unat (payloadSize h)
         in if \<not> PipeHeaderAccepted h \<or> length rest < n then []
            else (h, take n rest) # PipeFrames (drop n rest)))"
  by pat_completeness auto

termination by (relation "measure length") (simp_all add: Let_def)

declare PipeFrames.simps [simp del]

text \<open>The writer: \<open>PipeSink::Write\<close> of an encoded frame.\<close>

record EncodedFrame =
  frame_bytes_out :: "byte list"
  frame_timestampUs :: u64
  frame_key :: bool
  frame_config :: bool

definition PipeSinkWrite :: "u32 \<Rightarrow> EncodedFrame \<Rightarrow> byte list option" where
  "PipeSinkWrite frameNumber f =
     (if frame_bytes_out f = [] \<or> length (frame_bytes_out f) > 2 ^ 32 - 1 then None
      else Some (le_put32 kPipeMagic @ le_put32 (word_of_nat (length (frame_bytes_out f))) @ le_put32 frameNumber
        @ le_put32 ((if frame_key f then 1 else 0) OR (if frame_config f then 2 else 0))
        @ le_put64 (frame_timestampUs f) @ frame_bytes_out f))"

section \<open>Sending video\<close>

definition fragmentCount :: "byte list \<Rightarrow> nat" where
  "fragmentCount video = (length video + kMaxUdpPayload - 1) div kMaxUdpPayload"

definition BeginVideoFrame :: "PipeFrameHeader \<Rightarrow> byte list \<Rightarrow> HostServer \<Rightarrow> HostServer" where
  "BeginVideoFrame h video s =
     (if video_job s \<noteq> None then s
      else
        (case Capture (data_plane_gate s) of
           None \<Rightarrow> s
         | Some token \<Rightarrow>
             (if \<not> paired s \<or> session_short s = 0 then s
              else if fragmentCount video = 0 \<or> fragmentCount video > 0xffff then s
              else s\<lparr>video_job := Some \<lparr>dataPlaneToken = token, video_to = video_peer s,
                       video_session = session_short s, video_header = h, video_payload = video, next_fragment = 0\<rparr>\<rparr>)))"

definition packet_flags :: "VideoJob \<Rightarrow> nat \<Rightarrow> u16" where
  "packet_flags j i =
     kNone OR (if pipe_flags (video_header j) AND 1 \<noteq> 0 then kKeyframe else 0)
     OR (if pipe_flags (video_header j) AND 2 \<noteq> 0 then kCodecConfig else 0)
     OR (if i + 1 = fragmentCount (video_payload j) then kEndOfFrame else 0)"

definition fragment_payload :: "byte list \<Rightarrow> nat \<Rightarrow> byte list" where
  "fragment_payload video i = take kMaxUdpPayload (drop (i * kMaxUdpPayload) video)"

definition fragment_header :: "VideoJob \<Rightarrow> nat \<Rightarrow> VideoHeader" where
  "fragment_header j i =
     \<lparr>session = video_session j, frame = pipe_frame (video_header j), fragment = word_of_nat i,
      fragments = word_of_nat (fragmentCount (video_payload j)), flags = packet_flags j i,
      payloadLength = word_of_nat (length (fragment_payload (video_payload j) i)),
      timestampUs = pipe_timestampUs (video_header j)\<rparr>"

definition fragment_datagram :: "VideoJob \<Rightarrow> nat \<Rightarrow> byte list" where
  "fragment_datagram j i = EncodeVideoHeader (fragment_header j i) @ fragment_payload (video_payload j) i"

text \<open>The next datagram of the frame, or its end.\<close>

definition SendNextFragment :: "u64 \<Rightarrow> HostServer \<Rightarrow> HostServer" where
  "SendNextFragment clock s =
     (case video_job s of
        None \<Rightarrow> s
      | Some j \<Rightarrow>
          (if next_fragment j < fragmentCount (video_payload j)
           then
             (case RunIfAllowed (dataPlaneToken j)
                     (\<lambda>s. s\<lparr>datagrams := datagrams s @ [(video_to j, fragment_datagram j (next_fragment j))]\<rparr>)
                     (data_plane_gate s) s of
                (s, True) \<Rightarrow> s\<lparr>video_job := Some (j\<lparr>next_fragment := next_fragment j + 1\<rparr>)\<rparr>
              | (s, False) \<Rightarrow> s\<lparr>video_job := None\<rparr>)
           else
             (let s = s\<lparr>video_job := None\<rparr>
              in if CanSend (dataPlaneToken j) (data_plane_gate s)
                 then RecordHostFrame clock (pipe_frame (video_header j)) (pipe_timestampUs (video_header j))
                        (length (video_payload j)) (fragmentCount (video_payload j))
                        (pipe_flags (video_header j) AND 1 \<noteq> 0) s
                 else s)))"

section \<open>Events and runs\<close>

text \<open>The driver's wait consumes the key-frame event.\<close>

datatype host_event =
    HostStarts bool "byte list option"
  | HostIterates int "byte list option"
  | HostAccepts int bool "sockaddr_in option"
  | HostReceives bool host_recv "byte list option" ControlEnv
  | HostHandles ControlEnv
  | PipeDelivers PipeFrameHeader "byte list"
  | PipeContinues u64
  | DriverTakesKeyframe

fun host_step :: "host_event \<Rightarrow> HostServer \<Rightarrow> HostServer" where
  "host_step (HostStarts ready random) s = fst (StartHost ready random s)"
| "host_step (HostIterates t random) s = (if serving s then ControlHead t random s else s)"
| "host_step (HostAccepts t wifi accepted) s = (if serving s then AcceptClient t wifi accepted s else s)"
| "host_step (HostReceives wifi received random env) s = HandleClientRecv wifi received random env s"
| "host_step (HostHandles env) s = HandleMessage env s"
| "host_step (PipeDelivers h video) s = (if serving s then BeginVideoFrame h video s else s)"
| "host_step (PipeContinues clock) s = SendNextFragment clock s"
| "host_step DriverTakesKeyframe s = s\<lparr>keyframe_event := False\<rparr>"

definition host_run :: "host_event list \<Rightarrow> HostServer" where
  "host_run events = fold host_step events newHost"

section \<open>The session invariant\<close>

text \<open>
  The gate is open only for a session; an authenticated client has one; the session's video goes to
  the video port of its peer.
\<close>

definition host_inv :: "HostServer \<Rightarrow> bool" where
  "host_inv s \<longleftrightarrow>
     (allowed (data_plane_gate s) \<longrightarrow> paired s) \<and>
     (paired s \<longrightarrow> session_short s \<noteq> 0 \<and> sin_port (video_peer s) = kVideoPort) \<and>
     (\<forall>c. connection s = Some c \<longrightarrow> authenticated c \<longrightarrow> paired s) \<and>
     (\<not> started s \<longrightarrow> \<not> serving s) \<and> (\<not> serving s \<longrightarrow> connection s = None \<and> \<not> paired s) \<and> (resume_pending s \<longrightarrow> paired s)"

lemma newHost_inv: "host_inv newHost"
  by (simp add: host_inv_def newHost_def newGate_def)

lemma gate_simps [simp]: "\<not> allowed (Revoke g)" "allowed (fst (Open g))"
  by (simp_all add: Revoke_def Open_def Let_def)

lemma short_of_nonzero [simp]: "short_of sid \<noteq> 0"
  by (simp add: short_of_def Let_def)

lemma video_endpoint_simps [simp]: "sin_port (video_endpoint a) = kVideoPort" "sin_addr (video_endpoint a) = sin_addr a"
  by (simp_all add: video_endpoint_def)

lemma SendControl_fields [simp]:
  "started (fst (SendControl script json s)) = started s" "serving (fst (SendControl script json s)) = serving s"
  "pairing_code (fst (SendControl script json s)) = pairing_code s" "paired (fst (SendControl script json s)) = paired s"
  "resume_pending (fst (SendControl script json s)) = resume_pending s"
  "resume_deadline (fst (SendControl script json s)) = resume_deadline s"
  "session_id (fst (SendControl script json s)) = session_id s"
  "session_short (fst (SendControl script json s)) = session_short s"
  "video_peer (fst (SendControl script json s)) = video_peer s"
  "data_plane_gate (fst (SendControl script json s)) = data_plane_gate s"
  "connection (fst (SendControl script json s)) = connection s"
  "video_job (fst (SendControl script json s)) = video_job s" "datagrams (fst (SendControl script json s)) = datagrams s"
  by (simp_all add: SendControl_def Let_def split: prod.split)

lemma host_SendControl_inv: "host_inv (fst (SendControl script json s)) = host_inv s"
  by (simp add: host_inv_def)

lemma record_fields [simp]:
  "host_inv (RecordReceiverTelemetry clock json s) = host_inv s"
  "host_inv (RecordHostFrame clock n t b k key s) = host_inv s"
  "host_inv (s\<lparr>keyframe_event := b'\<rparr>) = host_inv s" "host_inv (s\<lparr>video_job := j\<rparr>) = host_inv s"
  "host_inv (s\<lparr>datagrams := d\<rparr>) = host_inv s"
  by (simp_all add: host_inv_def RecordReceiverTelemetry_def RecordHostFrame_def split: option.split)

lemma LeaveClient_inv: "host_inv s \<Longrightarrow> host_inv (LeaveClient t s)"
  by (auto simp: host_inv_def LeaveClient_def MarkDisconnected_def)

lemma ClearSession_inv: "host_inv s \<Longrightarrow> connection s = None \<Longrightarrow> host_inv (ClearSession random s)"
  by (auto simp: host_inv_def ClearSession_def RotatePairingCode_def split: option.split)

lemma ClearSession_leave_inv:
  "host_inv s \<Longrightarrow> host_inv (LeaveClient t (fst (SendControl script json (ClearSession random s))))"
  by (auto simp: host_inv_def ClearSession_def RotatePairingCode_def LeaveClient_def MarkDisconnected_def split: option.split)

lemma AdmitClient_inv:
  assumes "paired s" "session_short s \<noteq> 0" "sin_port (video_peer s) = kVideoPort" "started s" "serving s"
  shows "host_inv (AdmitClient env c s)"
proof -
  obtain t ok where send: "SendControl (send_script env) (SessionMessage s) s = (t, ok)" by fastforce
  have "started t = started s" "serving t = serving s" "paired t = paired s" "session_short t = session_short s"
      "video_peer t = video_peer s"
    using SendControl_fields [of "send_script env" "SessionMessage s" s] send by simp_all
  then show ?thesis
    using assms send by (cases ok) (auto simp: AdmitClient_def host_inv_def LeaveClient_def MarkDisconnected_def)
qed

lemma HandleFirst_inv: "host_inv s \<Longrightarrow> connection s \<noteq> None \<Longrightarrow> host_inv (HandleFirst env json c s)"
  by (auto simp: HandleFirst_def Let_def LeaveClient_inv host_SendControl_inv canResume_def intro!: AdmitClient_inv split: option.split)
     (auto simp: host_inv_def)

lemma HandleMessage_inv:
  assumes "host_inv s"
  shows "host_inv (HandleMessage env s)"
proof (cases "connection s")
  case (Some c)
  show ?thesis
  proof (cases "inbox c")
    case (Cons json rest)
    let ?s = "s\<lparr>connection := Some (c\<lparr>inbox := rest\<rparr>)\<rparr>"
    have "host_inv ?s" using assms Some by (auto simp: host_inv_def)
    then show ?thesis
      using Some Cons HandleFirst_inv [of ?s env json "c\<lparr>inbox := rest\<rparr>"]
      by (auto simp: HandleMessage_def HandleAuthenticated_def host_SendControl_inv Let_def split: option.split)
  qed (use assms Some in \<open>simp add: HandleMessage_def\<close>)
qed (use assms in \<open>simp add: HandleMessage_def\<close>)

lemma HandleClientRecv_inv:
  assumes "host_inv s"
  shows "host_inv (HandleClientRecv wifi received random env s)"
proof (cases "connection s")
  case (Some c)
  have "host_inv (s\<lparr>connection := Some (c\<lparr>decoder := d, lastMessage := t, inbox := fs\<rparr>)\<rparr>)" for d t fs
    using assms Some by (auto simp: host_inv_def)
  then show ?thesis
    using assms Some
    by (auto simp: HandleClientRecv_def LeaveClient_inv host_SendControl_inv ClearSession_leave_inv Let_def
        split: host_recv.split prod.split bool.split)
qed (use assms in \<open>simp add: HandleClientRecv_def\<close>)

lemma SendNextFragment_inv: "host_inv s \<Longrightarrow> host_inv (SendNextFragment clock s)"
  by (auto simp: SendNextFragment_def RunIfAllowed_def Let_def split: option.split)

lemma host_step_inv: "host_inv s \<Longrightarrow> host_inv (host_step e s)"
proof (cases e)
  case (HostStarts ready random)
  then show "host_inv s \<Longrightarrow> host_inv (host_step e s)"
    by (auto simp: StartHost_def RotatePairingCode_def host_inv_def split: option.split)
next
  case (HostIterates t random)
  then show "host_inv s \<Longrightarrow> host_inv (host_step e s)"
    by (auto simp: ControlHead_def ExpireResumeWindow_def ClearSession_inv)
next
  case (HostAccepts t wifi accepted)
  then show "host_inv s \<Longrightarrow> host_inv (host_step e s)"
    by (auto simp: AcceptClient_def host_inv_def split: option.split)
next
  case (PipeDelivers h video)
  then show "host_inv s \<Longrightarrow> host_inv (host_step e s)"
    by (auto simp: BeginVideoFrame_def split: option.split)
qed (simp_all add: HandleClientRecv_inv HandleMessage_inv SendNextFragment_inv)

interpretation host: invariant_system newHost host_step host_inv
  by unfold_locales (rule newHost_inv, rule host_step_inv)

lemma host_run_inv: "host_inv (host_run es)"
  unfolding host_run_def by (rule host.inv_run)

section \<open>Video goes to admitted peers\<close>

text \<open>The message about to be handled admits its sender: it has the pairing code, or resumes the session in time.\<close>

definition admission :: "ControlEnv \<Rightarrow> HostServer \<Rightarrow> sockaddr_in \<Rightarrow> bool" where
  "admission env s to_peer \<longleftrightarrow>
     (\<exists>c json rest. connection s = Some c \<and> inbox c = json # rest \<and> \<not> authenticated c \<and> versionAndPort json \<and>
        (canResume (now env) json (peer c) s \<or> codeMatches json s) \<and> to_peer = video_endpoint (peer c))"

definition admitted :: "host_event list \<Rightarrow> sockaddr_in \<Rightarrow> bool" where
  "admitted es to_peer \<longleftrightarrow>
     (\<exists>before env later. es = before @ HostHandles env # later \<and> admission env (host_run before) to_peer)"

lemma admitted_mono: "admitted es p \<Longrightarrow> admitted (es @ fs) p"
  unfolding admitted_def by fastforce

lemma admitted_now: "admission env (host_run es) p \<Longrightarrow> admitted (es @ [HostHandles env]) p"
  unfolding admitted_def by blast

text \<open>What a step does to the peer, the job and the datagrams.\<close>

definition keeps_video :: "HostServer \<Rightarrow> HostServer \<Rightarrow> bool" where
  "keeps_video s t \<longleftrightarrow> video_job t = video_job s \<and> datagrams t = datagrams s"

lemma keeps_video_control [simp]:
  "keeps_video s (fst (SendControl script json s))" "keeps_video s (LeaveClient t s)"
  "keeps_video s (ClearSession random s)" "keeps_video s s"
  by (simp_all add: keeps_video_def LeaveClient_def MarkDisconnected_def ClearSession_def RotatePairingCode_def
      split: option.split)

lemma LeaveClient_fields [simp]:
  "video_job (LeaveClient t s) = video_job s" "datagrams (LeaveClient t s) = datagrams s"
  "video_peer (LeaveClient t s) = video_peer s" "paired (LeaveClient t s) = paired s"
  by (simp_all add: LeaveClient_def MarkDisconnected_def)

lemma ClearSession_fields [simp]:
  "video_job (ClearSession random s) = video_job s" "datagrams (ClearSession random s) = datagrams s"
  "paired (ClearSession random s) = False" "allowed (data_plane_gate (ClearSession random s)) = False"
  by (simp_all add: ClearSession_def RotatePairingCode_def split: option.split)

lemma AdmitClient_fields [simp]:
  "video_job (AdmitClient env c s) = video_job s" "datagrams (AdmitClient env c s) = datagrams s"
  "video_peer (AdmitClient env c s) = video_peer s" "paired (AdmitClient env c s) = paired s"
proof -
  obtain t ok where send: "SendControl (send_script env) (SessionMessage s) s = (t, ok)" by fastforce
  then show "video_job (AdmitClient env c s) = video_job s" "datagrams (AdmitClient env c s) = datagrams s"
      "video_peer (AdmitClient env c s) = video_peer s" "paired (AdmitClient env c s) = paired s"
    using SendControl_fields [of "send_script env" "SessionMessage s" s]
    by (cases ok; simp add: AdmitClient_def)+
qed

lemma RecordReceiverTelemetry_fields [simp]:
  "video_job (RecordReceiverTelemetry clock json s) = video_job s"
  "datagrams (RecordReceiverTelemetry clock json s) = datagrams s"
  "video_peer (RecordReceiverTelemetry clock json s) = video_peer s"
  "paired (RecordReceiverTelemetry clock json s) = paired s"
  by (simp_all add: RecordReceiverTelemetry_def split: option.split)

lemma HandleMessage_video:
  "video_job (HandleMessage env s) = video_job s \<and> datagrams (HandleMessage env s) = datagrams s \<and>
   (paired (HandleMessage env s) \<longrightarrow>
      video_peer (HandleMessage env s) = video_peer s \<and> paired s \<or>
      admission env s (video_peer (HandleMessage env s)))"
proof (cases "connection s")
  case (Some c)
  show ?thesis
  proof (cases "inbox c")
    case (Cons json rest)
    let ?c = "c\<lparr>inbox := rest\<rparr>"
    let ?s = "s\<lparr>connection := Some ?c\<rparr>"
    have adm: "admission env s (video_endpoint (peer c))"
      if "versionAndPort json" "canResume (now env) json (peer c) s \<or> codeMatches json s" "\<not> authenticated c"
      using that Some Cons by (auto simp: admission_def)
    have same: "canResume (now env) json (peer c) ?s = canResume (now env) json (peer c) s"
        "codeMatches json ?s = codeMatches json s"
      by (simp_all add: canResume_def codeMatches_def)
    show ?thesis
      using Some Cons adm same
      by (auto simp: HandleMessage_def HandleFirst_def HandleAuthenticated_def Let_def split: option.split)
  qed (use Some in \<open>simp add: HandleMessage_def\<close>)
qed (simp add: HandleMessage_def)

lemma HandleClientRecv_video:
  "video_job (HandleClientRecv wifi received random env s) = video_job s \<and>
   datagrams (HandleClientRecv wifi received random env s) = datagrams s \<and>
   (paired (HandleClientRecv wifi received random env s) \<longrightarrow>
      video_peer (HandleClientRecv wifi received random env s) = video_peer s \<and> paired s)"
  by (auto simp: HandleClientRecv_def Let_def split: option.split host_recv.split prod.split bool.split)

lemma idle_steps_video:
  "video_job (ControlHead t random s) = video_job s \<and> datagrams (ControlHead t random s) = datagrams s \<and>
   (paired (ControlHead t random s) \<longrightarrow> video_peer (ControlHead t random s) = video_peer s \<and> paired s)"
  "video_job (AcceptClient t wifi accepted s) = video_job s \<and> datagrams (AcceptClient t wifi accepted s) = datagrams s \<and>
   (paired (AcceptClient t wifi accepted s) \<longrightarrow> video_peer (AcceptClient t wifi accepted s) = video_peer s \<and> paired s)"
  "video_job (fst (StartHost ready random s)) = video_job s \<and> datagrams (fst (StartHost ready random s)) = datagrams s \<and>
   (paired (fst (StartHost ready random s)) \<longrightarrow> video_peer (fst (StartHost ready random s)) = video_peer s \<and> paired s)"
  by (auto simp: ControlHead_def ExpireResumeWindow_def AcceptClient_def StartHost_def RotatePairingCode_def
      split: option.split)

definition video_admitted :: "host_event list \<Rightarrow> HostServer \<Rightarrow> bool" where
  "video_admitted es s \<longleftrightarrow>
     (paired s \<longrightarrow> admitted es (video_peer s)) \<and> (\<forall>j. video_job s = Some j \<longrightarrow> admitted es (video_to j)) \<and>
     (\<forall>(p, d) \<in> set (datagrams s). admitted es p)"

lemma video_admitted_run: "video_admitted es (host_run es)"
proof (induction es rule: rev_induct)
  case Nil
  show ?case by (simp add: video_admitted_def host_run_def newHost_def)
next
  case (snoc e es)
  let ?s = "host_run es" and ?t = "host_step e (host_run es)"
  have run: "host_run (es @ [e]) = ?t" by (simp add: host_run_def)
  have old: "admitted es p \<Longrightarrow> admitted (es @ [e]) p" for p by (rule admitted_mono)
  have IH: "paired ?s \<Longrightarrow> admitted (es @ [e]) (video_peer ?s)"
      "video_job ?s = Some j \<Longrightarrow> admitted (es @ [e]) (video_to j)"
      "(p, d) \<in> set (datagrams ?s) \<Longrightarrow> admitted (es @ [e]) p" for j p d
    using snoc.IH by (auto simp: video_admitted_def intro: old)
  have quiet: "video_admitted (es @ [e]) ?t"
    if "video_job ?t = video_job ?s \<and> datagrams ?t = datagrams ?s \<and>
      (paired ?t \<longrightarrow> video_peer ?t = video_peer ?s \<and> paired ?s)"
    using that IH by (auto simp: video_admitted_def)
  show ?case
  proof (cases e)
    case (HostHandles env)
    then have "admission env ?s (video_peer ?t) \<Longrightarrow> admitted (es @ [e]) (video_peer ?t)"
      using admitted_now by simp
    then show ?thesis
      unfolding run using HandleMessage_video [of env ?s] IH HostHandles by (auto simp: video_admitted_def)
  next
    case (PipeDelivers h video)
    then show ?thesis
      unfolding run using IH by (auto simp: video_admitted_def BeginVideoFrame_def split: option.splits if_splits)
  next
    case (PipeContinues clock)
    then show ?thesis
      unfolding run using IH
      by (auto simp: video_admitted_def SendNextFragment_def RunIfAllowed_def RecordHostFrame_def Let_def
          split: option.splits if_splits)
  next
    case (HostStarts ready random)
    then show ?thesis unfolding run using idle_steps_video(3) by (intro quiet) simp
  next
    case (HostIterates t random)
    then show ?thesis unfolding run using idle_steps_video(1) by (intro quiet) simp
  next
    case (HostAccepts t wifi accepted)
    then show ?thesis unfolding run using idle_steps_video(2) by (intro quiet) simp
  next
    case (HostReceives wifi received random env)
    then show ?thesis unfolding run using HandleClientRecv_video by (intro quiet) simp
  next
    case DriverTakesKeyframe
    then show ?thesis unfolding run by (intro quiet) simp
  qed
qed

section \<open>The datagrams of a frame\<close>

lemma fragment_nonempty: "i < fragmentCount video \<Longrightarrow> i * kMaxUdpPayload < length video"
  using pieces_nonempty [of kMaxUdpPayload i "length video"] by (simp add: fragmentCount_def kMaxUdpPayload_def)

lemma fragments_concat: "concat (map (fragment_payload video) [0..<fragmentCount video]) = video"
  using concat_all_pieces [of kMaxUdpPayload video]
  by (simp add: fragment_payload_def [abs_def] fragmentCount_def kMaxUdpPayload_def)

lemma fragment_payload_length:
  "i < fragmentCount video \<Longrightarrow> 0 < length (fragment_payload video i) \<and> length (fragment_payload video i) \<le> kMaxUdpPayload"
  using fragment_nonempty [of i video] by (simp add: fragment_payload_def kMaxUdpPayload_def)

lemma fragment_decodes:
  assumes "i < fragmentCount (video_payload j)" "fragmentCount (video_payload j) \<le> 0xffff"
  shows "DecodeVideoHeader (fragment_datagram j i) = Some (fragment_header j i)"
    and "drop kVideoHeaderSize (fragment_datagram j i) = fragment_payload (video_payload j) i"
    and "unat (fragment (fragment_header j i)) = i"
    and "unat (fragments (fragment_header j i)) = fragmentCount (video_payload j)"
proof -
  let ?n = "fragmentCount (video_payload j)"
  have un: "unat (word_of_nat i :: u16) = i" "unat (word_of_nat ?n :: u16) = ?n"
    using assms by (simp_all add: unat_u16)
  have len: "length (fragment_payload (video_payload j) i) \<le> kMaxUdpPayload"
    using fragment_payload_length [OF assms(1)] by simp
  then have un_len: "unat (word_of_nat (length (fragment_payload (video_payload j) i)) :: u16) =
      length (fragment_payload (video_payload j) i)"
    by (intro unat_u16) (simp add: kMaxUdpPayload_def)
  have "datagram_fits (fragment_header j i) (length (fragment_payload (video_payload j) i))"
    using len un un_len assms(1) by (simp add: datagram_fits_def fragment_header_def word_less_nat_alt)
  then show "DecodeVideoHeader (fragment_datagram j i) = Some (fragment_header j i)"
    unfolding DecodeVideoHeader_accepts_iff fragment_datagram_def EncodeVideoHeader_render by blast
  show "drop kVideoHeaderSize (fragment_datagram j i) = fragment_payload (video_payload j) i"
    by (simp add: fragment_datagram_def EncodeVideoHeader_render kVideoHeaderSize_def)
  show "unat (fragment (fragment_header j i)) = i"
    and "unat (fragments (fragment_header j i)) = ?n"
    using un by (simp_all add: fragment_header_def)
qed

text \<open>With the gate open all of them are sent, in order, to the peer of the frame.\<close>

lemma SendNextFragment_runs:
  assumes "video_job s = Some j" "CanSend (dataPlaneToken j) (data_plane_gate s)" "next_fragment j + k \<le> fragmentCount (video_payload j)"
  shows "(SendNextFragment clock ^^ k) s =
    s\<lparr>datagrams := datagrams s @ map (\<lambda>i. (video_to j, fragment_datagram j i)) [next_fragment j..<next_fragment j + k],
      video_job := Some (j\<lparr>next_fragment := next_fragment j + k\<rparr>)\<rparr>"
  using assms(3)
proof (induction k)
  case 0
  show ?case using assms(1) by simp
next
  case (Suc k)
  let ?t = "s\<lparr>datagrams := datagrams s @ map (\<lambda>i. (video_to j, fragment_datagram j i)) [next_fragment j..<next_fragment j + k],
      video_job := Some (j\<lparr>next_fragment := next_fragment j + k\<rparr>)\<rparr>"
  have same: "fragment_datagram (j\<lparr>next_fragment := m\<rparr>) i = fragment_datagram j i" for m i
    by (simp add: fragment_datagram_def fragment_header_def packet_flags_def)
  have "(SendNextFragment clock ^^ Suc k) s = SendNextFragment clock ?t" using Suc by simp
  also have "\<dots> = s\<lparr>datagrams := datagrams s @ map (\<lambda>i. (video_to j, fragment_datagram j i)) [next_fragment j..<next_fragment j + Suc k],
      video_job := Some (j\<lparr>next_fragment := next_fragment j + Suc k\<rparr>)\<rparr>"
    using assms(2) Suc.prems by (simp add: SendNextFragment_def RunIfAllowed_def CanSend_def same)
  finally show ?case .
qed

section \<open>The pipe\<close>

lemma pipe_header_layout:
  fixes h rest n number flag t
  defines "m \<equiv> le_put32 kPipeMagic @ le_put32 n @ le_put32 number @ le_put32 flag @ le_put64 t @ rest"
  shows "DecodePipeHeader m = \<lparr>magic = kPipeMagic, payloadSize = n, pipe_frame = number, pipe_flags = flag, pipe_timestampUs = t\<rparr>"
    "drop 24 m = rest" "24 \<le> length m"
  unfolding m_def DecodePipeHeader_def by (auto intro!: le_get_layout)

text \<open>What the pipe loop makes of an encoded frame.\<close>

definition piped :: "u32 \<Rightarrow> EncodedFrame \<Rightarrow> PipeFrameHeader \<times> byte list" where
  "piped number f =
     (\<lparr>magic = kPipeMagic, payloadSize = word_of_nat (length (frame_bytes_out f)), pipe_frame = number,
       pipe_flags = (if frame_key f then 1 else 0) OR (if frame_config f then 2 else 0),
       pipe_timestampUs = frame_timestampUs f\<rparr>, frame_bytes_out f)"

lemma PipeFrames_write:
  assumes "PipeSinkWrite number f = Some bs" "length (frame_bytes_out f) \<le> kMaxEncodedFrame"
  shows "PipeFrames (bs @ rest) = piped number f # PipeFrames rest"
proof -
  let ?n = "word_of_nat (length (frame_bytes_out f)) :: u32"
  let ?flags = "(if frame_key f then 1 else 0) OR (if frame_config f then 2 else 0) :: u32"
  have n: "unat ?n = length (frame_bytes_out f)" "0 < length (frame_bytes_out f)"
    using assms by (auto simp: PipeSinkWrite_def kMaxEncodedFrame_def unat_of_nat split: if_splits)
  then have nz: "?n \<noteq> 0" by (metis less_numeral_extra(3) unat_0)
  have bs: "bs @ rest = le_put32 kPipeMagic @ le_put32 ?n @ le_put32 number @ le_put32 ?flags @ le_put64 (frame_timestampUs f)
      @ frame_bytes_out f @ rest"
    using assms(1) by (auto simp: PipeSinkWrite_def split: if_splits)
  note l = pipe_header_layout [of ?n number ?flags "frame_timestampUs f" "frame_bytes_out f @ rest", folded bs]
  show ?thesis
    using l n nz assms(2)
    by (subst PipeFrames.simps) (simp add: PipeHeaderAccepted_def piped_def Let_def)
qed

lemma PipeFrames_writes:
  assumes "list_all2 (\<lambda>(number, f) bs. PipeSinkWrite number f = Some bs \<and> length (frame_bytes_out f) \<le> kMaxEncodedFrame) fs bss"
  shows "PipeFrames (concat bss) = map (\<lambda>(number, f). piped number f) fs"
  using assms
proof (induction fs bss rule: list_all2_induct)
  case Nil
  show ?case by (subst PipeFrames.simps) simp
next
  case (Cons f fs bs bss)
  then show ?case using PipeFrames_write by (cases f) fastforce
qed

section \<open>What the session rules allow\<close>

text \<open>
  A client that is refused while a lost session may still resume starts the five seconds anew: the
  session stays, and so does the gate.
\<close>

lemma refused_client_extends_window:
  assumes "connection s = Some c" "inbox c = json # rest" "\<not> authenticated c" "\<not> versionAndPort json" "paired s"
    and t: "t = HandleMessage env s"
  shows "paired t \<and> resume_pending t \<and> resume_deadline t = now env + seconds 5 \<and> data_plane_gate t = data_plane_gate s"
  using assms by (simp add: HandleMessage_def HandleFirst_def LeaveClient_def MarkDisconnected_def Let_def)

lemma host_keys: "key_word ''type'' \<and> key_word ''protocol'' \<and> key_word ''pairingCode'' \<and> key_word ''videoPort''"
  by (simp add: key_word_def isalnum_def isdigit_def isupper_def islower_def ord_def)

definition pair_fields :: "string \<Rightarrow> (string \<times> json_value) list" where
  "pair_fields code = [(''type'', JStr ''pair''), (''protocol'', JInt 1), (''pairingCode'', JStr code), (''videoPort'', JInt 47101)]"

definition code_text :: "string \<Rightarrow> bool" where
  "code_text w \<longleftrightarrow> plain w \<and> w \<notin> {''type'', ''protocol'', ''pairingCode'', ''videoPort''}"

lemma pair_message_read:
  assumes "code_text code" and json: "json = render_object (pair_fields code)"
  shows "HostJsonString json ''type'' = Some ''pair''" "HostJsonString json ''pairingCode'' = Some code" "versionAndPort json"
proof -
  have plain: "plain ''pair''" by (simp add: plain_def ord_def)
  have s: "searchable k (pair_fields code)" if "k \<in> {''type'', ''protocol'', ''pairingCode'', ''videoPort''}" for k
    using that assms(1) host_keys plain by (auto simp: searchable_def pair_fields_def code_text_def)
  have r: "list_all (\<lambda>(_, v). in_int64 v) (pair_fields code)" by (simp add: pair_fields_def in_int64_def)
  show "HostJsonString json ''type'' = Some ''pair''" "HostJsonString json ''pairingCode'' = Some code"
    using HostJsonString_render_object [OF s [of "''type''"]] HostJsonString_render_object [OF s [of "''pairingCode''"]]
    by (simp_all add: json pair_fields_def)
  show "versionAndPort json"
    using HostJsonInteger_render_object [OF s [of "''protocol''"] r] HostJsonInteger_render_object [OF s [of "''videoPort''"] r]
    by (simp add: json pair_fields_def versionAndPort_def kProtocolVersion_def kVideoPort_def)
qed

text \<open>When the random generator fails the pairing code is a fixed text, and pairs.\<close>

lemma failed_random_code_pairs:
  "codeMatches (render_object (pair_fields ''------'')) (ClearSession None s)"
proof -
  have "code_text ''------''" by (simp add: code_text_def plain_def ord_def)
  from pair_message_read [OF this refl] show ?thesis
    by (simp add: codeMatches_def) (simp add: ClearSession_def RotatePairingCode_def)
qed

section \<open>An example run\<close>

definition example_peer :: sockaddr_in where "example_peer = \<lparr>sin_addr = 0xC0A8010A, sin_port = 50000\<rparr>"

definition example_control :: ControlEnv where
  "example_control = \<lparr>now = 0, fresh_session = Some (replicate 16 1), send_script = [100000], serverReceive = 0,
     serverSend = 0, pointer_error = None\<rparr>"

definition example_pair :: string where "example_pair = render_object (pair_fields ''100000'')"

definition example_frame_header :: PipeFrameHeader where
  "example_frame_header = \<lparr>magic = kPipeMagic, payloadSize = 1, pipe_frame = 7, pipe_flags = 3, pipe_timestampUs = 9\<rparr>"

definition example_host_run :: "host_event list" where
  "example_host_run =
     [HostStarts True (Some [0, 0, 0, 0]), HostAccepts 0 True (Some example_peer),
      HostReceives True (RecvBytes (EncodeControlFrame example_pair)) None example_control,
      HostHandles example_control, PipeDelivers example_frame_header [5], PipeContinues 0]"

lemma example_received:
  "PushControl newControlDecoder (EncodeControlFrame example_pair) = (True, newControlDecoder, [example_pair])"
proof -
  have len: "length example_pair \<le> 200" "example_pair \<noteq> ''''"
    by (simp_all add: example_pair_def pair_fields_def render_object_def quoted_def EscapeJson_def int_dec_def dec.simps)
  then have "\<forall>f \<in> set [example_pair]. control_payload f \<and> length f + 8192 \<le> kMaxControlPayload + 1"
    by (simp add: control_payload_def kMaxControlPayload_def)
  from control_stream [OF this, of "[EncodeControlFrame example_pair]"] len show ?thesis
    by (simp add: EncodeControlFrame_def kMaxControlPayload_def split: prod.splits bool.splits)
qed

lemma dec_100000: "dec 100000 = ''100000''"
  by (simp add: dec.simps digit_char_def char_of_def bit_0)

lemma length_HexSession [simp]: "length (HexSession v) = 2 * length v"
  by (induction v) (simp_all add: HexSession_def)

lemma example_admitted:
  defines "s \<equiv> host_run (take 4 example_host_run)"
  shows "paired s" "session_short s \<noteq> 0" "allowed (data_plane_gate s)" "video_peer s = video_endpoint example_peer"
    "datagrams s = []" "video_job s = None" "serving s"
proof -
  let ?c = "\<lparr>peer = example_peer, authenticated = False, decoder = newControlDecoder, lastMessage = 0, inbox = []\<rparr>"
  let ?s2 = "newHost\<lparr>started := True, pairing_code := ''100000'', serving := True, connection := Some ?c\<rparr>"
  let ?s3 = "?s2\<lparr>connection := Some (?c\<lparr>inbox := [example_pair]\<rparr>)\<rparr>"
  let ?s4 = "?s2\<lparr>session_id := replicate 16 1, paired := True, resume_pending := False,
      session_short := short_of (replicate 16 1), video_peer := video_endpoint example_peer\<rparr>"
  have code: "code_text ''100000''" by (simp add: code_text_def plain_def ord_def)
  note read = pair_message_read [OF code example_pair_def]
  have two: "fold host_step (take 2 example_host_run) newHost = ?s2"
    by (simp add: example_host_run_def StartHost_def RotatePairingCode_def AcceptClient_def newHost_def le_get32_def
        be_get32_def dec_100000)
  have three: "host_step (HostReceives True (RecvBytes (EncodeControlFrame example_pair)) None example_control) ?s2 = ?s3"
    by (simp add: HandleClientRecv_def example_received) (simp add: example_control_def)
  have four: "host_step (HostHandles example_control) ?s3 = AdmitClient example_control ?c ?s4"
    using read
    by (simp add: HandleMessage_def HandleFirst_def canResume_def codeMatches_def Let_def newHost_def)
       (simp add: example_control_def)
  have "length (SessionMessage ?s4) \<le> 200 \<and> SessionMessage ?s4 \<noteq> ''''"
    by (simp add: SessionMessage_def newHost_def short_of_def le_get32_def be_get32_def dec.simps Let_def)
  then obtain u where u: "SendControl (send_script example_control) (SessionMessage ?s4) ?s4 = (u, True)"
    by (auto simp: SendControl_def EncodeControlFrame_def kMaxControlPayload_def example_control_def Let_def
        be_put32_def)
  have "fst (SendControl (send_script example_control) (SessionMessage ?s4) ?s4) = u" using u by simp
  then have fields: "paired u" "session_short u \<noteq> 0" "video_peer u = video_endpoint example_peer"
      "datagrams u = []" "video_job u = None" "serving u"
    using SendControl_fields [of "send_script example_control" "SessionMessage ?s4" ?s4] by (simp_all add: newHost_def)
  have s: "s = u\<lparr>connection := Some (?c\<lparr>authenticated := True\<rparr>),
        data_plane_gate := fst (Open (data_plane_gate u)), keyframe_event := True\<rparr>"
    using two three four u
    by (simp add: s_def host_run_def example_host_run_def AdmitClient_def del: host_step.simps)
  show "paired s" "session_short s \<noteq> 0" "allowed (data_plane_gate s)" "video_peer s = video_endpoint example_peer"
    "datagrams s = []" "video_job s = None" "serving s"
    using fields by (simp_all add: s)
qed

lemma example_sent: "\<exists>d. datagrams (host_run example_host_run) = [(video_endpoint example_peer, d)]"
proof -
  let ?s = "host_run (take 4 example_host_run)"
  have run: "host_run example_host_run = host_step (PipeContinues 0) (host_step (PipeDelivers example_frame_header [5]) ?s)"
    by (simp add: host_run_def example_host_run_def)
  have "fragmentCount [5] = 1" by (simp add: fragmentCount_def kMaxUdpPayload_def)
  then show ?thesis
    unfolding run using example_admitted
    by (simp add: BeginVideoFrame_def Capture_def SendNextFragment_def RunIfAllowed_def)
qed

section \<open>Properties\<close>

text \<open>
  C1. Every datagram the host sends goes to the video port of a peer that an earlier control message
  admitted: one that had the pairing code while nobody was paired, or that resumed the session in
  time from the address it was paired with.
\<close>

theorem video_only_to_admitted_peers:
  assumes "(to_peer, d) \<in> set (datagrams (host_run es))"
  shows "\<exists>before env later c json rest. es = before @ HostHandles env # later \<and>
    connection (host_run before) = Some c \<and> inbox c = json # rest \<and> \<not> authenticated c \<and> versionAndPort json \<and>
    (canResume (now env) json (peer c) (host_run before) \<or> codeMatches json (host_run before)) \<and>
    to_peer = video_endpoint (peer c)"
proof -
  have "admitted es to_peer" using video_admitted_run [of es] assms by (auto simp: video_admitted_def)
  then show ?thesis unfolding admitted_def admission_def by blast
qed

lemma video_only_to_admitted_peers_witness:
  "\<exists>before env later. example_host_run = before @ HostHandles env # later"
proof -
  obtain d where "(video_endpoint example_peer, d) \<in> set (datagrams (host_run example_host_run))"
    using example_sent by auto
  from video_only_to_admitted_peers [OF this] show ?thesis by blast
qed

text \<open>
  C5. The gate is open only while a session exists: in every run, an open gate means a paired peer
  with a non-zero short id whose video goes to the video port, and an authenticated client is paired.
\<close>

theorem open_gate_has_session:
  "(allowed (data_plane_gate (host_run es)) \<longrightarrow> paired (host_run es)) \<and>
   (paired (host_run es) \<longrightarrow> session_short (host_run es) \<noteq> 0 \<and> sin_port (video_peer (host_run es)) = kVideoPort) \<and>
   (\<forall>c. connection (host_run es) = Some c \<longrightarrow> authenticated c \<longrightarrow> paired (host_run es))"
  using host_run_inv [of es] by (simp add: host_inv_def)

lemma open_gate_has_session_witness: "paired (host_run (take 4 example_host_run))"
  using open_gate_has_session [of "take 4 example_host_run"] example_admitted(3) by simp

text \<open>
  C4. While the gate stays open, sending a captured frame puts its datagrams in order on the wire,
  each within the limit of its header and understood by the header decoder as its numbered part,
  and the parts joined are the frame.
\<close>

theorem frame_datagrams_rejoin:
  assumes "video_job s = Some j" "CanSend (dataPlaneToken j) (data_plane_gate s)" "next_fragment j = 0"
    and "n = fragmentCount (video_payload j)" "n \<le> 0xffff"
  shows "datagrams ((SendNextFragment clock ^^ n) s) =
      datagrams s @ map (\<lambda>i. (video_to j, fragment_datagram j i)) [0..<n] \<and>
    concat (map (\<lambda>i. drop kVideoHeaderSize (fragment_datagram j i)) [0..<n]) = video_payload j \<and>
    (\<forall>i < n. \<exists>h. DecodeVideoHeader (fragment_datagram j i) = Some h \<and> unat (fragment h) = i \<and> unat (fragments h) = n \<and>
       session h = video_session j \<and> frame h = pipe_frame (video_header j) \<and>
       (HasFlag (flags h) kEndOfFrame \<longleftrightarrow> i + 1 = n))"
proof (intro conjI allI impI)
  show "datagrams ((SendNextFragment clock ^^ n) s) =
      datagrams s @ map (\<lambda>i. (video_to j, fragment_datagram j i)) [0..<n]"
    using SendNextFragment_runs [OF assms(1,2), of n clock] assms(3,4) by simp
  have "map (\<lambda>i. drop kVideoHeaderSize (fragment_datagram j i)) [0..<n] = map (fragment_payload (video_payload j)) [0..<n]"
    using fragment_decodes(2) assms(4,5) by simp
  then show "concat (map (\<lambda>i. drop kVideoHeaderSize (fragment_datagram j i)) [0..<n]) = video_payload j"
    by (simp only:) (simp add: fragments_concat assms(4))
  show "\<exists>h. DecodeVideoHeader (fragment_datagram j i) = Some h \<and> unat (fragment h) = i \<and> unat (fragments h) = n \<and>
       session h = video_session j \<and> frame h = pipe_frame (video_header j) \<and>
       (HasFlag (flags h) kEndOfFrame \<longleftrightarrow> i + 1 = n)" if "i < n" for i
  proof (intro exI conjI)
    show "DecodeVideoHeader (fragment_datagram j i) = Some (fragment_header j i)"
      "unat (fragment (fragment_header j i)) = i" "unat (fragments (fragment_header j i)) = n"
      using fragment_decodes(1,3,4) [of i j] that assms(4,5) by simp_all
    show "HasFlag (flags (fragment_header j i)) kEndOfFrame \<longleftrightarrow> i + 1 = n"
      using assms(4) by (simp add: HasFlag_def fragment_header_def packet_flags_def kNone_def kKeyframe_def
          kCodecConfig_def kEndOfFrame_def)
  qed (simp_all add: fragment_header_def)
qed

definition example_job :: VideoJob where
  "example_job = \<lparr>dataPlaneToken = 1, video_to = video_endpoint example_peer, video_session = 5,
     video_header = example_frame_header, video_payload = replicate 1201 0, next_fragment = 0\<rparr>"

lemma frame_datagrams_rejoin_witness:
  "concat (map (\<lambda>i. drop kVideoHeaderSize (fragment_datagram example_job i)) [0..<2]) = replicate 1201 0"
proof -
  let ?s = "newHost\<lparr>video_job := Some example_job, data_plane_gate := \<lparr>epoch = 1, allowed = True\<rparr>\<rparr>"
  have job: "video_job ?s = Some example_job" "CanSend (dataPlaneToken example_job) (data_plane_gate ?s)"
      "next_fragment example_job = 0" "2 = fragmentCount (video_payload example_job)"
    by (simp_all add: CanSend_def example_job_def fragmentCount_def kMaxUdpPayload_def)
  from frame_datagrams_rejoin [OF job] show ?thesis by (simp add: example_job_def)
qed

text \<open>
  What the encoder's side writes into the pipe the host reads as the same frames in the same
  order, up to the limit of 16 MiB.
\<close>

theorem pipe_frames_arrive:
  assumes "list_all2 (\<lambda>(number, f) bs. PipeSinkWrite number f = Some bs \<and> length (frame_bytes_out f) \<le> kMaxEncodedFrame) fs bss"
  shows "PipeFrames (concat bss) = map (\<lambda>(number, f). piped number f) fs"
  by (rule PipeFrames_writes [OF assms])

lemma pipe_frames_arrive_witness:
  "\<exists>bs. PipeSinkWrite 3 \<lparr>frame_bytes_out = [1, 2], frame_timestampUs = 8, frame_key = True, frame_config = False\<rparr> = Some bs \<and>
     map snd (PipeFrames bs) = [[1, 2]]"
proof -
  let ?f = "\<lparr>frame_bytes_out = [1, 2], frame_timestampUs = 8, frame_key = True, frame_config = False\<rparr>"
  obtain bs where bs: "PipeSinkWrite 3 ?f = Some bs" by (simp add: PipeSinkWrite_def)
  have "list_all2 (\<lambda>(number, f) bs. PipeSinkWrite number f = Some bs \<and> length (frame_bytes_out f) \<le> kMaxEncodedFrame)
      [(3, ?f)] [bs]"
    using bs by (simp add: kMaxEncodedFrame_def)
  from pipe_frames_arrive [OF this] bs show ?thesis by (simp add: piped_def)
qed

end
