(* ===== verification/Windows_Results.thy ===== *)
theory Windows_Results
  imports Main
begin

text \<open>
  The results of the Windows calls that the host and the driver make, \<open>HRESULT\<close>: those the code
  names, and any other failure. Only \<open>S_OK\<close> and \<open>S_FALSE\<close> are successes among them.
\<close>

datatype hresult =
    S_OK
  | S_FALSE
  | E_INVALIDARG
  | E_UNEXPECTED
  | E_FAIL
  | E_PENDING
  | MF_E_INVALIDMEDIATYPE
  | MF_E_TOPO_CODEC_NOT_FOUND
  | MF_E_TRANSFORM_NEED_MORE_INPUT
  | MF_E_TRANSFORM_STREAM_CHANGE
  | RPC_E_CHANGED_MODE
  | Failure nat

definition FAILED :: "hresult \<Rightarrow> bool" where
  "FAILED r \<longleftrightarrow> r \<noteq> S_OK \<and> r \<noteq> S_FALSE"

text \<open>Calls each followed by \<open>RETURN_IF_FAILED\<close>, and what is returned behind them.\<close>

fun first_failure :: "hresult list \<Rightarrow> hresult \<Rightarrow> hresult" where
  "first_failure [] result = result"
| "first_failure (r # rs) result = (if FAILED r then r else first_failure rs result)"

end
