(* ===== verification/Host_Encoder.thy ===== *)
theory Host_Encoder
  imports Access_Units Host_Server State_Machine Windows_Results
begin

text \<open>
  The host's H.264 encoder, the class \<open>MfH264Encoder\<close> of \<open>host/graphics/mf_h264_encoder.cpp\<close> with its
  credit counters \<open>async_mft_schedule.h\<close> and its shutdown flag \<open>mft_shutdown_state.h\<close>. A hardware
  transform is asynchronous: a pump thread feeds it when it asks and collects what it delivers,
  while \<open>Encode\<close> only queues an input and takes an output. The software transform is called directly.

  Media Foundation and Direct3D are arguments: each call's result, the events of the transform and
  the contents of its samples. What the class calls on a transform is logged, and the log is
  checked against the transform's contract: it is activated when there is none, fed only after it
  asked when it is asynchronous, and shut down exactly once.
\<close>

section \<open>Credits and the shutdown flag\<close>

record AsyncMftSchedule =
  input_credits :: nat
  output_credits :: nat

definition newSchedule :: AsyncMftSchedule where
  "newSchedule = \<lparr>input_credits = 0, output_credits = 0\<rparr>"

definition OnNeedInput :: "AsyncMftSchedule \<Rightarrow> AsyncMftSchedule" where
  "OnNeedInput c = c\<lparr>input_credits := input_credits c + 1\<rparr>"

definition TryConsumeInputCredit :: "bool \<Rightarrow> AsyncMftSchedule \<Rightarrow> AsyncMftSchedule \<times> bool" where
  "TryConsumeInputCredit inputAvailable c =
     (if \<not> inputAvailable \<or> input_credits c = 0 then (c, False)
      else (c\<lparr>input_credits := input_credits c - 1\<rparr>, True))"

definition OnHaveOutput :: "AsyncMftSchedule \<Rightarrow> AsyncMftSchedule" where
  "OnHaveOutput c = c\<lparr>output_credits := output_credits c + 1\<rparr>"

definition TryConsumeOutputCredit :: "AsyncMftSchedule \<Rightarrow> AsyncMftSchedule \<times> bool" where
  "TryConsumeOutputCredit c =
     (if output_credits c = 0 then (c, False) else (c\<lparr>output_credits := output_credits c - 1\<rparr>, True))"

text \<open>\<open>MftShutdownState::Begin\<close>: the flag afterwards, and whether the caller is to shut down.\<close>

definition BeginShutdown :: "bool \<Rightarrow> bool \<times> bool" where
  "BeginShutdown shutdown = (if shutdown then (shutdown, False) else (True, True))"

section \<open>State\<close>

text \<open>A sample is a number and its time; what is logged are the calls that the contract is about.\<close>

record PendingInput =
  input_sample :: nat
  input_timestampUs :: u64
  input_force :: bool

datatype mft_call = Activated bool | AskedForInput | ProcessedInput nat | ForcedKeyframe | ShutDown

record MfH264Encoder =
  encoder_there :: bool
  using_hardware :: bool
  asynchronous :: bool
  shutdown_begun :: bool
  codec_config :: "byte list"
  pending_inputs :: "PendingInput list"
  ready_outputs :: "EncodedFrame list"
  async_schedule :: AsyncMftSchedule
  async_stopping :: bool
  async_error :: hresult
  pump_running :: bool
  mf_started :: bool
  frame_width :: u32
  frame_height :: u32
  mft_calls :: "mft_call list"

definition newEncoder :: MfH264Encoder where
  "newEncoder = \<lparr>encoder_there = False, using_hardware = False, asynchronous = False, shutdown_begun = False,
     codec_config = [], pending_inputs = [], ready_outputs = [], async_schedule = newSchedule, async_stopping = False,
     async_error = S_OK, pump_running = False, mf_started = False, frame_width = 0, frame_height = 0, mft_calls = []\<rparr>"

definition called :: "mft_call \<Rightarrow> MfH264Encoder \<Rightarrow> MfH264Encoder" where
  "called c s = s\<lparr>mft_calls := mft_calls s @ [c]\<rparr>"

section \<open>The transform's output\<close>

record OutputEnv =
  stream_info :: hresult
  allocation :: hresult
  process_output :: hresult
  sample_delivered :: bool
  sample_bytes :: "hresult \<times> byte list"
  clean_point :: bool
  sequence_header :: "(nat \<times> byte list option) option"
  sample_time :: "nat option"

text \<open>
  The output type's sequence header: None where there is no current type or the size of the header is not to be
  had, then the size, and behind it what \<open>GetBlob\<close> delivers, None where it fails.
\<close>

definition RefreshCodecConfig :: "(nat \<times> byte list option) option \<Rightarrow> MfH264Encoder \<Rightarrow> MfH264Encoder" where
  "RefreshCodecConfig header s =
     (case header of
        None \<Rightarrow> s
      | Some (blob_size, blob) \<Rightarrow>
          (if blob_size = 0 then s
           else (case blob of None \<Rightarrow> s | Some data \<Rightarrow> s\<lparr>codec_config := NormalizeCodecConfig data\<rparr>)))"

definition DrainOutput ::
    "OutputEnv \<Rightarrow> u64 \<Rightarrow> EncodedFrame \<Rightarrow> MfH264Encoder \<Rightarrow> MfH264Encoder \<times> EncodedFrame \<times> hresult" where
  "DrainOutput env time output s =
     (if FAILED (stream_info env) then (s, output, stream_info env)
      else if FAILED (allocation env) then (s, output, allocation env)
      else if process_output env = MF_E_TRANSFORM_NEED_MORE_INPUT then (s, output, S_FALSE)
      else if process_output env = MF_E_TRANSFORM_STREAM_CHANGE then (RefreshCodecConfig (sequence_header env) s, output, S_FALSE)
      else if FAILED (process_output env) then (s, output, process_output env)
      else if \<not> sample_delivered env then (s, output, E_UNEXPECTED)
      else if FAILED (fst (sample_bytes env)) then (s, output, fst (sample_bytes env))
      else
        (let s = RefreshCodecConfig (sequence_header env) s;
             unit = NormalizeAccessUnit (snd (sample_bytes env));
             bytes = (if clean_point env \<and> codec_config s \<noteq> [] then codec_config s @ unit else unit)
         in (s, \<lparr>frame_bytes_out = bytes,
                 frame_timestampUs = (case sample_time env of None \<Rightarrow> time | Some t \<Rightarrow> word_of_nat (t div 10)),
                 frame_key = clean_point env, frame_config = ContainsAvcCodecConfig bytes\<rparr>, S_OK)))"

section \<open>The pump\<close>

definition StartAsyncPump :: "bool \<Rightarrow> MfH264Encoder \<Rightarrow> MfH264Encoder \<times> hresult" where
  "StartAsyncPump thread_started s =
     (let s = s\<lparr>pending_inputs := [], ready_outputs := [], async_schedule := newSchedule, async_stopping := False,
                async_error := S_OK\<rparr>
      in if thread_started then (s\<lparr>pump_running := True\<rparr>, S_OK)
         else (s\<lparr>async_stopping := True, async_error := E_FAIL\<rparr>, E_FAIL))"

text \<open>The join waits for the iteration that sees the flag, and the thread has ended afterwards.\<close>

definition StopAsyncPump :: "MfH264Encoder \<Rightarrow> MfH264Encoder" where
  "StopAsyncPump s =
     s\<lparr>async_stopping := True, pump_running := False, pending_inputs := [], ready_outputs := [], async_schedule := newSchedule\<rparr>"

definition SetAsyncError :: "hresult \<Rightarrow> MfH264Encoder \<Rightarrow> MfH264Encoder" where
  "SetAsyncError e s = (if FAILED (async_error s) then s else s\<lparr>async_error := e\<rparr>)"

text \<open>The error with which the thread returns.\<close>

definition pump_fails :: "hresult \<Rightarrow> MfH264Encoder \<Rightarrow> MfH264Encoder" where
  "pump_fails e s = (SetAsyncError e s)\<lparr>pump_running := False\<rparr>"

definition ForceKeyframe :: "MfH264Encoder \<Rightarrow> MfH264Encoder" where
  "ForceKeyframe = called ForcedKeyframe"

datatype mft_event =
    NoEvent
  | GetEventFailed hresult
  | EventStatusFailed hresult
  | NeedInputEvent
  | HaveOutputEvent OutputEnv
  | ErrorEvent
  | OtherEvent

definition no_output :: EncodedFrame where
  "no_output = \<lparr>frame_bytes_out = [], frame_timestampUs = 0, frame_key = False, frame_config = False\<rparr>"

definition push_ready :: "EncodedFrame \<Rightarrow> EncodedFrame list \<Rightarrow> EncodedFrame list" where
  "push_ready f fs = drop (length fs - 3) fs @ [f]"

definition AsyncEventLoop_event :: "mft_event \<Rightarrow> MfH264Encoder \<Rightarrow> MfH264Encoder" where
  "AsyncEventLoop_event e s =
     (case e of
        NoEvent \<Rightarrow> s
      | GetEventFailed r \<Rightarrow> pump_fails r s
      | EventStatusFailed r \<Rightarrow> pump_fails r s
      | NeedInputEvent \<Rightarrow> called AskedForInput (s\<lparr>async_schedule := OnNeedInput (async_schedule s)\<rparr>)
      | HaveOutputEvent env \<Rightarrow>
          (case TryConsumeOutputCredit (OnHaveOutput (async_schedule s)) of
             (c, False) \<Rightarrow> s\<lparr>async_schedule := c\<rparr>
           | (c, True) \<Rightarrow>
               (case DrainOutput env 0 no_output (s\<lparr>async_schedule := c\<rparr>) of
                  (s, output, r) \<Rightarrow>
                    (if FAILED r then pump_fails r s
                     else if r = S_OK \<and> frame_bytes_out output \<noteq> []
                     then s\<lparr>ready_outputs := push_ready output (ready_outputs s)\<rparr>
                     else s)))
      | ErrorEvent \<Rightarrow> pump_fails E_FAIL s
      | OtherEvent \<Rightarrow> s)"

text \<open>One iteration of the loop: an input that has credit, or else an event.\<close>

definition AsyncEventLoop_iteration :: "hresult \<Rightarrow> mft_event \<Rightarrow> MfH264Encoder \<Rightarrow> MfH264Encoder" where
  "AsyncEventLoop_iteration inputResult e s =
     (if \<not> pump_running s then s
      else if async_stopping s then s\<lparr>pump_running := False\<rparr>
      else
        (case (TryConsumeInputCredit (pending_inputs s \<noteq> []) (async_schedule s), pending_inputs s) of
           ((c, True), input # inputs) \<Rightarrow>
             (let s = s\<lparr>async_schedule := c, pending_inputs := inputs\<rparr>;
                  s = (if input_force input then ForceKeyframe s else s);
                  s = called (ProcessedInput (input_sample input)) s
              in if FAILED inputResult then pump_fails inputResult s else s)
         | _ \<Rightarrow> AsyncEventLoop_event e s))"

section \<open>Creation and release\<close>

text \<open>\<open>SetMediaTypeCommon\<close>: major type, subtype, frame size, frame rate, aspect ratio, interlace mode.\<close>

record MediaTypeEnv =
  set_major_type :: hresult
  set_subtype :: hresult
  set_frame_size :: hresult
  set_frame_rate :: hresult
  set_aspect_ratio :: hresult
  set_interlace_mode :: hresult

definition SetMediaTypeCommon :: "MediaTypeEnv \<Rightarrow> hresult" where
  "SetMediaTypeCommon env =
     first_failure [set_major_type env, set_subtype env, set_frame_size env, set_frame_rate env, set_aspect_ratio env,
       set_interlace_mode env] S_OK"

record ConfigureEnv =
  create_output_type :: hresult
  output_type_env :: MediaTypeEnv
  set_bitrate :: hresult
  set_profile :: hresult
  set_output_type :: hresult
  create_input_type :: hresult
  input_type_env :: MediaTypeEnv
  set_input_type :: hresult
  begin_streaming :: hresult
  start_of_stream :: hresult

text \<open>The results of the codec settings before the media types are ignored by the code.\<close>

definition ConfigureEncoder :: "ConfigureEnv \<Rightarrow> hresult" where
  "ConfigureEncoder env =
     first_failure [create_output_type env, SetMediaTypeCommon (output_type_env env), set_bitrate env, set_profile env,
       set_output_type env, create_input_type env, SetMediaTypeCommon (input_type_env env), set_input_type env,
       begin_streaming env, start_of_stream env] S_OK"

record CreateEnv =
  enumeration :: hresult
  activations :: nat
  activation :: hresult
  event_generator :: hresult
  configuration :: ConfigureEnv
  pump_thread :: bool

definition CreateEncoder :: "bool \<Rightarrow> CreateEnv \<Rightarrow> MfH264Encoder \<Rightarrow> MfH264Encoder \<times> hresult" where
  "CreateEncoder hardware env s =
     (let result = (if FAILED (enumeration env) then enumeration env
                    else if activations env = 0 then MF_E_TOPO_CODEC_NOT_FOUND else activation env)
      in if FAILED result then (s, result)
         else
           (let s = (called (Activated hardware) s)\<lparr>encoder_there := True, shutdown_begun := False,
                      using_hardware := hardware, asynchronous := hardware\<rparr>
            in if hardware \<and> FAILED (event_generator env) then (s, event_generator env)
               else if FAILED (ConfigureEncoder (configuration env)) then (s, ConfigureEncoder (configuration env))
               else if hardware then StartAsyncPump (pump_thread env) s else (s, S_OK)))"

definition ReleaseEncoder :: "MfH264Encoder \<Rightarrow> MfH264Encoder" where
  "ReleaseEncoder s =
     (let s = StopAsyncPump s;
          s = (if encoder_there s
               then (case BeginShutdown (shutdown_begun s) of
                       (flag, first) \<Rightarrow> (let s = s\<lparr>shutdown_begun := flag\<rparr> in if first then called ShutDown s else s))
               else s)
      in s\<lparr>encoder_there := False, asynchronous := False\<rparr>)"

definition Shutdown :: "MfH264Encoder \<Rightarrow> MfH264Encoder" where
  "Shutdown s = (ReleaseEncoder s)\<lparr>codec_config := [], mf_started := False\<rparr>"

definition FallbackToSoftware :: "CreateEnv \<Rightarrow> MfH264Encoder \<Rightarrow> MfH264Encoder \<times> hresult" where
  "FallbackToSoftware env s =
     CreateEncoder False env ((ReleaseEncoder (StopAsyncPump s))\<lparr>using_hardware := False, codec_config := []\<rparr>)"

record InitializeEnv =
  device_there :: bool
  query_video_device :: hresult
  query_video_context :: hresult
  create_enumerator :: hresult
  create_processor :: hresult
  mf_startup :: hresult
  create_device_manager :: hresult
  reset_device :: hresult
  hardware_env :: CreateEnv
  software_env :: CreateEnv

definition CreateVideoProcessor :: "InitializeEnv \<Rightarrow> hresult" where
  "CreateVideoProcessor env = first_failure [create_enumerator env] (create_processor env)"

definition video_setup :: "InitializeEnv \<Rightarrow> hresult" where
  "video_setup env = first_failure [query_video_device env, query_video_context env, CreateVideoProcessor env, mf_startup env] S_OK"

definition device_manager :: "InitializeEnv \<Rightarrow> hresult" where
  "device_manager env = first_failure [create_device_manager env] (reset_device env)"

definition Initialize :: "InitializeEnv \<Rightarrow> u32 \<Rightarrow> u32 \<Rightarrow> u32 \<Rightarrow> MfH264Encoder \<Rightarrow> MfH264Encoder \<times> hresult" where
  "Initialize env width height fps s =
     (if \<not> device_there env \<or> width = 0 \<or> height = 0 \<or> fps = 0 \<or> width mod 2 \<noteq> 0 \<or> height mod 2 \<noteq> 0 then (s, E_INVALIDARG)
      else
        (let s = (Shutdown s)\<lparr>frame_width := width, frame_height := height\<rparr>
         in if FAILED (video_setup env) then (s, video_setup env)
            else
              (let s = s\<lparr>mf_started := True\<rparr>
               in if FAILED (device_manager env) then (s, device_manager env)
                  else
                    (case CreateEncoder True (hardware_env env) s of
                       (s, r) \<Rightarrow> if FAILED r then CreateEncoder False (software_env env) (ReleaseEncoder s) else (s, r)))))"

section \<open>Encoding\<close>

record ConvertEnv =
  source_width :: u32
  source_height :: u32
  create_input_view :: hresult
  create_texture :: hresult
  create_output_view :: hresult
  video_blt :: hresult

definition ConvertToNv12 :: "ConvertEnv \<Rightarrow> MfH264Encoder \<Rightarrow> hresult" where
  "ConvertToNv12 env s =
     (if source_width env \<noteq> frame_width s \<or> source_height env \<noteq> frame_height s then MF_E_INVALIDMEDIATYPE
      else first_failure [create_input_view env, create_texture env, create_output_view env] (video_blt env))"

record SampleEnv =
  create_surface_buffer :: hresult
  create_sample :: hresult
  add_buffer :: hresult
  set_sample_time :: hresult
  set_sample_duration :: hresult

definition CreateInputSample :: "SampleEnv \<Rightarrow> hresult" where
  "CreateInputSample env =
     first_failure [create_surface_buffer env, create_sample env, add_buffer env, set_sample_time env] (set_sample_duration env)"

record EncodeEnv =
  conversion :: ConvertEnv
  input_creation :: SampleEnv
  input_result :: hresult
  drain_env :: OutputEnv
  fallback_env :: CreateEnv
  second_creation :: SampleEnv
  second_result :: hresult
  second_drain :: OutputEnv

text \<open>The part of \<open>EnqueueAsynchronous\<close> before its wait: inputs beyond three are dropped, their request kept.\<close>

fun drop_inputs :: "PendingInput list \<Rightarrow> bool \<Rightarrow> PendingInput list \<times> bool" where
  "drop_inputs [] force = ([], force)"
| "drop_inputs (i # is) force = (if length (i # is) \<ge> 3 then drop_inputs is (force \<or> input_force i) else (i # is, force))"

definition EnqueueInput :: "nat \<Rightarrow> u64 \<Rightarrow> bool \<Rightarrow> MfH264Encoder \<Rightarrow> MfH264Encoder \<times> hresult" where
  "EnqueueInput sample time forceKeyframe s =
     (if FAILED (async_error s) then (s, async_error s)
      else
        (case drop_inputs (pending_inputs s) forceKeyframe of
           (inputs, force) \<Rightarrow>
             (s\<lparr>pending_inputs := inputs @ [\<lparr>input_sample = sample, input_timestampUs = time, input_force = force\<rparr>]\<rparr>, S_OK)))"

text \<open>The part behind it; the output is the one given when there is none.\<close>

definition TakeOutput :: "EncodedFrame \<Rightarrow> MfH264Encoder \<Rightarrow> MfH264Encoder \<times> EncodedFrame \<times> hresult" where
  "TakeOutput output s =
     (if FAILED (async_error s) then (s, output, async_error s)
      else (case ready_outputs s of
              [] \<Rightarrow> (s, output, S_FALSE)
            | f # fs \<Rightarrow> (s\<lparr>ready_outputs := fs\<rparr>, f, S_OK)))"

definition SubmitSynchronous ::
    "hresult \<Rightarrow> OutputEnv \<Rightarrow> nat \<Rightarrow> u64 \<Rightarrow> bool \<Rightarrow> EncodedFrame \<Rightarrow> MfH264Encoder \<Rightarrow> MfH264Encoder \<times> EncodedFrame \<times> hresult" where
  "SubmitSynchronous inputResult env sample time forceKeyframe output s =
     (let s = (if forceKeyframe then ForceKeyframe s else s);
          s = called (ProcessedInput sample) s
      in if FAILED inputResult then (s, output, inputResult) else DrainOutput env time output s)"

text \<open>The end of \<open>Encode\<close>: a hardware failure is followed by a second try with the software transform.\<close>

definition Encode_finish ::
    "EncodeEnv \<Rightarrow> nat \<Rightarrow> u64 \<Rightarrow> bool \<Rightarrow> MfH264Encoder \<times> EncodedFrame \<times> hresult
     \<Rightarrow> MfH264Encoder \<times> EncodedFrame \<times> hresult" where
  "Encode_finish env sample time forceKeyframe = (\<lambda>(s, output, result).
     if FAILED result \<and> using_hardware s then
       (case FallbackToSoftware (fallback_env env) s of
          (s, r) \<Rightarrow>
            (if FAILED r then (s, output, result)
             else if FAILED (CreateInputSample (second_creation env)) then (s, output, CreateInputSample (second_creation env))
             else SubmitSynchronous (second_result env) (second_drain env) sample time forceKeyframe output s))
     else (s, output, result))"

definition cleared :: "u64 \<Rightarrow> EncodedFrame" where
  "cleared time = no_output\<lparr>frame_timestampUs := time\<rparr>"

text \<open>\<open>Encode\<close> up to the wait for an output, or to its end where there is none: then the result is Some.\<close>

definition Encode_begin ::
    "EncodeEnv \<Rightarrow> nat \<Rightarrow> u64 \<Rightarrow> bool \<Rightarrow> EncodedFrame \<Rightarrow> MfH264Encoder \<Rightarrow> MfH264Encoder \<times> (EncodedFrame \<times> hresult) option" where
  "Encode_begin env sample time forceKeyframe output s =
     (if \<not> encoder_there s then (s, Some (output, E_INVALIDARG))
      else if FAILED (ConvertToNv12 (conversion env) s) then (s, Some (cleared time, ConvertToNv12 (conversion env) s))
      else if FAILED (CreateInputSample (input_creation env))
      then (case Encode_finish env sample time forceKeyframe (s, cleared time, CreateInputSample (input_creation env)) of (s, r) \<Rightarrow> (s, Some r))
      else if asynchronous s then
        (case EnqueueInput sample time forceKeyframe s of
           (s, r) \<Rightarrow>
             (if FAILED r
              then (case Encode_finish env sample time forceKeyframe (s, cleared time, r) of (s, r) \<Rightarrow> (s, Some r))
              else (s, None)))
      else
        (case Encode_finish env sample time forceKeyframe
                (SubmitSynchronous (input_result env) (drain_env env) sample time forceKeyframe (cleared time) s) of
           (s, r) \<Rightarrow> (s, Some r)))"

definition Encode_end ::
    "EncodeEnv \<Rightarrow> nat \<Rightarrow> u64 \<Rightarrow> bool \<Rightarrow> MfH264Encoder \<Rightarrow> MfH264Encoder \<times> EncodedFrame \<times> hresult" where
  "Encode_end env sample time forceKeyframe s =
     Encode_finish env sample time forceKeyframe (TakeOutput (cleared time) s)"

section \<open>The encoder's threads\<close>

text \<open>
  The mutex of \<open>Encode\<close> is held over its wait, so between its two parts only the pump runs. The waiting
  call keeps its arguments; \<open>encoded\<close> are the results of the calls that have returned.
\<close>

record EncoderThreads =
  enc :: MfH264Encoder
  waiting_for :: "(nat \<times> u64 \<times> bool) option"
  encoded :: "(EncodedFrame \<times> hresult) list"

definition newEncoderThreads :: EncoderThreads where
  "newEncoderThreads = \<lparr>enc = newEncoder, waiting_for = None, encoded = []\<rparr>"

datatype encoder_event =
    InitializeEvent InitializeEnv u32 u32 u32
  | EncodeEvent EncodeEnv nat u64 bool
  | WaitOverEvent EncodeEnv
  | PumpEvent hresult mft_event
  | DestroyEvent

fun encoder_step :: "encoder_event \<Rightarrow> EncoderThreads \<Rightarrow> EncoderThreads" where
  "encoder_step (InitializeEvent env width height fps) s =
     (if waiting_for s \<noteq> None then s else s\<lparr>enc := fst (Initialize env width height fps (enc s))\<rparr>)"
| "encoder_step (EncodeEvent env sample time forceKeyframe) s =
     (if waiting_for s \<noteq> None then s
      else (case Encode_begin env sample time forceKeyframe no_output (enc s) of
              (e, None) \<Rightarrow> s\<lparr>enc := e, waiting_for := Some (sample, time, forceKeyframe)\<rparr>
            | (e, Some r) \<Rightarrow> s\<lparr>enc := e, encoded := encoded s @ [r]\<rparr>))"
| "encoder_step (WaitOverEvent env) s =
     (case waiting_for s of
        None \<Rightarrow> s
      | Some (sample, time, forceKeyframe) \<Rightarrow>
          (case Encode_end env sample time forceKeyframe (enc s) of
             (e, r) \<Rightarrow> s\<lparr>enc := e, waiting_for := None, encoded := encoded s @ [r]\<rparr>))"
| "encoder_step (PumpEvent inputResult e) s = s\<lparr>enc := AsyncEventLoop_iteration inputResult e (enc s)\<rparr>"
| "encoder_step DestroyEvent s = (if waiting_for s \<noteq> None then s else s\<lparr>enc := Shutdown (enc s)\<rparr>)"

definition encoder_run :: "encoder_event list \<Rightarrow> EncoderThreads" where
  "encoder_run es = fold encoder_step es newEncoderThreads"

section \<open>The contract of a transform\<close>

datatype mft_phase = Absent | Software | Hardware nat | Violated

fun mft_step :: "mft_phase \<Rightarrow> mft_call \<Rightarrow> mft_phase" where
  "mft_step Absent (Activated hardware) = (if hardware then Hardware 0 else Software)"
| "mft_step Software (ProcessedInput _) = Software"
| "mft_step Software ForcedKeyframe = Software"
| "mft_step Software ShutDown = Absent"
| "mft_step (Hardware n) AskedForInput = Hardware (Suc n)"
| "mft_step (Hardware (Suc n)) (ProcessedInput _) = Hardware n"
| "mft_step (Hardware n) ForcedKeyframe = Hardware n"
| "mft_step (Hardware n) ShutDown = Absent"
| "mft_step _ _ = Violated"

definition mft_phase_of :: "mft_call list \<Rightarrow> mft_phase" where
  "mft_phase_of calls = foldl mft_step Absent calls"

definition truthful :: "EncodedFrame \<Rightarrow> bool" where
  "truthful f \<longleftrightarrow> frame_config f = ContainsAvcCodecConfig (frame_bytes_out f)"

definition encoder_inv :: "MfH264Encoder \<Rightarrow> bool" where
  "encoder_inv s \<longleftrightarrow>
     mft_phase_of (mft_calls s) =
       (if \<not> encoder_there s then Absent
        else if asynchronous s then Hardware (input_credits (async_schedule s)) else Software) \<and>
     (encoder_there s \<longrightarrow> \<not> shutdown_begun s \<and> using_hardware s = asynchronous s) \<and>
     (asynchronous s \<longrightarrow> encoder_there s) \<and>
     (pump_running s \<longrightarrow> asynchronous s) \<and>
     (\<not> asynchronous s \<longrightarrow> input_credits (async_schedule s) = 0) \<and>
     length (pending_inputs s) \<le> 3 \<and> length (ready_outputs s) \<le> 4 \<and> list_all truthful (ready_outputs s)"

lemma mft_phase_called [simp]: "mft_phase_of (mft_calls (called c s)) = mft_step (mft_phase_of (mft_calls s)) c"
  by (simp add: called_def mft_phase_of_def)

lemma called_fields [simp]:
  "encoder_there (called c s) = encoder_there s" "asynchronous (called c s) = asynchronous s"
  "using_hardware (called c s) = using_hardware s" "shutdown_begun (called c s) = shutdown_begun s"
  "pending_inputs (called c s) = pending_inputs s" "ready_outputs (called c s) = ready_outputs s"
  "async_schedule (called c s) = async_schedule s" "pump_running (called c s) = pump_running s"
  "async_error (called c s) = async_error s" "codec_config (called c s) = codec_config s"
  by (simp_all add: called_def)

lemma encoder_inv_new: "encoder_inv newEncoder"
  by (simp add: encoder_inv_def newEncoder_def newSchedule_def mft_phase_of_def)

lemma truthful_cleared [simp]: "truthful no_output" "truthful (cleared t)"
  by (simp_all add: truthful_def no_output_def cleared_def ContainsAvcCodecConfig_def HasAnnexBNalType_def)

text \<open>What reading an output changes: the configuration alone.\<close>

lemma RefreshCodecConfig_same: "s\<lparr>codec_config := codec_config (RefreshCodecConfig header s)\<rparr> = RefreshCodecConfig header s"
  by (simp add: RefreshCodecConfig_def split: option.split prod.split)

lemma DrainOutput_effect:
  assumes "DrainOutput env t output s = (s', output', r)"
  shows "s\<lparr>codec_config := codec_config s'\<rparr> = s'" "truthful output \<Longrightarrow> truthful output'"
  using assms RefreshCodecConfig_same [of "sequence_header env" s]
  by (auto simp: DrainOutput_def Let_def truthful_def split: if_splits)

lemma encoder_inv_config [simp]: "encoder_inv (s\<lparr>codec_config := c\<rparr>) = encoder_inv s"
  by (simp add: encoder_inv_def)

lemma StopAsyncPump_inv:
  "encoder_inv s \<Longrightarrow> \<not> asynchronous s \<Longrightarrow> encoder_inv (StopAsyncPump s)"
  by (simp add: encoder_inv_def StopAsyncPump_def newSchedule_def)

text \<open>Release leaves no transform, whatever the pump's state.\<close>

lemma ReleaseEncoder_inv:
  assumes "encoder_inv s"
  shows "encoder_inv (ReleaseEncoder s)" "\<not> encoder_there (ReleaseEncoder s)" "encoder_inv (ReleaseEncoder (StopAsyncPump s))"
    "\<not> encoder_there (ReleaseEncoder (StopAsyncPump s))"
proof -
  have p: "mft_phase_of (mft_calls s) \<noteq> Violated" "encoder_there s \<Longrightarrow> mft_step (mft_phase_of (mft_calls s)) ShutDown = Absent"
    using assms by (auto simp: encoder_inv_def split: if_splits)
  have calls: "mft_calls (StopAsyncPump u) = mft_calls u" for u by (simp add: StopAsyncPump_def)
  show "encoder_inv (ReleaseEncoder s)" "encoder_inv (ReleaseEncoder (StopAsyncPump s))"
    using assms p
    by (auto simp: ReleaseEncoder_def StopAsyncPump_def Let_def BeginShutdown_def encoder_inv_def newSchedule_def called_def
        mft_phase_of_def split: if_splits)
  show "\<not> encoder_there (ReleaseEncoder s)" "\<not> encoder_there (ReleaseEncoder (StopAsyncPump s))"
    by (simp_all add: ReleaseEncoder_def Let_def)
qed

lemma CreateEncoder_inv:
  assumes "CreateEncoder hardware env s = (t, r)" "encoder_inv s" "\<not> encoder_there s"
  shows "encoder_inv t"
  using assms
  by (auto simp: CreateEncoder_def Let_def StartAsyncPump_def encoder_inv_def newSchedule_def called_def mft_phase_of_def
      split: if_splits)

section \<open>Every step keeps the invariant\<close>

lemma encoder_inv_fields [simp]:
  "encoder_inv (s\<lparr>mf_started := b\<rparr>) = encoder_inv s" "encoder_inv (s\<lparr>frame_width := w\<rparr>) = encoder_inv s"
  "encoder_inv (s\<lparr>frame_height := h\<rparr>) = encoder_inv s"
  by (simp_all add: encoder_inv_def)

lemma Shutdown_inv: "encoder_inv s \<Longrightarrow> encoder_inv (Shutdown s)" "\<not> encoder_there (Shutdown s)"
  by (simp_all add: Shutdown_def ReleaseEncoder_inv(1)) (simp add: ReleaseEncoder_def Let_def)

lemma Initialize_inv:
  assumes "encoder_inv s"
  shows "encoder_inv (fst (Initialize env width height fps s))"
proof -
  define t where "t = (Shutdown s)\<lparr>frame_width := width, frame_height := height\<rparr>"
  have t: "encoder_inv t" "encoder_inv (t\<lparr>mf_started := True\<rparr>)" "\<not> encoder_there (t\<lparr>mf_started := True\<rparr>)"
    using Shutdown_inv [of s] assms by (simp_all add: t_def)
  obtain u r where u: "CreateEncoder True (hardware_env env) (t\<lparr>mf_started := True\<rparr>) = (u, r)" by fastforce
  have "encoder_inv u" using CreateEncoder_inv [OF u] t by blast
  moreover have "encoder_inv (fst (CreateEncoder False (software_env env) (ReleaseEncoder u)))"
    by (rule CreateEncoder_inv [OF prod.collapse [symmetric]]) (use ReleaseEncoder_inv \<open>encoder_inv u\<close> in auto)
  ultimately show ?thesis
    using assms t u by (simp add: Initialize_def Let_def flip: t_def)
qed

lemma drop_inputs_short:
  "drop_inputs is force = (js, f) \<Longrightarrow> length js \<le> 2 \<and> (f \<or> list_ex input_force js \<longleftrightarrow> force \<or> list_ex input_force is)"
  by (induction "is" force rule: drop_inputs.induct) (auto split: if_splits)

lemma EnqueueInput_inv:
  assumes "EnqueueInput sample t force s = (s', r)" "encoder_inv s"
  shows "encoder_inv s'" "using_hardware s' = using_hardware s" "asynchronous s' = asynchronous s"
  using assms drop_inputs_short [of "pending_inputs s" force]
  by (auto simp: EnqueueInput_def encoder_inv_def split: if_splits prod.splits)

lemma TakeOutput_inv:
  assumes "TakeOutput output s = (s', output', r)" "encoder_inv s" "truthful output"
  shows "encoder_inv s'" "truthful output'"
  using assms by (auto simp: TakeOutput_def encoder_inv_def split: if_splits list.splits)

lemma DrainOutput_inv:
  assumes "DrainOutput env t output s = (s', output', r)" "encoder_inv s"
  shows "encoder_inv s'" "truthful output \<Longrightarrow> truthful output'"
  using DrainOutput_effect [OF assms(1)] assms(2) by (metis encoder_inv_config)+

lemma SubmitSynchronous_inv:
  assumes "SubmitSynchronous inputResult env sample t force output s = (s', output', r)"
    "encoder_inv s" "encoder_there s" "\<not> asynchronous s" "truthful output"
  shows "encoder_inv s'" "truthful output'"
proof -
  define u where "u = called (ProcessedInput sample) (if force then ForceKeyframe s else s)"
  have "encoder_inv u" using assms(2-4) by (simp add: u_def encoder_inv_def ForceKeyframe_def)
  moreover have "(s', output', r) = (if FAILED inputResult then (u, output, inputResult) else DrainOutput env t output u)"
    using assms(1) by (auto simp: SubmitSynchronous_def Let_def u_def)
  ultimately show "encoder_inv s'" "truthful output'"
    using DrainOutput_inv [of env t "output" u s' output' r] assms(5) by (auto split: if_splits)
qed

lemma FallbackToSoftware_inv:
  assumes "FallbackToSoftware env s = (s', r)" "encoder_inv s"
  shows "encoder_inv s'" "\<not> FAILED r \<Longrightarrow> encoder_there s' \<and> \<not> asynchronous s'"
proof -
  define t where "t = (ReleaseEncoder (StopAsyncPump s))\<lparr>using_hardware := False, codec_config := []\<rparr>"
  have "encoder_inv t" "\<not> encoder_there t"
    using ReleaseEncoder_inv(3,4) [of s] assms(2) by (auto simp: t_def encoder_inv_def)
  then show "encoder_inv s'"
    using CreateEncoder_inv [of False env t s' r] assms(1) by (simp add: FallbackToSoftware_def t_def)
  show "\<not> FAILED r \<Longrightarrow> encoder_there s' \<and> \<not> asynchronous s'"
    using assms(1) by (auto simp: FallbackToSoftware_def CreateEncoder_def Let_def split: if_splits)
qed

lemma Encode_finish_inv:
  assumes "Encode_finish env sample t force (s, output, result) = (s', output', r)" "encoder_inv s" "truthful output"
  shows "encoder_inv s'" "truthful output'"
proof -
  obtain u q where u: "FallbackToSoftware (fallback_env env) s = (u, q)" by fastforce
  note inv = FallbackToSoftware_inv [OF u assms(2)]
  note submit = SubmitSynchronous_inv [of "second_result env" "second_drain env" sample t force "output" u s' output']
  show "encoder_inv s'"
    using assms u inv submit(1) by (auto simp: Encode_finish_def split: if_splits)
  show "truthful output'"
    using assms u inv submit(2) by (auto simp: Encode_finish_def split: if_splits)
qed

lemma Encode_begin_inv:
  assumes "Encode_begin env sample t force output s = (s', r)" "encoder_inv s" "truthful output"
  shows "encoder_inv s'" "r = Some (f, q) \<Longrightarrow> truthful f"
proof -
  obtain e x where e: "EnqueueInput sample t force s = (e, x)" by fastforce
  obtain u1 o1 q1 where u1: "Encode_finish env sample t force (s, cleared t, CreateInputSample (input_creation env)) = (u1, o1, q1)" by (rule prod_cases3)
  obtain u2 o2 q2 where u2: "Encode_finish env sample t force (e, cleared t, x) = (u2, o2, q2)" by (rule prod_cases3)
  obtain v w y where v: "SubmitSynchronous (input_result env) (drain_env env) sample t force (cleared t) s = (v, w, y)"
    by (rule prod_cases3)
  obtain u3 o3 q3 where u3: "Encode_finish env sample t force (v, w, y) = (u3, o3, q3)" by (rule prod_cases3)
  have one: "encoder_inv u1" "truthful o1" using Encode_finish_inv [OF u1] assms(2) by simp_all
  have two: "encoder_inv e" "encoder_inv u2" "truthful o2"
    using EnqueueInput_inv [OF e] Encode_finish_inv [OF u2] assms(2) by simp_all
  have three: "encoder_inv u3" "truthful o3" if "encoder_there s" "\<not> asynchronous s"
    using SubmitSynchronous_inv [OF v] Encode_finish_inv [OF u3] assms(2) that by simp_all
  show "encoder_inv s'"
    using assms e u1 u2 v u3 one two three(1) by (auto simp: Encode_begin_def split: if_splits)
  show "r = Some (f, q) \<Longrightarrow> truthful f"
    using assms e u1 u2 v u3 one two three(2) by (auto simp: Encode_begin_def split: if_splits)
qed

lemma Encode_end_inv:
  assumes "Encode_end env sample t force s = (s', f, r)" "encoder_inv s"
  shows "encoder_inv s'" "truthful f"
proof -
  obtain u o1 q where u: "TakeOutput (cleared t) s = (u, o1, q)" by (rule prod_cases3)
  show "encoder_inv s'" "truthful f"
    using TakeOutput_inv [OF u assms(2)] Encode_finish_inv [of env sample t force u o1 q s' f r] assms(1) u
    by (simp_all add: Encode_end_def)
qed

lemma pump_fails_inv: "encoder_inv s \<Longrightarrow> encoder_inv (pump_fails r s)"
  by (simp add: pump_fails_def SetAsyncError_def encoder_inv_def)

lemma push_ready_bound: "length (push_ready f fs) \<le> 4"
  by (simp add: push_ready_def)

lemma push_ready_truthful: "list_all truthful fs \<Longrightarrow> truthful f \<Longrightarrow> list_all truthful (push_ready f fs)"
  by (auto simp: push_ready_def list_all_iff dest: in_set_dropD)

lemma output_credit_spent:
  "TryConsumeOutputCredit (OnHaveOutput c) = (c', b) \<Longrightarrow> input_credits c' = input_credits c \<and> b"
  by (auto simp: TryConsumeOutputCredit_def OnHaveOutput_def)

lemma AsyncEventLoop_event_inv:
  assumes "encoder_inv s" "pump_running s"
  shows "encoder_inv (AsyncEventLoop_event e s)"
proof (cases e)
  case NeedInputEvent
  then show ?thesis
    using assms by (auto simp: AsyncEventLoop_event_def encoder_inv_def OnNeedInput_def)
next
  case (HaveOutputEvent env)
  obtain c b where c: "TryConsumeOutputCredit (OnHaveOutput (async_schedule s)) = (c, b)" by fastforce
  let ?s = "s\<lparr>async_schedule := c\<rparr>"
  obtain u f r where u: "DrainOutput env 0 no_output ?s = (u, f, r)" by (rule prod_cases3)
  have "encoder_inv ?s" using assms output_credit_spent [OF c] by (simp add: encoder_inv_def)
  then have inv: "encoder_inv u" "truthful f" using DrainOutput_inv [OF u] by simp_all
  then have "encoder_inv (u\<lparr>ready_outputs := push_ready f (ready_outputs u)\<rparr>)"
    using push_ready_bound [of f "ready_outputs u"] push_ready_truthful [of "ready_outputs u" f]
    by (simp add: encoder_inv_def)
  then show ?thesis
    using HaveOutputEvent c u output_credit_spent [OF c] inv pump_fails_inv
    by (simp add: AsyncEventLoop_event_def)
qed (use assms pump_fails_inv in \<open>simp_all add: AsyncEventLoop_event_def\<close>)

lemma AsyncEventLoop_iteration_inv:
  assumes "encoder_inv s"
  shows "encoder_inv (AsyncEventLoop_iteration inputResult e s)"
proof (cases "pump_running s \<and> \<not> async_stopping s \<and> pending_inputs s \<noteq> [] \<and> input_credits (async_schedule s) \<noteq> 0")
  case True
  then obtain input inputs n where s: "pending_inputs s = input # inputs" "input_credits (async_schedule s) = Suc n"
    by (metis list.exhaust not0_implies_Suc)
  define u where "u = (let t = s\<lparr>async_schedule := (async_schedule s)\<lparr>input_credits := n\<rparr>, pending_inputs := inputs\<rparr>
     in called (ProcessedInput (input_sample input)) (if input_force input then ForceKeyframe t else t))"
  have "encoder_inv u"
    using assms s True by (auto simp: u_def encoder_inv_def Let_def ForceKeyframe_def split: if_splits)
  moreover have "AsyncEventLoop_iteration inputResult e s = (if FAILED inputResult then pump_fails inputResult u else u)"
    using True s by (simp add: AsyncEventLoop_iteration_def TryConsumeInputCredit_def u_def Let_def)
  ultimately show ?thesis using pump_fails_inv by simp
next
  case False
  then have "AsyncEventLoop_iteration inputResult e s =
      (if \<not> pump_running s then s else if async_stopping s then s\<lparr>pump_running := False\<rparr> else AsyncEventLoop_event e s)"
    by (auto simp: AsyncEventLoop_iteration_def TryConsumeInputCredit_def split: list.split)
  moreover have "encoder_inv (s\<lparr>pump_running := False\<rparr>)" using assms by (simp add: encoder_inv_def)
  ultimately show ?thesis using assms AsyncEventLoop_event_inv by simp
qed

definition threads_inv :: "EncoderThreads \<Rightarrow> bool" where
  "threads_inv s \<longleftrightarrow> encoder_inv (enc s) \<and> list_all (\<lambda>(f, r). truthful f) (encoded s)"

lemma encoder_step_inv: "threads_inv s \<Longrightarrow> threads_inv (encoder_step e s)"
proof (cases e)
  case (EncodeEvent env sample t force)
  assume s: "threads_inv s"
  obtain u r where u: "Encode_begin env sample t force no_output (enc s) = (u, r)" by fastforce
  note inv = Encode_begin_inv [OF u]
  show ?thesis
    using EncodeEvent s u inv by (cases r) (auto simp: threads_inv_def)
next
  case (WaitOverEvent env)
  assume s: "threads_inv s"
  show ?thesis
  proof (cases "waiting_for s")
    case (Some w)
    obtain sample t force where w: "w = (sample, t, force)" by (rule prod_cases3)
    obtain u f r where u: "Encode_end env sample t force (enc s) = (u, f, r)" by (rule prod_cases3)
    show ?thesis using WaitOverEvent Some w u s Encode_end_inv [OF u] by (simp add: threads_inv_def)
  qed (use WaitOverEvent s in simp)
qed (use Initialize_inv AsyncEventLoop_iteration_inv Shutdown_inv in \<open>auto simp: threads_inv_def\<close>)

interpretation encoder: invariant_system newEncoderThreads encoder_step threads_inv
proof
  show "threads_inv newEncoderThreads" by (simp add: newEncoderThreads_def encoder_inv_new threads_inv_def)
qed (rule encoder_step_inv)

text \<open>
  C8. In every run of the host's encoder, whatever the transforms, the driver and the pump thread do,
  the transforms are used as their contract says: each is activated only after its predecessor was
  shut down and is shut down once, the software transform is never waited for, and the hardware
  transform is given no input it has not asked for: what it has asked for and not got is what the
  credit counter holds. No more than three inputs and four outputs are kept, and every frame given
  back is marked as carrying the codec configuration exactly when its bytes do.
\<close>

theorem encoder_keeps_contract:
  "let s = encoder_run es; e = enc s in
     mft_phase_of (mft_calls e) =
       (if \<not> encoder_there e then Absent
        else if asynchronous e then Hardware (input_credits (async_schedule e)) else Software) \<and>
     length (pending_inputs e) \<le> 3 \<and> length (ready_outputs e) \<le> 4 \<and>
     list_all (\<lambda>(f, r). frame_config f = ContainsAvcCodecConfig (frame_bytes_out f)) (encoded s)"
  using encoder.inv_run [of es]
  by (simp add: encoder_run_def threads_inv_def encoder_inv_def truthful_def Let_def)

section \<open>Requests for key frames\<close>



definition request_waits :: "MfH264Encoder \<Rightarrow> bool" where
  "request_waits s \<longleftrightarrow> encoder_there s \<and> list_ex input_force (pending_inputs s)"

text \<open>What a step does to a waiting request: it still waits, or a call of the given kind has been made.\<close>

definition keeps_request :: "mft_call set \<Rightarrow> MfH264Encoder \<Rightarrow> MfH264Encoder \<Rightarrow> bool" where
  "keeps_request X s t \<longleftrightarrow>
     (\<exists>cs. mft_calls t = mft_calls s @ cs \<and> (request_waits s \<longrightarrow> request_waits t \<or> set cs \<inter> X \<noteq> {}))"

lemma keeps_request_refl [simp]: "keeps_request X s s"
  by (simp add: keeps_request_def)









lemma pump_fails_keeps [simp]:
  "mft_calls (pump_fails r s) = mft_calls s" "pending_inputs (pump_fails r s) = pending_inputs s"
  "encoder_there (pump_fails r s) = encoder_there s"
  by (simp_all add: pump_fails_def SetAsyncError_def)











definition request_kept :: "nat \<Rightarrow> mft_call set \<Rightarrow> MfH264Encoder \<Rightarrow> bool" where
  "request_kept n X s \<longleftrightarrow> n \<le> length (mft_calls s) \<and> (request_waits s \<or> set (drop n (mft_calls s)) \<inter> X \<noteq> {})"


lemma request_kept_mono: "request_kept n X s \<Longrightarrow> X \<subseteq> Y \<Longrightarrow> request_kept n Y s"
  unfolding request_kept_def by blast






















end
