(* ===== verification/Pipe_Writer.thy ===== *)
theory Pipe_Writer
  imports Socket_Send "HOL-Library.Sublist"
begin

text \<open>
  The writing end of the host's named pipes, shared by \<open>host/graphics/pipe_sink.cpp\<close>, which carries
  encoded frames, and \<open>host/app/pointer_relay.cpp\<close>, which carries pointer messages: a pipe is opened
  on demand, written until everything is taken, and closed when a write fails. The interface
  \<open>framed_pipe\<close> states what both promise of one message, and shows what the connections carry.
\<close>

text \<open>The bytes written to each connection of the pipe, the current one last.\<close>

record PipeWriter =
  pipe_open :: bool
  pipe_streams :: "byte list list"

definition newPipe :: PipeWriter where
  "newPipe = \<lparr>pipe_open = False, pipe_streams = []\<rparr>"

definition ConnectPipe :: "bool \<Rightarrow> PipeWriter \<Rightarrow> PipeWriter \<times> bool" where
  "ConnectPipe opens s =
     (if pipe_open s then (s, True)
      else if opens then (\<lparr>pipe_open = True, pipe_streams = pipe_streams s @ [[]]\<rparr>, True)
      else (s, False))"

definition ClosePipe :: "PipeWriter \<Rightarrow> PipeWriter" where
  "ClosePipe s = s\<lparr>pipe_open := False\<rparr>"

definition append_last :: "byte list \<Rightarrow> byte list list \<Rightarrow> byte list list" where
  "append_last bs streams = butlast streams @ [last streams @ bs]"

definition WriteAll :: "int list \<Rightarrow> byte list \<Rightarrow> PipeWriter \<Rightarrow> PipeWriter \<times> bool" where
  "WriteAll script bs s =
     (case send_all bs script of
        (out, ok) \<Rightarrow>
          (let s = s\<lparr>pipe_streams := append_last out (pipe_streams s)\<rparr> in (if ok then s else ClosePipe s, ok)))"

section \<open>What a connection carries\<close>

text \<open>Whole messages, and a part of one at the end.\<close>

definition carries :: "('m \<Rightarrow> byte list) \<Rightarrow> ('m \<Rightarrow> bool) \<Rightarrow> byte list \<Rightarrow> 'm list \<Rightarrow> byte list \<Rightarrow> bool" where
  "carries whole valid stream ms rest \<longleftrightarrow>
     stream = concat (map whole ms) @ rest \<and> list_all valid ms \<and>
     (rest = [] \<or> (\<exists>m. valid m \<and> strict_prefix rest (whole m)))"

text \<open>Parts of messages are only on connections that are closed.\<close>

definition writer_inv :: "('m \<Rightarrow> byte list) \<Rightarrow> ('m \<Rightarrow> bool) \<Rightarrow> 'm list list \<Rightarrow> PipeWriter \<Rightarrow> bool" where
  "writer_inv whole valid mss s \<longleftrightarrow>
     list_all2 (\<lambda>stream ms. \<exists>rest. carries whole valid stream ms rest) (pipe_streams s) mss \<and>
     (pipe_open s \<longrightarrow> pipe_streams s \<noteq> [] \<and> carries whole valid (last (pipe_streams s)) (last mss) [])"

lemma writer_inv_new: "writer_inv whole valid [] newPipe"
  by (simp add: writer_inv_def newPipe_def)

lemma writer_inv_close [simp]: "writer_inv whole valid mss s \<Longrightarrow> writer_inv whole valid mss (ClosePipe s)"
  by (simp add: writer_inv_def ClosePipe_def)

lemma ConnectPipe_inv:
  assumes "ConnectPipe opens s = (s', ok)" "writer_inv whole valid mss s"
  shows "\<exists>mss'. writer_inv whole valid mss' s' \<and> concat mss' = concat mss" "ok = pipe_open s'"
proof -
  have "writer_inv whole valid (mss @ [[]]) \<lparr>pipe_open = True, pipe_streams = pipe_streams s @ [[]]\<rparr>"
    using assms(2) by (auto simp: writer_inv_def carries_def intro!: list_all2_appendI)
  then show "\<exists>mss'. writer_inv whole valid mss' s' \<and> concat mss' = concat mss"
    using assms by (auto simp: ConnectPipe_def split: if_splits intro: exI [of _ "mss @ [[]]"])
  show "ok = pipe_open s'" using assms(1) by (auto simp: ConnectPipe_def split: if_splits)
qed

lemma append_last_twice: "ss \<noteq> [] \<Longrightarrow> append_last b (append_last a ss) = append_last (a @ b) ss"
  by (simp add: append_last_def)

text \<open>One \<open>WriteAll\<close> puts a prefix of its bytes on the current connection, and closes it unless it is all.\<close>

lemma WriteAll_effect:
  assumes "WriteAll script bs s = (s', ok)"
  shows "\<exists>out. pipe_streams s' = append_last out (pipe_streams s) \<and> prefix out bs \<and> (ok \<longleftrightarrow> out = bs) \<and>
    (pipe_open s' \<longrightarrow> ok)"
proof -
  obtain out k where o: "send_all bs script = (out, k)" by fastforce
  obtain rest where "bs = out @ rest" "k \<longleftrightarrow> out = bs" using send_all_prefix [OF o] by blast
  moreover have "pipe_streams s' = append_last out (pipe_streams s)" "ok = k" "pipe_open s' \<longrightarrow> k"
    using assms o by (auto simp: WriteAll_def ClosePipe_def Let_def split: if_splits)
  ultimately show ?thesis by (intro exI [of _ out]) auto
qed

locale framed_pipe =
  fixes opens :: "'e \<Rightarrow> bool"
    and put :: "'e \<Rightarrow> 'm \<Rightarrow> PipeWriter \<Rightarrow> PipeWriter \<times> bool"
    and whole :: "'m \<Rightarrow> byte list" and valid :: "'m \<Rightarrow> bool"
  assumes put_invalid: "\<not> valid m \<Longrightarrow> put env m s = (s, False)"
    and put_unconnected: "valid m \<Longrightarrow> ConnectPipe (opens env) s = (t, False) \<Longrightarrow> put env m s = (t, False)"
    and put_connected: "valid m \<Longrightarrow> ConnectPipe (opens env) s = (t, True) \<Longrightarrow> pipe_streams t \<noteq> [] \<Longrightarrow> put env m s = (s', ok) \<Longrightarrow>
      \<exists>out. pipe_streams s' = append_last out (pipe_streams t) \<and> prefix out (whole m) \<and> (ok \<longleftrightarrow> out = whole m) \<and>
        (pipe_open s' \<longrightarrow> ok)"
begin

lemma put_inv:
  assumes "writer_inv whole valid mss s" "put env m s = (s', ok)"
  obtains mss' where "writer_inv whole valid mss' s'" "concat mss' = (if ok then concat mss @ [m] else concat mss)"
proof (cases "valid m")
  case False
  then show ?thesis using that assms put_invalid by simp
next
  case True
  obtain t k where t: "ConnectPipe (opens env) s = (t, k)" by fastforce
  obtain gss where g: "writer_inv whole valid gss t" "concat gss = concat mss" using ConnectPipe_inv(1) [OF t assms(1)] by blast
  show ?thesis
  proof (cases k)
    case False
    then show ?thesis using that g put_unconnected [OF True, of env s t] t assms(2) by simp
  next
    case k: True
    then have "pipe_open t" using ConnectPipe_inv(2) [OF t assms(1)] by simp
    then have ne: "pipe_streams t \<noteq> []" "carries whole valid (last (pipe_streams t)) (last gss) []"
      using g(1) by (simp_all add: writer_inv_def)
    have len: "length (pipe_streams t) = length gss" using g(1) by (auto simp: writer_inv_def dest: list_all2_lengthD)
    obtain ss b where ss: "pipe_streams t = ss @ [b]" using ne(1) by (cases "pipe_streams t" rule: rev_cases) auto
    obtain hss c where hss: "gss = hss @ [c]" using len ss by (cases gss rule: rev_cases) auto
    have all: "list_all2 (\<lambda>stream ms. \<exists>rest. carries whole valid stream ms rest) ss hss" and c: "carries whole valid b c []"
      using g(1) ne(2) len by (simp_all add: writer_inv_def ss hss list_all2_append)
    obtain out where out: "pipe_streams s' = ss @ [b @ out]" "prefix out (whole m)" "ok \<longleftrightarrow> out = whole m" "pipe_open s' \<longrightarrow> ok"
      using put_connected [OF True _ ne(1) assms(2)] t k ss by (auto simp: append_last_def)
    define d where "d = (if ok then c @ [m] else c)"
    have "\<exists>rest. carries whole valid (b @ out) d rest \<and> (ok \<longrightarrow> rest = [])"
      using c out(2,3) True by (auto simp: carries_def d_def strict_prefix_def)
    then have "writer_inv whole valid (hss @ [d]) s'"
      using all out(1,4) by (auto simp: writer_inv_def intro!: list_all2_appendI)
    moreover have "concat (hss @ [d]) = (if ok then concat mss @ [m] else concat mss)"
      using g(2) hss by (auto simp: d_def)
    ultimately show ?thesis by (rule that)
  qed
qed

end

end
