(* ===== verification/Display_Driver.thy ===== *)
theory Display_Driver
  imports Host_Encoder Pipe_Writer
begin

text \<open>
  The display driver, \<open>host/driver/Driver.cpp\<close>, and the sink \<open>host/graphics/pipe_sink.cpp\<close> through which
  its frames reach the host: the modes it offers, the device of a swap chain, and the class
  \<open>SwapChainProcessor\<close> with its acquire thread, which copies surfaces into a queue of two, and its
  encoder thread, which encodes the newest and writes it to the pipe. What IddCx, Direct3D and the
  kernel objects answer is an argument.
\<close>

section \<open>Modes\<close>

definition kWidth :: u32 where "kWidth = 1920"
definition kHeight :: u32 where "kHeight = 1200"
definition kFps :: u32 where "kFps = 60"

record SignalInfo =
  totalSize :: "u32 \<times> u32"
  activeSize :: "u32 \<times> u32"
  vSyncFreq :: "u32 \<times> u32"
  hSyncFreq :: "u32 \<times> u32"
  pixelRate :: u64
  videoStandard :: u32
  vSyncFreqDivider :: u32

definition FillSignalInfo :: "u32 \<Rightarrow> u32 \<Rightarrow> u32 \<Rightarrow> bool \<Rightarrow> SignalInfo" where
  "FillSignalInfo width height refresh monitorMode =
     \<lparr>totalSize = (width, height), activeSize = (width, height), vSyncFreq = (refresh, 1), hSyncFreq = (refresh * height, 1),
      pixelRate = ucast refresh * ucast width * ucast height, videoStandard = 255,
      vSyncFreqDivider = (if monitorMode then 0 else 1)\<rparr>"

definition MonitorMode :: SignalInfo where "MonitorMode = FillSignalInfo kWidth kHeight kFps True"

definition TargetMode :: SignalInfo where "TargetMode = FillSignalInfo kWidth kHeight kFps False"

text \<open>The mode callbacks: the count they report and the caller's buffer of the given modes afterwards.\<close>

definition HssGetDefaultModes :: "SignalInfo list \<Rightarrow> nat \<times> nat \<times> SignalInfo list" where
  "HssGetDefaultModes buffer = (1, 0, if length buffer \<ge> 1 then buffer[0 := MonitorMode] else buffer)"

definition HssQueryTargetModes :: "SignalInfo list \<Rightarrow> nat \<times> SignalInfo list" where
  "HssQueryTargetModes buffer = (1, if length buffer \<ge> 1 then buffer[0 := TargetMode] else buffer)"

section \<open>The pipe sink\<close>

record SinkEnv =
  pipe_opens :: bool
  header_writes :: "int list"
  body_writes :: "int list"

definition pipe_header :: "u32 \<Rightarrow> EncodedFrame \<Rightarrow> byte list" where
  "pipe_header frameNumber f =
     le_put32 kPipeMagic @ le_put32 (word_of_nat (length (frame_bytes_out f))) @ le_put32 frameNumber
       @ le_put32 ((if frame_key f then 1 else 0) OR (if frame_config f then 2 else 0)) @ le_put64 (frame_timestampUs f)"

definition SinkWrite :: "SinkEnv \<Rightarrow> u32 \<Rightarrow> EncodedFrame \<Rightarrow> PipeWriter \<Rightarrow> PipeWriter \<times> bool" where
  "SinkWrite env frameNumber f s =
     (if frame_bytes_out f = [] \<or> length (frame_bytes_out f) > 2 ^ 32 - 1 then (s, False)
      else
        (case ConnectPipe (pipe_opens env) s of
           (s, False) \<Rightarrow> (s, False)
         | (s, True) \<Rightarrow>
             (case WriteAll (header_writes env) (pipe_header frameNumber f) s of
                (s, False) \<Rightarrow> (s, False)
              | (s, True) \<Rightarrow> WriteAll (body_writes env) (frame_bytes_out f) s)))"

section \<open>The swap chain processor\<close>

record PendingFrame =
  frame_texture :: nat
  frame_time :: u64
  frame_number :: u32

datatype acquire_phase = AcquireStarting | Acquiring | AcquireEnded

datatype encoder_phase = EncoderStarting | EncoderReady | Encoding PendingFrame bool | EncoderEnded

text \<open>\<open>sink_written\<close> logs the frames for which the sink's \<open>Write\<close> has returned true, with their numbers.\<close>

record SwapChainProcessor =
  acquire_thread :: acquire_phase
  encoder_thread :: encoder_phase
  swap_chain_there :: bool
  keyframe_handle :: bool
  next_frame :: u32
  frame_queue :: "PendingFrame list"
  stopping :: bool
  processor_encoder :: MfH264Encoder
  processor_sink :: PipeWriter
  sink_written :: "(u32 \<times> EncodedFrame) list"

definition newProcessor :: SwapChainProcessor where
  "newProcessor = \<lparr>acquire_thread = AcquireStarting, encoder_thread = EncoderStarting, swap_chain_there = True,
     keyframe_handle = False, next_frame = 0, frame_queue = [], stopping = False, processor_encoder = newEncoder,
     processor_sink = newPipe, sink_written = []\<rparr>"

subsection \<open>The acquire thread\<close>

definition AcquireLoop_start :: "hresult \<Rightarrow> hresult \<Rightarrow> SwapChainProcessor \<Rightarrow> SwapChainProcessor" where
  "AcquireLoop_start deviceResult setDevice s =
     (if acquire_thread s \<noteq> AcquireStarting then s
      else if FAILED deviceResult \<or> FAILED setDevice then s\<lparr>acquire_thread := AcquireEnded\<rparr>
      else s\<lparr>acquire_thread := Acquiring\<rparr>)"

text \<open>The end of the loop deletes the swap chain.\<close>

definition AcquireLoop_end :: "SwapChainProcessor \<Rightarrow> SwapChainProcessor" where
  "AcquireLoop_end s = s\<lparr>acquire_thread := AcquireEnded, swap_chain_there := False\<rparr>"

record AcquireEnv =
  acquire_result :: hresult
  surface_is_texture :: bool
  surface_width :: u32
  surface_height :: u32
  copy_texture :: "nat option"
  copy_time :: u64
  finished_result :: hresult

definition CopyForEncoder :: "AcquireEnv \<Rightarrow> SwapChainProcessor \<Rightarrow> SwapChainProcessor \<times> PendingFrame option" where
  "CopyForEncoder env s =
     (if surface_width env \<noteq> kWidth \<or> surface_height env \<noteq> kHeight then (s, None)
      else (case copy_texture env of
              None \<Rightarrow> (s, None)
            | Some texture \<Rightarrow>
                (s\<lparr>next_frame := next_frame s + 1\<rparr>,
                 Some \<lparr>frame_texture = texture, frame_time = copy_time env, frame_number = next_frame s\<rparr>)))"

definition queue_frame :: "PendingFrame \<Rightarrow> PendingFrame list \<Rightarrow> PendingFrame list" where
  "queue_frame f fs = drop (length fs - 1) fs @ [f]"

definition AcquireLoop_iteration :: "AcquireEnv \<Rightarrow> SwapChainProcessor \<Rightarrow> SwapChainProcessor" where
  "AcquireLoop_iteration env s =
     (if acquire_thread s \<noteq> Acquiring then s
      else if stopping s then AcquireLoop_end s
      else if acquire_result env = E_PENDING then s
      else if FAILED (acquire_result env) then AcquireLoop_end s
      else
        (let s = (if surface_is_texture env
                  then (case CopyForEncoder env s of
                          (s, None) \<Rightarrow> s
                        | (s, Some f) \<Rightarrow> s\<lparr>frame_queue := queue_frame f (frame_queue s)\<rparr>)
                  else s)
         in if FAILED (finished_result env) then AcquireLoop_end s else s))"

subsection \<open>The encoder thread\<close>

definition EncoderLoop_start :: "bool \<Rightarrow> InitializeEnv \<Rightarrow> SwapChainProcessor \<Rightarrow> SwapChainProcessor" where
  "EncoderLoop_start apartment env s =
     (if encoder_thread s \<noteq> EncoderStarting then s
      else if \<not> apartment then s\<lparr>encoder_thread := EncoderEnded\<rparr>
      else
        (case Initialize env kWidth kHeight kFps (processor_encoder s) of
           (e, r) \<Rightarrow>
             (if FAILED r then s\<lparr>encoder_thread := EncoderEnded, processor_encoder := Shutdown e\<rparr>
              else s\<lparr>encoder_thread := EncoderReady, processor_encoder := e\<rparr>)))"

datatype event_wait = WaitSignaled | WaitTimeout | WaitFailed

text \<open>The request for a key frame: the handle, opened as soon as the host has made the event, and its wait.\<close>

definition take_keyframe_request :: "bool \<Rightarrow> event_wait \<Rightarrow> SwapChainProcessor \<Rightarrow> SwapChainProcessor \<times> bool" where
  "take_keyframe_request opens wait s =
     (let there = keyframe_handle s \<or> opens
      in (s\<lparr>keyframe_handle := there \<and> wait \<noteq> WaitFailed\<rparr>, there \<and> wait = WaitSignaled))"

definition EncoderLoop_finish ::
    "SinkEnv \<Rightarrow> PendingFrame \<Rightarrow> EncodedFrame \<times> hresult \<Rightarrow> SwapChainProcessor \<Rightarrow> SwapChainProcessor" where
  "EncoderLoop_finish env picture result s =
     (let s = s\<lparr>encoder_thread := EncoderReady\<rparr>
      in if snd result = S_OK \<and> frame_bytes_out (fst result) \<noteq> []
         then
           (case SinkWrite env (frame_number picture) (fst result) (processor_sink s) of
              (sink, taken) \<Rightarrow>
                s\<lparr>processor_sink := sink,
                  sink_written := (if taken then sink_written s @ [(frame_number picture, fst result)] else sink_written s)\<rparr>)
         else s)"

record EncodeTurn =
  event_opens :: bool
  event_result :: event_wait
  turn_env :: EncodeEnv
  turn_sink :: SinkEnv

definition EncoderLoop_take :: "EncodeTurn \<Rightarrow> SwapChainProcessor \<Rightarrow> SwapChainProcessor" where
  "EncoderLoop_take turn s =
     (if encoder_thread s \<noteq> EncoderReady then s
      else if frame_queue s = []
      then (if stopping s
            then s\<lparr>encoder_thread := EncoderEnded, processor_sink := ClosePipe (processor_sink s),
                   processor_encoder := Shutdown (processor_encoder s)\<rparr>
            else s)
      else
        (let picture = last (frame_queue s); s = s\<lparr>frame_queue := []\<rparr>
         in case take_keyframe_request (event_opens turn) (event_result turn) s of
              (s, force) \<Rightarrow>
                (case Encode_begin (turn_env turn) (frame_texture picture) (frame_time picture) force no_output (processor_encoder s) of
                   (e, None) \<Rightarrow> s\<lparr>processor_encoder := e, encoder_thread := Encoding picture force\<rparr>
                 | (e, Some result) \<Rightarrow> EncoderLoop_finish (turn_sink turn) picture result (s\<lparr>processor_encoder := e\<rparr>))))"

text \<open>The wait in \<open>Encode\<close> is over.\<close>

definition EncoderLoop_resume :: "EncodeTurn \<Rightarrow> SwapChainProcessor \<Rightarrow> SwapChainProcessor" where
  "EncoderLoop_resume turn s =
     (case encoder_thread s of
        Encoding picture force \<Rightarrow>
          (case Encode_end (turn_env turn) (frame_texture picture) (frame_time picture) force (processor_encoder s) of
             (e, result) \<Rightarrow> EncoderLoop_finish (turn_sink turn) picture result (s\<lparr>processor_encoder := e\<rparr>))
      | _ \<Rightarrow> s)"

subsection \<open>The processor and the monitor\<close>

datatype processor_event =
    AcquireStarts hresult hresult
  | AcquireIterates AcquireEnv
  | EncoderStarts bool InitializeEnv
  | EncoderTakes EncodeTurn
  | EncoderResumes EncodeTurn
  | EncoderPumps hresult mft_event
  | ProcessorStops

fun processor_step :: "processor_event \<Rightarrow> SwapChainProcessor \<Rightarrow> SwapChainProcessor" where
  "processor_step (AcquireStarts deviceResult setDevice) s = AcquireLoop_start deviceResult setDevice s"
| "processor_step (AcquireIterates env) s = AcquireLoop_iteration env s"
| "processor_step (EncoderStarts apartment env) s = EncoderLoop_start apartment env s"
| "processor_step (EncoderTakes turn) s = EncoderLoop_take turn s"
| "processor_step (EncoderResumes turn) s = EncoderLoop_resume turn s"
| "processor_step (EncoderPumps inputResult e) s =
     s\<lparr>processor_encoder := AsyncEventLoop_iteration inputResult e (processor_encoder s)\<rparr>"
| "processor_step ProcessorStops s = s\<lparr>stopping := True\<rparr>"

text \<open>The destructor returns when both threads have ended.\<close>

definition joined :: "SwapChainProcessor \<Rightarrow> bool" where
  "joined s \<longleftrightarrow> stopping s \<and> acquire_thread s = AcquireEnded \<and> encoder_thread s = EncoderEnded"

record D3dEnv =
  create_factory :: hresult
  find_adapter :: hresult
  create_device :: hresult

definition Direct3DDevice_Initialize :: "D3dEnv \<Rightarrow> hresult" where
  "Direct3DDevice_Initialize env = first_failure [create_factory env, find_adapter env, create_device env] S_OK"

text \<open>
  The monitor has at most one processor. The callbacks stop it, wait for its threads, and replace it
  once they have ended: until then they have no other effect.
\<close>

type_synonym MonitorContext = "SwapChainProcessor option"

definition reset_processor :: "MonitorContext \<Rightarrow> MonitorContext" where
  "reset_processor m = (case m of None \<Rightarrow> None | Some s \<Rightarrow> if joined s then None else Some (s\<lparr>stopping := True\<rparr>))"

definition AssignSwapChain :: "D3dEnv \<Rightarrow> MonitorContext \<Rightarrow> MonitorContext" where
  "AssignSwapChain env m =
     (case reset_processor m of
        Some s \<Rightarrow> Some s
      | None \<Rightarrow> if FAILED (Direct3DDevice_Initialize env) then None else Some newProcessor)"

definition UnassignSwapChain :: "MonitorContext \<Rightarrow> MonitorContext" where
  "UnassignSwapChain = reset_processor"

datatype monitor_event = AssignEvent D3dEnv | UnassignEvent | ProcessorEvent processor_event

fun monitor_step :: "monitor_event \<Rightarrow> MonitorContext \<Rightarrow> MonitorContext" where
  "monitor_step (AssignEvent env) m = AssignSwapChain env m"
| "monitor_step UnassignEvent m = UnassignSwapChain m"
| "monitor_step (ProcessorEvent e) m = map_option (processor_step e) m"

definition monitor_run :: "monitor_event list \<Rightarrow> MonitorContext" where
  "monitor_run es = fold monitor_step es None"

section \<open>What a pipe connection carries\<close>

definition writable :: "u32 \<times> EncodedFrame \<Rightarrow> bool" where
  "writable x \<longleftrightarrow> frame_bytes_out (snd x) \<noteq> [] \<and> length (frame_bytes_out (snd x)) \<le> 2 ^ 32 - 1"

definition frame_write :: "u32 \<times> EncodedFrame \<Rightarrow> byte list" where
  "frame_write x = pipe_header (fst x) (snd x) @ frame_bytes_out (snd x)"

lemma length_pipe_header [simp]: "length (pipe_header number f) = 24"
  by (simp add: pipe_header_def)

lemma frame_write_PipeSinkWrite: "writable x \<Longrightarrow> PipeSinkWrite (fst x) (snd x) = Some (frame_write x)"
  by (simp add: PipeSinkWrite_def writable_def frame_write_def pipe_header_def)

lemma pipe_header_decoded:
  assumes "writable x"
  shows "magic (DecodePipeHeader (pipe_header (fst x) (snd x) @ rest)) = kPipeMagic"
    "unat (payloadSize (DecodePipeHeader (pipe_header (fst x) (snd x) @ rest))) = length (frame_bytes_out (snd x))"
proof -
  note l = pipe_header_layout(1) [of "word_of_nat (length (frame_bytes_out (snd x)))" "fst x" _ "frame_timestampUs (snd x)" rest]
  have n: "unat (word_of_nat (length (frame_bytes_out (snd x))) :: u32) = length (frame_bytes_out (snd x))"
    using assms by (simp add: writable_def unat_of_nat)
  show "magic (DecodePipeHeader (pipe_header (fst x) (snd x) @ rest)) = kPipeMagic"
    "unat (payloadSize (DecodePipeHeader (pipe_header (fst x) (snd x) @ rest))) = length (frame_bytes_out (snd x))"
    using n by (simp_all add: pipe_header_def l)
qed

lemma PipeFrames_part:
  assumes "writable x" "strict_prefix rest (frame_write x)"
  shows "PipeFrames rest = []"
proof (cases "length rest < 24")
  case False
  obtain more where more: "frame_write x = rest @ more" "more \<noteq> []" using assms(2) by (auto elim: strict_prefixE')
  then have "take 24 (frame_write x) = take 24 rest" using False by simp
  then have "pipe_header (fst x) (snd x) = take 24 rest" by (simp add: frame_write_def)
  then have take: "rest = pipe_header (fst x) (snd x) @ drop 24 rest" by simp
  then have d: "unat (payloadSize (DecodePipeHeader rest)) = length (frame_bytes_out (snd x))"
    using pipe_header_decoded(2) [OF assms(1)] by metis
  have "length rest + length more = 24 + length (frame_bytes_out (snd x))"
    using more(1) by (metis frame_write_def length_append length_pipe_header)
  then have "length rest - 24 < length (frame_bytes_out (snd x))" using more(2) False by (cases more) auto
  then show ?thesis using False d by (subst PipeFrames.simps) (simp add: Let_def)
qed (subst PipeFrames.simps, simp)

lemma PipeFrames_carried:
  assumes "carries frame_write writable stream fs rest"
  shows "prefix (PipeFrames stream) (map (\<lambda>x. piped (fst x) (snd x)) fs)"
  using assms
proof (induction fs arbitrary: stream)
  case Nil
  then have "PipeFrames stream = []" using PipeFrames_part by (auto simp: carries_def intro: PipeFrames.simps [THEN trans])
  then show ?case by simp
next
  case (Cons x fs)
  define tail where "tail = concat (map frame_write fs) @ rest"
  have s: "stream = frame_write x @ tail" "writable x" and tail: "carries frame_write writable tail fs rest"
    using Cons.prems by (auto simp: carries_def tail_def)
  show ?case
  proof (cases "length (frame_bytes_out (snd x)) \<le> kMaxEncodedFrame")
    case True
    then have "PipeFrames stream = piped (fst x) (snd x) # PipeFrames tail"
      using PipeFrames_write [OF frame_write_PipeSinkWrite [OF s(2)]] s(1) by simp
    then show ?thesis using Cons.IH [OF tail] by simp
  next
    case False
    have "\<not> PipeHeaderAccepted (DecodePipeHeader stream)"
      using pipe_header_decoded(2) [OF s(2), of "frame_bytes_out (snd x) @ tail"] False s(1)
      by (simp add: PipeHeaderAccepted_def frame_write_def)
    then have "PipeFrames stream = []" by (subst PipeFrames.simps) (simp add: Let_def)
    then show ?thesis by simp
  qed
qed

text \<open>The sink keeps the promise of a framed pipe: the header and the bytes are one append.\<close>

lemma SinkWrite_effect:
  assumes "SinkWrite env number f s = (s', ok)" "ConnectPipe (pipe_opens env) s = (t, True)" "writable (number, f)"
    "pipe_streams t \<noteq> []"
  shows "\<exists>out. pipe_streams s' = append_last out (pipe_streams t) \<and> prefix out (frame_write (number, f)) \<and>
    (ok \<longleftrightarrow> out = frame_write (number, f)) \<and> (pipe_open s' \<longrightarrow> ok)"
proof -
  have w: "frame_bytes_out f \<noteq> []" "\<not> length (frame_bytes_out f) > 2 ^ 32 - 1" using assms(3) by (simp_all add: writable_def)
  obtain u k where u: "WriteAll (header_writes env) (pipe_header number f) t = (u, k)" by fastforce
  have sw: "(if k then WriteAll (body_writes env) (frame_bytes_out f) u else (u, False)) = (s', ok)"
    using assms(1,2) w u by (cases k) (simp_all add: SinkWrite_def)
  obtain o1 where o1: "pipe_streams u = append_last o1 (pipe_streams t)" "prefix o1 (pipe_header number f)"
      "k \<longleftrightarrow> o1 = pipe_header number f" "pipe_open u \<longrightarrow> k"
    using WriteAll_effect [OF u] by blast
  show ?thesis
  proof (cases k)
    case False
    have "o1 \<noteq> frame_write (number, f)" using o1(2) w(1) by (auto simp: frame_write_def prefix_def)
    then show ?thesis using False sw o1 by (auto simp: frame_write_def)
  next
    case True
    then obtain o2 where o2: "pipe_streams s' = append_last o2 (pipe_streams u)" "prefix o2 (frame_bytes_out f)"
        "ok \<longleftrightarrow> o2 = frame_bytes_out f" "pipe_open s' \<longrightarrow> ok"
      using WriteAll_effect [of "body_writes env" "frame_bytes_out f" u s' ok] sw by auto
    have "pipe_streams s' = append_last (pipe_header number f @ o2) (pipe_streams t)"
      using o1 o2 True append_last_twice [OF assms(4)] by simp
    then show ?thesis
      using o2 by (intro exI [of _ "pipe_header number f @ o2"]) (simp add: frame_write_def)
  qed
qed

interpretation sink: framed_pipe pipe_opens "\<lambda>env x. SinkWrite env (fst x) (snd x)" frame_write writable
proof
  show "SinkWrite env (fst m) (snd m) s = (s, False)" if "\<not> writable m" for env m s
    using that by (auto simp: SinkWrite_def writable_def)
  show "SinkWrite env (fst m) (snd m) s = (t, False)"
    if "writable m" "ConnectPipe (pipe_opens env) s = (t, False)" for env m s t
    using that by (auto simp: SinkWrite_def writable_def)
qed (use SinkWrite_effect [of _ "fst m" "snd m" for m] in auto)

section \<open>The invariant of a processor\<close>

definition frame_in_work :: "SwapChainProcessor \<Rightarrow> u32 list" where
  "frame_in_work s = (case encoder_thread s of Encoding f force \<Rightarrow> [frame_number f] | _ \<Rightarrow> [])"

lemma sorted_wrt_subseq: "subseq xs ys \<Longrightarrow> sorted_wrt P ys \<Longrightarrow> sorted_wrt P xs"
  by (induction rule: list_emb.induct) (auto dest: list_emb_set)

lemma subseq_drop: "subseq (drop k xs) xs"
  by (metis append_take_drop_id list_emb_append2 subseq_order.refl)

text \<open>The numbers written, in work, queued and next, in this order.\<close>

definition numbers_inv :: "SwapChainProcessor \<Rightarrow> bool" where
  "numbers_inv s \<longleftrightarrow>
     (\<exists>fss. writer_inv frame_write writable fss (processor_sink s) \<and> concat fss = sink_written s) \<and>
     sorted_wrt (<) (map fst (sink_written s) @ frame_in_work s @ map frame_number (frame_queue s) @ [next_frame s])"

definition processor_inv :: "nat \<Rightarrow> SwapChainProcessor \<Rightarrow> bool" where
  "processor_inv n s \<longleftrightarrow>
     numbers_inv s \<and> unat (next_frame s) \<le> n \<and> length (frame_queue s) \<le> 2 \<and> encoder_inv (processor_encoder s)"

lemma processor_inv_new: "processor_inv n newProcessor"
  by (auto simp: processor_inv_def numbers_inv_def newProcessor_def writer_inv_new frame_in_work_def encoder_inv_new intro!: exI [of _ "[]"])

lemma processor_inv_Suc: "processor_inv n s \<Longrightarrow> processor_inv (Suc n) s"
  by (simp add: processor_inv_def)

lemma processor_inv_mono: "processor_inv n s \<Longrightarrow> n \<le> k \<Longrightarrow> processor_inv k s"
  by (simp add: processor_inv_def)

text \<open>A state that keeps what the invariant is about, or drops a frame in work, keeps it.\<close>

lemma processor_inv_same:
  assumes "processor_inv n s" "processor_sink t = processor_sink s \<or> processor_sink t = ClosePipe (processor_sink s)"
    "sink_written t = sink_written s"
    "frame_in_work t = frame_in_work s \<or> frame_in_work t = []" "frame_queue t = frame_queue s"
    "next_frame t = next_frame s" "encoder_inv (processor_encoder t)"
  shows "processor_inv n t"
proof -
  obtain fss where f: "writer_inv frame_write writable fss (processor_sink s)" "concat fss = sink_written s"
      "sorted_wrt (<) (map fst (sink_written s) @ frame_in_work s @ map frame_number (frame_queue s) @ [next_frame s])"
    using assms(1) by (auto simp: processor_inv_def numbers_inv_def)
  have "writer_inv frame_write writable fss (processor_sink t)" using f(1) assms(2) writer_inv_close by metis
  moreover have "sorted_wrt (<) (map fst (sink_written s) @ frame_in_work t @ map frame_number (frame_queue s) @ [next_frame s])"
    by (rule sorted_wrt_subseq [OF _ f(3)]) (use assms(4) in \<open>auto intro!: list_emb_append_mono\<close>)
  ultimately have "numbers_inv t" unfolding numbers_inv_def using assms(3,5,6) f(2) by auto
  then show ?thesis using assms by (simp add: processor_inv_def)
qed

lemma queue_frame_props:
  "length (queue_frame f fs) \<le> 2" "\<exists>k. queue_frame f fs = drop k fs @ [f]"
  by (auto simp: queue_frame_def)

lemma next_number_greater:
  assumes "unat (v :: u32) \<le> n" "Suc n < 2 ^ 32"
  shows "v < v + 1" "unat (v + 1) \<le> Suc n"
  using assms by (auto simp: word_less_nat_alt unat_word_ariths)

lemma sorted_wrt_drop_middle:
  "sorted_wrt P (as @ map g fs @ cs) \<Longrightarrow> sorted_wrt P (as @ map g (drop k fs) @ cs)"
  by (erule sorted_wrt_subseq [rotated]) (intro list_emb_append_mono subseq_order.refl subseq_map subseq_drop)

lemma sorted_snoc_greater:
  fixes v :: "'a :: preorder"
  shows "sorted_wrt (<) (xs @ [v]) \<Longrightarrow> v < w \<Longrightarrow> sorted_wrt (<) ((xs @ [v]) @ [w])"
  by (auto simp: sorted_wrt_append intro: less_trans)

lemma CopyForEncoder_inv:
  assumes "processor_inv n s" "Suc n < 2 ^ 32" "CopyForEncoder env s = (t, Some f)"
  shows "processor_inv (Suc n) (t\<lparr>frame_queue := queue_frame f (frame_queue t)\<rparr>)"
proof -
  have t: "t = s\<lparr>next_frame := next_frame s + 1\<rparr>" "frame_number f = next_frame s"
    using assms(3) by (auto simp: CopyForEncoder_def split: if_splits option.splits)
  obtain k where k: "queue_frame f (frame_queue s) = drop k (frame_queue s) @ [f]" using queue_frame_props(2) by blast
  obtain fss where f: "writer_inv frame_write writable fss (processor_sink s)" "concat fss = sink_written s"
      "sorted_wrt (<) ((map fst (sink_written s) @ frame_in_work s) @ map frame_number (frame_queue s) @ [next_frame s])"
    using assms(1) by (auto simp: processor_inv_def numbers_inv_def)
  have nxt: "next_frame s < next_frame s + 1" "unat (next_frame s + 1) \<le> Suc n"
    using next_number_greater [of "next_frame s" n] assms(1,2) by (simp_all add: processor_inv_def)
  have "sorted_wrt (<) ((map fst (sink_written s) @ frame_in_work s @ map frame_number (drop k (frame_queue s))) @ [next_frame s])"
    using sorted_wrt_drop_middle [OF f(3), of k] by simp
  from sorted_snoc_greater [OF this nxt(1)]
  have "sorted_wrt (<) (map fst (sink_written s) @ frame_in_work s @ map frame_number (drop k (frame_queue s) @ [f]) @ [next_frame s + 1])"
    using t(2) by simp
  then have "numbers_inv (t\<lparr>frame_queue := queue_frame f (frame_queue t)\<rparr>)"
    using f(1,2) t(1) k by (auto simp: numbers_inv_def frame_in_work_def intro!: exI [of _ fss])
  then show ?thesis using assms(1) t nxt(2) queue_frame_props(1) by (simp add: processor_inv_def)
qed

lemma AcquireLoop_end_inv: "processor_inv n s \<Longrightarrow> processor_inv n (AcquireLoop_end s)"
  by (rule processor_inv_same [of n s]) (simp_all add: AcquireLoop_end_def frame_in_work_def processor_inv_def)

lemma AcquireLoop_iteration_inv:
  assumes "processor_inv n s" "Suc n < 2 ^ 32"
  shows "processor_inv (Suc n) (AcquireLoop_iteration env s)"
proof -
  define u where "u = (if surface_is_texture env
      then (case CopyForEncoder env s of (s, None) \<Rightarrow> s | (s, Some f) \<Rightarrow> s\<lparr>frame_queue := queue_frame f (frame_queue s)\<rparr>) else s)"
  have "processor_inv (Suc n) u"
  proof (cases "CopyForEncoder env s")
    case (Pair t r)
    show ?thesis
    proof (cases r)
      case None
      then have "t = s" using Pair by (auto simp: CopyForEncoder_def split: if_splits option.splits)
      then show ?thesis using Pair None assms(1) processor_inv_Suc by (simp add: u_def)
    next
      case (Some f)
      then show ?thesis using CopyForEncoder_inv [OF assms, of env t f] Pair assms(1) processor_inv_Suc by (simp add: u_def)
    qed
  qed
  then show ?thesis
    using assms(1) AcquireLoop_end_inv processor_inv_Suc by (auto simp: AcquireLoop_iteration_def Let_def simp flip: u_def)
qed

lemma EncoderLoop_start_inv:
  assumes "processor_inv n s"
  shows "processor_inv n (EncoderLoop_start apartment env s)"
proof -
  obtain e r where e: "Initialize env kWidth kHeight kFps (processor_encoder s) = (e, r)" by fastforce
  have i: "encoder_inv (processor_encoder s)" using assms by (simp add: processor_inv_def)
  then have "encoder_inv e" using Initialize_inv [of "processor_encoder s" env kWidth kHeight kFps] e by simp
  then show ?thesis
    using i Shutdown_inv(1) [of e] e
    by (intro processor_inv_same [OF assms]) (auto simp: EncoderLoop_start_def frame_in_work_def)
qed

lemma EncoderLoop_finish_inv:
  assumes "numbers_inv s" "unat (next_frame s) \<le> n" "length (frame_queue s) \<le> 2" "encoder_inv (processor_encoder s)"
    "encoder_thread s = Encoding f force"
  shows "processor_inv n (EncoderLoop_finish env f result s)"
proof -
  obtain fss where fss: "writer_inv frame_write writable fss (processor_sink s)" "concat fss = sink_written s"
      "sorted_wrt (<) (map fst (sink_written s) @ [frame_number f] @ map frame_number (frame_queue s) @ [next_frame s])"
    using assms(1,5) by (auto simp: numbers_inv_def frame_in_work_def)
  obtain u ok where u: "SinkWrite env (frame_number f) (fst result) (processor_sink s) = (u, ok)" by fastforce
  obtain gss where gss: "writer_inv frame_write writable gss u"
      "concat gss = (if ok then sink_written s @ [(frame_number f, fst result)] else sink_written s)"
    using sink.put_inv [OF fss(1), of env "(frame_number f, fst result)" u ok, unfolded fss(2) fst_conv snd_conv, OF u] by blast
  have less: "sorted_wrt (<) (map fst (sink_written s) @ map frame_number (frame_queue s) @ [next_frame s])"
    by (rule sorted_wrt_subseq [OF _ fss(3)]) (auto intro!: list_emb_append_mono)
  have "numbers_inv (EncoderLoop_finish env f result s)"
    using fss gss less u by (auto simp: EncoderLoop_finish_def numbers_inv_def frame_in_work_def Let_def)
  then show ?thesis
    using assms by (simp add: processor_inv_def EncoderLoop_finish_def Let_def split: prod.split)
qed

lemma EncoderLoop_take_inv:
  assumes "processor_inv n s"
  shows "processor_inv n (EncoderLoop_take turn s)"
proof (cases "encoder_thread s = EncoderReady \<and> frame_queue s \<noteq> []")
  case False
  have "encoder_inv (processor_encoder s)" using assms by (simp add: processor_inv_def)
  then show ?thesis
    using False Shutdown_inv(1)
    by (intro processor_inv_same [OF assms]) (auto simp: EncoderLoop_take_def frame_in_work_def)
next
  case True
  define f where "f = last (frame_queue s)"
  obtain k force where k: "take_keyframe_request (event_opens turn) (event_result turn) (s\<lparr>frame_queue := []\<rparr>) =
      (s\<lparr>frame_queue := [], keyframe_handle := k\<rparr>, force)"
    by (simp add: take_keyframe_request_def Let_def)
  obtain e r where e: "Encode_begin (turn_env turn) (frame_texture f) (frame_time f) force no_output (processor_encoder s) = (e, r)"
    by fastforce
  have enc: "encoder_inv e"
    using Encode_begin_inv(1) [OF e] assms by (simp add: processor_inv_def)
  obtain fss where fss: "writer_inv frame_write writable fss (processor_sink s)" "concat fss = sink_written s"
      "sorted_wrt (<) (map fst (sink_written s) @ map frame_number (frame_queue s) @ [next_frame s])"
    using assms True by (auto simp: processor_inv_def numbers_inv_def frame_in_work_def)
  have "subseq [frame_number f] (map frame_number (frame_queue s))"
    using True by (simp add: f_def subseq_singleton_left)
  then have "sorted_wrt (<) (map fst (sink_written s) @ [frame_number f] @ [next_frame s])"
    by (intro sorted_wrt_subseq [OF _ fss(3)] list_emb_append_mono) auto
  moreover define t where "t = s\<lparr>frame_queue := [], keyframe_handle := k, processor_encoder := e, encoder_thread := Encoding f force\<rparr>"
  ultimately have "numbers_inv t" using fss(1,2) by (auto simp: numbers_inv_def frame_in_work_def)
  then have t: "numbers_inv t" "unat (next_frame t) \<le> n" "length (frame_queue t) \<le> 2" "encoder_inv (processor_encoder t)"
      "encoder_thread t = Encoding f force"
    using assms enc by (simp_all add: t_def processor_inv_def)
  have "EncoderLoop_take turn s = (case r of None \<Rightarrow> t | Some result \<Rightarrow> EncoderLoop_finish (turn_sink turn) f result t)"
    using True k e
    by (simp add: EncoderLoop_take_def EncoderLoop_finish_def Let_def t_def flip: f_def split: option.split)
  then show ?thesis
    using t EncoderLoop_finish_inv [OF t] by (simp add: processor_inv_def split: option.split)
qed

lemma EncoderLoop_resume_inv:
  assumes "processor_inv n s"
  shows "processor_inv n (EncoderLoop_resume turn s)"
proof (cases "encoder_thread s")
  case (Encoding f force)
  obtain e o1 r where e: "Encode_end (turn_env turn) (frame_texture f) (frame_time f) force (processor_encoder s) = (e, o1, r)"
    by (rule prod_cases3)
  have "encoder_inv e" using Encode_end_inv(1) [OF e] assms by (simp add: processor_inv_def)
  then have t: "processor_inv n (s\<lparr>processor_encoder := e\<rparr>)"
    by (intro processor_inv_same [OF assms]) (simp_all add: frame_in_work_def)
  then show ?thesis
    using EncoderLoop_finish_inv [of "s\<lparr>processor_encoder := e\<rparr>" n f force] Encoding e
    by (simp add: EncoderLoop_resume_def processor_inv_def)
qed (use assms in \<open>simp_all add: EncoderLoop_resume_def\<close>)

lemma processor_step_inv:
  assumes "processor_inv n s" "Suc n < 2 ^ 32"
  shows "processor_inv (Suc n) (processor_step e s)"
proof (cases e)
  case (AcquireStarts deviceResult setDevice)
  have "processor_inv n (processor_step e s)"
    using assms(1) unfolding AcquireStarts
    by (intro processor_inv_same [OF assms(1)]) (auto simp: AcquireLoop_start_def frame_in_work_def processor_inv_def)
  then show ?thesis by (rule processor_inv_Suc)
next
  case (EncoderPumps inputResult ev)
  have "processor_inv n (processor_step e s)"
    using assms(1) AsyncEventLoop_iteration_inv unfolding EncoderPumps
    by (intro processor_inv_same [OF assms(1)]) (auto simp: frame_in_work_def processor_inv_def)
  then show ?thesis by (rule processor_inv_Suc)
next
  case ProcessorStops
  have "processor_inv n (processor_step e s)"
    using assms(1) unfolding ProcessorStops
    by (intro processor_inv_same [OF assms(1)]) (auto simp: frame_in_work_def processor_inv_def)
  then show ?thesis by (rule processor_inv_Suc)
qed (use assms AcquireLoop_iteration_inv EncoderLoop_start_inv EncoderLoop_take_inv EncoderLoop_resume_inv
    processor_inv_Suc in auto)

section \<open>Runs of the driver\<close>

definition monitor_inv :: "nat \<Rightarrow> MonitorContext \<Rightarrow> bool" where
  "monitor_inv n m \<longleftrightarrow> (case m of None \<Rightarrow> True | Some s \<Rightarrow> processor_inv n s)"

lemma monitor_step_inv: "monitor_inv n m \<Longrightarrow> Suc n < 2 ^ 32 \<Longrightarrow> monitor_inv (Suc n) (monitor_step e m)"
proof -
  assume m: "monitor_inv n m" and n: "Suc n < 2 ^ 32"
  have "processor_inv (Suc n) (s\<lparr>stopping := True\<rparr>)" if "m = Some s" for s
    using processor_step_inv [of n s ProcessorStops] m n that by (simp add: monitor_inv_def)
  then have r: "monitor_inv (Suc n) (reset_processor m)"
    by (auto simp: monitor_inv_def reset_processor_def split: option.split)
  show ?thesis
  proof (cases e)
    case (AssignEvent env)
    then show ?thesis using r processor_inv_new by (auto simp: AssignSwapChain_def monitor_inv_def split: option.split)
  next
    case UnassignEvent
    then show ?thesis using r by (simp add: UnassignSwapChain_def)
  next
    case (ProcessorEvent pe)
    then show ?thesis using m n processor_step_inv by (cases m) (simp_all add: monitor_inv_def)
  qed
qed

lemma monitor_run_inv: "length es < 2 ^ 32 \<Longrightarrow> monitor_inv (length es) (monitor_run es)"
proof (induction es rule: rev_induct)
  case (snoc e es)
  then show ?case using monitor_step_inv [of "length es" "monitor_run es" e] by (simp add: monitor_run_def)
qed (simp add: monitor_run_def monitor_inv_def)

text \<open>The processors of a run, in their order: those that were replaced, as they were then, and the present one.\<close>

definition replaced :: "monitor_event \<Rightarrow> MonitorContext \<Rightarrow> SwapChainProcessor list" where
  "replaced e m =
     (case e of
        ProcessorEvent _ \<Rightarrow> []
      | _ \<Rightarrow> (case m of None \<Rightarrow> [] | Some s \<Rightarrow> if joined s then [s] else []))"

primrec processors_from :: "monitor_event list \<Rightarrow> MonitorContext \<Rightarrow> SwapChainProcessor list" where
  "processors_from [] m = (case m of None \<Rightarrow> [] | Some s \<Rightarrow> [s])"
| "processors_from (e # es) m = replaced e m @ processors_from es (monitor_step e m)"

definition processors :: "monitor_event list \<Rightarrow> SwapChainProcessor list" where
  "processors es = processors_from es None"

lemma processors_from_inv:
  assumes "monitor_inv n m" "n + length es < 2 ^ 32" "s \<in> set (processors_from es m)"
  shows "processor_inv (n + length es) s"
  using assms
proof (induction es arbitrary: n m)
  case (Cons e es)
  have m: "processor_inv (n + length (e # es)) t" if "m = Some t" for t
    using Cons.prems(1) that processor_inv_mono [of n t] by (simp add: monitor_inv_def)
  show ?case
  proof (cases "s \<in> set (replaced e m)")
    case True
    then have "m = Some s" by (auto simp: replaced_def split: monitor_event.splits option.splits if_splits)
    then show ?thesis by (rule m)
  next
    case False
    then have "s \<in> set (processors_from es (monitor_step e m))" using Cons.prems(3) by simp
    then show ?thesis
      using Cons.IH [of "Suc n" "monitor_step e m"] monitor_step_inv [OF Cons.prems(1), of e] Cons.prems(2) by simp
  qed
qed (auto simp: monitor_inv_def split: option.splits)

lemma processors_inv: "length es < 2 ^ 32 \<Longrightarrow> s \<in> set (processors es) \<Longrightarrow> processor_inv (length es) s"
  using processors_from_inv [of 0 None es s] by (simp add: processors_def monitor_inv_def)

text \<open>What the connections carry is read as frames that were written, or a beginning of them where one is too long.\<close>

lemma piped_written:
  assumes "list_all2 (\<lambda>stream fs. \<exists>rest. carries frame_write writable stream fs rest) streams fss"
  shows "subseq (concat (map PipeFrames streams)) (map (\<lambda>(number, f). piped number f) (concat fss))"
  using assms
proof (induction streams fss rule: list_all2_induct)
  case (Cons stream streams fs fss)
  then obtain rest where "prefix (PipeFrames stream) (map (\<lambda>x. piped (fst x) (snd x)) fs)" using PipeFrames_carried by blast
  then have "subseq (PipeFrames stream) (map (\<lambda>(number, f). piped number f) fs)"
    by (simp add: case_prod_unfold prefix_imp_subseq)
  from list_emb_append_mono [OF this Cons.IH] show ?case by simp
qed simp

lemma PipeFrames_carried_all:
  assumes "carries frame_write writable stream fs rest" "\<forall>x\<in>set fs. length (frame_bytes_out (snd x)) \<le> kMaxEncodedFrame"
  shows "PipeFrames stream = map (\<lambda>(number, f). piped number f) fs"
  using assms
proof (induction fs arbitrary: stream)
  case Nil
  then show ?case using PipeFrames_part by (auto simp: carries_def intro: PipeFrames.simps [THEN trans])
next
  case (Cons x fs)
  define tail where "tail = concat (map frame_write fs) @ rest"
  have s: "stream = frame_write x @ tail" "writable x" and tail: "carries frame_write writable tail fs rest"
    using Cons.prems(1) by (auto simp: carries_def tail_def)
  have "PipeFrames stream = piped (fst x) (snd x) # PipeFrames tail"
    using PipeFrames_write [OF frame_write_PipeSinkWrite [OF s(2)]] s(1) Cons.prems(2) by simp
  then show ?case using Cons.IH [OF tail] Cons.prems(2) by (simp add: case_prod_unfold)
qed

lemma piped_written_all:
  assumes "list_all2 (\<lambda>stream fs. \<exists>rest. carries frame_write writable stream fs rest) streams fss"
    "\<forall>x\<in>set (concat fss). length (frame_bytes_out (snd x)) \<le> kMaxEncodedFrame"
  shows "concat (map PipeFrames streams) = map (\<lambda>(number, f). piped number f) (concat fss)"
  using assms
proof (induction streams fss rule: list_all2_induct)
  case (Cons stream streams fs fss)
  then show ?case using PipeFrames_carried_all [of stream fs] by auto
qed simp

lemma processor_written:
  assumes "processor_inv n s"
  shows "subseq (concat (map PipeFrames (pipe_streams (processor_sink s)))) (map (\<lambda>(number, f). piped number f) (sink_written s))"
    "\<forall>x\<in>set (sink_written s). length (frame_bytes_out (snd x)) \<le> kMaxEncodedFrame \<Longrightarrow>
       concat (map PipeFrames (pipe_streams (processor_sink s))) = map (\<lambda>(number, f). piped number f) (sink_written s)"
    "sorted_wrt (<) (map fst (sink_written s))"
proof -
  obtain fss where fss: "writer_inv frame_write writable fss (processor_sink s)" "concat fss = sink_written s"
      "sorted_wrt (<) (map fst (sink_written s) @ frame_in_work s @ map frame_number (frame_queue s) @ [next_frame s])"
    using assms by (auto simp: processor_inv_def numbers_inv_def)
  show "subseq (concat (map PipeFrames (pipe_streams (processor_sink s)))) (map (\<lambda>(number, f). piped number f) (sink_written s))"
    using piped_written [of "pipe_streams (processor_sink s)" fss] fss(1,2) by (simp add: writer_inv_def)
  show "\<forall>x\<in>set (sink_written s). length (frame_bytes_out (snd x)) \<le> kMaxEncodedFrame \<Longrightarrow>
      concat (map PipeFrames (pipe_streams (processor_sink s))) = map (\<lambda>(number, f). piped number f) (sink_written s)"
    using piped_written_all [of "pipe_streams (processor_sink s)" fss] fss(1,2) by (simp add: writer_inv_def)
  show "sorted_wrt (<) (map fst (sink_written s))" using fss(3) by (simp add: sorted_wrt_append)
qed

text \<open>An example: two surfaces with a software encoder that delivers a unit for each.\<close>

definition mediaOk :: MediaTypeEnv where
  "mediaOk = \<lparr>set_major_type = S_OK, set_subtype = S_OK, set_frame_size = S_OK, set_frame_rate = S_OK,
     set_aspect_ratio = S_OK, set_interlace_mode = S_OK\<rparr>"

definition configureOk :: ConfigureEnv where
  "configureOk = \<lparr>create_output_type = S_OK, output_type_env = mediaOk, set_bitrate = S_OK, set_profile = S_OK,
     set_output_type = S_OK, create_input_type = S_OK, input_type_env = mediaOk, set_input_type = S_OK,
     begin_streaming = S_OK, start_of_stream = S_OK\<rparr>"

definition createOk :: "nat \<Rightarrow> CreateEnv" where
  "createOk n = \<lparr>enumeration = S_OK, activations = n, activation = S_OK, event_generator = S_OK, configuration = configureOk,
     pump_thread = True\<rparr>"

definition initializeSoftware :: InitializeEnv where
  "initializeSoftware = \<lparr>device_there = True, query_video_device = S_OK, query_video_context = S_OK, create_enumerator = S_OK,
     create_processor = S_OK, mf_startup = S_OK, create_device_manager = S_OK, reset_device = S_OK,
     hardware_env = createOk 0, software_env = createOk 1\<rparr>"

definition surface :: "nat \<Rightarrow> AcquireEnv" where
  "surface n = \<lparr>acquire_result = S_OK, surface_is_texture = True, surface_width = 1920, surface_height = 1200,
     copy_texture = Some n, copy_time = 7, finished_result = S_OK\<rparr>"

definition outputUnit :: "byte list \<Rightarrow> OutputEnv" where
  "outputUnit bs = \<lparr>stream_info = S_OK, allocation = S_OK, process_output = S_OK, sample_delivered = True,
     sample_bytes = (S_OK, bs), clean_point = True, sequence_header = None, sample_time = None\<rparr>"

definition sampleOk :: SampleEnv where
  "sampleOk = \<lparr>create_surface_buffer = S_OK, create_sample = S_OK, add_buffer = S_OK, set_sample_time = S_OK,
     set_sample_duration = S_OK\<rparr>"

definition encodeTurn :: EncodeTurn where
  "encodeTurn = \<lparr>event_opens = False, event_result = WaitTimeout,
     turn_env = \<lparr>conversion = \<lparr>source_width = 1920, source_height = 1200, create_input_view = S_OK, create_texture = S_OK,
         create_output_view = S_OK, video_blt = S_OK\<rparr>,
       input_creation = sampleOk, input_result = S_OK, drain_env = outputUnit [0, 0, 0, 1, 101],
       fallback_env = createOk 1, second_creation = sampleOk, second_result = S_OK, second_drain = outputUnit []\<rparr>,
     turn_sink = \<lparr>pipe_opens = True, header_writes = [24], body_writes = [5]\<rparr>\<rparr>"

definition exampleDriverRun :: "monitor_event list" where
  "exampleDriverRun =
     [AssignEvent \<lparr>create_factory = S_OK, find_adapter = S_OK, create_device = S_OK\<rparr>,
      ProcessorEvent (AcquireStarts S_OK S_OK), ProcessorEvent (EncoderStarts True initializeSoftware),
      ProcessorEvent (AcquireIterates (surface 1)), ProcessorEvent (EncoderTakes encodeTurn),
      ProcessorEvent (AcquireIterates (surface 2)), ProcessorEvent (AcquireIterates (surface 3)),
      ProcessorEvent (EncoderTakes encodeTurn)]"

lemmas driver_example =
  exampleDriverRun_def monitor_run_def surface_def encodeTurn_def outputUnit_def sampleOk_def initializeSoftware_def
  createOk_def configureOk_def mediaOk_def AssignSwapChain_def reset_processor_def Direct3DDevice_Initialize_def
  newProcessor_def newEncoder_def newSchedule_def AcquireLoop_start_def AcquireLoop_iteration_def CopyForEncoder_def
  queue_frame_def EncoderLoop_start_def EncoderLoop_take_def EncoderLoop_finish_def take_keyframe_request_def
  Initialize_def Shutdown_def ReleaseEncoder_def StopAsyncPump_def BeginShutdown_def CreateEncoder_def
  video_setup_def device_manager_def CreateVideoProcessor_def ConfigureEncoder_def SetMediaTypeCommon_def
  ConvertToNv12_def CreateInputSample_def Encode_begin_def Encode_finish_def SubmitSynchronous_def DrainOutput_def
  RefreshCodecConfig_def cleared_def no_output_def SinkWrite_def ConnectPipe_def newPipe_def WriteAll_def append_last_def
  kWidth_def kHeight_def kFps_def FAILED_def called_def NormalizeAccessUnit_def HasAnnexBStartCode_def Let_def

definition exampleUnit :: EncodedFrame where
  "exampleUnit = \<lparr>frame_bytes_out = [0, 0, 0, 1, 101], frame_timestampUs = 7, frame_key = True,
     frame_config = ContainsAvcCodecConfig [0, 0, 0, 1, 101]\<rparr>"

lemma exampleDriverRun_streams:
  "map_option (\<lambda>s. (pipe_streams (processor_sink s), sink_written s)) (monitor_run exampleDriverRun) =
     Some ([concat (map frame_write [(0, exampleUnit), (2, exampleUnit)])], [(0, exampleUnit), (2, exampleUnit)])"
  by (simp add: driver_example send_all_once frame_write_def exampleUnit_def)

lemma present_processor: "fold monitor_step es m = Some s \<Longrightarrow> s \<in> set (processors_from es m)"
  by (induction es arbitrary: m) simp_all

section \<open>The destructor\<close>

text \<open>
  The destructor of a swap chain's processor returns. Once it has set the flag, whatever state
  the two threads are in and whatever their calls return, one more turn of each of their loops ends
  them, at most two for the encoder thread because a surface may still be queued; the calls they are
  in return, because the wait for the encoder has a timeout.
\<close>

theorem processor_stops:
  assumes "stopping s"
  shows "joined (fold processor_step
      [AcquireStarts deviceResult setDevice, AcquireIterates env, EncoderStarts apartment initializeEnv,
       EncoderResumes t1, EncoderTakes t2, EncoderResumes t3, EncoderTakes t4] s)"
proof -
  define u where "u = AcquireLoop_iteration env (AcquireLoop_start deviceResult setDevice s)"
  have u: "stopping u" "acquire_thread u = AcquireEnded"
    using assms by (auto simp: u_def AcquireLoop_iteration_def AcquireLoop_start_def AcquireLoop_end_def intro: acquire_phase.exhaust)
  define v where "v = EncoderLoop_resume t1 (EncoderLoop_start apartment initializeEnv u)"
  have v: "stopping v" "acquire_thread v = AcquireEnded" "encoder_thread v = EncoderReady \<or> encoder_thread v = EncoderEnded"
    using u by (auto simp: v_def EncoderLoop_resume_def EncoderLoop_start_def EncoderLoop_finish_def Let_def
        split: encoder_phase.split prod.split)
  define w where "w = EncoderLoop_resume t3 (EncoderLoop_take t2 v)"
  have w: "stopping w" "acquire_thread w = AcquireEnded"
      "encoder_thread w = EncoderReady \<and> frame_queue w = [] \<or> encoder_thread w = EncoderEnded"
    using v by (auto simp: w_def EncoderLoop_resume_def EncoderLoop_take_def EncoderLoop_finish_def take_keyframe_request_def Let_def
        split: encoder_phase.splits prod.splits option.splits)
  have "joined (EncoderLoop_take t4 w)"
    using w by (auto simp: joined_def EncoderLoop_take_def)
  then show ?thesis by (simp add: w_def v_def u_def)
qed

theorem processor_stops_witness:
  "joined (fold processor_step
      [AcquireStarts S_OK S_OK, AcquireIterates (surface 1), EncoderStarts True initializeSoftware,
       EncoderResumes encodeTurn, EncoderTakes encodeTurn, EncoderResumes encodeTurn, EncoderTakes encodeTurn]
      (newProcessor\<lparr>stopping := True\<rparr>))"
  by (rule processor_stops) simp

section \<open>What gets lost\<close>

text \<open>An acquire thread that cannot set its device ends without deleting the swap chain.\<close>

lemma swap_chain_leaks:
  assumes "acquire_thread s = AcquireStarting" "swap_chain_there s" "FAILED setDevice"
  shows "swap_chain_there (processor_step (AcquireStarts deviceResult setDevice) s)"
    "acquire_thread (processor_step (AcquireStarts deviceResult setDevice) s) = AcquireEnded"
  using assms by (simp_all add: AcquireLoop_start_def)

text \<open>A request for a key frame that is taken for a surface that cannot be converted is gone.\<close>

lemma failed_conversion_loses_request:
  assumes "encoder_thread s = EncoderReady" "frame_queue s \<noteq> []" "encoder_there (processor_encoder s)"
    "keyframe_handle s" "event_result turn = WaitSignaled"
    "FAILED (ConvertToNv12 (conversion (turn_env turn)) (processor_encoder s))"
  shows "EncoderLoop_take turn s = s\<lparr>frame_queue := []\<rparr>"
  using assms
  by (cases s) (auto simp: EncoderLoop_take_def EncoderLoop_finish_def take_keyframe_request_def Encode_begin_def FAILED_def Let_def)

end
