(* ===== verification/Pipe_Server.thy ===== *)
theory Pipe_Server
  imports Display_Driver State_Machine "HOL-Library.Signed_Division"
begin

text \<open>
  The reading end of the host's named pipes in \<open>host/app/host_server.cpp\<close>: \<open>ReadExactly\<close>, \<open>PipeLoop\<close>
  with the frames of the display driver, \<open>StatusLoop\<close> with its one message per client, and the clock
  they share. A script holds what the calls of one turn of a loop return. The lemmas show that the
  reader's frames do not depend on the pieces in which the pipe delivers them.
\<close>

section \<open>ReadExactly\<close>

text \<open>
  One turn of the loop: the stop event, the count of \<open>PeekNamedPipe\<close> (\<open>None\<close> when it fails), and the
  number of bytes that \<open>ReadFile\<close> may deliver (\<open>None\<close> when it fails).
\<close>

record PipeTurn =
  stop_set :: bool
  peeked :: "nat option"
  delivered :: "nat option"

definition ReadTurn :: "PipeTurn \<Rightarrow> byte list \<Rightarrow> nat \<Rightarrow> byte list \<Rightarrow> (byte list \<times> byte list) option" where
  "ReadTurn t stream bytes out =
     (if stop_set t then None
      else
        (case peeked t of
           None \<Rightarrow> None
         | Some available \<Rightarrow>
             (if available = 0 then Some (stream, out)
              else
                (let wanted = min (bytes - length out) available
                 in (case delivered t of
                       None \<Rightarrow> None
                     | Some k \<Rightarrow>
                         (let chunk = take (min k wanted) stream
                          in if chunk = [] then None else Some (drop (length chunk) stream, out @ chunk)))))))"

text \<open>
  The call takes the turns, the bytes the writer has put or will put on the connection, the number
  of bytes wanted and those read so far. It returns what is left of turns and bytes, the bytes
  read, and the result; there is none when the turns end while the call still waits.
\<close>

primrec ReadExactly ::
    "PipeTurn list \<Rightarrow> byte list \<Rightarrow> nat \<Rightarrow> byte list \<Rightarrow> PipeTurn list \<times> byte list \<times> byte list \<times> bool option" where
  "ReadExactly [] stream bytes out = ([], stream, out, if length out < bytes then None else Some True)"
| "ReadExactly (t # ts) stream bytes out =
     (if \<not> length out < bytes then (t # ts, stream, out, Some True)
      else (case ReadTurn t stream bytes out of
              None \<Rightarrow> (ts, stream, out, Some False)
            | Some (stream, out) \<Rightarrow> ReadExactly ts stream bytes out))"

lemma ReadTurn_step:
  assumes "ReadTurn t stream n out = Some (stream', out')" "length out \<le> n"
  shows "out @ stream = out' @ stream'" "length out' \<le> n"
proof -
  have "take k stream @ drop (length (take k stream)) stream = stream" for k
    by (cases "k \<le> length stream") (simp_all add: min_def)
  then show "out @ stream = out' @ stream'" "length out' \<le> n"
    using assms by (auto simp: ReadTurn_def Let_def split: option.splits if_splits)
qed

lemma ReadExactly_turns: "ReadExactly ts stream n out = (ts', stream', out', r) \<Longrightarrow> length ts' \<le> length ts"
proof (induction ts arbitrary: stream out)
  case (Cons t ts)
  then show ?case
    by (cases "ReadTurn t stream n out") (fastforce split: if_splits)+
qed simp

text \<open>Whatever it returns, it has moved a prefix of the bytes, and no more than wanted.\<close>

lemma ReadExactly_moves:
  assumes "ReadExactly ts stream n out = (ts', stream', out', r)" "length out \<le> n"
  shows "out @ stream = out' @ stream' \<and> length out' \<le> n \<and> (r = Some True \<longleftrightarrow> length out' = n)"
  using assms
proof (induction ts arbitrary: stream out)
  case (Cons t ts)
  show ?case
  proof (cases "length out < n")
    case True
    show ?thesis
    proof (cases "ReadTurn t stream n out")
      case (Some x)
      obtain s1 o1 where m: "ReadTurn t stream n out = Some (s1, o1)" using Some by (cases x) auto
      have "ReadExactly ts s1 n o1 = (ts', stream', out', r)" using Cons.prems True m by simp
      from Cons.IH [OF this ReadTurn_step(2) [OF m Cons.prems(2)]] ReadTurn_step(1) [OF m Cons.prems(2)]
      show ?thesis by simp
    qed (use Cons.prems True in auto)
  qed (use Cons.prems in auto)
qed (auto split: if_splits)

lemma ReadExactly_done:
  assumes "ReadExactly ts stream n [] = (ts', stream', out, Some True)"
  shows "out = take n stream" "stream' = drop n stream" "n \<le> length stream"
  using ReadExactly_moves [OF assms] by auto

section \<open>One connection\<close>

text \<open>
  One turn of the inner loop of \<open>PipeLoop\<close>, up to the call of \<open>SendVideoFrame\<close>. The stop event at its
  head is that of a turn which is asked for nothing else.
\<close>

datatype frame_read =
    StillWaiting
  | LoopEnds
  | FrameRead PipeFrameHeader "byte list" "PipeTurn list" "byte list"

fun ReadFrame :: "PipeTurn list \<Rightarrow> byte list \<Rightarrow> frame_read" where
  "ReadFrame [] stream = StillWaiting"
| "ReadFrame (t # ts) stream =
     (if stop_set t then LoopEnds
      else
        (case ReadExactly ts stream 24 [] of
           (_, _, _, None) \<Rightarrow> StillWaiting
         | (_, _, _, Some False) \<Rightarrow> LoopEnds
         | (ts, stream, head_bytes, Some True) \<Rightarrow>
             (let header = DecodePipeHeader head_bytes
              in if \<not> PipeHeaderAccepted header then LoopEnds
                 else
                   (case ReadExactly ts stream (unat (payloadSize header)) [] of
                      (_, _, _, None) \<Rightarrow> StillWaiting
                    | (_, _, _, Some False) \<Rightarrow> LoopEnds
                    | (ts, stream, bs, Some True) \<Rightarrow> FrameRead header bs ts stream))))"

lemma ReadFrame_read:
  assumes "ReadFrame (t # ts) stream = FrameRead h bs ts' stream'"
  obtains ts1 s1 hb where "ReadExactly ts stream 24 [] = (ts1, s1, hb, Some True)" "h = DecodePipeHeader hb"
    "PipeHeaderAccepted h" "ReadExactly ts1 s1 (unat (payloadSize h)) [] = (ts', stream', bs, Some True)"
  using assms by (auto simp: Let_def split: if_splits prod.splits option.splits bool.splits)

lemma ReadFrame_turns: "ReadFrame ts stream = FrameRead h bs ts' stream' \<Longrightarrow> length ts' < length ts"
  by (cases ts) (auto elim!: ReadFrame_read dest!: ReadExactly_turns simp del: ReadFrame.simps(2))

text \<open>The inner loop: the calls of \<open>SendVideoFrame\<close>, and whether it has ended.\<close>

function ReadConnection :: "PipeTurn list \<Rightarrow> byte list \<Rightarrow> (PipeFrameHeader \<times> byte list) list \<times> bool" where
  "ReadConnection ts stream =
     (case ReadFrame ts stream of
        StillWaiting \<Rightarrow> ([], False)
      | LoopEnds \<Rightarrow> ([], True)
      | FrameRead header bs ts stream \<Rightarrow> (case ReadConnection ts stream of (calls, e) \<Rightarrow> ((header, bs) # calls, e)))"
  by pat_completeness auto

termination
  by (relation "measure (\<lambda>(ts, _). length ts)") (auto dest: ReadFrame_turns)

declare ReadConnection.simps [simp del]

text \<open>A frame that is read is the first one on the connection.\<close>

lemma ReadFrame_frame:
  assumes "ReadFrame ts stream = FrameRead h bs ts' stream'"
  shows "PipeFrames stream = (h, bs) # PipeFrames stream'"
proof -
  obtain t ts0 where ts: "ts = t # ts0" using assms by (cases ts) auto
  obtain ts1 s1 hb where f: "ReadExactly ts0 stream 24 [] = (ts1, s1, hb, Some True)" "h = DecodePipeHeader hb"
      "PipeHeaderAccepted h" "ReadExactly ts1 s1 (unat (payloadSize h)) [] = (ts', stream', bs, Some True)"
    using ReadFrame_read [OF assms [unfolded ts]] by blast
  have "DecodePipeHeader stream = h"
    using ReadExactly_done [OF f(1)] by (simp add: f(2) DecodePipeHeader_def le_get32_def le_get64_def drop_take)
  then show ?thesis
    using ReadExactly_done [OF f(1)] ReadExactly_done [OF f(4)] f(3) by (subst PipeFrames.simps) (simp add: Let_def)
qed

lemma ReadConnection_prefix: "prefix (fst (ReadConnection ts stream)) (PipeFrames stream)"
proof (induction ts stream rule: ReadConnection.induct)
  case (1 ts stream)
  show ?case
  proof (cases "ReadFrame ts stream")
    case (FrameRead h bs ts' stream')
    then show ?thesis
      using 1 [OF FrameRead] ReadFrame_frame [OF FrameRead]
      by (subst ReadConnection.simps) (auto split: prod.split)
  qed (subst ReadConnection.simps, simp)+
qed

section \<open>A pipe that keeps delivering\<close>

text \<open>
  The turns of a pipe without errors: the host is not stopped, and whatever is announced can be
  read, at least in part. The productive ones announce something.
\<close>

definition smooth :: "PipeTurn \<Rightarrow> bool" where
  "smooth t \<longleftrightarrow> \<not> stop_set t \<and>
     (case peeked t of None \<Rightarrow> False | Some a \<Rightarrow> a = 0 \<or> (case delivered t of None \<Rightarrow> False | Some k \<Rightarrow> 0 < k))"

definition productive :: "PipeTurn list \<Rightarrow> nat" where
  "productive ts = length (filter (\<lambda>t. peeked t \<noteq> Some 0) ts)"

lemma productive_simps [simp]:
  "productive [] = 0" "productive (t # ts) = (if peeked t = Some 0 then productive ts else Suc (productive ts))"
  by (simp_all add: productive_def)

lemma ReadTurn_smooth:
  assumes "smooth t" "length out < n" "n - length out \<le> length stream"
  obtains chunk where "ReadTurn t stream n out = Some (drop (length chunk) stream, out @ chunk)"
    "chunk = take (length chunk) stream" "length chunk \<le> n - length out" "chunk = [] \<longleftrightarrow> peeked t = Some 0"
proof (cases "peeked t = Some 0")
  case True
  then have "ReadTurn t stream n out = Some (drop (length ([] :: byte list)) stream, out @ [])"
    using assms(1) by (simp add: ReadTurn_def smooth_def)
  then show ?thesis using True that [of "[]"] by simp
next
  case False
  then obtain a k where a: "peeked t = Some a" "0 < a" "delivered t = Some k" "0 < k" "\<not> stop_set t"
    using assms(1) by (auto simp: smooth_def split: option.splits)
  define chunk where "chunk = take (min k (min (n - length out) a)) stream"
  have "chunk \<noteq> []" using a assms by (cases stream) (auto simp: chunk_def)
  moreover have "chunk = take (length chunk) stream" "length chunk \<le> n - length out"
    by (auto simp: chunk_def min_def)
  moreover have "ReadTurn t stream n out = Some (drop (length chunk) stream, out @ chunk)"
    using a \<open>chunk \<noteq> []\<close> unfolding ReadTurn_def by (simp only: Let_def option.case flip: chunk_def) simp
  ultimately show ?thesis using False that [of chunk] by simp
qed

lemma ReadExactly_smooth:
  assumes "list_all smooth ts" "length out \<le> n" "n - length out \<le> length stream" "n - length out \<le> productive ts"
  shows "\<exists>ts'. ReadExactly ts stream n out =
      (ts', drop (n - length out) stream, out @ take (n - length out) stream, Some True) \<and>
    list_all smooth ts' \<and> productive ts \<le> productive ts' + (n - length out)"
  using assms
proof (induction ts arbitrary: stream out)
  case (Cons t ts)
  show ?case
  proof (cases "length out < n")
    case True
    have "smooth t" using Cons.prems by simp
    then obtain chunk where c: "ReadTurn t stream n out = Some (drop (length chunk) stream, out @ chunk)"
        "chunk = take (length chunk) stream" "length chunk \<le> n - length out" "chunk = [] \<longleftrightarrow> peeked t = Some 0"
      using ReadTurn_smooth [OF _ True Cons.prems(3)] by blast
    define m where "m = n - length out - length chunk"
    have m: "n - length (out @ chunk) = m" "n - length out = length chunk + m" using c(3) by (auto simp: m_def)
    have p: "m \<le> productive ts" "m \<le> length (drop (length chunk) stream)"
      using Cons.prems(3,4) c(4) m(2) by (cases chunk; auto split: if_splits)+
    obtain ts' where r: "ReadExactly ts (drop (length chunk) stream) n (out @ chunk) =
        (ts', drop m (drop (length chunk) stream), (out @ chunk) @ take m (drop (length chunk) stream), Some True)"
        "list_all smooth ts'" "productive ts \<le> productive ts' + m"
    proof -
      have "list_all smooth ts" "length (out @ chunk) \<le> n" using Cons.prems(1) c(3) True by simp_all
      from Cons.IH [OF this, unfolded m(1), OF p(2,1)] show ?thesis using that by blast
    qed
    have "take (n - length out) stream = chunk @ take m (drop (length chunk) stream)"
      using c(2) m(2) by (metis take_add)
    then have "ReadExactly (t # ts) stream n out =
        (ts', drop (n - length out) stream, out @ take (n - length out) stream, Some True)"
      using r(1) c(1) True m(2) by (simp add: add.commute)
    moreover have "productive (t # ts) \<le> productive ts' + (n - length out)"
      using r(3) c(4) m(2) by (cases chunk) auto
    ultimately show ?thesis using r(2) by blast
  qed (use Cons.prems in auto)
qed auto

text \<open>
  With more than two productive turns for each byte on the connection all frames are read; the
  second one is for the turns at the heads of the loop.
\<close>

lemma ReadConnection_all:
  assumes "list_all smooth ts" "2 * length stream < productive ts"
  shows "fst (ReadConnection ts stream) = PipeFrames stream"
  using assms
proof (induction stream arbitrary: ts rule: PipeFrames.induct)
  case (1 stream)
  obtain t ts0 where ts: "ts = t # ts0" using 1(3) by (cases ts) auto
  have "smooth t" using 1(2) by (simp add: ts)
  then have t: "\<not> stop_set t" "list_all smooth ts0" "2 * length stream \<le> productive ts0"
    using 1(2,3) by (auto simp: ts smooth_def [of t] split: if_splits)
  let ?h = "DecodePipeHeader stream"
  have none: "fst (ReadConnection ts stream) = []" if "PipeFrames stream = []"
    using ReadConnection_prefix [of ts stream] that by simp
  show ?case
  proof (cases "length stream < 24 \<or> \<not> PipeHeaderAccepted ?h \<or> length (drop 24 stream) < unat (payloadSize ?h)")
    case True
    then have "PipeFrames stream = []" by (subst PipeFrames.simps) (auto simp: Let_def)
    then show ?thesis using none by simp
  next
    case False
    define n where "n = unat (payloadSize ?h)"
    have "\<not> length stream < 24" "\<not> length stream - 24 < n" using False by (simp_all add: n_def)
    then have n: "24 + n \<le> length stream" by simp
    obtain ts1 where head: "ReadExactly ts0 stream 24 [] = (ts1, drop 24 stream, take 24 stream, Some True)"
        "list_all smooth ts1" "productive ts0 \<le> productive ts1 + 24"
      using ReadExactly_smooth [of ts0 "[]" 24 stream] t n by auto
    obtain ts2 where body: "ReadExactly ts1 (drop 24 stream) n [] =
        (ts2, drop n (drop 24 stream), take n (drop 24 stream), Some True)"
        "list_all smooth ts2" "productive ts1 \<le> productive ts2 + n"
    proof -
      have "n - length [] \<le> length (drop 24 stream)" "n - length [] \<le> productive ts1" using head(3) t(3) n by simp_all
      from ReadExactly_smooth [OF head(2) _ this] show ?thesis using that by auto
    qed
    have h: "DecodePipeHeader (take 24 stream) = ?h"
      by (simp add: DecodePipeHeader_def le_get32_def le_get64_def drop_take)
    have frame: "ReadFrame ts stream = FrameRead ?h (take n (drop 24 stream)) ts2 (drop n (drop 24 stream))"
      using head(1) body(1) t(1) False h by (simp add: ts Let_def n_def)
    have "2 * length (drop n (drop 24 stream)) < productive ts2"
      using t(3) head(3) body(3) n by simp
    then have "fst (ReadConnection ts2 (drop n (drop 24 stream))) = PipeFrames (drop n (drop 24 stream))"
      using 1(1) [OF _ refl refl refl] False body(2) by (auto simp: n_def)
    then show ?thesis
      using ReadFrame_frame [OF frame] frame by (subst ReadConnection.simps) (auto split: prod.split)
  qed
qed

text \<open>
  C6. The reader of the pipe calls \<open>SendVideoFrame\<close> for the frames the encoder's side wrote, in order
  and with their bytes, whatever the pieces in which the pipe delivers them and wherever it breaks
  off; and for all of them when the pipe keeps delivering.
\<close>

theorem pipe_frames_read:
  assumes "list_all2 (\<lambda>(number, f) bs. PipeSinkWrite number f = Some bs \<and> length (frame_bytes_out f) \<le> kMaxEncodedFrame) fs bss"
  shows "prefix (fst (ReadConnection ts (concat bss))) (map (\<lambda>(number, f). piped number f) fs) \<and>
    (list_all smooth ts \<and> 2 * length (concat bss) < productive ts \<longrightarrow>
       fst (ReadConnection ts (concat bss)) = map (\<lambda>(number, f). piped number f) fs)"
  using ReadConnection_prefix [of ts "concat bss"] ReadConnection_all [of ts "concat bss"] PipeFrames_writes [OF assms]
  by auto

text \<open>Two bytes at a time, with an idle turn before each.\<close>

definition slow_turns :: "nat \<Rightarrow> PipeTurn list" where
  "slow_turns n = concat (replicate n
     [\<lparr>stop_set = False, peeked = Some 0, delivered = None\<rparr>, \<lparr>stop_set = False, peeked = Some 2, delivered = Some 2\<rparr>])"

lemma slow_turns_smooth: "list_all smooth (slow_turns n)" "productive (slow_turns n) = n"
  by (induction n) (simp_all add: slow_turns_def smooth_def)

theorem pipe_frames_read_witness:
  "\<exists>bs. PipeSinkWrite 3 \<lparr>frame_bytes_out = [1, 2], frame_timestampUs = 8, frame_key = True, frame_config = False\<rparr> = Some bs \<and>
     map snd (fst (ReadConnection (slow_turns 60) bs)) = [[1, 2]]"
proof -
  let ?f = "\<lparr>frame_bytes_out = [1, 2], frame_timestampUs = 8, frame_key = True, frame_config = False\<rparr>"
  obtain bs where bs: "PipeSinkWrite 3 ?f = Some bs" "length bs = 26"
    by (simp add: PipeSinkWrite_def)
  have "list_all2 (\<lambda>(number, f) bs. PipeSinkWrite number f = Some bs \<and> length (frame_bytes_out f) \<le> kMaxEncodedFrame)
      [(3, ?f)] [bs]"
    using bs by (simp add: kMaxEncodedFrame_def)
  from pipe_frames_read [OF this, of "slow_turns 60"] bs slow_turns_smooth show ?thesis by (simp add: piped_def)
qed

section \<open>The driver's frames at the host\<close>

text \<open>The frames that the host reads from the successive connections of a driver's sink, each in its turns.\<close>

definition frames_read :: "PipeTurn list list \<Rightarrow> SwapChainProcessor \<Rightarrow> (PipeFrameHeader \<times> byte list) list" where
  "frames_read tss s =
     concat (map (\<lambda>(ts, stream). fst (ReadConnection ts stream)) (zip tss (pipe_streams (processor_sink s))))"

definition keeps_delivering :: "PipeTurn list \<Rightarrow> byte list \<Rightarrow> bool" where
  "keeps_delivering ts stream \<longleftrightarrow> list_all smooth ts \<and> 2 * length stream < productive ts"

lemma frames_read_part: "subseq (frames_read tss s) (concat (map PipeFrames (pipe_streams (processor_sink s))))"
proof -
  have "subseq (concat (map (\<lambda>(ts, stream). fst (ReadConnection ts stream)) (zip tss streams))) (concat (map PipeFrames streams))" for streams
  proof (induction streams arbitrary: tss)
    case (Cons stream streams)
    show ?case
    proof (cases tss)
      case (Cons ts tss')
      have "subseq (fst (ReadConnection ts stream)) (PipeFrames stream)"
        by (intro prefix_imp_subseq ReadConnection_prefix)
      from list_emb_append_mono [OF this Cons.IH [of tss']] show ?thesis by (simp add: Cons)
    qed simp
  qed simp
  then show ?thesis by (simp add: frames_read_def)
qed

lemma frames_read_all:
  assumes "list_all2 keeps_delivering tss (pipe_streams (processor_sink s))"
  shows "frames_read tss s = concat (map PipeFrames (pipe_streams (processor_sink s)))"
proof -
  have "concat (map (\<lambda>(ts, stream). fst (ReadConnection ts stream)) (zip tss streams)) = concat (map PipeFrames streams)"
    if "list_all2 keeps_delivering tss streams" for streams
    using that by (induction rule: list_all2_induct) (simp_all add: keeps_delivering_def ReadConnection_all)
  then show ?thesis using assms by (simp add: frames_read_def)
qed

text \<open>
  C7. For every swap chain of every run of the display driver of fewer than 2^32 steps, whatever the
  driver's threads, IddCx, the encoder and the pipe do, and however the host's reads cut the
  successive connections: the frames that the host reads are among those, in their order and each
  with its number and all its bytes, whose write the driver's sink completed, so that the part of a
  frame that is left when a connection breaks is never taken for a frame; the numbers of those
  frames are strictly increasing; and the host reads all of them when the connections keep
  delivering and no frame is longer than it accepts. No more than two surfaces wait for the encoder,
  and the encoder keeps to the contract of its transforms.
\<close>

theorem driver_frames_in_order:
  assumes "length es < 2 ^ 32" "s \<in> set (processors es)"
  shows "subseq (frames_read tss s) (map (\<lambda>(number, f). piped number f) (sink_written s)) \<and>
    sorted_wrt (<) (map fst (sink_written s)) \<and>
    (list_all2 keeps_delivering tss (pipe_streams (processor_sink s)) \<and>
       (\<forall>x\<in>set (sink_written s). length (frame_bytes_out (snd x)) \<le> kMaxEncodedFrame) \<longrightarrow>
     frames_read tss s = map (\<lambda>(number, f). piped number f) (sink_written s)) \<and>
    length (frame_queue s) \<le> 2 \<and> mft_phase_of (mft_calls (processor_encoder s)) \<noteq> Violated"
proof -
  have inv: "processor_inv (length es) s" by (rule processors_inv [OF assms])
  note written = processor_written [OF inv]
  have "length (frame_queue s) \<le> 2" "mft_phase_of (mft_calls (processor_encoder s)) \<noteq> Violated"
    using inv by (auto simp: processor_inv_def encoder_inv_def)
  then show ?thesis
    using written subseq_order.trans [OF frames_read_part written(1), of tss] frames_read_all [of tss s] by simp
qed

theorem driver_frames_in_order_witness:
  "\<exists>s. processors exampleDriverRun = [s] \<and>
     map (pipe_frame \<circ> fst) (frames_read [slow_turns 200] s) = [0, 2] \<and>
     map snd (frames_read [slow_turns 200] s) = [[0, 0, 0, 1, 101], [0, 0, 0, 1, 101]]"
proof -
  obtain s where s: "monitor_run exampleDriverRun = Some s"
      "pipe_streams (processor_sink s) = [concat (map frame_write [(0, exampleUnit), (2, exampleUnit)])]"
      "sink_written s = [(0, exampleUnit), (2, exampleUnit)]"
    using exampleDriverRun_streams by auto
  have here: "s \<in> set (processors exampleDriverRun)"
    using s(1) present_processor [of exampleDriverRun None s] by (simp add: processors_def monitor_run_def)
  have "length (frame_write (k, exampleUnit)) = 29" for k by (simp add: frame_write_def exampleUnit_def)
  then have "list_all2 keeps_delivering [slow_turns 200] (pipe_streams (processor_sink s))"
    using s(2) slow_turns_smooth by (simp add: keeps_delivering_def)
  moreover have "\<forall>x\<in>set (sink_written s). length (frame_bytes_out (snd x)) \<le> kMaxEncodedFrame"
    using s(3) by (simp add: exampleUnit_def kMaxEncodedFrame_def)
  ultimately have "frames_read [slow_turns 200] s = map (\<lambda>(number, f). piped number f) (sink_written s)"
    using driver_frames_in_order [OF _ here, of "[slow_turns 200]"] by (simp add: exampleDriverRun_def)
  moreover have "processors exampleDriverRun = [s]"
    using s(1) by (simp add: processors_def monitor_run_def exampleDriverRun_def replaced_def AssignSwapChain_def
        reset_processor_def Direct3DDevice_Initialize_def FAILED_def)
  ultimately show ?thesis using s(3) by (auto simp: piped_def exampleUnit_def)
qed

section \<open>The loops of the pipe and status threads\<close>

text \<open>What \<open>ConnectNamedPipe\<close> says in a turn of the waiting loop, with the last error when it fails.\<close>

datatype connect_answer = Connects | ConnectError nat

definition ERROR_PIPE_CONNECTED :: nat where "ERROR_PIPE_CONNECTED = 535"
definition ERROR_PIPE_LISTENING :: nat where "ERROR_PIPE_LISTENING = 536"
definition ERROR_NO_DATA :: nat where "ERROR_NO_DATA = 232"

text \<open>The waiting loop that both threads have: turns with the stop event; no result while it waits.\<close>

fun AwaitClient :: "(bool \<times> connect_answer) list \<Rightarrow> bool option" where
  "AwaitClient [] = None"
| "AwaitClient ((stop, answer) # turns) =
     (if stop then Some False
      else
        (case answer of
           Connects \<Rightarrow> Some True
         | ConnectError e \<Rightarrow>
             (if e = ERROR_PIPE_CONNECTED then Some True
              else if e \<noteq> ERROR_PIPE_LISTENING \<and> e \<noteq> ERROR_NO_DATA then Some False
              else AwaitClient turns)))"

record ServeEnv =
  stop_at_head :: bool
  security_valid :: bool
  pipe_created :: bool
  connect_turns :: "(bool \<times> connect_answer) list"

text \<open>A loop that has ended, or waits inside a turn; the pipes it has open; and what it has passed on.\<close>

record 'a ServeLoop =
  loop_over :: bool
  loop_waits :: bool
  open_pipes :: nat
  passed_on :: "'a list"

definition newLoop :: "'a ServeLoop" where
  "newLoop = \<lparr>loop_over = False, loop_waits = False, open_pipes = 0, passed_on = []\<rparr>"

definition close_pipe :: "'a ServeLoop \<Rightarrow> 'a ServeLoop" where
  "close_pipe s = s\<lparr>open_pipes := open_pipes s - 1\<rparr>"

definition PipeLoop_turn ::
    "ServeEnv \<Rightarrow> PipeTurn list \<Rightarrow> byte list \<Rightarrow> (PipeFrameHeader \<times> byte list) ServeLoop \<Rightarrow>
     (PipeFrameHeader \<times> byte list) ServeLoop" where
  "PipeLoop_turn env reads stream s =
     (if loop_over s \<or> loop_waits s then s
      else if stop_at_head env then s\<lparr>loop_over := True\<rparr>
      else if \<not> security_valid env then s
      else if \<not> pipe_created env then s
      else
        (let s = s\<lparr>open_pipes := open_pipes s + 1\<rparr>
         in (case AwaitClient (connect_turns env) of
               None \<Rightarrow> s\<lparr>loop_waits := True\<rparr>
             | Some connected \<Rightarrow>
                 (if \<not> connected then close_pipe s
                  else
                    (case ReadConnection reads stream of
                       (calls, ended) \<Rightarrow>
                         (let s = s\<lparr>passed_on := passed_on s @ calls\<rparr>
                          in if ended then close_pipe s else s\<lparr>loop_waits := True\<rparr>))))))"

text \<open>
  The status thread sends each client one frame, of which \<open>WriteFile\<close> may take a part only; its
  result is not looked at. The host's state is the one when the client is served.
\<close>

definition StatusLoop_turn ::
    "ServeEnv \<Rightarrow> nat \<Rightarrow> HostServer \<Rightarrow> byte list ServeLoop \<Rightarrow> byte list ServeLoop" where
  "StatusLoop_turn env written host s =
     (if loop_over s \<or> loop_waits s then s
      else if stop_at_head env then s\<lparr>loop_over := True\<rparr>
      else if \<not> pipe_created env then s
      else
        (let s = s\<lparr>open_pipes := open_pipes s + 1\<rparr>
         in (case AwaitClient (connect_turns env) of
               None \<Rightarrow> s\<lparr>loop_waits := True\<rparr>
             | Some connected \<Rightarrow>
                 (let s = (if connected then s\<lparr>passed_on := passed_on s @ [take written (StatusFrame host)]\<rparr> else s)
                  in close_pipe s))))"

text \<open>No loop leaks a pipe: between turns all are closed, and only a turn that still waits has one open.\<close>

definition serve_inv :: "'a ServeLoop \<Rightarrow> bool" where
  "serve_inv s \<longleftrightarrow> open_pipes s = (if loop_waits s then 1 else 0) \<and> \<not> (loop_over s \<and> loop_waits s)"

interpretation pipe_loop: invariant_system newLoop "\<lambda>(env, reads, stream). PipeLoop_turn env reads stream" serve_inv
  by unfold_locales
     (simp_all add: serve_inv_def newLoop_def PipeLoop_turn_def close_pipe_def Let_def split: option.split prod.split if_split, blast)

interpretation status_loop: invariant_system newLoop "\<lambda>(env, written, host). StatusLoop_turn env written host" serve_inv
  by unfold_locales
     (simp_all add: serve_inv_def newLoop_def StatusLoop_turn_def close_pipe_def Let_def split: option.split prod.split if_split, blast)

lemma pipe_loop_closes_pipes:
  fixes turns :: "(ServeEnv \<times> PipeTurn list \<times> byte list) list"
  shows "loop_over (fold (\<lambda>(env, reads, stream). PipeLoop_turn env reads stream) turns newLoop) \<Longrightarrow>
    open_pipes (fold (\<lambda>(env, reads, stream). PipeLoop_turn env reads stream) turns newLoop) = 0"
  using pipe_loop.inv_run [of turns] by (auto simp: serve_inv_def)

lemma status_loop_closes_pipes:
  fixes turns :: "(ServeEnv \<times> nat \<times> HostServer) list"
  shows "loop_over (fold (\<lambda>(env, written, host). StatusLoop_turn env written host) turns newLoop) \<Longrightarrow>
    open_pipes (fold (\<lambda>(env, written, host). StatusLoop_turn env written host) turns newLoop) = 0"
  using status_loop.inv_run [of turns] by (auto simp: serve_inv_def)

text \<open>Once the stop event is set every wait of the threads returns, and the next turn ends the loop.\<close>

lemma stop_ends_waits:
  "AwaitClient ((True, answer) # turns) = Some False"
  "length out < n \<Longrightarrow> stop_set t \<Longrightarrow> ReadExactly (t # ts) stream n out = (ts, stream, out, Some False)"
  "stop_set t \<Longrightarrow> ReadConnection (t # ts) stream = ([], True)"
  by (simp_all add: ReadTurn_def ReadConnection.simps)

lemma stop_ends_loops:
  "\<not> loop_waits s \<Longrightarrow> stop_at_head env \<Longrightarrow> loop_over (PipeLoop_turn env reads stream s)"
  "\<not> loop_waits r \<Longrightarrow> stop_at_head env \<Longrightarrow> loop_over (StatusLoop_turn env written host r)"
  by (simp_all add: PipeLoop_turn_def StatusLoop_turn_def)

section \<open>The clock\<close>

text \<open>
  \<open>ClockMicroseconds\<close>: the two values of the performance counter are signed, the product is formed
  before the division, and the quotient truncates. A product out of range wraps, as the compiled
  code does; the language leaves it open. \<open>Driver.cpp\<close> has the same function.
\<close>

definition ClockMicroseconds :: "64 word \<Rightarrow> 64 word \<Rightarrow> u64" where
  "ClockMicroseconds counter frequency = word_of_int (sint (counter * 1000000) sdiv sint frequency)"

text \<open>While the product fits, the clock shows the microseconds.\<close>

lemma clock_exact:
  assumes "0 \<le> sint counter" "sint counter * 1000000 < 2 ^ 63" "0 < sint frequency"
  shows "uint (ClockMicroseconds counter frequency) = sint counter * 1000000 div sint frequency"
proof -
  have "sint (counter * 1000000) = signed_take_bit 63 (sint counter * 1000000)"
    by (simp add: sint_word_ariths)
  also have "\<dots> = sint counter * 1000000"
    using assms by (intro signed_take_bit_int_eq_self) auto
  finally have p: "sint (counter * 1000000) = sint counter * 1000000" .
  define q where "q = sint counter * 1000000 div sint frequency"
  have q: "0 \<le> q" "q \<le> sint counter * 1000000"
    using assms div_by_1 [of "sint counter * 1000000"] zdiv_mono2 [of "sint counter * 1000000" 1 "sint frequency"]
    by (simp_all add: q_def pos_imp_zdiv_nonneg_iff)
  have "sint (counter * 1000000) sdiv sint frequency = q"
    using assms by (simp add: p q_def signed_divide_int_def sgn_if)
  then show ?thesis
    using q assms(2) by (simp add: ClockMicroseconds_def uint_word_of_int take_bit_int_eq_self flip: q_def)
qed

text \<open>
  It does not stay so. At ten million counts a second the product leaves the range after less than
  eleven days without a restart: from one count to the next the clock jumps.
\<close>

lemma clock_jumps:
  "uint (ClockMicroseconds 9223372036854 10000000) = 922337203685"
  "uint (ClockMicroseconds 9223372036855 10000000) = 2 ^ 64 - 922337203685"
  by (simp_all add: ClockMicroseconds_def signed_divide_int_def)

end
