(* ===== verification/Relay_Protocol.thy ===== *)
theory Relay_Protocol
  imports Json_Fields Hex_Codec
begin

text \<open>
  The protocol functions of the relay, \<open>relay/src/relay_protocol.h\<close> and
  \<open>relay/src/relay_protocol.cpp\<close>: the local video message of the browser extension, the accept
  value of the opening handshake, tokens, the expected authentication message, the normal form of
  an extension's origin, and the JSON field readers, which refuse a key that occurs twice.

  A thrown \<open>std::exception\<close> is \<open>Inl\<close> of its message. The hash, the base64 conversion and the random
  bytes are calls of the Windows API and arguments here: None is a failure status.
\<close>

type_synonym 'a fallible = "string + 'a"

section \<open>Constants and data\<close>

definition kWebSocketGuid :: string where
  "kWebSocketGuid = ''258EAFA5-E914-47DA-95CA-C5AB0DC85B11''"

definition kLocalVideoMagic :: u32 where "kLocalVideoMagic = 0x48574C31"
definition kLocalVideoVersion :: byte where "kLocalVideoVersion = 1"
definition kLocalVideoHeaderSize :: nat where "kLocalVideoHeaderSize = 24"
definition kMaxVideoPayloadBytes :: nat where "kMaxVideoPayloadBytes = 8 * 1024 * 1024"
definition kVideoFlagKeyFrame :: byte where "kVideoFlagKeyFrame = 1"

record LocalVideoMessage =
  key_frame :: bool
  sequence :: u32
  timestamp_us :: u64
  payload :: "byte list"

section \<open>The local video message\<close>

definition ReadBigEndian64 :: "byte list \<Rightarrow> nat \<Rightarrow> u64" where
  "ReadBigEndian64 bs i = foldl (\<lambda>v index. push_bit 8 v OR ucast (bs ! (i + index))) 0 [0..<8]"

definition ParseLocalVideoMessage :: "byte list \<Rightarrow> LocalVideoMessage fallible" where
  "ParseLocalVideoMessage m =
     (if length m < kLocalVideoHeaderSize then Inl ''message is shorter than the local video header''
      else if be_get32 m 0 \<noteq> kLocalVideoMagic then Inl ''local video magic does not match''
      else if m ! 4 \<noteq> kLocalVideoVersion then Inl ''local video version does not match''
      else
        (let flags = m ! 5
         in if flags AND NOT kVideoFlagKeyFrame \<noteq> 0 then Inl ''local video flags contain unsupported bits''
            else if be_get16 m 6 \<noteq> word_of_nat kLocalVideoHeaderSize
            then Inl ''local video header size does not match''
            else
              (let payload_length = be_get32 m 12
               in if unat payload_length > kMaxVideoPayloadBytes then Inl ''local video payload exceeds 8 MiB''
                  else if length m \<noteq> kLocalVideoHeaderSize + unat payload_length
                  then Inl ''local video payload length does not match message size''
                  else Inr \<lparr>key_frame = (flags AND kVideoFlagKeyFrame \<noteq> 0), sequence = be_get32 m 8,
                            timestamp_us = ReadBigEndian64 m 16, payload = drop kLocalVideoHeaderSize m\<rparr>)))"

section \<open>Accept value and token\<close>

definition Base64Encode :: "(byte list \<Rightarrow> string option) \<Rightarrow> byte list \<Rightarrow> string fallible" where
  "Base64Encode binary_to_string bs =
     (if length bs > 0xffffffff then Inl ''base64 input is too large''
      else (case binary_to_string bs of None \<Rightarrow> Inl ''CryptBinaryToStringA failed'' | Some s \<Rightarrow> Inr s))"

definition CreateWebSocketAccept ::
    "(byte list \<Rightarrow> byte list option) \<Rightarrow> (byte list \<Rightarrow> string option) \<Rightarrow> string \<Rightarrow> string fallible" where
  "CreateWebSocketAccept sha1_hash binary_to_string client_key =
     (case sha1_hash (bytes_of (client_key @ kWebSocketGuid)) of
        None \<Rightarrow> Inl ''BCryptHash SHA-1 failed''
      | Some digest \<Rightarrow> Base64Encode binary_to_string digest)"

text \<open>\<open>std::hex\<close> prints without leading zeros; \<open>setw(2)\<close> with fill \<open>0\<close> pads the output to two characters.\<close>

fun hex_number :: "nat \<Rightarrow> string" where
  "hex_number n = (if n < 16 then [hex_digit n] else hex_number (n div 16) @ [hex_digit (n mod 16)])"

declare hex_number.simps [simp del]

definition setw2 :: "string \<Rightarrow> string" where
  "setw2 s = replicate (2 - length s) (CHR ''0'') @ s"

definition GenerateTokenHex :: "(nat \<Rightarrow> byte list option) \<Rightarrow> nat \<Rightarrow> string fallible" where
  "GenerateTokenHex gen_random byte_count =
     (if byte_count < 16 \<or> byte_count > 64 then Inl ''token byte count must be between 16 and 64''
      else (case gen_random byte_count of
              None \<Rightarrow> Inl ''BCryptGenRandom failed''
            | Some random_bytes \<Rightarrow> Inr (concat (map (\<lambda>v. setw2 (hex_number (unat v))) random_bytes))))"

definition expected_auth :: "string \<Rightarrow> string" where
  "expected_auth token =
     CHR ''{'' # quoted ''type'' @ CHR '':'' # quoted ''auth'' @ CHR '','' # quoted ''token''
       @ CHR '':'' # quoted token @ ''}''"

definition IsExpectedAuthMessage :: "string \<Rightarrow> string \<Rightarrow> bool" where
  "IsExpectedAuthMessage m token \<longleftrightarrow> m = expected_auth token"

text \<open>\<open>remove_suffix\<close> while the last character is a slash.\<close>

definition strip_slashes :: "string \<Rightarrow> string" where
  "strip_slashes s = rev (dropWhile ((=) CHR ''/'') (rev s))"

definition extension_prefix :: string where "extension_prefix = ''chrome-extension://''"

definition NormalizeExtensionOrigin :: "string \<Rightarrow> string" where
  "NormalizeExtensionOrigin origin =
     (let origin = strip_slashes origin
      in if \<not> starts_with origin extension_prefix then ''''
         else
           (let extension_id = drop (length extension_prefix) origin
            in if length extension_id \<noteq> 32 then ''''
               else if \<not> list_all (\<lambda>c. ord (CHR ''a'') \<le> ord c \<and> ord c \<le> ord (CHR ''p'')) extension_id then ''''
               else origin))"

section \<open>JSON fields\<close>

definition JsonValueStart :: "string \<Rightarrow> string \<Rightarrow> nat option" where
  "JsonValueStart json key =
     (case find_from json (quoted key) 0 of
        None \<Rightarrow> None
      | Some pos \<Rightarrow>
          (if find_from json (quoted key) (pos + length (quoted key)) \<noteq> None then None
           else
             (case find_from json [CHR '':''] (pos + length (quoted key)) of
                None \<Rightarrow> None
              | Some colon \<Rightarrow> Some (skip_json_space json (colon + 1)))))"

text \<open>The loop of \<open>JsonString\<close>: the escapes are those of the receiver; raw control characters are refused.\<close>

fun relay_string_loop :: "string \<Rightarrow> string \<Rightarrow> string option" where
  "relay_string_loop str [] = None"
| "relay_string_loop str (c # cs) =
     (if c = dquote then Some str
      else if c \<noteq> backslash then (if ord c < 0x20 then None else relay_string_loop (str @ [c]) cs)
      else
        (case cs of
           [] \<Rightarrow> None
         | e # rest \<Rightarrow>
             (case json_unescape e of
                None \<Rightarrow> None
              | Some x \<Rightarrow> relay_string_loop (str @ [x]) rest)))"

definition RelayJsonString :: "string \<Rightarrow> string \<Rightarrow> string option" where
  "RelayJsonString json key =
     (case JsonValueStart json key of
        None \<Rightarrow> None
      | Some start \<Rightarrow>
          (if start \<ge> length json \<or> json ! start \<noteq> dquote then None
           else relay_string_loop [] (drop (start + 1) json)))"

definition JsonUnsigned :: "string \<Rightarrow> string \<Rightarrow> nat option" where
  "JsonUnsigned json key =
     (case JsonValueStart json key of
        None \<Rightarrow> None
      | Some start \<Rightarrow> map_option fst (from_chars_unsigned 10 (2 ^ 64 - 1) (drop start json)))"

fun relay_escape_char :: "char \<Rightarrow> string" where
  "relay_escape_char c =
     (if c = backslash then [backslash, backslash]
      else if c = dquote then [backslash, dquote]
      else if c = carriage_return then [backslash, CHR ''r'']
      else if c = newline then [backslash, CHR ''n'']
      else if c = tabulator then [backslash, CHR ''t'']
      else if 0x20 \<le> ord c then [c]
      else [])"

definition RelayEscapeJson :: "string \<Rightarrow> string" where
  "RelayEscapeJson str = concat (map relay_escape_char str)"

section \<open>The local video message parser accepts one layout\<close>

definition render_local_video :: "LocalVideoMessage \<Rightarrow> byte list" where
  "render_local_video v =
     be_put32 kLocalVideoMagic @ [kLocalVideoVersion, if key_frame v then 1 else 0] @ be_put16 24
     @ be_put32 (sequence v) @ be_put32 (word_of_nat (length (payload v))) @ be_put64 (timestamp_us v) @ payload v"

lemma ReadBigEndian64_eq: "ReadBigEndian64 = be_get64"
  by (intro ext) (simp add: ReadBigEndian64_def be_get64_def)

lemma local_flags: "(b :: byte) AND NOT 1 = 0 \<longleftrightarrow> b = 0 \<or> b = 1"
proof
  assume z: "b AND NOT 1 = 0"
  have "b = (b AND NOT 1) OR (b AND 1)" by (simp flip: and.assoc bit.conj_disj_distrib)
  then have "b = b AND 1" unfolding z by simp
  moreover have "b AND 1 = 0 \<or> b AND 1 = 1" by (simp add: and_one_eq mod_2_eq_odd)
  ultimately show "b = 0 \<or> b = 1" by metis
qed auto

lemma render_local_layout:
  fixes v :: LocalVideoMessage
  defines "m \<equiv> render_local_video v"
  shows "be_get32 m 0 = kLocalVideoMagic" "m ! 4 = kLocalVideoVersion" "m ! 5 = (if key_frame v then 1 else 0)"
    "be_get16 m 6 = 24" "be_get32 m 8 = sequence v" "be_get32 m 12 = word_of_nat (length (payload v))"
    "be_get64 m 16 = timestamp_us v" "length m = 24 + length (payload v)" "drop 24 m = payload v"
  unfolding m_def render_local_video_def
  by (auto simp: nth_append intro!: be_get16_layout be_get32_layout be_get64_layout)

lemma local_bytes_rendered:
  assumes "24 \<le> length m" "be_get32 m 0 = kLocalVideoMagic" "m ! 4 = kLocalVideoVersion"
    "m ! 5 = (if key_frame v then 1 else 0)" "be_get16 m 6 = 24" "be_get32 m 8 = sequence v"
    "be_get32 m 12 = word_of_nat (length (payload v))" "be_get64 m 16 = timestamp_us v" "drop 24 m = payload v"
  shows "m = render_local_video v"
proof -
  have "take 24 m = [m ! 0, m ! 1, m ! 2, m ! 3] @ [m ! 4, m ! 5] @ [m ! 6, m ! Suc 6]
      @ [m ! 8, m ! (8 + 1), m ! (8 + 2), m ! (8 + 3)] @ [m ! 12, m ! (12 + 1), m ! (12 + 2), m ! (12 + 3)]
      @ map (\<lambda>k. m ! (16 + k)) [0..<8]"
    using assms(1) by (intro nth_equalityI) (auto simp: less_Suc_eq numeral_eq_Suc nth_append)
  also have "\<dots> @ drop 24 m = render_local_video v"
    unfolding render_local_video_def assms(2) [symmetric] assms(3) [symmetric] assms(4) [symmetric] assms(5) [symmetric]
      assms(6) [symmetric] assms(7) [symmetric] assms(8) [symmetric] assms(9)
    by (simp add: be_put32_get32 be_put16_get16 be_put64_get64 numeral_2_eq_2)
  finally show ?thesis by (metis append_take_drop_id)
qed

lemma local_video_size: "n \<le> kMaxVideoPayloadBytes \<Longrightarrow> unat (word_of_nat n :: u32) = n"
  by (simp add: unat_of_nat kMaxVideoPayloadBytes_def)

lemma ParseLocalVideoMessage_iff:
  "ParseLocalVideoMessage m = Inr v \<longleftrightarrow> m = render_local_video v \<and> length (payload v) \<le> kMaxVideoPayloadBytes"
proof
  assume p: "ParseLocalVideoMessage m = Inr v"
  then have fields: "24 \<le> length m" "be_get32 m 0 = kLocalVideoMagic" "m ! 4 = kLocalVideoVersion"
      "m ! 5 AND NOT 1 = 0" "be_get16 m 6 = 24" "unat (be_get32 m 12) \<le> kMaxVideoPayloadBytes"
      "length m = 24 + unat (be_get32 m 12)"
      "v = \<lparr>key_frame = (m ! 5 AND 1 \<noteq> 0), sequence = be_get32 m 8, timestamp_us = be_get64 m 16, payload = drop 24 m\<rparr>"
    by (auto simp: ParseLocalVideoMessage_def Let_def kVideoFlagKeyFrame_def kLocalVideoHeaderSize_def
        ReadBigEndian64_eq split: if_splits)
  have len: "length (payload v) = unat (be_get32 m 12)" using fields(7,8) by simp
  have "m ! 5 = (if key_frame v then 1 else 0)" using fields(4,8) by (auto simp: local_flags [simplified])
  then have "m = render_local_video v" using fields len by (intro local_bytes_rendered) simp_all
  then show "m = render_local_video v \<and> length (payload v) \<le> kMaxVideoPayloadBytes" using len fields(6) by simp
next
  assume a: "m = render_local_video v \<and> length (payload v) \<le> kMaxVideoPayloadBytes"
  note l = render_local_layout [of v, folded conjunct1 [OF a]]
  have "((if key_frame v then 1 else 0) :: byte) AND NOT 1 = 0" by simp
  with a l local_video_size [OF conjunct2 [OF a]] show "ParseLocalVideoMessage m = Inr v"
    by (simp add: ParseLocalVideoMessage_def Let_def kVideoFlagKeyFrame_def kLocalVideoHeaderSize_def ReadBigEndian64_eq)
qed

section \<open>Tokens and origins\<close>

lemma setw2_hex: "setw2 (hex_number (unat (v :: byte))) = [hex_digit (unat (drop_bit 4 v)), hex_digit (unat (v AND 0x0f))]"
proof -
  have eq: "unat (drop_bit 4 v) = unat v div 16" "unat (v AND 0x0f) = unat v mod 16"
    using byte_split [of v] by presburger+
  have lt: "unat v < 256" using unsigned_less [of v] by simp
  have z: "hex_digit 0 = CHR ''0''" by (simp add: hex_digit_def hex_alphabet_def)
  show ?thesis
  proof (cases "unat v < 16")
    case True
    then show ?thesis unfolding eq by (subst hex_number.simps) (simp add: setw2_def z)
  next
    case False
    then have "unat v div 16 < 16" using lt by simp
    then show ?thesis unfolding eq using False
      by (subst hex_number.simps, subst hex_number.simps) (simp add: setw2_def)
  qed
qed

lemma GenerateTokenHex_LowerHex:
  assumes "16 \<le> n" "n \<le> 64" "gen_random n = Some bs" "length bs = n"
  shows "GenerateTokenHex gen_random n = Inr (LowerHex bs)"
  using assms by (simp add: GenerateTokenHex_def setw2_hex LowerHex_def hex_digit_def)

definition extension_id :: "string \<Rightarrow> bool" where
  "extension_id i \<longleftrightarrow> length i = 32 \<and> list_all (\<lambda>c. c \<in> set ''abcdefghijklmnop'') i"

lemma letters_a_p: "ord (CHR ''a'') \<le> ord c \<and> ord c \<le> ord (CHR ''p'') \<longleftrightarrow> c \<in> set ''abcdefghijklmnop''"
proof
  assume "ord (CHR ''a'') \<le> ord c \<and> ord c \<le> ord (CHR ''p'')"
  then have "ord c \<in> {97..<113}" and c: "c = char_of (ord c)" by (simp_all add: ord_def)
  then have "char_of (ord c) \<in> char_of ` {97..<113::nat}" by blast
  also have "char_of ` {97..<113::nat} = set ''abcdefghijklmnop''" unfolding set_upt [symmetric] by (simp add: upt_rec char_of_def bit_0)
  finally show "c \<in> set ''abcdefghijklmnop''" using c by simp
qed (auto simp: ord_def)

lemma strip_slashes_snoc: "c \<noteq> CHR ''/'' \<Longrightarrow> strip_slashes (s @ [c] @ replicate n (CHR ''/'')) = s @ [c]"
proof -
  assume c: "c \<noteq> CHR ''/''"
  have "dropWhile ((=) CHR ''/'') (replicate n (CHR ''/'') @ c # t) = c # t" for t
    using c by (induction n) auto
  then show ?thesis by (simp add: strip_slashes_def)
qed

lemma strip_slashes_decompose: "\<exists>n. s = strip_slashes s @ replicate n (CHR ''/'')"
proof -
  have "rev s = takeWhile ((=) CHR ''/'') (rev s) @ dropWhile ((=) CHR ''/'') (rev s)" by simp
  then have "s = strip_slashes s @ rev (takeWhile ((=) CHR ''/'') (rev s))"
    by (metis rev_append rev_rev_ident strip_slashes_def)
  moreover have "takeWhile ((=) (CHR ''/'')) t = replicate (length (takeWhile ((=) (CHR ''/'')) t)) (CHR ''/'')" for t
    by (induction t) auto
  ultimately show ?thesis by (metis rev_replicate)
qed

lemma NormalizeExtensionOrigin_iff:
  assumes "r \<noteq> ''''"
  shows "NormalizeExtensionOrigin s = r \<longleftrightarrow>
    (\<exists>i n. extension_id i \<and> r = extension_prefix @ i \<and> s = r @ replicate n (CHR ''/''))"
proof
  assume "NormalizeExtensionOrigin s = r"
  then have n: "starts_with (strip_slashes s) extension_prefix" "extension_id (drop (length extension_prefix) (strip_slashes s))"
      "r = strip_slashes s"
    using assms
    by (auto simp: NormalizeExtensionOrigin_def Let_def extension_id_def letters_a_p simp del: list.set split: if_splits)
  then have "r = extension_prefix @ drop (length extension_prefix) (strip_slashes s)"
    by (metis append_take_drop_id starts_with_def)
  then show "\<exists>i n. extension_id i \<and> r = extension_prefix @ i \<and> s = r @ replicate n (CHR ''/'')"
    using n strip_slashes_decompose [of s] by metis
next
  assume "\<exists>i n. extension_id i \<and> r = extension_prefix @ i \<and> s = r @ replicate n (CHR ''/'')"
  then obtain i n where i: "extension_id i" "r = extension_prefix @ i" "s = r @ replicate n (CHR ''/'')" by blast
  then obtain j c where j: "i = j @ [c]" by (cases i rule: rev_cases) (auto simp: extension_id_def)
  have "c \<noteq> CHR ''/''" using i(1) by (auto simp: j extension_id_def)
  then have "strip_slashes s = r" using strip_slashes_snoc [of c "extension_prefix @ j" n] by (simp add: i(2,3) j)
  then show "NormalizeExtensionOrigin s = r"
    using i(1,2) by (simp add: NormalizeExtensionOrigin_def extension_id_def letters_a_p del: list.set)
qed

section \<open>Escaping\<close>

text \<open>The reader inverts the escaping except for the control characters that the escaping drops.\<close>

definition json_printable :: "char \<Rightarrow> bool" where
  "json_printable c \<longleftrightarrow> 0x20 \<le> ord c \<or> c \<in> {carriage_return, newline, tabulator}"

lemma relay_string_loop_escape:
  "relay_string_loop acc (RelayEscapeJson s @ dquote # rest) = Some (acc @ filter json_printable s)"
proof (induction s arbitrary: acc)
  case Nil
  show ?case by (simp add: RelayEscapeJson_def)
next
  case (Cons c s)
  have "RelayEscapeJson (c # s) = relay_escape_char c @ RelayEscapeJson s" by (simp add: RelayEscapeJson_def)
  moreover have "ord dquote = 0x22" "ord backslash = 0x5C" by (simp_all add: ord_def)
  ultimately show ?case
    using Cons.IH [of "acc @ [c]"] Cons.IH [of acc] by (auto simp: json_printable_def split: if_splits)
qed

lemma RelayEscapeJson_plain: "plain s \<Longrightarrow> RelayEscapeJson s = s"
  by (induction s) (auto simp: plain_def RelayEscapeJson_def ord_def)

lemma plain_printable: "plain s \<Longrightarrow> filter json_printable s = s"
  by (induction s) (auto simp: plain_def json_printable_def)

lemma relay_string_loop_plain: "plain w \<Longrightarrow> relay_string_loop acc (w @ dquote # rest) = Some (acc @ w)"
  using relay_string_loop_escape [of acc w rest] by (simp add: RelayEscapeJson_plain plain_printable)

section \<open>The readers on rendered objects\<close>

lemma find_sub_suffix: "find_sub pat (u @ s) = None \<Longrightarrow> find_sub pat s = None"
proof (induction u)
  case (Cons x u)
  then show ?case by (auto simp del: append_Cons simp: append_Cons [of x u s] split: if_splits)
qed simp

text \<open>With different keys in every field, no second occurrence follows the first.\<close>

lemma find_field_once:
  assumes "searchable k fs" "distinct (map fst fs)" "map_of fs k = Some v"
    and "render_fields fs = pre @ quoted k @ rest" "find_sub (quoted k) (render_fields fs) = Some (length pre)"
  shows "find_sub (quoted k) rest = None"
  using assms
proof (induction fs arbitrary: pre rule: render_fields.induct)
  case 1
  then show ?case by simp
next
  case (2 k' v')
  then have eq: "k' = k" "v' = v" by (simp_all split: if_splits)
  then have "pre = []" using "2.prems"(5) by (simp only: render_fields.simps find_quoted_hit) simp
  then have rest: "rest = CHR '':'' # render_value v @ ''}''" using "2.prems"(4) by (simp add: eq)
  have v: "searchable_value k v" and k: "key_word k" using "2.prems"(1) by (simp_all add: searchable_def eq)
  have "key_word (k @ ''x'')" using k by (auto simp: key_word_def isalnum_def islower_def ord_def)
  from find_last_field_absent [OF k this _ v]
  have "find_sub (quoted k) (quoted (k @ ''x'') @ CHR '':'' # render_value v @ ''}'') = None" by simp
  then show ?case unfolding rest by (rule find_sub_suffix)
next
  case (3 k' v' f fs)
  have s: "searchable k (f # fs)" "distinct (map fst (f # fs))" and f: "key_word k" "key_word k'" "searchable_value k v'"
    using "3.prems" by (simp_all add: searchable_def)
  obtain s' where s': "render_fields (f # fs) = dquote # s'" using render_fields_dquote [of "f # fs"] by auto
  show ?case
  proof (cases "k' = k")
    case True
    then have "pre = []" using "3.prems"(5) by (simp only: render_fields.simps find_quoted_hit) simp
    then have rest: "rest = CHR '':'' # render_value v' @ CHR '','' # dquote # s'"
      using "3.prems"(4) by (simp add: True s')
    have "map_of (f # fs) k = None" using "3.prems"(2) True by (cases f) (auto simp: map_of_eq_None_iff)
    then have none: "find_sub (quoted k) (dquote # s') = None" using find_field_absent [OF s(1)] by (simp add: s')
    have "key_word (k @ ''x'')" using f(1) by (auto simp: key_word_def isalnum_def islower_def ord_def)
    from find_field_skip [OF f(1) this _ f(3), of s'] none
    have "find_sub (quoted k) (quoted (k @ ''x'') @ CHR '':'' # render_value v' @ CHR '','' # dquote # s') = None"
      by simp
    then show ?thesis unfolding rest by (rule find_sub_suffix)
  next
    case False
    then have m: "map_of (f # fs) k = Some v" using "3.prems"(3) by simp
    obtain pre' rest' where pre': "render_fields (f # fs) = pre' @ quoted k @ rest'"
        "find_sub (quoted k) (render_fields (f # fs)) = Some (length pre')"
      using find_field_present [OF s(1) m] by blast
    let ?front = "quoted k' @ CHR '':'' # render_value v' @ CHR '','' # pre'"
    have "find_sub (quoted k) (render_fields ((k', v') # f # fs)) = Some (length ?front)"
      using find_field_skip [OF f(1,2) False f(3), of s'] pre'(2) by (simp add: s' del: find_sub.simps(2))
    then have len: "length pre = length ?front" using "3.prems"(5) by simp
    have "pre @ quoted k @ rest = ?front @ quoted k @ rest'" using "3.prems"(4) pre'(1) by simp
    then have "rest = rest'" using append_eq_append_conv [of pre ?front] len by blast
    then have "render_fields (f # fs) = pre' @ quoted k @ rest" using pre'(1) by simp
    then show ?thesis by (rule "3.IH" [OF s m _ pre'(2)])
  qed
qed

text \<open>So on such objects the relay finds a value where the receiver's readers do.\<close>

lemma JsonValueStart_render:
  assumes "searchable k fs" "distinct (map fst fs)"
  shows "JsonValueStart (render_object fs) k = ValueStart (render_object fs) k"
proof (cases "map_of fs k")
  case None
  from find_field_absent [OF assms(1) None] show ?thesis
    by (simp add: JsonValueStart_def ValueStart_def render_object_def find_from_def find_quoted_other del: find_sub.simps(2))
next
  case (Some v)
  obtain pre post where f: "render_fields fs = pre @ quoted k @ CHR '':'' # render_value v @ post"
      "find_sub (quoted k) (render_fields fs) = Some (length pre)"
    using find_field_present [OF assms(1) Some] by blast
  have key: "find_from (render_object fs) (quoted k) 0 = Some (Suc (length pre))"
    using f(2) by (simp add: find_from_def render_object_def find_quoted_other del: find_sub.simps(2))
  have "drop (Suc (length pre) + length (quoted k)) (render_object fs) = CHR '':'' # render_value v @ post"
    by (simp add: render_object_def f(1) del: length_quoted)
  moreover have "find_sub (quoted k) (CHR '':'' # render_value v @ post) = None"
    by (rule find_field_once [OF assms Some f])
  ultimately have "find_from (render_object fs) (quoted k) (Suc (length pre) + length (quoted k)) = None"
    by (simp only: find_from_def) simp
  with key show ?thesis by (simp add: JsonValueStart_def ValueStart_def)
qed

lemma RelayJsonString_render:
  assumes "searchable k fs" "distinct (map fst fs)"
  shows "RelayJsonString (render_object fs) k = (case map_of fs k of Some (JStr w) \<Rightarrow> Some w | _ \<Rightarrow> None)"
proof (cases "map_of fs k")
  case None
  then show ?thesis using ValueStart_absent [OF assms(1)] by (simp add: RelayJsonString_def JsonValueStart_render [OF assms])
next
  case (Some v)
  obtain start post where st: "ValueStart (render_object fs) k = Some start"
      "start < length (render_object fs)" "drop start (render_object fs) = render_value v @ post"
    by (rule present_field [OF assms(1) Some])
  have nth: "render_object fs ! start = hd (render_value v @ post)" using st(2,3) by (metis hd_drop_conv_nth)
  show ?thesis
  proof (cases v)
    case (JStr w)
    have w: "plain w" using assms map_of_SomeD [OF Some] by (auto simp: searchable_def list_all_iff JStr)
    have "drop (start + 1) (render_object fs) = tl (render_value v @ post)"
      using st(3) by (metis drop_Suc tl_drop Suc_eq_plus1)
    then show ?thesis using st nth relay_string_loop_plain [OF w, of "[]" post] EscapeJson_plain [OF w]
      by (simp add: RelayJsonString_def JsonValueStart_render [OF assms] JStr Some quoted_def)
  next
    case (JInt i)
    obtain c t where "int_dec i = c # t" "c \<noteq> dquote" by (rule int_dec_first)
    then show ?thesis using st(1,2) nth by (simp add: RelayJsonString_def JsonValueStart_render [OF assms] JInt Some)
  qed
qed

lemma JsonUnsigned_render:
  assumes "searchable k fs" "distinct (map fst fs)" "map_of fs k = Some (JInt i)" "0 \<le> i" "i < 2 ^ 64"
  shows "JsonUnsigned (render_object fs) k = Some (nat i)"
proof -
  obtain start post where st: "ValueStart (render_object fs) k = Some start"
      "drop start (render_object fs) = render_value (JInt i) @ post"
      and post: "post \<noteq> []" "hd post = CHR '','' \<or> hd post = CHR ''}''"
    by (rule present_field [OF assms(1,3)])
  have "\<not> is_base_digit 10 (hd post)"
    using post(2) by (auto simp: is_base_digit_def digit_value_def isdigit_def islower_def isupper_def ord_def)
  moreover have "nat i \<le> 2 ^ 64 - 1" using assms(5) by simp
  ultimately have "from_chars_unsigned 10 (2 ^ 64 - 1) (dec (nat i) @ post) = Some (nat i, length (dec (nat i)))"
    by (intro from_chars_unsigned_dec) simp_all
  moreover have "render_value (JInt i) = dec (nat i)" using assms(4) by (simp add: int_dec_def)
  ultimately show ?thesis
    using st by (simp add: JsonUnsigned_def JsonValueStart_render [OF assms(1,2)] del: render_value.simps)
qed

text \<open>A key that occurs twice is refused, whatever the values.\<close>

lemma duplicate_key_refused:
  assumes "find_from json (quoted k) 0 = Some p" "find_from json (quoted k) (p + length (quoted k)) \<noteq> None"
  shows "RelayJsonString json k = None" "JsonUnsigned json k = None"
  using assms by (simp_all add: RelayJsonString_def JsonUnsigned_def JsonValueStart_def)

end
