(* ===== verification/Relay_WebSocket.thy ===== *)
theory Relay_WebSocket
  imports Relay_Protocol WebSocket Socket_Send
begin

text \<open>
  The WebSocket layer of the relay, the functions of the anonymous namespace of
  \<open>relay/src/websocket_server.cpp\<close>: blocking reads of the opening request and of frames, the
  header table, the handshake policy, reassembly, and the frames it sends.

  A routine runs on the client's socket and may throw: it returns the socket afterwards and \<open>Inl\<close>
  of the exception's message or \<open>Inr\<close> of its value. The socket is the segments that are still to
  arrive (an empty segment, or none, is a \<open>recv\<close> that returns zero or an error), the bytes sent,
  and for each blocking send what the calls of \<open>send\<close> return.
\<close>

section \<open>Routines that may throw\<close>

record ClientSocket =
  incoming :: "byte list list"
  client_out :: "byte list"
  send_scripts :: "int list list"

type_synonym 'a routine = "ClientSocket \<Rightarrow> ClientSocket \<times> 'a fallible"

definition returns :: "'a \<Rightarrow> 'a routine" where
  "returns x c = (c, Inr x)"

definition throws :: "string \<Rightarrow> 'a routine" where
  "throws what c = (c, Inl what)"

definition and_then :: "'a routine \<Rightarrow> ('a \<Rightarrow> 'b routine) \<Rightarrow> 'b routine" where
  "and_then m f c = (case m c of (c, Inl what) \<Rightarrow> (c, Inl what) | (c, Inr x) \<Rightarrow> f x c)"

definition fails_with :: "'a fallible \<Rightarrow> 'a routine" where
  "fails_with r c = (c, r)"

section \<open>Reading\<close>

definition kMaxHandshakeBytes :: nat where "kMaxHandshakeBytes = 16 * 1024"
definition kMaxWebSocketMessageBytes :: nat where
  "kMaxWebSocketMessageBytes = kLocalVideoHeaderSize + kMaxVideoPayloadBytes"

text \<open>One \<open>recv\<close> of at most \<open>n\<close> bytes; no bytes stand for a result that is not positive.\<close>

definition recv_some :: "nat \<Rightarrow> ClientSocket \<Rightarrow> ClientSocket \<times> byte list" where
  "recv_some n c =
     (case incoming c of
        [] \<Rightarrow> (c, [])
      | seg # rest \<Rightarrow> (c\<lparr>incoming := (if drop n seg = [] then rest else drop n seg # rest)\<rparr>, take n seg))"

abbreviation pending_bytes :: "ClientSocket \<Rightarrow> nat" where
  "pending_bytes c \<equiv> length (concat (incoming c))"

lemma recv_some_pending: "recv_some n c = (c', bs) \<Longrightarrow> pending_bytes c = length bs + pending_bytes c'"
  by (auto simp: recv_some_def split: list.splits if_splits)

function ReceiveExact :: "nat \<Rightarrow> byte list routine" where
  "ReceiveExact n c =
     (if n = 0 then (c, Inr [])
      else
        (case recv_some n c of
           (c', bs) \<Rightarrow>
             (if bs = [] then (c', Inl ''WebSocket connection closed'')
              else (case ReceiveExact (n - length bs) c' of
                      (c'', Inl what) \<Rightarrow> (c'', Inl what)
                    | (c'', Inr later) \<Rightarrow> (c'', Inr (bs @ later))))))"
  by pat_completeness auto
termination by (relation "measure fst") auto

declare ReceiveExact.simps [simp del]

section \<open>Sending\<close>

definition SendAll :: "byte list \<Rightarrow> unit routine" where
  "SendAll data c =
     (case send_all data (case send_scripts c of [] \<Rightarrow> [] | script # _ \<Rightarrow> script) of
        (out, ok) \<Rightarrow>
          (c\<lparr>client_out := client_out c @ out, send_scripts := tl (send_scripts c)\<rparr>,
           if ok then Inr () else Inl ''WebSocket send failed''))"

definition relay_frame :: "byte \<Rightarrow> byte list \<Rightarrow> byte list" where
  "relay_frame oc body =
     (let size = word_of_nat (length body) :: u64
      in (0x80 OR oc)
         # (if length body \<le> 125 then [ucast size]
            else if length body \<le> 0xffff then [126, ucast (drop_bit 8 size), ucast size]
            else 127 # map (\<lambda>k. ucast (drop_bit (56 - 8 * k) size)) [0..<8])
         @ body)"

definition SendFrame :: "byte \<Rightarrow> byte list \<Rightarrow> unit routine" where
  "SendFrame oc body = SendAll (relay_frame oc body)"

definition SendText :: "string \<Rightarrow> unit routine" where
  "SendText text = SendFrame 1 (bytes_of text)"

section \<open>The opening handshake\<close>

definition trim :: "string \<Rightarrow> string" where
  "trim v = rev (dropWhile isspace (rev (dropWhile isspace v)))"

function ReceiveHandshake_loop :: "string \<Rightarrow> string routine" where
  "ReceiveHandshake_loop request c =
     (if find_sub (crlf @ crlf) request \<noteq> None then (c, Inr request)
      else
        (case recv_some 1024 c of
           (c', bs) \<Rightarrow>
             (if bs = [] then (c', Inl ''WebSocket handshake connection closed'')
              else if length request + length bs > kMaxHandshakeBytes
              then (c', Inl ''WebSocket handshake exceeds 16 KiB'')
              else ReceiveHandshake_loop (request @ chars_of bs) c')))"
  by pat_completeness auto
termination
  by (relation "measure (\<lambda>(request, c). pending_bytes c)") (auto dest: recv_some_pending [OF sym])

declare ReceiveHandshake_loop.simps [simp del]

definition ReceiveHandshake :: "string routine" where
  "ReceiveHandshake = ReceiveHandshake_loop ''''"

text \<open>The header table; the first line is the request line.\<close>

type_synonym header_table = "string \<Rightarrow> string option"

definition add_header :: "string \<Rightarrow> header_table \<Rightarrow> header_table fallible" where
  "add_header line headers =
     (case find_sub '':'' line of
        None \<Rightarrow> Inl ''malformed WebSocket header''
      | Some separator \<Rightarrow>
          (let name = Lower (trim (take separator line)); v = trim (drop (separator + 1) line)
           in if name = '''' \<or> headers name \<noteq> None then Inl ''duplicate or empty WebSocket header''
              else Inr (headers(name \<mapsto> v))))"

function ParseHeaders_loop ::
    "string \<Rightarrow> nat \<Rightarrow> string option \<Rightarrow> header_table \<Rightarrow> (string \<times> header_table) fallible" where
  "ParseHeaders_loop request cursor line headers =
     (let done = Inr (case line of None \<Rightarrow> '''' | Some l \<Rightarrow> l, headers)
      in if \<not> cursor < length request then done
         else
           (case find_from request crlf cursor of
              None \<Rightarrow> done
            | Some end_pos \<Rightarrow>
                (let text = substr request cursor (end_pos - cursor)
                 in if text = '''' then done
                    else
                      (case line of
                         None \<Rightarrow> ParseHeaders_loop request (end_pos + 2) (Some text) headers
                       | Some l \<Rightarrow>
                           (case add_header text headers of
                              Inl what \<Rightarrow> Inl what
                            | Inr headers' \<Rightarrow> ParseHeaders_loop request (end_pos + 2) line headers')))))"
  by pat_completeness auto
termination
  by (relation "measure (\<lambda>(request, cursor, line, headers). length request - cursor)")
     (auto dest: find_from_SomeD)

declare ParseHeaders_loop.simps [simp del]

definition ParseHeaders :: "string \<Rightarrow> (string \<times> header_table) fallible" where
  "ParseHeaders request = ParseHeaders_loop request 0 None (\<lambda>_. None)"

definition missing_header :: string where "missing_header = ''required WebSocket header is missing''"
definition policy_rejected :: string where "policy_rejected = ''WebSocket handshake policy rejected''"

text \<open>The conditions are tried from left to right; looking up a missing header throws.\<close>

definition handshake_policy :: "string \<Rightarrow> header_table \<Rightarrow> string fallible" where
  "handshake_policy expected_origin headers =
     (case headers ''upgrade'' of
        None \<Rightarrow> Inl missing_header
      | Some upgrade \<Rightarrow>
     (if Lower upgrade \<noteq> ''websocket'' then Inl policy_rejected
      else case headers ''connection'' of
        None \<Rightarrow> Inl missing_header
      | Some connection \<Rightarrow>
     (if find_sub ''upgrade'' (Lower connection) = None then Inl policy_rejected
      else case headers ''sec-websocket-version'' of
        None \<Rightarrow> Inl missing_header
      | Some version \<Rightarrow>
     (if version \<noteq> ''13'' then Inl policy_rejected
      else case headers ''origin'' of
        None \<Rightarrow> Inl missing_header
      | Some origin \<Rightarrow>
     (if origin \<noteq> expected_origin then Inl policy_rejected
      else case headers ''sec-websocket-key'' of
        None \<Rightarrow> Inl missing_header
      | Some key \<Rightarrow> Inr key)))))"

definition upgrade_response :: "string \<Rightarrow> string" where
  "upgrade_response accept =
     ''HTTP/1.1 101 Switching Protocols'' @ crlf @ ''Upgrade: websocket'' @ crlf @ ''Connection: Upgrade'' @ crlf
     @ ''Sec-WebSocket-Accept: '' @ accept @ crlf @ crlf"

definition handshake_accept :: "(string \<Rightarrow> string fallible) \<Rightarrow> string \<Rightarrow> string \<Rightarrow> string fallible" where
  "handshake_accept create_accept expected_origin request =
     (case ParseHeaders request of
        Inl what \<Rightarrow> Inl what
      | Inr (line, headers) \<Rightarrow>
          (if line \<noteq> ''GET /capture HTTP/1.1'' then Inl ''unexpected WebSocket request target''
           else (case handshake_policy expected_origin headers of
                   Inl what \<Rightarrow> Inl what
                 | Inr key \<Rightarrow> create_accept key)))"

definition PerformHandshake :: "(string \<Rightarrow> string fallible) \<Rightarrow> string \<Rightarrow> unit routine" where
  "PerformHandshake create_accept expected_origin =
     and_then ReceiveHandshake (\<lambda>request.
     and_then (fails_with (handshake_accept create_accept expected_origin request)) (\<lambda>accept.
     SendAll (bytes_of (upgrade_response accept))))"

section \<open>Frames\<close>

record WebSocketFrame =
  final :: bool
  ws_opcode :: byte
  ws_payload :: "byte list"

definition ReadBigEndianLength :: "byte list \<Rightarrow> u64" where
  "ReadBigEndianLength bs = foldl (\<lambda>result v. push_bit 8 result OR ucast v) 0 bs"

text \<open>The payload length, from the seven bits of the second byte and what follows.\<close>

definition ReceiveLength :: "byte \<Rightarrow> u64 routine" where
  "ReceiveLength short =
     (if short = 126 then and_then (ReceiveExact 2) (\<lambda>extended. returns (ReadBigEndianLength extended))
      else if short = 127
      then and_then (ReceiveExact 8) (\<lambda>extended.
             if extended ! 0 AND 0x80 \<noteq> 0 then throws ''invalid WebSocket 64-bit length''
             else returns (ReadBigEndianLength extended))
      else returns (ucast short))"

definition ReceivePayload :: "bool \<Rightarrow> byte \<Rightarrow> nat \<Rightarrow> WebSocketFrame routine" where
  "ReceivePayload fin_bit oc n =
     (if n > kMaxWebSocketMessageBytes then throws ''WebSocket message exceeds local limit''
      else if oc \<ge> 8 \<and> n > 125 then throws ''WebSocket control frame is too large''
      else if oc \<ge> 8 \<and> \<not> fin_bit then throws ''WebSocket control frame is fragmented''
      else
        and_then (ReceiveExact 4) (\<lambda>mask.
        and_then (ReceiveExact n) (\<lambda>body.
        returns \<lparr>final = fin_bit, ws_opcode = oc,
                 ws_payload = map (\<lambda>index. body ! index XOR mask ! (index mod 4)) [0..<length body]\<rparr>)))"

definition ReceiveFrame :: "WebSocketFrame routine" where
  "ReceiveFrame =
     and_then (ReceiveExact 2) (\<lambda>header.
       (let oc = header ! 0 AND 0x0F
        in if header ! 0 AND 0x70 \<noteq> 0 \<or> header ! 1 AND 0x80 = 0 then throws ''unsupported WebSocket frame flags''
           else if oc \<noteq> 0 \<and> oc \<noteq> 1 \<and> oc \<noteq> 2 \<and> oc \<noteq> 8 \<and> oc \<noteq> 9 \<and> oc \<noteq> 0xA
           then throws ''unsupported WebSocket opcode''
           else and_then (ReceiveLength (header ! 1 AND 0x7F))
                  (\<lambda>n. ReceivePayload (header ! 0 AND 0x80 \<noteq> 0) oc (unat n))))"

section \<open>Messages\<close>

lemma ReceiveExact_pending: "ReceiveExact n c = (c', Inr bs) \<Longrightarrow> length bs = n \<and> pending_bytes c = n + pending_bytes c'"
proof (induction n c arbitrary: bs rule: ReceiveExact.induct)
  case (1 n c)
  obtain d ds where r: "recv_some n c = (d, ds)" by fastforce
  show ?case
  proof (cases "n = 0 \<or> ds = []")
    case True
    then show ?thesis using 1(2) r by (subst (asm) ReceiveExact.simps) (auto split: if_splits)
  next
    case False
    then obtain later where m: "ReceiveExact (n - length ds) d = (c', Inr later)" "bs = ds @ later"
      using 1(2) r by (subst (asm) ReceiveExact.simps) (auto split: prod.splits sum.splits)
    have "length ds \<le> n" using r by (auto simp: recv_some_def split: list.splits)
    then show ?thesis
      using 1(1) [OF _ r [symmetric], of later] False m recv_some_pending [OF r] by simp
  qed
qed

lemma and_then_InrE:
  assumes "and_then m f c = (c', Inr y)"
  obtains d x where "m c = (d, Inr x)" "f x d = (c', Inr y)"
  using assms by (auto simp: and_then_def split: prod.splits sum.splits)

lemma ReceiveLength_pending: "ReceiveLength short c = (c', Inr n) \<Longrightarrow> pending_bytes c' \<le> pending_bytes c"
  by (auto simp: ReceiveLength_def returns_def throws_def elim!: and_then_InrE dest!: ReceiveExact_pending split: if_splits)

lemma ReceivePayload_pending: "ReceivePayload b oc n c = (c', Inr f) \<Longrightarrow> pending_bytes c' \<le> pending_bytes c"
  by (auto simp: ReceivePayload_def returns_def throws_def elim!: and_then_InrE dest!: ReceiveExact_pending split: if_splits)

lemma ReceiveFrame_pending: "ReceiveFrame c = (c', Inr f) \<Longrightarrow> pending_bytes c' < pending_bytes c"
  unfolding ReceiveFrame_def Let_def
  by (auto simp: throws_def elim!: and_then_InrE dest!: ReceiveExact_pending ReceiveLength_pending ReceivePayload_pending
      split: if_splits)

lemma SendFrame_incoming: "SendFrame oc body c = (c', r) \<Longrightarrow> incoming c' = incoming c"
  by (auto simp: SendFrame_def SendAll_def split: prod.splits)

text \<open>The loop of \<open>ReceiveMessage\<close>; the opcode is zero before the first data frame.\<close>

function ReceiveMessage_loop :: "byte \<Rightarrow> byte list \<Rightarrow> WebSocketFrame routine" where
  "ReceiveMessage_loop message_opcode body c =
     (case ReceiveFrame c of
        (c', Inl what) \<Rightarrow> (c', Inl what)
      | (c', Inr f) \<Rightarrow>
          (if ws_opcode f = 8 then (c', Inr f)
           else if ws_opcode f = 9 then
             (case SendFrame 0xA (ws_payload f) c' of
                (c'', Inl what) \<Rightarrow> (c'', Inl what)
              | (c'', Inr _) \<Rightarrow> ReceiveMessage_loop message_opcode body c'')
           else if ws_opcode f = 0xA then ReceiveMessage_loop message_opcode body c'
           else if ws_opcode f = 0 \<and> message_opcode = 0
           then (c', Inl ''WebSocket continuation has no initial frame'')
           else if ws_opcode f \<noteq> 0 \<and> message_opcode \<noteq> 0
           then (c', Inl ''WebSocket data frame interrupted a fragmented message'')
           else if length (ws_payload f) > kMaxWebSocketMessageBytes - length body
           then (c', Inl ''fragmented WebSocket message exceeds local limit'')
           else
             (let oc = (if ws_opcode f = 0 then message_opcode else ws_opcode f)
              in if final f then (c', Inr \<lparr>final = True, ws_opcode = oc, ws_payload = body @ ws_payload f\<rparr>)
                 else ReceiveMessage_loop oc (body @ ws_payload f) c')))"
  by pat_completeness auto
termination
  by (relation "measure (\<lambda>(message_opcode, body, c). pending_bytes c)")
     (auto dest!: ReceiveFrame_pending [OF sym] SendFrame_incoming [OF sym])

declare ReceiveMessage_loop.simps [simp del]

definition ReceiveMessage :: "WebSocketFrame routine" where
  "ReceiveMessage = ReceiveMessage_loop 0 []"

section \<open>Reading does not depend on the segments\<close>

definition delivers :: "ClientSocket \<Rightarrow> byte list \<Rightarrow> bool" where
  "delivers c bs \<longleftrightarrow> [] \<notin> set (incoming c) \<and> concat (incoming c) = bs"

text \<open>Nothing but the input has changed.\<close>

definition only_read :: "ClientSocket \<Rightarrow> ClientSocket \<Rightarrow> bool" where
  "only_read c' c \<longleftrightarrow> client_out c' = client_out c \<and> send_scripts c' = send_scripts c"

lemma only_read_refl [simp]: "only_read c c"
  by (simp add: only_read_def)

lemma only_read_trans [trans]: "only_read a b \<Longrightarrow> only_read b c \<Longrightarrow> only_read a c"
  by (simp add: only_read_def)

lemma recv_some_delivers:
  assumes "delivers c (a @ b)" "a \<noteq> []"
  obtains c' ds a' where "recv_some (length a) c = (c', ds)" "ds \<noteq> []" "a = ds @ a'" "delivers c' (a' @ b)" "only_read c' c"
proof -
  obtain seg segs where c: "incoming c = seg # segs" "seg \<noteq> []" "[] \<notin> set segs" "seg @ concat segs = a @ b"
    using assms by (cases "incoming c") (auto simp: delivers_def)
  let ?n = "length a"
  have r: "recv_some ?n c = (c\<lparr>incoming := (if drop ?n seg = [] then segs else drop ?n seg # segs)\<rparr>, take ?n seg)"
    by (simp add: recv_some_def c(1))
  have "take ?n seg = take (length (take ?n seg)) (seg @ concat segs)" by (simp add: min_def)
  also have "\<dots> = take (length (take ?n seg)) a" unfolding c(4) by simp
  finally have a: "a = take ?n seg @ drop (length (take ?n seg)) a" by (metis append_take_drop_id)
  have "concat (if drop ?n seg = [] then segs else drop ?n seg # segs) = drop (length (take ?n seg)) (seg @ concat segs)"
    by auto
  also have "\<dots> = drop (length (take ?n seg)) a @ b" unfolding c(4) by simp
  finally have "concat (if drop ?n seg = [] then segs else drop ?n seg # segs) = drop (length (take ?n seg)) a @ b" .
  then have "delivers (c\<lparr>incoming := (if drop ?n seg = [] then segs else drop ?n seg # segs)\<rparr>) (drop (length (take ?n seg)) a @ b)"
    using c(3) by (simp add: delivers_def)
  moreover have "take ?n seg \<noteq> []" using assms(2) c(2) by simp
  ultimately show thesis using that [OF r _ a] by (simp add: only_read_def)
qed

lemma ReceiveExact_delivers:
  "delivers c (a @ b) \<Longrightarrow> \<exists>c'. ReceiveExact (length a) c = (c', Inr a) \<and> delivers c' b \<and> only_read c' c"
proof (induction "length a" arbitrary: a c rule: less_induct)
  case less
  show ?case
  proof (cases "a = []")
    case True
    then show ?thesis using less.prems by (subst ReceiveExact.simps) simp
  next
    case False
    then obtain c1 ds a' where r: "recv_some (length a) c = (c1, ds)" "ds \<noteq> []" "a = ds @ a'" "delivers c1 (a' @ b)" "only_read c1 c"
      using recv_some_delivers [OF less.prems] by metis
    from less.hyps [OF _ r(4)] r(2,3) obtain c2
      where "ReceiveExact (length a') c1 = (c2, Inr a')" "delivers c2 b" "only_read c2 c1" by auto
    moreover have "length a - length ds = length a'" using r(3) by simp
    ultimately have "ReceiveExact (length a) c = (c2, Inr a)"
      using r(1-3) False by (subst ReceiveExact.simps) simp
    then show ?thesis using \<open>delivers c2 b\<close> only_read_trans [OF \<open>only_read c2 c1\<close> r(5)] by blast
  qed
qed

text \<open>The other direction: bytes that do not come make the read throw.\<close>

lemma ReceiveExact_short:
  "delivers c a \<Longrightarrow> length a < n \<Longrightarrow> \<exists>c'. ReceiveExact n c = (c', Inl ''WebSocket connection closed'')"
proof (induction "length a" arbitrary: a c n rule: less_induct)
  case less
  have n: "n \<noteq> 0" using less.prems(2) by simp
  show ?case
  proof (cases "a = []")
    case True
    then have "incoming c = []" using less.prems(1) by (cases "incoming c") (auto simp: delivers_def)
    then show ?thesis using n by (subst ReceiveExact.simps) (simp add: recv_some_def)
  next
    case False
    then obtain seg segs where c: "incoming c = seg # segs" "seg \<noteq> []" "[] \<notin> set segs" "seg @ concat segs = a"
      using less.prems(1) by (cases "incoming c") (auto simp: delivers_def)
    have len: "length seg \<le> length a" using arg_cong [OF c(4), of length] by simp
    then have r: "recv_some n c = (c\<lparr>incoming := segs\<rparr>, seg)" using less.prems(2) by (simp add: recv_some_def c(1))
    have d: "delivers (c\<lparr>incoming := segs\<rparr>) (concat segs)" using c(3) by (simp add: delivers_def)
    have "length (concat segs) < length a" "length (concat segs) < n - length seg"
      using arg_cong [OF c(4), of length] c(2) less.prems(2) by (cases seg; simp)+
    from less.hyps [OF this(1) d this(2)] obtain c'
      where "ReceiveExact (n - length seg) (c\<lparr>incoming := segs\<rparr>) = (c', Inl ''WebSocket connection closed'')" by blast
    then show ?thesis using n r c(2) by (subst ReceiveExact.simps) simp
  qed
qed

section \<open>Frames of a client\<close>

lemma ReadBigEndianLength_put64: "ReadBigEndianLength (be_put64 v) = v"
proof -
  have "ReadBigEndianLength bs = be_get64 bs 0" if "length bs = 8" for bs
  proof -
    have "bs = map (\<lambda>k. bs ! (0 + k)) [0..<8]" using that by (intro nth_equalityI) simp_all
    then have "ReadBigEndianLength bs = ReadBigEndianLength (map (\<lambda>k. bs ! (0 + k)) [0..<8])" by (rule arg_cong)
    also have "\<dots> = be_get64 bs 0" by (simp add: ReadBigEndianLength_def be_get64_def foldl_map del: upt_rec_numeral)
    finally show ?thesis .
  qed
  then have "ReadBigEndianLength (be_put64 v) = be_get64 (be_put64 v) 0" by simp
  also have "\<dots> = v" by (rule be_get64_layout) simp
  finally show ?thesis .
qed

lemma ReadBigEndianLength_put16: "ReadBigEndianLength (be_put16 v) = ucast v"
proof -
  have join: "push_bit 8 (push_bit 8 0 OR ucast a) OR ucast b = (ucast (push_bit 8 (ucast a) OR ucast b :: u16) :: u64)" for a b :: byte
    by (rule bit_word_eqI) (auto simp: bit_simps dest: byte_bit_len)
  have "ReadBigEndianLength (be_put16 v) = ucast (be_get16 (be_put16 v) 0)"
    unfolding ReadBigEndianLength_def be_get16_def be_put16_def using join by simp
  also have "be_get16 (be_put16 v) 0 = v" by (rule be_get16_layout) simp
  finally show ?thesis .
qed

lemma top_bit_clear:
  assumes "n < 2 ^ 63"
  shows "be_put64 (word_of_nat n) ! 0 AND 0x80 = 0"
proof -
  have "take_bit 63 n = n" using assms by (simp add: take_bit_nat_eq_self)
  then have "(word_of_nat n :: u64) = take_bit 63 (word_of_nat n)" by (metis take_bit_of_nat)
  then have "\<not> bit (word_of_nat n :: u64) 63" by (metis bit_take_bit_iff less_irrefl)
  then have low: "\<not> bit (be_put64 (word_of_nat n) ! 0) 7" by (simp add: be_put64_def bit_simps del: bit_of_nat_iff_bit)
  have bits: "bit (0x80 :: byte) i \<longleftrightarrow> i = 7" for i
    using bit_exp_iff [of 7 i, where 'a = byte] by (auto simp: possible_bit_def)
  show ?thesis using low by (intro bit_word_eqI) (auto simp: bits bit_and_iff simp del: bit_numeral_word_iff)
qed

lemma and_then_reads:
  assumes "delivers c (a @ b)" "n = length a"
  obtains c' where "and_then (ReceiveExact n) f c = f a c'" "delivers c' b" "only_read c' c"
  using ReceiveExact_delivers [OF assms(1)] assms(2) that by (auto simp: and_then_def)

text \<open>The length field, read in two parts: the byte that the header ends with and the extension.\<close>

lemma ReceiveLength_field:
  assumes "n < 2 ^ 63" "delivers c (tl (length_field 0x80 n) @ b)"
  shows "\<exists>c'. ReceiveLength (hd (length_field 0x80 n) AND 0x7F) c = (c', Inr (word_of_nat n)) \<and> delivers c' b \<and> only_read c' c"
proof -
  consider "n \<le> 125" | "125 < n" "n \<le> 0xffff" | "0xffff < n" by linarith
  then show ?thesis
  proof cases
    case 1
    then have lt: "n < 128" by simp
    have ne: "(word_of_nat n :: byte) \<noteq> 126" "(word_of_nat n :: byte) \<noteq> 127"
      using second_byte(3) [OF lt, of "0x80"] 1 by (auto dest: arg_cong [of _ _ unat])
    have "ucast (word_of_nat n :: byte) = (word_of_nat n :: u64)"
      using 1 by (simp add: unsigned_of_nat take_bit_nat_eq_self)
    then show ?thesis
      using 1 ne second_byte(2) [OF lt, of "0x80"] assms(2) by (simp add: ReceiveLength_def length_field_def returns_def)
  next
    case 2
    then have "delivers c (be_put16 (word_of_nat n) @ b)" using assms(2) by (simp add: length_field_def)
    then obtain c' where c': "and_then (ReceiveExact 2) (\<lambda>extended. returns (ReadBigEndianLength extended)) c =
        returns (ReadBigEndianLength (be_put16 (word_of_nat n))) c'" "delivers c' b" "only_read c' c"
      by (rule and_then_reads) simp_all
    have "ReadBigEndianLength (be_put16 (word_of_nat n)) = word_of_nat n"
      using 2 by (simp add: ReadBigEndianLength_put16 unsigned_of_nat take_bit_nat_eq_self)
    then show ?thesis using 2 c' by (auto simp: ReceiveLength_def length_field_def returns_def)
  next
    case 3
    then have "delivers c (be_put64 (word_of_nat n) @ b)" using assms(2) by (simp add: length_field_def)
    then obtain c' where c': "and_then (ReceiveExact 8) (\<lambda>extended. if extended ! 0 AND 0x80 \<noteq> 0
          then throws ''invalid WebSocket 64-bit length'' else returns (ReadBigEndianLength extended)) c =
        (if be_put64 (word_of_nat n) ! 0 AND 0x80 \<noteq> 0 then throws ''invalid WebSocket 64-bit length''
         else returns (ReadBigEndianLength (be_put64 (word_of_nat n)))) c'" "delivers c' b" "only_read c' c"
      by (rule and_then_reads) simp_all
    then show ?thesis using 3 top_bit_clear [OF assms(1)]
      by (auto simp: ReceiveLength_def length_field_def returns_def ReadBigEndianLength_put64)
  qed
qed

definition frame_of :: "Frame \<Rightarrow> WebSocketFrame" where
  "frame_of f = \<lparr>final = fin f, ws_opcode = opcode_value (frame_opcode f), ws_payload = frame_payload f\<rparr>"

definition relay_refuses :: "Frame \<Rightarrow> bool" where
  "relay_refuses f \<longleftrightarrow> (\<exists>b. frame_opcode f = kReserved b) \<or> length (frame_payload f) > kMaxWebSocketMessageBytes \<or>
     control_opcode (frame_opcode f) \<and> (\<not> fin f \<or> length (frame_payload f) > 125)"

lemma known_opcode:
  assumes "wf_frame f"
  defines "oc \<equiv> opcode_value (frame_opcode f)"
  shows "oc \<noteq> 0 \<and> oc \<noteq> 1 \<and> oc \<noteq> 2 \<and> oc \<noteq> 8 \<and> oc \<noteq> 9 \<and> oc \<noteq> 0xA \<longleftrightarrow> (\<exists>b. frame_opcode f = kReserved b)"
  unfolding oc_def by (rule opcode_cases [OF assms(1)]) (auto simp: opcode_value_def)

lemma ReceivePayload_frame:
  assumes "wf_frame f" "delivers c (masking_key f @ unmask (masking_key f) (frame_payload f) @ b)"
    and "\<not> (length (frame_payload f) > kMaxWebSocketMessageBytes \<or> control_opcode (frame_opcode f) \<and> (\<not> fin f \<or> length (frame_payload f) > 125))"
  shows "\<exists>c'. ReceivePayload (fin f) (opcode_value (frame_opcode f)) (length (frame_payload f)) c = (c', Inr (frame_of f)) \<and>
    delivers c' b \<and> only_read c' c"
proof -
  have key: "length (masking_key f) = 4" using assms(1) by (simp add: wf_frame_def)
  let ?masked = "unmask (masking_key f) (frame_payload f)" and ?oc = "opcode_value (frame_opcode f)"
  define build where "build = (\<lambda>mask body. (returns \<lparr>final = fin f, ws_opcode = ?oc,
    ws_payload = map (\<lambda>index. body ! index XOR mask ! (index mod 4)) [0..<length body]\<rparr> :: WebSocketFrame routine))"
  obtain c1 where c1: "and_then (ReceiveExact 4) (\<lambda>mask. and_then (ReceiveExact (length (frame_payload f))) (build mask)) c =
      and_then (ReceiveExact (length (frame_payload f))) (build (masking_key f)) c1" "delivers c1 (?masked @ b)" "only_read c1 c"
    by (rule and_then_reads [OF assms(2)]) (use key in simp_all)
  obtain c2 where c2: "and_then (ReceiveExact (length (frame_payload f))) (build (masking_key f)) c1 = build (masking_key f) ?masked c2"
      "delivers c2 b" "only_read c2 c1"
    by (rule and_then_reads [OF c1(2)]) simp_all
  have "ReceivePayload (fin f) ?oc (length (frame_payload f)) c =
      and_then (ReceiveExact 4) (\<lambda>mask. and_then (ReceiveExact (length (frame_payload f))) (build mask)) c"
    using assms(3) by (auto simp: ReceivePayload_def control_opcode_def build_def)
  moreover have "build (masking_key f) ?masked c2 = (c2, Inr (frame_of f))"
    using unmask_unmask [OF key, of "frame_payload f"] by (simp add: build_def returns_def frame_of_def unmask_def [of _ ?masked])
  ultimately show ?thesis using c1(1) c2 only_read_trans [OF c2(3) c1(3)] by simp
qed

text \<open>A frame of the client is read as it is, or refused.\<close>

lemma ReceiveFrame_client:
  assumes "wf_frame f" "delivers c (client_frame f @ rest)"
  shows "\<exists>c'. only_read c' c \<and> (if relay_refuses f then \<exists>what. ReceiveFrame c = (c', Inl what)
      else ReceiveFrame c = (c', Inr (frame_of f)) \<and> delivers c' rest)"
proof -
  let ?n = "length (frame_payload f)" and ?oc = "opcode_value (frame_opcode f)"
  let ?b0 = "(if fin f then 0x80 else 0) OR ?oc" and ?lf = "length_field 0x80 (length (frame_payload f))"
  let ?tail = "masking_key f @ unmask (masking_key f) (frame_payload f) @ rest"
  note lf = length_field_first [of "0x80" ?n, simplified]
  have n: "?n < 2 ^ 63" using assms(1) by (simp add: wf_frame_def)
  have unat_n: "unat (word_of_nat ?n :: u64) = ?n" using n by (simp add: unat_of_nat)
  have "client_frame f @ rest = [?b0, hd ?lf] @ (tl ?lf @ ?tail)"
    using lf(1) by (simp add: client_frame_def)
  then have d: "delivers c ([?b0, hd ?lf] @ (tl ?lf @ ?tail))" using assms(2) by simp
  define after where "after = (\<lambda>header :: byte list. (let oc = header ! 0 AND 0x0F
        in if header ! 0 AND 0x70 \<noteq> 0 \<or> header ! 1 AND 0x80 = 0 then throws ''unsupported WebSocket frame flags''
           else if oc \<noteq> 0 \<and> oc \<noteq> 1 \<and> oc \<noteq> 2 \<and> oc \<noteq> 8 \<and> oc \<noteq> 9 \<and> oc \<noteq> 0xA
           then throws ''unsupported WebSocket opcode''
           else and_then (ReceiveLength (header ! 1 AND 0x7F))
                  (\<lambda>n. ReceivePayload (header ! 0 AND 0x80 \<noteq> 0) oc (unat n))) :: WebSocketFrame routine)"
  obtain c1 where c1: "and_then (ReceiveExact 2) after c = after [?b0, hd ?lf] c1" "delivers c1 (tl ?lf @ ?tail)" "only_read c1 c"
    by (rule and_then_reads [OF d, of 2 after]) simp_all
  have frame: "ReceiveFrame c = after [?b0, hd ?lf] c1" using c1(1) by (simp add: ReceiveFrame_def after_def)
  note fb = first_byte [OF assms(1)]
  have mask: "hd ?lf AND 0x80 \<noteq> 0" using lf(2) by simp
  show ?thesis
  proof (cases "\<exists>b. frame_opcode f = kReserved b")
    case True
    then have "after [?b0, hd ?lf] c1 = (c1, Inl ''unsupported WebSocket opcode'')"
      using known_opcode [OF assms(1)] fb mask by (simp add: after_def Let_def throws_def)
    then show ?thesis using frame c1(3) True by (auto simp: relay_refuses_def)
  next
    case False
    obtain c2 where c2: "ReceiveLength (hd ?lf AND 0x7F) c1 = (c2, Inr (word_of_nat ?n))" "delivers c2 ?tail" "only_read c2 c1"
      using ReceiveLength_field [OF n c1(2)] by blast
    have payload: "after [?b0, hd ?lf] c1 = ReceivePayload (fin f) ?oc ?n c2"
      using False known_opcode [OF assms(1)] fb mask c2(1) by (auto simp: after_def Let_def and_then_def unat_n)
    note read2 = only_read_trans [OF c2(3) c1(3)]
    show ?thesis
    proof (cases "relay_refuses f")
      case True
      then have "\<exists>what. ReceivePayload (fin f) ?oc ?n c2 = (c2, Inl what)"
        using False by (auto simp: relay_refuses_def ReceivePayload_def control_opcode_def throws_def)
      then show ?thesis using frame payload read2 True by auto
    next
      case ok: False
      then obtain c3 where "ReceivePayload (fin f) ?oc ?n c2 = (c3, Inr (frame_of f))" "delivers c3 rest" "only_read c3 c2"
        using ReceivePayload_frame [OF assms(1) c2(2)] by (auto simp: relay_refuses_def)
      then show ?thesis using frame payload read2 ok only_read_trans by (intro exI [of _ c3]) auto
    qed
  qed
qed

section \<open>Sending succeeds while the script does\<close>

definition writable :: "nat \<Rightarrow> ClientSocket \<Rightarrow> bool" where
  "writable k c \<longleftrightarrow> k \<le> length (send_scripts c) \<and> list_all (\<lambda>s. \<exists>n. s = [n] \<and> 2 ^ 30 \<le> n) (take k (send_scripts c))"

lemma SendAll_writable:
  assumes "writable (Suc k) c" "length data \<le> 2 ^ 30" "data \<noteq> []"
  shows "SendAll data c = (c\<lparr>client_out := client_out c @ data, send_scripts := tl (send_scripts c)\<rparr>, Inr ())"
    "writable k (c\<lparr>client_out := client_out c @ data, send_scripts := tl (send_scripts c)\<rparr>)"
proof -
  obtain n scripts where s: "send_scripts c = [n] # scripts" "2 ^ 30 \<le> n"
    using assms(1) by (cases "send_scripts c") (auto simp: writable_def)
  have "send_all data [n] = (data, True)"
    using assms(2,3) s(2) by (intro send_all_once) (simp_all add: order_trans)
  then show "SendAll data c = (c\<lparr>client_out := client_out c @ data, send_scripts := tl (send_scripts c)\<rparr>, Inr ())"
    by (simp add: SendAll_def s(1))
  show "writable k (c\<lparr>client_out := client_out c @ data, send_scripts := tl (send_scripts c)\<rparr>)"
    using assms(1) s(1) by (simp add: writable_def)
qed

section \<open>Messages of a client\<close>

text \<open>
  What the automaton of RFC 6455 hands to the application: the next message that is no ping or
  pong, the pings to answer before it, and the frames behind it. None means that the automaton
  refuses a frame or that the frames end before a message is complete.
\<close>

fun next_message :: "nat \<Rightarrow> assembly \<Rightarrow> Frame list \<Rightarrow> (Message \<times> byte list list \<times> Frame list) option" where
  "next_message limit st [] = None"
| "next_message limit st (f # fs) =
     (case assemble_frame limit st f of
        None \<Rightarrow> None
      | Some (st', []) \<Rightarrow> next_message limit st' fs
      | Some (st', m # _) \<Rightarrow>
          (if opcode m = kPing
           then map_option (\<lambda>(m', pings, later). (m', WebSocket.payload m # pings, later)) (next_message limit st' fs)
           else if opcode m = kPong then next_message limit st' fs
           else Some (m, [], fs)))"

definition message_frame :: "Message \<Rightarrow> WebSocketFrame" where
  "message_frame m = \<lparr>final = True, ws_opcode = opcode_value (opcode m), ws_payload = WebSocket.payload m\<rparr>"

definition assembling :: "assembly \<Rightarrow> byte" where
  "assembling st = (case st of None \<Rightarrow> 0 | Some (oc, _) \<Rightarrow> opcode_value oc)"

definition assembled :: "assembly \<Rightarrow> byte list" where
  "assembled st = (case st of None \<Rightarrow> [] | Some (_, body) \<Rightarrow> body)"

definition assembly_ok :: "assembly \<Rightarrow> bool" where
  "assembly_ok st \<longleftrightarrow> (case st of None \<Rightarrow> True
     | Some (oc, body) \<Rightarrow> (oc = kText \<or> oc = kBinary) \<and> length body \<le> kMaxWebSocketMessageBytes)"

lemma assemble_frame_ok:
  assumes "assemble_frame kMaxWebSocketMessageBytes st f = Some (st', ms)" "assembly_ok st" "wf_frame f"
  shows "assembly_ok st'"
  using assms(1,2)
  by (auto simp: assemble_frame.simps assembly_ok_def control_opcode_def opcode_value_def word_le_nat_alt
      split: if_splits Opcode.splits option.splits prod.splits)

text \<open>One frame: the relay does what the automaton does.\<close>

lemma ReceiveMessage_refused:
  assumes "wf_frame f" "assembly_ok st" "delivers c (client_frame f @ rest)"
    and "assemble_frame kMaxWebSocketMessageBytes st f = None"
  shows "\<exists>c' what. ReceiveMessage_loop (assembling st) (assembled st) c = (c', Inl what)"
proof (cases "relay_refuses f")
  case True
  then obtain c' what where "ReceiveFrame c = (c', Inl what)"
    using ReceiveFrame_client [OF assms(1,3)] by auto
  then show ?thesis by (subst ReceiveMessage_loop.simps) simp
next
  case False
  then obtain c1 where c1: "ReceiveFrame c = (c1, Inr (frame_of f))" using ReceiveFrame_client [OF assms(1,3)] by auto
  show ?thesis
    by (rule opcode_cases [OF assms(1)]; subst ReceiveMessage_loop.simps)
       (use assms(2,4) False c1 in \<open>auto simp: frame_of_def relay_refuses_def assemble_frame.simps opcode_value_def
          assembling_def assembled_def assembly_ok_def control_opcode_def word_le_nat_alt split: option.splits if_splits\<close>)
qed

lemma ReceiveMessage_frame:
  assumes "wf_frame f" "assembly_ok st" "delivers c (client_frame f @ rest)"
    and "assemble_frame kMaxWebSocketMessageBytes st f = Some (st', ms)"
  obtains c1 where "delivers c1 rest" "only_read c1 c"
    "ms = [] \<Longrightarrow> ReceiveMessage_loop (assembling st) (assembled st) c = ReceiveMessage_loop (assembling st') (assembled st') c1"
    "\<And>m. ms = [m] \<Longrightarrow> opcode m = kPing \<Longrightarrow> length (WebSocket.payload m) \<le> 125 \<and>
      ReceiveMessage_loop (assembling st) (assembled st) c =
        and_then (SendFrame 0xA (WebSocket.payload m)) (\<lambda>_. ReceiveMessage_loop (assembling st') (assembled st')) c1"
    "\<And>m. ms = [m] \<Longrightarrow> opcode m = kPong \<Longrightarrow>
      ReceiveMessage_loop (assembling st) (assembled st) c = ReceiveMessage_loop (assembling st') (assembled st') c1"
    "\<And>m. ms = [m] \<Longrightarrow> opcode m \<noteq> kPing \<Longrightarrow> opcode m \<noteq> kPong \<Longrightarrow>
      ReceiveMessage_loop (assembling st) (assembled st) c = (c1, Inr (message_frame m))"
    "length ms \<le> 1"
proof -
  have ok: "\<not> relay_refuses f"
    using assms(4) by (auto simp: relay_refuses_def assemble_frame.simps split: if_splits)
  then obtain c1 where c1: "ReceiveFrame c = (c1, Inr (frame_of f))" "delivers c1 rest" "only_read c1 c"
    using ReceiveFrame_client [OF assms(1,3)] by auto
  note loop = ReceiveMessage_loop.simps [of "assembling st" "assembled st" c]
  note defs = frame_of_def assemble_frame.simps opcode_value_def assembling_def assembled_def assembly_ok_def
    control_opcode_def message_frame_def and_then_def word_le_nat_alt
  show thesis
  proof (rule that [OF c1(2,3)])
    show "ms = [] \<Longrightarrow> ReceiveMessage_loop (assembling st) (assembled st) c = ReceiveMessage_loop (assembling st') (assembled st') c1"
      by (rule opcode_cases [OF assms(1)]; subst loop)
         (use assms(2,4) c1(1) in \<open>auto simp: defs split: option.splits if_splits\<close>)
    show "length (WebSocket.payload m) \<le> 125 \<and> ReceiveMessage_loop (assembling st) (assembled st) c =
        and_then (SendFrame 0xA (WebSocket.payload m)) (\<lambda>_. ReceiveMessage_loop (assembling st') (assembled st')) c1"
      if "ms = [m]" "opcode m = kPing" for m
      by (rule opcode_cases [OF assms(1)]; subst loop)
         (use assms(2,4) c1(1) that in \<open>auto simp: defs split: option.splits if_splits prod.splits sum.splits\<close>)
    show "ReceiveMessage_loop (assembling st) (assembled st) c = ReceiveMessage_loop (assembling st') (assembled st') c1"
      if "ms = [m]" "opcode m = kPong" for m
      by (rule opcode_cases [OF assms(1)]; subst loop)
         (use assms(2,4) c1(1) that in \<open>auto simp: defs split: option.splits if_splits\<close>)
    show "ReceiveMessage_loop (assembling st) (assembled st) c = (c1, Inr (message_frame m))"
      if "ms = [m]" "opcode m \<noteq> kPing" "opcode m \<noteq> kPong" for m
      by (rule opcode_cases [OF assms(1)]; subst loop)
         (use assms(2,4) c1(1) that in \<open>auto simp: defs split: option.splits if_splits\<close>)
    show "length ms \<le> 1" using assms(4) by (auto simp: assemble_frame.simps split: if_splits Opcode.splits option.splits prod.splits)
  qed
qed

lemma writable_only_read: "only_read c' c \<Longrightarrow> writable k c' = writable k c"
  by (simp add: writable_def only_read_def)

lemma SendFrame_writable:
  assumes "writable (Suc k) c" "length body \<le> 2 ^ 29"
  obtains c' where "SendFrame oc body c = (c', Inr ())" "client_out c' = client_out c @ relay_frame oc body"
    "writable k c'" "incoming c' = incoming c" "send_scripts c' = tl (send_scripts c)"
proof -
  have "length (relay_frame oc body) \<le> 2 ^ 30" "relay_frame oc body \<noteq> []"
    using assms(2) by (simp_all add: relay_frame_def Let_def)
  from SendAll_writable [OF assms(1) this] show thesis
    by (intro that [of "c\<lparr>client_out := client_out c @ relay_frame oc body, send_scripts := tl (send_scripts c)\<rparr>"])
       (simp_all add: SendFrame_def)
qed

lemma ReceiveMessage_next:
  assumes "next_message kMaxWebSocketMessageBytes st fs = Some (m, pings, later)" "assembly_ok st" "\<forall>f \<in> set fs. wf_frame f"
    and "delivers c (concat (map client_frame fs) @ rest)" "writable (length pings) c"
  shows "\<exists>c'. ReceiveMessage_loop (assembling st) (assembled st) c = (c', Inr (message_frame m)) \<and>
    delivers c' (concat (map client_frame later) @ rest) \<and>
    client_out c' = client_out c @ concat (map (relay_frame 0xA) pings) \<and>
    send_scripts c' = drop (length pings) (send_scripts c)"
  using assms
proof (induction fs arbitrary: st c pings)
  case Nil
  then show ?case by simp
next
  case (Cons f fs)
  let ?K = kMaxWebSocketMessageBytes
  have f: "wf_frame f" and fs: "\<forall>f \<in> set fs. wf_frame f" using Cons.prems(3) by simp_all
  obtain st' ms where a: "assemble_frame ?K st f = Some (st', ms)"
    using Cons.prems(1) by (auto split: option.splits)
  note ok = assemble_frame_ok [OF a Cons.prems(2) f]
  have d: "delivers c (client_frame f @ (concat (map client_frame fs) @ rest))" using Cons.prems(4) by simp
  obtain c1 where c1: "delivers c1 (concat (map client_frame fs) @ rest)" "only_read c1 c"
    and f_none: "ms = [] \<Longrightarrow> ReceiveMessage_loop (assembling st) (assembled st) c = ReceiveMessage_loop (assembling st') (assembled st') c1"
    and f_ping: "\<And>m. ms = [m] \<Longrightarrow> opcode m = kPing \<Longrightarrow> length (WebSocket.payload m) \<le> 125 \<and>
      ReceiveMessage_loop (assembling st) (assembled st) c =
        and_then (SendFrame 0xA (WebSocket.payload m)) (\<lambda>_. ReceiveMessage_loop (assembling st') (assembled st')) c1"
    and f_pong: "\<And>m. ms = [m] \<Longrightarrow> opcode m = kPong \<Longrightarrow>
      ReceiveMessage_loop (assembling st) (assembled st) c = ReceiveMessage_loop (assembling st') (assembled st') c1"
    and f_done: "\<And>m. ms = [m] \<Longrightarrow> opcode m \<noteq> kPing \<Longrightarrow> opcode m \<noteq> kPong \<Longrightarrow>
      ReceiveMessage_loop (assembling st) (assembled st) c = (c1, Inr (message_frame m))"
    and f_one: "length ms \<le> 1"
    using ReceiveMessage_frame [OF f Cons.prems(2) d a] by metis
  have same: "client_out c1 = client_out c" "send_scripts c1 = send_scripts c" using c1(2) by (simp_all add: only_read_def)
  have w1: "writable k c1 = writable k c" for k by (rule writable_only_read [OF c1(2)])
  consider (skip) "ms = [] \<or> (\<exists>m'. ms = [m'] \<and> opcode m' = kPong)" | (ping) m' where "ms = [m']" "opcode m' = kPing"
    | (message) m' where "ms = [m']" "opcode m' \<noteq> kPing" "opcode m' \<noteq> kPong"
    using f_one by (cases ms) auto
  then show ?case
  proof cases
    case skip
    have eq: "ReceiveMessage_loop (assembling st) (assembled st) c = ReceiveMessage_loop (assembling st') (assembled st') c1"
      using skip f_none f_pong by blast
    have "next_message ?K st' fs = Some (m, pings, later)" using skip Cons.prems(1) a by auto
    from Cons.IH [OF this ok fs c1(1)] Cons.prems(5) w1
    show ?thesis unfolding eq same [symmetric] by blast
  next
    case message
    then have "m = m'" "pings = []" "later = fs" using Cons.prems(1) a by simp_all
    then show ?thesis using c1(1) same f_done [OF message] by simp
  next
    case ping
    then obtain pings' where p: "next_message ?K st' fs = Some (m, pings', later)" "pings = WebSocket.payload m' # pings'"
      using Cons.prems(1) a by auto
    note step = f_ping [OF ping]
    have w: "writable (Suc (length pings')) c1" using Cons.prems(5) p(2) w1 by simp
    have short: "length (WebSocket.payload m') \<le> 2 ^ 29" using step by (auto intro: order_trans)
    obtain c2 where c2: "SendFrame 0xA (WebSocket.payload m') c1 = (c2, Inr ())"
        "client_out c2 = client_out c1 @ relay_frame 0xA (WebSocket.payload m')" "writable (length pings') c2"
        "incoming c2 = incoming c1" "send_scripts c2 = tl (send_scripts c1)"
      by (rule SendFrame_writable [OF w short])
    have "delivers c2 (concat (map client_frame fs) @ rest)" using c1(1) c2(4) by (simp add: delivers_def)
    from Cons.IH [OF p(1) ok fs this c2(3)] show ?thesis
      using step c2(1,2,5) same by (auto simp: and_then_def p(2) drop_Suc)
  qed
qed

text \<open>A frame the automaton refuses makes the relay throw.\<close>

fun refused_next :: "nat \<Rightarrow> assembly \<Rightarrow> Frame list \<Rightarrow> bool" where
  "refused_next limit st [] = False"
| "refused_next limit st (f # fs) =
     (case assemble_frame limit st f of
        None \<Rightarrow> True
      | Some (st', ms) \<Rightarrow> (ms = [] \<or> opcode (hd ms) = kPong) \<and> refused_next limit st' fs)"

lemma ReceiveMessage_refuses:
  assumes "refused_next kMaxWebSocketMessageBytes st fs" "assembly_ok st" "\<forall>f \<in> set fs. wf_frame f"
    and "delivers c (concat (map client_frame fs) @ rest)"
  shows "\<exists>c' what. ReceiveMessage_loop (assembling st) (assembled st) c = (c', Inl what)"
  using assms
proof (induction fs arbitrary: st c)
  case Nil
  then show ?case by simp
next
  case (Cons f fs)
  have f: "wf_frame f" and fs: "\<forall>f \<in> set fs. wf_frame f" using Cons.prems(3) by simp_all
  have d: "delivers c (client_frame f @ (concat (map client_frame fs) @ rest))" using Cons.prems(4) by simp
  show ?case
  proof (cases "assemble_frame kMaxWebSocketMessageBytes st f")
    case None
    then show ?thesis using ReceiveMessage_refused [OF f Cons.prems(2) d] by blast
  next
    case (Some r)
    obtain st' ms where a: "assemble_frame kMaxWebSocketMessageBytes st f = Some (st', ms)" using Some by (cases r) auto
    note ok = assemble_frame_ok [OF a Cons.prems(2) f]
    have r: "refused_next kMaxWebSocketMessageBytes st' fs" "ms = [] \<or> opcode (hd ms) = kPong"
      using Cons.prems(1) a by simp_all
    obtain c1 where c1: "delivers c1 (concat (map client_frame fs) @ rest)"
      and none: "ms = [] \<Longrightarrow> ReceiveMessage_loop (assembling st) (assembled st) c = ReceiveMessage_loop (assembling st') (assembled st') c1"
      and pong: "\<And>m. ms = [m] \<Longrightarrow> opcode m = kPong \<Longrightarrow>
        ReceiveMessage_loop (assembling st) (assembled st) c = ReceiveMessage_loop (assembling st') (assembled st') c1"
      and one: "length ms \<le> 1"
      using ReceiveMessage_frame [OF f Cons.prems(2) d a] by metis
    have "ms = [] \<or> (\<exists>m. ms = [m] \<and> opcode m = kPong)" using r(2) one by (cases ms) auto
    then have "ReceiveMessage_loop (assembling st) (assembled st) c = ReceiveMessage_loop (assembling st') (assembled st') c1"
      using none pong by blast
    then show ?thesis using Cons.IH [OF r(1) ok fs c1] by simp
  qed
qed

section \<open>The opening handshake of a browser\<close>

text \<open>Header fields as browsers send them: trimmed, with different names.\<close>

definition trimmed :: "string \<Rightarrow> bool" where
  "trimmed s \<longleftrightarrow> s = '''' \<or> \<not> isspace (hd s) \<and> \<not> isspace (last s)"

definition browser_header :: "string \<times> string \<Rightarrow> bool" where
  "browser_header h \<longleftrightarrow> wf_header h \<and> fst h \<noteq> '''' \<and> trimmed (fst h) \<and> trimmed (snd h)"

lemma trim_trimmed: "trimmed s \<Longrightarrow> trim s = s"
proof (cases "s = ''''")
  case False
  assume "trimmed s"
  then have "dropWhile isspace s = s" "dropWhile isspace (rev s) = rev s"
    using False by (auto simp: trimmed_def dropWhile_eq_self_iff hd_rev)
  then show ?thesis by (simp add: trim_def)
qed (simp add: trim_def)

lemma trim_space: "trim (CHR '' '' # s) = trim s"
  by (simp add: trim_def isspace_def ord_def)

lemma find_sub_front: "find_sub pat p = Some j \<Longrightarrow> pat \<noteq> [] \<Longrightarrow> find_sub pat (p @ q) = Some j"
proof (induction p arbitrary: j)
  case (Cons x p)
  show ?case
  proof (cases "take (length pat) (x # p) = pat")
    case True
    then have len: "length pat \<le> length (x # p)" by (metis length_take min.absorb_iff2 min.commute)
    then have "take (length pat) ((x # p) @ q) = take (length pat) (x # p)" by (simp only: take_append) simp
    then have "take (length pat) (x # p @ q) = pat" using True by simp
    moreover have "j = 0" using Cons.prems(1) True by simp
    ultimately show ?thesis by simp
  next
    case False
    then obtain k where k: "find_sub pat p = Some k" "j = Suc k" using Cons.prems(1) by auto
    have "k + length pat \<le> length p" using find_from_SomeD [of p pat 0 k] k(1) by (simp add: find_from_def)
    then have "take (length pat) ((x # p) @ q) = take (length pat) (x # p)" by (simp only: take_append) simp
    then have "take (length pat) (x # p @ q) \<noteq> pat" using False by simp
    then show ?thesis using Cons.IH [OF k(1) Cons.prems(2)] k(2) by simp
  qed
qed (simp split: if_splits)

text \<open>The table that the relay builds from a rendered request.\<close>

definition header_map :: "(string \<times> string) list \<Rightarrow> header_table" where
  "header_map hs = map_of (map (\<lambda>(n, v). (Lower n, v)) hs)"

lemma add_header_line:
  assumes "browser_header (n, v)" "headers (Lower n) = None"
  shows "add_header (n @ '': '' @ v) headers = Inr (headers(Lower n \<mapsto> v))"
proof -
  have h: "CHR '':'' \<notin> set n" "trimmed n" "trimmed v" "n \<noteq> ''''"
    using assms(1) by (simp_all add: browser_header_def wf_header_def)
  have "find_sub '':'' (n @ '': '' @ v) = Some (length n)" using find_sub_char_skip [OF h(1)] by simp
  then show ?thesis using assms(2) h by (simp add: add_header_def trim_trimmed trim_space Lower_def)
qed

lemma ParseHeaders_step:
  assumes "cursor < length request" "find_from request crlf cursor = Some e" "substr request cursor (e - cursor) = seg" "seg \<noteq> ''''"
  shows "ParseHeaders_loop request cursor None headers = ParseHeaders_loop request (e + 2) (Some seg) headers"
    and "add_header seg headers = Inr headers' \<Longrightarrow>
      ParseHeaders_loop request cursor (Some line) headers = ParseHeaders_loop request (e + 2) (Some line) headers'"
  using assms by (subst ParseHeaders_loop.simps; simp)+

lemma ParseHeaders_lines:
  assumes "\<forall>h \<in> set hs. browser_header h" "distinct (map (Lower \<circ> fst) hs)"
    and "\<forall>h \<in> set hs. headers (Lower (fst h)) = None"
  shows "ParseHeaders_loop (pre @ concat (map header_line hs) @ crlf) (length pre) (Some line) headers =
    Inr (line, headers ++ header_map (rev hs))"
  using assms
proof (induction hs arbitrary: pre headers)
  case Nil
  then show ?case by (subst ParseHeaders_loop.simps) (simp add: find_from_append substr_def header_map_def)
next
  case (Cons h hs)
  obtain n v where h: "h = (n, v)" by force
  have b: "browser_header (n, v)" and wf: "carriage_return \<notin> set n" "carriage_return \<notin> set v" "n \<noteq> ''''"
    using Cons.prems by (auto simp: h browser_header_def wf_header_def)
  let ?req = "pre @ concat (map header_line (h # hs)) @ crlf" and ?seg = "n @ '': '' @ v"
  have req: "?req = pre @ ?seg @ crlf @ concat (map header_line hs) @ crlf" by (simp add: h header_line_def)
  have line_end: "find_from ?req crlf (length pre) = Some (length pre + length ?seg)"
    using find_sub_skip [of carriage_return ?seg "[newline]" "crlf @ concat (map header_line hs) @ crlf"] wf
    unfolding req by (simp add: find_from_append)
  have seg_text: "substr ?req (length pre) (length pre + length ?seg - length pre) = ?seg"
    unfolding req by (simp add: substr_def)
  have lt: "length pre < length ?req" unfolding req by simp
  have add: "add_header ?seg headers = Inr (headers(Lower n \<mapsto> v))"
    by (rule add_header_line [OF b]) (use Cons.prems(3) h in simp)
  have "ParseHeaders_loop ?req (length pre) (Some line) headers =
      ParseHeaders_loop ?req (length pre + length ?seg + 2) (Some line) (headers(Lower n \<mapsto> v))"
    by (rule ParseHeaders_step(2) [OF lt line_end seg_text _ add]) simp
  also have "\<dots> = ParseHeaders_loop ((pre @ ?seg @ crlf) @ concat (map header_line hs) @ crlf)
      (length (pre @ ?seg @ crlf)) (Some line) (headers(Lower n \<mapsto> v))"
    unfolding req by (simp add: add.assoc)
  also have "\<dots> = Inr (line, headers(Lower n \<mapsto> v) ++ header_map (rev hs))"
    by (rule Cons.IH) (use Cons.prems h in force)+
  also have "headers(Lower n \<mapsto> v) ++ header_map (rev hs) = headers ++ header_map (rev (h # hs))"
    by (simp add: header_map_def h map_add_def fun_eq_iff split: option.split)
  finally show ?case .
qed

lemma ParseHeaders_request:
  assumes "\<forall>h \<in> set hs. browser_header h" "distinct (map (Lower \<circ> fst) hs)" "line \<noteq> ''''" "carriage_return \<notin> set line"
  shows "ParseHeaders (render_request line hs) = Inr (line, header_map hs)"
proof -
  let ?req = "render_request line hs"
  have line_end: "find_from ?req crlf 0 = Some (length line)"
    using find_sub_skip [OF assms(4), of "[newline]" "crlf @ concat (map header_line hs) @ crlf"]
    by (simp add: render_request_def find_from_def)
  have seg_text: "substr ?req 0 (length line - 0) = line" by (simp add: render_request_def substr_def)
  have lt: "0 < length ?req" by (simp add: render_request_def)
  have "ParseHeaders_loop ?req 0 None (\<lambda>_. None) = ParseHeaders_loop ?req (length line + 2) (Some line) (\<lambda>_. None)"
    by (rule ParseHeaders_step(1) [OF lt line_end seg_text assms(3)])
  also have "\<dots> = ParseHeaders_loop ((line @ crlf) @ concat (map header_line hs) @ crlf) (length (line @ crlf)) (Some line) (\<lambda>_. None)"
    by (simp add: render_request_def)
  also have "\<dots> = Inr (line, (\<lambda>_. None) ++ header_map (rev hs))"
    by (rule ParseHeaders_lines [OF assms(1,2)]) simp
  also have "header_map (rev hs) = header_map hs"
  proof -
    have keys: "map fst (map (\<lambda>(n, v). (Lower n, v)) hs) = map (Lower \<circ> fst) hs" by (induction hs) auto
    then have keys': "map fst (map (\<lambda>(n, v). (Lower n, v)) (rev hs)) = rev (map (Lower \<circ> fst) hs)"
      by (simp add: rev_map [symmetric])
    have d: "distinct (map fst (map (\<lambda>(n, v). (Lower n, v)) hs))" "distinct (map fst (map (\<lambda>(n, v). (Lower n, v)) (rev hs)))"
      unfolding keys keys' using assms(2) by simp_all
    show ?thesis by (simp add: header_map_def map_of_inject_set [OF d(2,1)])
  qed
  finally show ?thesis by (simp add: ParseHeaders_def map_add_def)
qed


text \<open>The empty line that ends a rendered request is its first.\<close>

lemma find_request_end:
  assumes "\<forall>h \<in> set hs. browser_header h"
  shows "find_sub (crlf @ crlf) (crlf @ concat (map header_line hs) @ crlf) = Some (length (concat (map header_line hs)))"
  using assms
proof (induction hs)
  case Nil
  then show ?case by simp
next
  case (Cons h hs)
  obtain n v where h: "h = (n, v)" by force
  have wf: "carriage_return \<notin> set (n @ '': '' @ v)" and n: "n \<noteq> ''''"
    using Cons.prems by (auto simp: h browser_header_def wf_header_def)
  then obtain x n' where x: "n = x # n'" "x \<noteq> carriage_return" by (cases n) auto
  let ?rest = "crlf @ concat (map header_line hs) @ crlf"
  have "find_sub (crlf @ crlf) (crlf @ (n @ '': '' @ v) @ ?rest) =
      map_option (\<lambda>k. Suc (Suc k)) (find_sub (crlf @ crlf) ((n @ '': '' @ v) @ ?rest))"
    using x by (simp add: option.map_comp comp_def)
  also have "find_sub (crlf @ crlf) ((n @ '': '' @ v) @ ?rest) =
      map_option ((+) (length (n @ '': '' @ v))) (find_sub (crlf @ crlf) ?rest)"
    using find_sub_skip [OF wf, of "newline # crlf" ?rest] by simp
  also have "find_sub (crlf @ crlf) ?rest = Some (length (concat (map header_line hs)))"
    using Cons.IH Cons.prems by simp
  finally have "find_sub (crlf @ crlf) (crlf @ (n @ '': '' @ v) @ ?rest) =
      Some (Suc (Suc (length (n @ '': '' @ v) + length (concat (map header_line hs)))))" by simp
  moreover have "concat (map header_line (h # hs)) = (n @ '': '' @ v) @ crlf @ concat (map header_line hs)"
    by (simp add: h header_line_def)
  ultimately show ?case by (simp only: append_assoc length_append) simp
qed

lemma ReceiveHandshake_loop_delivers:
  assumes "delivers c (bytes_of later)" "find_sub (crlf @ crlf) (earlier @ later) = Some (length (earlier @ later) - 4)"
    and "4 \<le> length (earlier @ later)" "length (earlier @ later) \<le> kMaxHandshakeBytes"
  shows "\<exists>c'. ReceiveHandshake_loop earlier c = (c', Inr (earlier @ later)) \<and> delivers c' [] \<and> only_read c' c"
  using assms
proof (induction "length later" arbitrary: earlier later c rule: less_induct)
  case less
  show ?case
  proof (cases "later = []")
    case True
    then show ?thesis using less.prems by (subst ReceiveHandshake_loop.simps) (simp add: bytes_of_def)
  next
    case False
    have none: "find_sub (crlf @ crlf) earlier = None"
    proof (rule ccontr)
      assume "find_sub (crlf @ crlf) earlier \<noteq> None"
      then obtain j where j: "find_sub (crlf @ crlf) earlier = Some j" by auto
      then have "j + 4 \<le> length earlier" using find_from_SomeD [of earlier "crlf @ crlf" 0 j] by (simp add: find_from_def)
      moreover have "j = length (earlier @ later) - 4" using find_sub_front [OF j, of later] less.prems(2) by simp
      ultimately show False using False by (cases later) auto
    qed
    obtain seg segs where c: "incoming c = seg # segs" "seg \<noteq> []" "[] \<notin> set segs" "seg @ concat segs = bytes_of later"
      using less.prems(1) False by (cases "incoming c") (auto simp: delivers_def bytes_of_def)
    define got where "got = take 1024 seg"
    define c1 where "c1 = c\<lparr>incoming := (if drop 1024 seg = [] then segs else drop 1024 seg # segs)\<rparr>"
    have r: "recv_some 1024 c = (c1, got)" by (simp add: recv_some_def c(1) c1_def got_def)
    have "got @ concat (incoming c1) = bytes_of later" using c(4) by (auto simp: got_def c1_def) (metis append_assoc append_take_drop_id)
    then obtain d e where de: "later = d @ e" "got = bytes_of d" "concat (incoming c1) = bytes_of e"
      by (auto simp: bytes_of_def append_eq_map_conv)
    have d: "d \<noteq> []" "got \<noteq> []" using de(2) c(2) by (auto simp: got_def bytes_of_def)
    have deliv: "delivers c1 (bytes_of e)" using c(3) de(3) by (auto simp: delivers_def c1_def)
    have "\<exists>c'. ReceiveHandshake_loop (earlier @ d) c1 = (c', Inr ((earlier @ d) @ e)) \<and> delivers c' [] \<and> only_read c' c1"
      by (rule less.hyps [OF _ deliv]) (use less.prems(2-4) d(1) in \<open>simp_all add: de(1)\<close>)
    moreover have "ReceiveHandshake_loop earlier c = ReceiveHandshake_loop (earlier @ d) c1"
      using none r d(2) less.prems(4) by (subst ReceiveHandshake_loop.simps) (simp add: de(1,2))
    moreover have "only_read c1 c" by (simp add: only_read_def c1_def)
    ultimately show ?thesis using only_read_trans by (auto simp: de(1))
  qed
qed


lemma ReceiveHandshake_request:
  assumes "\<forall>h \<in> set hs. browser_header h" "carriage_return \<notin> set line"
    and "delivers c (bytes_of (render_request line hs))" "length (render_request line hs) \<le> kMaxHandshakeBytes"
  shows "\<exists>c'. ReceiveHandshake c = (c', Inr (render_request line hs)) \<and> only_read c' c"
proof -
  let ?req = "render_request line hs"
  have "find_sub (crlf @ crlf) ?req = map_option ((+) (length line)) (find_sub (crlf @ crlf) (crlf @ concat (map header_line hs) @ crlf))"
    unfolding render_request_def using find_sub_skip [OF assms(2), of "newline # crlf"] by simp
  then have "find_sub (crlf @ crlf) ?req = Some (length ?req - 4)"
    using find_request_end [OF assms(1)] by (simp add: render_request_def)
  moreover have "4 \<le> length ?req" by (simp add: render_request_def)
  ultimately show ?thesis
    using ReceiveHandshake_loop_delivers [of c ?req "''''"] assms(3,4) by (auto simp: ReceiveHandshake_def)
qed

text \<open>What the relay asks of a request: the upgrade to a WebSocket, and the extension's own origin.\<close>

definition admissible :: "string \<Rightarrow> string \<Rightarrow> (string \<times> string) list \<Rightarrow> bool" where
  "admissible expected_origin line hs \<longleftrightarrow>
     line = ''GET /capture HTTP/1.1'' \<and> map_option Lower (header_value hs ''Upgrade'') = Some ''websocket'' \<and>
     (case header_value hs ''Connection'' of None \<Rightarrow> False | Some connection \<Rightarrow> find_sub ''upgrade'' (Lower connection) \<noteq> None) \<and>
     header_value hs ''Sec-WebSocket-Version'' = Some ''13'' \<and> header_value hs ''Origin'' = Some expected_origin \<and>
     header_value hs ''Sec-WebSocket-Key'' \<noteq> None"

lemma header_map_value: "header_map hs (Lower n) = header_value hs n"
  by (simp add: header_map_def header_value_def)

lemma header_names:
  "Lower ''Upgrade'' = ''upgrade''" "Lower ''Connection'' = ''connection''" "Lower ''Origin'' = ''origin''"
  "Lower ''Sec-WebSocket-Version'' = ''sec-websocket-version''" "Lower ''Sec-WebSocket-Key'' = ''sec-websocket-key''"
  by (simp_all add: Lower_def tolower_def isupper_def ord_def char_of_def bit_0)

lemma handshake_policy_admits:
  "(case handshake_policy expected_origin (header_map hs) of Inr key \<Rightarrow>
      admissible expected_origin ''GET /capture HTTP/1.1'' hs \<and> header_value hs ''Sec-WebSocket-Key'' = Some key
    | Inl _ \<Rightarrow> \<not> admissible expected_origin ''GET /capture HTTP/1.1'' hs)"
  unfolding admissible_def header_map_value [symmetric] header_names handshake_policy_def
  by (auto split: option.splits)

lemma CreateWebSocketAccept_standard:
  "CreateWebSocketAccept (Some \<circ> fips_sha1) (Some \<circ> Base64) key = Inr (accept_token key)"
  by (simp add: CreateWebSocketAccept_def Base64Encode_def accept_token_def kWebSocketGuid_def del: bytes_of_append
      flip: Sha1_eq_fips)

lemma length_accept_token: "length (accept_token key) = 28"
  by (simp add: accept_token_def Base64_def length_Base64_loop del: bytes_of_append flip: Sha1_eq_fips)

lemma PerformHandshake_request:
  assumes "list_all browser_header hs" "distinct (map (Lower \<circ> fst) hs)" "line \<noteq> ''''" "carriage_return \<notin> set line"
    and "delivers c (bytes_of (render_request line hs))" "length (render_request line hs) \<le> kMaxHandshakeBytes"
    and "writable 1 c"
  shows "case PerformHandshake (CreateWebSocketAccept (Some \<circ> fips_sha1) (Some \<circ> Base64)) expected_origin c of
      (c', Inr _) \<Rightarrow> admissible expected_origin line hs \<and> client_out c' = client_out c @
        bytes_of (upgrade_response (accept_token (the (header_value hs ''Sec-WebSocket-Key''))))
    | (c', Inl _) \<Rightarrow> \<not> admissible expected_origin line hs \<and> client_out c' = client_out c"
proof -
  have hs: "\<forall>h \<in> set hs. browser_header h" using assms(1) by (simp add: list_all_iff)
  let ?create = "CreateWebSocketAccept (Some \<circ> fips_sha1) (Some \<circ> Base64)"
  obtain c1 where c1: "ReceiveHandshake c = (c1, Inr (render_request line hs))" "only_read c1 c"
    using ReceiveHandshake_request [OF hs assms(4-6)] by blast
  have line: "ParseHeaders (render_request line hs) = Inr (line, header_map hs)"
    by (rule ParseHeaders_request [OF hs assms(2-4)])
  show ?thesis
  proof (cases "admissible expected_origin line hs")
    case True
    then have l: "line = ''GET /capture HTTP/1.1''" by (simp add: admissible_def)
    obtain key where key: "handshake_policy expected_origin (header_map hs) = Inr key"
        "header_value hs ''Sec-WebSocket-Key'' = Some key"
      using handshake_policy_admits [of expected_origin hs] True l by (auto split: sum.splits)
    then have a: "handshake_accept ?create expected_origin (render_request line hs) = Inr (accept_token key)"
      using line l by (simp add: handshake_accept_def CreateWebSocketAccept_standard del: comp_apply)
    have len: "length (bytes_of (upgrade_response (accept_token key))) \<le> 2 ^ 30"
      by (simp add: upgrade_response_def length_accept_token)
    have w: "writable (Suc 0) c1" using assms(7) writable_only_read [OF c1(2)] by simp
    have "bytes_of (upgrade_response (accept_token key)) \<noteq> []" by (simp add: upgrade_response_def bytes_of_def)
    from SendAll_writable(1) [OF w len this] show ?thesis
      using True c1 a key(2) by (simp add: PerformHandshake_def and_then_def fails_with_def only_read_def)
  next
    case False
    then have "\<exists>what. handshake_accept ?create expected_origin (render_request line hs) = Inl what"
      using handshake_policy_admits [of expected_origin hs] line
      by (cases "line = ''GET /capture HTTP/1.1''") (auto simp: handshake_accept_def split: sum.splits)
    then obtain what where "handshake_accept ?create expected_origin (render_request line hs) = Inl what" by blast
    then show ?thesis using False c1 by (simp add: PerformHandshake_def and_then_def fails_with_def only_read_def)
  qed
qed


section \<open>The relay's WebSocket layer is correct\<close>

text \<open>
  C29. The relay hands on the message that the automaton of RFC 6455 completes next, whatever the
  segments its frames arrive in and wherever pings, pongs and fragments fall between them; it answers
  every ping before it with a pong of the same payload, and it consumes no byte behind the message.
\<close>

theorem relay_receives_messages:
  assumes "next_message kMaxWebSocketMessageBytes None fs = Some (m, pings, later)" "list_all wf_frame fs"
    and "delivers c (concat (map client_frame fs) @ rest)" "writable (length pings) c"
  shows "\<exists>c'. ReceiveMessage c = (c', Inr (message_frame m)) \<and>
    delivers c' (concat (map client_frame later) @ rest) \<and>
    client_out c' = client_out c @ concat (map (relay_frame 0xA) pings)"
proof -
  have "assembly_ok None" "\<forall>f \<in> set fs. wf_frame f" using assms(2) by (simp_all add: assembly_ok_def list_all_iff)
  from ReceiveMessage_next [OF assms(1) this assms(3,4)] show ?thesis
    by (auto simp: ReceiveMessage_def assembling_def assembled_def)
qed

lemma relay_receives_messages_witness:
  "let key = [1, 2, 3, 4];
       first = \<lparr>fin = False, frame_opcode = kText, masking_key = key, frame_payload = [104]\<rparr>;
       ping = \<lparr>fin = True, frame_opcode = kPing, masking_key = key, frame_payload = [7]\<rparr>;
       last = \<lparr>fin = True, frame_opcode = kContinuation, masking_key = key, frame_payload = [105]\<rparr>
   in \<exists>c'. ReceiveMessage \<lparr>incoming = [client_frame first @ client_frame ping, client_frame last], client_out = [],
         send_scripts = [[2 ^ 30]]\<rparr> = (c', Inr \<lparr>final = True, ws_opcode = 1, ws_payload = [104, 105]\<rparr>) \<and>
       delivers c' [] \<and> client_out c' = relay_frame 0xA [7]"
proof -
  let ?key = "[1, 2, 3, 4] :: byte list"
  let ?first = "\<lparr>fin = False, frame_opcode = kText, masking_key = ?key, frame_payload = [104]\<rparr>"
  let ?ping = "\<lparr>fin = True, frame_opcode = kPing, masking_key = ?key, frame_payload = [7]\<rparr>"
  let ?last = "\<lparr>fin = True, frame_opcode = kContinuation, masking_key = ?key, frame_payload = [105]\<rparr>"
  let ?m = "\<lparr>opcode = kText, WebSocket.Message.payload = [104, 105]\<rparr>"
  have nxt: "next_message kMaxWebSocketMessageBytes None [?first, ?ping, ?last] = Some (?m, [[7]], [])"
    by (simp add: assemble_frame.simps control_opcode_def opcode_value_def word_le_nat_alt kMaxWebSocketMessageBytes_def kMaxVideoPayloadBytes_def)
  have "list_all wf_frame [?first, ?ping, ?last]" by (simp add: wf_frame_def)
  from relay_receives_messages [OF nxt this, of "\<lparr>incoming = [client_frame ?first @ client_frame ?ping, client_frame ?last],
      client_out = [], send_scripts = [[2 ^ 30]]\<rparr>" "[]"]
  show ?thesis
    by (simp add: delivers_def client_frame_def writable_def message_frame_def opcode_value_def)
qed

text \<open>
  C30. The relay decides a browser's opening request by its content: it completes the handshake, with
  the switching-protocols response and the accept value of RFC 6455, exactly when the request is
  \<open>GET /capture\<close> with the upgrade headers, version 13, a key, and the extension's own origin; to any
  other request it sends nothing.
\<close>

theorem relay_handshake_decides:
  assumes "list_all browser_header hs" "distinct (map (Lower \<circ> fst) hs)" "line \<noteq> ''''" "carriage_return \<notin> set line"
    and "delivers c (bytes_of (render_request line hs))" "length (render_request line hs) \<le> kMaxHandshakeBytes"
    and "writable 1 c"
  shows "case PerformHandshake (CreateWebSocketAccept (Some \<circ> fips_sha1) (Some \<circ> Base64)) expected_origin c of
      (c', Inr _) \<Rightarrow> admissible expected_origin line hs \<and> client_out c' = client_out c @
        bytes_of (upgrade_response (accept_token (the (header_value hs ''Sec-WebSocket-Key''))))
    | (c', Inl _) \<Rightarrow> \<not> admissible expected_origin line hs \<and> client_out c' = client_out c"
  by (rule PerformHandshake_request [OF assms])

definition example_browser_headers :: "string \<Rightarrow> (string \<times> string) list" where
  "example_browser_headers origin =
     [(''Host'', ''127.0.0.1:50000''), (''Connection'', ''Upgrade''), (''Upgrade'', ''websocket''), (''Origin'', origin),
      (''Sec-WebSocket-Version'', ''13''), (''Sec-WebSocket-Key'', ''dGhlIHNhbXBsZSBub25jZQ=='')]"

definition example_origin :: string where
  "example_origin = ''chrome-extension://abcdefghijklmnopabcdefghijklmnop''"

lemma relay_handshake_decides_witness:
  "let request = render_request ''GET /capture HTTP/1.1'' (example_browser_headers ''https://example.com'');
       c = \<lparr>incoming = [bytes_of request], client_out = [], send_scripts = [[2 ^ 30]]\<rparr>
   in case PerformHandshake (CreateWebSocketAccept (Some \<circ> fips_sha1) (Some \<circ> Base64)) example_origin c of
      (c', Inr _) \<Rightarrow> False | (c', Inl _) \<Rightarrow> client_out c' = []"
proof -
  let ?hs = "example_browser_headers ''https://example.com''"
  let ?request = "render_request ''GET /capture HTTP/1.1'' ?hs"
  let ?c = "\<lparr>incoming = [bytes_of ?request], client_out = [], send_scripts = [[2 ^ 30]]\<rparr>"
  have a: "list_all browser_header ?hs" "distinct (map (Lower \<circ> fst) ?hs)"
    by (simp_all add: example_browser_headers_def browser_header_def wf_header_def trimmed_def isspace_def ord_def
      Lower_def tolower_def isupper_def char_of_def bit_0)
  have b: "delivers ?c (bytes_of ?request)" "length ?request \<le> kMaxHandshakeBytes" "writable 1 ?c"
    by (simp_all add: delivers_def bytes_of_def render_request_def writable_def example_browser_headers_def header_line_def
      kMaxHandshakeBytes_def)
  have "\<not> admissible example_origin ''GET /capture HTTP/1.1'' ?hs"
    by (simp add: admissible_def example_browser_headers_def example_origin_def header_value_def
      Lower_def tolower_def isupper_def ord_def char_of_def bit_0)
  then show ?thesis
    using relay_handshake_decides [OF a _ _ b, of example_origin] by (auto split: prod.splits sum.splits)
qed

end
