(* ===== verification/Relay_Sender.thy ===== *)
theory Relay_Sender
  imports Relay_Protocol Host_Protocol Socket_Send Fragments State_Machine
begin

text \<open>
  The relay's sender, \<open>relay/src/lan_sender.h\<close> and \<open>relay/src/lan_sender.cpp\<close>: the check of the
  receiver's address, the control connection with its pairing dialogue, the control loop, and the
  datagrams of an access unit. What the sockets, the clock and the random generator do is an
  argument of each operation: the script of a blocking send, the events of a receive up to its
  deadline, the outcome of a connect. \<open>inet_pton\<close> stands for \<open>InetPtonA\<close> followed by \<open>ntohl\<close>.
\<close>

section \<open>State\<close>

definition kLanVideoMagic :: u32 where "kLanVideoMagic = 0x48535332"
definition kLanProtocolVersion :: byte where "kLanProtocolVersion = 2"
definition kLanVideoHeaderSize :: nat where "kLanVideoHeaderSize = 32"
definition kLanMaxUdpPayload :: nat where "kLanMaxUdpPayload = 1200"
definition kLanMaxControlPayload :: nat where "kLanMaxControlPayload = 64 * 1024"

record endpoint =
  host_address :: u32
  host_port :: u16

record LanSenderStats =
  sent_frames :: u64
  sent_bytes :: u64
  sent_datagrams :: u64
  send_errors :: u64
  receiver_decoded :: u64
  receiver_dropped :: u64

definition no_stats :: LanSenderStats where
  "no_stats = \<lparr>sent_frames = 0, sent_bytes = 0, sent_datagrams = 0, send_errors = 0, receiver_decoded = 0,
     receiver_dropped = 0\<rparr>"

text \<open>
  The last two fields are what the sender has handed to its sockets: the bytes of all control
  connections and the datagrams. The video socket carries the address it is connected to.
\<close>

record LanSender =
  receiver_address :: string
  receiver_video_address :: endpoint
  video_port :: u16
  session_short :: u32
  control_socket :: bool
  video_socket :: "endpoint option"
  running :: bool
  connected :: bool
  keyframe_requested :: bool
  lan_buffer :: "byte list"
  lan_frames :: "string list"
  stats :: LanSenderStats
  control_out :: "byte list"
  video_out :: "(endpoint \<times> byte list) list"

definition newLanSender :: LanSender where
  "newLanSender = \<lparr>receiver_address = '''', receiver_video_address = \<lparr>host_address = 0, host_port = 0\<rparr>, video_port = 0,
     session_short = 0, control_socket = False, video_socket = None, running = False, connected = False,
     keyframe_requested = False, lan_buffer = [], lan_frames = [], stats = no_stats, control_out = [], video_out = []\<rparr>"

definition CloseSockets :: "LanSender \<Rightarrow> LanSender" where
  "CloseSockets s = s\<lparr>control_socket := False, video_socket := None\<rparr>"

section \<open>Addresses\<close>

definition private_host :: "u32 \<Rightarrow> bool" where
  "private_host h \<longleftrightarrow> h AND 0xFF000000 = 0x0A000000 \<or> h AND 0xFFF00000 = 0xAC100000
     \<or> h AND 0xFFFF0000 = 0xC0A80000 \<or> h AND 0xFFFF0000 = 0xA9FE0000"

definition IsTrustedLanIpv4 :: "(string \<Rightarrow> u32 option) \<Rightarrow> string \<Rightarrow> endpoint option" where
  "IsTrustedLanIpv4 inet_pton v =
     (case inet_pton v of
        None \<Rightarrow> None
      | Some h \<Rightarrow> if private_host h then Some \<lparr>host_address = h, host_port = 0\<rparr> else None)"

section \<open>Control frames\<close>

definition EncodeControl :: "string \<Rightarrow> byte list" where
  "EncodeControl json =
     (if json = '''' \<or> length json > kLanMaxControlPayload then []
      else be_put32 (word_of_nat (length json)) @ bytes_of json)"

definition SendControl :: "int list \<Rightarrow> string \<Rightarrow> LanSender \<Rightarrow> LanSender \<times> bool" where
  "SendControl script json s =
     (let control = EncodeControl json
      in if control = [] \<or> \<not> control_socket s then (s, False)
         else (case send_all control script of (out, ok) \<Rightarrow> (s\<lparr>control_out := control_out s @ out\<rparr>, ok)))"

text \<open>
  The inner loop of \<open>ReceiveControl\<close>: the frames it takes off the front of the buffer, and whether
  it ends by \<open>break\<close> (or an exhausted buffer) and not by an invalid length.
\<close>

function take_frames :: "byte list \<Rightarrow> string list \<times> byte list \<times> bool" where
  "take_frames b =
     (if length b < 4 then ([], b, True)
      else
        (let n = unat (be_get32 b 0)
         in if n = 0 \<or> n > kLanMaxControlPayload then ([], b, False)
            else if length b < 4 + n then ([], b, True)
            else (case take_frames (drop (4 + n) b) of
                    (frames, rest, ok) \<Rightarrow> (chars_of (take n (drop 4 b)) # frames, rest, ok))))"
  by pat_completeness auto
termination by (relation "measure length") (simp_all add: Let_def)

declare take_frames.simps [simp del]

datatype control_event =
    SelectError
  | SelectTimeout
  | RecvEnded
  | RecvBytes "byte list"

definition AddControlBytes :: "byte list \<Rightarrow> LanSender \<Rightarrow> LanSender \<times> bool" where
  "AddControlBytes bs s =
     (if length (lan_buffer s) + length bs > kLanMaxControlPayload + 4 then (s, False)
      else (case take_frames (lan_buffer s @ bs) of
              (frames, rest, ok) \<Rightarrow> (s\<lparr>lan_buffer := rest, lan_frames := lan_frames s @ frames\<rparr>, ok)))"

text \<open>The events are what \<open>select\<close> and \<open>recv\<close> report up to the deadline.\<close>

fun ReceiveControl :: "control_event list \<Rightarrow> LanSender \<Rightarrow> LanSender \<times> string option" where
  "ReceiveControl [] s = (s, None)"
| "ReceiveControl (e # es) s =
     (case lan_frames s of
        json # frames \<Rightarrow> (s\<lparr>lan_frames := frames\<rparr>, Some json)
      | [] \<Rightarrow>
          (if \<not> control_socket s then (s, None)
           else
             (case e of
                SelectError \<Rightarrow> (s, None)
              | SelectTimeout \<Rightarrow> ReceiveControl es s
              | RecvEnded \<Rightarrow> (s, None)
              | RecvBytes bs \<Rightarrow>
                  (case AddControlBytes bs s of (s, ok) \<Rightarrow> if ok then ReceiveControl es s else (s, None)))))"

section \<open>Configuration\<close>

text \<open>\<open>Inl\<close> of the error code, or done.\<close>

type_synonym outcome = "string + unit"

datatype connect_outcome =
    ConnectSocketFailed
  | ConnectModeFailed
  | ConnectRefused
  | ConnectTimedOut
  | ConnectErrorPending
  | ConnectBlockingFailed
  | ConnectDone

definition ConnectControl ::
    "(string \<Rightarrow> u32 option) \<Rightarrow> connect_outcome \<Rightarrow> string \<Rightarrow> LanSender \<Rightarrow> LanSender \<times> outcome" where
  "ConnectControl inet_pton result address s =
     (case IsTrustedLanIpv4 inet_pton address of
        None \<Rightarrow> (s, Inl ''receiver_address_not_allowed'')
      | Some _ \<Rightarrow>
          (if result = ConnectSocketFailed then (s, Inl ''control_socket_failed'')
           else
             (let s = s\<lparr>control_socket := True\<rparr>
              in case result of
                   ConnectModeFailed \<Rightarrow> (s, Inl ''control_socket_failed'')
                 | ConnectRefused \<Rightarrow> (s, Inl ''receiver_unreachable'')
                 | ConnectTimedOut \<Rightarrow> (s, Inl ''receiver_connect_timeout'')
                 | ConnectErrorPending \<Rightarrow> (s, Inl ''receiver_unreachable'')
                 | ConnectBlockingFailed \<Rightarrow> (s, Inl ''control_socket_failed'')
                 | _ \<Rightarrow> (s, Inr ()))))"

record PairingEnv =
  hello_script :: "int list"
  hello_events :: "control_event list"
  pair_nonce :: "string fallible"
  pair_script :: "int list"
  session_events :: "control_event list"

definition hello_request :: string where
  "hello_request = ''{\"type\":\"hello\",\"protocol\":2}''"

definition pair_request :: "string \<Rightarrow> string \<Rightarrow> string \<Rightarrow> string" where
  "pair_request pairing_code nonce receiver_nonce =
     ''{\"type\":\"pair\",\"protocol\":2,\"pairingCode\":\"'' @ RelayEscapeJson pairing_code
     @ ''\",\"senderNonce\":\"'' @ nonce @ ''\",\"receiverNonce\":\"'' @ RelayEscapeJson receiver_nonce
     @ ''\",\"codec\":\"video/avc\",\"avcFormat\":\"annexb\",\"width\":1280,\"height\":720,\"fps\":30}''"

definition hello_nonce :: "string \<Rightarrow> string option" where
  "hello_nonce hello =
     (if RelayJsonString hello ''type'' \<noteq> Some ''hello''
         \<or> JsonUnsigned hello ''protocol'' \<noteq> Some (unat kLanProtocolVersion) then None
      else
        (case RelayJsonString hello ''receiverNonce'' of
           None \<Rightarrow> None
         | Some n \<Rightarrow> if length n < 16 then None else Some n))"

text \<open>The session a reply grants: its short id and the video port.\<close>

definition granted_session :: "string \<Rightarrow> (u32 \<times> u16) option" where
  "granted_session json =
     (case (JsonUnsigned json ''sessionShort'', JsonUnsigned json ''videoPort'') of
        (Some short, Some port) \<Rightarrow>
          (if RelayJsonString json ''type'' \<noteq> Some ''session''
              \<or> JsonUnsigned json ''protocol'' \<noteq> Some (unat kLanProtocolVersion)
              \<or> short = 0 \<or> short > 0xffffffff \<or> port < 1024 \<or> port > 0xffff
              \<or> JsonUnsigned json ''width'' \<noteq> Some 1280 \<or> JsonUnsigned json ''height'' \<noteq> Some 720
              \<or> JsonUnsigned json ''fps'' \<noteq> Some 30
           then None else Some (word_of_nat short, word_of_nat port))
      | _ \<Rightarrow> None)"

text \<open>A thrown exception passes through all callers; it is the outer \<open>Inl\<close>.\<close>

definition PerformPairing :: "PairingEnv \<Rightarrow> string \<Rightarrow> LanSender \<Rightarrow> LanSender \<times> outcome fallible" where
  "PerformPairing env pairing_code s =
     (case SendControl (hello_script env) hello_request s of
        (s, False) \<Rightarrow> (s, Inr (Inl ''hello_send_failed''))
      | (s, True) \<Rightarrow>
     (case ReceiveControl (hello_events env) s of
        (s, None) \<Rightarrow> (s, Inr (Inl ''hello_rejected''))
      | (s, Some hello) \<Rightarrow>
     (case hello_nonce hello of
        None \<Rightarrow> (s, Inr (Inl ''hello_rejected''))
      | Some receiver_nonce \<Rightarrow>
     (case pair_nonce env of
        Inl what \<Rightarrow> (s, Inl what)
      | Inr nonce \<Rightarrow>
     (case SendControl (pair_script env) (pair_request pairing_code nonce receiver_nonce) s of
        (s, False) \<Rightarrow> (s, Inr (Inl ''pair_send_failed''))
      | (s, True) \<Rightarrow>
     (case ReceiveControl (session_events env) s of
        (s, None) \<Rightarrow> (s, Inr (Inl ''pair_timeout''))
      | (s, Some reply) \<Rightarrow>
          (if RelayJsonString reply ''type'' = Some ''error''
           then (s, Inr (Inl (case RelayJsonString reply ''code'' of None \<Rightarrow> ''pairing_failed'' | Some c \<Rightarrow> c)))
           else
             (case granted_session reply of
                None \<Rightarrow> (s, Inr (Inl ''invalid_session''))
              | Some (short, port) \<Rightarrow>
                  (s\<lparr>session_short := short, video_port := port,
                     receiver_video_address := (receiver_video_address s)\<lparr>host_port := port\<rparr>\<rparr>, Inr (Inr ()))))))))))"

datatype video_outcome = VideoSocketFailed | VideoConnectFailed | VideoOpened

definition OpenVideoSocket :: "video_outcome \<Rightarrow> LanSender \<Rightarrow> LanSender \<times> outcome" where
  "OpenVideoSocket result s =
     (case result of
        VideoSocketFailed \<Rightarrow> (s, Inl ''video_socket_failed'')
      | VideoConnectFailed \<Rightarrow> (s\<lparr>video_socket := Some (receiver_video_address s)\<rparr>, Inl ''video_connect_failed'')
      | VideoOpened \<Rightarrow> (s\<lparr>video_socket := Some (receiver_video_address s)\<rparr>, Inr ()))"

definition stop_message :: string where
  "stop_message = ''{\"type\":\"stop\",\"reason\":\"user_stopped_capture\"}''"

definition Stop :: "int list \<Rightarrow> LanSender \<Rightarrow> LanSender" where
  "Stop script s =
     (let was_connected = connected s;
          s = s\<lparr>connected := False, running := False\<rparr>;
          s = (if was_connected \<and> control_socket s then fst (SendControl script stop_message s) else s)
      in (CloseSockets s)\<lparr>session_short := 0, video_port := 0, receiver_address := '''', keyframe_requested := False,
           lan_buffer := [], lan_frames := []\<rparr>)"

record ConfigureEnv =
  stop_script :: "int list"
  connect_result :: connect_outcome
  pairing_env :: PairingEnv
  video_result :: video_outcome

definition pairing_code_valid :: "string \<Rightarrow> bool" where
  "pairing_code_valid c \<longleftrightarrow> length c = 6 \<and> list_all isdigit c"

definition configure_failed :: "LanSender \<Rightarrow> LanSender" where
  "configure_failed s = (CloseSockets s)\<lparr>session_short := 0\<rparr>"

definition Configure ::
    "(string \<Rightarrow> u32 option) \<Rightarrow> ConfigureEnv \<Rightarrow> string \<Rightarrow> string \<Rightarrow> LanSender \<Rightarrow> LanSender \<times> outcome fallible" where
  "Configure inet_pton env address pairing_code s =
     (let s = Stop (stop_script env) s
      in case IsTrustedLanIpv4 inet_pton address of
           None \<Rightarrow> (s, Inr (Inl ''receiver_address_not_allowed''))
         | Some trusted \<Rightarrow>
             (if \<not> pairing_code_valid pairing_code then (s, Inr (Inl ''pairing_code_invalid''))
              else
                (let s = s\<lparr>receiver_address := address, receiver_video_address := trusted\<rparr>
                 in case ConnectControl inet_pton (connect_result env) address s of
                      (s, Inl e) \<Rightarrow> (configure_failed s, Inr (Inl e))
                    | (s, Inr _) \<Rightarrow>
                        (case PerformPairing (pairing_env env) pairing_code s of
                           (s, Inl what) \<Rightarrow> (s, Inl what)
                         | (s, Inr (Inl e)) \<Rightarrow> (configure_failed s, Inr (Inl e))
                         | (s, Inr (Inr _)) \<Rightarrow>
                             (case OpenVideoSocket (video_result env) s of
                                (s, Inl e) \<Rightarrow> (configure_failed s, Inr (Inl e))
                              | (s, Inr _) \<Rightarrow>
                                  (s\<lparr>stats := no_stats, keyframe_requested := True, connected := True, running := True\<rparr>,
                                   Inr (Inr ())))))))"

section \<open>Video\<close>

definition lan_fragment_count :: "byte list \<Rightarrow> nat" where
  "lan_fragment_count video = (length video + kLanMaxUdpPayload - 1) div kLanMaxUdpPayload"

definition lan_payload :: "byte list \<Rightarrow> nat \<Rightarrow> byte list" where
  "lan_payload video i =
     (let offset = i * kLanMaxUdpPayload in take (min kLanMaxUdpPayload (length video - offset)) (drop offset video))"

definition lan_flags :: "bool \<Rightarrow> bool \<Rightarrow> u16" where
  "lan_flags key final = (if key then 3 else 0) OR (if final then 4 else 0)"

definition lan_packet :: "LocalVideoMessage \<Rightarrow> u32 \<Rightarrow> nat \<Rightarrow> byte list" where
  "lan_packet v short i =
     (let n = lan_fragment_count (payload v); part = lan_payload (payload v) i
      in be_put32 kLanVideoMagic @ [kLanProtocolVersion, word_of_nat kLanVideoHeaderSize]
         @ be_put16 (lan_flags (key_frame v) (i + 1 = n)) @ be_put32 short @ be_put32 (sequence v)
         @ be_put16 (word_of_nat i) @ be_put16 (word_of_nat n) @ be_put16 (word_of_nat (length part)) @ be_put16 0
         @ be_put64 (timestamp_us v) @ part)"

definition BuildLanVideoDatagrams :: "LocalVideoMessage \<Rightarrow> u32 \<Rightarrow> byte list list" where
  "BuildLanVideoDatagrams v short =
     (if short = 0 \<or> payload v = [] \<or> length (payload v) > kMaxVideoPayloadBytes then []
      else
        (let n = lan_fragment_count (payload v)
         in if n = 0 \<or> n > 0xffff then [] else map (lan_packet v short) [0..<n]))"

text \<open>The loop over the packets; the script says whether \<open>send\<close> took the whole packet.\<close>

fun send_packets :: "endpoint \<Rightarrow> byte list list \<Rightarrow> bool list \<Rightarrow> LanSender \<Rightarrow> LanSender \<times> bool" where
  "send_packets e [] script s = (s, True)"
| "send_packets e (p # ps) script s =
     (if script = [] \<or> \<not> hd script
      then (s\<lparr>stats := (stats s)\<lparr>send_errors := send_errors (stats s) + 1\<rparr>, connected := False\<rparr>, False)
      else send_packets e ps (tl script)
             (s\<lparr>video_out := video_out s @ [(e, p)],
                stats := (stats s)\<lparr>sent_datagrams := sent_datagrams (stats s) + 1\<rparr>\<rparr>))"

definition SendAccessUnit :: "bool list \<Rightarrow> LocalVideoMessage \<Rightarrow> LanSender \<Rightarrow> LanSender \<times> bool" where
  "SendAccessUnit script v s =
     (if \<not> connected s then (s, False)
      else
        (let packets = BuildLanVideoDatagrams v (session_short s)
         in case (packets, video_socket s) of
              (_ # _, Some e) \<Rightarrow>
                (case send_packets e packets script s of
                   (s, False) \<Rightarrow> (s, False)
                 | (s, True) \<Rightarrow>
                     (s\<lparr>stats := (stats s)\<lparr>sent_frames := sent_frames (stats s) + 1,
                          sent_bytes := sent_bytes (stats s) + word_of_nat (length (payload v))\<rparr>\<rparr>, True))
            | _ \<Rightarrow> (s\<lparr>stats := (stats s)\<lparr>send_errors := send_errors (stats s) + 1\<rparr>\<rparr>, False)))"

definition ConsumeKeyframeRequest :: "LanSender \<Rightarrow> LanSender \<times> bool" where
  "ConsumeKeyframeRequest s = (s\<lparr>keyframe_requested := False\<rparr>, keyframe_requested s)"

section \<open>The control loop\<close>

definition HandleControl :: "string \<Rightarrow> LanSender \<Rightarrow> LanSender" where
  "HandleControl json s =
     (let type = RelayJsonString json ''type''
      in if type = Some ''keyframe'' then s\<lparr>keyframe_requested := True\<rparr>
         else if type = Some ''telemetry'' then
           (let s = (case JsonUnsigned json ''framesDecoded'' of None \<Rightarrow> s
                     | Some n \<Rightarrow> s\<lparr>stats := (stats s)\<lparr>receiver_decoded := word_of_nat n\<rparr>\<rparr>)
            in case JsonUnsigned json ''framesDropped'' of None \<Rightarrow> s
                 | Some n \<Rightarrow> s\<lparr>stats := (stats s)\<lparr>receiver_dropped := word_of_nat n\<rparr>\<rparr>)
         else if type = Some ''error'' then s\<lparr>connected := False, running := False\<rparr>
         else s)"

definition ping_message :: "nat \<Rightarrow> string" where
  "ping_message timestamp = ''{\"type\":\"ping\",\"senderSendUs\":'' @ dec timestamp @ ''}''"

text \<open>One iteration of \<open>ControlLoop\<close>; \<open>next_ping\<close> and the clock are in microseconds.\<close>

definition ControlLoop_iteration ::
    "control_event list \<Rightarrow> nat \<Rightarrow> int list \<Rightarrow> nat \<Rightarrow> LanSender \<Rightarrow> LanSender \<times> nat" where
  "ControlLoop_iteration events clock script next_ping s =
     (if \<not> running s then (s, next_ping)
      else
        (let s = (case ReceiveControl events s of (s, None) \<Rightarrow> s | (s, Some json) \<Rightarrow> HandleControl json s)
         in if clock < next_ping then (s, next_ping)
            else
              (case SendControl script (ping_message clock) s of
                 (s, True) \<Rightarrow> (s, clock + 1000000)
               | (s, False) \<Rightarrow> (s\<lparr>connected := False, running := False\<rparr>, next_ping))))"

section \<open>The datagrams of an access unit\<close>

text \<open>
  The header as the wire format documents it: the layout of the host's datagrams under another
  magic number and version.
\<close>

definition read_lan_header :: "byte list \<Rightarrow> VideoHeader option" where
  "read_lan_header d =
     (if 32 \<le> length d \<and> be_get32 d 0 = 0x48535332 \<and> d ! 4 = 2 \<and> d ! 5 = 32
         \<and> length d = 32 + unat (be_get16 d 20)
      then Some \<lparr>session = be_get32 d 8, frame = be_get32 d 12, fragment = be_get16 d 16,
                 fragments = be_get16 d 18, flags = be_get16 d 6, payloadLength = be_get16 d 20,
                 timestampUs = be_get64 d 24\<rparr>
      else None)"

lemma lan_payload_take: "lan_payload video i = take kLanMaxUdpPayload (drop (i * kLanMaxUdpPayload) video)"
  by (simp add: lan_payload_def Let_def min_def)

lemma lan_payload_length:
  "i < lan_fragment_count video \<Longrightarrow> 0 < length (lan_payload video i) \<and> length (lan_payload video i) \<le> kLanMaxUdpPayload"
  using pieces_nonempty [of kLanMaxUdpPayload i "length video"]
  by (simp add: lan_payload_take lan_fragment_count_def kLanMaxUdpPayload_def)

lemma lan_payloads_concat: "concat (map (lan_payload video) [0..<lan_fragment_count video]) = video"
  using concat_all_pieces [of kLanMaxUdpPayload video]
  by (simp add: lan_payload_take [abs_def] lan_fragment_count_def kLanMaxUdpPayload_def)

lemma lan_packet_layout:
  fixes v :: LocalVideoMessage and short :: u32 and i :: nat
  defines "m \<equiv> lan_packet v short i" and "n \<equiv> lan_fragment_count (payload v)" and "part \<equiv> lan_payload (payload v) i"
  shows "be_get32 m 0 = kLanVideoMagic" "m ! 4 = kLanProtocolVersion" "m ! 5 = 32"
    "be_get16 m 6 = lan_flags (key_frame v) (i + 1 = n)" "be_get32 m 8 = short" "be_get32 m 12 = sequence v"
    "be_get16 m 16 = word_of_nat i" "be_get16 m 18 = word_of_nat n" "be_get16 m 20 = word_of_nat (length part)"
    "be_get64 m 24 = timestamp_us v" "length m = 32 + length part" "drop 32 m = part"
  unfolding m_def lan_packet_def Let_def n_def [symmetric] part_def [symmetric] kLanVideoHeaderSize_def
  by (auto simp: nth_append intro!: be_get16_layout be_get32_layout be_get64_layout)

definition lan_header :: "LocalVideoMessage \<Rightarrow> u32 \<Rightarrow> nat \<Rightarrow> VideoHeader" where
  "lan_header v short i =
     \<lparr>session = short, frame = sequence v, fragment = word_of_nat i, fragments = word_of_nat (lan_fragment_count (payload v)),
      flags = lan_flags (key_frame v) (i + 1 = lan_fragment_count (payload v)),
      payloadLength = word_of_nat (length (lan_payload (payload v) i)), timestampUs = timestamp_us v\<rparr>"

lemma read_lan_packet:
  assumes "i < lan_fragment_count (payload v)"
  shows "read_lan_header (lan_packet v short i) = Some (lan_header v short i)"
proof -
  have "length (lan_payload (payload v) i) \<le> 0xffff"
    using lan_payload_length [OF assms] by (simp add: kLanMaxUdpPayload_def)
  then show ?thesis
    by (simp add: read_lan_header_def lan_packet_layout lan_header_def unat_u16 kLanVideoMagic_def kLanProtocolVersion_def)
qed

lemma lan_fragment_count_bounds:
  assumes "payload v \<noteq> []" "length (payload v) \<le> kMaxVideoPayloadBytes"
  shows "0 < lan_fragment_count (payload v)" "lan_fragment_count (payload v) \<le> 6991"
proof -
  have "1200 \<le> length (payload v) + 1199" using assms(1) by (cases "payload v") simp_all
  then show "0 < lan_fragment_count (payload v)"
    by (simp add: lan_fragment_count_def kLanMaxUdpPayload_def div_greater_zero_iff)
  have "(length (payload v) + 1199) div 1200 \<le> (8388608 + 1199) div 1200"
    by (rule div_le_mono) (use assms(2) in \<open>simp add: kMaxVideoPayloadBytes_def\<close>)
  then show "lan_fragment_count (payload v) \<le> 6991" by (simp add: lan_fragment_count_def kLanMaxUdpPayload_def)
qed

lemma BuildLanVideoDatagrams_map:
  assumes "short \<noteq> 0" "payload v \<noteq> []" "length (payload v) \<le> kMaxVideoPayloadBytes"
  shows "BuildLanVideoDatagrams v short = map (lan_packet v short) [0..<lan_fragment_count (payload v)]"
  using assms lan_fragment_count_bounds [OF assms(2,3)] by (simp add: BuildLanVideoDatagrams_def Let_def)

lemma lan_datagrams:
  assumes "short \<noteq> 0" "payload v \<noteq> []" "length (payload v) \<le> kMaxVideoPayloadBytes"
  shows "map read_lan_header (BuildLanVideoDatagrams v short) =
      map (\<lambda>i. Some (lan_header v short i)) [0..<lan_fragment_count (payload v)]"
    and "concat (map (drop 32) (BuildLanVideoDatagrams v short)) = payload v"
    and "BuildLanVideoDatagrams v short \<noteq> []"
proof -
  have "map (drop 32) (BuildLanVideoDatagrams v short) = map (lan_payload (payload v)) [0..<lan_fragment_count (payload v)]"
    by (simp add: BuildLanVideoDatagrams_map [OF assms] lan_packet_layout(12))
  then show "concat (map (drop 32) (BuildLanVideoDatagrams v short)) = payload v"
    by (simp only: lan_payloads_concat)
qed (use lan_fragment_count_bounds(1) [OF assms(2,3)] in
      \<open>simp_all add: BuildLanVideoDatagrams_map [OF assms] read_lan_packet\<close>)

text \<open>An access unit is sent as a whole, or the sender counts an error and disconnects.\<close>

lemma send_packets_all:
  "list_all (\<lambda>taken. taken) script \<Longrightarrow> length ps \<le> length script \<Longrightarrow>
   \<exists>t. send_packets e ps script s = (t, True) \<and> video_out t = video_out s @ map (Pair e) ps"
proof (induction ps arbitrary: script s)
  case Nil
  show ?case by simp
next
  case (Cons p ps)
  obtain b bs where script: "script = b # bs" using Cons.prems(2) by (cases script) simp_all
  let ?s = "s\<lparr>video_out := video_out s @ [(e, p)], stats := (stats s)\<lparr>sent_datagrams := sent_datagrams (stats s) + 1\<rparr>\<rparr>"
  have "b" "list_all (\<lambda>taken. taken) bs" "length ps \<le> length bs" using Cons.prems by (simp_all add: script)
  from Cons.IH [OF this(2,3), of ?s] this(1) show ?case by (simp add: script)
qed

text \<open>What sending leaves as it is.\<close>

definition lan_session :: "LanSender \<Rightarrow> u32 \<times> u16 \<times> endpoint option \<times> endpoint \<times> bool \<times> bool" where
  "lan_session s = (session_short s, video_port s, video_socket s, receiver_video_address s, running s, control_socket s)"

lemma send_packets_out:
  "send_packets e ps script s = (t, ok) \<Longrightarrow>
     (\<exists>qs rest. ps = qs @ rest \<and> video_out t = video_out s @ map (Pair e) qs \<and> (ok \<longleftrightarrow> rest = []))"
proof (induction ps arbitrary: script s)
  case Nil
  then show ?case by simp
next
  case (Cons p ps)
  show ?case
  proof (cases "script = [] \<or> \<not> hd script")
    case True
    then have "video_out t = video_out s" "\<not> ok" using Cons.prems by auto
    then show ?thesis by (intro exI [of _ "[]"] exI [of _ "p # ps"]) simp
  next
    case False
    then have step: "send_packets e ps (tl script) (s\<lparr>video_out := video_out s @ [(e, p)],
        stats := (stats s)\<lparr>sent_datagrams := sent_datagrams (stats s) + 1\<rparr>\<rparr>) = (t, ok)"
      using Cons.prems by simp
    obtain qs rest where "ps = qs @ rest" "video_out t = (video_out s @ [(e, p)]) @ map (Pair e) qs" "ok \<longleftrightarrow> rest = []"
      using Cons.IH [OF step] by auto
    then show ?thesis by (intro exI [of _ "p # qs"] exI [of _ rest]) simp
  qed
qed

lemma send_packets_session:
  "send_packets e ps script s = (t, ok) \<Longrightarrow> lan_session t = lan_session s \<and> connected t = (ok \<and> connected s)"
proof (induction ps arbitrary: script s)
  case (Cons p ps)
  show ?case
  proof (cases "script = [] \<or> \<not> hd script")
    case True
    then show ?thesis using Cons.prems by (auto simp: lan_session_def)
  next
    case False
    then have "send_packets e ps (tl script) (s\<lparr>video_out := video_out s @ [(e, p)],
        stats := (stats s)\<lparr>sent_datagrams := sent_datagrams (stats s) + 1\<rparr>\<rparr>) = (t, ok)"
      using Cons.prems by simp
    from Cons.IH [OF this] show ?thesis by (simp add: lan_session_def)
  qed
qed simp

lemma SendAccessUnit_sends:
  assumes "connected s" "video_socket s = Some e" "session_short s \<noteq> 0" "payload v \<noteq> []"
    and "length (payload v) \<le> kMaxVideoPayloadBytes" "list_all (\<lambda>taken. taken) script" "length script = 6991"
  shows "\<exists>t. SendAccessUnit script v s = (t, True) \<and>
    video_out t = video_out s @ map (Pair e) (BuildLanVideoDatagrams v (session_short s)) \<and> connected t \<and>
    video_socket t = Some e \<and> session_short t = session_short s"
proof -
  let ?ds = "BuildLanVideoDatagrams v (session_short s)"
  obtain d ds where ds: "?ds = d # ds" using lan_datagrams(3) [OF assms(3-5)] by (cases ?ds) auto
  have "length ?ds \<le> length script"
    using lan_fragment_count_bounds(2) [OF assms(4,5)] assms(7) by (simp add: BuildLanVideoDatagrams_map [OF assms(3-5)])
  from send_packets_all [OF assms(6) this, of e s] obtain t
    where t: "send_packets e ?ds script s = (t, True)" "video_out t = video_out s @ map (Pair e) ?ds" by blast
  then show ?thesis
    using assms(1-3) ds send_packets_session [OF t(1)]
    by (simp add: SendAccessUnit_def lan_session_def del: send_packets.simps)
qed

section \<open>The control channel\<close>

text \<open>
  The relay's loop takes the frames that the host's control decoder takes; the two differ in what a
  refusal leaves behind.
\<close>

lemma take_frames_step:
  "take_frames b =
     (case ControlStep (with_buffer d b) of
        NeedMore \<Rightarrow> ([], b, True)
      | Rejected _ _ \<Rightarrow> ([], b, False)
      | Yields d' fs \<Rightarrow> (case take_frames (control_buffer d') of (gs, rest, ok) \<Rightarrow> (fs @ gs, rest, ok)))"
proof -
  have "control_buffer (with_buffer d b\<lparr>control_buffer := x\<rparr>) = x" for x by simp
  then show ?thesis
    by (subst take_frames.simps)
       (auto simp: ControlStep_def Let_def kLanMaxControlPayload_def kMaxControlPayload_def add.commute split: prod.split)
qed

lemma with_own_buffer: "with_buffer d (control_buffer d) = d"
  by (simp add: with_buffer_def)

lemma take_frames_loop:
  "ControlLoop d = (ok, d', fs) \<Longrightarrow>
     \<exists>rest. take_frames (control_buffer d) = (fs, rest, ok) \<and> (ok \<longrightarrow> rest = control_buffer d')"
proof (induction d arbitrary: d' fs rule: control.loop_induct)
  case (step d)
  note unfold = take_frames_step [of "control_buffer d" d, unfolded with_own_buffer]
  show ?case
  proof (cases "ControlStep d")
    case NeedMore
    then show ?thesis using step.prems unfold by (subst (asm) ControlLoop.simps) simp
  next
    case (Rejected e gs)
    then have "gs = []" by (auto simp: ControlStep_def Let_def split: if_splits)
    then show ?thesis using step.prems unfold Rejected by (subst (asm) ControlLoop.simps) simp
  next
    case (Yields e gs)
    then obtain hs where e: "ControlLoop e = (ok, d', hs)" "fs = gs @ hs"
      using step.prems by (subst (asm) ControlLoop.simps) (auto split: prod.splits)
    from step.IH [OF Yields e(1)] show ?thesis using unfold Yields e(2) by auto
  qed
qed

lemma AddControlBytes_accepted:
  assumes "PushControl d c = (True, d', fs)" "lan_buffer s = control_buffer d"
  shows "AddControlBytes c s = (s\<lparr>lan_buffer := control_buffer d', lan_frames := lan_frames s @ fs\<rparr>, True)"
proof -
  have small: "\<not> length (control_buffer d) + length c > kMaxControlPayload + 4" and loop: "ControlLoop (feed_control d c) = (True, d', fs)"
    using assms(1) by (auto simp: PushControl_def split: if_splits)
  have "take_frames (control_buffer d @ c) = (fs, control_buffer d', True)"
    using take_frames_loop [OF loop] by simp
  then show ?thesis using small
    by (simp add: AddControlBytes_def assms(2) kLanMaxControlPayload_def kMaxControlPayload_def)
qed

text \<open>So a whole stream of frames arrives in the queue, in order.\<close>

definition AddAll :: "byte list list \<Rightarrow> LanSender \<Rightarrow> LanSender \<times> bool" where
  "AddAll cs s = fold (\<lambda>c (s, ok). if ok then AddControlBytes c s else (s, False)) cs (s, True)"

lemma AddAll_Cons: "AddAll (c # cs) s = (case AddControlBytes c s of (s, True) \<Rightarrow> AddAll cs s | (s, False) \<Rightarrow> (s, False))"
proof -
  have stop: "fold (\<lambda>c (s, ok). if ok then AddControlBytes c s else (s, False)) cs (s', False) = (s', False)" for s'
    by (induction cs) simp_all
  show ?thesis by (auto simp: AddAll_def stop split: prod.split bool.split)
qed

lemma AddAll_receive_all:
  "receive_all PushControl d cs = (True, d', fs) \<Longrightarrow> lan_buffer s = control_buffer d \<Longrightarrow>
     AddAll cs s = (s\<lparr>lan_buffer := control_buffer d', lan_frames := lan_frames s @ fs\<rparr>, True)"
proof (induction cs arbitrary: d s fs)
  case Nil
  then show ?case by (simp add: AddAll_def)
next
  case (Cons c cs)
  from Cons.prems(1) obtain e gs hs where e: "PushControl d c = (True, e, gs)" "receive_all PushControl e cs = (True, d', hs)" "fs = gs @ hs"
    by (auto split: prod.splits bool.splits)
  from AddControlBytes_accepted [OF e(1) Cons.prems(2)]
  have "AddControlBytes c s = (s\<lparr>lan_buffer := control_buffer e, lan_frames := lan_frames s @ gs\<rparr>, True)" .
  then show ?case using Cons.IH [OF e(2), of "s\<lparr>lan_buffer := control_buffer e, lan_frames := lan_frames s @ gs\<rparr>"]
    by (simp add: AddAll_Cons e(3))
qed

lemma AddAll_frames:
  assumes "\<forall>f \<in> set fs. control_payload f \<and> length f \<le> 57345" "concat cs = concat (map EncodeControlFrame fs)"
    and "\<forall>c \<in> set cs. length c \<le> 8192" "lan_buffer s = []"
  shows "AddAll cs s = (s\<lparr>lan_frames := lan_frames s @ fs\<rparr>, True)"
proof -
  have "receive_all PushControl newControlDecoder cs = (True, newControlDecoder, fs)"
    using assms(1-3) by (intro control_stream [where m = 8192]) (auto simp: kMaxControlPayload_def)
  from AddAll_receive_all [OF this] assms(4) show ?thesis by (simp add: newControlDecoder_def)
qed

text \<open>
  After a length field that is zero or too large, the buffer keeps it at its front: no later bytes
  ever make a frame.
\<close>

definition control_blocked :: "LanSender \<Rightarrow> bool" where
  "control_blocked s \<longleftrightarrow> 4 \<le> length (lan_buffer s) \<and>
     (unat (be_get32 (lan_buffer s) 0) = 0 \<or> unat (be_get32 (lan_buffer s) 0) > kLanMaxControlPayload)"

lemma take_frames_refused:
  "take_frames b = (fs, rest, False) \<Longrightarrow>
     4 \<le> length rest \<and> (unat (be_get32 rest 0) = 0 \<or> unat (be_get32 rest 0) > kLanMaxControlPayload)"
proof (induction b arbitrary: fs rule: take_frames.induct)
  case (1 b)
  let ?n = "unat (be_get32 b 0)"
  consider (short) "length b < 4" | (bad) "4 \<le> length b" "?n = 0 \<or> ?n > kLanMaxControlPayload"
    | (part) "4 \<le> length b" "\<not> (?n = 0 \<or> ?n > kLanMaxControlPayload)" "length b < 4 + ?n"
    | (whole) "\<not> length b < 4" "\<not> (?n = 0 \<or> ?n > kLanMaxControlPayload)" "\<not> length b < 4 + ?n" by linarith
  then show ?case
  proof cases
    case whole
    obtain gs r ok where rec: "take_frames (drop (4 + ?n) b) = (gs, r, ok)" by (metis prod_cases3)
    have "(fs, rest, False) = (chars_of (take ?n (drop 4 b)) # gs, r, ok)"
      using "1.prems" whole rec by (subst (asm) take_frames.simps) (simp add: Let_def)
    then have "take_frames (drop (4 + ?n) b) = (gs, rest, False)" using rec by simp
    from "1.IH" [OF whole(1) refl whole(2,3) this] show ?thesis .
  qed (use "1.prems" in \<open>(subst (asm) take_frames.simps; auto simp: Let_def)+\<close>)
qed

lemma AddControlBytes_blocked:
  assumes "control_blocked s"
  shows "snd (AddControlBytes bs s) = False" "control_blocked (fst (AddControlBytes bs s))"
    "lan_frames (fst (AddControlBytes bs s)) = lan_frames s"
proof -
  have "be_get32 (lan_buffer s @ bs) 0 = be_get32 (lan_buffer s) 0"
    using assms by (intro be_get_append) (simp add: control_blocked_def)
  then have "take_frames (lan_buffer s @ bs) = ([], lan_buffer s @ bs, False)"
    using assms by (subst take_frames.simps) (auto simp: control_blocked_def Let_def)
  with \<open>be_get32 (lan_buffer s @ bs) 0 = _\<close> assms
  show "snd (AddControlBytes bs s) = False" "control_blocked (fst (AddControlBytes bs s))"
    "lan_frames (fst (AddControlBytes bs s)) = lan_frames s"
    by (auto simp: AddControlBytes_def control_blocked_def)
qed

lemma ReceiveControl_blocked:
  "control_blocked s \<Longrightarrow> lan_frames s = [] \<Longrightarrow>
     \<exists>t. ReceiveControl es s = (t, None) \<and> control_blocked t \<and> lan_frames t = [] \<and>
       connected t = connected s \<and> running t = running s"
proof (induction es s rule: ReceiveControl.induct)
  case (2 e es s)
  show ?case
  proof (cases e)
    case (RecvBytes bs)
    obtain t ok where t: "AddControlBytes bs s = (t, ok)" by fastforce
    note blocked = AddControlBytes_blocked [OF 2(3), of bs, unfolded t fst_conv snd_conv]
    have "connected t = connected s \<and> running t = running s"
      using t by (auto simp: AddControlBytes_def split: if_splits prod.splits)
    then show ?thesis using 2(3,4) blocked t by (auto simp: RecvBytes)
  qed (use 2 in auto)
qed simp

text \<open>Receiving one frame, in any pieces, before the deadline.\<close>

lemma ReceiveControl_frame:
  assumes "control_payload json"
    and "control_socket s" "lan_frames s = []" "lan_buffer s @ concat ds = EncodeControlFrame json"
    and "\<forall>c \<in> set ds. c \<noteq> []" "ds \<noteq> []"
  shows "ReceiveControl (map RecvBytes ds @ [e]) s = (s\<lparr>lan_buffer := []\<rparr>, Some json)"
  using assms(2-)
proof (induction ds arbitrary: s)
  case Nil
  then show ?case by simp
next
  case (Cons d ds)
  let ?p = "lan_buffer s"
  have payload: "length json \<le> kLanMaxControlPayload" "length (EncodeControlFrame json) = length json + 4"
    using assms(1) frame_bytes(1) [OF assms(1)] by (simp_all add: control_payload_def kMaxControlPayload_def kLanMaxControlPayload_def)
  have "length ?p + length d + length (concat ds) = length json + 4"
    using arg_cong [OF Cons.prems(3), of length] payload(2) by simp
  then have small: "\<not> length ?p + length d > kLanMaxControlPayload + 4" using payload(1) by simp
  show ?case
  proof (cases "ds = []")
    case True
    then have "?p @ d = EncodeControlFrame json @ []" using Cons.prems(3) by simp
    then have "take_frames (?p @ d) = ([json], [], True)"
      using ControlStep_frame [OF assms(1), of newControlDecoder "[]"]
      by (subst take_frames_step [of _ newControlDecoder]) (simp add: take_frames.simps [of "[]"])
    then have "AddControlBytes d s = (s\<lparr>lan_buffer := [], lan_frames := [json]\<rparr>, True)"
      using small Cons.prems(2) by (simp add: AddControlBytes_def)
    then show ?thesis using True Cons.prems(1,2) by (cases s) simp
  next
    case False
    then obtain d' ds' where ds: "ds = d' # ds'" by (cases ds) auto
    have "EncodeControlFrame json = (?p @ d) @ concat ds" "concat ds \<noteq> []"
      using Cons.prems(3,4) ds by auto
    then have "take_frames (?p @ d) = ([], ?p @ d, True)"
      using ControlStep_prefix [OF assms(1), of "?p @ d" "concat ds" newControlDecoder]
      by (subst take_frames_step [of _ newControlDecoder]) simp
    then have add: "AddControlBytes d s = (s\<lparr>lan_buffer := ?p @ d\<rparr>, True)"
      using small Cons.prems(2) by (simp add: AddControlBytes_def)
    have "ReceiveControl (map RecvBytes ds @ [e]) (s\<lparr>lan_buffer := ?p @ d\<rparr>) =
        (s\<lparr>lan_buffer := ?p @ d\<rparr>\<lparr>lan_buffer := []\<rparr>, Some json)"
      by (rule Cons.IH) (use Cons.prems False in simp_all)
    then show ?thesis using add Cons.prems(1,2) by simp
  qed
qed

section \<open>The sender's invariant\<close>

text \<open>
  The control channel's bytes and frames are one part of the state; the rest is not touched by
  sending and receiving control messages.
\<close>

definition lan_core ::
    "LanSender \<Rightarrow> (bool \<times> bool \<times> bool \<times> bool) \<times> endpoint option \<times> endpoint \<times> u32 \<times> u16 \<times> LanSenderStats \<times> (endpoint \<times> byte list) list" where
  "lan_core s = ((connected s, running s, control_socket s, keyframe_requested s), video_socket s, receiver_video_address s,
     session_short s, video_port s, stats s, video_out s)"

lemma lan_core_fields:
  assumes "lan_core t = lan_core s"
  shows "connected t = connected s" "running t = running s" "control_socket t = control_socket s"
    "keyframe_requested t = keyframe_requested s" "video_socket t = video_socket s"
    "receiver_video_address t = receiver_video_address s" "session_short t = session_short s"
    "video_port t = video_port s" "stats t = stats s" "video_out t = video_out s"
  using assms by (simp_all add: lan_core_def)

lemma SendControl_core: "SendControl script json s = (t, ok) \<Longrightarrow> lan_core t = lan_core s"
  by (auto simp: SendControl_def Let_def lan_core_def split: if_splits prod.splits)

lemma AddControlBytes_core: "AddControlBytes bs s = (t, ok) \<Longrightarrow> lan_core t = lan_core s"
  by (auto simp: AddControlBytes_def lan_core_def split: if_splits prod.splits)

lemma ReceiveControl_core: "ReceiveControl es s = (t, json) \<Longrightarrow> lan_core t = lan_core s"
proof (induction es s rule: ReceiveControl.induct)
  case (2 e es s)
  show ?case
  proof (cases "lan_frames s")
    case Nil
    show ?thesis
    proof (cases e)
      case (RecvBytes bs)
      obtain u ok where u: "AddControlBytes bs s = (u, ok)" by fastforce
      show ?thesis
      proof (cases "control_socket s \<and> ok")
        case True
        then have "lan_core t = lan_core u" using 2 Nil RecvBytes u by simp
        then show ?thesis using AddControlBytes_core [OF u] by simp
      next
        case False
        then show ?thesis using 2(3) Nil RecvBytes u AddControlBytes_core [OF u] by (auto split: if_splits)
      qed
    qed (use 2 Nil in \<open>auto split: if_splits\<close>)
  next
    case (Cons f fs)
    then show ?thesis using 2(3) by (auto simp: lan_core_def)
  qed
qed simp

definition lan_endpoint :: "endpoint \<Rightarrow> bool" where
  "lan_endpoint e \<longleftrightarrow> private_host (host_address e) \<and> 1024 \<le> host_port e"

definition lan_inv :: "LanSender \<Rightarrow> bool" where
  "lan_inv s \<longleftrightarrow>
     (\<forall>e. video_socket s = Some e \<longrightarrow> lan_endpoint e \<and> session_short s \<noteq> 0) \<and>
     (connected s \<longrightarrow> video_socket s \<noteq> None \<and> control_socket s) \<and>
     list_all (\<lambda>(e, _). lan_endpoint e) (video_out s)"

lemma lan_inv_start: "lan_inv newLanSender"
  by (simp add: lan_inv_def newLanSender_def)

lemma lan_inv_core: "lan_core t = lan_core s \<Longrightarrow> lan_inv t = lan_inv s"
  by (simp add: lan_inv_def lan_core_def)

lemma lan_inv_closed:
  assumes "lan_inv s"
  shows "lan_inv (Stop script s)" "\<not> connected s \<Longrightarrow> lan_inv (configure_failed s)"
    "\<not> connected (Stop script s)" "video_socket (Stop script s) = None"
proof -
  obtain t ok where t: "SendControl script stop_message (s\<lparr>connected := False, running := False\<rparr>) = (t, ok)" by fastforce
  note core = SendControl_core [OF t, THEN lan_core_fields(1)] SendControl_core [OF t, THEN lan_core_fields(10)]
  show "lan_inv (Stop script s)" "\<not> connected (Stop script s)" "video_socket (Stop script s) = None"
    using assms core by (simp_all add: Stop_def Let_def t CloseSockets_def lan_inv_def)
  show "\<not> connected s \<Longrightarrow> lan_inv (configure_failed s)"
    using assms by (simp add: configure_failed_def CloseSockets_def lan_inv_def)
qed

lemma granted_session_SomeD:
  assumes "granted_session json = Some (short, port)"
  shows "short \<noteq> 0" "1024 \<le> port"
proof -
  obtain a b where ab: "JsonUnsigned json ''sessionShort'' = Some a" "JsonUnsigned json ''videoPort'' = Some b"
      "0 < a" "a \<le> 0xffffffff" "1024 \<le> b" "b \<le> 0xffff" "short = word_of_nat a" "port = word_of_nat b"
    using assms by (auto simp: granted_session_def split: option.splits if_splits)
  have "unat short = a" "unat port = b" using ab(3-8) by (simp_all add: unat_of_nat)
  then show "short \<noteq> 0" "1024 \<le> port" using ab(3,5) by (auto simp: word_le_nat_alt)
qed

text \<open>Pairing changes the session when it succeeds, and nothing outside the control channel otherwise.\<close>

definition paired_with :: "u32 \<Rightarrow> u16 \<Rightarrow> LanSender \<Rightarrow> LanSender" where
  "paired_with short port s =
     s\<lparr>session_short := short, video_port := port,
       receiver_video_address := (receiver_video_address s)\<lparr>host_port := port\<rparr>\<rparr>"

lemma PerformPairing_cases:
  assumes "PerformPairing env c s = (t, r)"
  shows "(\<exists>u short port. r = Inr (Inr ()) \<and> t = paired_with short port u \<and> lan_core u = lan_core s \<and> short \<noteq> 0 \<and> 1024 \<le> port) \<or>
    (r \<noteq> Inr (Inr ()) \<and> lan_core t = lan_core s)"
proof -
  obtain s1 ok1 where s1: "SendControl (hello_script env) hello_request s = (s1, ok1)" by fastforce
  obtain s2 hello where s2: "ReceiveControl (hello_events env) s1 = (s2, hello)" by fastforce
  define nonce where "nonce = (case pair_nonce env of Inl _ \<Rightarrow> '''' | Inr n \<Rightarrow> n)"
  define rn where "rn = (case hello of None \<Rightarrow> '''' | Some h \<Rightarrow> (case hello_nonce h of None \<Rightarrow> '''' | Some n \<Rightarrow> n))"
  obtain s3 ok3 where s3: "SendControl (pair_script env) (pair_request c nonce rn) s2 = (s3, ok3)" by fastforce
  obtain s4 reply where s4: "ReceiveControl (session_events env) s3 = (s4, reply)" by fastforce
  have core: "lan_core s1 = lan_core s" "lan_core s2 = lan_core s" "lan_core s3 = lan_core s" "lan_core s4 = lan_core s"
    using SendControl_core [OF s1] ReceiveControl_core [OF s2] SendControl_core [OF s3] ReceiveControl_core [OF s4] by simp_all
  show ?thesis
  proof (cases "r = Inr (Inr ())")
    case True
    then have "\<exists>short port json. granted_session json = Some (short, port) \<and> t = paired_with short port s4"
      using assms s1 s2 s3 s4
      by (auto simp: PerformPairing_def nonce_def rn_def paired_with_def split: prod.splits bool.splits option.splits sum.splits if_splits)
    then show ?thesis using granted_session_SomeD core(4) True by blast
  next
    case False
    then have "t \<in> {s1, s2, s3, s4}"
      using assms s1 s2 s3 s4
      by (auto simp: PerformPairing_def nonce_def rn_def paired_with_def split: prod.splits bool.splits option.splits sum.splits if_splits)
    then show ?thesis using core False by auto
  qed
qed

lemma ConnectControl_fields:
  assumes "ConnectControl inet r a s = (t, out)"
  shows "t = s \<or> t = s\<lparr>control_socket := True\<rparr>" "out = Inr () \<Longrightarrow> t = s\<lparr>control_socket := True\<rparr>"
  using assms by (auto simp: ConnectControl_def Let_def split: option.splits if_splits connect_outcome.splits)

lemma lan_inv_control_socket: "lan_inv s \<Longrightarrow> lan_inv (s\<lparr>control_socket := True\<rparr>)"
  by (simp add: lan_inv_def)

lemma trusted_private: "IsTrustedLanIpv4 inet a = Some e \<Longrightarrow> private_host (host_address e)"
  by (auto simp: IsTrustedLanIpv4_def split: option.splits if_splits)

text \<open>The result of a configuration that does not throw.\<close>

lemma Configure_cases:
  assumes "Configure inet env a c s = (t, r)" "lan_inv s"
  shows "lan_inv t" and "r = Inr (Inr ()) \<longleftrightarrow> connected t"
proof -
  let ?s0 = "Stop (stop_script env) s"
  note s0 = lan_inv_closed(1,3,4) [OF assms(2), of "stop_script env"]
  have "lan_inv t \<and> (r = Inr (Inr ()) \<longleftrightarrow> connected t)"
  proof (cases "IsTrustedLanIpv4 inet a")
    case None
    then show ?thesis using assms(1) s0 by (auto simp: Configure_def Let_def)
  next
    case (Some e)
    let ?s1 = "?s0\<lparr>receiver_address := a, receiver_video_address := e\<rparr>"
    obtain s2 out2 where s2: "ConnectControl inet (connect_result env) a ?s1 = (s2, out2)" by fastforce
    obtain s3 r3 where s3: "PerformPairing (pairing_env env) c s2 = (s3, r3)" by fastforce
    have s1: "lan_inv ?s1" "\<not> connected ?s1" "video_socket ?s1 = None" using s0 by (simp_all add: lan_inv_def)
    have two: "lan_inv s2" "\<not> connected s2" "video_socket s2 = None" "receiver_video_address s2 = e"
      using ConnectControl_fields(1) [OF s2] s1 lan_inv_control_socket [OF s1(1)] by auto
    show ?thesis
    proof (cases "pairing_code_valid c \<and> out2 = Inr ()")
      case False
      show ?thesis
      proof (cases "pairing_code_valid c")
        case True
        then obtain e' where e': "out2 = Inl e'" using False by (cases out2) auto
        have "Configure inet env a c s = (configure_failed s2, Inr (Inl e'))"
          using True by (simp add: Configure_def Let_def Some s2 e')
        then show ?thesis
          using assms(1) two lan_inv_closed(2) [OF two(1,2)] by (auto simp: configure_failed_def CloseSockets_def)
      qed (use assms(1) s0 Some in \<open>auto simp: Configure_def Let_def\<close>)
    next
      case True
      then have sock: "control_socket s2" using ConnectControl_fields(2) [OF s2] by simp
      have conf: "Configure inet env a c s =
        (case (s3, r3) of (s, Inl what) \<Rightarrow> (s, Inl what)
         | (s, Inr (Inl e)) \<Rightarrow> (configure_failed s, Inr (Inl e))
         | (s, Inr (Inr _)) \<Rightarrow>
             (case OpenVideoSocket (video_result env) s of
                (s, Inl e) \<Rightarrow> (configure_failed s, Inr (Inl e))
              | (s, Inr _) \<Rightarrow>
                  (s\<lparr>stats := no_stats, keyframe_requested := True, connected := True, running := True\<rparr>, Inr (Inr ()))))"
        using True by (simp add: Configure_def Let_def Some s2 s3 split: sum.split)
      from PerformPairing_cases [OF s3]
      consider (paired) u short port where "r3 = Inr (Inr ())" "s3 = paired_with short port u" "lan_core u = lan_core s2"
          "short \<noteq> 0" "1024 \<le> port"
        | (refused) "r3 \<noteq> Inr (Inr ())" "lan_core s3 = lan_core s2" by blast
      then show ?thesis
      proof cases
        case refused
        then have inv3: "lan_inv s3" "\<not> connected s3" using two lan_inv_core [OF refused(2)] lan_core_fields(1) [OF refused(2)] by simp_all
        show ?thesis using assms(1) conf refused(1) inv3 lan_inv_closed(2) [OF inv3]
          by (auto simp: configure_failed_def CloseSockets_def split: sum.splits)
      next
        case paired
        note core = lan_core_fields [OF paired(3)]
        have ep: "lan_endpoint (receiver_video_address s3)"
          using trusted_private [OF Some] core(6) two(4) paired(5) by (simp add: paired(2) paired_with_def lan_endpoint_def)
        have inv3: "lan_inv s3" "\<not> connected s3" "session_short s3 \<noteq> 0" "control_socket s3"
          using two(1-3) core paired(4) sock by (simp_all add: paired(2) paired_with_def lan_inv_def)
        then have inv4: "lan_inv (s3\<lparr>video_socket := Some (receiver_video_address s3)\<rparr>)"
          using ep by (simp add: lan_inv_def)
        show ?thesis
          using assms(1) conf paired(1) inv3 inv4 ep lan_inv_closed(2) [OF inv3(1,2)] lan_inv_closed(2) [OF inv4] inv3(2)
          by (auto simp: OpenVideoSocket_def configure_failed_def CloseSockets_def lan_inv_def split: video_outcome.splits)
      qed
    qed
  qed
  then show "lan_inv t" and "r = Inr (Inr ()) \<longleftrightarrow> connected t" by blast+
qed

lemma SendAccessUnit_inv:
  assumes "SendAccessUnit script v s = (t, ok)" "lan_inv s"
  shows "lan_inv t" "ok \<Longrightarrow> connected t"
proof -
  let ?ds = "BuildLanVideoDatagrams v (session_short s)"
  have "lan_inv t \<and> (ok \<longrightarrow> connected t)"
  proof (cases "connected s \<and> ?ds \<noteq> []")
    case False
    then show ?thesis using assms by (auto simp: SendAccessUnit_def Let_def lan_inv_def split: list.splits if_splits)
  next
    case True
    then obtain e where e: "video_socket s = Some e" using assms(2) by (auto simp: lan_inv_def)
    obtain d ds where ds: "?ds = d # ds" using True by (cases ?ds) auto
    obtain u k where u: "send_packets e ?ds script s = (u, k)" by fastforce
    have ep: "lan_endpoint e" "session_short s \<noteq> 0" using assms(2) e by (auto simp: lan_inv_def)
    obtain qs where out: "video_out u = video_out s @ map (Pair e) qs" using send_packets_out [OF u] by blast
    have "lan_inv u" using assms(2) e ep out send_packets_session [OF u]
      by (auto simp: lan_inv_def lan_session_def list_all_iff)
    then show ?thesis using assms(1) True e ds u send_packets_session [OF u]
      by (cases k) (auto simp: SendAccessUnit_def lan_inv_def simp del: send_packets.simps)
  qed
  then show "lan_inv t" "ok \<Longrightarrow> connected t" by blast+
qed

lemma HandleControl_inv: "lan_inv s \<Longrightarrow> lan_inv (HandleControl json s)"
  by (auto simp: HandleControl_def Let_def lan_inv_def split: option.splits)

lemma ControlLoop_iteration_inv:
  assumes "lan_inv s" "ControlLoop_iteration es clock script next_ping s = (t, n)"
  shows "lan_inv t"
proof -
  obtain u json where u: "ReceiveControl es s = (u, json)" by fastforce
  have "lan_inv u" using lan_inv_core [OF ReceiveControl_core [OF u]] assms(1) by simp
  then have v: "lan_inv (case json of None \<Rightarrow> u | Some j \<Rightarrow> HandleControl j u)" (is "lan_inv ?v")
    by (cases json) (simp_all add: HandleControl_inv)
  obtain w ok where w: "SendControl script (ping_message clock) ?v = (w, ok)" by fastforce
  have "lan_inv w" using lan_inv_core [OF SendControl_core [OF w]] v by simp
  then show ?thesis
    using assms v w by (cases json) (auto simp: ControlLoop_iteration_def Let_def u lan_inv_def split: if_splits bool.splits)
qed

section \<open>A receiver that answers is configured\<close>

lemma EncodeControl_payload: "control_payload json \<Longrightarrow> EncodeControl json = EncodeControlFrame json \<and> EncodeControl json \<noteq> []"
  by (auto simp: control_payload_def EncodeControl_def EncodeControlFrame_def kLanMaxControlPayload_def kMaxControlPayload_def
      be_put32_def)

lemma lan_SendControl_whole:
  assumes "control_payload json" "control_socket s" "int (length (EncodeControl json)) \<le> n"
  shows "SendControl [n] json s = (s\<lparr>control_out := control_out s @ EncodeControl json\<rparr>, True)"
proof -
  have "0 < length (EncodeControl json)" using EncodeControl_payload [OF assms(1)] length_greater_0_conv by blast
  then have "send_all (EncodeControl json) [n] = (EncodeControl json, True)"
    using assms(3) by (intro send_all_once) linarith+
  moreover have "EncodeControl json \<noteq> []" using EncodeControl_payload [OF assms(1)] by blast
  ultimately show ?thesis using assms(2) by (simp add: SendControl_def Let_def)
qed

text \<open>The pieces in which a reply arrives before its deadline.\<close>

definition arrives :: "string \<Rightarrow> control_event list \<Rightarrow> bool" where
  "arrives json es \<longleftrightarrow> control_payload json \<and>
     (\<exists>cs e. es = map RecvBytes cs @ [e] \<and> concat cs = EncodeControlFrame json \<and> [] \<notin> set cs)"

lemma ReceiveControl_arrives:
  assumes "arrives json es" "control_socket s" "lan_buffer s = []" "lan_frames s = []"
  shows "ReceiveControl es s = (s, Some json)"
proof -
  obtain cs e where cs: "es = map RecvBytes cs @ [e]" "concat cs = EncodeControlFrame json" "[] \<notin> set cs"
      and json: "control_payload json"
    using assms(1) by (auto simp: arrives_def)
  have "cs \<noteq> []" using cs(2) frame_bytes(1) [OF json] by (auto simp: be_put32_def)
  then have "ReceiveControl es s = (s\<lparr>lan_buffer := []\<rparr>, Some json)"
    unfolding cs(1) using cs assms(2-4) by (intro ReceiveControl_frame [OF json]) auto
  then show ?thesis using assms(3) by (cases s) simp
qed

definition answers :: "PairingEnv \<Rightarrow> string \<Rightarrow> string \<Rightarrow> string \<Rightarrow> u32 \<Rightarrow> u16 \<Rightarrow> bool" where
  "answers env c nonce receiver_nonce short port \<longleftrightarrow>
     (\<exists>hello reply n m. hello_script env = [n] \<and> int (length (EncodeControl hello_request)) \<le> n \<and>
        arrives hello (hello_events env) \<and> hello_nonce hello = Some receiver_nonce \<and> pair_nonce env = Inr nonce \<and>
        control_payload (pair_request c nonce receiver_nonce) \<and> pair_script env = [m] \<and>
        int (length (EncodeControl (pair_request c nonce receiver_nonce))) \<le> m \<and>
        arrives reply (session_events env) \<and> RelayJsonString reply ''type'' \<noteq> Some ''error'' \<and>
        granted_session reply = Some (short, port))"

lemma control_payload_hello: "control_payload hello_request"
  by (simp add: control_payload_def hello_request_def kMaxControlPayload_def)

lemma PerformPairing_answers:
  assumes "answers env c nonce rn short port" "control_socket s" "lan_buffer s = []" "lan_frames s = []"
  shows "PerformPairing env c s =
    (paired_with short port (s\<lparr>control_out := control_out s @ EncodeControl hello_request @
       EncodeControl (pair_request c nonce rn)\<rparr>), Inr (Inr ()))"
proof -
  obtain hello reply n m where a: "hello_script env = [n]" "int (length (EncodeControl hello_request)) \<le> n"
      "arrives hello (hello_events env)" "hello_nonce hello = Some rn" "pair_nonce env = Inr nonce"
      "control_payload (pair_request c nonce rn)" "pair_script env = [m]"
      "int (length (EncodeControl (pair_request c nonce rn))) \<le> m"
      "arrives reply (session_events env)" "RelayJsonString reply ''type'' \<noteq> Some ''error''"
      "granted_session reply = Some (short, port)"
    using assms(1) unfolding answers_def by blast
  let ?s1 = "s\<lparr>control_out := control_out s @ EncodeControl hello_request\<rparr>"
  let ?s2 = "?s1\<lparr>control_out := control_out ?s1 @ EncodeControl (pair_request c nonce rn)\<rparr>"
  have 1: "SendControl (hello_script env) hello_request s = (?s1, True)"
    unfolding a(1) by (rule lan_SendControl_whole [OF control_payload_hello assms(2) a(2)])
  have 2: "ReceiveControl (hello_events env) ?s1 = (?s1, Some hello)"
    by (rule ReceiveControl_arrives [OF a(3)]) (simp_all add: assms(2-4))
  have 3: "SendControl (pair_script env) (pair_request c nonce rn) ?s1 = (?s2, True)"
    unfolding a(7) by (rule lan_SendControl_whole [OF a(6) _ a(8)]) (simp add: assms(2))
  have 4: "ReceiveControl (session_events env) ?s2 = (?s2, Some reply)"
    by (rule ReceiveControl_arrives [OF a(9)]) (simp_all add: assms(2-4))
  show ?thesis
    unfolding PerformPairing_def 1 prod.case bool.case 2 option.case a(4) a(5) sum.case 3 4 a(11)
    using a(10) by (simp add: paired_with_def)
qed

lemma Configure_answers:
  assumes "inet a = Some h" "private_host h" "pairing_code_valid c" "connect_result env = ConnectDone"
    and "answers (pairing_env env) c nonce rn short port" "video_result env = VideoOpened"
  shows "\<exists>t. Configure inet env a c s = (t, Inr (Inr ())) \<and> connected t \<and> running t \<and> keyframe_requested t \<and>
    session_short t = short \<and> video_socket t = Some \<lparr>host_address = h, host_port = port\<rparr> \<and> stats t = no_stats \<and>
    control_out t = control_out (Stop (stop_script env) s) @ EncodeControl hello_request @ EncodeControl (pair_request c nonce rn)"
proof -
  let ?s0 = "Stop (stop_script env) s"
  let ?s1 = "?s0\<lparr>receiver_address := a, receiver_video_address := \<lparr>host_address = h, host_port = 0\<rparr>\<rparr>"
  have trusted: "IsTrustedLanIpv4 inet a = Some \<lparr>host_address = h, host_port = 0\<rparr>"
    by (simp add: IsTrustedLanIpv4_def assms(1,2))
  have connect: "ConnectControl inet (connect_result env) a ?s1 = (?s1\<lparr>control_socket := True\<rparr>, Inr ())"
    by (simp add: ConnectControl_def trusted assms(4) Let_def)
  have empty: "lan_buffer ?s0 = []" "lan_frames ?s0 = []" by (simp_all add: Stop_def Let_def)
  have pairing: "PerformPairing (pairing_env env) c (?s1\<lparr>control_socket := True\<rparr>) =
    (paired_with short port (?s1\<lparr>control_socket := True, control_out := control_out ?s0 @ EncodeControl hello_request @
       EncodeControl (pair_request c nonce rn)\<rparr>), Inr (Inr ()))"
    using PerformPairing_answers [OF assms(5), of "?s1\<lparr>control_socket := True\<rparr>"] empty by simp
  show ?thesis
    by (simp add: Configure_def Let_def trusted assms(3) connect pairing OpenVideoSocket_def assms(6) paired_with_def)
qed

section \<open>An example\<close>

definition example_hello :: string where
  "example_hello = render_object [(''type'', JStr ''hello''), (''protocol'', JInt 2), (''receiverNonce'', JStr ''0123456789abcdef'')]"

definition example_session :: string where
  "example_session = render_object [(''type'', JStr ''session''), (''protocol'', JInt 2), (''sessionShort'', JInt 7),
     (''videoPort'', JInt 47101), (''width'', JInt 1280), (''height'', JInt 720), (''fps'', JInt 30)]"

definition example_inet :: "string \<Rightarrow> u32 option" where
  "example_inet a = (if a = ''10.0.0.5'' then Some 0x0A000005 else None)"

definition example_configure :: ConfigureEnv where
  "example_configure = \<lparr>stop_script = [], connect_result = ConnectDone,
     pairing_env = \<lparr>hello_script = [100], hello_events = [RecvBytes (EncodeControlFrame example_hello), SelectTimeout],
       pair_nonce = Inr ''00'', pair_script = [1000],
       session_events = [RecvBytes (EncodeControlFrame example_session), SelectTimeout]\<rparr>,
     video_result = VideoOpened\<rparr>"

lemmas example_key_simps = searchable_def key_word_def plain_def isalnum_def isdigit_def isupper_def islower_def ord_def

lemma example_hello_nonce: "hello_nonce example_hello = Some ''0123456789abcdef''"
proof -
  let ?fs = "[(''type'', JStr ''hello''), (''protocol'', JInt 2), (''receiverNonce'', JStr ''0123456789abcdef'')]"
  have s: "searchable ''type'' ?fs" "searchable ''protocol'' ?fs" "searchable ''receiverNonce'' ?fs" "distinct (map fst ?fs)"
    by (simp_all add: example_key_simps)
  have "JsonUnsigned example_hello ''protocol'' = Some 2"
    unfolding example_hello_def by (subst JsonUnsigned_render [OF s(2,4), of 2]) simp_all
  then show ?thesis
    using RelayJsonString_render [OF s(1,4)] RelayJsonString_render [OF s(3,4)]
    by (simp add: hello_nonce_def example_hello_def [symmetric] kLanProtocolVersion_def)
qed

lemma example_session_granted:
  "granted_session example_session = Some (7, 47101)" "RelayJsonString example_session ''type'' = Some ''session''"
proof -
  let ?fs = "[(''type'', JStr ''session''), (''protocol'', JInt 2), (''sessionShort'', JInt 7),
     (''videoPort'', JInt 47101), (''width'', JInt 1280), (''height'', JInt 720), (''fps'', JInt 30)]"
  have d: "distinct (map fst ?fs)" by simp
  have s: "searchable k ?fs" if "k \<in> {''type'', ''protocol'', ''sessionShort'', ''videoPort'', ''width'', ''height'', ''fps''}" for k
    using that by (auto simp: example_key_simps)
  have u: "JsonUnsigned example_session k = Some (nat i)"
    if "k \<in> {''type'', ''protocol'', ''sessionShort'', ''videoPort'', ''width'', ''height'', ''fps''}"
      "map_of ?fs k = Some (JInt i)" "0 \<le> i" "i < 2 ^ 64" for k i
    unfolding example_session_def by (rule JsonUnsigned_render [OF s [OF that(1)] d that(2-4)])
  show type: "RelayJsonString example_session ''type'' = Some ''session''"
    unfolding example_session_def by (subst RelayJsonString_render [OF s d]) simp_all
  show "granted_session example_session = Some (7, 47101)"
    using u [of "''protocol''" 2] u [of "''sessionShort''" 7] u [of "''videoPort''" 47101] u [of "''width''" 1280]
      u [of "''height''" 720] u [of "''fps''" 30] type
    by (simp add: granted_session_def kLanProtocolVersion_def)
qed

lemma example_arrives: "control_payload json \<Longrightarrow> arrives json [RecvBytes (EncodeControlFrame json), SelectTimeout]"
  unfolding arrives_def using EncodeControl_payload [of json]
  by (auto intro!: exI [of _ "[EncodeControlFrame json]"] exI [of _ SelectTimeout])

lemma example_payloads:
  "control_payload example_hello" "control_payload example_session" "control_payload (pair_request ''123456'' ''00'' ''0123456789abcdef'')"
  "length (EncodeControl hello_request) \<le> 100" "length (EncodeControl (pair_request ''123456'' ''00'' ''0123456789abcdef'')) \<le> 1000"
proof -
  have "length (int_dec i) = length (dec (nat i))" if "0 \<le> i" for i using that by (simp add: int_dec_def)
  moreover have "length (dec n) \<le> 5" if "n < 10 ^ 5" for n by (rule length_dec_le [OF that]) simp
  ultimately have d: "length (int_dec i) \<le> 5" if "0 \<le> i" "i < 10 ^ 5" for i using that by simp
  have "length example_hello \<le> 100" "length example_session \<le> 200"
    using d [of 2] d [of 7] d [of 47101] d [of 1280] d [of 720] d [of 30]
    by (simp_all add: example_hello_def example_session_def render_object_def EscapeJson_def)
  then show "control_payload example_hello" "control_payload example_session"
    by (simp_all add: control_payload_def kMaxControlPayload_def example_hello_def example_session_def render_object_def)
  have p: "RelayEscapeJson ''123456'' = ''123456''" "RelayEscapeJson ''0123456789abcdef'' = ''0123456789abcdef''"
    by (rule RelayEscapeJson_plain, simp add: plain_def ord_def)+
  show "control_payload (pair_request ''123456'' ''00'' ''0123456789abcdef'')"
    by (simp add: control_payload_def kMaxControlPayload_def pair_request_def p)
  show "length (EncodeControl hello_request) \<le> 100"
    by (simp add: EncodeControl_def hello_request_def kLanMaxControlPayload_def)
  show "length (EncodeControl (pair_request ''123456'' ''00'' ''0123456789abcdef'')) \<le> 1000"
    by (simp add: EncodeControl_def pair_request_def p kLanMaxControlPayload_def)
qed

lemma example_answers: "answers (pairing_env example_configure) ''123456'' ''00'' ''0123456789abcdef'' 7 47101"
  unfolding answers_def
  using example_payloads example_hello_nonce example_session_granted example_arrives
  by (intro exI [of _ example_hello] exI [of _ example_session] exI [of _ 100] exI [of _ 1000])
     (simp add: example_configure_def)

section \<open>Properties\<close>

text \<open>
  The datagrams of an access unit carry it: each is read, by the documented layout, as its
  numbered part with the frame's sequence number, time and session and the right flags, and the
  parts joined are the access unit.
\<close>

theorem lan_datagrams_carry_frame:
  assumes "short \<noteq> 0" "payload v \<noteq> []" "length (payload v) \<le> kMaxVideoPayloadBytes"
  shows "map read_lan_header (BuildLanVideoDatagrams v short) =
      map (\<lambda>i. Some (lan_header v short i)) [0..<lan_fragment_count (payload v)] \<and>
    concat (map (drop 32) (BuildLanVideoDatagrams v short)) = payload v"
  using lan_datagrams [OF assms] by simp

lemma lan_datagrams_carry_frame_witness:
  "concat (map (drop 32) (BuildLanVideoDatagrams
     \<lparr>key_frame = True, sequence = 3, timestamp_us = 9, payload = replicate 1201 7\<rparr> 5)) = replicate 1201 7"
  using lan_datagrams_carry_frame [of 5 "\<lparr>key_frame = True, sequence = 3, timestamp_us = 9, payload = replicate 1201 7\<rparr>"]
  by (simp add: kMaxVideoPayloadBytes_def)

text \<open>
  C31. A receiver at a private address that answers the two requests in time, in whatever pieces, is
  configured: the sender is connected to the video port of the session it was granted.
\<close>

theorem answering_receiver_configured:
  assumes "inet a = Some h" "private_host h" "pairing_code_valid c" "connect_result env = ConnectDone"
    and "answers (pairing_env env) c nonce rn short port" "video_result env = VideoOpened"
  shows "\<exists>t. Configure inet env a c s = (t, Inr (Inr ())) \<and> connected t \<and> session_short t = short \<and>
    video_socket t = Some \<lparr>host_address = h, host_port = port\<rparr>"
  using Configure_answers [where inet = inet, OF assms, of s] by blast

lemma answering_receiver_configured_witness:
  "\<exists>t. Configure example_inet example_configure ''10.0.0.5'' ''123456'' newLanSender = (t, Inr (Inr ())) \<and> connected t \<and>
     session_short t = 7 \<and> video_socket t = Some \<lparr>host_address = 0x0A000005, host_port = 47101\<rparr>"
proof (rule answering_receiver_configured)
  show "answers (pairing_env example_configure) ''123456'' ''00'' ''0123456789abcdef'' 7 47101" by (rule example_answers)
qed (simp_all add: example_inet_def example_configure_def private_host_def pairing_code_valid_def isdigit_def ord_def)

text \<open>
  After a length field of zero or beyond the limit no control message is ever taken from the
  connection again, whatever arrives, while the sender stays connected.
\<close>

theorem bad_length_blocks_control:
  assumes "control_blocked s" "lan_frames s = []"
  shows "\<exists>t. ReceiveControl es s = (t, None) \<and> control_blocked t \<and> lan_frames t = [] \<and> connected t = connected s"
  using ReceiveControl_blocked [OF assms, of es] by blast

lemma bad_length_blocks_control_witness:
  "\<exists>t. ReceiveControl [RecvBytes (EncodeControlFrame ''{}'')] (newLanSender\<lparr>control_socket := True, lan_buffer := [0, 0, 0, 0]\<rparr>)
     = (t, None)"
proof -
  let ?s = "newLanSender\<lparr>control_socket := True, lan_buffer := [0, 0, 0, 0]\<rparr>"
  have "control_blocked ?s" "lan_frames ?s = []"
    by (simp_all add: control_blocked_def be_get32_def newLanSender_def)
  from bad_length_blocks_control [OF this, of "[RecvBytes (EncodeControlFrame ''{}'')]"] show ?thesis by blast
qed

end
