(* ===== verification/Native_Messaging.thy ===== *)
theory Native_Messaging
  imports Relay_Protocol Socket_Send
begin

text \<open>
  The messages between the browser and the relay, \<open>relay/src/native_messaging.cpp\<close>: a length in four
  little-endian bytes and the message. The standard input is the bytes that are still to be read
  and whether they end at the end of the file or in an error; a write is given the results of
  \<open>fwrite\<close> and \<open>fflush\<close>.
\<close>

section \<open>Reading and writing\<close>

definition kMaxNativeMessageBytes :: nat where "kMaxNativeMessageBytes = 1024 * 1024"

record input_stream =
  unread :: "byte list"
  ends_at_eof :: bool

definition fread :: "nat \<Rightarrow> input_stream \<Rightarrow> byte list \<times> input_stream" where
  "fread n i = (take n (unread i), i\<lparr>unread := drop n (unread i)\<rparr>)"

definition native_length :: "byte list \<Rightarrow> u32" where
  "native_length b =
     ucast (b ! 0) OR push_bit 8 (ucast (b ! 1)) OR push_bit 16 (ucast (b ! 2)) OR push_bit 24 (ucast (b ! 3))"

text \<open>None is the end of the input between two messages.\<close>

definition ReadNativeMessage :: "input_stream \<Rightarrow> input_stream \<times> string option fallible" where
  "ReadNativeMessage i =
     (case fread 4 i of
        (length_bytes, i) \<Rightarrow>
          (if length_bytes = [] \<and> ends_at_eof i then (i, Inr None)
           else if length length_bytes \<noteq> 4 then (i, Inl ''truncated native messaging length'')
           else
             (let n = unat (native_length length_bytes)
              in if n = 0 \<or> n > kMaxNativeMessageBytes
                 then (i, Inl ''native messaging payload length is invalid'')
                 else
                   (case fread n i of
                      (body, i) \<Rightarrow>
                        (if length body \<noteq> n then (i, Inl ''truncated native messaging payload'')
                         else (i, Inr (Some (chars_of body))))))))"

datatype write_outcome = LengthShort "byte list" | MessageShort "byte list" | FlushFailed | Written

definition native_bytes :: "string \<Rightarrow> byte list" where
  "native_bytes m =
     (let n = word_of_nat (length m) :: u32
      in [ucast n, ucast (drop_bit 8 n), ucast (drop_bit 16 n), ucast (drop_bit 24 n)] @ bytes_of m)"

text \<open>The bytes that reach the standard output, and whether the call returns.\<close>

definition WriteNativeMessage :: "write_outcome \<Rightarrow> string \<Rightarrow> byte list \<times> unit fallible" where
  "WriteNativeMessage result m =
     (if m = '''' \<or> length m > kMaxNativeMessageBytes \<or> length m > 0xffffffff
      then ([], Inl ''native messaging output length is invalid'')
      else
        (case result of
           LengthShort out \<Rightarrow> (out, Inl ''failed to write native messaging output'')
         | MessageShort out \<Rightarrow> (out, Inl ''failed to write native messaging output'')
         | FlushFailed \<Rightarrow> (native_bytes m, Inl ''failed to write native messaging output'')
         | Written \<Rightarrow> (native_bytes m, Inr ())))"

section \<open>Reading back what was written\<close>

lemma native_length_le: "native_length [ucast n, ucast (drop_bit 8 n), ucast (drop_bit 16 n), ucast (drop_bit 24 n)] = n"
proof (rule bit_word_eqI)
  fix i :: nat
  assume i: "i < LENGTH(32)"
  consider "i < 8" | "8 \<le> i" "i < 16" | "16 \<le> i" "i < 24" | "24 \<le> i" by linarith
  then show "bit (native_length [ucast n, ucast (drop_bit 8 n), ucast (drop_bit 16 n), ucast (drop_bit 24 n)]) i = bit n i"
    by cases (use i in \<open>auto simp: native_length_def bit_simps\<close>)
qed

definition sendable :: "string \<Rightarrow> bool" where
  "sendable m \<longleftrightarrow> m \<noteq> '''' \<and> length m \<le> kMaxNativeMessageBytes"

lemma WriteNativeMessage_sendable: "sendable m \<Longrightarrow> WriteNativeMessage Written m = (native_bytes m, Inr ())"
  by (simp add: sendable_def WriteNativeMessage_def kMaxNativeMessageBytes_def)

lemma ReadNativeMessage_native_bytes:
  assumes "sendable m"
  shows "ReadNativeMessage \<lparr>unread = native_bytes m @ rest, ends_at_eof = eof\<rparr> =
    (\<lparr>unread = rest, ends_at_eof = eof\<rparr>, Inr (Some m))"
proof -
  have "unat (word_of_nat (length m) :: u32) = length m"
    using assms by (simp add: sendable_def kMaxNativeMessageBytes_def unat_of_nat)
  then show ?thesis using assms
    by (simp add: ReadNativeMessage_def fread_def native_bytes_def Let_def native_length_le sendable_def)
qed

text \<open>A message that is cut off is refused.\<close>

lemma ReadNativeMessage_truncated:
  assumes "sendable m" "0 < k" "k < length (native_bytes m)"
  shows "case ReadNativeMessage \<lparr>unread = take k (native_bytes m), ends_at_eof = eof\<rparr> of (_, Inl _) \<Rightarrow> True | (_, Inr _) \<Rightarrow> False"
proof (cases "k < 4")
  case True
  then have "length (take k (native_bytes m)) = k" using assms(3) by simp
  then have "length (take 4 (take k (native_bytes m))) = k" "take 4 (take k (native_bytes m)) \<noteq> []"
    using True assms(2) by auto
  then show ?thesis using True by (simp add: ReadNativeMessage_def fread_def Let_def del: take_take)
next
  case False
  have n: "unat (word_of_nat (length m) :: u32) = length m"
    using assms(1) by (simp add: sendable_def kMaxNativeMessageBytes_def unat_of_nat)
  have "take k (native_bytes m) = take 4 (native_bytes m) @ take (k - 4) (bytes_of m)"
    using False by (simp add: native_bytes_def Let_def take_Cons' eval_nat_numeral)
  moreover have "native_length (take 4 (native_bytes m)) = word_of_nat (length m)"
    by (simp add: native_bytes_def Let_def native_length_le)
  moreover have "length (take 4 (native_bytes m)) = 4" "length (native_bytes m) = 4 + length m"
    by (simp_all add: native_bytes_def Let_def)
  moreover have "native_bytes m \<noteq> []" by (simp add: native_bytes_def Let_def)
  ultimately show ?thesis using assms n False
    by (auto simp: ReadNativeMessage_def fread_def Let_def sendable_def)
qed

section \<open>Native messages arrive\<close>

text \<open>
  C32. What the relay and the browser write to each other they read back: a message of up to one
  mebibyte is read as it was written, with nothing after it consumed, and no proper beginning of it
  is taken for a message.
\<close>

theorem native_messages_roundtrip:
  assumes "sendable m"
  shows "case WriteNativeMessage Written m of (bs, r) \<Rightarrow> r = Inr () \<and>
    ReadNativeMessage \<lparr>unread = bs @ rest, ends_at_eof = eof\<rparr> = (\<lparr>unread = rest, ends_at_eof = eof\<rparr>, Inr (Some m)) \<and>
    list_all (\<lambda>k. case ReadNativeMessage \<lparr>unread = take k bs, ends_at_eof = eof\<rparr> of
      (_, Inl _) \<Rightarrow> True | (_, Inr _) \<Rightarrow> False) [1..<length bs]"
  using ReadNativeMessage_native_bytes [OF assms] ReadNativeMessage_truncated [OF assms]
  by (simp add: WriteNativeMessage_sendable [OF assms] list_all_iff)

lemma native_messages_roundtrip_witness:
  "ReadNativeMessage \<lparr>unread = native_bytes ''{\"type\":\"shutdown\"}'', ends_at_eof = True\<rparr> =
     (\<lparr>unread = [], ends_at_eof = True\<rparr>, Inr (Some ''{\"type\":\"shutdown\"}''))"
proof -
  have s: "sendable ''{\"type\":\"shutdown\"}''" by (simp add: sendable_def kMaxNativeMessageBytes_def)
  from native_messages_roundtrip [OF s, of "[]" True] show ?thesis by (simp add: WriteNativeMessage_sendable [OF s])
qed

end
