(* ===== verification/Relay_Server.thy ===== *)
theory Relay_Server
  imports Relay_WebSocket Relay_Sender Native_Messaging State_Machine
begin

text \<open>
  The relay process: the class \<open>WebSocketServer\<close> of \<open>relay/src/websocket_server.cpp\<close> and
  \<open>relay/src/main.cpp\<close>. Three threads share the state: the main thread reads the browser's native
  messages, the worker serves the one local WebSocket client, and the sender's control thread
  talks to the receiver. A step is what a thread does between two of its blocking waits: the
  worker's return from \<open>accept\<close>, each of the three accesses that follow it, its opening handshake,
  its authentication, one iteration of its loop; one native message,
  with the check of \<open>client_authenticated_\<close> and the configuration that follows as two steps; one
  iteration of the control loop. Any order of the steps of different threads is a run.

  A socket that another thread closes is one that delivers and takes nothing from then on.
\<close>

section \<open>State\<close>

text \<open>
  The worker holds the socket that \<open>accept\<close> returned in a local variable until it has stored it in
  \<open>client_\<close>; \<open>client_open\<close> says that \<open>client_\<close> holds it, which is where \<open>Stop\<close> finds it.
\<close>

datatype worker_phase =
  Accepting | AcceptReturned | StopChecked | ClientStored | Handshaking | Authenticating | Serving | WorkerDone

text \<open>The number is the exit code.\<close>

datatype main_phase = MainReading | MainConfiguring string string | MainStopping nat | MainJoining nat | MainDone nat

record Relay =
  server_origin :: string
  server_token :: string
  listener_open :: bool
  client_open :: bool
  accepted :: ClientSocket
  stop_flag :: bool
  client_authenticated :: bool
  worker :: worker_phase
  received_frames :: u64
  received_bytes :: u64
  key_frames :: u64
  invalid_messages :: u64
  last_telemetry :: nat
  lan :: LanSender
  next_ping :: nat
  native_in :: input_stream
  native_out :: "byte list"
  main :: main_phase

type_synonym 'a action = "Relay \<Rightarrow> Relay \<times> 'a fallible"

definition and_do :: "'a action \<Rightarrow> ('a \<Rightarrow> 'b action) \<Rightarrow> 'b action" where
  "and_do m f s = (case m s of (s, Inl what) \<Rightarrow> (s, Inl what) | (s, Inr x) \<Rightarrow> f x s)"

definition on_client :: "'a routine \<Rightarrow> 'a action" where
  "on_client m s = (case m (accepted s) of (c, r) \<Rightarrow> (s\<lparr>accepted := c\<rparr>, r))"

definition CloseListener :: "Relay \<Rightarrow> Relay" where
  "CloseListener s = s\<lparr>listener_open := False\<rparr>"

definition CloseClient :: "Relay \<Rightarrow> Relay" where
  "CloseClient s =
     (if client_open s then s\<lparr>client_open := False, accepted := (accepted s)\<lparr>incoming := [], send_scripts := []\<rparr>\<rparr> else s)"

section \<open>The worker\<close>

definition SetSocketTimeout :: "bool \<Rightarrow> unit action" where
  "SetSocketTimeout result s = (s, if result then Inr () else Inl ''failed to configure socket timeout'')"

definition ready_text :: string where "ready_text = ''{\"type\":\"ready\",\"protocol\":1}''"
definition keyframe_text :: string where
  "keyframe_text = ''{\"type\":\"keyframe\",\"reason\":\"loss_flush_or_session_start\",\"requireCodecConfig\":true}''"

definition ForwardKeyframeRequest :: "unit action" where
  "ForwardKeyframeRequest s =
     (case ConsumeKeyframeRequest (lan s) of
        (l, asked) \<Rightarrow>
          (let s = s\<lparr>lan := l\<rparr> in if asked then on_client (SendText keyframe_text) s else (s, Inr ())))"

definition RunClient_handshake :: "(string \<Rightarrow> string fallible) \<Rightarrow> bool \<Rightarrow> unit action" where
  "RunClient_handshake create_accept timeouts s =
     and_do (SetSocketTimeout timeouts) (\<lambda>_. on_client (PerformHandshake create_accept (server_origin s))) s"

definition RunClient_authenticate :: "bool \<Rightarrow> nat \<Rightarrow> unit action" where
  "RunClient_authenticate timeouts clock =
     and_do (on_client ReceiveMessage) (\<lambda>authentication s.
       if ws_opcode authentication \<noteq> 1
          \<or> \<not> IsExpectedAuthMessage (chars_of (ws_payload authentication)) (server_token s)
       then (s, Inl ''local bridge authentication failed'')
       else
         and_do (on_client (SendText ready_text)) (\<lambda>_.
         and_do ForwardKeyframeRequest (\<lambda>_.
         and_do (SetSocketTimeout timeouts) (\<lambda>_ s.
         (s\<lparr>received_frames := 0, received_bytes := 0, key_frames := 0, invalid_messages := 0,
            last_telemetry := clock\<rparr>, Inr ()))))
           (s\<lparr>client_authenticated := True\<rparr>))"

definition bool_text :: "bool \<Rightarrow> string" where
  "bool_text b = (if b then ''true'' else ''false'')"

definition telemetry_text :: "Relay \<Rightarrow> string" where
  "telemetry_text s =
     (let st = stats (lan s)
      in ''{\"type\":\"telemetry\",\"receivedFrames\":'' @ dec (unat (received_frames s))
         @ '',\"receivedBytes\":'' @ dec (unat (received_bytes s)) @ '',\"keyFrames\":'' @ dec (unat (key_frames s))
         @ '',\"invalidMessages\":'' @ dec (unat (invalid_messages s))
         @ '',\"lanConnected\":'' @ bool_text (connected (lan s))
         @ '',\"lanSentFrames\":'' @ dec (unat (sent_frames st)) @ '',\"lanSentBytes\":'' @ dec (unat (sent_bytes st))
         @ '',\"lanSentDatagrams\":'' @ dec (unat (sent_datagrams st))
         @ '',\"lanSendErrors\":'' @ dec (unat (send_errors st))
         @ '',\"receiverDecodedFrames\":'' @ dec (unat (receiver_decoded st))
         @ '',\"receiverDroppedFrames\":'' @ dec (unat (receiver_dropped st)) @ ''}'')"

definition send_telemetry :: "unit action" where
  "send_telemetry s = on_client (SendText (telemetry_text s)) s"

definition stats_request :: string where "stats_request = ''{\"type\":\"stats\"}''"
definition close_request :: string where "close_request = ''{\"type\":\"close\"}''"

text \<open>An access unit of the client; the results say whether each packet was sent.\<close>

definition ServeVideo :: "bool list \<Rightarrow> nat \<Rightarrow> byte list \<Rightarrow> bool action" where
  "ServeVideo packet_results clock body s =
     (case ParseLocalVideoMessage body of
        Inl _ \<Rightarrow> (s\<lparr>invalid_messages := invalid_messages s + 1\<rparr>, Inl ''invalid local video message'')
      | Inr video \<Rightarrow>
          (let s = s\<lparr>received_frames := received_frames s + 1,
                     received_bytes := received_bytes s + word_of_nat (length (LocalVideoMessage.payload video)),
                     key_frames := (if key_frame video then key_frames s + 1 else key_frames s)\<rparr>
           in case SendAccessUnit packet_results video (lan s) of
                (l, False) \<Rightarrow> (s\<lparr>lan := l\<rparr>, Inl ''LAN video send failed'')
              | (l, True) \<Rightarrow>
                  and_do ForwardKeyframeRequest (\<lambda>_ s.
                    if clock - last_telemetry s \<ge> 1000000
                    then and_do send_telemetry (\<lambda>_ s. (s\<lparr>last_telemetry := clock\<rparr>, Inr True)) s
                    else (s, Inr True)) (s\<lparr>lan := l\<rparr>)))"

text \<open>One iteration of the loop of \<open>RunClient\<close>: False is the return after the closing frame.\<close>

definition ServeMessage :: "bool list \<Rightarrow> nat \<Rightarrow> bool action" where
  "ServeMessage packet_results clock =
     and_do (on_client ReceiveMessage) (\<lambda>f.
       if ws_opcode f = 8 then and_do (on_client (SendFrame 8 (ws_payload f))) (\<lambda>_ s. (s, Inr False))
       else if ws_opcode f = 1 then
         (let control = chars_of (ws_payload f)
          in if control = stats_request then and_do send_telemetry (\<lambda>_ s. (s, Inr True))
             else if control = close_request
             then and_do send_telemetry (\<lambda>_. and_do (on_client (SendFrame 8 [])) (\<lambda>_ s. (s, Inr False)))
             else (\<lambda>s. (s\<lparr>invalid_messages := invalid_messages s + 1\<rparr>, Inl ''unexpected local control message'')))
       else if ws_opcode f \<noteq> 2
       then (\<lambda>s. (s\<lparr>invalid_messages := invalid_messages s + 1\<rparr>, Inl ''unexpected local WebSocket message type''))
       else ServeVideo packet_results clock (ws_payload f))"

text \<open>The rest of \<open>Run\<close>: the catch block, and what follows it.\<close>

definition Run_end :: "Relay \<Rightarrow> Relay" where
  "Run_end s = (CloseListener (CloseClient (s\<lparr>client_authenticated := False\<rparr>)))\<lparr>worker := WorkerDone\<rparr>"

definition error_text :: "string \<Rightarrow> string" where
  "error_text what =
     ''{\"type\":\"error\",\"code\":\"local_protocol_rejected\",\"detail\":\"'' @ RelayEscapeJson what @ ''\"}''"

definition Run_catch :: "string \<Rightarrow> Relay \<Rightarrow> Relay" where
  "Run_catch what s =
     Run_end (if client_authenticated s \<and> \<not> stop_flag s
              then fst (and_do (on_client (SendText (error_text what))) (\<lambda>_. on_client (SendFrame 8 [])) s)
              else s)"

text \<open>
  The beginning of \<open>Run\<close>: the return of \<open>accept\<close>. The check of \<open>stopping_\<close>, the store to \<open>client_\<close> and the
  close of the listener that follow are steps of their own, because \<open>Stop\<close> may come between them.
\<close>

definition AcceptClient :: "ClientSocket option \<Rightarrow> Relay \<Rightarrow> Relay" where
  "AcceptClient result s =
     (if worker s \<noteq> Accepting then s
      else
        (case (if listener_open s then result else None) of
           None \<Rightarrow> s\<lparr>worker := WorkerDone\<rparr>
         | Some c \<Rightarrow> s\<lparr>accepted := c, worker := AcceptReturned\<rparr>))"

record WorkerEnv =
  timeouts_set :: bool
  packets_taken :: "bool list"
  worker_clock :: nat

definition worker_step :: "(string \<Rightarrow> string fallible) \<Rightarrow> WorkerEnv \<Rightarrow> Relay \<Rightarrow> Relay" where
  "worker_step create_accept env s =
     (case worker s of
        AcceptReturned \<Rightarrow> s\<lparr>worker := (if stop_flag s then WorkerDone else StopChecked)\<rparr>
      | StopChecked \<Rightarrow> s\<lparr>client_open := True, worker := ClientStored\<rparr>
      | ClientStored \<Rightarrow> (CloseListener s)\<lparr>worker := Handshaking\<rparr>
      | Handshaking \<Rightarrow>
          (case RunClient_handshake create_accept (timeouts_set env) s of
             (s, Inl what) \<Rightarrow> Run_catch what s
           | (s, Inr _) \<Rightarrow> s\<lparr>worker := Authenticating\<rparr>)
      | Authenticating \<Rightarrow>
          (case RunClient_authenticate (timeouts_set env) (worker_clock env) s of
             (s, Inl what) \<Rightarrow> Run_catch what s
           | (s, Inr _) \<Rightarrow> s\<lparr>worker := Serving\<rparr>)
      | Serving \<Rightarrow>
          (if stop_flag s then Run_end s
           else
             (case ServeMessage (packets_taken env) (worker_clock env) s of
                (s, Inl what) \<Rightarrow> Run_catch what s
              | (s, Inr True) \<Rightarrow> s
              | (s, Inr False) \<Rightarrow> Run_end s))
      | _ \<Rightarrow> s)"

section \<open>The main thread\<close>

definition IsShutdownMessage :: "string \<Rightarrow> bool" where
  "IsShutdownMessage m \<longleftrightarrow> m = ''{\"type\":\"shutdown\"}''"

text \<open>A failed write is an exception of \<open>wmain\<close>: the relay stops and exits with 1.\<close>

definition write_native :: "write_outcome \<Rightarrow> string \<Rightarrow> Relay \<Rightarrow> Relay" where
  "write_native result m s =
     (case WriteNativeMessage result m of
        (out, r) \<Rightarrow>
          s\<lparr>native_out := native_out s @ out,
            main := (case r of Inl _ \<Rightarrow> MainStopping 1 | Inr _ \<Rightarrow> MainReading)\<rparr>)"

definition error_reply :: "string \<Rightarrow> string" where
  "error_reply error_code =
     ''{\"type\":\"error\",\"code\":\"''
     @ RelayEscapeJson (if error_code = '''' then ''receiver_configuration_invalid'' else error_code) @ ''\"}''"

definition rejected_reply :: string where
  "rejected_reply = ''{\"type\":\"error\",\"code\":\"native_message_rejected\"}''"
definition receiver_ready_reply :: string where
  "receiver_ready_reply = ''{\"type\":\"receiver_ready\",\"protocol\":2}''"

text \<open>\<open>ConfigureReceiver\<close> up to the check of \<open>client_authenticated_\<close>, and from there on.\<close>

definition HandleNativeMessage :: "write_outcome \<Rightarrow> string \<Rightarrow> Relay \<Rightarrow> Relay" where
  "HandleNativeMessage result m s =
     (if RelayJsonString m ''type'' \<noteq> Some ''configure_receiver'' then write_native result rejected_reply s
      else
        (case (RelayJsonString m ''receiverAddress'', RelayJsonString m ''pairingCode'') of
           (Some address, Some code) \<Rightarrow>
             (if client_authenticated s then write_native result (error_reply ''capture_already_started'') s
              else s\<lparr>main := MainConfiguring address code\<rparr>)
         | _ \<Rightarrow> write_native result (error_reply '''') s))"

record MainEnv =
  configure_env :: ConfigureEnv
  main_clock :: nat
  write_result :: write_outcome

definition main_configure :: "(string \<Rightarrow> u32 option) \<Rightarrow> MainEnv \<Rightarrow> string \<Rightarrow> string \<Rightarrow> Relay \<Rightarrow> Relay" where
  "main_configure inet_pton env address code s =
     (case Configure inet_pton (configure_env env) address code (lan s) of
        (l, Inl what) \<Rightarrow> s\<lparr>lan := l, main := MainStopping 1\<rparr>
      | (l, Inr (Inl error_code)) \<Rightarrow> write_native (write_result env) (error_reply error_code) (s\<lparr>lan := l\<rparr>)
      | (l, Inr (Inr _)) \<Rightarrow>
          write_native (write_result env) receiver_ready_reply (s\<lparr>lan := l, next_ping := main_clock env\<rparr>))"

text \<open>\<open>WebSocketServer::Stop\<close> up to the join of the worker, and from there on.\<close>

definition StopServer :: "Relay \<Rightarrow> Relay" where
  "StopServer s = CloseListener (CloseClient (s\<lparr>stop_flag := True\<rparr>))"

definition StopServer_joined :: "int list \<Rightarrow> Relay \<Rightarrow> Relay" where
  "StopServer_joined script s =
     s\<lparr>lan := Stop script (lan s), server_token := replicate (length (server_token s)) (CHR 0x00)\<rparr>"

definition main_step :: "(string \<Rightarrow> u32 option) \<Rightarrow> MainEnv \<Rightarrow> Relay \<Rightarrow> Relay" where
  "main_step inet_pton env s =
     (case main s of
        MainReading \<Rightarrow>
          (case ReadNativeMessage (native_in s) of
             (i, Inl what) \<Rightarrow> s\<lparr>native_in := i, main := MainStopping 1\<rparr>
           | (i, Inr None) \<Rightarrow> s\<lparr>native_in := i, main := MainStopping 0\<rparr>
           | (i, Inr (Some m)) \<Rightarrow>
               (if IsShutdownMessage m then s\<lparr>native_in := i, main := MainStopping 0\<rparr>
                else HandleNativeMessage (write_result env) m (s\<lparr>native_in := i\<rparr>)))
      | MainConfiguring address code \<Rightarrow> main_configure inet_pton env address code s
      | MainStopping exit_code \<Rightarrow> (StopServer s)\<lparr>main := MainJoining exit_code\<rparr>
      | MainJoining exit_code \<Rightarrow>
          (if worker s = WorkerDone
           then (StopServer_joined (stop_script (configure_env env)) s)\<lparr>main := MainDone exit_code\<rparr> else s)
      | MainDone _ \<Rightarrow> s)"

section \<open>The process\<close>

datatype relay_event =
    AcceptEvent "ClientSocket option"
  | WorkerEvent WorkerEnv
  | MainEvent MainEnv
  | ControlEvent "control_event list" nat "int list"

fun relay_step :: "(string \<Rightarrow> string fallible) \<Rightarrow> (string \<Rightarrow> u32 option) \<Rightarrow> relay_event \<Rightarrow> Relay \<Rightarrow> Relay" where
  "relay_step create_accept inet_pton (AcceptEvent result) s = AcceptClient result s"
| "relay_step create_accept inet_pton (WorkerEvent env) s = worker_step create_accept env s"
| "relay_step create_accept inet_pton (MainEvent env) s = main_step inet_pton env s"
| "relay_step create_accept inet_pton (ControlEvent events clock script) s =
     (case ControlLoop_iteration events clock script (next_ping s) (lan s) of
        (l, n) \<Rightarrow> s\<lparr>lan := l, next_ping := n\<rparr>)"

text \<open>\<open>wmain\<close> up to its loop: a failure is the message of the exception it ends with.\<close>

datatype listen_outcome = WinsockFailed | ListenerFailed | ExclusiveFailed | BindFailed | PortUnreadable | ListeningOn u16

definition StartServer :: "listen_outcome \<Rightarrow> u16 fallible" where
  "StartServer result =
     (case result of
        WinsockFailed \<Rightarrow> Inl ''WSAStartup failed''
      | ListenerFailed \<Rightarrow> Inl ''failed to create loopback listener''
      | ExclusiveFailed \<Rightarrow> Inl ''failed to set exclusive loopback listener''
      | BindFailed \<Rightarrow> Inl ''failed to bind loopback-only listener''
      | PortUnreadable \<Rightarrow> Inl ''failed to read loopback listener port''
      | ListeningOn port \<Rightarrow> if port = 0 then Inl ''loopback listener returned port zero'' else Inr port)"

definition newRelay :: "string \<Rightarrow> string \<Rightarrow> input_stream \<Rightarrow> byte list \<Rightarrow> Relay" where
  "newRelay origin token input out =
     \<lparr>server_origin = origin, server_token = token, listener_open = True, client_open = False,
      accepted = \<lparr>incoming = [], client_out = [], send_scripts = []\<rparr>, stop_flag = False, client_authenticated = False,
      worker = Accepting, received_frames = 0, received_bytes = 0, key_frames = 0, invalid_messages = 0,
      last_telemetry = 0, lan = newLanSender, next_ping = 0, native_in = input, native_out = out, main = MainReading\<rparr>"

definition port_ready_text :: "u16 \<Rightarrow> string \<Rightarrow> string" where
  "port_ready_text port token =
     ''{\"type\":\"ready\",\"protocol\":1,\"port\":'' @ dec (unat port) @ '',\"token\":\"'' @ token @ ''\"}''"

definition wmain_start ::
    "bool \<Rightarrow> string fallible option \<Rightarrow> (nat \<Rightarrow> byte list option) \<Rightarrow> listen_outcome \<Rightarrow> write_outcome \<Rightarrow> input_stream
     \<Rightarrow> Relay fallible" where
  "wmain_start binary_stdio argument gen_random listen_result ready_result input =
     (if \<not> binary_stdio then Inl ''failed to configure native messaging stdio''
      else
        (case argument of
           None \<Rightarrow> Inl ''native messaging origin argument is missing''
         | Some (Inl what) \<Rightarrow> Inl what
         | Some (Inr origin) \<Rightarrow>
             (let expected_origin = NormalizeExtensionOrigin origin
              in if expected_origin = '''' then Inl ''native messaging origin is not an extension''
                 else
                   (case GenerateTokenHex gen_random 32 of
                      Inl what \<Rightarrow> Inl what
                    | Inr token \<Rightarrow>
                        (case StartServer listen_result of
                           Inl what \<Rightarrow> Inl what
                         | Inr port \<Rightarrow>
                             (case WriteNativeMessage ready_result (port_ready_text port token) of
                                (out, Inl what) \<Rightarrow> Inl what
                              | (out, Inr _) \<Rightarrow> Inr (newRelay expected_origin token input out)))))))"

section \<open>What the worker's actions change\<close>

text \<open>All of the state but the client's socket, the sender and the local counters of \<open>RunClient\<close>.\<close>

definition untouched :: "Relay \<Rightarrow> (string \<times> string) \<times> (bool \<times> bool \<times> bool \<times> bool) \<times> worker_phase \<times> nat \<times> input_stream \<times> byte list \<times> main_phase" where
  "untouched s = ((server_origin s, server_token s), (listener_open s, client_open s, stop_flag s, client_authenticated s),
     worker s, next_ping s, native_in s, native_out s, main s)"

definition allows :: "(Relay \<Rightarrow> Relay \<Rightarrow> bool) \<Rightarrow> 'a action \<Rightarrow> bool" where
  "allows R m \<longleftrightarrow> (\<forall>s s' r. m s = (s', r) \<longrightarrow> R s s')"

lemma allowsD: "allows R m \<Longrightarrow> m s = (s', r) \<Longrightarrow> R s s'"
  by (auto simp: allows_def)

lemma allowsI: "(\<And>s s' r. m s = (s', r) \<Longrightarrow> R s s') \<Longrightarrow> allows R m"
  by (auto simp: allows_def)

text \<open>A relation between the states before and after, for actions that talk to the client.\<close>

locale relay_relation =
  fixes R :: "Relay \<Rightarrow> Relay \<Rightarrow> bool"
  assumes trans_R: "R a b \<Longrightarrow> R b c \<Longrightarrow> R a c"
    and local_R: "untouched s' = untouched s \<Longrightarrow> lan s' = lan s \<Longrightarrow> R s s'"
    and keyframe_R: "R s (s\<lparr>lan := fst (ConsumeKeyframeRequest (lan s))\<rparr>)"
begin

lemma and_do_R: "allows R m \<Longrightarrow> (\<And>x. allows R (f x)) \<Longrightarrow> allows R (and_do m f)"
  by (rule allowsI) (auto simp: and_do_def dest: allowsD intro: trans_R split: prod.splits sum.splits)

lemma return_R: "allows R (\<lambda>s. (s, r))"
  by (auto simp: allows_def local_R)

lemma on_client_R: "allows R (on_client m)"
  by (rule allowsI) (auto simp: on_client_def untouched_def intro!: local_R split: prod.splits)

lemma SetSocketTimeout_R: "allows R (SetSocketTimeout b)"
  by (auto simp: allows_def SetSocketTimeout_def local_R)

lemma ForwardKeyframeRequest_R: "allows R ForwardKeyframeRequest"
proof (rule allowsI)
  fix s s' r
  assume f: "ForwardKeyframeRequest s = (s', r)"
  have "R (s\<lparr>lan := fst (ConsumeKeyframeRequest (lan s))\<rparr>) s'"
    using f allowsD [OF on_client_R] local_R
    by (auto simp: ForwardKeyframeRequest_def Let_def split: prod.splits if_splits)
  then show "R s s'" using trans_R [OF keyframe_R] by blast
qed

lemma send_telemetry_R: "allows R send_telemetry"
  using allowsD [OF on_client_R] by (auto simp: allows_def send_telemetry_def)

lemma RunClient_handshake_R: "allows R (RunClient_handshake create_accept b)"
proof -
  have "allows R (and_do (SetSocketTimeout b) (\<lambda>_. on_client (PerformHandshake create_accept (server_origin s))))" for s
    by (intro and_do_R SetSocketTimeout_R on_client_R)
  then show ?thesis by (auto simp: allows_def RunClient_handshake_def)
qed

text \<open>Authentication: the flag is set only after the expected message.\<close>

lemma RunClient_authenticate_R:
  assumes "RunClient_authenticate b clock s = (s', r)"
  shows "(\<exists>what. r = Inl what) \<and> R s s' \<or>
    (\<exists>s1 f. on_client ReceiveMessage s = (s1, Inr f) \<and> ws_opcode f = 1 \<and>
       IsExpectedAuthMessage (chars_of (ws_payload f)) (server_token s) \<and> R (s1\<lparr>client_authenticated := True\<rparr>) s')"
proof -
  obtain s1 r1 where s1: "on_client ReceiveMessage s = (s1, r1)" by fastforce
  have R1: "R s s1" by (rule allowsD [OF on_client_R s1])
  have tok: "server_token s1 = server_token s" using s1 by (auto simp: on_client_def split: prod.splits)
  show ?thesis
  proof (cases r1)
    case (Inl what)
    then show ?thesis using assms s1 R1 by (auto simp: RunClient_authenticate_def and_do_def)
  next
    case (Inr f)
    show ?thesis
    proof (cases "ws_opcode f = 1 \<and> IsExpectedAuthMessage (chars_of (ws_payload f)) (server_token s)")
      case False
      then show ?thesis using assms s1 Inr R1 tok by (auto simp: RunClient_authenticate_def and_do_def)
    next
      case True
      let ?rest = "and_do (on_client (SendText ready_text)) (\<lambda>_. and_do ForwardKeyframeRequest (\<lambda>_. and_do (SetSocketTimeout b) (\<lambda>_ s.
         (s\<lparr>received_frames := 0, received_bytes := 0, key_frames := 0, invalid_messages := 0, last_telemetry := clock\<rparr>, Inr ()))))"
      have "allows R ?rest"
        by (intro and_do_R on_client_R ForwardKeyframeRequest_R SetSocketTimeout_R) (auto simp: allows_def untouched_def intro: local_R)
      moreover have "?rest (s1\<lparr>client_authenticated := True\<rparr>) = (s', r)"
        using assms s1 Inr True tok by (simp add: RunClient_authenticate_def and_do_def [of "on_client ReceiveMessage"])
      ultimately show ?thesis using s1 Inr True allowsD by blast
    qed
  qed
qed

end

text \<open>Relations that sending an access unit is in, too.\<close>

locale video_relation = relay_relation +
  assumes video_R: "SendAccessUnit results v (lan s) = (l, ok) \<Longrightarrow> R s (s\<lparr>lan := l\<rparr>)"
begin

lemma ServeVideo_R: "allows R (ServeVideo results clock body)"
proof (rule allowsI)
  fix s s' r
  assume serve: "ServeVideo results clock body s = (s', r)"
  show "R s s'"
  proof (cases "ParseLocalVideoMessage body")
    case (Inl what)
    then show ?thesis using serve by (auto simp: ServeVideo_def untouched_def intro: local_R)
  next
    case (Inr v)
    let ?s = "s\<lparr>received_frames := received_frames s + 1,
        received_bytes := received_bytes s + word_of_nat (length (LocalVideoMessage.payload v)),
        key_frames := (if key_frame v then key_frames s + 1 else key_frames s)\<rparr>"
    let ?after = "and_do ForwardKeyframeRequest (\<lambda>_ s. if clock - last_telemetry s \<ge> 1000000
        then and_do send_telemetry (\<lambda>_ s. (s\<lparr>last_telemetry := clock\<rparr>, Inr True)) s else (s, Inr True))"
    obtain l ok where l: "SendAccessUnit results v (lan ?s) = (l, ok)" by fastforce
    have one: "R s ?s" by (rule local_R) (simp_all add: untouched_def)
    have two: "R ?s (?s\<lparr>lan := l\<rparr>)" by (rule video_R [OF l])
    have tele: "allows R (and_do send_telemetry (\<lambda>_ s. (s\<lparr>last_telemetry := clock\<rparr>, Inr True)))"
      by (intro and_do_R send_telemetry_R) (auto simp: allows_def untouched_def intro: local_R)
    have after: "allows R ?after"
      by (intro and_do_R ForwardKeyframeRequest_R) (use tele in \<open>auto simp: allows_def untouched_def intro: local_R\<close>)
    have "(\<not> ok \<and> s' = ?s\<lparr>lan := l\<rparr>) \<or> (ok \<and> ?after (?s\<lparr>lan := l\<rparr>) = (s', r))"
      using serve Inr l by (cases ok) (auto simp: ServeVideo_def Let_def)
    then have "R (?s\<lparr>lan := l\<rparr>) s'" using allowsD [OF after] local_R by blast
    then show ?thesis using trans_R one two by blast
  qed
qed

lemma ServeMessage_R: "allows R (ServeMessage results clock)"
  unfolding ServeMessage_def
proof (intro and_do_R on_client_R)
  fix f
  have bad: "allows R (\<lambda>s. (s\<lparr>invalid_messages := invalid_messages s + 1\<rparr>, Inl what))" for what
    by (auto simp: allows_def untouched_def intro: local_R)
  have close_frame: "allows R (and_do (on_client (SendFrame 8 body)) (\<lambda>_ s. (s, Inr b)))" for body b
    by (intro and_do_R on_client_R return_R)
  have tele: "allows R (and_do send_telemetry (\<lambda>_ s. (s, Inr True)))"
    "allows R (and_do send_telemetry (\<lambda>_. and_do (on_client (SendFrame 8 [])) (\<lambda>_ s. (s, Inr False))))"
    by (intro and_do_R send_telemetry_R on_client_R return_R)+
  show "allows R (if ws_opcode f = 8 then and_do (on_client (SendFrame 8 (ws_payload f))) (\<lambda>_ s. (s, Inr False))
       else if ws_opcode f = 1 then
         (let control = chars_of (ws_payload f)
          in if control = stats_request then and_do send_telemetry (\<lambda>_ s. (s, Inr True))
             else if control = close_request
             then and_do send_telemetry (\<lambda>_. and_do (on_client (SendFrame 8 [])) (\<lambda>_ s. (s, Inr False)))
             else (\<lambda>s. (s\<lparr>invalid_messages := invalid_messages s + 1\<rparr>, Inl ''unexpected local control message'')))
       else if ws_opcode f \<noteq> 2
       then (\<lambda>s. (s\<lparr>invalid_messages := invalid_messages s + 1\<rparr>, Inl ''unexpected local WebSocket message type''))
       else ServeVideo results clock (ws_payload f))"
    by (simp add: Let_def bad close_frame tele ServeVideo_R)
qed

end

text \<open>The worker keeps the sender's invariant, and only serving sends video.\<close>

definition keeps_sender :: "Relay \<Rightarrow> Relay \<Rightarrow> bool" where
  "keeps_sender s s' \<longleftrightarrow> untouched s' = untouched s \<and> (lan_inv (lan s) \<longrightarrow> lan_inv (lan s'))"

definition sends_no_video :: "Relay \<Rightarrow> Relay \<Rightarrow> bool" where
  "sends_no_video s s' \<longleftrightarrow> untouched s' = untouched s \<and> video_out (lan s') = video_out (lan s)"

lemma lan_inv_keyframe [simp]: "lan_inv (l\<lparr>keyframe_requested := b\<rparr>) = lan_inv l"
  by (simp add: lan_inv_def)

interpretation kept: video_relation keeps_sender
  by unfold_locales (auto simp: keeps_sender_def untouched_def ConsumeKeyframeRequest_def dest: SendAccessUnit_inv(1))

interpretation silent: relay_relation sends_no_video
  by unfold_locales (auto simp: sends_no_video_def untouched_def ConsumeKeyframeRequest_def)

definition calm :: "Relay \<Rightarrow> Relay \<Rightarrow> bool" where
  "calm s t \<longleftrightarrow> keeps_sender s t \<and> sends_no_video s t"

interpretation quiet: relay_relation calm
  unfolding calm_def
  by unfold_locales (blast intro: kept.trans_R silent.trans_R kept.local_R silent.local_R kept.keyframe_R silent.keyframe_R)+


section \<open>The invariant of the relay\<close>

definition stopped_lan :: "LanSender \<Rightarrow> bool" where
  "stopped_lan l \<longleftrightarrow> \<not> connected l \<and> \<not> running l \<and> video_socket l = None \<and> \<not> control_socket l"

definition relay_inv :: "Relay \<Rightarrow> bool" where
  "relay_inv s \<longleftrightarrow> lan_inv (lan s) \<and>
     (client_authenticated s \<longleftrightarrow> worker s = Serving) \<and>
     (worker s \<in> {Handshaking, Authenticating, Serving} \<longrightarrow> \<not> listener_open s \<and>
        (\<not> client_open s \<longrightarrow> stop_flag s \<and> incoming (accepted s) = [])) \<and>
     (worker s = ClientStored \<and> \<not> client_open s \<longrightarrow> stop_flag s \<and> incoming (accepted s) = []) \<and>
     (client_open s \<longrightarrow> worker s \<in> {ClientStored, Handshaking, Authenticating, Serving}) \<and>
     (stop_flag s \<longleftrightarrow> (\<exists>k. main s = MainJoining k \<or> main s = MainDone k)) \<and>
     (stop_flag s \<longrightarrow> \<not> listener_open s) \<and>
     ((\<exists>k. main s = MainDone k) \<longrightarrow> worker s = WorkerDone \<and> stopped_lan (lan s) \<and>
        list_all (\<lambda>c. c = CHR 0x00) (server_token s))"

lemma relay_inv_start: "relay_inv (newRelay origin token input out)"
  by (simp add: relay_inv_def newRelay_def lan_inv_start)

text \<open>A closed client's socket makes every read throw.\<close>

lemma ReceiveHandshake_closed: "incoming c = [] \<Longrightarrow> \<exists>c' what. ReceiveHandshake c = (c', Inl what)"
  by (simp add: ReceiveHandshake_def ReceiveHandshake_loop.simps recv_some_def)

lemma ReceiveMessage_closed: "incoming c = [] \<Longrightarrow> \<exists>c' what. ReceiveMessage c = (c', Inl what)"
  by (simp add: ReceiveMessage_def ReceiveMessage_loop.simps [of 0] ReceiveFrame_def and_then_def
      ReceiveExact.simps [of 2] recv_some_def)

lemma Run_end_fields:
  "worker (Run_end s) = WorkerDone" "lan (Run_end s) = lan s" "\<not> client_authenticated (Run_end s)"
  "\<not> listener_open (Run_end s)" "\<not> client_open (Run_end s)" "main (Run_end s) = main s" "stop_flag (Run_end s) = stop_flag s"
  "server_token (Run_end s) = server_token s" "server_origin (Run_end s) = server_origin s"
  by (simp_all add: Run_end_def CloseListener_def CloseClient_def)

lemma Run_catch_calm: "calm s t \<Longrightarrow> \<exists>u. calm s u \<and> Run_catch what t = Run_end u"
proof -
  assume st: "calm s t"
  let ?m = "and_do (on_client (SendText (error_text what))) (\<lambda>_. on_client (SendFrame 8 []))"
  have "allows calm ?m" by (intro quiet.and_do_R quiet.on_client_R)
  then have "calm s (fst (?m t))" using quiet.trans_R [OF st] by (cases "?m t") (auto dest: allowsD)
  then show ?thesis using st by (auto simp: Run_catch_def)
qed

text \<open>A step of the worker, by its phase: it goes on, or ends.\<close>

definition token_presented :: "Relay \<Rightarrow> bool" where
  "token_presented s \<longleftrightarrow> (case ReceiveMessage (accepted s) of
     (_, Inl _) \<Rightarrow> False
   | (_, Inr f) \<Rightarrow> ws_opcode f = 1 \<and> chars_of (ws_payload f) = expected_auth (server_token s))"

definition origin_checked :: "(string \<Rightarrow> string fallible) \<Rightarrow> Relay \<Rightarrow> bool" where
  "origin_checked create_accept s \<longleftrightarrow> (case ReceiveHandshake (accepted s) of
     (_, Inl _) \<Rightarrow> False
   | (_, Inr request) \<Rightarrow> (case handshake_accept create_accept (server_origin s) request of Inl _ \<Rightarrow> False | Inr _ \<Rightarrow> True))"

lemma worker_step_Handshaking:
  assumes "worker s = Handshaking"
  shows "\<exists>t. calm s t \<and> (worker_step create_accept env s = Run_end t \<or>
    worker_step create_accept env s = t\<lparr>worker := Authenticating\<rparr> \<and> origin_checked create_accept s)"
proof -
  obtain t r where t: "RunClient_handshake create_accept (timeouts_set env) s = (t, r)" by fastforce
  have calm: "calm s t" by (rule allowsD [OF quiet.RunClient_handshake_R t])
  show ?thesis
  proof (cases r)
    case (Inl what)
    then show ?thesis using assms t Run_catch_calm [OF calm] by (auto simp: worker_step_def)
  next
    case (Inr x)
    then have "origin_checked create_accept s"
      using t by (auto simp: RunClient_handshake_def and_do_def SetSocketTimeout_def on_client_def PerformHandshake_def
          and_then_def fails_with_def origin_checked_def split: prod.splits sum.splits if_splits)
    then show ?thesis using assms t Inr calm by (auto simp: worker_step_def)
  qed
qed

lemma worker_step_Authenticating:
  assumes "worker s = Authenticating"
  shows "(\<exists>t. calm s t \<and> worker_step create_accept env s = Run_end t) \<or>
    token_presented s \<and> (\<exists>t. calm (s\<lparr>client_authenticated := True\<rparr>) t \<and>
      (worker_step create_accept env s = Run_end t \<or> worker_step create_accept env s = t\<lparr>worker := Serving\<rparr>))"
proof -
  obtain t r where t: "RunClient_authenticate (timeouts_set env) (worker_clock env) s = (t, r)" by fastforce
  note cases = quiet.RunClient_authenticate_R [OF t]
  show ?thesis
  proof (cases "calm s t \<and> (\<exists>what. r = Inl what)")
    case True
    then show ?thesis using assms t Run_catch_calm by (fastforce simp: worker_step_def)
  next
    case False
    then obtain s1 f where f: "on_client ReceiveMessage s = (s1, Inr f)" "ws_opcode f = 1"
        "chars_of (ws_payload f) = expected_auth (server_token s)" "calm (s1\<lparr>client_authenticated := True\<rparr>) t"
      using cases by (auto simp: IsExpectedAuthMessage_def)
    have "token_presented s" using f(1-3) by (auto simp: token_presented_def on_client_def split: prod.splits)
    moreover have "calm (s\<lparr>client_authenticated := True\<rparr>) (s1\<lparr>client_authenticated := True\<rparr>)"
      using f(1) by (auto simp: on_client_def calm_def keeps_sender_def sends_no_video_def untouched_def split: prod.splits)
    then have calm: "calm (s\<lparr>client_authenticated := True\<rparr>) t" using f(4) quiet.trans_R by blast
    then have "\<exists>t. calm (s\<lparr>client_authenticated := True\<rparr>) t \<and>
      (worker_step create_accept env s = Run_end t \<or> worker_step create_accept env s = t\<lparr>worker := Serving\<rparr>)"
      using assms t Run_catch_calm [OF calm] by (cases r) (fastforce simp: worker_step_def)+
    ultimately show ?thesis by blast
  qed
qed

lemma worker_step_Serving:
  assumes "worker s = Serving"
  shows "\<exists>t. keeps_sender s t \<and> (worker_step create_accept env s = Run_end t \<or> worker_step create_accept env s = t \<and> \<not> stop_flag s)"
proof (cases "stop_flag s")
  case True
  then show ?thesis using assms by (intro exI [of _ s]) (simp add: worker_step_def keeps_sender_def)
next
  case False
  obtain t r where t: "ServeMessage (packets_taken env) (worker_clock env) s = (t, r)" by fastforce
  have k: "keeps_sender s t" by (rule allowsD [OF kept.ServeMessage_R t])
  show ?thesis
  proof (cases r)
    case (Inl what)
    have "calm t t" by (rule quiet.local_R) simp_all
    then obtain u where "keeps_sender t u" "Run_catch what t = Run_end u" using Run_catch_calm unfolding calm_def by blast
    then show ?thesis using assms False t Inl k kept.trans_R by (auto simp: worker_step_def)
  next
    case (Inr b)
    then show ?thesis using assms False t k by (cases b) (auto simp: worker_step_def)
  qed
qed

lemma worker_step_accepting:
  "worker s = AcceptReturned \<Longrightarrow> worker_step create_accept env s = s\<lparr>worker := (if stop_flag s then WorkerDone else StopChecked)\<rparr>"
  "worker s = StopChecked \<Longrightarrow> worker_step create_accept env s = s\<lparr>client_open := True, worker := ClientStored\<rparr>"
  "worker s = ClientStored \<Longrightarrow> worker_step create_accept env s = s\<lparr>listener_open := False, worker := Handshaking\<rparr>"
  by (simp_all add: worker_step_def CloseListener_def)

lemma worker_step_idle: "worker s = Accepting \<or> worker s = WorkerDone \<Longrightarrow> worker_step create_accept env s = s"
  by (auto simp: worker_step_def)

lemma closed_client_ends:
  assumes "incoming (accepted s) = []"
  shows "\<not> origin_checked create_accept s" "\<not> token_presented s"
  using ReceiveHandshake_closed [OF assms] ReceiveMessage_closed [OF assms]
  by (auto simp: origin_checked_def token_presented_def)

lemma keeps_fields:
  assumes "keeps_sender (s\<lparr>client_authenticated := b\<rparr>) t"
  shows "server_origin t = server_origin s" "server_token t = server_token s" "listener_open t = listener_open s"
    "client_open t = client_open s" "stop_flag t = stop_flag s" "client_authenticated t = b" "worker t = worker s"
    "main t = main s" "lan_inv (lan s) \<Longrightarrow> lan_inv (lan t)"
  using assms by (simp_all add: keeps_sender_def untouched_def)

lemma relay_inv_end:
  assumes "relay_inv s" "keeps_sender (s\<lparr>client_authenticated := b\<rparr>) t" "worker s \<in> {Handshaking, Authenticating, Serving}"
  shows "relay_inv (Run_end t)"
  using assms(1,3) keeps_fields [OF assms(2)] unfolding relay_inv_def by (elim insertE; simp add: Run_end_fields)

lemma relay_inv_next:
  assumes "relay_inv s" "keeps_sender (s\<lparr>client_authenticated := b\<rparr>) t" "client_open s"
    and "w \<in> {Handshaking, Authenticating, Serving}" "b \<longleftrightarrow> w = Serving"
    and "worker s \<in> {Handshaking, Authenticating, Serving}"
  shows "relay_inv (t\<lparr>worker := w\<rparr>)"
proof -
  have "worker s \<noteq> WorkerDone" using assms(3,6) by auto
  then show ?thesis using assms(1,3-6) keeps_fields [OF assms(2)] unfolding relay_inv_def by (elim insertE; simp)
qed

lemma relay_inv_flag: "relay_inv s \<Longrightarrow> s\<lparr>client_authenticated := worker s = Serving\<rparr> = s"
  by (simp add: relay_inv_def)

lemma relay_inv_open:
  "relay_inv s \<Longrightarrow> worker s \<in> {Handshaking, Authenticating} \<Longrightarrow> origin_checked create_accept s \<or> token_presented s \<Longrightarrow> client_open s"
  "relay_inv s \<Longrightarrow> worker s = Serving \<Longrightarrow> \<not> stop_flag s \<Longrightarrow> client_open s"
  using closed_client_ends by (auto simp: relay_inv_def)

lemma worker_step_inv:
  assumes "relay_inv s"
  shows "relay_inv (worker_step create_accept env s)"
proof (cases "worker s")
  case Handshaking
  then have s: "s\<lparr>client_authenticated := False\<rparr> = s" using relay_inv_flag [OF assms] by simp
  obtain t where t: "keeps_sender s t" "worker_step create_accept env s = Run_end t \<or>
      worker_step create_accept env s = t\<lparr>worker := Authenticating\<rparr> \<and> origin_checked create_accept s"
    using worker_step_Handshaking [OF Handshaking] unfolding calm_def by blast
  then show ?thesis
    using relay_inv_end [OF assms, of False t] relay_inv_next [OF assms, of False t Authenticating]
      relay_inv_open(1) [OF assms, of create_accept] Handshaking
    by (elim disjE conjE; simp add: s)
next
  case Authenticating
  then have s: "s\<lparr>client_authenticated := False\<rparr> = s" using relay_inv_flag [OF assms] by simp
  from worker_step_Authenticating [OF Authenticating, of create_accept env] show ?thesis
  proof (elim disjE conjE exE)
    fix t assume "calm s t" "worker_step create_accept env s = Run_end t"
    then show ?thesis using relay_inv_end [OF assms, of False t] Authenticating by (simp add: calm_def s)
  next
    fix t assume "token_presented s" "calm (s\<lparr>client_authenticated := True\<rparr>) t" "worker_step create_accept env s = Run_end t"
    then show ?thesis using relay_inv_end [OF assms, of True t] Authenticating by (simp add: calm_def)
  next
    fix t assume "token_presented s" "calm (s\<lparr>client_authenticated := True\<rparr>) t" "worker_step create_accept env s = t\<lparr>worker := Serving\<rparr>"
    then show ?thesis using relay_inv_next [OF assms, of True t Serving] relay_inv_open(1) [OF assms] Authenticating
      by (simp add: calm_def)
  qed
next
  case Serving
  then have s: "s\<lparr>client_authenticated := True\<rparr> = s" using relay_inv_flag [OF assms] by simp
  obtain t where t: "keeps_sender s t" "worker_step create_accept env s = Run_end t \<or> worker_step create_accept env s = t \<and> \<not> stop_flag s"
    using worker_step_Serving [OF Serving] by blast
  have same: "t\<lparr>worker := Serving\<rparr> = t" using t(1) Serving by (simp add: keeps_sender_def untouched_def)
  from t(2) show ?thesis
  proof (elim disjE conjE)
    assume "worker_step create_accept env s = Run_end t"
    then show ?thesis using relay_inv_end [OF assms, of True t] t(1) Serving s by simp
  next
    assume "worker_step create_accept env s = t" "\<not> stop_flag s"
    then show ?thesis
      using relay_inv_next [OF assms, of True t Serving] relay_inv_open(2) [OF assms Serving] t(1) s same Serving by simp
  qed
next
  case AcceptReturned
  then show ?thesis using assms by (auto simp: worker_step_accepting relay_inv_def)
next
  case StopChecked
  then show ?thesis using assms by (auto simp: worker_step_accepting relay_inv_def)
next
  case ClientStored
  then show ?thesis using assms unfolding relay_inv_def by (simp add: worker_step_accepting) blast
qed (use assms in \<open>simp_all add: worker_step_idle\<close>)

section \<open>The other threads keep the invariant\<close>

definition main_running :: "main_phase \<Rightarrow> bool" where
  "main_running m \<longleftrightarrow> (\<forall>k. m \<noteq> MainJoining k \<and> m \<noteq> MainDone k)"

lemma main_running_simps [simp]:
  "main_running MainReading" "main_running (MainStopping k)" "main_running (MainConfiguring a c)"
  by (simp_all add: main_running_def)

lemma relay_inv_main:
  assumes "relay_inv s" "main_running (main s)" "main_running m" "lan_inv l"
  shows "relay_inv (s\<lparr>lan := l, next_ping := n, native_in := i, native_out := out, main := m\<rparr>)"
  using assms by (simp add: relay_inv_def main_running_def) blast

lemma relay_inv_write:
  assumes "relay_inv s" "main_running (main s)" "lan_inv l"
  shows "relay_inv (write_native result reply (s\<lparr>lan := l, next_ping := n, native_in := i\<rparr>))"
proof -
  obtain out r where out: "WriteNativeMessage result reply = (out, r)" by fastforce
  have "write_native result reply (s\<lparr>lan := l, next_ping := n, native_in := i\<rparr>) =
    s\<lparr>lan := l, next_ping := n, native_in := i, native_out := native_out s @ out,
      main := (case r of Inl _ \<Rightarrow> MainStopping 1 | Inr _ \<Rightarrow> MainReading)\<rparr>"
    by (simp add: write_native_def out)
  then show ?thesis using relay_inv_main [OF assms(1,2) _ assms(3)] by (auto split: sum.split)
qed

lemma HandleNativeMessage_inv:
  assumes "relay_inv s" "main_running (main s)"
  shows "relay_inv (HandleNativeMessage result m (s\<lparr>native_in := i\<rparr>))"
proof -
  have lan: "lan_inv (lan s)" using assms(1) by (simp add: relay_inv_def)
  have w: "relay_inv (write_native result reply (s\<lparr>native_in := i\<rparr>))" for reply
    using relay_inv_write [OF assms lan, where result = result and reply = reply and n = "next_ping s" and i = i] by simp
  have c: "relay_inv (s\<lparr>native_in := i, main := MainConfiguring a c\<rparr>)" for a c
    using relay_inv_main [OF assms _ lan, where m = "MainConfiguring a c" and n = "next_ping s" and i = i and out = "native_out s"] by simp
  show ?thesis by (auto simp: HandleNativeMessage_def w c split: option.split)
qed

lemma Stop_stopped: "stopped_lan (Stop script l)"
proof -
  obtain t ok where t: "SendControl script stop_message (l\<lparr>connected := False, running := False\<rparr>) = (t, ok)" by fastforce
  show ?thesis using lan_core_fields [OF SendControl_core [OF t]]
    by (simp add: Stop_def Let_def stopped_lan_def CloseSockets_def t)
qed

lemma StopServer_fields:
  "\<not> listener_open (StopServer s)" "\<not> client_open (StopServer s)" "stop_flag (StopServer s)" "worker (StopServer s) = worker s"
  "lan (StopServer s) = lan s" "client_authenticated (StopServer s) = client_authenticated s" "server_token (StopServer s) = server_token s"
  "incoming (accepted (StopServer s)) = (if client_open s then [] else incoming (accepted s))" "main (StopServer s) = main s"
  by (simp_all add: StopServer_def CloseListener_def CloseClient_def)

lemma main_step_inv:
  assumes "relay_inv s"
  shows "relay_inv (main_step inet env s)"
proof (cases "main s")
  case MainReading
  obtain i r where r: "ReadNativeMessage (native_in s) = (i, r)" by fastforce
  have lan: "lan_inv (lan s)" using assms by (simp add: relay_inv_def)
  have stop: "relay_inv (s\<lparr>native_in := i, main := MainStopping k\<rparr>)" for k
    using relay_inv_main [OF assms _ _ lan, where m = "MainStopping k" and n = "next_ping s" and i = i and out = "native_out s"] MainReading by simp
  show ?thesis using HandleNativeMessage_inv [OF assms, of "write_result env" _ i] MainReading
    by (auto simp: main_step_def r stop split: sum.split option.split)
next
  case (MainConfiguring a c)
  obtain l r where l: "Configure inet (configure_env env) a c (lan s) = (l, r)" by fastforce
  have lan: "lan_inv l" using Configure_cases(1) [OF l] assms by (simp add: relay_inv_def)
  have fail: "relay_inv (s\<lparr>lan := l, main := MainStopping 1\<rparr>)"
    using relay_inv_main [OF assms _ _ lan, where m = "MainStopping 1" and n = "next_ping s" and i = "native_in s" and out = "native_out s"] MainConfiguring by simp
  have replied: "relay_inv (write_native (write_result env) reply (s\<lparr>lan := l, next_ping := n\<rparr>))" for reply n
    using relay_inv_write [OF assms _ lan, where result = "write_result env" and reply = reply and n = n and i = "native_in s"] MainConfiguring by simp
  then have same: "relay_inv (write_native (write_result env) reply (s\<lparr>lan := l\<rparr>))" for reply
    using replied [of reply "next_ping s"] by simp
  show ?thesis using MainConfiguring by (auto simp: main_step_def main_configure_def l fail [simplified] replied same split: sum.split)
next
  case (MainStopping k)
  then have "\<not> stop_flag s" using assms by (auto simp: relay_inv_def)
  then have "relay_inv ((StopServer s)\<lparr>main := MainJoining k\<rparr>)"
    using assms MainStopping unfolding relay_inv_def by (simp add: StopServer_fields)
  then show ?thesis using MainStopping by (simp add: main_step_def)
next
  case (MainJoining k)
  show ?thesis
  proof (cases "worker s = WorkerDone")
    case True
    have "lan_inv (lan s)" "stop_flag s" "\<not> listener_open s" "\<not> client_open s" "\<not> client_authenticated s"
      using assms True MainJoining by (simp_all add: relay_inv_def)
    then show ?thesis using MainJoining True lan_inv_closed(1)
      by (simp add: main_step_def StopServer_joined_def relay_inv_def Stop_stopped list_all_iff)
  qed (use assms MainJoining in \<open>simp add: main_step_def\<close>)
qed (use assms in \<open>simp add: main_step_def\<close>)

lemma AcceptClient_inv:
  assumes "relay_inv s"
  shows "relay_inv (AcceptClient result s)"
proof (cases "worker s = Accepting")
  case True
  then have "\<not> client_open s" "\<not> client_authenticated s" "\<forall>k. main s \<noteq> MainDone k" using assms by (auto simp: relay_inv_def)
  moreover from this have "relay_inv (s\<lparr>worker := WorkerDone\<rparr>)" "relay_inv (s\<lparr>accepted := c, worker := AcceptReturned\<rparr>)" for c
    using assms True by (simp_all add: relay_inv_def)
  ultimately show ?thesis using assms True by (simp add: AcceptClient_def split: option.split)
qed (use assms in \<open>simp add: AcceptClient_def\<close>)

lemma control_step_inv:
  assumes "relay_inv s" "ControlLoop_iteration events clock script (next_ping s) (lan s) = (l, n)"
  shows "relay_inv (s\<lparr>lan := l, next_ping := n\<rparr>)"
proof (cases "running (lan s)")
  case True
  then have "\<not> stopped_lan (lan s)" by (simp add: stopped_lan_def)
  then have "\<forall>k. main s \<noteq> MainDone k" using assms(1) by (auto simp: relay_inv_def)
  then show ?thesis using assms ControlLoop_iteration_inv [OF _ assms(2)] by (simp add: relay_inv_def) blast
next
  case False
  then have "s\<lparr>lan := l, next_ping := n\<rparr> = s" using assms(2) by (simp add: ControlLoop_iteration_def)
  then show ?thesis using assms(1) by simp
qed

interpretation relay: invariant_system "newRelay origin token input out" "relay_step create inet" relay_inv
proof
  show "relay_inv (newRelay origin token input out)" by (rule relay_inv_start)
next
  fix s e
  assume "relay_inv s"
  then show "relay_inv (relay_step create inet e s)"
    by (cases e) (auto simp: worker_step_inv main_step_inv AcceptClient_inv intro: control_step_inv split: prod.split)
qed

section \<open>Who sends video\<close>

lemma Stop_video_out: "video_out (Stop script l) = video_out l"
proof -
  obtain t ok where t: "SendControl script stop_message (l\<lparr>connected := False, running := False\<rparr>) = (t, ok)" by fastforce
  show ?thesis using lan_core_fields(10) [OF SendControl_core [OF t]]
    by (simp add: Stop_def Let_def CloseSockets_def t)
qed

lemma PerformPairing_video_out: "PerformPairing env c s = (t, r) \<Longrightarrow> video_out t = video_out s"
  by (drule PerformPairing_cases, elim disjE exE conjE; drule lan_core_fields(10)) (simp_all add: paired_with_def)

lemma Configure_video_out:
  assumes "Configure inet env a c s = (t, r)"
  shows "video_out t = video_out s"
proof (cases "IsTrustedLanIpv4 inet a")
  case None
  then show ?thesis using assms by (auto simp: Configure_def Let_def Stop_video_out)
next
  case (Some e)
  let ?s1 = "(Stop (stop_script env) s)\<lparr>receiver_address := a, receiver_video_address := e\<rparr>"
  obtain s2 out2 where s2: "ConnectControl inet (connect_result env) a ?s1 = (s2, out2)" by fastforce
  obtain s3 r3 where s3: "PerformPairing (pairing_env env) c s2 = (s3, r3)" by fastforce
  have v2: "video_out s2 = video_out s" using ConnectControl_fields(1) [OF s2] by (auto simp: Stop_video_out)
  then have v3: "video_out s3 = video_out s" using PerformPairing_video_out [OF s3] by simp
  show ?thesis using assms v2 v3
    by (auto simp: Configure_def Let_def Some s2 s3 Stop_video_out configure_failed_def CloseSockets_def OpenVideoSocket_def
        split: if_splits sum.splits prod.splits video_outcome.splits)
qed

lemma ControlLoop_iteration_video_out:
  assumes "ControlLoop_iteration es clock script ping s = (t, n)"
  shows "video_out t = video_out s"
proof -
  obtain u json where u: "ReceiveControl es s = (u, json)" by fastforce
  let ?v = "case json of None \<Rightarrow> u | Some j \<Rightarrow> HandleControl j u"
  have v: "video_out ?v = video_out s" using lan_core_fields(10) [OF ReceiveControl_core [OF u]]
    by (auto simp: HandleControl_def Let_def split: option.split)
  obtain w ok where w: "SendControl script (ping_message clock) ?v = (w, ok)" by fastforce
  have "video_out w = video_out s" using lan_core_fields(10) [OF SendControl_core [OF w]] v by simp
  then show ?thesis
    using assms v w by (cases json) (auto simp: ControlLoop_iteration_def Let_def u split: if_splits bool.splits)
qed

text \<open>What the threads other than the worker leave alone.\<close>

definition identity :: "Relay \<Rightarrow> string \<times> (endpoint \<times> byte list) list" where
  "identity s = (server_origin s, video_out (lan s))"

lemma write_native_identity: "identity (write_native result reply s) = identity s \<and> worker (write_native result reply s) = worker s
    \<and> server_token (write_native result reply s) = server_token s"
  by (simp add: write_native_def identity_def split: prod.split)

lemma main_step_identity:
  "identity (main_step inet env s) = identity s" "worker (main_step inet env s) = worker s"
  "(\<forall>k. main (main_step inet env s) \<noteq> MainDone k) \<Longrightarrow> server_token (main_step inet env s) = server_token s"
proof -
  have "identity (main_step inet env s) = identity s \<and> worker (main_step inet env s) = worker s \<and>
    ((\<forall>k. main (main_step inet env s) \<noteq> MainDone k) \<longrightarrow> server_token (main_step inet env s) = server_token s)"
  proof (cases "main s")
    case MainReading
    obtain i r where r: "ReadNativeMessage (native_in s) = (i, r)" by fastforce
    show ?thesis using MainReading write_native_identity [of "write_result env" _ "s\<lparr>native_in := i\<rparr>"]
      by (auto simp: main_step_def r HandleNativeMessage_def identity_def split: sum.split option.split)
  next
    case (MainConfiguring a c)
    obtain l r where l: "Configure inet (configure_env env) a c (lan s) = (l, r)" by fastforce
    show ?thesis
      using MainConfiguring Configure_video_out [OF l] write_native_identity [of "write_result env" _ "s\<lparr>lan := l\<rparr>"]
        write_native_identity [of "write_result env" _ "s\<lparr>lan := l, next_ping := main_clock env\<rparr>"]
      by (auto simp: main_step_def main_configure_def l identity_def split: sum.split)
  qed (auto simp: main_step_def StopServer_def CloseListener_def CloseClient_def StopServer_joined_def identity_def Stop_video_out)
  then show "identity (main_step inet env s) = identity s" "worker (main_step inet env s) = worker s"
    "(\<forall>k. main (main_step inet env s) \<noteq> MainDone k) \<Longrightarrow> server_token (main_step inet env s) = server_token s" by blast+
qed

text \<open>Where the client stands after a step, and what it has shown when it gets there.\<close>

lemma calm_fields:
  assumes "calm (s\<lparr>client_authenticated := b\<rparr>) t"
  shows "server_origin t = server_origin s" "server_token t = server_token s" "worker t = worker s"
    "main t = main s" "video_out (lan t) = video_out (lan s)"
  using assms by (simp_all add: calm_def sends_no_video_def untouched_def)

lemma calm_same: "calm s t \<Longrightarrow> calm (s\<lparr>client_authenticated := client_authenticated s\<rparr>) t"
  by simp

definition passed :: "(string \<Rightarrow> string fallible) \<Rightarrow> Relay \<Rightarrow> Relay \<Rightarrow> bool" where
  "passed create s t \<longleftrightarrow>
     (worker t = Authenticating \<longrightarrow> worker s = Authenticating \<or> worker s = Handshaking \<and> origin_checked create s) \<and>
     (worker t = Serving \<longrightarrow> worker s = Serving \<or> worker s = Authenticating \<and> token_presented s) \<and>
     (video_out (lan t) = video_out (lan s) \<or> worker s = Serving) \<and>
     server_origin t = server_origin s \<and>
     ((\<forall>k. main t \<noteq> MainDone k) \<longrightarrow> server_token t = server_token s \<and> (\<forall>k. main s \<noteq> MainDone k))"

lemma worker_step_passed: "passed create s (worker_step create env s)"
proof (cases "worker s")
  case Handshaking
  obtain t where t: "calm s t" "worker_step create env s = Run_end t \<or>
      worker_step create env s = t\<lparr>worker := Authenticating\<rparr> \<and> origin_checked create s"
    using worker_step_Handshaking [OF Handshaking] by blast
  show ?thesis using t(2) Handshaking calm_fields [OF calm_same [OF t(1)]] by (auto simp: passed_def Run_end_fields)
next
  case Authenticating
  from worker_step_Authenticating [OF Authenticating, of create env]
  obtain t b where t: "calm (s\<lparr>client_authenticated := b\<rparr>) t"
    "worker_step create env s = Run_end t \<or> worker_step create env s = t\<lparr>worker := Serving\<rparr> \<and> token_presented s"
    using calm_same by metis
  show ?thesis using t(2) Authenticating calm_fields [OF t(1)] by (auto simp: passed_def Run_end_fields)
next
  case Serving
  obtain t where t: "keeps_sender s t" "worker_step create env s = Run_end t \<or> worker_step create env s = t \<and> \<not> stop_flag s"
    using worker_step_Serving [OF Serving] by blast
  then show ?thesis using Serving by (auto simp: passed_def Run_end_fields keeps_sender_def untouched_def)
qed (simp_all add: worker_step_idle worker_step_accepting passed_def)

lemma main_step_not_done: "(\<forall>k. main (main_step inet env s) \<noteq> MainDone k) \<Longrightarrow> main s \<noteq> MainDone k"
  by (auto simp: main_step_def)

lemma relay_step_passed: "passed create s (relay_step create inet e s)"
proof (cases e)
  case (AcceptEvent result)
  then show ?thesis by (auto simp: passed_def AcceptClient_def CloseListener_def split: option.split)
next
  case (MainEvent env)
  then show ?thesis using main_step_identity [of inet env s] main_step_not_done [of inet env s]
    by (auto simp: passed_def identity_def)
next
  case (ControlEvent es clock script)
  then show ?thesis using ControlLoop_iteration_video_out by (auto simp: passed_def split: prod.split)
qed (simp add: worker_step_passed)

text \<open>The origin and the token are those of the start for as long as the relay runs.\<close>

lemma run_identity:
  "server_origin (fold (relay_step create inet) es (newRelay origin token input out)) = origin"
  "(\<forall>k. main (fold (relay_step create inet) es (newRelay origin token input out)) \<noteq> MainDone k) \<Longrightarrow>
     server_token (fold (relay_step create inet) es (newRelay origin token input out)) = token"
proof (induction es rule: rev_induct)
  case Nil
  show "server_origin (fold (relay_step create inet) [] (newRelay origin token input out)) = origin"
    "(\<forall>k. main (fold (relay_step create inet) [] (newRelay origin token input out)) \<noteq> MainDone k) \<Longrightarrow>
     server_token (fold (relay_step create inet) [] (newRelay origin token input out)) = token"
    by (simp_all add: newRelay_def)
next
  case (snoc e es)
  let ?s = "fold (relay_step create inet) es (newRelay origin token input out)"
  note p = relay_step_passed [of create ?s inet e, unfolded passed_def]
  show "server_origin (fold (relay_step create inet) (es @ [e]) (newRelay origin token input out)) = origin"
    using p snoc(1) by simp
  show "(\<forall>k. main (fold (relay_step create inet) (es @ [e]) (newRelay origin token input out)) \<noteq> MainDone k) \<Longrightarrow>
     server_token (fold (relay_step create inet) (es @ [e]) (newRelay origin token input out)) = token"
    using p snoc(2) by simp
qed

lemma authenticating_run:
  assumes "worker (fold (relay_step create inet) es (newRelay origin token input out)) = Authenticating"
  obtains es1 e es2 where "es = es1 @ e # es2"
    "origin_checked create (fold (relay_step create inet) es1 (newRelay origin token input out))"
proof (rule entered_by [where Q = "\<lambda>s. worker s = Authenticating" and P = "origin_checked create", OF assms])
  show "worker (newRelay origin token input out) \<noteq> Authenticating" by (simp add: newRelay_def)
  show "worker s = Authenticating \<or> origin_checked create s" if "worker (relay_step create inet e s) = Authenticating" for e s
    using relay_step_passed [of create s inet e] that by (auto simp: passed_def)
qed (rule that)

lemma serving_run:
  assumes "worker (fold (relay_step create inet) es (newRelay origin token input out)) = Serving"
  obtains es1 e es2 where "es = es1 @ e # es2"
    "worker (fold (relay_step create inet) es1 (newRelay origin token input out)) = Authenticating"
    "token_presented (fold (relay_step create inet) es1 (newRelay origin token input out))"
proof (rule entered_by [where Q = "\<lambda>s. worker s = Serving" and P = "\<lambda>s. worker s = Authenticating \<and> token_presented s", OF assms])
  show "worker (newRelay origin token input out) \<noteq> Serving" by (simp add: newRelay_def)
  show "worker s = Serving \<or> worker s = Authenticating \<and> token_presented s" if "worker (relay_step create inet e s) = Serving" for e s
    using relay_step_passed [of create s inet e] that by (auto simp: passed_def)
qed (use that in blast)

lemma video_run:
  assumes "video_out (lan (fold (relay_step create inet) es (newRelay origin token input out))) \<noteq> []"
  obtains es1 e es2 where "es = es1 @ e # es2"
    "worker (fold (relay_step create inet) es1 (newRelay origin token input out)) = Serving"
proof (rule entered_by [where Q = "\<lambda>s. video_out (lan s) \<noteq> []" and P = "\<lambda>s. worker s = Serving", OF assms])
  show "\<not> video_out (lan (newRelay origin token input out)) \<noteq> []" by (simp add: newRelay_def newLanSender_def)
  show "video_out (lan s) \<noteq> [] \<or> worker s = Serving" if "video_out (lan (relay_step create inet e s)) \<noteq> []" for e s
    using relay_step_passed [of create s inet e] that by (auto simp: passed_def)
qed (rule that)

section \<open>What a client has shown\<close>

definition shows_origin :: "string \<Rightarrow> ClientSocket \<Rightarrow> bool" where
  "shows_origin origin c \<longleftrightarrow> (case ReceiveHandshake c of
     (_, Inl _) \<Rightarrow> False
   | (_, Inr request) \<Rightarrow> (case ParseHeaders request of
       Inl _ \<Rightarrow> False
     | Inr (line, headers) \<Rightarrow> line = ''GET /capture HTTP/1.1'' \<and> headers ''origin'' = Some origin))"

definition shows_token :: "string \<Rightarrow> ClientSocket \<Rightarrow> bool" where
  "shows_token token c \<longleftrightarrow> (case ReceiveMessage c of
     (_, Inl _) \<Rightarrow> False
   | (_, Inr f) \<Rightarrow> ws_opcode f = 1 \<and> chars_of (ws_payload f) = expected_auth token)"

lemma origin_checked_shows: "origin_checked create s \<Longrightarrow> shows_origin (server_origin s) (accepted s)"
  by (auto simp: origin_checked_def shows_origin_def handshake_accept_def handshake_policy_def
      split: prod.splits sum.splits option.splits if_splits)

lemma token_presented_shows: "token_presented s \<longleftrightarrow> shows_token (server_token s) (accepted s)"
  by (simp add: token_presented_def shows_token_def)

lemma not_done:
  assumes "worker (fold (relay_step create inet) es (newRelay origin token input out)) \<noteq> WorkerDone"
  shows "\<forall>k. main (fold (relay_step create inet) es (newRelay origin token input out)) \<noteq> MainDone k"
  using relay.inv_run [of create inet es origin token input out] assms by (auto simp: relay_inv_def)

section \<open>Serving an access unit\<close>

lemma on_client_inert: "on_client m s = (s\<lparr>accepted := fst (m (accepted s))\<rparr>, snd (m (accepted s)))"
  by (simp add: on_client_def split: prod.split)

lemma SendText_writable:
  assumes "writable (Suc k) (accepted s)" "length text \<le> 2 ^ 29"
  shows "\<exists>s'. on_client (SendText text) s = (s', Inr ()) \<and> writable k (accepted s') \<and> untouched s' = untouched s \<and>
    lan s' = lan s \<and> incoming (accepted s') = incoming (accepted s) \<and> last_telemetry s' = last_telemetry s"
proof -
  have "length (bytes_of text) \<le> 2 ^ 29" using assms(2) by simp
  from SendFrame_writable [OF assms(1) this, of 1] obtain c'
    where "SendFrame 1 (bytes_of text) (accepted s) = (c', Inr ())" "writable k c'" "incoming c' = incoming (accepted s)" by metis
  then show ?thesis by (simp add: on_client_inert SendText_def untouched_def)
qed

lemma length_dec_u64: "length (dec (unat (x :: u64))) \<le> 20"
proof -
  have "unat x < 2 ^ LENGTH(64)" by (rule unsigned_less)
  then have "unat x < 10 ^ 20" by simp
  then show ?thesis by (rule length_dec_le) simp
qed

lemma length_telemetry_text: "length (telemetry_text s) \<le> 2 ^ 29"
proof -
  have "length (bool_text b) \<le> 5" for b by (simp add: bool_text_def)
  then show ?thesis
    using length_dec_u64 [of "received_frames s"] length_dec_u64 [of "received_bytes s"] length_dec_u64 [of "key_frames s"]
      length_dec_u64 [of "invalid_messages s"] length_dec_u64 [of "sent_frames (stats (lan s))"]
      length_dec_u64 [of "sent_bytes (stats (lan s))"] length_dec_u64 [of "sent_datagrams (stats (lan s))"]
      length_dec_u64 [of "send_errors (stats (lan s))"] length_dec_u64 [of "receiver_decoded (stats (lan s))"]
      length_dec_u64 [of "receiver_dropped (stats (lan s))"]
    by (simp add: telemetry_text_def Let_def bool_text_def)
qed

lemma ForwardKeyframeRequest_writable:
  assumes "writable (Suc k) (accepted s)"
  shows "\<exists>s'. ForwardKeyframeRequest s = (s', Inr ()) \<and> writable k (accepted s') \<and> untouched s' = untouched s \<and>
    lan s' = (lan s)\<lparr>keyframe_requested := False\<rparr> \<and> incoming (accepted s') = incoming (accepted s)"
proof -
  let ?s = "s\<lparr>lan := (lan s)\<lparr>keyframe_requested := False\<rparr>\<rparr>"
  have less: "writable k (accepted s)" using assms take_add [of k 1 "send_scripts (accepted s)"] by (simp add: writable_def)
  have "length keyframe_text \<le> 2 ^ 29" by (simp add: keyframe_text_def)
  moreover have "writable (Suc k) (accepted ?s)" "untouched ?s = untouched s" using assms by (simp_all add: untouched_def)
  ultimately obtain s' where s': "on_client (SendText keyframe_text) ?s = (s', Inr ())" "writable k (accepted s')" "untouched s' = untouched s"
      "lan s' = lan ?s" "incoming (accepted s') = incoming (accepted s)"
    using SendText_writable [of k ?s keyframe_text] by auto
  have "untouched ?s = untouched s" by (simp add: untouched_def)
  then show ?thesis using s' less
    by (cases "keyframe_requested (lan s)") (simp_all add: ForwardKeyframeRequest_def ConsumeKeyframeRequest_def)
qed

lemma ServeVideo_forwards:
  assumes "connected (lan s)" "video_socket (lan s) = Some e" "session_short (lan s) \<noteq> 0" "LocalVideoMessage.payload v \<noteq> []"
    and "length (LocalVideoMessage.payload v) \<le> kMaxVideoPayloadBytes" "list_all (\<lambda>taken. taken) results" "length results = 6991"
    and "writable 2 (accepted s)"
  shows "\<exists>s'. ServeVideo results clock (render_local_video v) s = (s', Inr True) \<and> untouched s' = untouched s \<and>
    video_out (lan s') = video_out (lan s) @ map (Pair e) (BuildLanVideoDatagrams v (session_short (lan s))) \<and>
    connected (lan s') \<and> incoming (accepted s') = incoming (accepted s)"
proof -
  obtain l where l: "SendAccessUnit results v (lan s) = (l, True)" "connected l"
      "video_out l = video_out (lan s) @ map (Pair e) (BuildLanVideoDatagrams v (session_short (lan s)))"
    using SendAccessUnit_sends [OF assms(1-7)] by blast
  have parse: "ParseLocalVideoMessage (render_local_video v) = Inr v" using assms(5) ParseLocalVideoMessage_iff by blast
  let ?s = "s\<lparr>received_frames := received_frames s + 1,
        received_bytes := received_bytes s + word_of_nat (length (LocalVideoMessage.payload v)),
        key_frames := (if key_frame v then key_frames s + 1 else key_frames s), lan := l\<rparr>"
  have "writable (Suc 1) (accepted ?s)" using assms(8) by (simp add: numeral_2_eq_2)
  from ForwardKeyframeRequest_writable [OF this] obtain s1 where s1: "ForwardKeyframeRequest ?s = (s1, Inr ())"
      "writable (Suc 0) (accepted s1)" "untouched s1 = untouched s" "lan s1 = l\<lparr>keyframe_requested := False\<rparr>"
      "incoming (accepted s1) = incoming (accepted s)"
    by (auto simp: untouched_def)
  obtain s2 where s2: "send_telemetry s1 = (s2, Inr ())" "untouched s2 = untouched s1" "lan s2 = lan s1"
      "incoming (accepted s2) = incoming (accepted s1)"
    using SendText_writable [OF s1(2) length_telemetry_text [of s1]] by (auto simp: send_telemetry_def)
  show ?thesis
    using l s1 s2 by (auto simp: ServeVideo_def parse Let_def and_do_def untouched_def)
qed


lemma ServeMessage_forwards:
  assumes "next_message kMaxWebSocketMessageBytes None fs = Some (m, pings, later)" "list_all wf_frame fs"
    and "opcode m = kBinary" "WebSocket.payload m = render_local_video v"
    and "delivers (accepted s) (concat (map client_frame fs) @ rest)" "writable (length pings + 2) (accepted s)"
    and "connected (lan s)" "video_socket (lan s) = Some e" "session_short (lan s) \<noteq> 0" "LocalVideoMessage.payload v \<noteq> []"
    and "length (LocalVideoMessage.payload v) \<le> kMaxVideoPayloadBytes" "list_all (\<lambda>taken. taken) results" "length results = 6991"
  shows "\<exists>s'. ServeMessage results clock s = (s', Inr True) \<and> untouched s' = untouched s \<and>
    video_out (lan s') = video_out (lan s) @ map (Pair e) (BuildLanVideoDatagrams v (session_short (lan s))) \<and>
    connected (lan s') \<and> delivers (accepted s') (concat (map client_frame later) @ rest)"
proof -
  have w: "writable (length pings) (accepted s)" and w2: "writable 2 ((accepted s)\<lparr>send_scripts := drop (length pings) (send_scripts (accepted s))\<rparr>)"
    using assms(6) take_add [of "length pings" 2 "send_scripts (accepted s)"] by (auto simp: writable_def)
  have "assembly_ok None" "\<forall>f \<in> set fs. wf_frame f" using assms(2) by (simp_all add: assembly_ok_def list_all_iff)
  from ReceiveMessage_next [OF assms(1) this assms(5) w] obtain c'
    where c': "ReceiveMessage (accepted s) = (c', Inr (message_frame m))" "delivers c' (concat (map client_frame later) @ rest)"
      "send_scripts c' = drop (length pings) (send_scripts (accepted s))"
    by (auto simp: ReceiveMessage_def assembling_def assembled_def)
  have f: "ws_opcode (message_frame m) = 2" "ws_payload (message_frame m) = render_local_video v"
    using assms(3,4) by (simp_all add: message_frame_def opcode_value_def)
  have "writable 2 (accepted (s\<lparr>accepted := c'\<rparr>))" using w2 c'(3) by (simp add: writable_def)
  from ServeVideo_forwards [of "s\<lparr>accepted := c'\<rparr>" e v results clock, simplified, OF assms(7-13) this [simplified]]
  obtain s' where "ServeVideo results clock (render_local_video v) (s\<lparr>accepted := c'\<rparr>) = (s', Inr True)"
      "untouched s' = untouched s" "connected (lan s')" "incoming (accepted s') = incoming c'"
      "video_out (lan s') = video_out (lan s) @ map (Pair e) (BuildLanVideoDatagrams v (session_short (lan s)))"
    by (auto simp: untouched_def)
  then show ?thesis using c'(1,2) f by (simp add: ServeMessage_def and_do_def on_client_inert delivers_def)
qed

section \<open>Stopping\<close>

text \<open>How many steps of the worker are left once the relay is stopping.\<close>

fun worker_rank :: "worker_phase \<Rightarrow> nat" where
  "worker_rank Accepting = 7"
| "worker_rank AcceptReturned = 6"
| "worker_rank StopChecked = 5"
| "worker_rank ClientStored = 4"
| "worker_rank Handshaking = 3"
| "worker_rank Authenticating = 2"
| "worker_rank Serving = 1"
| "worker_rank WorkerDone = 0"

lemma stopping_worker_step:
  fixes create :: "string \<Rightarrow> string fallible" and env :: WorkerEnv
  assumes "stop_flag s" "worker s \<noteq> Accepting"
  defines "t \<equiv> worker_step create env s"
  shows "worker_rank (worker t) \<le> worker_rank (worker s) - 1 \<and> worker t \<noteq> Accepting \<and> stop_flag t \<and> main t = main s"
proof (cases "worker s")
  case Handshaking
  then obtain u where u: "calm s u" "t = Run_end u \<or> t = u\<lparr>worker := Authenticating\<rparr>"
    using worker_step_Handshaking [OF Handshaking, of create env] by (auto simp: t_def)
  then show ?thesis
    using Handshaking assms(1) by (auto simp: Run_end_fields calm_def keeps_sender_def untouched_def)
next
  case Authenticating
  then obtain u b where u: "calm (s\<lparr>client_authenticated := b\<rparr>) u" "t = Run_end u \<or> t = u\<lparr>worker := Serving\<rparr>"
    using worker_step_Authenticating [OF Authenticating, of create env] calm_same unfolding t_def by metis
  then show ?thesis
    using Authenticating assms(1) by (auto simp: Run_end_fields calm_def keeps_sender_def untouched_def)
qed (use assms in \<open>simp_all add: worker_step_def Run_end_fields CloseListener_def\<close>)

lemma stopping_worker_ends:
  fixes create :: "string \<Rightarrow> string fallible" and inet :: "string \<Rightarrow> u32 option"
  assumes "stop_flag s" "worker s \<noteq> Accepting" "worker_rank (worker s) \<le> length envs"
  defines "t \<equiv> fold (relay_step create inet) (map WorkerEvent envs) s"
  shows "worker t = WorkerDone \<and> main t = main s"
  using assms(1-3) unfolding t_def
proof (induction envs arbitrary: s)
  case Nil
  then show ?case by (cases "worker s") simp_all
next
  case (Cons env envs)
  note step = stopping_worker_step [OF Cons.prems(1,2), of create env]
  have "worker_rank (worker (worker_step create env s)) \<le> length envs" using conjunct1 [OF step] Cons.prems(3) by simp
  then show ?case using Cons.IH [of "worker_step create env s"] step by simp
qed

text \<open>The steps of a shutdown: closing, the return of \<open>accept\<close>, what the worker still does, and the join.\<close>

definition shutdown_steps :: "MainEnv \<Rightarrow> ClientSocket option \<Rightarrow> WorkerEnv list \<Rightarrow> MainEnv \<Rightarrow> relay_event list" where
  "shutdown_steps e1 result envs e2 = [MainEvent e1, AcceptEvent result] @ map WorkerEvent envs @ [MainEvent e2]"

lemma shutdown_ends:
  assumes "relay_inv s" "main s = MainStopping k" "6 \<le> length envs"
  shows "main (fold (relay_step create inet) (shutdown_steps e1 result envs e2) s) = MainDone k"
proof -
  let ?s1 = "main_step inet e1 s" and ?s2 = "AcceptClient result (main_step inet e1 s)"
  have s1: "main ?s1 = MainJoining k" "stop_flag ?s1" "\<not> listener_open ?s1"
    using assms(2) StopServer_fields(1,3) by (simp_all add: main_step_def)
  then have s2: "main ?s2 = MainJoining k" "stop_flag ?s2" "worker ?s2 \<noteq> Accepting"
    by (auto simp: AcceptClient_def)
  then have "worker_rank (worker ?s2) \<le> length envs" using assms(3) by (cases "worker ?s2") simp_all
  from stopping_worker_ends [OF s2(2,3) this, of create inet]
  show ?thesis using s2(1) by (simp add: shutdown_steps_def main_step_def)
qed

text \<open>
  \<open>Stop\<close> does not always find the client. When it comes between the worker's check of \<open>stopping_\<close> and
  its store to \<open>client_\<close>, the client's socket stays open while the main thread waits for the worker,
  until the client has finished the handshake and the authentication or a receive timed out.
\<close>

lemma stop_misses_client:
  assumes "worker s = StopChecked" "\<not> client_open s" "main s = MainStopping k"
  shows "let t = worker_step create e2 (worker_step create e1 (main_step inet e s))
    in main t = MainJoining k \<and> worker t = Handshaking \<and> client_open t \<and> accepted t = accepted s"
  using assms by (simp add: main_step_def worker_step_def StopServer_def CloseListener_def CloseClient_def)

text \<open>The state after a run.\<close>

definition relay_run ::
    "(string \<Rightarrow> string fallible) \<Rightarrow> (string \<Rightarrow> u32 option) \<Rightarrow> string \<Rightarrow> string \<Rightarrow> input_stream \<Rightarrow> byte list
     \<Rightarrow> relay_event list \<Rightarrow> Relay" where
  "relay_run create inet origin token input out es = fold (relay_step create inet) es (newRelay origin token input out)"

section \<open>The relay is correct\<close>

text \<open>
  C24. The relay sends no video before its one client has opened with the extension's own origin and
  then presented the token: in every run that sent a datagram there are, in this order, a moment at
  which the request on the client's socket is \<open>GET /capture\<close> with that origin and one at which the next
  message is the authentication with that token.
\<close>

theorem video_needs_origin_and_token:
  shows "video_out (lan (relay_run create inet origin token input out es)) = [] \<or>
    (\<exists>es1 e1 es2 e2 es3. es = es1 @ e1 # es2 @ e2 # es3 \<and>
       shows_origin origin (accepted (relay_run create inet origin token input out es1)) \<and>
       shows_token token (accepted (relay_run create inet origin token input out (es1 @ e1 # es2))))"
proof (cases "video_out (lan (relay_run create inet origin token input out es)) = []")
  let ?run = "relay_run create inet origin token input out"
  case False
  then obtain as a bs where as: "es = as @ a # bs" "worker (?run as) = Serving"
    unfolding relay_run_def by (rule video_run)
  obtain cs c ds where cs: "as = cs @ c # ds" "worker (?run cs) = Authenticating" "token_presented (?run cs)"
    using as(2) unfolding relay_run_def by (rule serving_run)
  obtain xs x ys where xs: "cs = xs @ x # ys" "origin_checked create (?run xs)"
    using cs(2) unfolding relay_run_def by (rule authenticating_run)
  have "server_token (?run cs) = token"
    using run_identity(2) [OF not_done] cs(2) unfolding relay_run_def by simp
  then have "shows_token token (accepted (?run (xs @ x # ys)))" using cs(3) xs(1) by (simp add: token_presented_shows)
  moreover have "shows_origin origin (accepted (?run xs))"
    using origin_checked_shows [OF xs(2)] run_identity(1) unfolding relay_run_def by simp
  moreover have "es = xs @ x # ys @ c # (ds @ a # bs)" using as(1) cs(1) xs(1) by simp
  ultimately show ?thesis by blast
qed simp

text \<open>
  C26. In every run, whatever the browser, the client and the receiver send, each datagram went to a
  private IPv4 address and a port that is not privileged, the loopback listener is closed once a
  client is accepted, and a client is authenticated only while it is being served.
\<close>

theorem relay_stays_private:
  shows "list_all (\<lambda>(e, _). private_host (host_address e) \<and> 1024 \<le> host_port e) (video_out (lan (relay_run create inet origin token input out es))) \<and>
    \<not> (worker (relay_run create inet origin token input out es) \<in> {Handshaking, Authenticating, Serving} \<and> listener_open (relay_run create inet origin token input out es)) \<and>
    client_authenticated (relay_run create inet origin token input out es) = (worker (relay_run create inet origin token input out es) = Serving)"
proof -
  have inv: "relay_inv (relay_run create inet origin token input out es)" unfolding relay_run_def by (rule relay.inv_run)
  then show ?thesis by (auto simp: relay_inv_def lan_inv_def lan_endpoint_def [abs_def])
qed

text \<open>
  C25. An access unit that an authenticated client sends, in one binary message of any fragments with
  pings between them, reaches the configured receiver: the worker goes on serving, the bytes behind
  the message are still to be read, and the datagrams to the session's endpoint carry the sequence
  number, the time, the flags and the numbered parts that joined are the access unit.
\<close>

theorem relay_forwards_access_unit:
  assumes "next_message kMaxWebSocketMessageBytes None fs = Some (m, pings, later)" "list_all wf_frame fs"
    and "opcode m = kBinary" "WebSocket.payload m = render_local_video v"
    and "delivers (accepted s) (concat (map client_frame fs) @ rest)" "writable (length pings + 2) (accepted s)"
    and "worker s = Serving" "\<not> stop_flag s" "connected (lan s)" "video_socket (lan s) = Some e" "session_short (lan s) = short" "short \<noteq> 0"
    and "LocalVideoMessage.payload v \<noteq> []" "length (LocalVideoMessage.payload v) \<le> kMaxVideoPayloadBytes"
    and "packets_taken env = replicate 6991 True"
  shows "\<exists>s' ds. worker_step create env s = s' \<and> worker s' = Serving \<and> connected (lan s') \<and>
    delivers (accepted s') (concat (map client_frame later) @ rest) \<and>
    video_out (lan s') = video_out (lan s) @ map (Pair e) ds \<and>
    map read_lan_header ds = map (\<lambda>i. Some (lan_header v short i)) [0..<lan_fragment_count (LocalVideoMessage.payload v)] \<and>
    concat (map (drop 32) ds) = LocalVideoMessage.payload v"
proof -
  have taken: "list_all (\<lambda>taken. taken) (packets_taken env)" "length (packets_taken env) = 6991"
    using assms(15) by (simp_all add: list_all_iff)
  obtain s' where s': "ServeMessage (packets_taken env) (worker_clock env) s = (s', Inr True)" "untouched s' = untouched s"
      "video_out (lan s') = video_out (lan s) @ map (Pair e) (BuildLanVideoDatagrams v short)"
      "connected (lan s')" "delivers (accepted s') (concat (map client_frame later) @ rest)"
    using ServeMessage_forwards [OF assms(1-6,9,10) _ assms(13,14) taken] assms(11,12) by blast
  then show ?thesis using assms(7,8) lan_datagrams [OF assms(12-14)]
    by (intro exI [of _ s'] exI [of _ "BuildLanVideoDatagrams v short"]) (simp add: worker_step_def untouched_def)
qed

definition example_video :: LocalVideoMessage where
  "example_video = \<lparr>key_frame = True, sequence = 3, timestamp_us = 9, payload = [5, 6, 7]\<rparr>"

definition example_accept :: "string \<Rightarrow> string fallible" where
  "example_accept = CreateWebSocketAccept (Some \<circ> fips_sha1) (Some \<circ> Base64)"

definition example_main :: MainEnv where
  "example_main = \<lparr>configure_env = example_configure, main_clock = 0, write_result = Written\<rparr>"

definition example_worker :: WorkerEnv where
  "example_worker = \<lparr>timeouts_set = True, packets_taken = [], worker_clock = 0\<rparr>"

definition example_serving :: "byte list \<Rightarrow> Relay" where
  "example_serving input =
     (newRelay example_origin ''00'' \<lparr>unread = [], ends_at_eof = True\<rparr> [])
       \<lparr>listener_open := False, client_open := True, client_authenticated := True, worker := Serving,
        accepted := \<lparr>incoming = [input], client_out = [], send_scripts = [[2 ^ 30], [2 ^ 30]]\<rparr>,
        lan := newLanSender\<lparr>connected := True, running := True, control_socket := True, session_short := 7,
          video_socket := Some \<lparr>host_address = 0x0A000005, host_port = 47101\<rparr>\<rparr>\<rparr>"

lemma relay_forwards_access_unit_witness:
  "let f = \<lparr>fin = True, frame_opcode = kBinary, masking_key = [1, 2, 3, 4], frame_payload = render_local_video example_video\<rparr>
   in \<exists>d. video_out (lan (worker_step example_accept
        \<lparr>timeouts_set = True, packets_taken = replicate 6991 True, worker_clock = 0\<rparr> (example_serving (client_frame f)))) =
      [(\<lparr>host_address = 0x0A000005, host_port = 47101\<rparr>, d)] \<and>
     read_lan_header d = Some (lan_header example_video 7 0) \<and> drop 32 d = [5, 6, 7]"
proof -
  let ?f = "\<lparr>fin = True, frame_opcode = kBinary, masking_key = [1, 2, 3, 4], frame_payload = render_local_video example_video\<rparr>"
  let ?m = "\<lparr>opcode = kBinary, WebSocket.Message.payload = render_local_video example_video\<rparr>"
  let ?s = "example_serving (client_frame ?f)"
  have len: "length (render_local_video example_video) = 27" by (simp add: render_local_video_def example_video_def)
  have nxt: "next_message kMaxWebSocketMessageBytes None [?f] = Some (?m, [], [])"
    by (simp add: assemble_frame.simps control_opcode_def opcode_value_def word_le_nat_alt kMaxWebSocketMessageBytes_def
      kMaxVideoPayloadBytes_def len)
  have wf: "list_all wf_frame [?f]" by (simp add: wf_frame_def len)
  have d: "delivers (accepted ?s) (concat (map client_frame [?f]) @ [])" "writable (length [] + 2) (accepted ?s)"
    by (simp_all add: example_serving_def delivers_def client_frame_def writable_def numeral_2_eq_2)
  have n: "lan_fragment_count (LocalVideoMessage.payload example_video) = 1"
    by (simp add: lan_fragment_count_def kLanMaxUdpPayload_def example_video_def)
  have st: "worker ?s = Serving" "\<not> stop_flag ?s" "connected (lan ?s)" "video_socket (lan ?s) = Some \<lparr>host_address = 0x0A000005, host_port = 47101\<rparr>"
      "session_short (lan ?s) = 7" "(7 :: u32) \<noteq> 0" and out: "video_out (lan ?s) = []"
    by (simp_all add: example_serving_def newLanSender_def newRelay_def)
  have v: "LocalVideoMessage.payload example_video \<noteq> []" "length (LocalVideoMessage.payload example_video) \<le> kMaxVideoPayloadBytes"
    by (simp_all add: example_video_def kMaxVideoPayloadBytes_def)
  have m: "opcode ?m = kBinary" "WebSocket.payload ?m = render_local_video example_video" by simp_all
  obtain s' ds where s': "worker_step example_accept \<lparr>timeouts_set = True, packets_taken = replicate 6991 True, worker_clock = 0\<rparr> ?s = s'"
      "video_out (lan s') = video_out (lan ?s) @ map (Pair \<lparr>host_address = 0x0A000005, host_port = 47101\<rparr>) ds"
      "map read_lan_header ds = map (\<lambda>i. Some (lan_header example_video 7 i)) [0..<lan_fragment_count (LocalVideoMessage.payload example_video)]"
      "concat (map (drop 32) ds) = LocalVideoMessage.payload example_video"
    using relay_forwards_access_unit [OF nxt wf m d st v, of "\<lparr>timeouts_set = True, packets_taken = replicate 6991 True, worker_clock = 0\<rparr>" example_accept]
    by auto
  from s'(3) n obtain x where "ds = [x]" "read_lan_header x = Some (lan_header example_video 7 0)"
    by (cases ds) auto
  then show ?thesis using s' out by (simp add: example_video_def)
qed

text \<open>
  C28. A relay that starts was named an extension by the browser: its origin is the scheme and the 32
  letters of an extension's identifier, its token the 64 hex digits of its random bytes, what it has
  written is the message with that token and the port its listener is bound to, which is not zero,
  and its state is well formed.
\<close>

theorem started_relay_wellformed:
  assumes "wmain_start stdio argument gen_random listen_result ready_result input = Inr s"
    and "gen_random 32 = Some bs" "length bs = 32"
  shows "\<exists>i n port. listen_result = ListeningOn port \<and> argument = Some (Inr (extension_prefix @ i @ replicate n (CHR ''/''))) \<and> extension_id i \<and>
    server_origin s = extension_prefix @ i \<and> server_token s = LowerHex bs \<and> port \<noteq> 0 \<and>
    native_out s = native_bytes (port_ready_text port (LowerHex bs)) \<and> relay_inv s"
proof -
  have tok: "GenerateTokenHex gen_random 32 = Inr (LowerHex bs)"
    by (rule GenerateTokenHex_LowerHex) (use assms(2,3) in simp_all)
  obtain origin where a: "argument = Some (Inr origin)" and ne: "NormalizeExtensionOrigin origin \<noteq> ''''"
    using assms(1) by (auto simp: wmain_start_def Let_def split: option.splits sum.splits if_splits)
  then obtain port out where p: "StartServer listen_result = Inr port"
      "WriteNativeMessage ready_result (port_ready_text port (LowerHex bs)) = (out, Inr ())"
      "s = newRelay (NormalizeExtensionOrigin origin) (LowerHex bs) input out"
    using assms(1) tok by (auto simp: wmain_start_def Let_def split: option.splits sum.splits if_splits prod.splits)
  obtain i n where i: "extension_id i" "NormalizeExtensionOrigin origin = extension_prefix @ i" "origin = extension_prefix @ i @ replicate n (CHR ''/'')"
    using NormalizeExtensionOrigin_iff [OF ne, of origin] by auto
  have "port \<noteq> 0" "listen_result = ListeningOn port"
    using p(1) by (auto simp: StartServer_def split: listen_outcome.splits if_splits)
  moreover have "out = native_bytes (port_ready_text port (LowerHex bs))"
    using p(2) by (auto simp: WriteNativeMessage_def split: if_splits write_outcome.splits)
  moreover have "relay_inv s" unfolding p(3) by (rule relay_inv_start)
  moreover have "server_origin s = extension_prefix @ i" "server_token s = LowerHex bs" "native_out s = out"
    using i(2) by (simp_all add: p(3) newRelay_def)
  ultimately show ?thesis using a i(1,3) by blast
qed

lemma started_relay_wellformed_witness:
  "\<exists>s i. wmain_start True (Some (Inr (example_origin @ ''/''))) (\<lambda>n. Some (replicate n 0)) (ListeningOn 5000) Written
      \<lparr>unread = [], ends_at_eof = True\<rparr> = Inr s \<and> extension_id i \<and> server_origin s = extension_prefix @ i \<and>
      native_out s = native_bytes (port_ready_text 5000 (LowerHex (replicate 32 0)))"
proof -
  let ?start = "wmain_start True (Some (Inr (example_origin @ ''/''))) (\<lambda>n. Some (replicate n 0)) (ListeningOn 5000) Written
      \<lparr>unread = [], ends_at_eof = True\<rparr>"
  have "GenerateTokenHex (\<lambda>n. Some (replicate n 0)) 32 = Inr (LowerHex (replicate 32 0))"
    by (rule GenerateTokenHex_LowerHex) simp_all
  moreover have id: "extension_id ''abcdefghijklmnopabcdefghijklmnop''" by (simp add: extension_id_def)
  have "NormalizeExtensionOrigin (example_origin @ ''/'') = example_origin"
    by (subst NormalizeExtensionOrigin_iff)
       (auto simp: example_origin_def extension_prefix_def intro!: exI [of _ "''abcdefghijklmnopabcdefghijklmnop''"] exI [of _ 1] id)
  moreover have "sendable (port_ready_text 5000 (LowerHex (replicate 32 0)))"
    using length_dec_le [of 5000 5] by (simp add: sendable_def port_ready_text_def kMaxNativeMessageBytes_def LowerHex_def length_concat sum_list_replicate)
  ultimately obtain s where s: "?start = Inr s"
    by (simp add: wmain_start_def Let_def StartServer_def WriteNativeMessage_sendable example_origin_def)
  from started_relay_wellformed [OF s, of "replicate 32 0"] s show ?thesis by auto
qed

text \<open>
  C27. The relay ends: once its main thread stops, because the browser closed the pipe, sent the
  shutdown message or broke the framing, the worker ends after at most six more of its steps wherever
  it is, also when \<open>Stop\<close> has missed the socket of a client that was just accepted, and after the
  join the exit code stands, no socket is open, the sender has stopped and the token is erased. What
  a client sends is a finite input; a read behind its end throws, as one does that has met the
  receive timeout of the handshake and the authentication.
\<close>

theorem relay_stops:
  assumes "main (relay_run create inet origin token input out es) = MainStopping k" "6 \<le> length envs"
  shows "let t = relay_run create inet origin token input out (es @ shutdown_steps e1 result envs e2)
    in main t = MainDone k \<and> worker t = WorkerDone \<and> \<not> listener_open t \<and> \<not> client_open t \<and> stopped_lan (lan t) \<and>
      list_all (\<lambda>c. c = CHR 0x00) (server_token t)"
proof -
  let ?t = "relay_run create inet origin token input out (es @ shutdown_steps e1 result envs e2)"
  have ended: "main ?t = MainDone k"
    using shutdown_ends [OF relay.inv_run assms(1) [unfolded relay_run_def] assms(2)] by (simp add: relay_run_def)
  then show ?thesis using ended relay.inv_run [of create inet "es @ shutdown_steps e1 result envs e2" origin token input out]
    by (auto simp: relay_inv_def Let_def relay_run_def simp del: fold_append)
qed

text \<open>The stop of this witness comes between the check and the store, so that it misses the client.\<close>

lemma relay_stops_witness:
  "main (relay_run example_accept example_inet example_origin ''00'' \<lparr>unread = [], ends_at_eof = True\<rparr> []
     ([AcceptEvent (Some \<lparr>incoming = [], client_out = [], send_scripts = []\<rparr>), WorkerEvent example_worker, MainEvent example_main]
       @ shutdown_steps example_main None (replicate 6 example_worker) example_main)) = MainDone 0"
proof -
  have "main (relay_run example_accept example_inet example_origin ''00'' \<lparr>unread = [], ends_at_eof = True\<rparr> []
     [AcceptEvent (Some \<lparr>incoming = [], client_out = [], send_scripts = []\<rparr>), WorkerEvent example_worker, MainEvent example_main])
       = MainStopping 0"
    by (simp add: relay_run_def newRelay_def AcceptClient_def worker_step_def main_step_def ReadNativeMessage_def fread_def)
  from relay_stops [OF this, of "replicate 6 example_worker" example_main None example_main] show ?thesis by (simp add: Let_def)
qed

end
