(* ===== verification/Pointer_Input.thy ===== *)
theory Pointer_Input
  imports Pipe_Writer Host_Protocol Complex_Main
begin

text \<open>
  The way of a pointer message from the host's service to the desktop: \<open>host/app/pointer_relay.cpp\<close>
  writes it as a control frame into the input pipe, the agent \<open>host/app/input_agent.cpp\<close> in the user's
  session reads the pipe, and \<open>host/app/pointer_injector.cpp\<close> turns the message into one mouse event.

  The injector calculates with finite doubles. What \<open>strtod\<close> reads is an argument and is a real
  number, so that the comparisons of the code are exact; the two rounded expressions are arguments.
\<close>

section \<open>The relay\<close>

record RelayWrite =
  input_pipe_opens :: bool
  frame_writes :: "int list"

definition PointerRelay_Send :: "RelayWrite \<Rightarrow> string \<Rightarrow> PipeWriter \<Rightarrow> PipeWriter \<times> bool" where
  "PointerRelay_Send env json s =
     (case ConnectPipe (input_pipe_opens env) s of
        (s, False) \<Rightarrow> (s, False)
      | (s, True) \<Rightarrow> WriteAll (frame_writes env) (EncodeControlFrame json) s)"

section \<open>The display\<close>

type_synonym wide = "nat list"

record DisplayRect =
  rect_left :: int
  rect_top :: int
  rect_right :: int
  rect_bottom :: int

text \<open>\<open>towlower\<close> in the C locale, which no part of the program changes.\<close>

definition towlower :: "nat \<Rightarrow> nat" where
  "towlower c = (if 65 \<le> c \<and> c \<le> 90 then c + 32 else c)"

definition EqualsIgnoreCase :: "wide \<Rightarrow> wide \<Rightarrow> bool" where
  "EqualsIgnoreCase left right \<longleftrightarrow> length left = length right \<and> list_all2 (\<lambda>l r. towlower l = towlower r) left right"

text \<open>The enumeration of the monitors, each with its information where the call succeeds.\<close>

fun MonitorRectForGdiName :: "(wide \<times> DisplayRect) option list \<Rightarrow> wide \<Rightarrow> DisplayRect option" where
  "MonitorRectForGdiName [] gdiName = None"
| "MonitorRectForGdiName (None # monitors) gdiName = MonitorRectForGdiName monitors gdiName"
| "MonitorRectForGdiName (Some (device, r) # monitors) gdiName =
     (if \<not> EqualsIgnoreCase device gdiName then MonitorRectForGdiName monitors gdiName else Some r)"

definition kAdapterHardwareId :: wide where
  "kAdapterHardwareId = map of_char ''root#harmonysecondaryscreenidd''"

definition IsHarmonyAdapterPath :: "wide \<Rightarrow> bool" where
  "IsHarmonyAdapterPath path \<longleftrightarrow> find_sub kAdapterHardwareId (map towlower path) \<noteq> None"

record DisplayPath =
  adapter_path :: "wide option"
  target_id :: nat
  source_name :: "wide option"

record DisplayEnv =
  buffer_sizes_ok :: bool
  display_paths :: "DisplayPath list option"
  monitors :: "(wide \<times> DisplayRect) option list"

fun find_display :: "(wide \<times> DisplayRect) option list \<Rightarrow> DisplayPath list \<Rightarrow> DisplayRect option" where
  "find_display ms [] = None"
| "find_display ms (p # ps) =
     (case adapter_path p of
        None \<Rightarrow> find_display ms ps
      | Some path \<Rightarrow>
          (if \<not> IsHarmonyAdapterPath path \<or> target_id p \<noteq> 0 then find_display ms ps
           else
             (case source_name p of
                None \<Rightarrow> find_display ms ps
              | Some name \<Rightarrow>
                  (case MonitorRectForGdiName ms name of None \<Rightarrow> find_display ms ps | Some r \<Rightarrow> Some r))))"

definition FindHarmonyDisplay :: "DisplayEnv \<Rightarrow> DisplayRect option" where
  "FindHarmonyDisplay env =
     (if \<not> buffer_sizes_ok env then None
      else (case display_paths env of None \<Rightarrow> None | Some ps \<Rightarrow> find_display (monitors env) ps))"

section \<open>The injector\<close>

text \<open>The text that \<open>JsonNumber\<close> hands to \<open>strtod\<close>.\<close>

definition number_token :: "string \<Rightarrow> nat \<Rightarrow> string" where
  "number_token json start =
     takeWhile (\<lambda>c. c \<notin> {CHR '','', CHR ''}'', CHR 0x0D, CHR 0x0A, CHR 0x09, CHR '' ''}) (drop start json)"

definition JsonNumber :: "(string \<Rightarrow> real option) \<Rightarrow> string \<Rightarrow> string \<Rightarrow> real option" where
  "JsonNumber strtod json key =
     (case FindValueStart json key of None \<Rightarrow> None | Some start \<Rightarrow> strtod (number_token json start))"

record MouseInput =
  mouse_dx :: int
  mouse_dy :: int
  mouse_flags :: u32
  mouse_data :: u32

definition MOUSEEVENTF_MOVE :: u32 where "MOUSEEVENTF_MOVE = 0x0001"
definition MOUSEEVENTF_LEFTDOWN :: u32 where "MOUSEEVENTF_LEFTDOWN = 0x0002"
definition MOUSEEVENTF_LEFTUP :: u32 where "MOUSEEVENTF_LEFTUP = 0x0004"
definition MOUSEEVENTF_WHEEL :: u32 where "MOUSEEVENTF_WHEEL = 0x0800"
definition MOUSEEVENTF_VIRTUALDESK :: u32 where "MOUSEEVENTF_VIRTUALDESK = 0x4000"
definition MOUSEEVENTF_ABSOLUTE :: u32 where "MOUSEEVENTF_ABSOLUTE = 0x8000"

text \<open>
  \<open>rounded\<close> is the value of the expression for one axis: from the share, the two ends of the display
  on this axis, and the start and extent of the virtual desktop. \<open>rounded_wheel\<close> is the wheel's. \<open>SendInput\<close> gives the error number, if any.
\<close>

record InputEnv =
  strtod :: "string \<Rightarrow> real option"
  display_env :: DisplayEnv
  virtual_left :: int
  virtual_top :: int
  virtual_width :: int
  virtual_height :: int
  rounded :: "real \<Rightarrow> int \<Rightarrow> int \<Rightarrow> int \<Rightarrow> int \<Rightarrow> int"
  rounded_wheel :: "real \<Rightarrow> int"
  send_input :: "nat option"

definition to_long :: "int \<Rightarrow> int" where
  "to_long v = sint (word_of_int v :: 32 word)"

definition clamp_axis :: "int \<Rightarrow> int" where
  "clamp_axis v = max 0 (min v 65535)"

text \<open>The flags and the data of an action, or no event.\<close>

definition action_input :: "InputEnv \<Rightarrow> string \<Rightarrow> string \<Rightarrow> string + u32 \<times> u32" where
  "action_input env json action =
     (if action = ''down'' then Inr (MOUSEEVENTF_LEFTDOWN, 0)
      else if action = ''up'' then Inr (MOUSEEVENTF_LEFTUP, 0)
      else if action = ''move'' then Inr (0, 0)
      else if action = ''scroll''
      then (case JsonNumber (strtod env) json ''deltaY'' of
              None \<Rightarrow> Inl ''invalid scroll delta''
            | Some d \<Rightarrow> if \<bar>d\<bar> > 1 then Inl ''invalid scroll delta''
                        else Inr (MOUSEEVENTF_WHEEL, word_of_int (to_long (rounded_wheel env d))))
      else Inl ''unsupported pointer action'')"

text \<open>The event given to \<open>SendInput\<close>, if any, and the error or none.\<close>

definition HandleControlMessage :: "InputEnv \<Rightarrow> string \<Rightarrow> MouseInput option \<times> string option" where
  "HandleControlMessage env json =
     (if HostJsonString json ''type'' \<noteq> Some ''pointer'' then (None, None)
      else
        (case (HostJsonString json ''action'', JsonNumber (strtod env) json ''x'', JsonNumber (strtod env) json ''y'') of
           (Some action, Some x, Some y) \<Rightarrow>
             (if x < 0 \<or> x > 1 \<or> y < 0 \<or> y > 1 then (None, Some ''invalid pointer message'')
              else
                (case FindHarmonyDisplay (display_env env) of
                   None \<Rightarrow> (None, Some ''Harmony virtual display is not active'')
                 | Some r \<Rightarrow>
                     (if virtual_width env \<le> 1 \<or> virtual_height env \<le> 1
                      then (None, Some ''invalid Windows virtual desktop bounds'')
                      else
                        (case action_input env json action of
                           Inl e \<Rightarrow> (None, Some e)
                         | Inr (flag, data) \<Rightarrow>
                             (Some \<lparr>mouse_dx = clamp_axis (to_long (rounded env x (rect_left r) (rect_right r) (virtual_left env) (virtual_width env))),
                                mouse_dy = clamp_axis (to_long (rounded env y (rect_top r) (rect_bottom r) (virtual_top env) (virtual_height env))),
                                mouse_flags = MOUSEEVENTF_ABSOLUTE OR MOUSEEVENTF_VIRTUALDESK OR MOUSEEVENTF_MOVE OR flag,
                                mouse_data = data\<rparr>,
                              case send_input env of None \<Rightarrow> None | Some n \<Rightarrow> Some (''SendInput failed: '' @ dec n))))))
         | _ \<Rightarrow> (None, Some ''invalid pointer message'')))"

section \<open>The agent\<close>

text \<open>One connection of the input pipe; each message is handled in its own environment.\<close>

record InputAgent =
  agent_connected :: bool
  agent_decoder :: ControlFrameDecoder
  agent_handled :: "string list"
  agent_injected :: "MouseInput list"
  agent_errors :: "string list"

definition newConnection :: InputAgent where
  "newConnection = \<lparr>agent_connected = True, agent_decoder = newControlDecoder, agent_handled = [], agent_injected = [],
     agent_errors = []\<rparr>"

definition handle_message :: "(nat \<Rightarrow> InputEnv) \<Rightarrow> string \<Rightarrow> InputAgent \<Rightarrow> InputAgent" where
  "handle_message envs json s =
     (case HandleControlMessage (envs (length (agent_handled s))) json of
        (input, e) \<Rightarrow>
          s\<lparr>agent_handled := agent_handled s @ [json],
            agent_injected := agent_injected s @ (case input of None \<Rightarrow> [] | Some i \<Rightarrow> [i]),
            agent_errors := agent_errors s @ (case e of None \<Rightarrow> [] | Some m \<Rightarrow> [m])\<rparr>)"

text \<open>A read that fails or gives nothing is None and ends the connection, as does a rejected frame.\<close>

definition AgentRead :: "(nat \<Rightarrow> InputEnv) \<Rightarrow> byte list option \<Rightarrow> InputAgent \<Rightarrow> InputAgent" where
  "AgentRead envs chunk s =
     (if \<not> agent_connected s then s
      else
        (case chunk of
           None \<Rightarrow> s\<lparr>agent_connected := False\<rparr>
         | Some bytes_in \<Rightarrow>
             (case PushControl (agent_decoder s) bytes_in of
                (False, d, _) \<Rightarrow> s\<lparr>agent_connected := False, agent_decoder := d\<rparr>
              | (True, d, frames) \<Rightarrow> fold (handle_message envs) frames (s\<lparr>agent_decoder := d\<rparr>))))"

definition AgentConnection :: "(nat \<Rightarrow> InputEnv) \<Rightarrow> byte list list \<Rightarrow> InputAgent" where
  "AgentConnection envs chunks = fold (\<lambda>c. AgentRead envs (Some c)) chunks newConnection"

section \<open>From the relay to the injector\<close>

definition relayed :: "string \<Rightarrow> bool" where
  "relayed json \<longleftrightarrow> control_payload json \<and> length json \<le> 57345"

text \<open>
  A frame of any text is one write; an empty text has a frame that the agent rejects, and one that is
  too long has none. The relay is used with two notions of a message: any text, and the texts whose
  frames an agent that reads 8192 bytes at a time is sure to accept.
\<close>

interpretation any_relay: framed_pipe input_pipe_opens PointerRelay_Send EncodeControlFrame "\<lambda>_. True"
proof
  show "\<exists>out. pipe_streams s' = append_last out (pipe_streams t) \<and> prefix out (EncodeControlFrame m) \<and>
      (ok \<longleftrightarrow> out = EncodeControlFrame m) \<and> (pipe_open s' \<longrightarrow> ok)"
    if "ConnectPipe (input_pipe_opens env) s = (t, True)" "PointerRelay_Send env m s = (s', ok)" for m env s t s' ok
    using that WriteAll_effect [of "frame_writes env" "EncodeControlFrame m" t s' ok] by (simp add: PointerRelay_Send_def)
qed (simp_all add: PointerRelay_Send_def)

interpretation relay: framed_pipe input_pipe_opens
  "\<lambda>env json s. if relayed json then PointerRelay_Send env json s else (s, False)" EncodeControlFrame relayed
proof
  show "\<exists>out. pipe_streams s' = append_last out (pipe_streams t) \<and> prefix out (EncodeControlFrame m) \<and>
      (ok \<longleftrightarrow> out = EncodeControlFrame m) \<and> (pipe_open s' \<longrightarrow> ok)"
    if "relayed m" "ConnectPipe (input_pipe_opens env) s = (t, True)" "pipe_streams t \<noteq> []"
      "(if relayed m then PointerRelay_Send env m s else (s, False)) = (s', ok)" for m env s t s' ok
    using that any_relay.put_connected [of env s t m s' ok] by simp
qed (use any_relay.put_unconnected in simp_all)

lemma handle_messages:
  "agent_handled (fold (handle_message envs) ms s) = agent_handled s @ ms \<and>
   agent_connected (fold (handle_message envs) ms s) = agent_connected s \<and>
   agent_decoder (fold (handle_message envs) ms s) = agent_decoder s"
  by (induction ms arbitrary: s) (simp_all add: handle_message_def split: prod.split)

lemma agent_receives:
  assumes "receive_all PushControl (agent_decoder s) cs = (True, d, ms)" "agent_connected s"
  shows "agent_handled (fold (\<lambda>c. AgentRead envs (Some c)) cs s) = agent_handled s @ ms"
  using assms
proof (induction cs arbitrary: s ms)
  case (Cons c cs)
  obtain d' ns ks where push: "PushControl (agent_decoder s) c = (True, d', ns)" and rest: "receive_all PushControl d' cs = (True, d, ks)"
      and ms: "ms = ns @ ks"
    using Cons.prems(1) by (auto split: prod.splits bool.splits)
  let ?t = "AgentRead envs (Some c) s"
  have t: "agent_decoder ?t = d'" "agent_connected ?t" "agent_handled ?t = agent_handled s @ ns"
    using push Cons.prems(2) handle_messages [of envs ns "s\<lparr>agent_decoder := d'\<rparr>"] by (simp_all add: AgentRead_def)
  show ?case using Cons.IH [of ?t ks] t rest ms by simp
qed simp

text \<open>The relay's calls in their order, and the messages of those that reported success.\<close>

definition PointerRelay_run :: "(RelayWrite \<times> string) list \<Rightarrow> PipeWriter \<times> string list" where
  "PointerRelay_run calls =
     foldl (\<lambda>(s, sent) (env, json). case PointerRelay_Send env json s of (s, ok) \<Rightarrow> (s, if ok then sent @ [json] else sent))
       (newPipe, []) calls"

lemma PointerRelay_run_inv:
  assumes "framed_pipe input_pipe_opens put EncodeControlFrame valid"
    and "list_all (\<lambda>(env, json). put env json = PointerRelay_Send env json) calls" "PointerRelay_run calls = (s, sent)"
  shows "\<exists>mss. writer_inv EncodeControlFrame valid mss s \<and> concat mss = sent"
  using assms(2,3)
proof (induction calls arbitrary: s sent rule: rev_induct)
  case Nil
  then show ?case using writer_inv_new by (auto simp: PointerRelay_run_def intro!: exI [of _ "[]"])
next
  case (snoc call calls)
  obtain env json where c: "call = (env, json)" by fastforce
  obtain t sent' where t: "PointerRelay_run calls = (t, sent')" by fastforce
  obtain u ok where u: "PointerRelay_Send env json t = (u, ok)" by fastforce
  have s: "s = u" "sent = (if ok then sent' @ [json] else sent')"
    using snoc.prems(2) t u c by (auto simp: PointerRelay_run_def)
  obtain mss where m: "writer_inv EncodeControlFrame valid mss t" "concat mss = sent'" using snoc t by auto
  have "put env json t = (u, ok)" using snoc.prems(1) u c by simp
  then obtain nss where "writer_inv EncodeControlFrame valid nss u" "concat nss = (if ok then concat mss @ [json] else concat mss)"
    using framed_pipe.put_inv [OF assms(1) m(1)] by blast
  then show ?case using s m(2) by auto
qed

text \<open>Whatever is on a connection, what is handled of it are the frames it begins with.\<close>

lemma ControlStep_sound:
  assumes "ControlStep d = Yields d' fs"
  shows "\<exists>f. fs = [f] \<and> control_payload f \<and> control_buffer d = EncodeControlFrame f @ control_buffer d'"
proof -
  let ?b = "control_buffer d" and ?n = "unat (be_get32 (control_buffer d) 0)"
  have n: "0 < ?n" "?n \<le> kMaxControlPayload" "?n + 4 \<le> length ?b" "control_buffer d' = drop (?n + 4) ?b"
      "fs = [chars_of (take ?n (drop 4 ?b))]"
    using assms by (auto simp: ControlStep_def Let_def split: if_splits)
  define f where "f = chars_of (take ?n (drop 4 ?b))"
  have len: "length f = ?n" using n(3) by (simp add: f_def chars_of_def)
  have "be_put32 (be_get32 ?b 0) = take 4 ?b"
  proof -
    have "[?b ! 0, ?b ! (0 + 1), ?b ! (0 + 2), ?b ! (0 + 3)] = map (\<lambda>i. ?b ! i) [0..<4]" by (simp add: upt_rec numeral_3_eq_3)
    also have "\<dots> = take 4 ?b" using n(3) by (intro nth_equalityI) simp_all
    finally show ?thesis by (simp only: be_put32_get32)
  qed
  then have "EncodeControlFrame f = take 4 ?b @ take ?n (drop 4 ?b)"
    using n(2) len by (simp add: EncodeControlFrame_def f_def)
  also have "\<dots> = take (?n + 4) ?b" by (metis add.commute take_add)
  finally have "?b = EncodeControlFrame f @ control_buffer d'" using n(4) by simp
  moreover have "control_payload f" using n(1,2) len by (auto simp: control_payload_def)
  ultimately show ?thesis using n(5) f_def by blast
qed

lemma ControlLoop_sound:
  "ControlLoop d = (True, d', fs) \<Longrightarrow>
     list_all control_payload fs \<and> control_buffer d = concat (map EncodeControlFrame fs) @ control_buffer d'"
proof (induction d arbitrary: d' fs rule: ControlLoop.induct)
  case (1 d)
  show ?case
  proof (cases "ControlStep d")
    case (Yields e gs)
    obtain ok e' rest where e: "ControlLoop e = (ok, e', rest)" by (rule prod_cases3)
    have r: "ok" "d' = e'" "fs = gs @ rest" using 1(2) Yields e by (simp_all add: ControlLoop.simps [of d])
    then have "list_all control_payload rest \<and> control_buffer e = concat (map EncodeControlFrame rest) @ control_buffer e'"
      using 1(1) [OF Yields, of e' rest] e by simp
    then show ?thesis using ControlStep_sound [OF Yields] r by auto
  qed (use 1(2) in \<open>simp_all add: ControlLoop.simps [of d]\<close>)
qed

lemma handled_begins:
  fixes envs :: "nat \<Rightarrow> InputEnv" and cs :: "byte list list"
  assumes "agent_connected s \<Longrightarrow> concat before = concat (map EncodeControlFrame (agent_handled s)) @ control_buffer (agent_decoder s)"
    and "\<exists>t. concat before = concat (map EncodeControlFrame (agent_handled s)) @ t" "list_all control_payload (agent_handled s)"
  defines "u \<equiv> fold (\<lambda>c. AgentRead envs (Some c)) cs s"
  shows "list_all control_payload (agent_handled u) \<and>
    (\<exists>t. concat (before @ cs) = concat (map EncodeControlFrame (agent_handled u)) @ t)"
  using assms(1-3) unfolding u_def
proof (induction cs arbitrary: s before)
  case (Cons c cs)
  let ?t = "AgentRead envs (Some c) s"
  obtain ok d fs where push: "PushControl (agent_decoder s) c = (ok, d, fs)" by (rule prod_cases3)
  have t: "?t = (if \<not> agent_connected s then s else if \<not> ok then s\<lparr>agent_connected := False, agent_decoder := d\<rparr>
      else fold (handle_message envs) fs (s\<lparr>agent_decoder := d\<rparr>))"
    using push by (simp add: AgentRead_def split: bool.split)
  have sound: "list_all control_payload fs \<and>
      control_buffer (agent_decoder s) @ c = concat (map EncodeControlFrame fs) @ control_buffer d" if ok
    using push that ControlLoop_sound [of "feed_control (agent_decoder s) c" d fs]
    by (simp add: PushControl_def feed_control_def split: if_splits)
  have "(agent_connected ?t \<longrightarrow>
      concat (before @ [c]) = concat (map EncodeControlFrame (agent_handled ?t)) @ control_buffer (agent_decoder ?t)) \<and>
      (\<exists>r. concat (before @ [c]) = concat (map EncodeControlFrame (agent_handled ?t)) @ r) \<and>
      list_all control_payload (agent_handled ?t)"
  proof (cases "agent_connected s \<and> ok")
    case True
    have "concat (before @ [c]) = concat (map EncodeControlFrame (agent_handled s @ fs)) @ control_buffer d"
      using Cons.prems(1) True sound by simp
    then show ?thesis
      using t True sound Cons.prems(3) handle_messages [of envs fs "s\<lparr>agent_decoder := d\<rparr>"] by auto
  next
    case False
    then show ?thesis using t Cons.prems(2,3) by auto
  qed
  then show ?case using Cons.IH [of ?t "before @ [c]"] by simp
qed simp

lemma AgentConnection_begins:
  "list_all control_payload (agent_handled (AgentConnection envs chunks)) \<and>
   (\<exists>t. concat chunks = concat (map EncodeControlFrame (agent_handled (AgentConnection envs chunks))) @ t)"
  using handled_begins [of newConnection "[]" envs chunks]
  by (simp add: AgentConnection_def newConnection_def newControlDecoder_def)

lemma first_frame:
  assumes "control_payload h" "EncodeControlFrame h @ x = EncodeControlFrame m @ y" "length m \<le> kMaxControlPayload"
  shows "m = h \<and> x = y"
proof -
  have h: "ControlStep (with_buffer newControlDecoder (EncodeControlFrame m @ y)) = Yields (with_buffer newControlDecoder x) [h]"
    using ControlStep_frame [OF assms(1), of newControlDecoder x] assms(2) by simp
  have "m \<noteq> ''''"
  proof
    assume "m = ''''"
    then have "be_get32 (EncodeControlFrame m @ y) 0 = 0"
      by (intro be_get32_layout) (simp add: EncodeControlFrame_def bytes_of_def)
    then show False using h by (auto simp: ControlStep_def Let_def split: if_splits)
  qed
  then have "control_payload m" using assms(3) by (simp add: control_payload_def)
  from ControlStep_frame [OF this, of newControlDecoder y] h have "m = h" by simp
  then show ?thesis using assms(2) by simp
qed

lemma begun_frames_sent:
  assumes "concat (map EncodeControlFrame hs) @ t = concat (map EncodeControlFrame ms) @ rest" "list_all control_payload hs"
    and "rest = [] \<or> (\<exists>m. strict_prefix rest (EncodeControlFrame m))"
  shows "subseq hs ms"
  using assms(1,2)
proof (induction ms arbitrary: hs)
  case Nil
  show ?case
  proof (cases hs)
    case (Cons h hs')
    then have h: "control_payload h" "rest = EncodeControlFrame h @ concat (map EncodeControlFrame hs') @ t"
      using Nil by simp_all
    then have "rest \<noteq> []" using frame_bytes(1) [OF h(1)] by (auto simp: be_put32_def)
    then obtain m q where m: "EncodeControlFrame m = rest @ q" "q \<noteq> []" using assms(3) by (auto elim!: strict_prefixE')
    then have "EncodeControlFrame m \<noteq> []" "length m \<le> kMaxControlPayload" using \<open>rest \<noteq> []\<close> by (auto simp: EncodeControlFrame_def split: if_splits)
    then have "concat (map EncodeControlFrame hs') @ t @ q = []"
      using first_frame [OF h(1), of "concat (map EncodeControlFrame hs') @ t @ q" m "[]"] m(1) h(2) by simp
    then show ?thesis using m(2) by simp
  qed simp
next
  case (Cons m ms)
  show ?case
  proof (cases "EncodeControlFrame m = [] \<or> hs = []")
    case True
    then show ?thesis using Cons by auto
  next
    case False
    then obtain h hs' where hs: "hs = h # hs'" by (cases hs) auto
    have "length m \<le> kMaxControlPayload" using False by (auto simp: EncodeControlFrame_def split: if_splits)
    then have "m = h" "concat (map EncodeControlFrame hs') @ t = concat (map EncodeControlFrame ms) @ rest"
      using first_frame [of h "concat (map EncodeControlFrame hs') @ t" m] Cons.prems hs by simp_all
    then show ?thesis using Cons.IH [of hs'] Cons.prems(2) hs by simp
  qed
qed

lemma readings_begin:
  assumes "list_all2 (\<lambda>stream chunks. concat chunks = stream) streams readings"
    "list_all2 (\<lambda>stream ms. \<exists>rest. carries EncodeControlFrame (\<lambda>_. True) stream ms rest) streams mss"
  shows "subseq (concat (map (\<lambda>chunks. agent_handled (AgentConnection envs chunks)) readings)) (concat mss)"
  using assms
proof (induction streams arbitrary: readings mss)
  case (Cons stream streams)
  obtain chunks rs where r: "readings = chunks # rs" "concat chunks = stream" "list_all2 (\<lambda>stream chunks. concat chunks = stream) streams rs"
    using Cons.prems(1) by (auto simp: list_all2_Cons1)
  obtain ms ns rest where m: "mss = ms # ns" "carries EncodeControlFrame (\<lambda>_. True) stream ms rest"
      "list_all2 (\<lambda>stream ms. \<exists>rest. carries EncodeControlFrame (\<lambda>_. True) stream ms rest) streams ns"
    using Cons.prems(2) by (auto simp: list_all2_Cons1)
  obtain t where t: "list_all control_payload (agent_handled (AgentConnection envs chunks))"
      "concat chunks = concat (map EncodeControlFrame (agent_handled (AgentConnection envs chunks))) @ t"
    using AgentConnection_begins by blast
  have "subseq (agent_handled (AgentConnection envs chunks)) ms"
    by (rule begun_frames_sent [where t = t and rest = rest]) (use t r(2) m(2) in \<open>auto simp: carries_def\<close>)
  from list_emb_append_mono [OF this Cons.IH [OF r(3) m(3)]] show ?case using r(1) m(1) by simp
qed simp

lemma carried_messages_received:
  assumes "carries EncodeControlFrame relayed stream ms rest" "concat cs = stream" "\<forall>c \<in> set cs. length c \<le> 8192"
  shows "\<exists>d. receive_all PushControl newControlDecoder cs = (True, d, ms)"
proof -
  have ms: "\<forall>m \<in> set ms. relayed m" and stream: "stream = concat (map EncodeControlFrame ms) @ rest"
    using assms(1) by (auto simp: carries_def list_all_iff)
  have payload: "relayed m \<Longrightarrow> control_payload m \<and> length m + 8192 \<le> kMaxControlPayload + 1" for m
    by (simp add: relayed_def kMaxControlPayload_def)
  have m: "(8192 :: nat) \<le> kMaxControlPayload" by (simp add: kMaxControlPayload_def)
  have "rest = [] \<or> (\<exists>x. relayed x \<and> strict_prefix rest (EncodeControlFrame x))" using assms(1) by (simp add: carries_def)
  then show ?thesis
  proof
    assume "rest = []"
    then show ?thesis
      using control_stream [OF _ _ assms(3) m, of ms] payload ms stream assms(2) by auto
  next
    assume "\<exists>x. relayed x \<and> strict_prefix rest (EncodeControlFrame x)"
    then obtain x t where x: "relayed x" "EncodeControlFrame x = rest @ t" "t \<noteq> []" by (auto elim!: strict_prefixE')
    have "ControlStep (with_buffer newControlDecoder rest) = NeedMore"
      using ControlStep_prefix [OF _ x(2,3)] payload [OF x(1)] by blast
    from control_stream_part [OF _ _ _ this assms(3) m, of ms "[x]" t] show ?thesis
      using payload ms x stream assms(2) by auto
  qed
qed

lemma readings_handled:
  assumes "list_all2 (\<lambda>stream chunks. concat chunks = stream \<and> list_all (\<lambda>c. length c \<le> 8192) chunks) streams readings"
    "list_all2 (\<lambda>stream ms. \<exists>rest. carries EncodeControlFrame relayed stream ms rest) streams mss"
  shows "map (\<lambda>chunks. agent_handled (AgentConnection envs chunks)) readings = mss"
  using assms
proof (induction streams arbitrary: readings mss)
  case (Cons stream streams)
  obtain chunks rs where r: "readings = chunks # rs" "concat chunks = stream" "list_all (\<lambda>c. length c \<le> 8192) chunks"
      "list_all2 (\<lambda>stream chunks. concat chunks = stream \<and> list_all (\<lambda>c. length c \<le> 8192) chunks) streams rs"
    using Cons.prems(1) by (auto simp: list_all2_Cons1)
  obtain ms ns rest where m: "mss = ms # ns" "carries EncodeControlFrame relayed stream ms rest"
      "list_all2 (\<lambda>stream ms. \<exists>rest. carries EncodeControlFrame relayed stream ms rest) streams ns"
    using Cons.prems(2) by (auto simp: list_all2_Cons1)
  obtain d where "receive_all PushControl newControlDecoder chunks = (True, d, ms)"
    using carried_messages_received [OF m(2) r(2)] r(3) by (auto simp: list_all_iff)
  then have "agent_handled (AgentConnection envs chunks) = ms"
    using agent_receives [of newConnection chunks d ms envs] by (simp add: AgentConnection_def newConnection_def)
  then show ?case using Cons.IH [OF r(4) m(3)] r(1) m(1) by simp
qed simp

section \<open>Properties\<close>

text \<open>
  C10. Pointer messages reach the desktop in order and none is made up. Whatever texts the relay is
  given, of any size, whatever the pipe does to its writes, and however the agent's reads cut the
  connections, what the agent hands to the injector are, in their order, messages that the relay
  reported as sent: what a broken write has left of a message is not handled. The agent hands on all
  the messages reported as sent when none is empty or longer than 57345 bytes and its reads are of
  at most 8192 bytes; the relay also sends messages of up to 65536 bytes, and an agent that has
  buffered one of them with the beginning of the next gives the connection up.
\<close>

theorem pointer_messages_arrive:
  assumes "PointerRelay_run calls = (s, sent)"
    and "list_all2 (\<lambda>stream chunks. concat chunks = stream) (pipe_streams s) readings"
  shows "subseq (concat (map (\<lambda>chunks. agent_handled (AgentConnection envs chunks)) readings)) sent \<and>
    ((\<forall>(env, json)\<in>set calls. json \<noteq> [] \<and> length json \<le> 57345) \<and> list_all (list_all (\<lambda>c. length c \<le> 8192)) readings \<longrightarrow>
     concat (map (\<lambda>chunks. agent_handled (AgentConnection envs chunks)) readings) = sent)"
proof (intro conjI impI)
  obtain mss where "writer_inv EncodeControlFrame (\<lambda>_. True) mss s" "concat mss = sent"
    using PointerRelay_run_inv [OF any_relay.framed_pipe_axioms _ assms(1)] by (auto simp: list_all_iff)
  then show "subseq (concat (map (\<lambda>chunks. agent_handled (AgentConnection envs chunks)) readings)) sent"
    using readings_begin [OF assms(2), of mss envs] by (simp add: writer_inv_def)
next
  assume small: "(\<forall>(env, json)\<in>set calls. json \<noteq> [] \<and> length json \<le> 57345) \<and> list_all (list_all (\<lambda>c. length c \<le> 8192)) readings"
  then have "list_all (\<lambda>(env, json). (\<lambda>s. if relayed json then PointerRelay_Send env json s else (s, False)) = PointerRelay_Send env json) calls"
    by (auto simp: relayed_def control_payload_def kMaxControlPayload_def list_all_iff)
  then obtain mss where mss: "writer_inv EncodeControlFrame relayed mss s" "concat mss = sent"
    using PointerRelay_run_inv [OF relay.framed_pipe_axioms _ assms(1)] by blast
  have "list_all2 (\<lambda>stream chunks. concat chunks = stream \<and> list_all (\<lambda>c. length c \<le> 8192) chunks) (pipe_streams s) readings"
    using assms(2) small by (auto simp: list_all2_conv_all_nth list_all_length)
  then show "concat (map (\<lambda>chunks. agent_handled (AgentConnection envs chunks)) readings) = sent"
    using mss readings_handled by (auto simp: writer_inv_def)
qed

text \<open>An example: the pipe breaks in the second message, and the third goes to a new connection.\<close>

definition exampleCalls :: "(RelayWrite \<times> string) list" where
  "exampleCalls =
     [(\<lparr>input_pipe_opens = True, frame_writes = [6]\<rparr>, ''{}''), (\<lparr>input_pipe_opens = True, frame_writes = [5, 0]\<rparr>, ''{}''),
      (\<lparr>input_pipe_opens = True, frame_writes = [2, 5]\<rparr>, ''{ }'')]"

definition exampleInput :: InputEnv where
  "exampleInput =
     \<lparr>strtod = (\<lambda>_. None), display_env = \<lparr>buffer_sizes_ok = False, display_paths = None, monitors = []\<rparr>, virtual_left = 0, virtual_top = 0,
      virtual_width = 1920, virtual_height = 1200, rounded = (\<lambda>x low high start extent. 0), rounded_wheel = (\<lambda>d. 0), send_input = None\<rparr>"

theorem pointer_messages_arrive_witness:
  "concat (map (\<lambda>chunks. agent_handled (AgentConnection (\<lambda>_. exampleInput) chunks))
     [[[0, 0, 0, 2, 0x7B], [0x7D, 0, 0, 0, 2, 0x7B]], [[0, 0, 0, 3], [0x7B, 0x20, 0x7D]]]) = [''{}'', ''{ }'']"
proof -
  let ?s = "\<lparr>pipe_open = True, pipe_streams = [[0, 0, 0, 2, 0x7B, 0x7D, 0, 0, 0, 2, 0x7B], [0, 0, 0, 3, 0x7B, 0x20, 0x7D]]\<rparr>"
  have "PointerRelay_run exampleCalls = (?s, [''{}'', ''{ }''])"
    by (simp add: exampleCalls_def kMaxControlPayload_def PointerRelay_run_def PointerRelay_Send_def
        ConnectPipe_def newPipe_def WriteAll_def ClosePipe_def append_last_def EncodeControlFrame_def be_put32_def bytes_of_def
        byte_of_char_def Let_def)
  from pointer_messages_arrive [OF this, of "[[[0, 0, 0, 2, 0x7B], [0x7D, 0, 0, 0, 2, 0x7B]], [[0, 0, 0, 3], [0x7B, 0x20, 0x7D]]]"]
  show ?thesis by (simp add: exampleCalls_def)
qed

text \<open>
  Whatever is injected moves the pointer within the virtual desktop's range, presses or releases no
  button but the left one, and only for a pointer message whose shares are between 0 and 1.
\<close>

lemma injected_input_bounded:
  assumes "HandleControlMessage env json = (Some input, e)"
  shows "0 \<le> mouse_dx input \<and> mouse_dx input \<le> 65535 \<and> 0 \<le> mouse_dy input \<and> mouse_dy input \<le> 65535"
    "mouse_flags input \<in> {0xC001, 0xC003, 0xC005, 0xC801}"
    "HostJsonString json ''type'' = Some ''pointer''" "FindHarmonyDisplay (display_env env) \<noteq> None"
    "\<exists>x y. JsonNumber (strtod env) json ''x'' = Some x \<and> JsonNumber (strtod env) json ''y'' = Some y \<and>
       0 \<le> x \<and> x \<le> 1 \<and> 0 \<le> y \<and> y \<le> 1"
  using assms
  by (auto simp: HandleControlMessage_def clamp_axis_def action_input_def MOUSEEVENTF_ABSOLUTE_def MOUSEEVENTF_VIRTUALDESK_def
      MOUSEEVENTF_MOVE_def MOUSEEVENTF_LEFTDOWN_def MOUSEEVENTF_LEFTUP_def MOUSEEVENTF_WHEEL_def
      split: if_splits option.splits sum.splits)

end
