(* ===== verification/Network_Gate.thy ===== *)
theory Network_Gate
  imports Hwc_Prelude Windows_Results "HOL-Library.Char_ord" "HOL-Library.List_Lexorder"
begin

text \<open>
  The host's network gate, \<open>host/app/network_gate.cpp\<close>: it resolves the application's list of approved
  network profiles to the IPv4 addresses at which the host may listen. The answers of the IP helper
  and of the Network List Manager are arguments, an enumeration as what its successive calls of
  \<open>Next\<close> return; so are the conversions between GUIDs and their texts.
\<close>

section \<open>GUIDs and wide strings\<close>

type_synonym guid = "byte list"
type_synonym wide = "nat list"

record GuidApi =
  utf8_to_wide :: "string \<Rightarrow> wide option"
  parse_guid :: "wide \<Rightarrow> guid option"
  guid_text :: "guid \<Rightarrow> wide"

definition ParseAdapterGuid :: "GuidApi \<Rightarrow> string option \<Rightarrow> guid option" where
  "ParseAdapterGuid api adapterName =
     (case adapterName of
        None \<Rightarrow> None
      | Some name \<Rightarrow> (case utf8_to_wide api name of None \<Rightarrow> None | Some w \<Rightarrow> parse_guid api w))"

datatype gate_error = GateFailed string hresult | AdaptersFailed nat | InvalidNetworkId

section \<open>Adapters\<close>

text \<open>A unicast address is there, of the family \<open>AF_INET\<close>, and has a text; or else it is passed over.\<close>

record Unicast =
  sockaddr_there :: bool
  family_inet :: bool
  ntop_text :: "string option"

record Adapter =
  adapter_name :: "string option"
  oper_up :: bool
  type_wifi :: bool
  unicasts :: "Unicast list"

record AdaptersEnv =
  first_answer :: "nat \<times> Adapter list"
  second_answer :: "nat \<times> Adapter list"

definition ERROR_BUFFER_OVERFLOW :: nat where "ERROR_BUFFER_OVERFLOW = 111"

definition GetAdapters :: "AdaptersEnv \<Rightarrow> nat \<times> Adapter list" where
  "GetAdapters env = (if fst (first_answer env) = ERROR_BUFFER_OVERFLOW then second_answer env else first_answer env)"

definition unicast_texts :: "Unicast list \<Rightarrow> string list" where
  "unicast_texts us =
     concat (map (\<lambda>u. if \<not> sockaddr_there u \<or> \<not> family_inet u then []
                      else (case ntop_text u of None \<Rightarrow> [] | Some t \<Rightarrow> [t])) us)"

text \<open>The loop over the adapters. Addresses are kept sorted and without duplicates.\<close>

definition add_adapter :: "GuidApi \<Rightarrow> (guid \<rightharpoonup> string list) \<Rightarrow> Adapter \<Rightarrow> (guid \<rightharpoonup> string list)" where
  "add_adapter api m a =
     (if \<not> oper_up a \<or> \<not> type_wifi a then m
      else
        (case ParseAdapterGuid api (adapter_name a) of
           None \<Rightarrow> m
         | Some g \<Rightarrow>
             m(g \<mapsto> remdups_adj (sort ((case m g of None \<Rightarrow> [] | Some l \<Rightarrow> l) @ unicast_texts (unicasts a))))))"

definition ConnectedWifiAdapterAddresses :: "GuidApi \<Rightarrow> AdaptersEnv \<Rightarrow> gate_error + (guid \<rightharpoonup> string list)" where
  "ConnectedWifiAdapterAddresses api env =
     (case GetAdapters env of
        (result, adapters) \<Rightarrow>
          (if result \<noteq> 0 then Inl (AdaptersFailed result) else Inr (foldl (add_adapter api) Map.empty adapters)))"

section \<open>Networks\<close>

record Connection =
  get_IsConnected :: "hresult \<times> bool"
  GetAdapterId :: "hresult \<times> guid"

record Network =
  GetNetworkConnections :: hresult
  connections :: "(hresult \<times> Connection option) list"
  GetNetworkId :: "hresult \<times> guid"
  GetName :: "hresult \<times> wide option"

record WifiNetworkProfile =
  profile_id :: wide
  profile_name :: wide
  ipv4_addresses :: "string list"

text \<open>What one connection adds to the set of addresses, kept as a sorted list.\<close>

definition insert_all :: "string list \<Rightarrow> string list \<Rightarrow> string list" where
  "insert_all xs ys = sort (remdups (ys @ xs))"

definition add_connection :: "(guid \<rightharpoonup> string list) \<Rightarrow> Connection \<Rightarrow> string list \<Rightarrow> string list" where
  "add_connection adapters c found =
     (if FAILED (fst (get_IsConnected c)) then found
      else if \<not> snd (get_IsConnected c) then found
      else if FAILED (fst (GetAdapterId c)) then found
      else (case adapters (snd (GetAdapterId c)) of None \<Rightarrow> found | Some l \<Rightarrow> insert_all l found))"

text \<open>A script that ends stands for \<open>S_FALSE\<close>.\<close>

fun ReadNetworkConnections_loop ::
    "(guid \<rightharpoonup> string list) \<Rightarrow> (hresult \<times> Connection option) list \<Rightarrow> string list \<Rightarrow> gate_error + string list" where
  "ReadNetworkConnections_loop adapters [] found = Inr found"
| "ReadNetworkConnections_loop adapters ((r, fetched) # rest) found =
     (if r = S_FALSE then Inr found
      else (case fetched of
              None \<Rightarrow> Inr found
            | Some c \<Rightarrow>
                (if FAILED r then Inl (GateFailed ''IEnumNetworkConnections::Next'' r)
                 else ReadNetworkConnections_loop adapters rest (add_connection adapters c found))))"

definition ReadNetworkConnections :: "(guid \<rightharpoonup> string list) \<Rightarrow> Network \<Rightarrow> gate_error + string list" where
  "ReadNetworkConnections adapters n =
     (if FAILED (GetNetworkConnections n) then Inl (GateFailed ''INetwork::GetNetworkConnections'' (GetNetworkConnections n))
      else ReadNetworkConnections_loop adapters (connections n) [])"

record GateEnv =
  co_initialize :: hresult
  adapters_env :: AdaptersEnv
  create_manager :: hresult
  get_networks :: hresult
  networks :: "(hresult \<times> Network option) list"

definition ConnectedNetworks :: "GateEnv \<Rightarrow> gate_error + (hresult \<times> Network option) list" where
  "ConnectedNetworks env =
     (if FAILED (create_manager env) then Inl (GateFailed ''CoCreateInstance(NetworkListManager)'' (create_manager env))
      else if FAILED (get_networks env) then Inl (GateFailed ''GetNetworks'' (get_networks env))
      else Inr (networks env))"

text \<open>The name when the network reports none.\<close>

definition default_name :: wide where
  "default_name = [0x5F53, 0x524D, 32, 87, 105, 45, 70, 105]"

definition network_name :: "Network \<Rightarrow> wide" where
  "network_name n =
     (if FAILED (fst (GetName n)) then default_name
      else (case snd (GetName n) of None \<Rightarrow> default_name | Some name \<Rightarrow> if name = [] then default_name else name))"

fun ConnectedWifiProfiles_loop ::
    "GuidApi \<Rightarrow> (guid \<rightharpoonup> string list) \<Rightarrow> (hresult \<times> Network option) list \<Rightarrow> WifiNetworkProfile list
     \<Rightarrow> gate_error + WifiNetworkProfile list" where
  "ConnectedWifiProfiles_loop api adapters [] profiles = Inr profiles"
| "ConnectedWifiProfiles_loop api adapters ((r, fetched) # rest) profiles =
     (if r = S_FALSE then Inr profiles
      else (case fetched of
              None \<Rightarrow> Inr profiles
            | Some n \<Rightarrow>
                (if FAILED r then Inl (GateFailed ''IEnumNetworks::Next'' r)
                 else
                   (case ReadNetworkConnections adapters n of
                      Inl e \<Rightarrow> Inl e
                    | Inr found \<Rightarrow>
                        (if found = [] then ConnectedWifiProfiles_loop api adapters rest profiles
                         else if FAILED (fst (GetNetworkId n))
                         then Inl (GateFailed ''INetwork::GetNetworkId'' (fst (GetNetworkId n)))
                         else ConnectedWifiProfiles_loop api adapters rest
                                (profiles @ [\<lparr>profile_id = guid_text api (snd (GetNetworkId n)), profile_name = network_name n,
                                   ipv4_addresses = found\<rparr>]))))))"

definition ConnectedWifiProfiles :: "GuidApi \<Rightarrow> GateEnv \<Rightarrow> gate_error + WifiNetworkProfile list" where
  "ConnectedWifiProfiles api env =
     (if FAILED (co_initialize env) \<and> co_initialize env \<noteq> RPC_E_CHANGED_MODE
      then Inl (GateFailed ''CoInitializeEx'' (co_initialize env))
      else
        (case ConnectedWifiAdapterAddresses api (adapters_env env) of
           Inl e \<Rightarrow> Inl e
         | Inr adapters \<Rightarrow>
             (case ConnectedNetworks env of
                Inl e \<Rightarrow> Inl e
              | Inr script \<Rightarrow>
                  (case ConnectedWifiProfiles_loop api adapters script [] of
                     Inl e \<Rightarrow> Inl e
                   | Inr profiles \<Rightarrow> Inr (sort_key profile_id profiles)))))"

fun allowed_ids :: "GuidApi \<Rightarrow> wide list \<Rightarrow> gate_error + wide list" where
  "allowed_ids api [] = Inr []"
| "allowed_ids api (raw # raws) =
     (case parse_guid api raw of
        None \<Rightarrow> Inl InvalidNetworkId
      | Some g \<Rightarrow> (case allowed_ids api raws of Inl e \<Rightarrow> Inl e | Inr ids \<Rightarrow> Inr (guid_text api g # ids)))"

definition add_allowed :: "wide set \<Rightarrow> string list \<Rightarrow> WifiNetworkProfile \<Rightarrow> string list" where
  "add_allowed ids found p = (if profile_id p \<in> ids then insert_all (ipv4_addresses p) found else found)"

definition AllowedWifiIpv4Addresses :: "GuidApi \<Rightarrow> GateEnv \<Rightarrow> wide list \<Rightarrow> gate_error + string list" where
  "AllowedWifiIpv4Addresses api env allowedProfileIds =
     (case allowed_ids api allowedProfileIds of
        Inl e \<Rightarrow> Inl e
      | Inr ids \<Rightarrow>
          (case ConnectedWifiProfiles api env of
             Inl e \<Rightarrow> Inl e
           | Inr profiles \<Rightarrow>
               Inr (foldl (add_allowed (set ids)) [] profiles)))"

definition IsAllowedWifiIpv4 :: "GuidApi \<Rightarrow> GateEnv \<Rightarrow> string \<Rightarrow> wide list \<Rightarrow> bool" where
  "IsAllowedWifiIpv4 api env address allowedProfileIds =
     (case AllowedWifiIpv4Addresses api env allowedProfileIds of Inl e \<Rightarrow> False | Inr addresses \<Rightarrow> address \<in> set addresses)"

section \<open>Which addresses are approved\<close>

definition wifi_holds :: "GuidApi \<Rightarrow> Adapter list \<Rightarrow> guid \<Rightarrow> string \<Rightarrow> bool" where
  "wifi_holds api adapters g address \<longleftrightarrow>
     list_ex (\<lambda>a. oper_up a \<and> type_wifi a \<and> ParseAdapterGuid api (adapter_name a) = Some g \<and>
       address \<in> set (unicast_texts (unicasts a))) adapters"

fun enumerated :: "(hresult \<times> 'a option) list \<Rightarrow> 'a list" where
  "enumerated [] = []"
| "enumerated ((r, fetched) # rest) =
     (if r = S_FALSE then [] else (case fetched of None \<Rightarrow> [] | Some x \<Rightarrow> x # enumerated rest))"

definition connection_holds :: "(guid \<Rightarrow> string \<Rightarrow> bool) \<Rightarrow> string \<Rightarrow> Connection \<Rightarrow> bool" where
  "connection_holds holds address c \<longleftrightarrow>
     \<not> FAILED (fst (get_IsConnected c)) \<and> snd (get_IsConnected c) \<and> \<not> FAILED (fst (GetAdapterId c)) \<and>
     holds (snd (GetAdapterId c)) address"

definition network_holds :: "(guid \<Rightarrow> string \<Rightarrow> bool) \<Rightarrow> string \<Rightarrow> Network \<Rightarrow> bool" where
  "network_holds holds address n \<longleftrightarrow> list_ex (connection_holds holds address) (enumerated (connections n))"

definition addresses_at :: "(guid \<rightharpoonup> string list) \<Rightarrow> guid \<Rightarrow> string \<Rightarrow> bool" where
  "addresses_at m g address \<longleftrightarrow> (case m g of None \<Rightarrow> False | Some l \<Rightarrow> address \<in> set l)"

lemma add_adapter_at:
  "addresses_at (add_adapter api m a) g address \<longleftrightarrow> addresses_at m g address \<or> wifi_holds api [a] g address"
  by (auto simp: addresses_at_def add_adapter_def wifi_holds_def split: option.splits)

lemma wifi_holds_Cons: "wifi_holds api (a # as) g address \<longleftrightarrow> wifi_holds api [a] g address \<or> wifi_holds api as g address"
  by (auto simp: wifi_holds_def)

lemma ConnectedWifiAdapterAddresses_at:
  assumes "ConnectedWifiAdapterAddresses api env = Inr m"
  shows "addresses_at m g address \<longleftrightarrow> wifi_holds api (snd (GetAdapters env)) g address"
proof -
  have "addresses_at (foldl (add_adapter api) m0 as) g address \<longleftrightarrow> addresses_at m0 g address \<or> wifi_holds api as g address" for m0 as
    by (induction as arbitrary: m0) (auto simp: add_adapter_at wifi_holds_Cons [of api _ "_ # _"] wifi_holds_Cons wifi_holds_def)
  then show ?thesis
    using assms by (auto simp: ConnectedWifiAdapterAddresses_def addresses_at_def split: prod.splits if_splits)
qed

lemma insert_all_props [simp]: "set (insert_all xs ys) = set xs \<union> set ys" "sorted (insert_all xs ys)" "distinct (insert_all xs ys)"
  by (auto simp: insert_all_def)

lemma add_connection_set:
  "address \<in> set (add_connection m c found) \<longleftrightarrow> address \<in> set found \<or> connection_holds (addresses_at m) address c"
  by (auto simp: add_connection_def connection_holds_def addresses_at_def split: option.split)

lemma ReadNetworkConnections_loop_set:
  "ReadNetworkConnections_loop m script found = Inr result \<Longrightarrow>
     address \<in> set result \<longleftrightarrow> address \<in> set found \<or> list_ex (connection_holds (addresses_at m) address) (enumerated script)"
  by (induction m script found rule: ReadNetworkConnections_loop.induct) (auto simp: add_connection_set split: if_splits option.splits)

lemma ReadNetworkConnections_set:
  "ReadNetworkConnections m n = Inr result \<Longrightarrow> address \<in> set result \<longleftrightarrow> network_holds (addresses_at m) address n"
  using ReadNetworkConnections_loop_set [of m "connections n" "[]" result address]
  by (auto simp: ReadNetworkConnections_def network_holds_def split: if_splits)

lemma ConnectedWifiProfiles_loop_set:
  "ConnectedWifiProfiles_loop api m script profiles = Inr result \<Longrightarrow>
     (\<exists>p \<in> set result. profile_id p = i \<and> address \<in> set (ipv4_addresses p)) \<longleftrightarrow>
     (\<exists>p \<in> set profiles. profile_id p = i \<and> address \<in> set (ipv4_addresses p)) \<or>
     (\<exists>n \<in> set (enumerated script). guid_text api (snd (GetNetworkId n)) = i \<and> network_holds (addresses_at m) address n)"
proof (induction api m script profiles rule: ConnectedWifiProfiles_loop.induct)
  case (2 api m r fetched rest profiles)
  show ?case
  proof (cases "r = S_FALSE \<or> fetched = None")
    case False
    then obtain n found where n: "fetched = Some n" "\<not> FAILED r" "ReadNetworkConnections m n = Inr found"
      using 2(3) by (auto split: option.splits if_splits sum.splits)
    note s = ReadNetworkConnections_set [OF n(3)]
    show ?thesis
    proof (cases "found = []")
      case True
      then have "\<not> network_holds (addresses_at m) address n" using s by simp
      then show ?thesis using 2 n True False by auto
    next
      case f: False
      then have "\<not> FAILED (fst (GetNetworkId n))" using 2(3) n False by (auto split: if_splits)
      then show ?thesis using 2 n f False s by auto
    qed
  qed (use 2 in \<open>auto split: option.splits\<close>)
qed simp

lemma ConnectedWifiProfiles_set:
  assumes "ConnectedWifiProfiles api env = Inr profiles"
  shows "(\<exists>p \<in> set profiles. profile_id p = i \<and> address \<in> set (ipv4_addresses p)) \<longleftrightarrow>
    (\<exists>n \<in> set (enumerated (networks env)). guid_text api (snd (GetNetworkId n)) = i \<and>
       network_holds (wifi_holds api (snd (GetAdapters (adapters_env env)))) address n)"
proof -
  obtain m result where m: "ConnectedWifiAdapterAddresses api (adapters_env env) = Inr m"
      "ConnectedWifiProfiles_loop api m (networks env) [] = Inr result" "set profiles = set result"
    using assms by (auto simp: ConnectedWifiProfiles_def ConnectedNetworks_def split: if_splits sum.splits)
  have "addresses_at m = wifi_holds api (snd (GetAdapters (adapters_env env)))"
    using ConnectedWifiAdapterAddresses_at [OF m(1)] by blast
  then show ?thesis using ConnectedWifiProfiles_loop_set [OF m(2)] m(3) by simp
qed

lemma allowed_ids_set:
  "allowed_ids api raws = Inr ids \<Longrightarrow> i \<in> set ids \<longleftrightarrow> (\<exists>raw \<in> set raws. \<exists>g. parse_guid api raw = Some g \<and> guid_text api g = i)"
  by (induction raws arbitrary: ids) (auto split: option.splits sum.splits)

lemma insert_allowed_props:
  "address \<in> set (foldl (add_allowed I) found profiles) \<longleftrightarrow>
      address \<in> set found \<or> (\<exists>p \<in> set profiles. profile_id p \<in> I \<and> address \<in> set (ipv4_addresses p))"
  "sorted found \<Longrightarrow> distinct found \<Longrightarrow> sorted (foldl (add_allowed I) found profiles) \<and> distinct (foldl (add_allowed I) found profiles)"
  by (induction profiles arbitrary: found) (auto simp: add_allowed_def)

text \<open>
  The addresses at which the host may listen are exactly those of the approved Wi-Fi networks.
  When \<open>AllowedWifiIpv4Addresses\<close> reports no error, it returns without duplicates the IPv4 addresses of
  the adapters that are up and of the Wi-Fi type and belong to a live connection of an enumerated
  network whose id is one of the approved ids, however these are written, and no other address. The
  text of a GUID determines it.
\<close>

lemma AllowedWifiIpv4Addresses_exactly:
  assumes "inj (guid_text api)" "AllowedWifiIpv4Addresses api env approved = Inr addresses"
  shows "address \<in> set addresses \<longleftrightarrow>
      (\<exists>n \<in> set (enumerated (networks env)). (\<exists>raw \<in> set approved. parse_guid api raw = Some (snd (GetNetworkId n))) \<and>
         network_holds (wifi_holds api (snd (GetAdapters (adapters_env env)))) address n)"
    "sorted addresses \<and> distinct addresses"
proof -
  obtain ids profiles where i: "allowed_ids api approved = Inr ids" "ConnectedWifiProfiles api env = Inr profiles"
      "addresses = foldl (add_allowed (set ids)) [] profiles"
    using assms(2) by (auto simp: AllowedWifiIpv4Addresses_def split: sum.splits)
  have "address \<in> set addresses \<longleftrightarrow> (\<exists>j. j \<in> set ids \<and> (\<exists>p \<in> set profiles. profile_id p = j \<and> address \<in> set (ipv4_addresses p)))"
    unfolding i(3) insert_allowed_props(1) by auto
  also have "\<dots> \<longleftrightarrow> (\<exists>n \<in> set (enumerated (networks env)). guid_text api (snd (GetNetworkId n)) \<in> set ids \<and>
         network_holds (wifi_holds api (snd (GetAdapters (adapters_env env)))) address n)"
    unfolding ConnectedWifiProfiles_set [OF i(2)] by auto
  finally show "address \<in> set addresses \<longleftrightarrow>
      (\<exists>n \<in> set (enumerated (networks env)). (\<exists>raw \<in> set approved. parse_guid api raw = Some (snd (GetNetworkId n))) \<and>
         network_holds (wifi_holds api (snd (GetAdapters (adapters_env env)))) address n)"
    unfolding allowed_ids_set [OF i(1)] by (metis assms(1) injD)
  show "sorted addresses \<and> distinct addresses"
    unfolding i(3) by (rule insert_allowed_props(2)) simp_all
qed

text \<open>
  An example: an approved and another network, the Wi-Fi adapter up in both with one address each,
  and a wired adapter in the approved network.
\<close>

definition exampleApi :: GuidApi where
  "exampleApi = \<lparr>utf8_to_wide = (\<lambda>s. Some (map of_char s)), parse_guid = (\<lambda>w. if w = [] then None else Some (map word_of_nat w)),
     guid_text = map unat\<rparr>"

definition exampleAdapter :: "string \<Rightarrow> bool \<Rightarrow> string \<Rightarrow> Adapter" where
  "exampleAdapter name wifi text =
     \<lparr>adapter_name = Some name, oper_up = True, type_wifi = wifi,
      unicasts = [\<lparr>sockaddr_there = True, family_inet = True, ntop_text = Some text\<rparr>]\<rparr>"

definition exampleNetwork :: "byte \<Rightarrow> string list \<Rightarrow> Network" where
  "exampleNetwork i names =
     \<lparr>GetNetworkConnections = S_OK,
      connections = map (\<lambda>name. (S_OK, Some \<lparr>get_IsConnected = (S_OK, True), GetAdapterId = (S_OK, map (word_of_nat \<circ> of_char) name)\<rparr>)) names,
      GetNetworkId = (S_OK, [i]), GetName = (S_OK, None)\<rparr>"

definition exampleGate :: GateEnv where
  "exampleGate =
     \<lparr>co_initialize = S_OK,
      adapters_env = \<lparr>first_answer = (111, []),
        second_answer = (0, [exampleAdapter ''a'' True ''10.0.0.2'', exampleAdapter ''b'' True ''10.0.1.2'', exampleAdapter ''c'' False ''10.0.2.2''])\<rparr>,
      create_manager = S_OK, get_networks = S_OK,
      networks = [(S_OK, Some (exampleNetwork 1 [''a'', ''c''])), (S_OK, Some (exampleNetwork 2 [''b'']))]\<rparr>"

lemmas gate_example =
  exampleApi_def exampleAdapter_def exampleNetwork_def exampleGate_def AllowedWifiIpv4Addresses_def ConnectedWifiProfiles_def
  ConnectedWifiAdapterAddresses_def ConnectedNetworks_def GetAdapters_def ERROR_BUFFER_OVERFLOW_def FAILED_def
  add_adapter_def ParseAdapterGuid_def unicast_texts_def ReadNetworkConnections_def add_connection_def insert_all_def add_allowed_def

text \<open>
  A failing \<open>Next\<close> fetches nothing and ends the enumeration without an error: what was found before
  it is taken for everything.
\<close>

lemma failed_enumeration_is_accepted:
  assumes "FAILED r" "list_all (\<lambda>(q, fetched). q = S_OK \<and> fetched \<noteq> None) before"
  shows "ReadNetworkConnections_loop adapters (before @ (r, None) # later) found = ReadNetworkConnections_loop adapters before found"
    "ConnectedWifiProfiles_loop api adapters [(r, None)] profiles = Inr profiles"
  using assms by (induction before arbitrary: found) (auto simp: FAILED_def)

end
