(* ===== verification/Host_Main.thy ===== *)
theory Host_Main
  imports Host_Server Network_Gate
begin

text \<open>
  The host's program, \<open>host/app/main.cpp\<close>: the choice of a command, the question to the user which
  Wi-Fi may be used, the Windows service around the server, and the command that asks the running
  service for its pairing code over the status pipe.
\<close>

section \<open>The question to the user\<close>

datatype access_error = GateError gate_error | NoWifiFound | AccessDeclined

text \<open>\<open>choices\<close> are the answers to the boxes in their order; a missing answer is no.\<close>

fun first_confirmed :: "WifiNetworkProfile list \<Rightarrow> bool list \<Rightarrow> wide option" where
  "first_confirmed [] choices = None"
| "first_confirmed (p # ps) [] = None"
| "first_confirmed (p # ps) (yes # choices) = (if yes then Some (profile_id p) else first_confirmed ps choices)"

definition ConfirmWifiAccess :: "GuidApi \<Rightarrow> GateEnv \<Rightarrow> bool list \<Rightarrow> access_error + wide" where
  "ConfirmWifiAccess api env choices =
     (case ConnectedWifiProfiles api env of
        Inl e \<Rightarrow> Inl (GateError e)
      | Inr profiles \<Rightarrow>
          (case first_confirmed profiles choices of
             Some i \<Rightarrow> Inr i
           | None \<Rightarrow> Inl (if profiles = [] then NoWifiFound else AccessDeclined)))"

section \<open>The service\<close>

datatype service_state = START_PENDING | RUNNING | STOP_PENDING | STOPPED

record ServiceStatus =
  current_state :: service_state
  exit_code :: nat
  accepts_stop :: bool
  wait_hint :: nat
  check_point :: nat

record ServiceGlobals =
  service_handle :: bool
  server_there :: bool
  checkpoint :: nat
  reported :: "ServiceStatus list"
  stop_requested :: bool

definition newService :: ServiceGlobals where
  "newService = \<lparr>service_handle = False, server_there = False, checkpoint = 1, reported = [], stop_requested = False\<rparr>"

definition pending_state :: "service_state \<Rightarrow> bool" where
  "pending_state state \<longleftrightarrow> state = START_PENDING \<or> state = STOP_PENDING"

definition ReportServiceStatus :: "service_state \<Rightarrow> nat \<Rightarrow> ServiceGlobals \<Rightarrow> ServiceGlobals" where
  "ReportServiceStatus state e g =
     (if \<not> service_handle g then g
      else g\<lparr>reported := reported g @ [\<lparr>current_state = state, exit_code = e, accepts_stop = (state = RUNNING),
               wait_hint = (if pending_state state then 5000 else 0),
               check_point = (if pending_state state then checkpoint g else 0)\<rparr>],
             checkpoint := (if pending_state state then checkpoint g + 1 else checkpoint g)\<rparr>)"

definition ERROR_SERVICE_SPECIFIC_ERROR :: nat where "ERROR_SERVICE_SPECIFIC_ERROR = 1066"

definition ServiceControlHandler :: "bool \<Rightarrow> ServiceGlobals \<Rightarrow> ServiceGlobals" where
  "ServiceControlHandler stop g =
     (if stop \<and> server_there g then (ReportServiceStatus STOP_PENDING 0 g)\<lparr>stop_requested := True\<rparr> else g)"

text \<open>\<open>ServiceMain\<close> up to its wait, and behind it, when the server's threads have ended.\<close>

definition ServiceMain_start :: "bool \<Rightarrow> bool \<Rightarrow> ServiceGlobals \<Rightarrow> ServiceGlobals" where
  "ServiceMain_start registered startOk g =
     (let g = g\<lparr>service_handle := registered\<rparr>
      in if \<not> registered then g
         else
           (let g = (ReportServiceStatus START_PENDING 0 g)\<lparr>server_there := True\<rparr>
            in if \<not> startOk then ReportServiceStatus STOPPED ERROR_SERVICE_SPECIFIC_ERROR (g\<lparr>server_there := False\<rparr>)
               else ReportServiceStatus RUNNING 0 g))"

definition ServiceMain_end :: "ServiceGlobals \<Rightarrow> ServiceGlobals" where
  "ServiceMain_end g = ReportServiceStatus STOPPED 0 (g\<lparr>server_there := False\<rparr>)"

section \<open>The commands\<close>

text \<open>What the status pipe gives: whether it is there and can be opened, and the bytes of one read.\<close>

record StatusPipe =
  pipe_waited :: bool
  status_opened :: bool
  status_read :: "byte list option"

text \<open>The exit code and what is printed.\<close>

definition ShowPairingCode :: "StatusPipe \<Rightarrow> nat \<times> string" where
  "ShowPairingCode env =
     (if \<not> pipe_waited env \<or> \<not> status_opened env then (4, '''')
      else
        (case status_read env of
           None \<Rightarrow> (4, '''')
         | Some bs \<Rightarrow>
             (if bs = [] then (4, '''')
              else
                (case PushControl newControlDecoder (take 4096 bs) of
                   (False, d, frames) \<Rightarrow> (4, '''')
                 | (True, d, frames) \<Rightarrow>
                     (if length frames \<noteq> 1 then (4, '''')
                      else
                        (case HostJsonString (hd frames) ''pairingCode'' of
                           None \<Rightarrow> (4, '''')
                         | Some code \<Rightarrow> (0, code)))))))"

definition tab :: nat where "tab = 9"

text \<open>A line of \<open>--list-wifi\<close>: the widened bytes of an address are its characters.\<close>

definition wifi_line :: "WifiNetworkProfile \<Rightarrow> wide" where
  "wifi_line p = profile_id p @ [tab] @ profile_name p @ concat (map (\<lambda>a. tab # map of_char a) (ipv4_addresses p)) @ [10]"

definition ListWifi :: "GuidApi \<Rightarrow> GateEnv \<Rightarrow> nat \<times> wide" where
  "ListWifi api env =
     (case ConnectedWifiProfiles api env of
        Inl e \<Rightarrow> (3, [])
      | Inr profiles \<Rightarrow> (if profiles = [] then 3 else 0, concat (map wifi_line profiles)))"

definition CheckNetwork :: "GuidApi \<Rightarrow> GateEnv \<Rightarrow> wide \<Rightarrow> nat \<times> wide" where
  "CheckNetwork api env i =
     (case AllowedWifiIpv4Addresses api env [i] of
        Inl e \<Rightarrow> (3, [])
      | Inr addresses \<Rightarrow> if addresses = [] then (3, []) else (0, concat (map (\<lambda>a. map of_char a @ [10]) addresses)))"

definition PrepareNetwork :: "GuidApi \<Rightarrow> GateEnv \<Rightarrow> bool list \<Rightarrow> nat \<times> wide" where
  "PrepareNetwork api env choices =
     (case ConfirmWifiAccess api env choices of
        Inl e \<Rightarrow> (3, [])
      | Inr i \<Rightarrow> if i = [] then (3, []) else (0, i @ [10]))"

text \<open>
  \<open>RunConsole\<close>: the profile the server is made with, if it is made, and the exit code; \<open>startOk\<close> is the
  result of its \<open>Start\<close>.
\<close>

definition RunConsole :: "GuidApi \<Rightarrow> GateEnv \<Rightarrow> bool list \<Rightarrow> bool \<Rightarrow> nat \<times> wide option" where
  "RunConsole api env choices startOk =
     (case ConfirmWifiAccess api env choices of
        Inl e \<Rightarrow> (3, None)
      | Inr i \<Rightarrow> if i = [] then (3, None) else (if startOk then 0 else 1, Some i))"

definition option_text :: "string \<Rightarrow> wide" where "option_text = map of_char"

record MainEnv =
  main_api :: GuidApi
  main_gate :: GateEnv
  main_choices :: "bool list"
  main_started :: bool
  main_pipe :: StatusPipe
  dispatcher_started :: bool

text \<open>The exit code and the networks of the server that is run, if one is: by the service or here.\<close>

definition host_wmain :: "MainEnv \<Rightarrow> wide list \<Rightarrow> nat \<times> wide list option" where
  "host_wmain env arguments =
     (let count = length arguments; option = (if count \<ge> 2 then arguments ! 1 else [])
      in if option = option_text ''--list-wifi'' \<and> count = 2 then (fst (ListWifi (main_api env) (main_gate env)), None)
         else if option = option_text ''--check-network'' \<and> count = 3
         then (fst (CheckNetwork (main_api env) (main_gate env) (arguments ! 2)), None)
         else if option = option_text ''--prepare-network'' \<and> count = 2
         then (fst (PrepareNetwork (main_api env) (main_gate env) (main_choices env)), None)
         else if option = option_text ''--pairing-code'' then (fst (ShowPairingCode (main_pipe env)), None)
         else if option = option_text ''--service'' \<and> count = 3
         then (if dispatcher_started env then (0, Some [arguments ! 2]) else (2, None))
         else if count = 1 \<or> option = option_text ''--console''
         then (case RunConsole (main_api env) (main_gate env) (main_choices env) (main_started env) of
                 (code, i) \<Rightarrow> (code, map_option (\<lambda>i. [i]) i))
         else (2, None))"

section \<open>The pairing code\<close>

lemma RotatePairingCode_text:
  "plain (pairing_code (RotatePairingCode random s))" "length (pairing_code (RotatePairingCode random s)) \<le> 6"
proof -
  have "c \<noteq> dquote \<and> c \<noteq> backslash \<and> 32 \<le> ord c" if "isdigit c" for c
    using that by (auto simp: isdigit_def ord_def)
  then have plain_dec: "plain (dec n)" for n
    using dec_digits [of _ n] by (auto simp: plain_def list_all_iff)
  have "unat (100000 + le_get32 bs 0 mod 900000) < 10 ^ 6" for bs
  proof -
    have "unat (le_get32 bs 0 mod 900000) < 900000" by (simp add: unat_mod)
    then show ?thesis by (simp add: unat_word_ariths)
  qed
  then have "length (dec (unat (100000 + le_get32 bs 0 mod 900000))) \<le> 6" for bs by (intro length_dec_le) simp_all
  then show "plain (pairing_code (RotatePairingCode random s))" "length (pairing_code (RotatePairingCode random s)) \<le> 6"
    using plain_dec by (auto simp: RotatePairingCode_def plain_def ord_def split: option.split)
qed

lemma StatusMessage_code:
  assumes "plain (pairing_code s)"
  shows "HostJsonString (StatusMessage s) ''pairingCode'' = Some (pairing_code s)"
proof -
  define rest where "rest = ''\",\"paired\":'' @ (if paired s then ''true'' else ''false'') @ ''}''"
  have m: "StatusMessage s = ''{\"type\":\"host_status\",\"pairingCode\":\"'' @ pairing_code s @ rest"
    by (simp add: StatusMessage_def rest_def)
  have start: "FindValueStart (StatusMessage s) ''pairingCode'' = Some 36"
    unfolding m by (simp add: FindValueStart_def find_from_def quoted_def skip_json_space_def json_space_def)
  have "StatusMessage s ! 36 = dquote" "36 < length (StatusMessage s)" "drop 37 (StatusMessage s) = pairing_code s @ rest"
    unfolding m by simp_all
  moreover have "rest = dquote # tl rest" by (simp add: rest_def)
  ultimately show ?thesis
    using host_string_loop_plain [OF assms, of "[]" "tl rest"] start by (simp add: HostJsonString_def)
qed

text \<open>
  C13. The command that asks the service for its pairing code prints the code that pairs. For whatever
  the random generator gave when the code was last made, and whatever else the state of the host is,
  the frame that the status pipe gives to a client is understood by \<open>ShowPairingCode\<close>, which prints
  exactly that code and exits with 0.
\<close>

theorem pairing_code_shown:
  assumes "pairing_code s = pairing_code (RotatePairingCode random before)"
  shows "ShowPairingCode \<lparr>pipe_waited = True, status_opened = True, status_read = Some (StatusFrame s)\<rparr> = (0, pairing_code s)"
proof -
  note code = RotatePairingCode_text [of random before, folded assms]
  have len: "0 < length (StatusMessage s)" "length (StatusMessage s) \<le> 100"
    using code(2) by (simp_all add: StatusMessage_def)
  then have payload: "control_payload (StatusMessage s)" by (auto simp: control_payload_def kMaxControlPayload_def)
  have "length (StatusFrame s) = length (StatusMessage s) + 4"
    using frame_bytes(1) [OF payload] by (simp add: StatusFrame_def)
  then have frame: "length (StatusFrame s) = length (StatusMessage s) + 4" "StatusFrame s \<noteq> []" by auto
  have "receive_all PushControl newControlDecoder [StatusFrame s] = (True, newControlDecoder, [StatusMessage s])"
    by (rule control_stream [where m = 8192]) (use payload len frame in \<open>simp_all add: StatusFrame_def kMaxControlPayload_def\<close>)
  then have "PushControl newControlDecoder (StatusFrame s) = (True, newControlDecoder, [StatusMessage s])"
    by (auto split: prod.splits bool.splits)
  then show ?thesis
    using frame len StatusMessage_code [OF code(1)] by (simp add: ShowPairingCode_def)
qed

theorem pairing_code_shown_witness:
  "ShowPairingCode \<lparr>pipe_waited = True, status_opened = True,
      status_read = Some (StatusFrame (RotatePairingCode (Some [1, 2, 3, 4]) newHost))\<rparr> = (0, dec 805985)"
proof -
  have "le_get32 [1, 2, 3, 4] 0 = 67305985" by (simp add: le_get32_def be_get32_def)
  then have "pairing_code (RotatePairingCode (Some [1, 2, 3, 4]) newHost) = dec 805985" by (simp add: RotatePairingCode_def)
  then show ?thesis
    using pairing_code_shown [of "RotatePairingCode (Some [1, 2, 3, 4]) newHost" "Some [1, 2, 3, 4]" newHost, OF refl] by (simp only:)
qed

section \<open>What the service reports\<close>

lemma service_stopping:
  assumes "service_handle g" "server_there g"
  shows "reported ((ServiceControlHandler True ^^ n) g) = reported g @ map (\<lambda>i. \<lparr>current_state = STOP_PENDING, exit_code = 0,
      accepts_stop = False, wait_hint = 5000, check_point = checkpoint g + i\<rparr>) [0..<n]"
    "checkpoint ((ServiceControlHandler True ^^ n) g) = checkpoint g + n"
    "service_handle ((ServiceControlHandler True ^^ n) g)" "server_there ((ServiceControlHandler True ^^ n) g)"
  using assms by (induction n) (simp_all add: ServiceControlHandler_def ReportServiceStatus_def pending_state_def)

text \<open>The states are reported in the order that the service manager expects, with growing check points while one is pending.\<close>

lemma service_reports_in_order:
  "map (\<lambda>r. (current_state r, check_point r))
     (reported (ServiceMain_end ((ServiceControlHandler True ^^ n) (ServiceMain_start True True newService)))) =
   (START_PENDING, 1) # (RUNNING, 0) # map (\<lambda>i. (STOP_PENDING, 2 + i)) [0..<n] @ [(STOPPED, 0)]"
proof -
  let ?g = "ServiceMain_start True True newService"
  have g: "service_handle ?g" "server_there ?g" "checkpoint ?g = 2"
      "map (\<lambda>r. (current_state r, check_point r)) (reported ?g) = [(START_PENDING, 1), (RUNNING, 0)]"
    by (simp_all add: ServiceMain_start_def ReportServiceStatus_def newService_def pending_state_def Let_def)
  show ?thesis
    using service_stopping [OF g(1,2), of n] g(3,4)
    by (simp add: ServiceMain_end_def ReportServiceStatus_def pending_state_def comp_def)
qed

text \<open>A service that cannot start its server says so, and its handle is not left at a server that is gone.\<close>

lemma service_start_failure:
  "map (\<lambda>r. (current_state r, exit_code r)) (reported (ServiceMain_start True False newService)) =
     [(START_PENDING, 0), (STOPPED, ERROR_SERVICE_SPECIFIC_ERROR)] \<and>
   \<not> server_there (ServiceMain_start True False newService)"
  by (simp add: ServiceMain_start_def ReportServiceStatus_def newService_def pending_state_def Let_def)

end
