(* ===== verification/Host_Listener.thy ===== *)
theory Host_Listener
  imports Host_Server Network_Gate
begin

text \<open>
  The listening side of the host's control thread, \<open>HostServer::ControlLoop\<close> in
  \<open>host/app/host_server.cpp\<close>: in each turn it asks the network gate for the approved addresses, listens
  for half a second at each, and asks the gate again before it accepts. The session with a client
  is in \<open>Host_Server\<close>.
\<close>

datatype listen_failure =
    SocketFailed nat
  | ExclusiveFailed nat
  | AddressInvalid string
  | BindFailed string nat
  | ListenFailed string nat

text \<open>
  The answers for one address: the stop event, the gate before listening and before accepting, and
  the socket calls with their error numbers.
\<close>

record ListenEnv =
  stop_signaled :: bool
  gate_before_listen :: GateEnv
  socket_error :: "nat option"
  exclusive_error :: "nat option"
  bind_error :: "nat option"
  listen_error :: "nat option"
  select_result :: int
  gate_before_accept :: GateEnv
  accept_result :: "sockaddr_in option"

text \<open>
  What the thread keeps and shows: the addresses announced, the last failure and what was printed,
  the addresses at which sockets listened, and the clients with the address they were accepted at, as
  text and as it was bound.
\<close>

record ListenerState =
  announced :: "string list"
  last_failure :: "listen_failure option"
  failures_shown :: "listen_failure list"
  addresses_shown :: "string list"
  listened_at :: "u32 list"
  accepted_clients :: "(string \<times> u32 \<times> sockaddr_in) list"
  loop_ended :: bool

definition newListener :: ListenerState where
  "newListener = \<lparr>announced = [], last_failure = None, failures_shown = [], addresses_shown = [], listened_at = [],
     accepted_clients = [], loop_ended = False\<rparr>"

definition reportListenFailure :: "listen_failure \<Rightarrow> ListenerState \<Rightarrow> ListenerState" where
  "reportListenFailure message s =
     (if last_failure s \<noteq> Some message
      then s\<lparr>failures_shown := failures_shown s @ [message], last_failure := Some message\<rparr> else s)"

definition announce :: "string \<Rightarrow> ListenerState \<Rightarrow> ListenerState" where
  "announce address s =
     (if address \<in> set (announced s) then s
      else s\<lparr>announced := address # announced s, addresses_shown := addresses_shown s @ [address]\<rparr>)"

text \<open>\<open>pton\<close> is \<open>InetPtonA\<close>: the address that a text denotes, if any.\<close>

definition ListenAddress ::
    "(string \<Rightarrow> u32 option) \<Rightarrow> GuidApi \<Rightarrow> wide list \<Rightarrow> ListenEnv \<Rightarrow> string \<Rightarrow> ListenerState \<Rightarrow> ListenerState" where
  "ListenAddress pton api approved env address s =
     (if loop_ended s then s
      else if stop_signaled env then s\<lparr>loop_ended := True\<rparr>
      else if \<not> IsAllowedWifiIpv4 api (gate_before_listen env) address approved then s
      else
        (case socket_error env of
           Some n \<Rightarrow> reportListenFailure (SocketFailed n) s
         | None \<Rightarrow>
             (case exclusive_error env of
                Some n \<Rightarrow> reportListenFailure (ExclusiveFailed n) s
              | None \<Rightarrow>
                  (case pton address of
                     None \<Rightarrow> reportListenFailure (AddressInvalid address) s
                   | Some a \<Rightarrow>
                       (case bind_error env of
                          Some n \<Rightarrow> reportListenFailure (BindFailed address n) s
                        | None \<Rightarrow>
                            (case listen_error env of
                               Some n \<Rightarrow> reportListenFailure (ListenFailed address n) s
                             | None \<Rightarrow>
                                 (let s = announce address (s\<lparr>last_failure := None, listened_at := listened_at s @ [a]\<rparr>)
                                  in if select_result env > 0 \<and> IsAllowedWifiIpv4 api (gate_before_accept env) address approved
                                     then (case accept_result env of
                                             None \<Rightarrow> s
                                           | Some from_peer \<Rightarrow> s\<lparr>accepted_clients := accepted_clients s @ [(address, a, from_peer)]\<rparr>)
                                     else s)))))))"

text \<open>One turn of the loop. An address for which no answers are left ends the part of the run that is looked at.\<close>

definition ControlTurn :: "(string \<Rightarrow> u32 option) \<Rightarrow> GuidApi \<Rightarrow> wide list \<Rightarrow> GateEnv \<times> ListenEnv list \<Rightarrow> ListenerState \<Rightarrow> ListenerState" where
  "ControlTurn pton api approved turn s =
     (if loop_ended s then s
      else
        (case AllowedWifiIpv4Addresses api (fst turn) approved of
           Inl e \<Rightarrow> s\<lparr>announced := []\<rparr>
         | Inr addresses \<Rightarrow>
             (if addresses = [] then s\<lparr>announced := []\<rparr>
              else fold (\<lambda>(env, address). ListenAddress pton api approved env address) (zip (snd turn) addresses) s)))"

definition ControlTurns :: "(string \<Rightarrow> u32 option) \<Rightarrow> GuidApi \<Rightarrow> wide list \<Rightarrow> (GateEnv \<times> ListenEnv list) list \<Rightarrow> ListenerState" where
  "ControlTurns pton api approved turns = fold (ControlTurn pton api approved) turns newListener"

section \<open>Where clients are accepted\<close>

definition accepted_ok :: "(string \<Rightarrow> u32 option) \<Rightarrow> GuidApi \<Rightarrow> wide list \<Rightarrow> ListenEnv set \<Rightarrow> ListenerState \<Rightarrow> bool" where
  "accepted_ok pton api approved E s \<longleftrightarrow>
     (\<forall>(address, bound, from_peer) \<in> set (accepted_clients s). pton address = Some bound \<and>
        (\<exists>env \<in> E. accept_result env = Some from_peer \<and>
           IsAllowedWifiIpv4 api (gate_before_accept env) address approved))"

lemma accepted_ok_simps [simp]:
  "accepted_ok pton api approved E (s\<lparr>announced := x\<rparr>) = accepted_ok pton api approved E s" "accepted_ok pton api approved E newListener"
  by (simp_all add: accepted_ok_def newListener_def)

lemma ListenAddress_ok:
  "accepted_ok pton api approved E s \<Longrightarrow> env \<in> E \<Longrightarrow> accepted_ok pton api approved E (ListenAddress pton api approved env address s)"
  by (auto simp: accepted_ok_def ListenAddress_def reportListenFailure_def announce_def Let_def split: option.splits)

lemma ControlTurn_ok:
  assumes "accepted_ok pton api approved E s" "set (snd turn) \<subseteq> E"
  shows "accepted_ok pton api approved E (ControlTurn pton api approved turn s)"
proof -
  have fold: "accepted_ok pton api approved E (fold (\<lambda>(env, address). ListenAddress pton api approved env address) ps s)"
    if "\<forall>p \<in> set ps. fst p \<in> E" "accepted_ok pton api approved E s" for ps s
    using that by (induction ps arbitrary: s) (auto simp: ListenAddress_ok)
  have "\<forall>p \<in> set (zip (snd turn) addresses). fst p \<in> E" for addresses
    using assms(2) by (auto dest: set_zip_leftD)
  then have "accepted_ok pton api approved E (fold (\<lambda>(env, address). ListenAddress pton api approved env address) (zip (snd turn) addresses) s)"
    for addresses by (rule fold) (rule assms(1))
  then show ?thesis using assms(1) by (simp add: ControlTurn_def split: sum.split)
qed

lemma ControlTurns_ok: "accepted_ok pton api approved (\<Union>turn \<in> set turns. set (snd turn)) (ControlTurns pton api approved turns)"
proof -
  have run: "accepted_ok pton api approved E (fold (ControlTurn pton api approved) turns s)"
    if "accepted_ok pton api approved E s" "\<forall>turn \<in> set turns. set (snd turn) \<subseteq> E" for E s
    using that by (induction turns arbitrary: s) (auto simp: ControlTurn_ok)
  show ?thesis unfolding ControlTurns_def by (rule run) auto
qed

text \<open>
  C9. The host takes no connection on a network the user has not approved. In every run of the control
  loop, a client is accepted only at an address which the gate, asked again right before the accept,
  finds on an adapter that is up and of the Wi-Fi type and in a live connection of an enumerated
  network whose id is one of the approved ids; the socket was bound to the address that this text denotes.
\<close>

theorem clients_only_from_approved_wifi:
  assumes "inj (guid_text api)" "(address, bound, from_peer) \<in> set (accepted_clients (ControlTurns pton api approved turns))"
  shows "pton address = Some bound \<and> (\<exists>turn \<in> set turns. \<exists>env \<in> set (snd turn). accept_result env = Some from_peer \<and>
    (\<exists>n \<in> set (enumerated (networks (gate_before_accept env))). \<exists>raw \<in> set approved.
       parse_guid api raw = Some (snd (GetNetworkId n)) \<and>
       network_holds (wifi_holds api (snd (GetAdapters (adapters_env (gate_before_accept env))))) address n))"
proof -
  obtain turn env where t: "pton address = Some bound" "turn \<in> set turns" "env \<in> set (snd turn)" "accept_result env = Some from_peer"
      "IsAllowedWifiIpv4 api (gate_before_accept env) address approved"
    using ControlTurns_ok [of pton api approved turns] assms(2) by (fastforce simp: accepted_ok_def)
  then obtain addresses where "AllowedWifiIpv4Addresses api (gate_before_accept env) approved = Inr addresses" "address \<in> set addresses"
    by (auto simp: IsAllowedWifiIpv4_def split: sum.splits)
  then have "\<exists>n \<in> set (enumerated (networks (gate_before_accept env))). \<exists>raw \<in> set approved.
       parse_guid api raw = Some (snd (GetNetworkId n)) \<and>
       network_holds (wifi_holds api (snd (GetAdapters (adapters_env (gate_before_accept env))))) address n"
    using AllowedWifiIpv4Addresses_exactly [OF assms(1)] by blast
  then show ?thesis using t by blast
qed

definition exampleListen :: ListenEnv where
  "exampleListen = \<lparr>stop_signaled = False, gate_before_listen = exampleGate, socket_error = None, exclusive_error = None,
     bind_error = None, listen_error = None, select_result = 1, gate_before_accept = exampleGate,
     accept_result = Some \<lparr>sin_addr = 0x0A000009, sin_port = 50000\<rparr>\<rparr>"

definition examplePton :: "string \<Rightarrow> u32 option" where
  "examplePton address = (if address = ''10.0.0.2'' then Some 0x0A000002 else None)"

theorem clients_only_from_approved_wifi_witness:
  "examplePton ''10.0.0.2'' = Some 0x0A000002 \<and> (\<exists>turn \<in> set [(exampleGate, [exampleListen])]. \<exists>env \<in> set (snd turn).
     accept_result env = Some \<lparr>sin_addr = 0x0A000009, sin_port = 50000\<rparr> \<and>
    (\<exists>n \<in> set (enumerated (networks (gate_before_accept env))). \<exists>raw \<in> set [[1]].
       parse_guid exampleApi raw = Some (snd (GetNetworkId n)) \<and>
       network_holds (wifi_holds exampleApi (snd (GetAdapters (adapters_env (gate_before_accept env))))) ''10.0.0.2'' n))"
proof (rule clients_only_from_approved_wifi)
  show "inj (guid_text exampleApi)" by (simp add: exampleApi_def)
  have "AllowedWifiIpv4Addresses exampleApi exampleGate [[1]] = Inr [''10.0.0.2'']" by (simp add: gate_example)
  then show "(''10.0.0.2'', 0x0A000002, \<lparr>sin_addr = 0x0A000009, sin_port = 50000\<rparr>) \<in>
      set (accepted_clients (ControlTurns examplePton exampleApi [[1]] [(exampleGate, [exampleListen])]))"
    by (simp add: ControlTurns_def ControlTurn_def ListenAddress_def exampleListen_def examplePton_def newListener_def IsAllowedWifiIpv4_def
        announce_def)
qed

end
